(* ===== verification/Goaria_Prelude.thy ===== *)
theory Goaria_Prelude
  imports Main "HOL-Library.AList" "HOL-Library.Sublist" "HOL-Library.Multiset"
begin

text \<open>
  The shared library of the development: what the Go sources use of the Go language and its
  standard library (64-bit integers, \<open>strconv\<close>, \<open>strings\<close>, \<open>errors\<close>), generic
  lemmas on association lists and lists, and the interface of a transition system with an
  invariant. A Go string is a list of bytes (\<open>char\<close>); a Go map is an association list with
  distinct keys, whose order stands for one iteration order of the map, so that a statement over
  all such lists holds for every iteration order.
\<close>

named_theorems go_defs \<open>definitions of the small Go helpers, unfolded together\<close>
named_theorems inv_simps \<open>field equations used by the invariant proofs\<close>

section \<open>Errors\<close>

text \<open>
  \<open>Errorf f args\<close> is \<open>fmt.Errorf(f, args...)\<close>: the format and the printed arguments are
  kept apart. \<open>ErrWrap f e\<close> is an error that wraps \<open>e\<close> with \<open>%w\<close>, and \<open>ErrJoin\<close> is
  \<open>errors.Join\<close>. The sentinel errors are those of errors.go, then those of the packages context and io, then
  the error types of downloader.go and download_util.go, \<open>*url.Error\<close>, and \<open>NetError\<close> for any other error that is a
  \<open>net.Error\<close>.
\<close>

datatype err =
    ErrNotFound
  | ErrInvalidGID
  | ErrInvalidParams
  | ErrUnsupportedProtocol
  | ErrUnsupportedMethod
  | ErrShutdown
  | ContextCanceled
  | DeadlineExceeded
  | EOF
  | ErrUnexpectedEOF
  | ErrShortWrite
  | HttpStatusError string string int string
  | HttpProtocolError string "string list"
  | RangeBodyError err int
  | UrlError err
  | NetError string
  | Errorf string "string list"
  | ErrWrap string err
  | ErrJoin "err list"

type_synonym 'a res = "err + 'a"

definition bindR :: "'a res \<Rightarrow> ('a \<Rightarrow> 'b res) \<Rightarrow> 'b res" where
  "bindR r f = (case r of Inl e \<Rightarrow> Inl e | Inr x \<Rightarrow> f x)"

lemma bindR_simps [simp]: "bindR (Inl e) f = Inl e" "bindR (Inr x) f = f x"
  by (simp_all add: bindR_def)

lemma bindR_eq_Inr: "bindR r f = Inr y \<longleftrightarrow> (\<exists>x. r = Inr x \<and> f x = Inr y)"
  by (cases r) auto

text \<open>\<open>errors.Is\<close>: the error itself or an error it wraps.\<close>

fun errIs :: "err \<Rightarrow> err \<Rightarrow> bool" where
  "errIs (ErrWrap f e) t \<longleftrightarrow> ErrWrap f e = t \<or> errIs e t"
| "errIs (RangeBodyError e n) t \<longleftrightarrow> RangeBodyError e n = t \<or> errIs e t"
| "errIs (UrlError e) t \<longleftrightarrow> UrlError e = t \<or> errIs e t"
| "errIs (ErrJoin es) t \<longleftrightarrow> ErrJoin es = t \<or> list_ex (\<lambda>e. errIs e t) es"
| "errIs e t \<longleftrightarrow> e = t"

text \<open>The first error of a kind in the tree of wrapped errors, in the order \<open>errors.As\<close> visits it.\<close>

fun errAs :: "(err \<Rightarrow> bool) \<Rightarrow> err \<Rightarrow> err option" where
  "errAs P (ErrWrap f e) = (if P (ErrWrap f e) then Some (ErrWrap f e) else errAs P e)"
| "errAs P (RangeBodyError e n) = (if P (RangeBodyError e n) then Some (RangeBodyError e n) else errAs P e)"
| "errAs P (UrlError e) = (if P (UrlError e) then Some (UrlError e) else errAs P e)"
| "errAs P (ErrJoin es) = (if P (ErrJoin es) then Some (ErrJoin es) else
     (case filter (\<lambda>x. x \<noteq> None) (map (errAs P) es) of [] \<Rightarrow> None | x # _ \<Rightarrow> x))"
| "errAs P e = (if P e then Some e else None)"

section \<open>64-bit integers\<close>

abbreviation MaxInt64 :: int where "MaxInt64 \<equiv> 9223372036854775807"
abbreviation MinInt64 :: int where "MinInt64 \<equiv> - 9223372036854775808"

definition isInt64 :: "int \<Rightarrow> bool" where
  "isInt64 n \<longleftrightarrow> MinInt64 \<le> n \<and> n \<le> MaxInt64"

definition wrap64 :: "int \<Rightarrow> int" where
  "wrap64 n = (n + 9223372036854775808) mod 18446744073709551616 - 9223372036854775808"

lemma wrap64_id: "isInt64 n \<Longrightarrow> wrap64 n = n"
  by (simp add: isInt64_def wrap64_def)

lemma wrap64_range: "isInt64 (wrap64 n)"
proof -
  have "0 \<le> (n + 9223372036854775808) mod 18446744073709551616"
    and "(n + 9223372036854775808) mod 18446744073709551616 < 18446744073709551616"
    by simp_all
  then show ?thesis unfolding isInt64_def wrap64_def by linarith
qed

lemma wrap64_nonneg_id: "0 \<le> n \<Longrightarrow> n \<le> MaxInt64 \<Longrightarrow> wrap64 n = n"
  by (rule wrap64_id) (simp add: isInt64_def)

section \<open>Decimal numbers\<close>

definition isDigit :: "char \<Rightarrow> bool" where
  "isDigit c \<longleftrightarrow> 48 \<le> (of_char c :: nat) \<and> (of_char c :: nat) \<le> 57"

definition digitVal :: "char \<Rightarrow> nat" where
  "digitVal c = (of_char c :: nat) - 48"

definition digitChar :: "nat \<Rightarrow> char" where
  "digitChar d = char_of (48 + d)"

lemma isDigit_digitChar: "d < 10 \<Longrightarrow> isDigit (digitChar d)"
  by (simp add: isDigit_def digitChar_def)

lemma digitVal_digitChar: "d < 10 \<Longrightarrow> digitVal (digitChar d) = d"
  by (simp add: digitVal_def digitChar_def)

fun digitsVal :: "nat \<Rightarrow> string \<Rightarrow> nat" where
  "digitsVal acc [] = acc"
| "digitsVal acc (c # cs) = digitsVal (10 * acc + digitVal c) cs"

fun showNat :: "nat \<Rightarrow> string" where
  "showNat n = (if n < 10 then [digitChar n] else showNat (n div 10) @ [digitChar (n mod 10)])"

declare showNat.simps [simp del]

lemma digitsVal_append: "digitsVal acc (xs @ ys) = digitsVal (digitsVal acc xs) ys"
  by (induction xs arbitrary: acc) auto

lemma showNat_digits: "c \<in> set (showNat n) \<Longrightarrow> isDigit c"
proof (induction n rule: showNat.induct)
  case (1 n)
  then show ?case
    by (subst (asm) (2) showNat.simps) (auto simp: isDigit_digitChar split: if_splits)
qed

lemma showNat_nonempty [simp]: "showNat n \<noteq> []"
  by (subst showNat.simps) simp

lemma digitsVal_showNat: "digitsVal 0 (showNat n) = n"
proof (induction n rule: showNat.induct)
  case (1 n)
  show ?case
  proof (cases "n < 10")
    case True
    then show ?thesis by (subst showNat.simps) (simp add: digitVal_digitChar)
  next
    case False
    with "1.IH" show ?thesis
      by (subst showNat.simps) (simp add: digitsVal_append digitVal_digitChar)
  qed
qed

text \<open>\<open>strconv.Itoa\<close> / \<open>FormatInt(n, 10)\<close>, and \<open>strconv.Atoi\<close> / \<open>ParseInt(s, 10, 64)\<close>
  (\<open>None\<close> for its error): an optional sign, at least one digit, a value in the 64-bit range.\<close>

definition Itoa :: "int \<Rightarrow> string" where
  "Itoa n = (if n < 0 then CHR ''-'' # showNat (nat (- n)) else showNat (nat n))"

definition parseUint :: "string \<Rightarrow> nat option" where
  "parseUint s = (if s \<noteq> [] \<and> list_all isDigit s then Some (digitsVal 0 s) else None)"

definition Atoi :: "string \<Rightarrow> int option" where
  "Atoi s = (case s of
       [] \<Rightarrow> None
     | c # cs \<Rightarrow>
        (case (if c = CHR ''-'' then map_option (\<lambda>n. - int n) (parseUint cs)
               else if c = CHR ''+'' then map_option int (parseUint cs)
               else map_option int (parseUint s)) of
           None \<Rightarrow> None
         | Some n \<Rightarrow> if isInt64 n then Some n else None))"

lemma parseUint_showNat [simp]: "parseUint (showNat n) = Some n"
  by (auto simp: parseUint_def list_all_iff digitsVal_showNat showNat_digits)

lemma showNat_hd_digit: "showNat n = c # cs \<Longrightarrow> isDigit c"
  using showNat_digits [of c n] by simp

lemma isDigit_not_sign [simp]: "\<not> isDigit (CHR ''-'')" "\<not> isDigit (CHR ''+'')"
  by (simp_all add: isDigit_def)

lemma Atoi_Itoa: "isInt64 n \<Longrightarrow> Atoi (Itoa n) = Some n"
proof (cases "n < 0")
  case True
  assume "isInt64 n"
  with True show ?thesis by (simp add: Itoa_def Atoi_def)
next
  case False
  assume r: "isInt64 n"
  obtain c cs where s: "showNat (nat n) = c # cs"
    using showNat_nonempty by (cases "showNat (nat n)") auto
  then have "isDigit c" by (rule showNat_hd_digit)
  then have "c \<noteq> CHR ''-''" "c \<noteq> CHR ''+''" by auto
  moreover have "parseUint (c # cs) = Some (nat n)" using s parseUint_showNat by metis
  ultimately show ?thesis using False r s by (simp add: Itoa_def Atoi_def)
qed

lemma Atoi_range: "Atoi s = Some n \<Longrightarrow> isInt64 n"
  by (auto simp: Atoi_def split: list.splits option.splits if_splits)

lemma Itoa_nonneg_digits: "0 \<le> n \<Longrightarrow> c \<in> set (Itoa n) \<Longrightarrow> isDigit c"
  by (auto simp: Itoa_def dest: showNat_digits split: if_splits)

lemma Itoa_nonempty [simp]: "Itoa n \<noteq> []"
  by (simp add: Itoa_def)

end
