(* ===== verification/Go_Strings.thy ===== *)
theory Go_Strings
  imports Goaria_Prelude
begin

text \<open>
  The functions of Go's \<open>strings\<close> and \<open>unicode\<close> packages the sources use, on byte
  strings. White space is Unicode's: its code points appear as their UTF-8 byte sequences, none of
  which occurs inside another rune, so a scan by bytes finds the same white space as Go's scan by
  runes. Case mapping is exact on ASCII and on the two or three non-ASCII runes that map to an
  ASCII letter; other non-ASCII letters keep their bytes, so a comparison of the result with an
  ASCII literal is the one Go makes.
\<close>

section \<open>Prefixes, cutting, splitting, joining\<close>

definition HasPrefix :: "string \<Rightarrow> string \<Rightarrow> bool" where
  "HasPrefix s p \<longleftrightarrow> prefix p s"

definition HasSuffix :: "string \<Rightarrow> string \<Rightarrow> bool" where
  "HasSuffix s p \<longleftrightarrow> suffix p s"

definition TrimPrefix :: "string \<Rightarrow> string \<Rightarrow> string" where
  "TrimPrefix s p = (if HasPrefix s p then drop (length p) s else s)"

definition TrimSuffix :: "string \<Rightarrow> string \<Rightarrow> string" where
  "TrimSuffix s p = (if HasSuffix s p then take (length s - length p) s else s)"

text \<open>\<open>strings.Cut\<close> at a one-byte separator: what is before it, what is after it, and whether it
  was found.\<close>

fun Cut :: "string \<Rightarrow> char \<Rightarrow> string \<times> string \<times> bool" where
  "Cut [] c = ([], [], False)"
| "Cut (x # xs) c =
     (if x = c then ([], xs, True) else (case Cut xs c of (a, b, ok) \<Rightarrow> (x # a, b, ok)))"

text \<open>\<open>strings.Split\<close> at a one-byte separator: always at least one piece.\<close>

fun Split :: "string \<Rightarrow> char \<Rightarrow> string list" where
  "Split [] c = [[]]"
| "Split (x # xs) c =
     (if x = c then [] # Split xs c
      else (case Split xs c of [] \<Rightarrow> [[x]] | p # ps \<Rightarrow> (x # p) # ps))"

fun Join :: "string list \<Rightarrow> string \<Rightarrow> string" where
  "Join [] sep = []"
| "Join [x] sep = x"
| "Join (x # y # ys) sep = x @ sep @ Join (y # ys) sep"

definition ContainsByte :: "string \<Rightarrow> char \<Rightarrow> bool" where
  "ContainsByte s c \<longleftrightarrow> c \<in> set s"

definition ContainsAny :: "string \<Rightarrow> string \<Rightarrow> bool" where
  "ContainsAny s cs \<longleftrightarrow> list_ex (\<lambda>c. c \<in> set cs) s"

lemma Cut_notin: "c \<notin> set s \<Longrightarrow> Cut s c = (s, [], False)"
  by (induction s) auto

lemma Cut_found: "c \<notin> set s \<Longrightarrow> Cut (s @ c # t) c = (s, t, True)"
  by (induction s) auto

lemma Cut_eq: "Cut s c = (a, b, True) \<Longrightarrow> s = a @ c # b \<and> c \<notin> set a"
  by (induction s arbitrary: a) (auto split: if_splits prod.splits)

lemma Split_nonempty [simp]: "Split s c \<noteq> []"
  by (cases s) (auto split: list.splits)

lemma Split_no_sep: "c \<notin> set s \<Longrightarrow> Split s c = [s]"
  by (induction s) auto

lemma Split_append: "c \<notin> set s \<Longrightarrow> Split (s @ c # t) c = s # Split t c"
  by (induction s) (auto split: list.splits)

lemma Split_pieces: "p \<in> set (Split s c) \<Longrightarrow> c \<notin> set p"
  by (induction s arbitrary: p) (fastforce split: if_splits list.splits)+

lemma Split_Join:
  "xs \<noteq> [] \<Longrightarrow> (\<And>x. x \<in> set xs \<Longrightarrow> c \<notin> set x) \<Longrightarrow> Split (Join xs [c]) c = xs"
  by (induction xs "[c]" rule: Join.induct) (auto simp: Split_no_sep Split_append)

lemma Join_Split: "Join (Split s c) [c] = s"
proof (induction s)
  case (Cons x xs)
  obtain p ps where sp: "Split xs c = p # ps"
    using Split_nonempty by (cases "Split xs c") auto
  with Cons.IH show ?case by (cases ps) auto
qed simp

section \<open>White space\<close>

definition asciiSpace :: "char \<Rightarrow> bool" where
  "asciiSpace c \<longleftrightarrow> (of_char c :: nat) \<in> {9, 10, 11, 12, 13, 32}"

text \<open>The UTF-8 sequences of the runes for which \<open>unicode.IsSpace\<close> holds.\<close>

definition spaceSeqs :: "string list" where
  "spaceSeqs = map (map char_of)
     ([[9], [10], [11], [12], [13], [32], [194, 133], [194, 160], [225, 154, 128],
       [226, 128, 128], [226, 128, 129], [226, 128, 130], [226, 128, 131], [226, 128, 132],
       [226, 128, 133], [226, 128, 134], [226, 128, 135], [226, 128, 136], [226, 128, 137],
       [226, 128, 138], [226, 128, 168], [226, 128, 169], [226, 128, 175], [226, 129, 159],
       [227, 128, 128]] :: nat list list)"

text \<open>The number of bytes of the sequence of \<open>qs\<close> that \<open>s\<close> starts with, 0 if none.\<close>

definition leadLen :: "string list \<Rightarrow> string \<Rightarrow> nat" where
  "leadLen qs s = (case find (\<lambda>q. prefix q s) qs of None \<Rightarrow> 0 | Some q \<Rightarrow> length q)"

lemma leadLen_le: "leadLen qs s \<le> length s"
  by (auto simp: leadLen_def find_Some_iff prefix_length_le split: option.splits)

function stripLead :: "string list \<Rightarrow> string \<Rightarrow> string" where
  "stripLead qs s = (let w = leadLen qs s in if w = 0 then s else stripLead qs (drop w s))"
  by pat_completeness auto
termination
proof (relation "measure (\<lambda>(qs, s). length s)")
  fix qs :: "string list" and s :: string and w
  assume "w = leadLen qs s" "w \<noteq> 0"
  with leadLen_le [of qs s] show "((qs, drop w s), (qs, s)) \<in> measure (\<lambda>(qs, s). length s)"
    by simp
qed simp

declare stripLead.simps [simp del]

definition TrimLeftSpace :: "string \<Rightarrow> string" where
  "TrimLeftSpace s = stripLead spaceSeqs s"

definition TrimRightSpace :: "string \<Rightarrow> string" where
  "TrimRightSpace s = rev (stripLead (map rev spaceSeqs) (rev s))"

definition TrimSpace :: "string \<Rightarrow> string" where
  "TrimSpace s = TrimRightSpace (TrimLeftSpace s)"

text \<open>\<open>strings.IndexFunc(s, unicode.IsSpace) >= 0\<close>.\<close>

fun hasSpace :: "string \<Rightarrow> bool" where
  "hasSpace [] \<longleftrightarrow> False"
| "hasSpace (c # cs) \<longleftrightarrow> leadLen spaceSeqs (c # cs) \<noteq> 0 \<or> hasSpace cs"

text \<open>\<open>strings.Fields\<close>: the maximal runs of bytes with no white space.\<close>

function fieldsFrom :: "string \<Rightarrow> string \<Rightarrow> string list" where
  "fieldsFrom acc s =
     (case s of
        [] \<Rightarrow> (if acc = [] then [] else [rev acc])
      | c # cs \<Rightarrow>
         (let w = leadLen spaceSeqs s in
          if w = 0 then fieldsFrom (c # acc) cs
          else (if acc = [] then [] else [rev acc]) @ fieldsFrom [] (drop w s)))"
  by pat_completeness auto
termination
proof (relation "measure (\<lambda>(acc, s). length s)")
  fix acc s c cs w
  assume "s = c # cs" "w = leadLen spaceSeqs s" "w \<noteq> 0"
  with leadLen_le [of spaceSeqs s]
  show "(([], drop w s), (acc, s)) \<in> measure (\<lambda>(acc, s). length s)" by simp
qed auto

declare fieldsFrom.simps [simp del]

definition Fields :: "string \<Rightarrow> string list" where
  "Fields s = fieldsFrom [] s"

lemma spaceSeqs_nonempty: "q \<in> set spaceSeqs \<Longrightarrow> q \<noteq> []"
  by (auto simp: spaceSeqs_def)

lemma spaceSeqs_bytes:
  "q \<in> set spaceSeqs \<Longrightarrow> c \<in> set q \<Longrightarrow> 128 \<le> (of_char c :: nat) \<or> asciiSpace c"
  unfolding spaceSeqs_def asciiSpace_def by auto

lemma leadLen_zero_iff:
  "[] \<notin> set qs \<Longrightarrow> leadLen qs s = 0 \<longleftrightarrow> (\<forall>q \<in> set qs. \<not> prefix q s)"
  by (auto simp: leadLen_def find_None_iff find_Some_iff split: option.splits) (metis nth_mem)

lemma nil_not_space: "[] \<notin> set spaceSeqs" "[] \<notin> set (map rev spaceSeqs)"
  using spaceSeqs_nonempty by auto

lemmas spaceLen_zero = leadLen_zero_iff [OF nil_not_space(1)] leadLen_zero_iff [OF nil_not_space(2)]

lemma leadLen_nil [simp]: "leadLen qs [] = 0"
  using leadLen_le [of qs "[]"] by simp

lemma stripLead_id: "leadLen qs s = 0 \<Longrightarrow> stripLead qs s = s"
  by (subst stripLead.simps) simp

lemma stripLead_nil [simp]: "stripLead qs [] = []"
  by (simp add: stripLead_id)

lemma stripLead_no_lead: "leadLen qs (stripLead qs s) = 0"
proof (induction qs s rule: stripLead.induct)
  case (1 qs s)
  then show ?case by (subst stripLead.simps) (simp add: Let_def)
qed

lemma stripLead_suffix: "suffix (stripLead qs s) s"
proof (induction qs s rule: stripLead.induct)
  case (1 qs s)
  show ?case
  proof (cases "leadLen qs s = 0")
    case True
    then show ?thesis by (simp add: stripLead_id)
  next
    case False
    with 1 have "suffix (stripLead qs (drop (leadLen qs s) s)) (drop (leadLen qs s) s)" by simp
    also have "suffix (drop (leadLen qs s) s) s" by (rule suffix_drop)
    finally show ?thesis using False by (subst stripLead.simps) (simp add: Let_def)
  qed
qed

text \<open>A byte that is neither ASCII white space nor above 127 (a printable ASCII byte) is in no
  white-space sequence.\<close>

definition plainByte :: "char \<Rightarrow> bool" where
  "plainByte c \<longleftrightarrow> (of_char c :: nat) < 128 \<and> \<not> asciiSpace c"

lemma plain_not_in_space: "plainByte c \<Longrightarrow> q \<in> set spaceSeqs \<Longrightarrow> c \<notin> set q"
  using spaceSeqs_bytes by (fastforce simp: plainByte_def)

lemma leadLen_plain: "plainByte c \<Longrightarrow> leadLen spaceSeqs (c # cs) = 0"
proof -
  assume c: "plainByte c"
  have "\<not> prefix q (c # cs)" if "q \<in> set spaceSeqs" for q
    using spaceSeqs_nonempty [OF that] plain_not_in_space [OF c that] by (cases q) auto
  then show ?thesis by (simp add: spaceLen_zero)
qed

lemma hasSpace_iff: "hasSpace s \<longleftrightarrow> (\<exists>q \<in> set spaceSeqs. sublist q s)"
proof (induction s)
  case (Cons c cs)
  have "hasSpace (c # cs) \<longleftrightarrow> (\<exists>q \<in> set spaceSeqs. prefix q (c # cs)) \<or> (\<exists>q \<in> set spaceSeqs. sublist q cs)"
    using Cons.IH by (auto simp: spaceLen_zero)
  also have "\<dots> \<longleftrightarrow> (\<exists>q \<in> set spaceSeqs. sublist q (c # cs))"
    by (auto simp: sublist_Cons_right)
  finally show ?case .
qed (use spaceSeqs_nonempty in auto)

lemma hasSpace_append_left: "\<not> hasSpace (xs @ ys) \<Longrightarrow> \<not> hasSpace xs \<and> \<not> hasSpace ys"
  unfolding hasSpace_iff by (meson sublist_append)

lemma hasSpace_plain: "list_all plainByte s \<Longrightarrow> \<not> hasSpace s"
  by (induction s) (auto simp: leadLen_plain)

lemma no_space_lead: "\<not> hasSpace s \<Longrightarrow> leadLen spaceSeqs s = 0"
  by (cases s) auto

lemma no_space_trail: "\<not> hasSpace s \<Longrightarrow> leadLen (map rev spaceSeqs) (rev s) = 0"
  unfolding hasSpace_iff spaceLen_zero
  by (auto simp: suffix_to_prefix [symmetric])

lemma TrimSpace_id_iff:
  "TrimSpace s = s \<longleftrightarrow> leadLen spaceSeqs s = 0 \<and> leadLen (map rev spaceSeqs) (rev s) = 0"
proof
  assume eq: "TrimSpace s = s"
  let ?l = "TrimLeftSpace s"
  have suf: "suffix ?l s" by (simp add: TrimLeftSpace_def stripLead_suffix)
  have "suffix (stripLead (map rev spaceSeqs) (rev ?l)) (rev ?l)" by (rule stripLead_suffix)
  then have "length (TrimSpace s) \<le> length ?l"
    by (simp add: TrimSpace_def TrimRightSpace_def suffix_length_le [of _ "rev ?l", simplified])
  with eq suf have l: "?l = s"
    by (metis suffix_length_le le_antisym suffix_order.eq_iff append_eq_append_conv suffix_def self_append_conv2 same_length_different)
  have "leadLen spaceSeqs s = 0" using stripLead_no_lead [of spaceSeqs s] l
    by (simp add: TrimLeftSpace_def)
  moreover have "rev s = stripLead (map rev spaceSeqs) (rev s)"
    using eq l by (simp add: TrimSpace_def TrimRightSpace_def rev_swap)
  then have "leadLen (map rev spaceSeqs) (rev s) = 0" using stripLead_no_lead by metis
  ultimately show "leadLen spaceSeqs s = 0 \<and> leadLen (map rev spaceSeqs) (rev s) = 0" by simp
next
  assume "leadLen spaceSeqs s = 0 \<and> leadLen (map rev spaceSeqs) (rev s) = 0"
  then show "TrimSpace s = s"
    by (simp add: TrimSpace_def TrimRightSpace_def TrimLeftSpace_def stripLead_id)
qed

lemma TrimSpace_plain_ends:
  assumes "s = c # cs" "s = ds @ [d]" "plainByte c" "plainByte d"
  shows "TrimSpace s = s"
proof -
  have "leadLen spaceSeqs s = 0" using assms(1,3) by (simp add: leadLen_plain)
  moreover have "leadLen (map rev spaceSeqs) (d # rev ds) = 0"
    unfolding spaceLen_zero using assms(4) plain_not_in_space spaceSeqs_nonempty
    by (auto simp: prefix_Cons) (metis in_set_conv_decomp set_rev list.set_intros(1))
  ultimately show ?thesis unfolding TrimSpace_id_iff using assms(2) by simp
qed

lemma TrimSpace_ends: "s \<noteq> [] \<Longrightarrow> plainByte (hd s) \<Longrightarrow> plainByte (last s) \<Longrightarrow> TrimSpace s = s"
  using TrimSpace_plain_ends[of s "hd s" "tl s" "butlast s" "last s"] by simp

lemma TrimSpace_no_space: "\<not> hasSpace s \<Longrightarrow> TrimSpace s = s"
  by (simp add: TrimSpace_id_iff no_space_lead no_space_trail)

lemma TrimSpace_plain: "list_all plainByte s \<Longrightarrow> TrimSpace s = s"
  by (rule TrimSpace_no_space) (rule hasSpace_plain)

lemma TrimRightSpace_prefix: "prefix (TrimRightSpace s) s"
  unfolding TrimRightSpace_def suffix_to_prefix [symmetric]
  using stripLead_suffix [of "map rev spaceSeqs" "rev s"] by (simp add: suffix_to_prefix)

lemma leadLen_prefix_zero:
  assumes "leadLen spaceSeqs s = 0" and "prefix t s"
  shows "leadLen spaceSeqs t = 0"
  using assms unfolding spaceLen_zero by (meson prefix_order.trans)

lemma TrimSpace_idem: "TrimSpace (TrimSpace s) = TrimSpace s"
proof -
  let ?l = "TrimLeftSpace s"
  have "leadLen spaceSeqs ?l = 0" by (simp add: TrimLeftSpace_def stripLead_no_lead)
  then have "leadLen spaceSeqs (TrimSpace s) = 0"
    unfolding TrimSpace_def by (rule leadLen_prefix_zero) (rule TrimRightSpace_prefix)
  moreover have "leadLen (map rev spaceSeqs) (rev (TrimSpace s)) = 0"
    by (simp add: TrimSpace_def TrimRightSpace_def stripLead_no_lead)
  ultimately show ?thesis by (simp add: TrimSpace_id_iff)
qed

lemma digit_plain: "isDigit c \<Longrightarrow> plainByte c"
  by (auto simp: isDigit_def plainByte_def asciiSpace_def)

lemma showNat_plain: "list_all plainByte (showNat n)"
  by (auto simp: list_all_iff digit_plain showNat_digits)

lemma Itoa_plain: "list_all plainByte (Itoa n)"
  by (auto simp: Itoa_def showNat_plain) (simp add: plainByte_def asciiSpace_def)

lemma TrimSpace_Itoa [simp]: "TrimSpace (Itoa n) = Itoa n"
  by (rule TrimSpace_plain) (rule Itoa_plain)

section \<open>Case\<close>

definition asciiLower :: "char \<Rightarrow> char" where
  "asciiLower c = (let n = (of_char c :: nat) in if 65 \<le> n \<and> n \<le> 90 then char_of (n + 32) else c)"

text \<open>\<open>strings.ToLower\<close>: U+0130 (bytes C4 B0) maps to i and U+212A (bytes E2 84 AA) to k.\<close>

definition kelvinSeq :: string where "kelvinSeq = map char_of ([226, 132, 170] :: nat list)"
definition dottedISeq :: string where "dottedISeq = map char_of ([196, 176] :: nat list)"
definition longSSeq :: string where "longSSeq = map char_of ([197, 191] :: nat list)"

fun ToLower :: "string \<Rightarrow> string" where
  "ToLower [] = []"
| "ToLower (c # cs) =
     (if prefix kelvinSeq (c # cs) then CHR ''k'' # ToLower (drop 2 cs)
      else if prefix dottedISeq (c # cs) then CHR ''i'' # ToLower (drop 1 cs)
      else asciiLower c # ToLower cs)"

text \<open>Text that is unchanged by \<open>ToLower\<close>: ASCII without capital letters.\<close>

definition lowerByte :: "char \<Rightarrow> bool" where
  "lowerByte c \<longleftrightarrow> (let n = (of_char c :: nat) in n < 65 \<or> 90 < n \<and> n < 128)"

lemma ToLower_lower: "list_all lowerByte s \<Longrightarrow> ToLower s = s"
proof (induction s)
  case (Cons c s)
  have "c \<noteq> char_of (226::nat)" "c \<noteq> char_of (196::nat)" using Cons.prems by (auto simp: lowerByte_def Let_def)
  then show ?case using Cons by (auto simp: kelvinSeq_def dottedISeq_def asciiLower_def lowerByte_def Let_def)
qed simp

text \<open>\<open>strings.EqualFold\<close> against an ASCII string: the simple folding of U+212A is k, that of
  U+017F (bytes C5 BF) is s.\<close>

fun foldCase :: "string \<Rightarrow> string" where
  "foldCase [] = []"
| "foldCase (c # cs) =
     (if prefix kelvinSeq (c # cs) then CHR ''k'' # foldCase (drop 2 cs)
      else if prefix longSSeq (c # cs) then CHR ''s'' # foldCase (drop 1 cs)
      else asciiLower c # foldCase cs)"

definition EqualFold :: "string \<Rightarrow> string \<Rightarrow> bool" where
  "EqualFold a b \<longleftrightarrow> foldCase a = foldCase b"

lemma EqualFold_refl [simp]: "EqualFold a a"
  by (simp add: EqualFold_def)

lemma EqualFold_sym: "EqualFold a b \<longleftrightarrow> EqualFold b a"
  by (auto simp: EqualFold_def)

definition FormatBool :: "bool \<Rightarrow> string" where
  "FormatBool b = (if b then ''true'' else ''false'')"

end
