(* ===== verification/Go_Url.thy ===== *)
theory Go_Url
  imports Go_Strings
begin

text \<open>
  Hosts and ports as \<open>net/url\<close> and \<open>net\<close> take them apart and put them together: \<open>URL.Hostname\<close>,
  \<open>URL.Port\<close>, \<open>net.JoinHostPort\<close>, \<open>net.SplitHostPort\<close>.
\<close>

text \<open>\<open>strings.LastIndexByte\<close>: what stands before the last occurrence and what stands after it.\<close>

definition cutLast :: "string \<Rightarrow> char \<Rightarrow> (string \<times> string) option" where
  "cutLast s c = (case Cut (rev s) c of (b, a, ok) \<Rightarrow> if ok then Some (rev a, rev b) else None)"

lemma cutLast_None: "cutLast s c = None \<longleftrightarrow> c \<notin> set s"
proof
  assume "cutLast s c = None"
  then have "\<not> snd (snd (Cut (rev s) c))" by (simp add: cutLast_def split: prod.splits if_splits)
  moreover have "c \<in> set t \<Longrightarrow> snd (snd (Cut t c))" for t by (induction t) (auto split: prod.splits)
  ultimately show "c \<notin> set s" by (metis set_rev)
next
  assume "c \<notin> set s"
  then show "cutLast s c = None" by (simp add: cutLast_def Cut_notin)
qed

lemma cutLast_append: "c \<notin> set b \<Longrightarrow> cutLast (a @ c # b) c = Some (a, b)"
  using Cut_found[of c "rev b" "rev a"] by (simp add: cutLast_def)

lemma cutLast_Some: "cutLast s c = Some (a, b) \<Longrightarrow> s = a @ c # b \<and> c \<notin> set b"
proof -
  assume "cutLast s c = Some (a, b)"
  then have "Cut (rev s) c = (rev b, rev a, True)" by (auto simp: cutLast_def split: prod.splits if_splits)
  from Cut_eq[OF this] have "rev s = rev b @ c # rev a" "c \<notin> set (rev b)" by simp_all
  then show ?thesis by (metis append.assoc append_Cons append_Nil rev.simps(2) rev_append rev_rev_ident set_rev)
qed

definition stripBrackets :: "string \<Rightarrow> string" where
  "stripBrackets h = (if HasPrefix h ''['' \<and> HasSuffix h '']'' then butlast (tl h) else h)"

text \<open>\<open>splitHostPort\<close> of net/url: a port is a possibly empty string of digits after the last colon.\<close>

definition splitURLHost :: "string \<Rightarrow> string \<times> string" where
  "splitURLHost hostPort =
     (case cutLast hostPort (CHR '':'') of
        Some (h, p) \<Rightarrow> (if list_all isDigit p then (stripBrackets h, p) else (stripBrackets hostPort, ''''))
      | None \<Rightarrow> (stripBrackets hostPort, ''''))"

definition urlHostname :: "string \<Rightarrow> string" where "urlHostname host = fst (splitURLHost host)"
definition urlPort :: "string \<Rightarrow> string" where "urlPort host = snd (splitURLHost host)"

definition JoinHostPort :: "string \<Rightarrow> string \<Rightarrow> string" where
  "JoinHostPort host port =
     (if ContainsByte host (CHR '':'') then ''['' @ host @ '']:'' @ port else host @ '':'' @ port)"

text \<open>\<open>net.SplitHostPort\<close>; \<open>None\<close> is its error. With a bracket in front, the first closing bracket has to stand
  just before the last colon.\<close>

definition SplitHostPort :: "string \<Rightarrow> (string \<times> string) option" where
  "SplitHostPort hostport =
     (case cutLast hostport (CHR '':'') of
        None \<Rightarrow> None
      | Some (before, port) \<Rightarrow>
         (if HasPrefix hostport ''[''
          then (case Cut hostport (CHR '']'') of (front, after, ok) \<Rightarrow>
              (if \<not> ok \<or> front @ '']'' \<noteq> before then None
               else if ContainsByte (tl hostport) (CHR ''['') \<or> ContainsByte after (CHR '']'') then None
               else Some (tl front, port)))
          else if ContainsByte before (CHR '':'') then None
          else if ContainsByte hostport (CHR ''['') \<or> ContainsByte hostport (CHR '']'') then None
          else Some (before, port)))"

lemma splitURLHost_join:
  assumes "list_all isDigit p" "CHR '']'' \<notin> set h" "\<not> HasPrefix h ''[''"
  shows "splitURLHost (JoinHostPort h p) = (h, p)"
proof -
  have "CHR '':'' \<notin> set p" using assms(1) by (auto simp: list_all_iff isDigit_def)
  then have "cutLast (JoinHostPort h p) (CHR '':'') =
      Some (if ContainsByte h (CHR '':'') then ''['' @ h @ '']'' else h, p)"
    using cutLast_append[of "CHR '':''" p "''['' @ h @ '']''"] cutLast_append[of "CHR '':''" p h]
    by (simp add: JoinHostPort_def)
  then show ?thesis using assms
    by (auto simp: splitURLHost_def stripBrackets_def HasPrefix_def HasSuffix_def suffix_def)
qed

end
