(* ===== verification/Cookies.thy ===== *)
theory Cookies
  imports Go_Url
begin

text \<open>
  The cookies of the load-cookies file (cookies.go): which lines of a Netscape cookie file apply to a request, and how
  many of them are sent. The file is read anew for every request; what its calls return is an argument. Case mapping of
  hosts is that of \<open>Go_Strings\<close>, exact for ASCII names.
\<close>

section \<open>The operations\<close>

definition maxCookieFileSize :: nat where "maxCookieFileSize = 16777216"
definition maxCookiesPerRequest :: nat where "maxCookiesPerRequest = 4096"
definition maxCookiePayloadSize :: nat where "maxCookiePayloadSize = 1048576"

text \<open>What the code reads of a URL: the scheme, the host with its port, and \<open>EscapedPath()\<close>.\<close>

record cookieURL =
  cuScheme :: string
  cuHost :: string
  cuEscapedPath :: string

text \<open>What opening, stating and reading the file return.\<close>

record cookieFile =
  ckOpen :: "err option"
  ckSize :: "int res"
  ckRead :: "string res"

record cookieLine =
  clDomain :: string
  clSubdomains :: bool
  clPath :: string
  clSecure :: bool
  clExpires :: int
  clName :: string
  clValue :: string

text \<open>\<open>strconv.ParseInt(s, 10, 64)\<close> with its error ignored: 0 for a syntax error, the nearest 64-bit integer when out of range.\<close>

definition signedDigits :: "string \<Rightarrow> int option" where
  "signedDigits s =
     (case s of
        [] \<Rightarrow> None
      | c # cs \<Rightarrow>
         (if c = CHR ''-'' then map_option (\<lambda>n. - int n) (parseUint cs)
          else if c = CHR ''+'' then map_option int (parseUint cs) else map_option int (parseUint s)))"

definition ParseInt0 :: "string \<Rightarrow> int" where
  "ParseInt0 s = (case signedDigits s of None \<Rightarrow> 0 | Some n \<Rightarrow> max MinInt64 (min MaxInt64 n))"

definition cookieDomainMatches :: "string \<Rightarrow> string \<Rightarrow> bool \<Rightarrow> bool" where
  "cookieDomainMatches host domain0 includeSubdomains =
     (let domain = TrimPrefix domain0 ''.'' in
      if domain = '''' then False
      else if host = domain then True
      else includeSubdomains \<and> HasSuffix host (''.'' @ domain))"

text \<open>\<open>strings.TrimRight(s, "/")\<close>.\<close>

definition trimSlashes :: "string \<Rightarrow> string" where
  "trimSlashes s = rev (dropWhile (\<lambda>c. c = CHR ''/'') (rev s))"

definition cookiePathMatches :: "string \<Rightarrow> string \<Rightarrow> bool" where
  "cookiePathMatches reqPath cookiePath0 =
     (let cookiePath1 = (if cookiePath0 = '''' then ''/'' else cookiePath0);
          cookiePath = (if \<not> HasPrefix cookiePath1 ''/'' then ''/'' @ cookiePath1 else cookiePath1) in
      reqPath = cookiePath \<or> HasPrefix reqPath (trimSlashes cookiePath @ ''/''))"

definition parseCookieLine :: "string \<Rightarrow> cookieLine option" where
  "parseCookieLine line0 =
     (let line1 = TrimSpace line0 in
      if line1 = '''' then None
      else if \<not> HasPrefix line1 ''#HttpOnly_'' \<and> HasPrefix line1 ''#'' then None
      else
        (case Fields (TrimPrefix line1 ''#HttpOnly_'') of
           f0 # f1 # f2 # f3 # f4 # f5 # f6 # fs \<Rightarrow>
             Some \<lparr>clDomain = ToLower (TrimSpace f0), clSubdomains = EqualFold f1 ''TRUE'', clPath = f2,
               clSecure = EqualFold f3 ''TRUE'', clExpires = ParseInt0 f4, clName = f5, clValue = Join (f6 # fs) '' ''\<rparr>
         | _ \<Rightarrow> None))"

text \<open>The conditions of the loop under which a cookie is not skipped.\<close>

definition cookieApplies :: "string \<Rightarrow> string \<Rightarrow> bool \<Rightarrow> int \<Rightarrow> cookieLine \<Rightarrow> bool" where
  "cookieApplies host reqPath secureReq now c =
     (if clName c = '''' \<or> (clSecure c \<and> \<not> secureReq) \<or> (clExpires c > 0 \<and> clExpires c < now) then False
      else if \<not> cookieDomainMatches host (clDomain c) (clSubdomains c) \<or> \<not> cookiePathMatches reqPath (clPath c) then False
      else True)"

fun cookieLoop :: "(cookieLine \<Rightarrow> bool) \<Rightarrow> string list \<Rightarrow> (string \<times> string) list \<Rightarrow> nat \<Rightarrow> (string \<times> string) list" where
  "cookieLoop applies [] out payloadSize = out"
| "cookieLoop applies (line # ls) out payloadSize =
     (case parseCookieLine line of
        None \<Rightarrow> cookieLoop applies ls out payloadSize
      | Some c \<Rightarrow>
         (if \<not> applies c then cookieLoop applies ls out payloadSize
          else
            (let payloadSize' = payloadSize + (length (clName c) + length (clValue c)) in
             if length out \<ge> maxCookiesPerRequest \<or> payloadSize' > maxCookiePayloadSize then out
             else cookieLoop applies ls (out @ [(clName c, clValue c)]) payloadSize')))"

definition requestPath :: "cookieURL \<Rightarrow> string" where
  "requestPath u = (if cuEscapedPath u = '''' then ''/'' else cuEscapedPath u)"

definition loadedCookiesForRequest :: "cookieFile \<Rightarrow> int \<Rightarrow> cookieURL option \<Rightarrow> string \<Rightarrow> (string \<times> string) list" where
  "loadedCookiesForRequest f now url path =
     (case url of
        None \<Rightarrow> []
      | Some u \<Rightarrow>
         (if path = '''' then []
          else if ckOpen f \<noteq> None then []
          else (case ckSize f of
              Inl _ \<Rightarrow> []
            | Inr fileLen \<Rightarrow>
               (if fileLen > int maxCookieFileSize then []
                else (case ckRead f of
                    Inl _ \<Rightarrow> []
                  | Inr contents \<Rightarrow>
                     (let data = take (maxCookieFileSize + 1) contents in
                      if length data > maxCookieFileSize then []
                      else
                        (let host = ToLower (urlHostname (cuHost u)) in
                         if host = '''' then []
                         else cookieLoop (cookieApplies host (requestPath u) (cuScheme u = ''https'') now)
                                (Split data (CHR 0x0A)) [] 0)))))))"

text \<open>The jar of a client with loaded cookies: those of the file, then those of the jar below it.\<close>

definition jarCookies :: "(cookieURL \<Rightarrow> (string \<times> string) list) \<Rightarrow> (cookieURL \<Rightarrow> (string \<times> string) list) option \<Rightarrow> cookieURL \<Rightarrow>
    (string \<times> string) list" where
  "jarCookies loaded base u = loaded u @ (case base of None \<Rightarrow> [] | Some jar \<Rightarrow> jar u)"

definition jarSetCookies :: "('jar \<Rightarrow> 'cookies \<Rightarrow> 'jar) \<Rightarrow> 'jar option \<Rightarrow> 'cookies \<Rightarrow> 'jar option" where
  "jarSetCookies setIn base cookies = map_option (\<lambda>jar. setIn jar cookies) base"

section \<open>Which cookies are sent\<close>

definition cookiePayload :: "(string \<times> string) list \<Rightarrow> nat" where
  "cookiePayload cs = sum_list (map (\<lambda>(n, v). length n + length v) cs)"

lemma cookiePayload_append [simp]: "cookiePayload (xs @ ys) = cookiePayload xs + cookiePayload ys"
  by (simp add: cookiePayload_def)

lemma cookiePayload_single [simp]: "cookiePayload [(n, v)] = length n + length v" "cookiePayload [] = 0"
  by (simp_all add: cookiePayload_def)

definition nameValue :: "cookieLine \<Rightarrow> string \<times> string" where
  "nameValue c = (clName c, clValue c)"

text \<open>The reference: the cookies that apply, in the order of their lines.\<close>

definition applicable :: "(cookieLine \<Rightarrow> bool) \<Rightarrow> string list \<Rightarrow> (string \<times> string) list" where
  "applicable applies ls = map nameValue (filter applies (List.map_filter parseCookieLine ls))"

definition withinLimits :: "(string \<times> string) list \<Rightarrow> bool" where
  "withinLimits cs \<longleftrightarrow> length cs \<le> maxCookiesPerRequest \<and> cookiePayload cs \<le> maxCookiePayloadSize"

text \<open>\<open>xs\<close> is the longest prefix of \<open>ys\<close> within the limits.\<close>

definition longestWithin :: "(string \<times> string) list \<Rightarrow> (string \<times> string) list \<Rightarrow> bool" where
  "longestWithin xs ys \<longleftrightarrow> prefix xs ys \<and> withinLimits xs \<and> (xs = ys \<or> \<not> withinLimits (take (length xs + 1) ys))"

lemma applicable_simps:
  "applicable a [] = []"
  "applicable a (line # ls) =
     (case parseCookieLine line of None \<Rightarrow> applicable a ls | Some c \<Rightarrow> if a c then nameValue c # applicable a ls else applicable a ls)"
  by (simp_all add: applicable_def List.map_filter_simps split: option.split)

lemma cookieLoop_longest:
  "withinLimits out \<Longrightarrow> longestWithin (cookieLoop a ls out (cookiePayload out)) (out @ applicable a ls)"
proof (induction ls arbitrary: out)
  case Nil
  then show ?case by (simp add: longestWithin_def applicable_simps)
next
  case (Cons line ls)
  show ?case
  proof (cases "parseCookieLine line")
    case None
    then show ?thesis using Cons by (simp add: applicable_simps)
  next
    case (Some c)
    let ?out = "out @ [nameValue c]"
    have size: "cookiePayload ?out = cookiePayload out + (length (clName c) + length (clValue c))" by (simp add: nameValue_def)
    show ?thesis
    proof (cases "a c \<and> withinLimits ?out")
      case True
      then show ?thesis using Cons.IH[of ?out] Some size
        by (simp add: applicable_simps withinLimits_def Let_def) (simp add: nameValue_def)
    next
      case False
      show ?thesis
      proof (cases "a c")
        case True
        then have "\<not> withinLimits ?out" using False by simp
        then show ?thesis using Cons.prems Some True size
          by (auto simp: applicable_simps longestWithin_def withinLimits_def Let_def)
      next
        case False
        then show ?thesis using Cons Some by (simp add: applicable_simps)
      qed
    qed
  qed
qed


text \<open>The cookies the file holds for a request: none when it cannot be read or is too large or the URL has no host.\<close>

definition cookiesInFile :: "cookieFile \<Rightarrow> string option" where
  "cookiesInFile f =
     (case (ckOpen f, ckSize f, ckRead f) of
        (None, Inr n, Inr contents) \<Rightarrow>
          (if n \<le> int maxCookieFileSize \<and> length contents \<le> maxCookieFileSize then Some contents else None)
      | _ \<Rightarrow> None)"

definition cookiesFor :: "cookieFile \<Rightarrow> int \<Rightarrow> cookieURL \<Rightarrow> (string \<times> string) list" where
  "cookiesFor f now u =
     (case cookiesInFile f of
        None \<Rightarrow> []
      | Some contents \<Rightarrow>
         (if urlHostname (cuHost u) = '''' then []
          else applicable (cookieApplies (ToLower (urlHostname (cuHost u))) (requestPath u) (cuScheme u = ''https'') now)
                 (Split contents (CHR 0x0A))))"

lemma ToLower_empty [simp]: "ToLower s = [] \<longleftrightarrow> s = []"
  by (cases s) auto

lemma longestWithin_nil [simp]: "longestWithin [] []"
  by (simp add: longestWithin_def withinLimits_def)

text \<open>C33: The cookies of a request are the longest prefix, within 4096 cookies and one mebibyte, of the cookies in the file that
  apply to it, in the order of the file; an unreadable or oversized file gives none.\<close>

theorem loadedCookies_exact:
  "longestWithin (loadedCookiesForRequest f now (Some u) path) (if path = '''' then [] else cookiesFor f now u)"
proof -
  have loop: "longestWithin (cookieLoop a ls [] 0) (applicable a ls)" for a ls
    using cookieLoop_longest[of "[]" a ls] by (simp add: withinLimits_def)
  show ?thesis
    by (cases "ckOpen f"; cases "ckSize f"; cases "ckRead f")
       (auto simp: loadedCookiesForRequest_def cookiesFor_def cookiesInFile_def loop Let_def)
qed

section \<open>The scope of a cookie\<close>

text \<open>The path match of RFC 6265, section 5.1.4.\<close>

definition rfcPathMatch :: "string \<Rightarrow> string \<Rightarrow> bool" where
  "rfcPathMatch reqPath p \<longleftrightarrow>
     reqPath = p \<or> (prefix p reqPath \<and> (HasSuffix p ''/'' \<or> prefix ''/'' (drop (length p) reqPath)))"

lemma trimSlashes_plain: "\<not> HasSuffix s ''/'' \<Longrightarrow> trimSlashes s = s"
proof -
  assume a: "\<not> HasSuffix s ''/''"
  show ?thesis
  proof (cases s rule: rev_cases)
    case (snoc t c)
    then show ?thesis using a by (simp add: trimSlashes_def HasSuffix_def)
  qed (simp add: trimSlashes_def)
qed

lemma trimSlashes_one: "\<not> HasSuffix s ''/'' \<Longrightarrow> trimSlashes (s @ ''/'') = s"
  using trimSlashes_plain[of s] by (simp add: trimSlashes_def)

lemma prefix_next: "prefix (p @ [c]) r \<longleftrightarrow> prefix p r \<and> prefix [c] (drop (length p) r)"
  by (auto simp: prefix_def)

text \<open>On a cookie path that starts with a slash and does not end in two, the code matches paths as the RFC does.\<close>

lemma cookiePathMatches_rfc:
  assumes "HasPrefix p ''/''" "\<not> HasSuffix p ''//''"
  shows "cookiePathMatches reqPath p \<longleftrightarrow> rfcPathMatch reqPath p"
proof -
  have ne: "p \<noteq> ''''" using assms(1) by (auto simp: HasPrefix_def)
  show ?thesis
  proof (cases "HasSuffix p ''/''")
    case True
    then obtain q where q: "p = q @ ''/''" by (auto simp: HasSuffix_def suffix_def)
    then have "\<not> HasSuffix q ''/''" using assms(2) by (auto simp: HasSuffix_def suffix_def)
    from trimSlashes_one[OF this] have "trimSlashes p @ ''/'' = p" using q by simp
    then show ?thesis using True assms(1) ne by (auto simp: cookiePathMatches_def rfcPathMatch_def HasPrefix_def)
  next
    case False
    from trimSlashes_plain[OF this] show ?thesis
      using False assms(1) ne prefix_next[of p "CHR ''/''" reqPath] by (auto simp: cookiePathMatches_def rfcPathMatch_def HasPrefix_def)
  qed
qed

text \<open>A cookie goes only to the host of its domain, or below it at a dot when the line says so, only over https when it is
  secure, and not after it expired.\<close>

lemma cookie_scope:
  assumes "cookieApplies host reqPath secureReq now c"
  shows "clDomain c \<noteq> ''''" "(clSecure c \<longrightarrow> secureReq)" "clExpires c \<le> 0 \<or> now \<le> clExpires c"
    "host = TrimPrefix (clDomain c) ''.'' \<or> clSubdomains c \<and> (\<exists>sub. host = sub @ ''.'' @ TrimPrefix (clDomain c) ''.'')"
  using assms by (auto simp: cookieApplies_def cookieDomainMatches_def HasSuffix_def suffix_def TrimPrefix_def HasPrefix_def Let_def
      split: if_splits)

end
