(* ===== verification/Options.thy ===== *)
theory Options
  imports Go_Strings
begin

text \<open>
  Model of options.go: the aria2 option map, its layering over a base map, the normalisation of
  option values, the typed readers (\<open>optionString\<close>, \<open>optionInt\<close>, \<open>optionBool\<close>,
  \<open>optionBytes\<close>) and the validation of a client's options. \<open>Options\<close> is a
  \<open>map[string]any\<close>: an association list here. A value of type \<open>any\<close> is represented by
  what the code can observe of it; the elements of a \<open>[]any\<close> by the text \<open>fmt.Sprint\<close>
  prints of each; a \<open>float64\<close> by the \<open>int64\<close> it converts to when it is integral, the text
  of \<open>FormatFloat(x, 'f', -1, 64)\<close> and the text of \<open>fmt.Sprint\<close>.
\<close>

datatype optval =
    VNil
  | VStr string
  | VStrs "string list"
  | VAnys "string list"
  | VNum string
  | VFloat "int option" string string
  | VInt int
  | VBool bool
  | VOther string
  | VOpts "(string \<times> optval) list"

type_synonym options = "(string \<times> optval) list"

definition optionBaseKey :: string where
  "optionBaseKey = CHR 0x00 # ''goaria.base-options''"

definition maxDownloadOptionKeys :: nat where "maxDownloadOptionKeys = 128"
definition maxDownloadOptionListItems :: nat where "maxDownloadOptionListItems = 64"
definition maxDownloadOptionValueSize :: nat where "maxDownloadOptionValueSize = 1048576"

definition sessionTorrentFinalizedOption :: string where
  "sessionTorrentFinalizedOption = ''goaria-internal-torrent-finalized-files''"
definition sessionExplicitOptionsOption :: string where
  "sessionExplicitOptionsOption = ''goaria-internal-explicit-options''"

definition maxSupportedTorrentSize :: int where "maxSupportedTorrentSize = 67108864"

text \<open>The keys the layering functions strip: \<open>k == optionBaseKey || k == ...\<close>.\<close>

definition internalKey :: "string \<Rightarrow> bool" where
  "internalKey k \<longleftrightarrow> k = optionBaseKey \<or> k = sessionTorrentFinalizedOption \<or> k = sessionExplicitOptionsOption"

definition defaultOptions :: "string \<Rightarrow> int \<Rightarrow> int \<Rightarrow> options" where
  "defaultOptions dir maxConcurrent maxResult =
     (let mc = (if maxConcurrent \<le> 0 then 5 else maxConcurrent);
          mr = (if maxResult \<le> 0 then 1000 else maxResult) in
      [(''dir'', VStr dir),
       (''split'', VStr ''5''),
       (''max-connection-per-server'', VStr ''1''),
       (''min-split-size'', VStr ''20M''),
       (''max-concurrent-downloads'', VStr (Itoa mc)),
       (''max-download-result'', VStr (Itoa mr)),
       (''keep-unfinished-download-result'', VStr ''true''),
       (''max-download-limit'', VStr ''0''),
       (''max-overall-download-limit'', VStr ''0''),
       (''allow-overwrite'', VStr ''false''),
       (''auto-file-renaming'', VStr ''true''),
       (''continue'', VStr ''false''),
       (''follow-metalink'', VStr ''false''),
       (''follow-torrent'', VStr ''false''),
       (''lowest-speed-limit'', VStr ''0''),
       (''max-file-not-found'', VStr ''0''),
       (''goaria-http-segment-size'', VStr ''50M''),
       (''goaria-max-torrent-size'', VStr ''16M''),
       (''max-tries'', VStr ''5''),
       (''retry-wait'', VStr ''0''),
       (''connect-timeout'', VStr ''60''),
       (''timeout'', VStr ''60''),
       (''check-certificate'', VStr ''true''),
       (''enable-http-keep-alive'', VStr ''true''),
       (''http-version'', VStr ''auto''),
       (''remote-time'', VStr ''false''),
       (''user-agent'', VStr ''goaria'')])"

text \<open>\<open>cloneOptions\<close> copies the map and the slices in it. Values are immutable here, so the copy
  is the map itself: no operation of the sources writes through a shared slice.\<close>

definition cloneOptions :: "options \<Rightarrow> options" where
  "cloneOptions opts = opts"

text \<open>\<open>fmt.Sprint\<close> of an option value.\<close>

fun sprint :: "optval \<Rightarrow> string" where
  "sprint VNil = ''<nil>''"
| "sprint (VStr s) = s"
| "sprint (VStrs xs) = ''['' @ Join xs '' '' @ '']''"
| "sprint (VAnys xs) = ''['' @ Join xs '' '' @ '']''"
| "sprint (VNum s) = s"
| "sprint (VFloat i f g) = g"
| "sprint (VInt n) = Itoa n"
| "sprint (VBool b) = FormatBool b"
| "sprint (VOther s) = s"
| "sprint (VOpts kvs) = ''map[]''" \<comment> \<open>only under \<open>optionBaseKey\<close>, which no reader prints\<close>

fun normalizeOptionValue :: "optval \<Rightarrow> optval" where
  "normalizeOptionValue VNil = VStr ''''"
| "normalizeOptionValue (VStr s) = VStr s"
| "normalizeOptionValue (VStrs xs) = VStrs xs"
| "normalizeOptionValue (VAnys xs) = VStrs xs"
| "normalizeOptionValue (VNum s) = VStr s"
| "normalizeOptionValue (VFloat (Some n) f g) = VStr (Itoa n)"
| "normalizeOptionValue (VFloat None f g) = VStr f"
| "normalizeOptionValue (VInt n) = VStr (Itoa n)"
| "normalizeOptionValue (VBool b) = VStr (if b then ''true'' else ''false'')"
| "normalizeOptionValue v = VStr (sprint v)"

text \<open>The loop both layering functions end with: write the normalised overlay over \<open>out\<close>.\<close>

fun overlayOptions :: "options \<Rightarrow> options \<Rightarrow> options" where
  "overlayOptions out [] = out"
| "overlayOptions out ((k, v) # kvs) =
     (if internalKey k then overlayOptions out kvs
      else overlayOptions (AList.update k (normalizeOptionValue v) out) kvs)"

definition layerOptions :: "options \<Rightarrow> options \<Rightarrow> options" where
  "layerOptions base overlay = overlayOptions [(optionBaseKey, VOpts base)] overlay"

definition mergeOptions :: "options \<Rightarrow> options \<Rightarrow> options" where
  "mergeOptions base overlay = overlayOptions (cloneOptions base) overlay"

text \<open>\<open>optionValue\<close>: the value of a key, falling through to the base map when the key is absent;
  an explicit nil hides the base and reads as absent.\<close>

lemma map_of_size: "map_of kvs k = Some v \<Longrightarrow> size v < size_list (size_prod (\<lambda>_. 0) size) kvs"
  by (induction kvs) (auto split: if_splits)

function optionValue :: "options \<Rightarrow> string \<Rightarrow> optval option" where
  "optionValue opts key =
     (case map_of opts key of
        Some v \<Rightarrow> (if v = VNil then None else Some v)
      | None \<Rightarrow> (case map_of opts optionBaseKey of
                   Some (VOpts base) \<Rightarrow> optionValue base key
                 | _ \<Rightarrow> None))"
  by pat_completeness auto
termination
  by (relation "measure (\<lambda>(opts, key). size_list (size_prod (\<lambda>_. 0) size) opts)")
     (auto dest!: map_of_size)

declare optionValue.simps [simp del]

definition optionString :: "options \<Rightarrow> string \<Rightarrow> string" where
  "optionString opts key =
     (case optionValue opts key of
        None \<Rightarrow> ''''
      | Some (VStr x) \<Rightarrow> x
      | Some (VStrs xs) \<Rightarrow> Join xs [CHR 0x0A]
      | Some v \<Rightarrow> sprint v)"

definition optionPresent :: "options \<Rightarrow> string \<Rightarrow> bool" where
  "optionPresent opts key \<longleftrightarrow> optionValue opts key \<noteq> None"

definition optionExplicit :: "options \<Rightarrow> string \<Rightarrow> bool" where
  "optionExplicit opts key \<longleftrightarrow> map_of opts key \<noteq> None"

definition optionStringList :: "options \<Rightarrow> string \<Rightarrow> string list" where
  "optionStringList opts key =
     (case optionValue opts key of
        None \<Rightarrow> []
      | Some (VStrs xs) \<Rightarrow> xs
      | Some (VAnys xs) \<Rightarrow> xs
      | Some (VStr x) \<Rightarrow> (if x = '''' then [] else [x])
      | Some v \<Rightarrow> [sprint v])"

definition optionBool :: "options \<Rightarrow> string \<Rightarrow> bool" where
  "optionBool opts key \<longleftrightarrow> ToLower (optionString opts key) \<in> {''true'', ''yes'', ''1''}"

definition optionBoolDefault :: "options \<Rightarrow> string \<Rightarrow> bool \<Rightarrow> bool" where
  "optionBoolDefault opts key fallback =
     (if \<not> optionPresent opts key then fallback else optionBool opts key)"

definition optionInt :: "options \<Rightarrow> string \<Rightarrow> int \<Rightarrow> int" where
  "optionInt opts key fallback =
     (let s = TrimSpace (optionString opts key) in
      if s = '''' then fallback
      else (case Atoi s of None \<Rightarrow> fallback | Some n \<Rightarrow> n))"

section \<open>Sizes\<close>

definition spanDigits :: "string \<Rightarrow> string \<times> string" where
  "spanDigits s = (takeWhile isDigit s, dropWhile isDigit s)"

text \<open>The three parts \<open>validDecimalSizeNumber\<close> scans: integer digits, fraction digits, and what
  follows them.\<close>

definition scanMantissa :: "string \<Rightarrow> string \<times> string \<times> string" where
  "scanMantissa s =
     (case spanDigits s of (ip, r1) \<Rightarrow>
        (case r1 of
           [] \<Rightarrow> (ip, [], [])
         | c # t \<Rightarrow> if c = CHR ''.'' then (case spanDigits t of (fp, r2) \<Rightarrow> (ip, fp, r2))
                     else (ip, [], c # t)))"

text \<open>The exponent digits after an \<open>e\<close> and an optional sign: the sign, the digits, the rest.\<close>

definition scanExponent :: "string \<Rightarrow> bool \<times> string \<times> string" where
  "scanExponent t =
     (case t of
        [] \<Rightarrow> (False, [], [])
      | c # u \<Rightarrow>
         (if c = CHR ''+'' \<or> c = CHR ''-''
          then (case spanDigits u of (ed, r) \<Rightarrow> (c = CHR ''-'', ed, r))
          else (case spanDigits t of (ed, r) \<Rightarrow> (False, ed, r))))"

definition validDecimalSizeNumber :: "string \<Rightarrow> bool" where
  "validDecimalSizeNumber s \<longleftrightarrow>
     (if s = [] then False
      else case scanMantissa s of (ip, fp, r) \<Rightarrow>
        (if ip = [] \<and> fp = [] then False
         else case r of
           [] \<Rightarrow> True
         | c # t \<Rightarrow>
            (if c = CHR ''e'' \<or> c = CHR ''E''
             then (case scanExponent t of (neg, ed, r') \<Rightarrow> ed \<noteq> [] \<and> r' = [])
             else False)))"

text \<open>The decimal number of a valid string as mantissa and power of ten: what
  \<open>big.Rat.SetString\<close> reads. The exponent has to fit 64 bits.\<close>

definition decimalParts :: "string \<Rightarrow> (nat \<times> int) option" where
  "decimalParts s =
     (case scanMantissa s of (ip, fp, r) \<Rightarrow>
        (let m = digitsVal 0 (ip @ fp); k = int (length fp) in
         (case r of
            [] \<Rightarrow> Some (m, - k)
          | c # t \<Rightarrow>
             (case scanExponent t of (neg, ed, r') \<Rightarrow>
                (let e = (if neg then - int (digitsVal 0 ed) else int (digitsVal 0 ed)) in
                 if isInt64 e then Some (m, e - k) else None)))))"

text \<open>\<open>strconv.ParseFloat\<close> fails for a number that rounds beyond the largest float64.\<close>

definition floatLimit :: nat where "floatLimit = 2 ^ 1024 - 2 ^ 970"

definition floatOverflow :: "nat \<Rightarrow> int \<Rightarrow> bool" where
  "floatOverflow m e \<longleftrightarrow>
     (if 0 \<le> e then floatLimit \<le> m * 10 ^ nat e else floatLimit * 10 ^ nat (- e) \<le> m)"

text \<open>\<open>big.Rat.SetString\<close> refuses a non-zero number with a power of five beyond \<open>1e6\<close>.\<close>

definition ratAccepts :: "nat \<Rightarrow> int \<Rightarrow> bool" where
  "ratAccepts m e \<longleftrightarrow> m = 0 \<or> \<bar>e\<bar> \<le> 1000000"

definition scaledInteger :: "nat \<Rightarrow> int \<Rightarrow> nat" where
  "scaledInteger m e = (if 0 \<le> e then m * 10 ^ nat e else m div 10 ^ nat (- e))"

definition sizeUnit :: "char \<Rightarrow> nat option" where
  "sizeUnit c =
     (if c = CHR ''K'' \<or> c = CHR ''k'' then Some 1024
      else if c = CHR ''M'' \<or> c = CHR ''m'' then Some (1024 * 1024)
      else if c = CHR ''G'' \<or> c = CHR ''g'' then Some (1024 * 1024 * 1024)
      else None)"

definition parseSizeValue :: "string \<Rightarrow> int res" where
  "parseSizeValue s0 =
     (let s = TrimSpace s0 in
      if s = '''' then Inl (Errorf ''empty size'' [])
      else
        (let (mul, s1) = (case sizeUnit (last s) of None \<Rightarrow> (1, s) | Some u \<Rightarrow> (u, butlast s));
             s2 = TrimSpace s1 in
         if \<not> validDecimalSizeNumber s2 then Inl (Errorf ''invalid size'' [])
         else (case decimalParts s2 of
             None \<Rightarrow> Inl (Errorf ''invalid size'' [])
           | Some (m, e) \<Rightarrow>
              (if floatOverflow m e \<or> \<not> ratAccepts m e then Inl (Errorf ''invalid size'' [])
               else
                 (let n = int (scaledInteger (m * mul) e) in
                  if isInt64 n then Inr n else Inl (Errorf ''invalid size'' []))))))"

definition parseSize :: "string \<Rightarrow> int \<Rightarrow> int" where
  "parseSize s fallback = (case parseSizeValue s of Inl _ \<Rightarrow> fallback | Inr n \<Rightarrow> n)"

definition optionBytes :: "options \<Rightarrow> string \<Rightarrow> int \<Rightarrow> int" where
  "optionBytes opts key fallback = parseSize (optionString opts key) fallback"

section \<open>Validation\<close>

definition validateOptionCount :: "options \<Rightarrow> nat \<Rightarrow> unit res" where
  "validateOptionCount opts maxKeys =
     (let count = length (filter (\<lambda>(k, v). \<not> internalKey k) opts) in
      if count > maxKeys then Inl (Errorf ''too many download options: %d'' [Itoa (int count)])
      else Inr ())"

definition validateOptionLayerSize :: "options \<Rightarrow> unit res" where
  "validateOptionLayerSize opts =
     (let count = length (filter (\<lambda>(k, v). \<not> (internalKey k \<or> k = ''gid'' \<or> k = ''pause'')) opts) in
      if count > maxDownloadOptionKeys
      then Inl (Errorf ''too many download options: %d'' [Itoa (int count)])
      else Inr ())"

definition boolOptionKeys :: "string list" where
  "boolOptionKeys =
     [''allow-overwrite'', ''auto-file-renaming'', ''bt-metadata-only'', ''check-certificate'',
      ''conditional-get'', ''continue'', ''disable-ipv6'', ''disable-utp'', ''dry-run'',
      ''enable-http-keep-alive'', ''follow-metalink'', ''follow-torrent'', ''goaria-disable-dht'',
      ''goaria-disable-pex'', ''goaria-disable-trackers'', ''goaria-disable-utp'',
      ''goaria-torrent-disable-smart-ban'', ''goaria-torrent-no-upload'', ''http-accept-gzip'',
      ''http-auth-challenge'', ''http-no-cache'', ''keep-unfinished-download-result'',
      ''parameterized-uri'', ''pause'', ''remote-time'', ''rpc-save-upload-metadata'', ''use-head'']"

definition intOptionKeys :: "string list" where
  "intOptionKeys =
     [''bt-max-peers'', ''connect-timeout'', ''goaria-torrent-max-active-files'', ''listen-port'',
      ''max-concurrent-downloads'', ''max-connection-per-server'', ''max-download-result'',
      ''max-file-not-found'', ''max-tries'', ''retry-wait'', ''split'', ''timeout'']"

definition sizeOptionKeys :: "string list" where
  "sizeOptionKeys =
     [''goaria-http-segment-size'', ''goaria-max-torrent-size'', ''goaria-torrent-readahead'',
      ''lowest-speed-limit'', ''max-download-limit'', ''max-overall-download-limit'',
      ''max-upload-limit'', ''min-split-size'']"

definition httpVersionValues :: "string list" where
  "httpVersionValues =
     ['''', ''auto'', ''1'', ''1.1'', ''2'', ''2.0'', ''3'', ''3.0'', ''http/1.1'', ''http/2'',
      ''http/3'', ''h1'', ''h2'', ''h3'']"

text \<open>The \<open>switch key\<close> of the loop body: the type of the option's value.\<close>

definition validateTypedValue :: "string \<Rightarrow> string \<Rightarrow> unit res" where
  "validateTypedValue key value =
     (if key \<in> set boolOptionKeys then
        (if TrimSpace value \<noteq> value then Inl (Errorf ''invalid value for option %q: %q'' [key, value])
         else if ToLower value \<in> {''true'', ''false'', ''yes'', ''no'', ''1'', ''0''} then Inr ()
         else Inl (Errorf ''invalid boolean value for option %q: %q'' [key, value]))
      else if key \<in> set intOptionKeys then
        (if TrimSpace value \<noteq> value then Inl (Errorf ''invalid value for option %q: %q'' [key, value])
         else (case Atoi value of
             None \<Rightarrow> Inl (Errorf ''invalid non-negative integer for option %q: %q'' [key, value])
           | Some n \<Rightarrow>
              (if n < 0 then Inl (Errorf ''invalid non-negative integer for option %q: %q'' [key, value])
               else if key \<in> {''connect-timeout'', ''retry-wait'', ''timeout''} \<and> n > MaxInt64 div 1000000000
               then Inl (Errorf ''duration for option %q is too large: %q'' [key, value])
               else if key = ''listen-port'' \<and> n > 65535
               then Inl (Errorf ''invalid port for option %q: %q'' [key, value])
               else Inr ())))
      else if key \<in> set sizeOptionKeys then
        (if TrimSpace value \<noteq> value then Inl (Errorf ''invalid value for option %q: %q'' [key, value])
         else (case parseSizeValue value of
             Inl _ \<Rightarrow> Inl (Errorf ''invalid size for option %q: %q'' [key, value])
           | Inr sz \<Rightarrow>
              (if key = ''goaria-max-torrent-size'' \<and> sz > maxSupportedTorrentSize
               then Inl (Errorf ''option %q exceeds supported maximum %d'' [key, Itoa maxSupportedTorrentSize])
               else Inr ())))
      else if key = ''http-version'' then
        (if TrimSpace value \<noteq> value then Inl (Errorf ''invalid value for option %q: %q'' [key, value])
         else if ToLower value \<in> set httpVersionValues then Inr ()
         else Inl (Errorf ''invalid HTTP version %q'' [value]))
      else Inr ())"

fun validateItems :: "string \<Rightarrow> string list \<Rightarrow> unit res" where
  "validateItems key [] = Inr ()"
| "validateItems key (item # items) =
     (if length item > maxDownloadOptionValueSize
      then Inl (Errorf ''value for option %q is too large'' [key])
      else if ContainsAny item [CHR 0x0D, CHR 0x0A] \<or> TrimSpace item \<noteq> item
      then Inl (Errorf ''invalid value for option %q: leading/trailing whitespace and line breaks are not supported'' [key])
      else validateItems key items)"

definition invalidOptionKey :: "string \<Rightarrow> bool" where
  "invalidOptionKey key \<longleftrightarrow>
     key = '''' \<or> length key > 256 \<or> internalKey key \<or> ContainsByte key (CHR ''='') \<or> hasSpace key"

text \<open>One iteration of the validation loop.\<close>

definition validateOptionEntry :: "options \<Rightarrow> string \<Rightarrow> optval \<Rightarrow> unit res" where
  "validateOptionEntry opts key raw =
     (if invalidOptionKey key then Inl (Errorf ''invalid option key %q'' [key])
      else
        bindR (case raw of
            VStrs xs \<Rightarrow> (if length xs > maxDownloadOptionListItems
                          then Inl (Errorf ''too many values for option %q: %d'' [key, Itoa (int (length xs))])
                          else Inr xs)
          | VAnys xs \<Rightarrow> (if length xs > maxDownloadOptionListItems
                          then Inl (Errorf ''too many values for option %q: %d'' [key, Itoa (int (length xs))])
                          else Inr xs)
          | _ \<Rightarrow> Inr [optionString opts key])
        (\<lambda>values. bindR (validateItems key values)
          (\<lambda>_. validateTypedValue key (optionString opts key))))"

fun validateEntries :: "options \<Rightarrow> options \<Rightarrow> unit res" where
  "validateEntries opts [] = Inr ()"
| "validateEntries opts ((k, v) # kvs) =
     bindR (validateOptionEntry opts k v) (\<lambda>_. validateEntries opts kvs)"

definition validateOptionValuesWithLimit :: "options \<Rightarrow> nat \<Rightarrow> unit res" where
  "validateOptionValuesWithLimit opts maxKeys =
     bindR (validateOptionCount opts maxKeys) (\<lambda>_. validateEntries opts opts)"

definition validateOptionValues :: "options \<Rightarrow> unit res" where
  "validateOptionValues opts = validateOptionValuesWithLimit opts maxDownloadOptionKeys"

text \<open>\<open>optionsForRPC\<close>: the flattened map a client sees, string lists kept, everything else
  printed.\<close>

definition rpcValue :: "optval \<Rightarrow> optval" where
  "rpcValue v = (case v of VStrs xs \<Rightarrow> VStrs xs | _ \<Rightarrow> VStr (sprint v))"

fun writeRPC :: "options \<Rightarrow> options \<Rightarrow> options" where
  "writeRPC out [] = out"
| "writeRPC out ((k, v) # kvs) =
     (if internalKey k then writeRPC out kvs else writeRPC (AList.update k (rpcValue v) out) kvs)"

function optionsForRPC :: "options \<Rightarrow> options" where
  "optionsForRPC opts =
     (case map_of opts optionBaseKey of
        Some (VOpts base) \<Rightarrow> writeRPC (optionsForRPC base) opts
      | _ \<Rightarrow> writeRPC [] opts)"
  by pat_completeness auto
termination
  by (relation "measure (size_list (size_prod (\<lambda>_. 0) size))") (auto dest!: map_of_size)

declare optionsForRPC.simps [simp del]

section \<open>Layering\<close>

text \<open>
  The contract of an option map: what a reader sees after a layering operation. \<open>wr\<close> is the
  operation, \<open>under\<close> the map a key falls through to when the overlay does not write it.
\<close>

locale option_layering =
  fixes wr :: "options \<Rightarrow> options \<Rightarrow> options"
    and under :: "options \<Rightarrow> string \<Rightarrow> optval option"
  assumes read_written:
    "distinct (map fst ov) \<Longrightarrow> map_of ov k = Some v \<Longrightarrow> \<not> internalKey k \<Longrightarrow>
     optionValue (wr base ov) k = Some (normalizeOptionValue v)"
    and read_unwritten:
    "map_of ov k = None \<Longrightarrow> \<not> internalKey k \<Longrightarrow> optionValue (wr base ov) k = under base k"
begin

lemma string_unwritten:
  "map_of ov k = None \<Longrightarrow> \<not> internalKey k \<Longrightarrow> under base k = optionValue b k \<Longrightarrow>
   optionString (wr base ov) k = optionString b k"
  by (simp add: optionString_def read_unwritten)

lemma string_written:
  "distinct (map fst ov) \<Longrightarrow> map_of ov k = Some (VStr s) \<Longrightarrow> \<not> internalKey k \<Longrightarrow>
   optionString (wr base ov) k = s"
  by (simp add: optionString_def read_written)

lemma present_written:
  "distinct (map fst ov) \<Longrightarrow> map_of ov k = Some v \<Longrightarrow> \<not> internalKey k \<Longrightarrow> optionPresent (wr base ov) k"
  by (simp add: optionPresent_def read_written)

end

lemma normalize_not_nil [simp]: "normalizeOptionValue v \<noteq> VNil"
  by (cases v rule: normalizeOptionValue.cases) auto

lemma normalizeOptionValue_idem: "normalizeOptionValue (normalizeOptionValue v) = normalizeOptionValue v"
  by (cases v rule: normalizeOptionValue.cases) auto

lemma map_of_overlay:
  assumes "distinct (map fst ov)"
  shows "map_of (overlayOptions out ov) k =
    (if internalKey k then map_of out k
     else case map_of ov k of Some v \<Rightarrow> Some (normalizeOptionValue v) | None \<Rightarrow> map_of out k)"
  using assms
proof (induction out ov rule: overlayOptions.induct)
  case (2 out k' v kvs)
  from "2.prems" have "map_of kvs k' = None" by (simp add: map_of_eq_None_iff)
  with 2 show ?case by (auto simp: update_conv' split: option.splits)
qed simp

lemma map_of_overlay_absent:
  "map_of ov k = None \<Longrightarrow> map_of (overlayOptions out ov) k = map_of out k"
  by (induction out ov rule: overlayOptions.induct) (auto simp: update_conv' split: if_splits)

lemma map_of_overlay_internal:
  "internalKey k \<Longrightarrow> map_of (overlayOptions out ov) k = map_of out k"
  by (induction out ov rule: overlayOptions.induct) (auto simp: update_conv')

lemma internal_base [simp]: "internalKey optionBaseKey"
  by (simp add: internalKey_def)

lemma layer_base: "map_of (layerOptions base ov) optionBaseKey = Some (VOpts base)"
  by (simp add: layerOptions_def map_of_overlay_internal)

lemma not_internal_base: "\<not> internalKey k \<Longrightarrow> k \<noteq> optionBaseKey"
  by auto

interpretation layer: option_layering layerOptions optionValue
proof unfold_locales
  fix ov :: options and k v base
  assume "distinct (map fst ov)" "map_of ov k = Some v" "\<not> internalKey k"
  then show "optionValue (layerOptions base ov) k = Some (normalizeOptionValue v)"
    by (subst optionValue.simps) (simp add: layerOptions_def map_of_overlay)
next
  fix ov :: options and k base
  assume a: "map_of ov k = None" "\<not> internalKey k"
  then have "map_of (layerOptions base ov) k = None"
    by (simp add: layerOptions_def map_of_overlay_absent not_internal_base)
  then show "optionValue (layerOptions base ov) k = optionValue base k"
    by (subst optionValue.simps) (simp add: layer_base)
qed

interpretation merge: option_layering mergeOptions optionValue
proof unfold_locales
  fix ov :: options and k v base
  assume "distinct (map fst ov)" "map_of ov k = Some v" "\<not> internalKey k"
  then show "optionValue (mergeOptions base ov) k = Some (normalizeOptionValue v)"
    by (subst optionValue.simps) (simp add: mergeOptions_def map_of_overlay)
next
  fix ov :: options and k base
  assume a: "map_of ov k = None" "\<not> internalKey k"
  then have "map_of (mergeOptions base ov) k = map_of base k"
    and "map_of (mergeOptions base ov) optionBaseKey = map_of base optionBaseKey"
    by (simp_all add: mergeOptions_def cloneOptions_def map_of_overlay_absent map_of_overlay_internal)
  then show "optionValue (mergeOptions base ov) k = optionValue base k"
    by (simp add: optionValue.simps [of "mergeOptions base ov" k] optionValue.simps [of base k]
        cong: option.case_cong)
qed

lemma map_of_writeRPC:
  assumes "distinct (map fst ov)"
  shows "map_of (writeRPC out ov) k =
    (if internalKey k then map_of out k
     else case map_of ov k of Some v \<Rightarrow> Some (rpcValue v) | None \<Rightarrow> map_of out k)"
  using assms
proof (induction out ov rule: writeRPC.induct)
  case (2 out k' v kvs)
  from "2.prems" have "map_of kvs k' = None" by (simp add: map_of_eq_None_iff)
  with 2 show ?case by (auto simp: update_conv' split: option.splits)
qed simp

section \<open>Bounds of sizes\<close>

lemma parseSizeValue_bounds: "parseSizeValue s = Inr n \<Longrightarrow> 0 \<le> n \<and> n \<le> MaxInt64"
  by (auto simp: parseSizeValue_def Let_def isInt64_def split: if_splits prod.splits option.splits)

lemma spanDigits_all: "list_all isDigit s \<Longrightarrow> spanDigits s = (s, [])"
  by (simp add: spanDigits_def list_all_iff)

lemma scanMantissa_digits: "list_all isDigit s \<Longrightarrow> scanMantissa s = (s, [], [])"
  by (simp add: scanMantissa_def spanDigits_all)

lemma validDecimal_digits: "list_all isDigit s \<Longrightarrow> s \<noteq> [] \<Longrightarrow> validDecimalSizeNumber s"
  by (simp add: validDecimalSizeNumber_def scanMantissa_digits)

lemma showNat_all_digits: "list_all isDigit (showNat n)"
  by (simp add: list_all_iff showNat_digits)

lemma decimalParts_showNat: "decimalParts (showNat n) = Some (n, 0)"
  by (simp add: decimalParts_def scanMantissa_digits showNat_all_digits digitsVal_showNat)

lemma pow2_gap: "a \<le> b \<Longrightarrow> b < c \<Longrightarrow> (2::nat) ^ a \<le> 2 ^ c - 2 ^ b"
proof -
  assume "a \<le> b" "b < c"
  then have "(2::nat) ^ a \<le> 2 ^ b" "(2::nat) ^ Suc b \<le> 2 ^ c"
    by (simp_all only: power_increasing Suc_le_eq numeral_le_one_iff one_le_numeral Suc_leI)
  then show ?thesis unfolding power_Suc by linarith
qed

lemma floatLimit_ge: "2 ^ 63 \<le> floatLimit"
  unfolding floatLimit_def by (rule pow2_gap) simp_all

lemma no_floatOverflow: "int n \<le> MaxInt64 \<Longrightarrow> \<not> floatOverflow n 0"
proof -
  assume "int n \<le> MaxInt64"
  then have "n < 2 ^ 63" by simp
  with floatLimit_ge have "n < floatLimit" by (rule less_le_trans [rotated])
  then show ?thesis unfolding floatOverflow_def by simp
qed

lemma parseSizeValue_number:
  assumes "int n * int u \<le> MaxInt64" and "0 < u"
    and s: "TrimSpace s = s" "s \<noteq> ''''"
    and c: "(case sizeUnit (last s) of None \<Rightarrow> (1, s) | Some u \<Rightarrow> (u, butlast s)) = (u, showNat n)"
  shows "parseSizeValue s = Inr (int n * int u)"
proof -
  have "int n \<le> int n * int u" using assms(2) by (simp add: mult_le_cancel_left1)
  then have "\<not> floatOverflow n 0" using assms(1) by (intro no_floatOverflow) simp
  moreover have "TrimSpace (showNat n) = showNat n" by (rule TrimSpace_plain) (rule showNat_plain)
  moreover have "validDecimalSizeNumber (showNat n)"
    by (simp add: validDecimal_digits showNat_all_digits)
  moreover have "isInt64 (int n * int u)"
    using assms(1) by (simp add: isInt64_def order_trans [of MinInt64 0])
  ultimately show ?thesis using s
    by (simp add: parseSizeValue_def c decimalParts_showNat ratAccepts_def scaledInteger_def)
qed

text \<open>a size written as a decimal number and one of the unit letters reads as the number times
  1024, 1024 squared or 1024 cubed, whenever the product fits 64 bits.
\<close>

theorem parseSizeValue_unit:
  assumes "sizeUnit c = Some u" and "int n * int u \<le> MaxInt64"
  shows "parseSizeValue (Itoa (int n) @ [c]) = Inr (int n * int u)"
proof -
  have c: "plainByte c" and u: "0 < u"
    using assms(1) by (auto simp: sizeUnit_def plainByte_def asciiSpace_def split: if_splits)
  have i: "Itoa (int n) = showNat n" by (simp add: Itoa_def)
  have "TrimSpace (showNat n @ [c]) = showNat n @ [c]"
    by (rule TrimSpace_plain) (simp add: c showNat_plain)
  then show ?thesis unfolding i
    by (intro parseSizeValue_number [OF assms(2) u]) (simp_all add: assms(1))
qed

theorem parseSizeValue_unit_witness:
  "parseSizeValue ''20M'' = Inr 20971520"
proof -
  have "sizeUnit (CHR ''M'') = Some 1048576" by (simp add: sizeUnit_def)
  moreover have "int 20 * int 1048576 \<le> MaxInt64" by simp
  ultimately have "parseSizeValue (Itoa (int 20) @ ''M'') = Inr (int 20 * int 1048576)"
    by (rule parseSizeValue_unit)
  moreover have "Itoa (int 20) = ''20''" by code_simp
  ultimately show ?thesis by simp
qed

text \<open>every size the parser accepts, with any unit, fraction or exponent, is a non-negative 64-bit
  integer.
\<close>

theorem parseSize_in_range:
  assumes "0 \<le> fallback" and "fallback \<le> MaxInt64"
  shows "0 \<le> parseSize s fallback \<and> parseSize s fallback \<le> MaxInt64"
  using assms parseSizeValue_bounds by (auto simp: parseSize_def split: sum.splits)

theorem parseSize_in_range_witness: "0 \<le> parseSize ''1.5e3K'' 0 \<and> parseSize ''1.5e3K'' 0 \<le> MaxInt64"
  by (rule parseSize_in_range) simp_all

section \<open>What validation guarantees to the readers\<close>

text \<open>A client's option value that is not a \<open>float64\<close>: all that JSON-RPC delivers, since the
  decoder keeps numbers as \<open>json.Number\<close>.\<close>

fun notFloat :: "optval \<Rightarrow> bool" where
  "notFloat (VFloat i f g) = False"
| "notFloat v = True"

lemma validateEntries_entry:
  "validateEntries opts kvs = Inr () \<Longrightarrow> (k, v) \<in> set kvs \<Longrightarrow> validateOptionEntry opts k v = Inr ()"
  by (induction opts kvs rule: validateEntries.induct) (auto simp: bindR_eq_Inr)

lemma validateOptionValues_entry:
  assumes "validateOptionValues opts = Inr ()" and "map_of opts k = Some v"
  shows "\<not> invalidOptionKey k \<and> validateTypedValue k (optionString opts k) = Inr ()"
proof -
  have "validateEntries opts opts = Inr ()"
    using assms(1) by (auto simp: validateOptionValues_def validateOptionValuesWithLimit_def bindR_eq_Inr)
  then have "validateOptionEntry opts k v = Inr ()"
    using map_of_SomeD [OF assms(2)] by (rule validateEntries_entry)
  then show ?thesis by (auto simp: validateOptionEntry_def bindR_eq_Inr split: if_splits)
qed

lemma optionValue_explicit: "map_of opts k = Some v \<Longrightarrow> optionValue opts k = (if v = VNil then None else Some v)"
  by (subst optionValue.simps) simp

lemma optionValue_flat:
  "map_of opts optionBaseKey = None \<Longrightarrow>
   optionValue opts key = (case map_of opts key of Some v \<Rightarrow> (if v = VNil then None else Some v) | None \<Rightarrow> None)"
  by (subst optionValue.simps) (auto split: option.splits)

lemmas options_eval = validateOptionValues_def validateOptionValuesWithLimit_def validateOptionCount_def
  validateOptionEntry_def invalidOptionKey_def internalKey_def optionBaseKey_def
  sessionTorrentFinalizedOption_def sessionExplicitOptionsOption_def ContainsByte_def ContainsAny_def
  TrimSpace_plain hasSpace_plain leadLen_plain plainByte_def asciiSpace_def optionString_def optionValue_explicit
  maxDownloadOptionValueSize_def maxDownloadOptionKeys_def maxDownloadOptionListItems_def
  validateTypedValue_def boolOptionKeys_def intOptionKeys_def sizeOptionKeys_def
  Atoi_def parseUint_def isDigit_def digitVal_def isInt64_def

lemma bracket_not_digit: "Atoi (CHR ''['' # s) = None" "Atoi '''' = None" "Atoi ''map[]'' = None"
  by (simp_all add: Atoi_def parseUint_def isDigit_def)

lemma bool_not_int: "Atoi (FormatBool b) = None"
  by (cases b) (simp_all add: FormatBool_def Atoi_def parseUint_def isDigit_def)

text \<open>The text a reader gets from a layered value is the text validation looked at, unless the
  value is printed differently (lists of any, booleans are not), in which case the text is no number.\<close>

lemma raw_text_of_layered:
  assumes "map_of opts k = Some v" and "notFloat v" and "\<not> internalKey k" and "distinct (map fst opts)"
  shows "optionString (layerOptions base opts) k = optionString opts k \<or>
    Atoi (optionString opts k) = None \<and> (\<exists>xs. v = VAnys xs)"
  using assms
  by (cases v rule: normalizeOptionValue.cases)
     (auto simp: optionString_def optionValue_explicit layer.read_written bracket_not_digit
        FormatBool_def Join.simps)

lemma validated_int_text:
  assumes "validateOptionValues opts = Inr ()" and "distinct (map fst opts)"
    and "map_of opts key = Some v" and "notFloat v" and "key \<in> set intOptionKeys"
  shows "\<exists>n \<ge> 0. (key \<in> {''connect-timeout'', ''retry-wait'', ''timeout''} \<longrightarrow> n \<le> MaxInt64 div 1000000000) \<and>
    (\<forall>fallback. optionInt (layerOptions base opts) key fallback = n)"
proof -
  let ?raw = "optionString opts key"
  have ok: "\<not> invalidOptionKey key" "validateTypedValue key ?raw = Inr ()"
    using validateOptionValues_entry [OF assms(1,3)] by auto
  have "key \<notin> set boolOptionKeys" using assms(5) by (auto simp: intOptionKeys_def boolOptionKeys_def)
  with ok(2) assms(5) obtain n where n: "Atoi ?raw = Some n" "0 \<le> n" "TrimSpace ?raw = ?raw"
    and limit: "key \<in> {''connect-timeout'', ''retry-wait'', ''timeout''} \<longrightarrow> n \<le> MaxInt64 div 1000000000"
    by (auto simp: validateTypedValue_def split: if_splits option.splits)
  have "?raw \<noteq> ''''" using n(1) bracket_not_digit(2) by auto
  moreover have "optionString (layerOptions base opts) key = ?raw"
    using raw_text_of_layered [OF assms(3,4) _ assms(2), of base] ok(1) n(1)
    by (auto simp: invalidOptionKey_def)
  ultimately have "\<forall>fallback. optionInt (layerOptions base opts) key fallback = n"
    using n by (simp add: optionInt_def)
  with n(2) limit show ?thesis by blast
qed

text \<open>an integer option of a request that passed validation is read from the layered option map as
  a non-negative integer, whatever the fallback and the global options are.
\<close>

theorem validated_int_option:
  assumes "validateOptionValues opts = Inr ()" and "distinct (map fst opts)"
    and "map_of opts key = Some v" and "notFloat v" and "key \<in> set intOptionKeys"
  shows "\<exists>n \<ge> 0. \<forall>fallback. optionInt (layerOptions base opts) key fallback = n"
  using validated_int_text[OF assms] by blast

theorem validated_int_option_witness:
  "\<exists>n \<ge> 0. \<forall>fallback. optionInt (layerOptions [] [(''split'', VNum ''8'')]) ''split'' fallback = n"
proof (rule validated_int_option)
  show "validateOptionValues [(''split'', VNum ''8'')] = Inr ()"
    by (simp add: options_eval)
  show "''split'' \<in> set intOptionKeys" by (simp add: intOptionKeys_def)
  show "map_of [(''split'', VNum ''8'')] ''split'' = Some (VNum ''8'')" by simp
qed simp_all

end
