(* ===== verification/Engine_State.thy ===== *)
theory Engine_State
  imports Options
begin

text \<open>
  The data of the engine: types.go and the \<open>Engine\<close> and \<open>Download\<close> structs of engine.go.
  A \<open>*Download\<close> is shared between the \<open>downloads\<close> map and the goroutine that runs it, and
  outlives its map entry, so download objects live in a store (\<open>eHeap\<close>) and are named by their
  index in it. A \<open>context.Context\<close> is a number, drawn from \<open>eNextCtx\<close> when the scheduler
  creates it; \<open>dCancel\<close> is the cancel function of that context and \<open>eCancelled\<close> holds the
  contexts whose cancel function has been called. The mutexes are not state: every operation is the
  atomic effect of its critical section. \<open>eClock\<close> is what \<open>time.Now()\<close> returns.
\<close>

datatype status =
    StatusActive | StatusWaiting | StatusPaused | StatusError | StatusComplete | StatusRemoved

fun statusText :: "status \<Rightarrow> string" where
  "statusText StatusActive = ''active''"
| "statusText StatusWaiting = ''waiting''"
| "statusText StatusPaused = ''paused''"
| "statusText StatusError = ''error''"
| "statusText StatusComplete = ''complete''"
| "statusText StatusRemoved = ''removed''"

datatype uriStatus = URIStatusUsed | URIStatusWaiting

record uriInfo =
  uURI :: string
  uStatus :: uriStatus

datatype downloadKind = downloadKindURI | downloadKindTorrent

definition maxDownloadURIs :: nat where "maxDownloadURIs = 64"

record torrentFileState =
  tfIndex :: int
  tfPath :: string
  tfLength :: int
  tfCompleted :: int
  tfSelected :: bool

text \<open>\<open>torrentRuntime\<close>: the client and torrent handles are third-party objects, of which the
  engine's own code only asks whether they are nil.\<close>

record torrentRuntime =
  rtTorrent :: bool
  rtSelection :: bool
  rtSelected :: "int list"
  rtCompleted :: "int list"
  rtClosed :: bool

record bittorrentInfo =
  btAnnounceList :: "string list list"
  btComment :: string
  btCreationDate :: int
  btMode :: string
  btName :: string

record Download =
  dKind :: downloadKind
  dGid :: string
  dUris :: "uriInfo list"
  dOptions :: options
  dStatus :: status
  dDir :: string
  dOut :: string
  dPath :: string
  dCurrentURI :: string
  dTotalLength :: int
  dCompletedLen :: int
  dDownloadBPS :: int
  dConnections :: int
  dPieceLength :: int
  dNumPieces :: int
  dDonePieces :: int
  dBitfield :: string
  dInfoHash :: string
  dNumSeeders :: int
  dSeeder :: bool
  dBittorrent :: "bittorrentInfo option"
  dTorrent :: "torrentRuntime option"
  dTorrentFiles :: "torrentFileState list"
  dTorrentFinalized :: "int list"
  dTorrentData :: string
  dTorrentMagnet :: string
  dErrorCode :: string
  dErrorMessage :: string
  dCreatedAt :: int
  dStoppedAt :: int
  dCtx :: "nat option"
  dCancel :: "nat option"
  dPathResetAfterRun :: "nat option"
  dRetainReservationsAfterRun :: "nat option"
  dReservationTransitionAfterRun :: "nat option"
  dReservationPathsAfterRun :: "string list"

text \<open>The zero value of the struct, which every constructor starts from.\<close>

definition zeroDownload :: Download where
  "zeroDownload =
     \<lparr>dKind = downloadKindURI, dGid = '''', dUris = [], dOptions = [], dStatus = StatusWaiting,
      dDir = '''', dOut = '''', dPath = '''', dCurrentURI = '''', dTotalLength = 0, dCompletedLen = 0,
      dDownloadBPS = 0, dConnections = 0, dPieceLength = 0, dNumPieces = 0, dDonePieces = 0,
      dBitfield = '''', dInfoHash = '''', dNumSeeders = 0, dSeeder = False, dBittorrent = None,
      dTorrent = None, dTorrentFiles = [], dTorrentFinalized = [], dTorrentData = '''',
      dTorrentMagnet = '''', dErrorCode = '''', dErrorMessage = '''', dCreatedAt = 0, dStoppedAt = 0,
      dCtx = None, dCancel = None, dPathResetAfterRun = None, dRetainReservationsAfterRun = None,
      dReservationTransitionAfterRun = None, dReservationPathsAfterRun = []\<rparr>"

record notification =
  nMethod :: string
  nGID :: string
  nTime :: int

text \<open>A subscriber's channel: what is buffered, its capacity, whether it is closed.\<close>

record channel =
  chBuf :: "notification list"
  chCap :: nat
  chClosed :: bool

record Engine =
  eMaxConcurrentDownloads :: int
  eMaxDownloadResult :: int
  eDone :: bool
  eHeap :: "Download list"
  eDownloads :: "(string \<times> nat) list"
  eWaiting :: "string list"
  eActive :: "string list"
  eStopped :: "string list"
  eStoppedSet :: "string list"
  eStoppedTotal :: nat
  eGlobal :: options
  eSessionID :: string
  eWake :: bool
  eShutdownReq :: "bool option"
  ePathReservations :: "(string \<times> string) list"
  eReservedPathsByGID :: "(string \<times> string list) list"
  eChans :: "channel list"
  eSubscribers :: "nat list"
  eCancelled :: "nat list"
  eNextCtx :: nat
  eRuns :: "(nat \<times> nat) list"
  eClock :: int
  eSaves :: nat

definition isTerminal :: "status \<Rightarrow> bool" where
  "isTerminal s \<longleftrightarrow> s = StatusComplete \<or> s = StatusError \<or> s = StatusRemoved"

text \<open>Reading and writing the object a pointer names.\<close>

definition obj :: "Engine \<Rightarrow> nat \<Rightarrow> Download" where
  "obj e i = eHeap e ! i"

definition setObj :: "Engine \<Rightarrow> nat \<Rightarrow> Download \<Rightarrow> Engine" where
  "setObj e i d = e\<lparr>eHeap := (eHeap e)[i := d]\<rparr>"

text \<open>Calling a \<open>context.CancelFunc\<close> that may be nil.\<close>

definition callCancel :: "nat option \<Rightarrow> Engine \<Rightarrow> Engine" where
  "callCancel c e = (case c of None \<Rightarrow> e | Some i \<Rightarrow> e\<lparr>eCancelled := i # eCancelled e\<rparr>)"

definition signal :: "Engine \<Rightarrow> Engine" where
  "signal e = e\<lparr>eWake := True\<rparr>"

text \<open>A save of the session file; the file's contents are modelled in theory Session.\<close>

definition saveSessionBestEffort :: "Engine \<Rightarrow> Engine" where
  "saveSessionBestEffort e = e\<lparr>eSaves := Suc (eSaves e)\<rparr>"

section \<open>Notifications\<close>

definition maxNotificationBuffer :: int where "maxNotificationBuffer = 4096"

definition bufferSize :: "int \<Rightarrow> nat" where
  "bufferSize b = nat (if b \<le> 0 then 32 else if b > maxNotificationBuffer then maxNotificationBuffer else b)"

definition Subscribe :: "int \<Rightarrow> Engine \<Rightarrow> nat \<times> Engine" where
  "Subscribe buffer e =
     (let i = length (eChans e);
          ch = \<lparr>chBuf = [], chCap = bufferSize buffer, chClosed = False\<rparr> in
      if eDone e then (i, e\<lparr>eChans := eChans e @ [ch\<lparr>chClosed := True\<rparr>]\<rparr>)
      else (i, e\<lparr>eChans := eChans e @ [ch], eSubscribers := i # eSubscribers e\<rparr>))"

text \<open>The cancel function \<open>Subscribe\<close> returns.\<close>

definition closeChan :: "nat \<Rightarrow> channel list \<Rightarrow> channel list" where
  "closeChan i chs = chs[i := (chs ! i)\<lparr>chClosed := True\<rparr>]"

definition unsubscribe :: "nat \<Rightarrow> Engine \<Rightarrow> Engine" where
  "unsubscribe i e =
     (if i \<in> set (eSubscribers e)
      then e\<lparr>eSubscribers := removeAll i (eSubscribers e), eChans := closeChan i (eChans e)\<rparr>
      else e)"

definition closeSubscribers :: "Engine \<Rightarrow> Engine" where
  "closeSubscribers e = e\<lparr>eSubscribers := [], eChans := fold closeChan (eSubscribers e) (eChans e)\<rparr>"

text \<open>The non-blocking send of \<open>notify\<close> to one channel: dropped when the buffer is full.\<close>

definition trySend :: "notification \<Rightarrow> nat \<Rightarrow> channel list \<Rightarrow> channel list" where
  "trySend n i chs =
     (let ch = chs ! i in
      if length (chBuf ch) < chCap ch then chs[i := ch\<lparr>chBuf := chBuf ch @ [n]\<rparr>] else chs)"

definition notify :: "string \<Rightarrow> string \<Rightarrow> Engine \<Rightarrow> Engine" where
  "notify meth g e =
     (let n = \<lparr>nMethod = meth, nGID = g, nTime = eClock e\<rparr> in
      e\<lparr>eChans := fold (trySend n) (eSubscribers e) (eChans e)\<rparr>)"

section \<open>Shutdown requests\<close>

text \<open>\<open>RequestShutdown\<close> on the one-place channel: a forced request replaces a queued one, a
  graceful request is dropped when one is queued.\<close>

definition RequestShutdown :: "bool \<Rightarrow> Engine \<Rightarrow> Engine" where
  "RequestShutdown force e =
     (if force then e\<lparr>eShutdownReq := Some True\<rparr>
      else (case eShutdownReq e of None \<Rightarrow> e\<lparr>eShutdownReq := Some False\<rparr> | Some _ \<Rightarrow> e))"

section \<open>Construction\<close>

text \<open>
  \<open>NewEngine\<close> without an input file (theory Session adds it): the configuration's defaults and the
  empty engine. \<open>absDir\<close> is what \<open>filepath.Abs(cfg.Dir)\<close> returns and \<open>sid\<close> the random
  session id. The HTTP client and the transport caches are not part of the state.
\<close>

definition NewEngine :: "string res \<Rightarrow> int \<Rightarrow> int \<Rightarrow> string \<Rightarrow> string \<Rightarrow> string \<Rightarrow> int \<Rightarrow> Engine res" where
  "NewEngine absDir maxConcurrent maxResult userAgent saveSession sid now =
     bindR absDir (\<lambda>abs.
       (let mc = (if maxConcurrent \<le> 0 then 5 else maxConcurrent);
            mr = (if maxResult \<le> 0 then 1000 else maxResult);
            ua = (if userAgent = '''' then ''goaria/0.3.0'' else userAgent);
            g1 = AList.update ''user-agent'' (VStr ua) (defaultOptions abs mc mr);
            g2 = (if saveSession \<noteq> '''' then AList.update ''save-session'' (VStr saveSession) g1 else g1) in
        Inr \<lparr>eMaxConcurrentDownloads = mc, eMaxDownloadResult = mr, eDone = False, eHeap = [],
             eDownloads = [], eWaiting = [], eActive = [], eStopped = [], eStoppedSet = [],
             eStoppedTotal = 0, eGlobal = g2, eSessionID = sid, eWake = True, eShutdownReq = None,
             ePathReservations = [], eReservedPathsByGID = [], eChans = [], eSubscribers = [],
             eCancelled = [], eNextCtx = 0, eRuns = [], eClock = now, eSaves = 0\<rparr>))"

text \<open>A concrete engine for examples: default configuration, downloads below \<open>/dl\<close>.\<close>

definition exampleEngine :: Engine where
  "exampleEngine = projr (NewEngine (Inr ''/dl'') 0 0 '''' '''' ''s'' 0)"

lemma exampleEngine_fields [simp]:
  "eHeap exampleEngine = []" "eDownloads exampleEngine = []" "eWaiting exampleEngine = []"
  "eActive exampleEngine = []" "eStopped exampleEngine = []" "eStoppedSet exampleEngine = []"
  "eRuns exampleEngine = []" "ePathReservations exampleEngine = []"
  "eReservedPathsByGID exampleEngine = []" "eNextCtx exampleEngine = 0" "\<not> eDone exampleEngine"
  by (simp_all add: exampleEngine_def NewEngine_def Let_def)

lemmas engine_small_defs [go_defs] = setObj_def callCancel_def signal_def saveSessionBestEffort_def notify_def

end
