(* ===== verification/Reservations.thy ===== *)
theory Reservations
  imports Engine_State
begin

text \<open>
  Output path reservations of download_util.go: two maps of the engine, from a canonical path to the
  gid that owns it and from a gid to its paths, kept in step by every operation. The canonical form
  of a path (\<open>outputPathReservationKey\<close>, which walks the file system) and the existence test
  (\<open>os.Stat\<close>) are the parameters \<open>rkey\<close> and \<open>stat\<close>: \<open>stat p\<close> is \<open>Inr True\<close>
  when the file exists, \<open>Inr False\<close> for \<open>ErrNotExist\<close> and \<open>Inl\<close> for another error.
\<close>

definition pathsOf :: "Engine \<Rightarrow> string \<Rightarrow> string list" where
  "pathsOf e g = (case map_of (eReservedPathsByGID e) g of None \<Rightarrow> [] | Some ps \<Rightarrow> ps)"

definition recordPathReservationLocked :: "string \<Rightarrow> string \<Rightarrow> Engine \<Rightarrow> Engine" where
  "recordPathReservationLocked p g e =
     e\<lparr>ePathReservations := AList.update p g (ePathReservations e),
       eReservedPathsByGID := AList.update g (List.insert p (pathsOf e g)) (eReservedPathsByGID e)\<rparr>"

definition releaseOutputPaths :: "string \<Rightarrow> Engine \<Rightarrow> Engine" where
  "releaseOutputPaths g e =
     e\<lparr>ePathReservations :=
         fold (\<lambda>p m. if map_of m p = Some g then AList.delete p m else m) (pathsOf e g) (ePathReservations e),
       eReservedPathsByGID := AList.delete g (eReservedPathsByGID e)\<rparr>"

function reserveRenamed ::
    "(string \<Rightarrow> string res) \<Rightarrow> (string \<Rightarrow> bool res) \<Rightarrow> string \<Rightarrow> string \<Rightarrow> nat \<Rightarrow> Engine \<Rightarrow> (string \<times> Engine) res" where
  "reserveRenamed rkey stat p g i e =
     (if i < 10000 then
        (let candidate = p @ ''.'' @ Itoa (int i) in
         bindR (rkey candidate) (\<lambda>k.
           if map_of (ePathReservations e) k \<noteq> None then reserveRenamed rkey stat p g (Suc i) e
           else bindR (stat candidate) (\<lambda>ex.
             if ex then reserveRenamed rkey stat p g (Suc i) e
             else Inr (candidate, recordPathReservationLocked k g e))))
      else Inl (Errorf ''could not find available auto-renamed path for %s'' [p]))"
  by pat_completeness auto
termination
  by (relation "measure (\<lambda>(rkey, stat, p, g, i, e). 10000 - i)") auto

declare reserveRenamed.simps [simp del]

definition reserveOutputPath ::
    "(string \<Rightarrow> string res) \<Rightarrow> (string \<Rightarrow> bool res) \<Rightarrow> string \<Rightarrow> string \<Rightarrow> bool \<Rightarrow> Engine \<Rightarrow> (string \<times> Engine) res" where
  "reserveOutputPath rkey stat p g autoRename e =
     bindR (rkey p) (\<lambda>k.
       (case map_of (ePathReservations e) k of
          None \<Rightarrow> Inr (p, recordPathReservationLocked k g e)
        | Some owner \<Rightarrow>
           (if owner = g then Inr (p, recordPathReservationLocked k g e)
            else if \<not> autoRename then Inl (Errorf ''output path is already in use: %s'' [p])
            else reserveRenamed rkey stat p g 1 e)))"

text \<open>The first loop of \<open>updateOutputPathReservations\<close>: the key of every path, all different.\<close>

fun reservationKeys :: "(string \<Rightarrow> string res) \<Rightarrow> (string \<times> string) list \<Rightarrow> string list \<Rightarrow> (string \<times> string) list res" where
  "reservationKeys rkey seen [] = Inr seen"
| "reservationKeys rkey seen (p # ps) =
     bindR (rkey p) (\<lambda>k.
       (case map_of seen k of
          Some previous \<Rightarrow> Inl (Errorf ''multiple files use the same output path: %s and %s'' [previous, p])
        | None \<Rightarrow> reservationKeys rkey (seen @ [(k, p)]) ps))"

fun firstConflict :: "(string \<times> string) list \<Rightarrow> string \<Rightarrow> (string \<times> string) list \<Rightarrow> string option" where
  "firstConflict m g [] = None"
| "firstConflict m g ((k, p) # kps) =
     (case map_of m k of
        Some owner \<Rightarrow> (if owner \<noteq> g then Some p else firstConflict m g kps)
      | None \<Rightarrow> firstConflict m g kps)"

text \<open>The \<open>replace\<close> branch: drop the paths of \<open>g\<close> that are not kept.\<close>

definition dropObsolete :: "string list \<Rightarrow> string \<Rightarrow> Engine \<Rightarrow> Engine" where
  "dropObsolete keep g e =
     e\<lparr>ePathReservations := fold AList.delete (filter (\<lambda>k. k \<notin> set keep) (pathsOf e g)) (ePathReservations e),
       eReservedPathsByGID :=
         (case map_of (eReservedPathsByGID e) g of
            None \<Rightarrow> eReservedPathsByGID e
          | Some ps \<Rightarrow> AList.update g (filter (\<lambda>k. k \<in> set keep) ps) (eReservedPathsByGID e))\<rparr>"

definition updateOutputPathReservations ::
    "(string \<Rightarrow> string res) \<Rightarrow> string list \<Rightarrow> string \<Rightarrow> bool \<Rightarrow> Engine \<Rightarrow> Engine res" where
  "updateOutputPathReservations rkey ps g replace e =
     bindR (reservationKeys rkey [] ps) (\<lambda>kps.
       (case firstConflict (ePathReservations e) g kps of
          Some p \<Rightarrow> Inl (Errorf ''output path is already in use: %s'' [p])
        | None \<Rightarrow>
           (let e1 = (if replace then dropObsolete (map fst kps) g e else e) in
            Inr (fold (\<lambda>(k, p). recordPathReservationLocked k g) kps e1))))"

definition reserveOutputPaths where
  "reserveOutputPaths rkey ps g e = updateOutputPathReservations rkey ps g False e"

definition replaceOutputPaths where
  "replaceOutputPaths rkey ps g e = updateOutputPathReservations rkey ps g True e"

section \<open>The table invariant\<close>

definition owner :: "Engine \<Rightarrow> string \<Rightarrow> string option" where
  "owner e k = map_of (ePathReservations e) k"

text \<open>The two maps describe the same relation.\<close>

definition resInv :: "Engine \<Rightarrow> bool" where
  "resInv e \<longleftrightarrow> (\<forall>k g. k \<in> set (pathsOf e g) \<longleftrightarrow> owner e k = Some g)"

lemma resInv_cong:
  "ePathReservations e' = ePathReservations e \<Longrightarrow> eReservedPathsByGID e' = eReservedPathsByGID e \<Longrightarrow>
   resInv e' = resInv e"
  by (simp add: resInv_def owner_def pathsOf_def)

lemma owner_record [simp]:
  "owner (recordPathReservationLocked k g e) k' = (if k' = k then Some g else owner e k')"
  by (simp add: owner_def recordPathReservationLocked_def update_conv')

lemma pathsOf_record:
  "set (pathsOf (recordPathReservationLocked k g e) g') =
     (if g' = g then insert k (set (pathsOf e g)) else set (pathsOf e g'))"
  by (auto simp: pathsOf_def recordPathReservationLocked_def update_conv')

lemma resInv_record:
  "resInv e \<Longrightarrow> owner e k = None \<or> owner e k = Some g \<Longrightarrow> resInv (recordPathReservationLocked k g e)"
  unfolding resInv_def pathsOf_record by auto

lemma owner_fold_record:
  "owner (fold (\<lambda>(k, p). recordPathReservationLocked k g) kps e) k' =
     (if k' \<in> fst ` set kps then Some g else owner e k')"
  by (induction kps arbitrary: e) (auto split: prod.splits)

lemma resInv_fold_record:
  "resInv e \<Longrightarrow> (\<forall>k \<in> fst ` set kps. owner e k = None \<or> owner e k = Some g) \<Longrightarrow>
   resInv (fold (\<lambda>(k, p). recordPathReservationLocked k g) kps e)"
  by (induction kps arbitrary: e) (auto simp: resInv_record split: prod.splits)

lemma fold_release:
  "map_of (fold (\<lambda>p m. if map_of m p = Some g then AList.delete p m else m) ps m) k =
     (if k \<in> set ps \<and> map_of m k = Some g then None else map_of m k)"
  by (induction ps arbitrary: m) (auto simp: delete_conv')

lemma owner_release:
  assumes "resInv e"
  shows "owner (releaseOutputPaths g e) k = (if owner e k = Some g then None else owner e k)"
  using assms by (auto simp: owner_def releaseOutputPaths_def fold_release resInv_def)

lemma pathsOf_release:
  "pathsOf (releaseOutputPaths g e) g' = (if g' = g then [] else pathsOf e g')"
  by (simp add: pathsOf_def releaseOutputPaths_def delete_conv')

lemma resInv_release: "resInv e \<Longrightarrow> resInv (releaseOutputPaths g e)"
  using owner_release [of e g] by (auto simp: resInv_def pathsOf_release)

lemma fold_delete: "map_of (fold AList.delete ks m) k = (if k \<in> set ks then None else map_of m k)"
  by (induction ks arbitrary: m) (auto simp: delete_conv')

lemma owner_dropObsolete:
  "resInv e \<Longrightarrow> owner (dropObsolete keep g e) k =
     (if owner e k = Some g \<and> k \<notin> set keep then None else owner e k)"
  by (auto simp: owner_def dropObsolete_def fold_delete resInv_def)

lemma pathsOf_dropObsolete:
  "set (pathsOf (dropObsolete keep g e) g') =
     (if g' = g then set (pathsOf e g) \<inter> set keep else set (pathsOf e g'))"
  by (auto simp: pathsOf_def dropObsolete_def update_conv' split: option.splits)

lemma resInv_dropObsolete: "resInv e \<Longrightarrow> resInv (dropObsolete keep g e)"
  using owner_dropObsolete [of e keep g] by (auto simp: resInv_def pathsOf_dropObsolete)

lemma firstConflict_None:
  "firstConflict m g kps = None \<longleftrightarrow> (\<forall>k \<in> fst ` set kps. map_of m k = None \<or> map_of m k = Some g)"
  by (induction m g kps rule: firstConflict.induct) (auto split: option.splits)

lemma reservationKeys_ok:
  assumes "reservationKeys rkey seen ps = Inr kps" and "distinct (map fst seen)"
  shows "distinct (map fst kps) \<and> (\<exists>ks. kps = seen @ zip ks ps \<and> length ks = length ps \<and>
    (\<forall>i < length ps. rkey (ps ! i) = Inr (ks ! i)))"
  using assms
proof (induction rkey seen ps rule: reservationKeys.induct)
  case (2 rkey seen p ps)
  from "2.prems"(1) obtain k where k: "rkey p = Inr k" "map_of seen k = None"
    and r: "reservationKeys rkey (seen @ [(k, p)]) ps = Inr kps"
    by (auto simp: bindR_eq_Inr split: option.splits)
  have "distinct (map fst (seen @ [(k, p)]))"
    using "2.prems"(2) k(2) by (auto simp: map_of_eq_None_iff)
  from "2.IH" [OF k(2) r this] obtain ks where
    "distinct (map fst kps)" "kps = (seen @ [(k, p)]) @ zip ks ps" "length ks = length ps"
    "\<forall>i < length ps. rkey (ps ! i) = Inr (ks ! i)" by blast
  then have "distinct (map fst kps) \<and> kps = seen @ zip (k # ks) (p # ps) \<and> length (k # ks) = length (p # ps) \<and>
    (\<forall>i < length (p # ps). rkey ((p # ps) ! i) = Inr ((k # ks) ! i))"
    using k(1) by (auto simp: nth_Cons split: nat.splits)
  then show ?case by blast
qed simp

section \<open>The contract\<close>

text \<open>
  What the engine relies on: a table of owners with an operation that reserves a set of keys for a
  gid and one that releases all keys of a gid.
\<close>

locale reservation_table =
  fixes own :: "'s \<Rightarrow> string \<Rightarrow> string option"
    and reserve :: "string list \<Rightarrow> string \<Rightarrow> 's \<Rightarrow> 's res"
    and keys :: "string list \<Rightarrow> string set"
    and release :: "string \<Rightarrow> 's \<Rightarrow> 's"
    and inv :: "'s \<Rightarrow> bool"
  assumes reserve_owner:
    "inv s \<Longrightarrow> reserve ps g s = Inr s' \<Longrightarrow> own s' k = (if k \<in> keys ps then Some g else own s k)"
    and reserve_free:
    "inv s \<Longrightarrow> reserve ps g s = Inr s' \<Longrightarrow> k \<in> keys ps \<Longrightarrow> own s k = None \<or> own s k = Some g"
    and reserve_inv: "inv s \<Longrightarrow> reserve ps g s = Inr s' \<Longrightarrow> inv s'"
    and release_owner: "inv s \<Longrightarrow> own (release g s) k = (if own s k = Some g then None else own s k)"
    and release_inv: "inv s \<Longrightarrow> inv (release g s)"
begin

lemma never_stolen:
  assumes "inv s" "reserve ps g s = Inr s'" "own s k = Some h"
  shows "own s' k = Some h"
  using reserve_owner [OF assms(1,2), of k] reserve_free [OF assms(1,2), of k] assms(3)
  by (auto split: if_splits)

lemma released_is_free:
  assumes "inv s" "own s k = Some g"
  shows "own (release g s) k = None"
  using assms by (simp add: release_owner)

lemma release_keeps_others:
  assumes "inv s" "own s k = Some h" "h \<noteq> g"
  shows "own (release g s) k = Some h"
  using assms by (simp add: release_owner)

lemma reserve_then_release:
  assumes "inv s" "reserve ps g s = Inr s'"
  shows "own (release g s') k = (if own s k = Some g then None else own s k)"
  using reserve_owner [OF assms, of k] reserve_free [OF assms, of k] reserve_inv [OF assms]
  by (auto simp: release_owner)

end

text \<open>The keys of a list of paths, for the paths whose key can be computed.\<close>

definition pathKeys :: "(string \<Rightarrow> string res) \<Rightarrow> string list \<Rightarrow> string set" where
  "pathKeys rkey ps = {k. \<exists>p \<in> set ps. rkey p = Inr k}"

lemma reservationKeys_set:
  assumes "reservationKeys rkey [] ps = Inr kps"
  shows "fst ` set kps = pathKeys rkey ps"
proof -
  obtain ks where k: "kps = zip ks ps" "length ks = length ps" "\<forall>i < length ps. rkey (ps ! i) = Inr (ks ! i)"
    using reservationKeys_ok [OF assms] by auto
  then have "fst ` set kps = set ks" by (metis list.set_map map_fst_zip)
  also have "set ks = pathKeys rkey ps"
    using k(2,3) by (fastforce simp: pathKeys_def in_set_conv_nth)
  finally show ?thesis .
qed

lemma update_reservations_ok:
  assumes "resInv e" and "updateOutputPathReservations rkey ps g replace e = Inr e'"
  shows "owner e' k =
      (if k \<in> pathKeys rkey ps then Some g
       else if replace \<and> owner e k = Some g then None else owner e k)"
    and "k \<in> pathKeys rkey ps \<Longrightarrow> owner e k = None \<or> owner e k = Some g"
    and "resInv e'"
proof -
  from assms(2) obtain kps where kps: "reservationKeys rkey [] ps = Inr kps"
    and free: "firstConflict (ePathReservations e) g kps = None"
    and e': "e' = fold (\<lambda>(k, p). recordPathReservationLocked k g) kps
      (if replace then dropObsolete (map fst kps) g e else e)"
    by (auto simp: updateOutputPathReservations_def bindR_eq_Inr Let_def split: option.splits)
  have ks: "fst ` set kps = pathKeys rkey ps" by (rule reservationKeys_set [OF kps])
  have fr: "\<forall>k \<in> fst ` set kps. owner e k = None \<or> owner e k = Some g"
    using free by (simp add: firstConflict_None owner_def)
  let ?e1 = "if replace then dropObsolete (map fst kps) g e else e"
  have o1: "owner ?e1 k = (if replace \<and> owner e k = Some g \<and> k \<notin> fst ` set kps then None else owner e k)" for k
    using owner_dropObsolete [OF assms(1), of "map fst kps" g k] by simp
  have r1: "resInv ?e1" using assms(1) resInv_dropObsolete by simp
  show "owner e' k = (if k \<in> pathKeys rkey ps then Some g
       else if replace \<and> owner e k = Some g then None else owner e k)"
    unfolding e' owner_fold_record o1 ks by simp
  show "k \<in> pathKeys rkey ps \<Longrightarrow> owner e k = None \<or> owner e k = Some g" using fr ks by simp
  have "\<forall>k \<in> fst ` set kps. owner ?e1 k = None \<or> owner ?e1 k = Some g" using fr o1 by auto
  then show "resInv e'" unfolding e' by (rule resInv_fold_record [OF r1])
qed

interpretation paths: reservation_table owner "reserveOutputPaths rkey" "pathKeys rkey" releaseOutputPaths resInv
  for rkey
proof unfold_locales
  fix e e' ps g k
  assume "resInv e" "reserveOutputPaths rkey ps g e = Inr e'"
  then have e: "resInv e" "updateOutputPathReservations rkey ps g False e = Inr e'"
    by (simp_all add: reserveOutputPaths_def)
  show "owner e' k = (if k \<in> pathKeys rkey ps then Some g else owner e k)"
    using update_reservations_ok(1) [OF e, of k] by simp
  show "k \<in> pathKeys rkey ps \<Longrightarrow> owner e k = None \<or> owner e k = Some g"
    by (rule update_reservations_ok(2) [OF e])
  show "resInv e'" by (rule update_reservations_ok(3) [OF e])
qed (simp_all add: owner_release resInv_release)

lemma reserveRenamed_ok:
  assumes "reserveRenamed rkey stat p g i e = Inr (q, e')"
  shows "\<exists>k. rkey q = Inr k \<and> owner e k = None \<and> stat q = Inr False \<and> e' = recordPathReservationLocked k g e"
  using assms
proof (induction rkey stat p g i e rule: reserveRenamed.induct)
  case (1 rkey stat p g i e)
  let ?c = "p @ ''.'' @ Itoa (int i)"
  from "1.prems" have i: "i < 10000" by (subst (asm) reserveRenamed.simps) (simp split: if_splits)
  with "1.prems" obtain k where k: "rkey ?c = Inr k"
    and r: "(if map_of (ePathReservations e) k \<noteq> None then reserveRenamed rkey stat p g (Suc i) e
       else bindR (stat ?c) (\<lambda>ex. if ex then reserveRenamed rkey stat p g (Suc i) e
         else Inr (?c, recordPathReservationLocked k g e))) = Inr (q, e')"
    by (subst (asm) reserveRenamed.simps) (auto simp only: Let_def bindR_eq_Inr if_True)
  show ?case
  proof (cases "map_of (ePathReservations e) k = None")
    case False
    with r have "reserveRenamed rkey stat p g (Suc i) e = Inr (q, e')" by simp
    with "1.IH"(1) [OF i refl] False show ?thesis by blast
  next
    case True
    with r obtain ex where ex: "stat ?c = Inr ex"
      and r': "(if ex then reserveRenamed rkey stat p g (Suc i) e
         else Inr (?c, recordPathReservationLocked k g e)) = Inr (q, e')"
      by (auto simp only: bindR_eq_Inr if_False simp_thms)
    show ?thesis
    proof (cases ex)
      case True
      with r' have "reserveRenamed rkey stat p g (Suc i) e = Inr (q, e')" by simp
      with "1.IH"(2) [OF i refl, of k ex] \<open>map_of (ePathReservations e) k = None\<close> True
      show ?thesis by blast
    next
      case False
      with r' have "q = ?c" "e' = recordPathReservationLocked k g e" by simp_all
      with False ex k True show ?thesis by (auto simp: owner_def)
    qed
  qed
qed

lemma reserveOutputPath_ok:
  assumes "reserveOutputPath rkey stat p g autoRename e = Inr (q, e')"
  shows "\<exists>k. rkey q = Inr k \<and> (owner e k = None \<or> owner e k = Some g) \<and>
    e' = recordPathReservationLocked k g e \<and> (q \<noteq> p \<longrightarrow> autoRename \<and> owner e k = None \<and> stat q = Inr False)"
proof -
  obtain k where k: "rkey p = Inr k" using assms by (auto simp: reserveOutputPath_def bindR_eq_Inr)
  show ?thesis
  proof (cases "owner e k = None \<or> owner e k = Some g")
    case True
    with assms k have "q = p" "e' = recordPathReservationLocked k g e"
      by (auto simp: reserveOutputPath_def owner_def)
    with True k show ?thesis by blast
  next
    case False
    with assms k have "autoRename" "reserveRenamed rkey stat p g 1 e = Inr (q, e')"
      by (auto simp: reserveOutputPath_def owner_def split: option.splits if_splits)
    then show ?thesis using reserveRenamed_ok by blast
  qed
qed



text \<open>the torrent restart protocol. Replacing the reservations of a download leaves it with exactly
  the keys of the new paths, and leaves the reservations of every other download as they were.
\<close>

theorem replaceOutputPaths_exact:
  assumes "resInv e" and "replaceOutputPaths rkey ps g e = Inr e'"
  shows "set (pathsOf e' g) = pathKeys rkey ps \<and> (\<forall>h k. h \<noteq> g \<longrightarrow> owner e' k = Some h \<longleftrightarrow> owner e k = Some h) \<and> resInv e'"
proof -
  note ok = update_reservations_ok [OF assms(1) assms(2) [unfolded replaceOutputPaths_def]]
  have "set (pathsOf e' g) = {k. owner e' k = Some g}" using ok(3) by (auto simp: resInv_def)
  then have "set (pathsOf e' g) = pathKeys rkey ps" using ok(1) by (auto split: if_splits)
  moreover have "owner e' k = Some h \<longleftrightarrow> owner e k = Some h" if "h \<noteq> g" for h k
    using ok(1) [of k] ok(2) [of k] that by (auto split: if_splits)
  ultimately show ?thesis using ok(3) by blast
qed

theorem replaceOutputPaths_exact_witness:
  "\<exists>e'. set (pathsOf e' ''g1'') = pathKeys Inr [''/dl/b''] \<and> resInv e'"
proof -
  let ?e = "recordPathReservationLocked ''/dl/a'' ''g1'' exampleEngine"
  have "resInv exampleEngine" by (simp add: resInv_def owner_def pathsOf_def)
  then have "resInv ?e" by (rule resInv_record) (simp add: owner_def)
  moreover obtain e' where "replaceOutputPaths Inr [''/dl/b''] ''g1'' ?e = Inr e'"
    by (simp add: replaceOutputPaths_def updateOutputPathReservations_def recordPathReservationLocked_def Let_def)
  ultimately have "set (pathsOf e' ''g1'') = pathKeys Inr [''/dl/b''] \<and> resInv e'"
    using replaceOutputPaths_exact [of ?e Inr "[''/dl/b'']" "''g1''" e'] by simp
  then show ?thesis by blast
qed

end
