(* ===== verification/Progress.thy ===== *)
theory Progress
  imports Reservations
begin

unbundle bit_operations_syntax

text \<open>
  Progress accounting: the segment layout, piece counts and bitfields of download_util.go and the
  progress methods of download_progress.go. Also \<open>path/filepath\<close> on Unix, which the metadata
  method uses. A byte of a bitfield is a natural number below 256; Go's \<open>int64\<close> arithmetic is
  written with its wrap-around where an unguarded sum occurs.
\<close>

section \<open>Lexical paths\<close>

definition cleanStep :: "bool \<Rightarrow> string \<Rightarrow> string list \<Rightarrow> string list" where
  "cleanStep rooted c st =
     (if c = ''..'' then
        (case st of
           [] \<Rightarrow> (if rooted then [] else [''..''])
         | x # xs \<Rightarrow> (if x = ''..'' then ''..'' # st else xs))
      else c # st)"

definition pathClean :: "string \<Rightarrow> string" where
  "pathClean p =
     (if p = '''' then ''.''
      else
        (let rooted = (hd p = CHR ''/'');
             comps = filter (\<lambda>c. c \<noteq> '''' \<and> c \<noteq> ''.'') (Split p (CHR ''/''));
             body = Join (rev (fold (cleanStep rooted) comps [])) ''/'' in
         if rooted then CHR ''/'' # body else if body = '''' then ''.'' else body))"

definition pathJoin :: "string list \<Rightarrow> string" where
  "pathJoin elems =
     (let ne = filter (\<lambda>x. x \<noteq> '''') elems in
      if ne = [] then '''' else pathClean (Join ne ''/''))"

definition pathIsAbs :: "string \<Rightarrow> bool" where
  "pathIsAbs p \<longleftrightarrow> HasPrefix p ''/''"

text \<open>The part of a path up to and including its last slash.\<close>

definition pathHead :: "string \<Rightarrow> string" where
  "pathHead p = rev (dropWhile (\<lambda>c. c \<noteq> CHR ''/'') (rev p))"

definition pathTail :: "string \<Rightarrow> string" where
  "pathTail p = rev (takeWhile (\<lambda>c. c \<noteq> CHR ''/'') (rev p))"

definition pathDir :: "string \<Rightarrow> string" where
  "pathDir p = pathClean (pathHead p)"

definition pathBase :: "string \<Rightarrow> string" where
  "pathBase p =
     (if p = '''' then ''.''
      else
        (let b = pathTail (rev (dropWhile (\<lambda>c. c = CHR ''/'') (rev p))) in
         if b = '''' then ''/'' else b))"

section \<open>Segments\<close>

definition defaultHTTPSegmentSize :: int where "defaultHTTPSegmentSize = 50 * 1024 * 1024"
definition maxHTTPSegmentCount :: int where "maxHTTPSegmentCount = 64 * 1024"
definition maxTorrentPieceCount :: int where "maxTorrentPieceCount = 1048576"

definition ceilDivInt64 :: "int \<Rightarrow> int \<Rightarrow> int" where
  "ceilDivInt64 n d = (if n \<le> 0 \<or> d \<le> 0 then 0 else 1 + (n - 1) div d)"

record chunkRange =
  crStart :: int
  crEnd :: int

text \<open>The loop of \<open>makeChunks\<close>. It is only entered with a positive chunk size; the guard makes the
  function total.\<close>

function chunksFrom :: "int \<Rightarrow> int \<Rightarrow> int \<Rightarrow> chunkRange list" where
  "chunksFrom tot chunkSize start =
     (if start < tot \<and> 0 < chunkSize then
        (let remaining = tot - start;
             sz = (if chunkSize > remaining then remaining else chunkSize);
             en = start + sz - 1 in
         \<lparr>crStart = start, crEnd = en\<rparr> # chunksFrom tot chunkSize (en + 1))
      else [])"
  by pat_completeness auto
termination
  by (relation "measure (\<lambda>(tot, chunkSize, start). nat (tot - start))") (auto simp: Let_def)

declare chunksFrom.simps [simp del]

definition makeChunks :: "int \<Rightarrow> int \<Rightarrow> chunkRange list" where
  "makeChunks tot chunkSize =
     (if tot \<le> 0 then []
      else
        (let c1 = (if chunkSize \<le> 0 then defaultHTTPSegmentSize else chunkSize);
             minChunkSize = ceilDivInt64 tot maxHTTPSegmentCount;
             c2 = (if c1 < minChunkSize then minChunkSize else c1) in
         chunksFrom tot c2 0))"

section \<open>Pieces and bitfields\<close>

definition completedPieces :: "int \<Rightarrow> int \<Rightarrow> int \<Rightarrow> int" where
  "completedPieces tot completed pieceLength =
     (if tot \<le> 0 \<or> completed \<le> 0 \<or> pieceLength \<le> 0 then 0
      else
        (let pieces = ceilDivInt64 tot pieceLength; dn = completed div pieceLength in
         if completed \<ge> tot \<or> dn > pieces then pieces else dn))"

definition hexDigits :: string where "hexDigits = ''0123456789abcdef''"

definition hexByte :: "nat \<Rightarrow> string" where
  "hexByte b = [hexDigits ! (b div 16), hexDigits ! (b mod 16)]"

text \<open>\<open>hex.EncodeToString\<close>.\<close>

definition hexEncode :: "nat list \<Rightarrow> string" where
  "hexEncode bs = concat (map hexByte bs)"

text \<open>\<open>bits[i/8] |= 1 << (7 - i%8)\<close>\<close>

definition setBitAt :: "nat \<Rightarrow> nat list \<Rightarrow> nat list" where
  "setBitAt i bits = bits[i div 8 := bits ! (i div 8) OR push_bit (7 - i mod 8) 1]"

definition bitfieldFor :: "int \<Rightarrow> int \<Rightarrow> int \<Rightarrow> string" where
  "bitfieldFor tot completed pieceLength =
     (if tot \<le> 0 \<or> pieceLength \<le> 0 then ''''
      else
        (let pieceCount = ceilDivInt64 tot pieceLength in
         if pieceCount \<le> 0 \<or> pieceCount > maxTorrentPieceCount \<or> pieceCount > MaxInt64 then ''''
         else
           (let bytesLen = (nat pieceCount + 7) div 8;
                completePieces = nat (completedPieces tot completed pieceLength) in
            hexEncode (fold setBitAt [0..<completePieces] (replicate bytesLen 0)))))"

text \<open>\<open>strings.Repeat("00", n)\<close> for a bitfield of unknown pieces.\<close>

definition unknownTorrentBitfield :: "int \<Rightarrow> string" where
  "unknownTorrentBitfield numPieces =
     (let bytesLen = ceilDivInt64 numPieces 8 in
      if bytesLen \<le> 0 \<or> bytesLen > MaxInt64 div 2 then '''' else concat (replicate (nat bytesLen) ''00''))"

definition decodeHexNibble :: "char \<Rightarrow> nat option" where
  "decodeHexNibble c =
     (let b = (of_char c :: nat) in
      if 48 \<le> b \<and> b \<le> 57 then Some (b - 48)
      else if 97 \<le> b \<and> b \<le> 102 then Some (b - 97 + 10)
      else if 65 \<le> b \<and> b \<le> 70 then Some (b - 65 + 10)
      else None)"

section \<open>The methods of a download\<close>

record remoteMeta =
  mLength :: int
  mAcceptRange :: bool
  mFinalURI :: string
  mFilename :: string
  mLastModified :: string
  mETag :: string
  mNotModified :: bool

definition nonNegativeLength :: "int \<Rightarrow> int" where
  "nonNegativeLength n = (if n < 0 then 0 else n)"

definition setURIUsed :: "string \<Rightarrow> Download \<Rightarrow> Download" where
  "setURIUsed raw d =
     d\<lparr>dUris := map (\<lambda>u. u\<lparr>uStatus := if uURI u = raw then URIStatusUsed else URIStatusWaiting\<rparr>) (dUris d)\<rparr>"

definition setMetadata :: "remoteMeta \<Rightarrow> string \<Rightarrow> Download \<Rightarrow> Download" where
  "setMetadata m p d =
     (let tot = nonNegativeLength (mLength m) in
      d\<lparr>dPath := p, dDir := pathDir p, dOut := pathBase p, dCurrentURI := mFinalURI m,
        dTotalLength := tot,
        dCompletedLen := (if tot > 0 \<and> dCompletedLen d > tot then 0 else dCompletedLen d),
        dPieceLength := 0, dNumPieces := 0, dDonePieces := 0, dBitfield := ''''\<rparr>)"

definition outputPath :: "Download \<Rightarrow> string" where
  "outputPath d = dPath d"

definition resetProgress :: "int \<Rightarrow> chunkRange list \<Rightarrow> Download \<Rightarrow> Download" where
  "resetProgress tot0 chunks d =
     (let tot = nonNegativeLength tot0;
          (pl, np) = (case chunks of
             c # _ \<Rightarrow> (crEnd c - crStart c + 1, int (length chunks))
           | [] \<Rightarrow> (tot, 1)) in
      d\<lparr>dTotalLength := tot, dCompletedLen := 0, dPieceLength := pl, dNumPieces := np,
        dDonePieces := completedPieces tot 0 pl, dBitfield := bitfieldFor tot 0 pl\<rparr>)"

definition resetSingleProgress :: "int \<Rightarrow> int \<Rightarrow> Download \<Rightarrow> Download" where
  "resetSingleProgress tot0 completed0 d =
     (let tot = nonNegativeLength tot0; completed = nonNegativeLength completed0;
          d1 = d\<lparr>dTotalLength := tot, dCompletedLen := completed\<rparr> in
      if tot > 0
      then d1\<lparr>dPieceLength := tot, dNumPieces := 1, dDonePieces := completedPieces tot completed tot,
              dBitfield := bitfieldFor tot completed tot\<rparr>
      else d1)"

definition addCompleted :: "int \<Rightarrow> Download \<Rightarrow> Download" where
  "addCompleted n d =
     (if n \<le> 0 then d
      else
        (let c0 = wrap64 (dCompletedLen d + n);
             c1 = (if dTotalLength d > 0 \<and> c0 > dTotalLength d then dTotalLength d else c0);
             d1 = d\<lparr>dCompletedLen := c1\<rparr> in
         if dPieceLength d1 > 0 \<and> dNumPieces d1 \<le> 1 then
           (let dn = completedPieces (dTotalLength d1) (dCompletedLen d1) (dPieceLength d1) in
            if dn \<noteq> dDonePieces d1
            then d1\<lparr>dDonePieces := dn,
                    dBitfield := bitfieldFor (dTotalLength d1) (dCompletedLen d1) (dPieceLength d1)\<rparr>
            else d1)
         else d1))"

definition rollbackCompleted :: "int \<Rightarrow> Download \<Rightarrow> Download" where
  "rollbackCompleted n d =
     (if n \<le> 0 then d
      else (let c = wrap64 (dCompletedLen d - n) in d\<lparr>dCompletedLen := (if c < 0 then 0 else c)\<rparr>))"

definition markPieceComplete :: "int \<Rightarrow> Download \<Rightarrow> Download" where
  "markPieceComplete index d =
     (if index < 0 \<or> index \<ge> dNumPieces d \<or> dBitfield d = '''' then d
      else
        (let hexIndex = nat index div 4 in
         if hexIndex \<ge> length (dBitfield d) then d
         else (case decodeHexNibble (dBitfield d ! hexIndex) of
             None \<Rightarrow> d
           | Some nibble \<Rightarrow>
              (let mask = push_bit (3 - nat index mod 4) 1 in
               if nibble AND mask \<noteq> 0 then d
               else d\<lparr>dBitfield := (dBitfield d)[hexIndex := hexDigits ! (nibble OR mask)],
                      dDonePieces := wrap64 (dDonePieces d + 1)\<rparr>))))"

definition setConnections :: "int \<Rightarrow> Download \<Rightarrow> Download" where
  "setConnections n d = d\<lparr>dConnections := n\<rparr>"

definition setDownloadBPS :: "int \<Rightarrow> Download \<Rightarrow> Download" where
  "setDownloadBPS n d = d\<lparr>dDownloadBPS := n\<rparr>"

section \<open>Chunks partition the file\<close>

lemma ceilDivInt64_le: "0 < d \<Longrightarrow> ceilDivInt64 n d \<le> k \<longleftrightarrow> 0 \<le> k \<and> n \<le> k * d"
proof -
  assume d: "0 < d"
  show ?thesis
  proof (cases "n \<le> 0")
    case True
    with d have "0 \<le> k \<Longrightarrow> n \<le> k * d" using mult_nonneg_nonneg[of k d] by linarith
    with True show ?thesis by (auto simp: ceilDivInt64_def)
  next
    case False
    have "1 + (n - 1) div d \<le> k \<longleftrightarrow> (n - 1) div d < k" by linarith
    also have "\<dots> \<longleftrightarrow> n - 1 < k * d" using pos_imp_zdiv_neg_iff[OF d, of "n - 1 - k * d"] d
      div_mult_self1[of d "n - 1" "- k"] by (simp add: algebra_simps) linarith
    finally have *: "1 + (n - 1) div d \<le> k \<longleftrightarrow> n \<le> k * d" by linarith
    have "n \<le> k * d \<Longrightarrow> 0 \<le> k"
      using False d mult_neg_pos[of k d] by (cases "k < 0") linarith+
    with * False d show ?thesis by (auto simp: ceilDivInt64_def)
  qed
qed

lemma ceilDivInt64_nonneg [simp]: "0 \<le> ceilDivInt64 n d"
  by (auto simp: ceilDivInt64_def pos_imp_zdiv_nonneg_iff)

lemma ceilDivInt64_pos: "0 < n \<Longrightarrow> 0 < d \<Longrightarrow> 0 < ceilDivInt64 n d"
  using ceilDivInt64_le[of d n 0] by linarith

lemma ceilDivInt64_step:
  assumes "0 < d" "d \<le> n" shows "ceilDivInt64 n d = 1 + ceilDivInt64 (n - d) d"
proof -
  have "(n - 1) div d = (n - d - 1) div d + 1"
    using assms(1) div_add_self2[of d "n - d - 1"] by (simp add: algebra_simps)
  moreover have "n - d \<le> 0 \<Longrightarrow> (n - d - 1) div d = - 1"
    using assms by (simp add: div_eq_minus1)
  ultimately show ?thesis using assms by (auto simp: ceilDivInt64_def)
qed

lemma chunksFrom_partition:
  assumes "0 < c" "s \<le> tot"
  shows "concat (map (\<lambda>k. [crStart k..crEnd k]) (chunksFrom tot c s)) = [s..tot - 1]"
  using assms
proof (induction tot c s rule: chunksFrom.induct)
  case (1 tot c s)
  show ?case
  proof (cases "s < tot")
    case True
    let ?sz = "if c > tot - s then tot - s else c"
    have "s + ?sz \<le> tot" "0 < ?sz" using True 1(2) by auto
    moreover from this have "[s..tot - 1] = [s..s + ?sz - 1] @ [s + ?sz..tot - 1]"
      by (cases "s + ?sz \<le> tot - 1") (simp_all add: upto_split1[of s "s + ?sz"])
    ultimately show ?thesis
      using 1(1)[OF _ refl refl refl] True 1(2)
      by (subst chunksFrom.simps) (simp add: Let_def del: upto_rec_numeral)
  next
    case False
    with 1(3) show ?thesis by (subst chunksFrom.simps) simp
  qed
qed

lemma chunksFrom_length:
  assumes "0 < c"
  shows "int (length (chunksFrom tot c s)) = ceilDivInt64 (tot - s) c"
  using assms
proof (induction tot c s rule: chunksFrom.induct)
  case (1 tot c s)
  consider "tot \<le> s" | "s < tot" "tot - s < c" | "c \<le> tot - s" by linarith
  then show ?case
  proof cases
    case 1 then show ?thesis by (subst chunksFrom.simps) (simp add: ceilDivInt64_def)
  next
    case 2
    then have "chunksFrom tot c (s + (tot - s)) = []" by (subst chunksFrom.simps) simp
    with 2 "1.prems" show ?thesis
      by (subst chunksFrom.simps) (simp add: Let_def ceilDivInt64_def)
  next
    case 3
    with 1(1)[OF _ refl refl refl] 1(2) ceilDivInt64_step[of c "tot - s"] show ?thesis
      by (subst chunksFrom.simps) (simp add: Let_def algebra_simps)
  qed
qed

lemma chunksFrom_bounds:
  "k \<in> set (chunksFrom tot c s) \<Longrightarrow> s \<le> crStart k \<and> crStart k \<le> crEnd k \<and> crEnd k < tot \<and> crEnd k - crStart k < c"
proof (induction tot c s rule: chunksFrom.induct)
  case (1 tot c s)
  show ?case
  proof (cases "s < tot \<and> 0 < c")
    case True
    with 1(2) consider "k = \<lparr>crStart = s, crEnd = s + min c (tot - s) - 1\<rparr>"
      | "k \<in> set (chunksFrom tot c (s + min c (tot - s)))"
      by (subst (asm) chunksFrom.simps) (auto simp: Let_def min_def split: if_splits)
    then show ?thesis
    proof cases
      case 2
      then have "k \<in> set (chunksFrom tot c (s + (if c > tot - s then tot - s else c) - 1 + 1))"
        by (simp add: min_def split: if_splits)
      from 1(1)[OF True refl refl refl this] True show ?thesis by (auto split: if_splits)
    qed (use True in auto)
  next
    case False
    with 1(2) show ?thesis by (subst (asm) chunksFrom.simps) simp
  qed
qed

text \<open>The chunk size \<open>makeChunks\<close> uses, and the segment list as a call of its loop.\<close>

definition effectiveChunk :: "int \<Rightarrow> int \<Rightarrow> int" where
  "effectiveChunk tot chunkSize =
     max (if chunkSize \<le> 0 then defaultHTTPSegmentSize else chunkSize) (ceilDivInt64 tot maxHTTPSegmentCount)"

lemma effectiveChunk_pos: "0 < effectiveChunk tot c"
  by (auto simp: effectiveChunk_def defaultHTTPSegmentSize_def)

lemma makeChunks_eq: "0 < tot \<Longrightarrow> makeChunks tot c = chunksFrom tot (effectiveChunk tot c) 0"
  by (auto simp: makeChunks_def effectiveChunk_def Let_def max_def)

lemma makeChunks_length: "0 < tot \<Longrightarrow> int (length (makeChunks tot c)) = ceilDivInt64 tot (effectiveChunk tot c)"
  by (simp add: makeChunks_eq chunksFrom_length effectiveChunk_pos)

lemma makeChunks_hd:
  assumes "0 < tot"
  shows "\<exists>ks. makeChunks tot c = \<lparr>crStart = 0, crEnd = min (effectiveChunk tot c) tot - 1\<rparr> # ks"
  using assms effectiveChunk_pos[of tot c] chunksFrom.simps[of tot "effectiveChunk tot c" 0]
  by (simp add: makeChunks_eq min_def Let_def)

lemma makeChunks_count:
  assumes "0 < tot" shows "int (length (makeChunks tot c)) \<le> maxHTTPSegmentCount"
proof -
  have "ceilDivInt64 tot maxHTTPSegmentCount \<le> effectiveChunk tot c" by (simp add: effectiveChunk_def)
  then have "tot \<le> effectiveChunk tot c * maxHTTPSegmentCount"
    by (subst (asm) ceilDivInt64_le) (auto simp: maxHTTPSegmentCount_def)
  with assms show ?thesis
    by (simp add: makeChunks_length ceilDivInt64_le effectiveChunk_pos maxHTTPSegmentCount_def mult.commute)
qed

text \<open>C36: For a file of positive length the segments are a partition: the byte positions of all
  segments, in order, are exactly 0 up to the length minus one, each position once. There are at most
  65536 segments, and every bound stays inside the file, so no \<open>int64\<close> overflows.\<close>

theorem makeChunks_partition:
  assumes "0 < tot"
  shows "concat (map (\<lambda>k. [crStart k..crEnd k]) (makeChunks tot c)) = [0..tot - 1]
    \<and> int (length (makeChunks tot c)) \<le> maxHTTPSegmentCount
    \<and> (\<forall>k \<in> set (makeChunks tot c). 0 \<le> crStart k \<and> crStart k \<le> crEnd k \<and> crEnd k < tot)"
  using assms chunksFrom_partition[OF effectiveChunk_pos, of 0 tot] makeChunks_count[OF assms, of c]
    chunksFrom_bounds[of _ tot "effectiveChunk tot c" 0]
  by (auto simp: makeChunks_eq)

theorem makeChunks_partition_witness:
  "concat (map (\<lambda>k. [crStart k..crEnd k]) (makeChunks 10 4)) = [0..9]"
  using makeChunks_partition[of 10 4] by simp

section \<open>The bits of a bitfield\<close>

text \<open>Piece \<open>i\<close> as a client reads it from the hexadecimal bitfield: most significant bit first.\<close>

definition pieceBit :: "string \<Rightarrow> nat \<Rightarrow> bool" where
  "pieceBit bf i \<longleftrightarrow>
     i div 4 < length bf \<and>
     (case decodeHexNibble (bf ! (i div 4)) of None \<Rightarrow> False | Some n \<Rightarrow> bit n (3 - i mod 4))"

lemma decode_hexDigit [simp]: "n < 16 \<Longrightarrow> decodeHexNibble (hexDigits ! n) = Some n"
proof -
  assume "n < 16"
  then have "n \<in> set [0..<16]" by simp
  moreover have "list_all (\<lambda>k. decodeHexNibble (hexDigits ! k) = Some k) [0..<16]"
    by (simp add: decodeHexNibble_def hexDigits_def upt_conv_Cons)
  ultimately show ?thesis unfolding list_all_iff by blast
qed

lemma decodeHexNibble_less: "decodeHexNibble c = Some n \<Longrightarrow> n < 16"
  by (auto simp: decodeHexNibble_def Let_def split: if_splits)

lemma hexEncode_length [simp]: "length (hexEncode bs) = 2 * length bs"
  by (induction bs) (auto simp: hexEncode_def hexByte_def)

lemma hexEncode_nth:
  "j < 2 * length bs \<Longrightarrow>
   hexEncode bs ! j = hexDigits ! (if even j then bs ! (j div 2) div 16 else bs ! (j div 2) mod 16)"
proof (induction bs arbitrary: j)
  case (Cons b bs)
  consider "j = 0" | "j = 1" | k where "j = Suc (Suc k)" by (metis One_nat_def not0_implies_Suc)
  then show ?case by cases (use Cons in \<open>auto simp: hexEncode_def hexByte_def\<close>)
qed simp

lemma bit_or_single: "bit (b OR (2::nat) ^ k) m \<longleftrightarrow> bit b m \<or> m = k"
  by (auto simp: bit_or_iff bit_push_bit_iff bit_1_iff bit_exp_iff)

lemma or_single_less:
  assumes "(b::nat) < 2 ^ n" "k < n" shows "b OR push_bit k 1 < 2 ^ n"
proof -
  have "take_bit n (b OR push_bit k 1) = b OR push_bit k (1::nat)"
    using assms by (simp add: take_bit_or take_bit_nat_eq_self take_bit_push_bit push_bit_take_bit
        take_bit_nat_eq_self_iff)
  then show ?thesis by (metis take_bit_nat_less_exp)
qed

text \<open>Bit \<open>i\<close> of a byte array in the order \<open>bitfieldFor\<close> writes them.\<close>

definition byteBit :: "nat list \<Rightarrow> nat \<Rightarrow> bool" where
  "byteBit bs i \<longleftrightarrow> i div 8 < length bs \<and> bit (bs ! (i div 8)) (7 - i mod 8)"

lemma byteBit_setBitAt:
  assumes "j div 8 < length bs"
  shows "byteBit (setBitAt j bs) i \<longleftrightarrow> byteBit bs i \<or> i = j"
proof -
  have "i div 8 = j div 8 \<and> 7 - i mod 8 = 7 - j mod 8 \<longleftrightarrow> i = j"
  proof
    assume h: "i div 8 = j div 8 \<and> 7 - i mod 8 = 7 - j mod 8"
    moreover have "i mod 8 < 8" "j mod 8 < 8" by simp_all
    ultimately have "i mod 8 = j mod 8" by linarith
    with h show "i = j" by (metis div_mult_mod_eq)
  qed simp
  then show ?thesis
    using assms by (auto simp: byteBit_def setBitAt_def nth_list_update bit_or_single)
qed

lemma setBitAt_length [simp]: "length (setBitAt j bs) = length bs"
  by (simp add: setBitAt_def)

lemma setBitAt_bytes: "\<forall>b \<in> set bs. b < 256 \<Longrightarrow> \<forall>b \<in> set (setBitAt j bs). b < 256"
proof (cases "j div 8 < length bs")
  case True
  assume "\<forall>b \<in> set bs. b < 256"
  with True have "bs ! (j div 8) < 2 ^ 8" by simp
  then have "bs ! (j div 8) OR push_bit (7 - j mod 8) 1 < 2 ^ 8" by (rule or_single_less) simp
  then have "bs ! (j div 8) OR push_bit (7 - j mod 8) 1 < 256" by simp
  then show ?thesis
    using \<open>\<forall>b \<in> set bs. b < 256\<close> set_update_subset_insert[of bs "j div 8"]
    unfolding setBitAt_def by blast
qed (simp add: setBitAt_def list_update_beyond)

lemma fold_setBitAt_set:
  assumes "\<forall>j \<in> set js. j div 8 < length bs" "\<forall>b \<in> set bs. b < 256"
  shows "length (fold setBitAt js bs) = length bs \<and> (\<forall>b \<in> set (fold setBitAt js bs). b < 256)
    \<and> (\<forall>i. byteBit (fold setBitAt js bs) i \<longleftrightarrow> byteBit bs i \<or> i \<in> set js)"
  using assms
proof (induction js arbitrary: bs)
  case (Cons j js)
  then have "\<forall>b \<in> set (setBitAt j bs). b < 256" by (intro setBitAt_bytes) simp
  with Cons.IH[of "setBitAt j bs"] Cons.prems show ?case by (auto simp: byteBit_setBitAt)
qed simp

lemma byteBit_zeros [simp]: "\<not> byteBit (replicate L 0) i"
  by (auto simp: byteBit_def)

lemma fold_setBitAt:
  assumes "n \<le> 8 * L"
  shows "length (fold setBitAt [0..<n] (replicate L 0)) = L
    \<and> (\<forall>b \<in> set (fold setBitAt [0..<n] (replicate L 0)). b < 256)
    \<and> (\<forall>i. byteBit (fold setBitAt [0..<n] (replicate L 0)) i \<longleftrightarrow> i < n)"
proof -
  have "\<forall>j \<in> set [0..<n]. j div 8 < length (replicate L 0)" using assms by auto
  from fold_setBitAt_set[OF this] show ?thesis by auto
qed

lemma pieceBit_hexEncode:
  assumes "\<forall>b \<in> set bs. b < 256"
  shows "pieceBit (hexEncode bs) i \<longleftrightarrow> byteBit bs i"
proof (cases "i div 8 < length bs")
  case True
  let ?b = "bs ! (i div 8)"
  have b: "?b < 256" using assms True by auto
  have d: "i div 4 < 2 * length bs" "i div 4 div 2 = i div 8" using True by (auto simp: div_mult2_eq[symmetric])
  show ?thesis
  proof (cases "even (i div 4)")
    case even: True
    then have m: "i mod 8 = i mod 4" "i mod 4 < 4" using mod_mult2_eq[of i 4 2] by (simp_all add: even_iff_mod_2_eq_zero)
    have "bit (?b div 16) (3 - i mod 4) = bit ?b (4 + (3 - i mod 4))"
      using bit_drop_bit_eq[of 4 ?b] by (simp add: drop_bit_eq_div fun_eq_iff)
    moreover have "4 + (3 - i mod 4) = 7 - i mod 8" using m by linarith
    moreover have "?b div 16 < 16" using b by linarith
    ultimately show ?thesis using True even d by (simp add: pieceBit_def byteBit_def hexEncode_nth)
  next
    case odd: False
    then have m: "i mod 8 = i mod 4 + 4" "i mod 4 < 4" using mod_mult2_eq[of i 4 2] by (simp_all add: odd_iff_mod_2_eq_one)
    have "bit (?b mod 16) (3 - i mod 4) = bit ?b (3 - i mod 4)"
      using bit_take_bit_iff[of 4 ?b "3 - i mod 4"] by (auto simp: take_bit_eq_mod)
    moreover have "3 - i mod 4 = 7 - i mod 8" using m by linarith
    ultimately show ?thesis using True odd b d by (simp add: pieceBit_def byteBit_def hexEncode_nth)
  qed
next
  case False
  then show ?thesis by (auto simp: pieceBit_def byteBit_def)
qed

lemma completedPieces_range: "0 \<le> completedPieces tot c pl \<and> completedPieces tot c pl \<le> ceilDivInt64 tot pl"
  by (auto simp: completedPieces_def Let_def pos_imp_zdiv_nonneg_iff)

lemma bitfieldFor_shape:
  assumes "0 < tot" "0 < pl" "ceilDivInt64 tot pl \<le> maxTorrentPieceCount"
  shows "\<exists>bs. bitfieldFor tot c pl = hexEncode bs \<and> length bs = (nat (ceilDivInt64 tot pl) + 7) div 8
    \<and> (\<forall>b \<in> set bs. b < 256) \<and> (\<forall>i. byteBit bs i \<longleftrightarrow> int i < completedPieces tot c pl)"
proof -
  let ?n = "nat (completedPieces tot c pl)" and ?L = "(nat (ceilDivInt64 tot pl) + 7) div 8"
  have le: "?n \<le> 8 * ?L" using completedPieces_range[of tot c pl] by linarith
  have "bitfieldFor tot c pl = hexEncode (fold setBitAt [0..<?n] (replicate ?L 0))"
    using assms ceilDivInt64_pos[of tot pl] by (simp add: bitfieldFor_def Let_def maxTorrentPieceCount_def)
  with fold_setBitAt[OF le] show ?thesis
    by (auto simp: zless_nat_eq_int_zless)
qed

text \<open>The bitfield of a file with at most 2^20 pieces has two hexadecimal digits per eight
  pieces, and its bit for piece \<open>i\<close> is set exactly when \<open>i\<close> is below the number of complete pieces;
  in particular no padding bit is set.\<close>

theorem bitfieldFor_bits:
  assumes "0 < tot" "0 < pl" "ceilDivInt64 tot pl \<le> maxTorrentPieceCount"
  shows "(\<forall>i. pieceBit (bitfieldFor tot c pl) i \<longleftrightarrow> int i < completedPieces tot c pl)
    \<and> length (bitfieldFor tot c pl) = 2 * ((nat (ceilDivInt64 tot pl) + 7) div 8)"
  using bitfieldFor_shape[OF assms, of c] pieceBit_hexEncode by auto

theorem bitfieldFor_bits_witness:
  "(\<forall>i. pieceBit (bitfieldFor 100 55 10) i \<longleftrightarrow> i < 5) \<and> length (bitfieldFor 100 55 10) = 4"
  using bitfieldFor_bits[of 100 10 55]
  by (simp add: ceilDivInt64_def maxTorrentPieceCount_def completedPieces_def)

section \<open>Marking pieces\<close>

text \<open>The pieces recorded as complete, and the agreement of the fields that record them.\<close>

definition piecesDone :: "Download \<Rightarrow> nat set" where
  "piecesDone d = {i. int i < dNumPieces d \<and> pieceBit (dBitfield d) i}"

definition bitfieldInv :: "Download \<Rightarrow> bool" where
  "bitfieldInv d \<longleftrightarrow>
     dNumPieces d \<le> 4 * int (length (dBitfield d)) \<and>
     (\<forall>c \<in> set (dBitfield d). decodeHexNibble c \<noteq> None) \<and>
     dNumPieces d \<le> MaxInt64 \<and> dDonePieces d = int (card (piecesDone d))"

lemma finite_piecesDone [simp]: "finite (piecesDone d)"
  by (rule finite_subset[of _ "{..<nat (dNumPieces d)}"]) (auto simp: piecesDone_def)

lemma card_piecesDone: "0 \<le> dNumPieces d \<Longrightarrow> int (card (piecesDone d)) \<le> dNumPieces d"
proof -
  assume "0 \<le> dNumPieces d"
  moreover have "card (piecesDone d) \<le> card {..<nat (dNumPieces d)}"
    by (rule card_mono) (auto simp: piecesDone_def)
  ultimately show ?thesis by simp
qed

lemma pieceBit_update:
  assumes "j div 4 < length bf" "decodeHexNibble (bf ! (j div 4)) = Some n"
  shows "pieceBit (bf[j div 4 := hexDigits ! (n OR push_bit (3 - j mod 4) 1)]) i \<longleftrightarrow> pieceBit bf i \<or> i = j"
proof -
  have "n OR push_bit (3 - j mod 4) 1 < 2 ^ 4"
    by (rule or_single_less) (use decodeHexNibble_less[OF assms(2)] in auto)
  then have dec: "decodeHexNibble (hexDigits ! (n OR push_bit (3 - j mod 4) 1)) = Some (n OR push_bit (3 - j mod 4) 1)"
    by (intro decode_hexDigit) simp
  have ij: "i div 4 = j div 4 \<and> 3 - i mod 4 = 3 - j mod 4 \<longleftrightarrow> i = j"
  proof
    assume h: "i div 4 = j div 4 \<and> 3 - i mod 4 = 3 - j mod 4"
    moreover have "i mod 4 < 4" "j mod 4 < 4" by simp_all
    ultimately have "i mod 4 = j mod 4" by linarith
    with h show "i = j" by (metis div_mult_mod_eq)
  qed simp
  show ?thesis
  proof (cases "i div 4 = j div 4")
    case True
    then show ?thesis using assms dec ij by (simp add: pieceBit_def bit_or_single)
  next
    case False
    then show ?thesis by (auto simp: pieceBit_def)
  qed
qed

lemma markPieceComplete_unfold:
  assumes "bitfieldInv d" "int i < dNumPieces d"
  shows "\<exists>n. decodeHexNibble (dBitfield d ! (i div 4)) = Some n \<and> i div 4 < length (dBitfield d) \<and>
     markPieceComplete (int i) d =
       (if pieceBit (dBitfield d) i then d
        else d\<lparr>dBitfield := (dBitfield d)[i div 4 := hexDigits ! (n OR push_bit (3 - i mod 4) 1)],
               dDonePieces := wrap64 (dDonePieces d + 1)\<rparr>)"
proof -
  have len: "i div 4 < length (dBitfield d)" using assms by (auto simp: bitfieldInv_def)
  then obtain n where n: "decodeHexNibble (dBitfield d ! (i div 4)) = Some n"
    using assms(1) by (force simp: bitfieldInv_def)
  have eq: "n AND 2 ^ (3 - i mod 4) = 0 \<longleftrightarrow> \<not> bit n (3 - i mod 4)"
    using bit_iff_and_push_bit_not_eq_0[of n "3 - i mod 4"] by (simp only: push_bit_of_1) blast
  have ne: "dBitfield d \<noteq> ''''" using len by auto
  have bit: "pieceBit (dBitfield d) i = bit n (3 - i mod 4)" using len n by (simp add: pieceBit_def)
  show ?thesis
    using len n assms(2) ne
    by (intro exI[of _ n]) (simp add: markPieceComplete_def Let_def bit eq del: neq0_conv)
qed

text \<open>Marking a piece complete adds exactly that piece to the recorded set, counts it once (a
  second call changes nothing) and keeps the bitfield, the piece count and the done counter in
  agreement.\<close>

theorem markPieceComplete_adds:
  assumes "bitfieldInv d" "int i < dNumPieces d"
  shows "bitfieldInv (markPieceComplete (int i) d)
    \<and> piecesDone (markPieceComplete (int i) d) = insert i (piecesDone d)
    \<and> markPieceComplete (int i) (markPieceComplete (int i) d) = markPieceComplete (int i) d"
proof -
  obtain n where n: "decodeHexNibble (dBitfield d ! (i div 4)) = Some n" "i div 4 < length (dBitfield d)"
    and m: "markPieceComplete (int i) d =
       (if pieceBit (dBitfield d) i then d
        else d\<lparr>dBitfield := (dBitfield d)[i div 4 := hexDigits ! (n OR push_bit (3 - i mod 4) 1)],
               dDonePieces := wrap64 (dDonePieces d + 1)\<rparr>)"
    using markPieceComplete_unfold[OF assms] by auto
  let ?d = "markPieceComplete (int i) d"
  have pd: "piecesDone ?d = insert i (piecesDone d)"
    using assms(2) pieceBit_update[OF n(2,1)] by (auto simp: m piecesDone_def)
  have bit: "pieceBit (dBitfield ?d) i" using pieceBit_update[OF n(2,1)] by (simp add: m)
  have inv: "bitfieldInv ?d"
  proof (cases "pieceBit (dBitfield d) i")
    case False
    have "n OR push_bit (3 - i mod 4) 1 < 2 ^ 4"
      by (rule or_single_less) (use decodeHexNibble_less[OF n(1)] in auto)
    then have "decodeHexNibble (hexDigits ! (n OR push_bit (3 - i mod 4) 1)) \<noteq> None"
      by (subst decode_hexDigit) simp_all
    then have hex: "\<forall>c \<in> set (dBitfield ?d). decodeHexNibble c \<noteq> None"
      using False assms(1) set_update_subset_insert[of "dBitfield d" "i div 4"]
      unfolding m bitfieldInv_def by (simp del: push_bit_of_1) blast
    have "int (card (piecesDone ?d)) = dDonePieces d + 1"
      using False assms(1) by (simp add: pd bitfieldInv_def card_insert_if) (simp add: piecesDone_def)
    moreover have "int (card (piecesDone ?d)) \<le> dNumPieces ?d"
      using assms(2) by (intro card_piecesDone) (simp add: m)
    ultimately show ?thesis
      using hex False assms by (simp add: bitfieldInv_def m wrap64_id isInt64_def)
  qed (simp add: m assms)
  have "int i < dNumPieces ?d" using assms(2) by (simp add: m)
  from markPieceComplete_unfold[OF inv this] bit inv pd show ?thesis by auto
qed

lemma completedPieces_zero [simp]: "completedPieces tot 0 pl = 0"
  by (simp add: completedPieces_def)

lemma hexEncode_hex: "\<forall>b \<in> set bs. b < 256 \<Longrightarrow> c \<in> set (hexEncode bs) \<Longrightarrow> decodeHexNibble c \<noteq> None"
  by (auto simp: hexEncode_def hexByte_def)

lemma ceilDivInt64_min: "0 < tot \<Longrightarrow> 0 < c \<Longrightarrow> ceilDivInt64 tot (min c tot) = ceilDivInt64 tot c"
  by (auto simp: ceilDivInt64_def min_def)

lemma resetProgress_bitfield:
  assumes "0 < tot"
  shows "bitfieldInv (resetProgress tot (makeChunks tot c) d)
    \<and> piecesDone (resetProgress tot (makeChunks tot c) d) = {}
    \<and> dNumPieces (resetProgress tot (makeChunks tot c) d) = int (length (makeChunks tot c))"
proof -
  obtain ks where ks: "makeChunks tot c = \<lparr>crStart = 0, crEnd = min (effectiveChunk tot c) tot - 1\<rparr> # ks"
    using makeChunks_hd[OF assms] by auto
  let ?pl = "min (effectiveChunk tot c) tot" and ?d = "resetProgress tot (makeChunks tot c) d"
  have np: "dNumPieces ?d = int (length (makeChunks tot c))"
    by (simp add: resetProgress_def ks Let_def)
  have len: "ceilDivInt64 tot ?pl = int (length (makeChunks tot c))"
    using assms by (simp add: makeChunks_length ceilDivInt64_min effectiveChunk_pos)
  moreover have "\<dots> \<le> maxTorrentPieceCount"
    using makeChunks_count[OF assms, of c] by (simp add: maxTorrentPieceCount_def maxHTTPSegmentCount_def)
  ultimately obtain bs where bs: "bitfieldFor tot 0 ?pl = hexEncode bs" "\<forall>b \<in> set bs. b < 256"
      "length bs = (length (makeChunks tot c) + 7) div 8" "\<forall>i. \<not> byteBit bs i"
    using bitfieldFor_shape[of tot ?pl 0] assms effectiveChunk_pos[of tot c] by auto
  have bf: "dBitfield ?d = hexEncode bs" and dp: "dDonePieces ?d = 0"
    using assms bs(1) by (simp_all add: resetProgress_def ks Let_def nonNegativeLength_def)
  have none: "piecesDone ?d = {}" by (simp add: piecesDone_def bf pieceBit_hexEncode bs)
  have "int (length (makeChunks tot c)) \<le> MaxInt64"
    using makeChunks_count[OF assms, of c] by (simp add: maxHTTPSegmentCount_def)
  then have "bitfieldInv ?d"
    unfolding bitfieldInv_def none bf dp np using hexEncode_hex[OF bs(2)] bs(3) by auto
  with none np show ?thesis by simp
qed

text \<open>Starting a segmented download records no piece as done and establishes the agreement that
  \<open>markPieceComplete\<close> keeps, with one piece per segment.\<close>

theorem resetProgress_chunks:
  assumes "0 < tot"
  shows "bitfieldInv (resetProgress tot (makeChunks tot c) d)
    \<and> piecesDone (resetProgress tot (makeChunks tot c) d) = {}
    \<and> dNumPieces (resetProgress tot (makeChunks tot c) d) = int (length (makeChunks tot c))"
  using resetProgress_bitfield[OF assms] .

theorem resetProgress_chunks_witness:
  "bitfieldInv (resetProgress 10 (makeChunks 10 4) zeroDownload)"
  using resetProgress_chunks[of 10 4 zeroDownload] by simp

lemma makeChunks_example: "length (makeChunks 10 4) = 3"
  using makeChunks_length[of 10 4]
  by (simp add: effectiveChunk_def ceilDivInt64_def maxHTTPSegmentCount_def)

theorem markPieceComplete_adds_witness:
  "piecesDone (markPieceComplete 2 (resetProgress 10 (makeChunks 10 4) zeroDownload)) = {2}"
  using markPieceComplete_adds[of "resetProgress 10 (makeChunks 10 4) zeroDownload" 2]
    resetProgress_bitfield[of 10 4 zeroDownload]
  by (simp add: makeChunks_example)

section \<open>Byte counters\<close>

text \<open>In a download that is not segmented the done counter and the bitfield are those of the byte
  count.\<close>

definition singleInv :: "Download \<Rightarrow> bool" where
  "singleInv d \<longleftrightarrow> 0 \<le> dCompletedLen d \<and> dCompletedLen d \<le> dTotalLength d \<and> 0 < dTotalLength d \<and>
     dPieceLength d > 0 \<and> dNumPieces d \<le> 1 \<and>
     dDonePieces d = completedPieces (dTotalLength d) (dCompletedLen d) (dPieceLength d) \<and>
     dBitfield d = bitfieldFor (dTotalLength d) (dCompletedLen d) (dPieceLength d)"

lemma bitfieldFor_cong:
  "completedPieces tot c pl = completedPieces tot c' pl \<Longrightarrow> bitfieldFor tot c pl = bitfieldFor tot c' pl"
  by (simp add: bitfieldFor_def Let_def)

lemma addCompleted_len:
  assumes "0 \<le> dCompletedLen d" "dCompletedLen d + n \<le> MaxInt64" "0 < n" "0 < dTotalLength d"
  shows "dCompletedLen (addCompleted n d) = min (dTotalLength d) (dCompletedLen d + n)"
proof -
  have "wrap64 (dCompletedLen d + n) = dCompletedLen d + n"
    using assms by (intro wrap64_id) (simp add: isInt64_def)
  then show ?thesis using assms by (simp add: addCompleted_def Let_def min_def)
qed

text \<open>Counting received bytes in a download that is not segmented: the completed length is
  capped by the total length, and the done counter and the bitfield follow it.\<close>

theorem addCompleted_single:
  assumes "singleInv d" "0 < n" "dCompletedLen d + n \<le> MaxInt64"
  shows "dCompletedLen (addCompleted n d) = min (dTotalLength d) (dCompletedLen d + n)
    \<and> singleInv (addCompleted n d)"
proof -
  let ?d = "addCompleted n d"
  have len: "dCompletedLen ?d = min (dTotalLength d) (dCompletedLen d + n)"
    using assms by (intro addCompleted_len) (auto simp: singleInv_def)
  have keep: "dTotalLength ?d = dTotalLength d" "dPieceLength ?d = dPieceLength d" "dNumPieces ?d = dNumPieces d"
    by (simp_all add: addCompleted_def Let_def)
  have "dDonePieces ?d = completedPieces (dTotalLength d) (dCompletedLen ?d) (dPieceLength d)"
    using assms by (simp add: addCompleted_def Let_def singleInv_def)
  moreover have "dBitfield ?d = bitfieldFor (dTotalLength d) (dCompletedLen ?d) (dPieceLength d)"
    using assms by (auto simp: addCompleted_def Let_def singleInv_def intro: bitfieldFor_cong)
  ultimately show ?thesis using assms len keep by (auto simp: singleInv_def)
qed

theorem addCompleted_single_witness:
  "dCompletedLen (addCompleted 7 (resetSingleProgress 5 0 zeroDownload)) = 5
    \<and> singleInv (addCompleted 7 (resetSingleProgress 5 0 zeroDownload))"
  using addCompleted_single[of "resetSingleProgress 5 0 zeroDownload" 7]
  by (simp add: singleInv_def resetSingleProgress_def nonNegativeLength_def)

end
