(* ===== verification/Torrent_Files.thy ===== *)
theory Torrent_Files
  imports Progress
begin

text \<open>
  Torrent file selection, layout and progress accounting of torrent_download.go. The types of the
  torrent library (\<open>metainfo.Info\<close>, file snapshots, piece state runs) are records of what the code
  reads of them; the results of the library's methods on an \<open>Info\<close> (\<open>UpvertedFiles\<close>,
  \<open>DisplayPath\<close>, the nodes \<open>FileTree.Walk\<close> visits) are fields of it, so that every theorem holds
  for whatever the library returns. \<open>storage.PlanFiles\<close> is the parameter \<open>planFiles\<close>. A
  \<open>map[int]bool\<close> of selected files is the list of its true keys.
\<close>

record fileInfo =
  fiBestPath :: "string list"
  fiDisplayPath :: string
  fiLength :: int
  fiAttr :: string
  fiTorrentOffset :: int

record treeNode =
  tnPath :: "string list"
  tnIsDir :: bool
  tnLength :: int
  tnPiecesRoot :: "string option"

record Info =
  iBestName :: string
  iLength :: int
  iFiles :: "fileInfo list"
  iPiecesLen :: int
  iPieceLength :: int
  iHasV1 :: bool
  iHasV2 :: bool
  iIsDir :: bool
  iFileTree :: "treeNode list"
  iFileTreeValid :: "unit res"
  iUpvertedFiles :: "fileInfo list"
  iUpvertedV1Files :: "fileInfo list"

record plannedFile =
  pfIndex :: int
  pfStoragePath :: string
  pfLength :: int

record filePlan =
  plTorrentDir :: string
  plFiles :: "plannedFile list"

type_synonym planner = "string \<Rightarrow> options \<Rightarrow> Info \<Rightarrow> string \<Rightarrow> filePlan res"

definition torrentSelectFileExtOption :: string where
  "torrentSelectFileExtOption = ''goaria-select-file-ext''"

definition torrentExcludeFileExtOption :: string where
  "torrentExcludeFileExtOption = ''goaria-exclude-file-ext''"

section \<open>File selection options\<close>

definition splitCSVOptions :: "options \<Rightarrow> string \<Rightarrow> string list" where
  "splitCSVOptions opts key =
     concat (map (\<lambda>raw. filter (\<lambda>item. item \<noteq> '''') (map TrimSpace (Split raw (CHR '','')))) (optionStringList opts key))"

fun parseExtensions :: "string \<Rightarrow> string list \<Rightarrow> string list \<Rightarrow> string list res" where
  "parseExtensions key exts [] = Inr exts"
| "parseExtensions key exts (raw # raws) =
     (let ext = ToLower (TrimSpace raw) in
      if ext = '''' then parseExtensions key exts raws
      else if ext = ''.'' \<or> ContainsAny ext [CHR ''/'', CHR 0x5C] \<or> ContainsByte ext (CHR 0x00)
      then Inl (Errorf ''invalid %s extension %q'' [key, raw])
      else parseExtensions key
        (List.insert (if \<not> HasPrefix ext ''.'' then CHR ''.'' # ext else ext) exts) raws)"

definition parseTorrentExtensionFilter :: "options \<Rightarrow> string \<Rightarrow> string list res" where
  "parseTorrentExtensionFilter opts key = parseExtensions key [] (splitCSVOptions opts key)"

record torrentExtensionFilters =
  tfInclude :: "string list"
  tfExclude :: "string list"

definition parseTorrentExtensionFilters :: "options \<Rightarrow> torrentExtensionFilters res" where
  "parseTorrentExtensionFilters opts =
     bindR (parseTorrentExtensionFilter opts torrentSelectFileExtOption) (\<lambda>include.
     bindR (parseTorrentExtensionFilter opts torrentExcludeFileExtOption) (\<lambda>exclude.
     Inr \<lparr>tfInclude = include, tfExclude = exclude\<rparr>))"

definition validateTorrentExtensionOptions :: "options \<Rightarrow> unit res" where
  "validateTorrentExtensionOptions opts = bindR (parseTorrentExtensionFilters opts) (\<lambda>_. Inr ())"

definition matchesTorrentExtension :: "string \<Rightarrow> string list \<Rightarrow> bool" where
  "matchesTorrentExtension p exts \<longleftrightarrow> (\<exists>ext \<in> set exts. HasSuffix p ext)"

definition filtersMatches :: "torrentExtensionFilters \<Rightarrow> string \<Rightarrow> bool" where
  "filtersMatches f p =
     (let lowerPath = ToLower p in
      if tfInclude f \<noteq> [] \<and> \<not> matchesTorrentExtension lowerPath (tfInclude f) then False
      else if tfExclude f \<noteq> [] \<and> matchesTorrentExtension lowerPath (tfExclude f) then False
      else True)"

definition intRange :: "int \<Rightarrow> int \<Rightarrow> int list" where
  "intRange a b = [a..b]"

fun selectItems :: "int \<Rightarrow> int list \<Rightarrow> string list \<Rightarrow> int list res" where
  "selectItems numFiles selected [] = Inr selected"
| "selectItems numFiles selected (raw # raws) =
     (let item = TrimSpace raw in
      if item = '''' then Inl (Errorf ''invalid empty select-file item'' [])
      else
        (let (first, lst, ok) = Cut item (CHR ''-'') in
         if \<not> ok then
           (case Atoi (TrimSpace item) of
              None \<Rightarrow> Inl (Errorf ''select-file index %q out of range'' [item])
            | Some n \<Rightarrow>
               (if n < 1 \<or> n > numFiles then Inl (Errorf ''select-file index %q out of range'' [item])
                else selectItems numFiles (List.insert n selected) raws))
         else
           (case (Atoi (TrimSpace first), Atoi (TrimSpace lst)) of
              (Some start, Some en) \<Rightarrow>
               (if start < 1 \<or> en < start \<or> en > numFiles
                then Inl (Errorf ''invalid select-file range %q'' [item])
                else selectItems numFiles (fold List.insert (intRange start en) selected) raws)
            | _ \<Rightarrow> Inl (Errorf ''invalid select-file range %q'' [item]))))"

definition selectedFileSet :: "int \<Rightarrow> string \<Rightarrow> int list res" where
  "selectedFileSet numFiles spec =
     (if TrimSpace spec = '''' then Inr (intRange 1 numFiles)
      else selectItems numFiles [] (Split spec (CHR '','')))"

fun parseIndexOutItems :: "(int \<times> string) list \<Rightarrow> string list \<Rightarrow> (int \<times> string) list res" where
  "parseIndexOutItems out [] = Inr out"
| "parseIndexOutItems out (raw # raws) =
     (let (left, right, ok) = Cut raw (CHR ''='') in
      if \<not> ok then Inl (Errorf ''invalid index-out %q'' [raw])
      else
        (case Atoi (TrimSpace left) of
           None \<Rightarrow> Inl (Errorf ''invalid index-out index %q'' [left])
         | Some index \<Rightarrow>
            (if index \<le> 0 then Inl (Errorf ''invalid index-out index %q'' [left])
             else
               (let p = TrimSpace right in
                if p = '''' then Inl (Errorf ''invalid empty index-out path'' [])
                else parseIndexOutItems (AList.update index p out) raws))))"

definition parseIndexOut :: "options \<Rightarrow> (int \<times> string) list res" where
  "parseIndexOut opts = parseIndexOutItems [] (optionStringList opts ''index-out'')"

text \<open>\<open>indexOut[index]\<close>: the empty string when the key is absent.\<close>

definition indexOutAt :: "(int \<times> string) list \<Rightarrow> int \<Rightarrow> string" where
  "indexOutAt m i = (case map_of m i of None \<Rightarrow> '''' | Some p \<Rightarrow> p)"

definition applyTorrentExtensionSelection ::
    "Info \<Rightarrow> int list \<Rightarrow> (int \<times> string) list \<Rightarrow> options \<Rightarrow> int list res" where
  "applyTorrentExtensionSelection info selected indexOut opts =
     bindR (parseTorrentExtensionFilters opts) (\<lambda>filters.
       if tfInclude filters = [] \<and> tfExclude filters = [] then Inr selected
       else Inr (map fst (filter
         (\<lambda>(index, fi). index \<in> set selected \<and>
            filtersMatches filters (if indexOutAt indexOut index \<noteq> '''' then indexOutAt indexOut index else fiDisplayPath fi))
         (zip (intRange 1 (int (length (iUpvertedFiles info)))) (iUpvertedFiles info)))))"

definition torrentSelectionAndIndexOut :: "Info \<Rightarrow> options \<Rightarrow> (int list \<times> (int \<times> string) list) res" where
  "torrentSelectionAndIndexOut info opts =
     (let n = int (length (iUpvertedFiles info)) in
      bindR (selectedFileSet n (optionString opts ''select-file'')) (\<lambda>selected.
      bindR (parseIndexOut opts) (\<lambda>indexOut.
        (case filter (\<lambda>i. i < 1 \<or> i > n) (map fst indexOut) of
           i # _ \<Rightarrow> Inl (Errorf ''index-out file index %d out of range'' [Itoa i])
         | [] \<Rightarrow>
            (case filter (\<lambda>i. i < 1 \<or> i > n) selected of
               i # _ \<Rightarrow> Inl (Errorf ''select-file index %d out of range'' [Itoa i])
             | [] \<Rightarrow>
                bindR (applyTorrentExtensionSelection info selected indexOut opts) (\<lambda>selected'.
                Inr (selected', indexOut)))))))"

section \<open>Layout\<close>

text \<open>\<open>filepath.Rel\<close> on Unix: \<open>None\<close> is its error.\<close>

definition pathComps :: "string \<Rightarrow> string list" where
  "pathComps p = filter (\<lambda>c. c \<noteq> '''' \<and> c \<noteq> ''.'') (Split p (CHR ''/''))"

fun stripCommon :: "string list \<Rightarrow> string list \<Rightarrow> string list \<times> string list" where
  "stripCommon (b # bs) (t # ts) = (if b = t then stripCommon bs ts else (b # bs, t # ts))"
| "stripCommon bs ts = (bs, ts)"

definition pathRel :: "string \<Rightarrow> string \<Rightarrow> string option" where
  "pathRel base targ =
     (let b = pathClean base; t = pathClean targ in
      if t = b then Some ''.''
      else if HasPrefix b ''/'' \<noteq> HasPrefix t ''/'' then None
      else
        (let (rb, rt) = stripCommon (pathComps b) (pathComps t) in
         if rb \<noteq> [] \<and> hd rb = ''..'' then None
         else Some (Join (replicate (length rb) ''..'' @ rt) ''/'')))"

definition pathWithinDirectory :: "string \<Rightarrow> string \<Rightarrow> bool" where
  "pathWithinDirectory dir p =
     (case pathRel dir p of None \<Rightarrow> False | Some rel \<Rightarrow> rel \<noteq> ''..'' \<and> \<not> HasPrefix rel ''../'')"

definition safeTorrentRelPath :: "string \<Rightarrow> string" where
  "safeTorrentRelPath p =
     (let clean = filter (\<lambda>part. \<not> (part = '''' \<or> part = ''.'' \<or> part = ''..''))
                    (filter (\<lambda>part. part \<noteq> '''') (Split p (CHR ''/''))) in
      if clean = [] then ''torrent'' else pathJoin clean)"

text \<open>The path maker \<open>torrentFilePathMaker\<close> gives the storage: \<open>None\<close> is the nil function. The
  arguments are the zero-based file index, the storage's default path, the torrent's name unless it
  is the placeholder \<open>NoName\<close>, and the file's best path.\<close>

definition torrentFilePathMaker ::
    "options \<Rightarrow> (int \<Rightarrow> string \<Rightarrow> string option \<Rightarrow> string list \<Rightarrow> string) option" where
  "torrentFilePathMaker opts =
     (let indexOut = (case parseIndexOut opts of Inl _ \<Rightarrow> [] | Inr m \<Rightarrow> m) in
      if indexOut = [] then None
      else Some (\<lambda>fileIndex defaultPath name bestPath.
        if indexOutAt indexOut (fileIndex + 1) \<noteq> '''' then safeTorrentRelPath (indexOutAt indexOut (fileIndex + 1))
        else if defaultPath \<noteq> '''' then defaultPath
        else pathJoin ((case name of None \<Rightarrow> [] | Some n \<Rightarrow> [n]) @ bestPath)))"

fun planStates ::
    "(string \<Rightarrow> string res) \<Rightarrow> string \<Rightarrow> int list \<Rightarrow> plannedFile list \<Rightarrow> torrentFileState list res" where
  "planStates rkey canonicalDir selected [] = Inr []"
| "planStates rkey canonicalDir selected (file # files) =
     bindR (rkey (pfStoragePath file)) (\<lambda>canonicalPath.
       if \<not> pathWithinDirectory canonicalDir canonicalPath
       then Inl (Errorf ''torrent output path escapes download directory: %s'' [pfStoragePath file])
       else bindR (planStates rkey canonicalDir selected files) (\<lambda>rest.
         Inr (\<lparr>tfIndex = pfIndex file + 1, tfPath = pfStoragePath file, tfLength = pfLength file,
               tfCompleted = 0, tfSelected = pfIndex file + 1 \<in> set selected\<rparr> # rest)))"

definition torrentFileStates ::
    "(string \<Rightarrow> string res) \<Rightarrow> planner \<Rightarrow> Info \<Rightarrow> string \<Rightarrow> options \<Rightarrow> string \<Rightarrow> torrentFileState list res" where
  "torrentFileStates rkey planFiles info infoHash opts dir =
     bindR (torrentSelectionAndIndexOut info opts) (\<lambda>(selected, _).
     bindR (planFiles dir opts info infoHash) (\<lambda>plan.
     bindR (rkey (plTorrentDir plan)) (\<lambda>canonicalDir.
     planStates rkey canonicalDir selected (plFiles plan))))"

section \<open>Progress of the files\<close>

definition torrentSelectedLength :: "torrentFileState list \<Rightarrow> int" where
  "torrentSelectedLength files = fold (\<lambda>f tot. if tfSelected f then wrap64 (tot + tfLength f) else tot) files 0"

definition validateTorrentFinalizedIndexes :: "torrentFileState list \<Rightarrow> int list \<Rightarrow> unit res" where
  "validateTorrentFinalizedIndexes files finalized =
     (if finalized = [] then Inr ()
      else
        (case filter (\<lambda>i. i \<notin> tfIndex ` set files) finalized of
           i # _ \<Rightarrow> Inl (Errorf ''finalized torrent file index %d out of range'' [Itoa i])
         | [] \<Rightarrow> Inr ()))"

definition clampFile :: "int list \<Rightarrow> torrentFileState \<Rightarrow> torrentFileState" where
  "clampFile finalized f =
     (if tfIndex f \<in> set finalized then f\<lparr>tfCompleted := tfLength f\<rparr>
      else
        (let f1 = (if tfCompleted f < 0 then f\<lparr>tfCompleted := 0\<rparr> else f) in
         if tfCompleted f1 > tfLength f1 then f1\<lparr>tfCompleted := tfLength f1\<rparr> else f1))"

text \<open>The sums over the selected files that several loops keep.\<close>

definition sumSelected :: "torrentFileState list \<Rightarrow> int \<times> int" where
  "sumSelected files =
     fold (\<lambda>f (tot, completed).
        if tfSelected f then (wrap64 (tot + tfLength f), wrap64 (completed + tfCompleted f)) else (tot, completed))
      files (0, 0)"

definition torrentFileStateProgress ::
    "torrentFileState list \<Rightarrow> int list \<Rightarrow> torrentFileState list \<times> int \<times> int" where
  "torrentFileStateProgress files finalized =
     (let files' = map (clampFile finalized) files in (files', sumSelected files'))"

definition restoreTorrentFinalized :: "int list \<Rightarrow> Download \<Rightarrow> Download res" where
  "restoreTorrentFinalized indexes d =
     bindR (if dTorrentMagnet d = '''' then validateTorrentFinalizedIndexes (dTorrentFiles d) indexes else Inr ())
       (\<lambda>_. (let (files, tot, completed) = torrentFileStateProgress (dTorrentFiles d) indexes in
             Inr (d\<lparr>dTorrentFinalized := indexes, dTorrentFiles := files, dTotalLength := tot,
                    dCompletedLen := completed, dDonePieces := 0,
                    dBitfield := unknownTorrentBitfield (dNumPieces d)\<rparr>)))"

text \<open>\<open>byIndex\<close>: the last state with the index.\<close>

definition stateByIndex :: "torrentFileState list \<Rightarrow> int \<Rightarrow> torrentFileState option" where
  "stateByIndex states i = map_of (rev (map (\<lambda>s. (tfIndex s, s)) states)) i"

definition preserveFile :: "torrentFileState list \<Rightarrow> int list \<Rightarrow> torrentFileState \<Rightarrow> torrentFileState" where
  "preserveFile previous finalized f =
     (let f1 = (case stateByIndex previous (tfIndex f) of
             None \<Rightarrow> f
           | Some old \<Rightarrow>
              (let g = f\<lparr>tfCompleted := tfCompleted old\<rparr>;
                   h = (if tfIndex f \<in> set finalized then g\<lparr>tfPath := tfPath old\<rparr> else g) in
               if tfCompleted h > tfLength h then h\<lparr>tfCompleted := tfLength h\<rparr> else h)) in
      if tfIndex f1 \<in> set finalized then f1\<lparr>tfCompleted := tfLength f1\<rparr> else f1)"

definition rebuildTorrentFileStatesPreservingProgress ::
    "(string \<Rightarrow> string res) \<Rightarrow> planner \<Rightarrow> Info \<Rightarrow> options \<Rightarrow> string \<Rightarrow> torrentFileState list \<Rightarrow> int list
      \<Rightarrow> (torrentFileState list \<times> int \<times> int) res" where
  "rebuildTorrentFileStatesPreservingProgress rkey planFiles info opts dir previous finalized =
     bindR (torrentFileStates rkey planFiles info '''' opts dir) (\<lambda>next.
       (let next' = map (preserveFile previous finalized) next in Inr (next', sumSelected next')))"

definition selectedTorrentOutputPaths :: "torrentFileState list \<Rightarrow> int list \<Rightarrow> string list" where
  "selectedTorrentOutputPaths states finalized =
     map tfPath (filter (\<lambda>s. tfSelected s \<and> tfIndex s \<notin> set finalized) states)"

definition selectedTorrentFileIndexesFromStates :: "torrentFileState list \<Rightarrow> int list \<Rightarrow> nat list" where
  "selectedTorrentFileIndexesFromStates states finalized =
     filter (\<lambda>i. tfSelected (states ! i) \<and> tfIndex (states ! i) \<notin> set finalized) [0..<length states]"

definition selectedTorrentFiles :: "Download \<Rightarrow> 'f list \<Rightarrow> 'f list" where
  "selectedTorrentFiles d files =
     map snd (filter (\<lambda>(i, f). i < length (dTorrentFiles d) \<and> tfSelected (dTorrentFiles d ! i) \<and>
        tfIndex (dTorrentFiles d ! i) \<notin> set (dTorrentFinalized d)) (zip [0..<length files] files))"

definition reserveTorrentOutputPaths :: "(string \<Rightarrow> string res) \<Rightarrow> Download \<Rightarrow> Engine \<Rightarrow> Engine res" where
  "reserveTorrentOutputPaths rkey d e =
     reserveOutputPaths rkey (selectedTorrentOutputPaths (dTorrentFiles d) (dTorrentFinalized d)) (dGid d) e"

section \<open>The live torrent\<close>

text \<open>What the code reads of the library's snapshots: \<open>torrent.FileSnapshot\<close>, a run of
  \<open>PieceStateRuns\<close> and \<open>Stats\<close>.\<close>

record fileSnapshot =
  fsReleased :: bool
  fsVerifiedCompleted :: int

record pieceRun =
  prLength :: int
  prOk :: bool
  prComplete :: bool

record torrentStats =
  tsActivePeers :: int
  tsHalfOpenPeers :: int
  tsConnectedSeeders :: int

definition verifiedTorrentFileProgress :: "fileSnapshot \<Rightarrow> int \<Rightarrow> int" where
  "verifiedTorrentFileProgress snapshot len =
     (let n = fsVerifiedCompleted snapshot in if n < 0 then 0 else if n > len then len else n)"

text \<open>The first loop of \<open>torrentPieceProgress\<close>: the number of pieces, \<open>None\<close> above the limit.\<close>

fun countPieces :: "nat \<Rightarrow> pieceRun list \<Rightarrow> nat option" where
  "countPieces pieces [] = Some pieces"
| "countPieces pieces (r # rs) =
     (if prLength r \<le> 0 then countPieces pieces rs
      else if prLength r > maxTorrentPieceCount - int pieces then None
      else countPieces (pieces + nat (prLength r)) rs)"

fun markRuns :: "nat \<Rightarrow> nat \<Rightarrow> nat \<Rightarrow> nat list \<Rightarrow> pieceRun list \<Rightarrow> nat \<times> nat list" where
  "markRuns pieces index dn bits [] = (dn, bits)"
| "markRuns pieces index dn bits (r # rs) =
     (if prLength r \<le> 0 then markRuns pieces index dn bits rs
      else
        (let en = min (index + nat (prLength r)) pieces;
             (dn', bits') = (if prOk r \<and> prComplete r then (dn + (en - index), fold setBitAt [index..<en] bits)
                             else (dn, bits)) in
         if en = pieces then (dn', bits') else markRuns pieces en dn' bits' rs))"

definition torrentPieceProgress :: "pieceRun list \<Rightarrow> int \<times> string" where
  "torrentPieceProgress runs =
     (case countPieces 0 runs of
        None \<Rightarrow> (0, '''')
      | Some pieces \<Rightarrow>
         (if pieces = 0 then (0, '''')
          else
            (let (dn, bits) = markRuns pieces 0 0 (replicate ((pieces + 7) div 8) 0) runs in
             (int dn, hexEncode bits))))"

definition liveCompleted :: "fileSnapshot list \<Rightarrow> int list \<Rightarrow> nat \<Rightarrow> torrentFileState \<Rightarrow> int" where
  "liveCompleted snapshots finalized i f =
     (if tfIndex f \<in> set finalized then tfLength f
      else if i \<ge> length snapshots then tfCompleted f
      else if fsReleased (snapshots ! i) then tfLength f
      else verifiedTorrentFileProgress (snapshots ! i) (tfLength f))"

definition updateTorrentProgress ::
    "torrentStats \<Rightarrow> fileSnapshot list \<Rightarrow> pieceRun list \<Rightarrow> bool \<Rightarrow> Download \<Rightarrow> int \<times> Download" where
  "updateTorrentProgress stats snapshots runs seeding d =
     (let files = map (\<lambda>(i, f). f\<lparr>tfCompleted := liveCompleted snapshots (dTorrentFinalized d) i f\<rparr>)
                    (zip [0..<length (dTorrentFiles d)] (dTorrentFiles d));
          completed = snd (sumSelected files);
          (donePieces, bitfield) = torrentPieceProgress runs in
      (completed,
       d\<lparr>dTorrentFiles := files, dCompletedLen := completed,
         dConnections := wrap64 (tsActivePeers stats + tsHalfOpenPeers stats),
         dNumSeeders := tsConnectedSeeders stats, dSeeder := seeding,
         dDonePieces := donePieces, dBitfield := bitfield\<rparr>))"

section \<open>Finalizing files\<close>

definition selectionAllCompletedLocked :: "torrentRuntime \<Rightarrow> bool" where
  "selectionAllCompletedLocked r \<longleftrightarrow> rtSelected r \<noteq> [] \<and> set (rtSelected r) \<subseteq> set (rtCompleted r)"

definition closeSelectionLocked :: "torrentRuntime \<Rightarrow> torrentRuntime" where
  "closeSelectionLocked r = (if rtClosed r then r else r\<lparr>rtClosed := True\<rparr>)"

definition markSelectionCompleted :: "int \<Rightarrow> torrentRuntime \<Rightarrow> torrentRuntime" where
  "markSelectionCompleted index r =
     (if \<not> rtSelection r \<or> rtClosed r then r
      else
        (let r1 = r\<lparr>rtCompleted := List.insert index (rtCompleted r)\<rparr> in
         if selectionAllCompletedLocked r1 then closeSelectionLocked r1 else r1))"

definition completeFirst :: "int \<Rightarrow> torrentFileState list \<Rightarrow> torrentFileState list option" where
  "completeFirst i files =
     (case find (\<lambda>k. tfIndex (files ! k) = i) [0..<length files] of
        None \<Rightarrow> None
      | Some k \<Rightarrow> Some (files[k := (files ! k)\<lparr>tfCompleted := tfLength (files ! k)\<rparr>]))"

text \<open>\<open>markTorrentFileFinalized\<close>: \<open>runs\<close> is the piece state of the live torrent, \<open>None\<close> when the
  runtime has none. The Boolean says whether a session save is queued.\<close>

definition markTorrentFileFinalized ::
    "pieceRun list option \<Rightarrow> int \<Rightarrow> Download \<times> torrentRuntime \<Rightarrow> (bool \<times> Download \<times> torrentRuntime) res" where
  "markTorrentFileFinalized runs zeroBasedIndex dr =
     (let (d, runtime) = dr; ariaIndex = zeroBasedIndex + 1 in
      case completeFirst ariaIndex (dTorrentFiles d) of
        None \<Rightarrow> Inl (Errorf ''finalized torrent file index %d out of range'' [Itoa ariaIndex])
      | Some files0 \<Rightarrow>
         (let finalized = List.insert ariaIndex (dTorrentFinalized d);
              (files, tot, completed) = torrentFileStateProgress files0 finalized;
              (donePieces, bitfield) = (case runs of Some rs \<Rightarrow> torrentPieceProgress rs
                                        | None \<Rightarrow> (0, unknownTorrentBitfield (dNumPieces d))) in
          Inr (ariaIndex \<notin> set (dTorrentFinalized d),
               d\<lparr>dTorrentFinalized := finalized, dTorrentFiles := files, dTotalLength := tot,
                 dCompletedLen := completed, dDonePieces := donePieces, dBitfield := bitfield\<rparr>,
               markSelectionCompleted zeroBasedIndex runtime)))"

text \<open>\<open>reconcileReleasedTorrentFiles\<close>: the Boolean says whether anything was reconciled, and then a
  session save is queued.\<close>

definition reconcileStep :: "fileSnapshot list \<Rightarrow> nat \<Rightarrow> int list \<times> torrentFileState list \<Rightarrow> int list \<times> torrentFileState list" where
  "reconcileStep snapshots i s =
     (let (fin, files) = s; f = files ! i in
      if i \<ge> length snapshots \<or> \<not> fsReleased (snapshots ! i) \<or> tfIndex f \<in> set fin then s
      else (List.insert (tfIndex f) fin, files[i := f\<lparr>tfCompleted := tfLength f\<rparr>]))"

definition reconcileReleasedTorrentFiles :: "fileSnapshot list \<Rightarrow> Download \<Rightarrow> bool \<times> Download" where
  "reconcileReleasedTorrentFiles snapshots d =
     (let (fin, files) = fold (reconcileStep snapshots) [0..<length (dTorrentFiles d)]
                           (dTorrentFinalized d, dTorrentFiles d) in
      if length fin = length (dTorrentFinalized d) then (False, d)
      else
        (let (files', tot, completed) = torrentFileStateProgress files fin in
         (True, d\<lparr>dTorrentFinalized := fin, dTorrentFiles := files', dTotalLength := tot, dCompletedLen := completed\<rparr>)))"

section \<open>Trackers and web seeds\<close>

definition applyTorrentTrackerOptions :: "string list list \<Rightarrow> options \<Rightarrow> string list list" where
  "applyTorrentTrackerOptions trackers opts =
     (let exclude = splitCSVOptions opts ''bt-exclude-tracker'';
          t1 = (if exclude = [] then trackers
                else if ''*'' \<in> set exclude then []
                else filter (\<lambda>tier. tier \<noteq> []) (map (filter (\<lambda>t. t \<notin> set exclude)) trackers));
          extra = splitCSVOptions opts ''bt-tracker'' in
      if extra = [] then t1 else t1 @ [extra])"

definition maxTorrentWebSeeds :: nat where "maxTorrentWebSeeds = maxDownloadURIs"

fun appendUniqueAll :: "string list \<Rightarrow> string list \<Rightarrow> string list res" where
  "appendUniqueAll urls [] = Inr urls"
| "appendUniqueAll urls (raw # raws) =
     (if raw \<in> set urls then appendUniqueAll urls raws
      else if length urls \<ge> maxTorrentWebSeeds
      then Inl (Errorf ''too many torrent webseeds: maximum is %d'' [Itoa (int maxTorrentWebSeeds)])
      else appendUniqueAll (urls @ [raw]) raws)"

definition mergeTorrentWebSeedURLs :: "string list \<Rightarrow> uriInfo list \<Rightarrow> string list res" where
  "mergeTorrentWebSeedURLs embedded uris = appendUniqueAll [] (embedded @ map uURI uris)"

section \<open>Piece states\<close>

text \<open>The state of every piece, in order, that a list of runs stands for.\<close>

definition expandRuns :: "pieceRun list \<Rightarrow> bool list" where
  "expandRuns rs = concat (map (\<lambda>r. replicate (nat (prLength r)) (prOk r \<and> prComplete r)) rs)"

lemma expandRuns_simps [simp]:
  "expandRuns [] = []"
  "expandRuns (r # rs) = replicate (nat (prLength r)) (prOk r \<and> prComplete r) @ expandRuns rs"
  by (simp_all add: expandRuns_def)

lemma countPieces_Some:
  "countPieces p rs = Some n \<Longrightarrow> n = p + length (expandRuns rs)"
  by (induction p rs rule: countPieces.induct) (auto split: if_splits)

lemma countPieces_total:
  "int p + int (length (expandRuns rs)) \<le> maxTorrentPieceCount \<Longrightarrow>
   countPieces p rs = Some (p + length (expandRuns rs))"
proof (induction p rs rule: countPieces.induct)
  case (2 pieces r rs)
  show ?case
  proof (cases "prLength r \<le> 0")
    case True
    then have "nat (prLength r) = 0" by simp
    with True 2 show ?thesis by simp
  next
    case False
    then have "int (nat (prLength r)) = prLength r" by simp
    with False 2 show ?thesis by simp
  qed
qed simp

lemma markRuns_spec:
  assumes "index + length (expandRuns rs) = pieces" "pieces \<le> 8 * length bits" "\<forall>b \<in> set bits. b < 256"
    and "markRuns pieces index dn bits rs = (dn', bits')"
  shows "dn' = dn + count_list (expandRuns rs) True \<and> (\<forall>b \<in> set bits'. b < 256)
    \<and> (\<forall>i. byteBit bits' i \<longleftrightarrow> byteBit bits i \<or> (index \<le> i \<and> i < pieces \<and> expandRuns rs ! (i - index)))"
  using assms
proof (induction rs arbitrary: index dn bits)
  case (Cons r rs)
  show ?case
  proof (cases "prLength r \<le> 0")
    case True
    with Cons show ?thesis by simp
  next
    case False
    define n where "n = nat (prLength r)"
    define c where "c = (prOk r \<and> prComplete r)"
    define bits1 where "bits1 = (if c then fold setBitAt [index..<index + n] bits else bits)"
    define dn1 where "dn1 = dn + (if c then n else 0)"
    have exp: "expandRuns (r # rs) = replicate n c @ expandRuns rs" by (simp add: n_def c_def)
    have le: "index + n \<le> pieces" using Cons.prems(1) by (simp add: n_def)
    have js: "\<forall>j \<in> set [index..<index + n]. j div 8 < length bits" using le Cons.prems(2) by auto
    have b: "length bits1 = length bits" "\<forall>b \<in> set bits1. b < 256"
      "\<And>i. byteBit bits1 i \<longleftrightarrow> byteBit bits i \<or> (c \<and> index \<le> i \<and> i < index + n)"
      using fold_setBitAt_set[OF js Cons.prems(3)] Cons.prems(3) by (simp_all add: bits1_def)
    have m: "(if index + n = pieces then (dn1, bits1) else markRuns pieces (index + n) dn1 bits1 rs) = (dn', bits')"
      using Cons.prems(4) False le
      by (simp add: Let_def min_absorb1 dn1_def bits1_def flip: n_def c_def)
        (cases c; simp split: if_splits)
    have cnt: "count_list (replicate n c) True = (if c then n else 0)"
      by (induction n) auto
    have nth: "expandRuns (r # rs) ! (i - index) \<longleftrightarrow> (if i < index + n then c else expandRuns rs ! (i - (index + n)))"
      if "index \<le> i" for i
      using that by (auto simp: exp nth_append simp del: expandRuns_simps)
    have ih: "dn' = dn1 + count_list (expandRuns rs) True \<and> (\<forall>b \<in> set bits'. b < 256)
      \<and> (\<forall>i. byteBit bits' i \<longleftrightarrow> byteBit bits1 i \<or>
            (index + n \<le> i \<and> i < pieces \<and> expandRuns rs ! (i - (index + n))))"
    proof (cases "index + n = pieces")
      case True
      then have "length (expandRuns rs) = 0" using Cons.prems(1)
        unfolding n_def expandRuns_simps length_append length_replicate by linarith
      then have "expandRuns rs = []" by simp
      with True m b(2) show ?thesis by auto
    next
      case False
      with m have "markRuns pieces (index + n) dn1 bits1 rs = (dn', bits')" by simp
      from Cons.IH[OF _ _ b(2) this] Cons.prems(1,2) b(1) show ?thesis by (simp add: n_def)
    qed
    have "byteBit bits' i \<longleftrightarrow> byteBit bits i \<or> (index \<le> i \<and> i < pieces \<and> expandRuns (r # rs) ! (i - index))" for i
      using ih b(3)[of i] nth[of i] le by (auto simp del: expandRuns_simps split: if_splits)
    moreover have "dn' = dn + count_list (expandRuns (r # rs)) True"
      using ih cnt by (simp add: exp count_list_append dn1_def del: expandRuns_simps)
    ultimately show ?thesis using ih by blast
  qed
qed auto

text \<open>The piece counter and the bitfield of a live torrent are those of the piece states the
  library reports: with at most 2^20 pieces, the counter is the number of complete pieces and bit
  \<open>i\<close> is set exactly when piece \<open>i\<close> is complete.\<close>

theorem torrentPieceProgress_bits:
  assumes "int (length (expandRuns runs)) \<le> maxTorrentPieceCount" "expandRuns runs \<noteq> []"
    and "torrentPieceProgress runs = (dn, bf)"
  shows "dn = int (count_list (expandRuns runs) True)
    \<and> (\<forall>i. pieceBit bf i \<longleftrightarrow> i < length (expandRuns runs) \<and> expandRuns runs ! i)"
proof -
  let ?n = "length (expandRuns runs)"
  obtain d bits where m: "markRuns ?n 0 0 (replicate ((?n + 7) div 8) 0) runs = (d, bits)" by fastforce
  have "d = count_list (expandRuns runs) True \<and> (\<forall>b \<in> set bits. b < 256)
    \<and> (\<forall>i. byteBit bits i \<longleftrightarrow> i < ?n \<and> expandRuns runs ! i)"
    using markRuns_spec[OF _ _ _ m] by auto
  with assms m countPieces_total[of 0 runs] show ?thesis
    by (auto simp: torrentPieceProgress_def pieceBit_hexEncode)
qed

theorem torrentPieceProgress_bits_witness:
  "fst (torrentPieceProgress [\<lparr>prLength = 2, prOk = True, prComplete = True\<rparr>, \<lparr>prLength = 1, prOk = True, prComplete = False\<rparr>]) = 2"
  using torrentPieceProgress_bits
    [of "[\<lparr>prLength = 2, prOk = True, prComplete = True\<rparr>, \<lparr>prLength = 1, prOk = True, prComplete = False\<rparr>]", OF _ _ surjective_pairing]
  by (simp add: maxTorrentPieceCount_def numeral_eq_Suc)

section \<open>Byte accounting of a torrent\<close>

definition fileInv :: "int list \<Rightarrow> torrentFileState \<Rightarrow> bool" where
  "fileInv finalized f \<longleftrightarrow> 0 \<le> tfCompleted f \<and> tfCompleted f \<le> tfLength f
     \<and> (tfIndex f \<in> set finalized \<longrightarrow> tfCompleted f = tfLength f)"

definition selectedSum :: "(torrentFileState \<Rightarrow> int) \<Rightarrow> torrentFileState list \<Rightarrow> int" where
  "selectedSum m files = sum_list (map m (filter tfSelected files))"

text \<open>The size condition: file lengths are not negative and their sum fits an \<open>int64\<close>, which
  \<open>validateTorrentInfo\<close> checks.\<close>

definition lengthsOk :: "torrentFileState list \<Rightarrow> bool" where
  "lengthsOk files \<longleftrightarrow> (\<forall>f \<in> set files. 0 \<le> tfLength f) \<and> sum_list (map tfLength files) \<le> MaxInt64"

lemma lengthsOk_map: "lengthsOk files \<longleftrightarrow> (\<forall>n \<in> set (map tfLength files). 0 \<le> n) \<and> sum_list (map tfLength files) \<le> MaxInt64"
  by (simp add: lengthsOk_def)

lemma selectedSum_cong:
  "map tfSelected xs = map tfSelected ys \<Longrightarrow> map m xs = map m ys \<Longrightarrow> selectedSum m xs = selectedSum m ys"
proof (induction xs arbitrary: ys)
  case (Cons x xs)
  then show ?case by (cases ys) (auto simp: selectedSum_def)
qed (simp add: selectedSum_def)

lemma sum_list_nonneg_int: "(\<forall>x \<in> set xs. 0 \<le> (x::int)) \<Longrightarrow> 0 \<le> sum_list xs"
  by (induction xs) auto

lemma selectedSum_le: "(\<forall>f \<in> set files. 0 \<le> m f \<and> m f \<le> tfLength f) \<Longrightarrow>
  0 \<le> selectedSum m files \<and> selectedSum m files \<le> sum_list (map tfLength files)"
  by (induction files) (auto simp: selectedSum_def)

lemma sumSelected_fold:
  assumes "\<forall>f \<in> set files. 0 \<le> tfCompleted f \<and> tfCompleted f \<le> tfLength f"
    "0 \<le> c" "c \<le> t" "t + sum_list (map tfLength files) \<le> MaxInt64"
  shows "fold (\<lambda>f (tot, completed).
        if tfSelected f then (wrap64 (tot + tfLength f), wrap64 (completed + tfCompleted f)) else (tot, completed))
      files (t, c) = (t + selectedSum tfLength files, c + selectedSum tfCompleted files)"
  using assms
proof (induction files arbitrary: t c)
  case (Cons f fs)
  have nn: "0 \<le> sum_list (map tfLength fs)" using Cons.prems(1) by (intro sum_list_nonneg_int) fastforce
  show ?case
  proof (cases "tfSelected f")
    case True
    have "wrap64 (t + tfLength f) = t + tfLength f" "wrap64 (c + tfCompleted f) = c + tfCompleted f"
      using Cons.prems nn by (auto intro!: wrap64_nonneg_id)
    with True Cons.IH[of "c + tfCompleted f" "t + tfLength f"] Cons.prems show ?thesis
      by (simp add: selectedSum_def)
  next
    case False
    with Cons.IH[of c t] Cons.prems show ?thesis by (simp add: selectedSum_def)
  qed
qed (simp add: selectedSum_def)

lemma sumSelected_exact:
  assumes "\<forall>f \<in> set files. 0 \<le> tfCompleted f \<and> tfCompleted f \<le> tfLength f" "lengthsOk files"
  shows "sumSelected files = (selectedSum tfLength files, selectedSum tfCompleted files)"
  using sumSelected_fold[of files 0 0] assms by (simp add: sumSelected_def lengthsOk_def)

lemma clampFile_simps [simp]:
  "tfLength (clampFile fin f) = tfLength f" "tfIndex (clampFile fin f) = tfIndex f"
  "tfSelected (clampFile fin f) = tfSelected f" "tfPath (clampFile fin f) = tfPath f"
  by (simp_all add: clampFile_def Let_def)

lemma clampFile_inv: "0 \<le> tfLength f \<Longrightarrow> fileInv fin (clampFile fin f)"
  by (auto simp: clampFile_def fileInv_def Let_def)

lemma fileStateProgress_exact:
  assumes "lengthsOk files" "torrentFileStateProgress files fin = (files', tot, completed)"
  shows "files' = map (clampFile fin) files" "\<forall>f \<in> set files'. fileInv fin f"
    "tot = selectedSum tfLength files'" "completed = selectedSum tfCompleted files'" "lengthsOk files'"
proof -
  show f: "files' = map (clampFile fin) files" using assms(2) by (simp add: torrentFileStateProgress_def Let_def)
  show i: "\<forall>f \<in> set files'. fileInv fin f" using assms(1) by (auto simp: f lengthsOk_def intro: clampFile_inv)
  show l: "lengthsOk files'" using assms(1) by (simp add: f lengthsOk_def comp_def)
  have "sumSelected files' = (selectedSum tfLength files', selectedSum tfCompleted files')"
    using i l by (intro sumSelected_exact) (auto simp: fileInv_def)
  then show "tot = selectedSum tfLength files'" "completed = selectedSum tfCompleted files'"
    using assms(2) by (auto simp: torrentFileStateProgress_def Let_def f)
qed

text \<open>The accounting of a torrent download: every file within its length, finalized files complete,
  and the two counters the sums over the selected files.\<close>

definition torrentInv :: "Download \<Rightarrow> bool" where
  "torrentInv d \<longleftrightarrow> lengthsOk (dTorrentFiles d)
     \<and> (\<forall>f \<in> set (dTorrentFiles d). fileInv (dTorrentFinalized d) f)
     \<and> dTotalLength d = selectedSum tfLength (dTorrentFiles d)
     \<and> dCompletedLen d = selectedSum tfCompleted (dTorrentFiles d)"

lemma map_update_same: "k < length xs \<Longrightarrow> f x = f (xs ! k) \<Longrightarrow> map f (xs[k := x]) = map f xs"
  by (metis list_update_id map_update)

lemma completeFirst_Some:
  assumes "completeFirst i files = Some files'"
  shows "map tfLength files' = map tfLength files \<and> map tfIndex files' = map tfIndex files \<and>
    map tfSelected files' = map tfSelected files \<and> i \<in> tfIndex ` set files"
proof -
  from assms obtain k where k: "k < length files" "tfIndex (files ! k) = i"
      "files' = files[k := (files ! k)\<lparr>tfCompleted := tfLength (files ! k)\<rparr>]"
    by (auto simp: completeFirst_def find_Some_iff split: option.splits)
  then show ?thesis by (auto simp: map_update_same)
qed

text \<open>When a file of the torrent has been handed over, the download's accounting stays exact:
  the file is finalized and complete, no other file becomes finalized, the totals are the sums over
  the selected files, and a session save is queued exactly when the file was not finalized before.\<close>

theorem markTorrentFileFinalized_exact:
  assumes "torrentInv d" "markTorrentFileFinalized runs i (d, r) = Inr (save, d', r')"
  shows "torrentInv d' \<and> set (dTorrentFinalized d') = insert (i + 1) (set (dTorrentFinalized d))
    \<and> (save \<longleftrightarrow> i + 1 \<notin> set (dTorrentFinalized d))
    \<and> dTotalLength d' = dTotalLength d
    \<and> (\<forall>f \<in> set (dTorrentFiles d'). tfIndex f = i + 1 \<longrightarrow> tfCompleted f = tfLength f)"
proof -
  let ?fin = "List.insert (i + 1) (dTorrentFinalized d)"
  obtain files0 where c: "completeFirst (i + 1) (dTorrentFiles d) = Some files0"
    using assms(2) by (cases "completeFirst (i + 1) (dTorrentFiles d)") (simp_all add: markTorrentFileFinalized_def)
  obtain files tot completed where p: "torrentFileStateProgress files0 ?fin = (files, tot, completed)"
    by (cases "torrentFileStateProgress files0 ?fin") auto
  obtain dn bf where b: "(case runs of Some rs \<Rightarrow> torrentPieceProgress rs
      | None \<Rightarrow> (0, unknownTorrentBitfield (dNumPieces d))) = (dn, bf)" by fastforce
  have d': "dTorrentFinalized d' = ?fin" "dTorrentFiles d' = files" "dTotalLength d' = tot"
      "dCompletedLen d' = completed" "save \<longleftrightarrow> i + 1 \<notin> set (dTorrentFinalized d)"
    using assms(2) by (simp_all add: markTorrentFileFinalized_def Let_def c p b) auto
  have same: "map tfLength files0 = map tfLength (dTorrentFiles d)" "map tfSelected files0 = map tfSelected (dTorrentFiles d)"
    using completeFirst_Some[OF c] by auto
  have ok: "lengthsOk files0"
    using assms(1) same(1) by (simp add: torrentInv_def lengthsOk_map)
  note fs = fileStateProgress_exact[OF ok p]
  have "selectedSum tfLength files = selectedSum tfLength (dTorrentFiles d)"
    using same by (intro selectedSum_cong) (simp_all add: fs(1) comp_def)
  with fs assms(1) d' show ?thesis
    unfolding torrentInv_def by (auto simp: fileInv_def)
qed

text \<open>An example torrent download with two files, the first selected.\<close>

definition exampleTorrent :: Download where
  "exampleTorrent = zeroDownload\<lparr>dKind := downloadKindTorrent, dTotalLength := 10, dTorrentFiles :=
     [\<lparr>tfIndex = 1, tfPath = ''a'', tfLength = 10, tfCompleted = 0, tfSelected = True\<rparr>,
      \<lparr>tfIndex = 2, tfPath = ''b'', tfLength = 5, tfCompleted = 0, tfSelected = False\<rparr>]\<rparr>"

definition exampleRuntime :: torrentRuntime where
  "exampleRuntime = \<lparr>rtTorrent = False, rtSelection = True, rtSelected = [0], rtCompleted = [], rtClosed = False\<rparr>"

lemma exampleTorrent_inv: "torrentInv exampleTorrent"
  by (simp add: torrentInv_def exampleTorrent_def zeroDownload_def lengthsOk_def fileInv_def selectedSum_def)

theorem markTorrentFileFinalized_exact_witness:
  "\<exists>save d r. markTorrentFileFinalized None 0 (exampleTorrent, exampleRuntime) = Inr (save, d, r)
     \<and> torrentInv d \<and> set (dTorrentFinalized d) = {1} \<and> save"
proof -
  obtain save d r where m: "markTorrentFileFinalized None 0 (exampleTorrent, exampleRuntime) = Inr (save, d, r)"
    by (cases "markTorrentFileFinalized None 0 (exampleTorrent, exampleRuntime)")
      (auto simp: markTorrentFileFinalized_def exampleTorrent_def completeFirst_def Let_def split: prod.splits)
  from markTorrentFileFinalized_exact[OF exampleTorrent_inv this] m show ?thesis
    by (auto simp: exampleTorrent_def zeroDownload_def)
qed

text \<open>The other operations that rewrite the accounting keep it exact too.\<close>

lemma liveCompleted_inv: "fileInv fin f \<Longrightarrow> fileInv fin (f\<lparr>tfCompleted := liveCompleted sn fin i f\<rparr>)"
  by (auto simp: fileInv_def liveCompleted_def verifiedTorrentFileProgress_def Let_def)

lemma map2_files:
  "length is = length fs \<Longrightarrow> (\<And>f n. m (f\<lparr>tfCompleted := n\<rparr>) = m f) \<Longrightarrow>
   map m (map (\<lambda>(i, f). f\<lparr>tfCompleted := h i f\<rparr>) (zip is fs)) = map m fs"
  by (induction "is" fs rule: list_induct2) auto

text \<open>The periodic progress update of a live torrent keeps the accounting exact and never takes
  back a finalized file: every file stays between zero and its length and the completed length is the
  sum over the selected files, whatever the torrent library reports.\<close>

theorem updateTorrentProgress_exact:
  assumes "torrentInv d"
  shows "torrentInv (snd (updateTorrentProgress stats snapshots runs seeding d))
    \<and> fst (updateTorrentProgress stats snapshots runs seeding d)
        = dCompletedLen (snd (updateTorrentProgress stats snapshots runs seeding d))
    \<and> dCompletedLen (snd (updateTorrentProgress stats snapshots runs seeding d)) \<le> dTotalLength d"
proof -
  let ?fs = "dTorrentFiles d" and ?fin = "dTorrentFinalized d"
  let ?files = "map (\<lambda>(i, f). f\<lparr>tfCompleted := liveCompleted snapshots ?fin i f\<rparr>) (zip [0..<length ?fs] ?fs)"
  have inv: "\<forall>f \<in> set ?files. fileInv ?fin f"
    using assms liveCompleted_inv by (auto simp: torrentInv_def dest!: set_zip_rightD)
  have len: "map tfLength ?files = map tfLength ?fs" "map tfSelected ?files = map tfSelected ?fs"
    using map2_files[of "[0..<length ?fs]" ?fs tfLength] map2_files[of "[0..<length ?fs]" ?fs tfSelected] by simp_all
  have ok: "lengthsOk ?files" using assms len(1) by (simp add: torrentInv_def lengthsOk_map)
  have sum: "sumSelected ?files = (selectedSum tfLength ?files, selectedSum tfCompleted ?files)"
    using inv ok by (intro sumSelected_exact) (auto simp: fileInv_def)
  have tot: "dTotalLength d = selectedSum tfLength ?files"
    using assms selectedSum_cong[OF len(2,1)] by (simp add: torrentInv_def)
  have "selectedSum tfCompleted ?files \<le> selectedSum tfLength ?files"
    using inv unfolding selectedSum_def by (intro sum_list_mono) (auto simp: fileInv_def)
  moreover obtain dn bf where "torrentPieceProgress runs = (dn, bf)" by fastforce
  ultimately show ?thesis
    using inv ok sum tot by (simp add: updateTorrentProgress_def Let_def torrentInv_def)
qed

theorem updateTorrentProgress_exact_witness:
  "torrentInv (snd (updateTorrentProgress \<lparr>tsActivePeers = 1, tsHalfOpenPeers = 0, tsConnectedSeeders = 1\<rparr>
     [\<lparr>fsReleased = False, fsVerifiedCompleted = 12\<rparr>] [] False exampleTorrent))"
  using updateTorrentProgress_exact[OF exampleTorrent_inv] by simp

section \<open>Containment of the output paths\<close>

lemma cleanStep_True: "\<forall>x \<in> set st. x \<noteq> ''..'' \<Longrightarrow> cleanStep True c st = (if c = ''..'' then tl st else c # st)"
  by (cases st) (simp_all add: cleanStep_def)

lemma set_tl_subset: "set (tl xs) \<subseteq> set xs"
  by (cases xs) auto

lemma cleanStep_rooted:
  "\<forall>c \<in> set st. c \<noteq> ''..'' \<Longrightarrow> \<forall>c \<in> set (fold (cleanStep True) cs st). c \<noteq> ''..'' \<and> (c \<in> set cs \<or> c \<in> set st)"
proof (induction cs arbitrary: st)
  case (Cons c cs)
  have st: "x \<noteq> ''..'' \<and> (x = c \<or> x \<in> set st)" if "x \<in> set (cleanStep True c st)" for x
    using Cons.prems that set_tl_subset[of st] unfolding cleanStep_True[OF Cons.prems]
    by (cases "c = ''..''") auto
  then have "\<forall>x \<in> set (cleanStep True c st). x \<noteq> ''..''" by blast
  from Cons.IH[OF this] st show ?case unfolding fold_Cons comp_def set_simps by blast
qed simp

definition plainComp :: "string \<Rightarrow> bool" where
  "plainComp c \<longleftrightarrow> c \<noteq> '''' \<and> c \<noteq> ''.'' \<and> c \<noteq> ''..'' \<and> CHR ''/'' \<notin> set c"

lemma pathClean_rooted:
  assumes "pathIsAbs p"
  shows "HasPrefix (pathClean p) ''/'' \<and> (\<forall>c \<in> set (pathComps (pathClean p)). plainComp c)"
proof -
  define cs where "cs = rev (fold (cleanStep True) (pathComps p) [])"
  have ne: "p \<noteq> ''''" and h: "hd p = CHR ''/''" using assms by (auto simp: pathIsAbs_def HasPrefix_def prefix_def)
  have cl: "pathClean p = CHR ''/'' # Join cs ''/''"
    using ne h by (simp add: pathClean_def cs_def pathComps_def Let_def)
  have comp: "c \<noteq> '''' \<and> c \<noteq> ''.'' \<and> CHR ''/'' \<notin> set c" if "c \<in> set (pathComps p)" for c
    using that Split_pieces[of c p "CHR ''/''"] by (simp add: pathComps_def)
  have "c \<noteq> ''..'' \<and> c \<in> set (pathComps p)" if "c \<in> set cs" for c
    using cleanStep_rooted[of "[]" "pathComps p"] that unfolding cs_def set_rev by simp
  with comp have pc: "\<forall>c \<in> set cs. plainComp c" unfolding plainComp_def by blast
  have "pathComps (pathClean p) = cs"
  proof (cases "cs = []")
    case False
    then have "Split (Join cs ''/'') (CHR ''/'') = cs" using pc by (intro Split_Join) (auto simp: plainComp_def)
    with pc show ?thesis by (auto simp: cl pathComps_def plainComp_def filter_id_conv)
  qed (simp add: cl pathComps_def)
  with pc cl show ?thesis by (simp add: HasPrefix_def)
qed

lemma stripCommon_prefix:
  "stripCommon bs ts = (rb, rt) \<Longrightarrow> \<exists>cs. bs = cs @ rb \<and> ts = cs @ rt \<and> (rb \<noteq> [] \<longrightarrow> rt \<noteq> [] \<longrightarrow> hd rb \<noteq> hd rt)"
proof (induction bs ts rule: stripCommon.induct)
  case (1 b bs t ts)
  show ?case
  proof (cases "b = t")
    case True
    with 1 obtain cs where "bs = cs @ rb \<and> ts = cs @ rt \<and> (rb \<noteq> [] \<longrightarrow> rt \<noteq> [] \<longrightarrow> hd rb \<noteq> hd rt)" by auto
    with True show ?thesis by (intro exI[of _ "b # cs"]) simp
  next
    case False
    with "1.prems" show ?thesis by (intro exI[of _ "[]"]) auto
  qed
qed auto

lemma Join_up:
  "HasPrefix (Join (''..'' # xs) ''/'') ''../'' \<or> Join (''..'' # xs) ''/'' = ''..''"
  by (cases xs) (simp_all add: HasPrefix_def)

lemma Join_plain_not_up:
  assumes "\<forall>c \<in> set xs. plainComp c"
  shows "\<not> HasPrefix (Join xs ''/'') ''../'' \<and> Join xs ''/'' \<noteq> ''..''"
proof (cases "xs = []")
  case False
  have sp: "Split (Join xs ''/'') (CHR ''/'') = xs"
    using assms False by (intro Split_Join) (auto simp: plainComp_def)
  have up: "''..'' \<notin> set xs" using assms by (auto simp: plainComp_def)
  have "Join xs ''/'' \<noteq> ''..'' @ CHR ''/'' # s" for s
    using sp up Split_append[of "CHR ''/''" "''..''" s] by force
  moreover have "Join xs ''/'' \<noteq> ''..''"
    using sp up Split_no_sep[of "CHR ''/''" "''..''"] by force
  ultimately show ?thesis by (auto simp: HasPrefix_def prefix_def)
qed (simp add: HasPrefix_def)

lemma pathWithinDirectory_iff:
  assumes "pathIsAbs dir" "pathIsAbs p"
  shows "pathWithinDirectory dir p \<longleftrightarrow> prefix (pathComps (pathClean dir)) (pathComps (pathClean p))"
proof (cases "pathClean p = pathClean dir")
  case True
  then show ?thesis by (simp add: pathWithinDirectory_def pathRel_def HasPrefix_def)
next
  case False
  let ?b = "pathComps (pathClean dir)" and ?t = "pathComps (pathClean p)"
  obtain rb rt where s: "stripCommon ?b ?t = (rb, rt)" by fastforce
  from stripCommon_prefix[OF this] obtain cs where cs: "?b = cs @ rb" "?t = cs @ rt"
      "rb \<noteq> [] \<Longrightarrow> rt \<noteq> [] \<Longrightarrow> hd rb \<noteq> hd rt" by blast
  have plain: "\<forall>c \<in> set ?b \<union> set ?t. plainComp c"
    using pathClean_rooted[OF assms(1)] pathClean_rooted[OF assms(2)] by auto
  then have hd: "\<not> (rb \<noteq> [] \<and> hd rb = ''..'')" by (cases rb) (auto simp: cs plainComp_def)
  have rel: "pathRel dir p = Some (Join (replicate (length rb) ''..'' @ rt) ''/'')"
    using False pathClean_rooted[OF assms(1)] pathClean_rooted[OF assms(2)] s hd
    by (simp add: pathRel_def Let_def)
  show ?thesis
  proof (cases rb)
    case Nil
    with plain cs have "\<forall>c \<in> set rt. plainComp c" by auto
    from Join_plain_not_up[OF this] Nil rel cs show ?thesis by (simp add: pathWithinDirectory_def)
  next
    case (Cons x xs)
    then have "\<not> prefix rb rt" using cs(3) by (cases rt) auto
    with Cons rel cs Join_up[of "replicate (length xs) ''..'' @ rt"] show ?thesis
      by (auto simp: pathWithinDirectory_def)
  qed
qed

lemma planStates_within:
  "planStates rkey cd sel files = Inr states \<Longrightarrow> f \<in> set states \<Longrightarrow>
   \<exists>cp. rkey (tfPath f) = Inr cp \<and> pathWithinDirectory cd cp"
  by (induction files arbitrary: states) (auto simp: bindR_eq_Inr split: if_splits)

text \<open>C37: No output path of a torrent escapes the torrent's directory. When the layout is accepted,
  the canonical path of every file lies below the canonical directory: the directory's components are
  a prefix of the path's components, and none of them is a parent reference.\<close>

theorem torrentFileStates_contained:
  assumes "torrentFileStates rkey planFiles info h opts dir = Inr states"
    and "planFiles dir opts info h = Inr plan" "rkey (plTorrentDir plan) = Inr cd"
    and "\<And>p q. rkey p = Inr q \<Longrightarrow> pathIsAbs q" and "f \<in> set states"
  shows "\<exists>cp. rkey (tfPath f) = Inr cp \<and> prefix (pathComps (pathClean cd)) (pathComps (pathClean cp))
     \<and> ''..'' \<notin> set (pathComps (pathClean cp))"
proof -
  obtain sel where "planStates rkey cd sel (plFiles plan) = Inr states"
    using assms(1-3) by (auto simp: torrentFileStates_def bindR_eq_Inr)
  from planStates_within[OF this assms(5)] obtain cp where cp: "rkey (tfPath f) = Inr cp" "pathWithinDirectory cd cp"
    by blast
  have "pathIsAbs cd" "pathIsAbs cp" using assms(3,4) cp(1) by auto
  with cp pathWithinDirectory_iff pathClean_rooted[of cp] show ?thesis by (auto simp: plainComp_def)
qed

definition exampleInfo :: Info where
  "exampleInfo = \<lparr>iBestName = ''t'', iLength = 0, iFiles = [], iPiecesLen = 20, iPieceLength = 16384,
     iHasV1 = True, iHasV2 = False, iIsDir = True, iFileTree = [], iFileTreeValid = Inr (),
     iUpvertedFiles = [\<lparr>fiBestPath = [''a''], fiDisplayPath = ''a'', fiLength = 3, fiAttr = '''', fiTorrentOffset = 0\<rparr>],
     iUpvertedV1Files = []\<rparr>"

definition examplePlanner :: planner where
  "examplePlanner dir opts info h = Inr \<lparr>plTorrentDir = ''/d'', plFiles = [\<lparr>pfIndex = 0, pfStoragePath = ''/d/a'', pfLength = 3\<rparr>]\<rparr>"

definition absKey :: "string \<Rightarrow> string res" where
  "absKey p = (if pathIsAbs p then Inr (pathClean p) else Inl (Errorf ''relative'' []))"

lemma absKey_abs: "absKey p = Inr q \<Longrightarrow> pathIsAbs q"
  using pathClean_rooted[of p] by (auto simp: absKey_def pathIsAbs_def split: if_splits)

theorem torrentFileStates_contained_witness:
  "\<exists>cp. absKey ''/d/a'' = Inr cp \<and> prefix (pathComps (pathClean ''/d'')) (pathComps (pathClean cp))
     \<and> ''..'' \<notin> set (pathComps (pathClean cp))"
proof -
  let ?f = "\<lparr>tfIndex = 1, tfPath = ''/d/a'', tfLength = 3, tfCompleted = 0, tfSelected = True\<rparr>"
  let ?p = "\<lparr>plTorrentDir = ''/d'', plFiles = [\<lparr>pfIndex = 0, pfStoragePath = ''/d/a'', pfLength = 3\<rparr>]\<rparr>"
  have t: "torrentFileStates absKey examplePlanner exampleInfo '''' [] ''/d'' = Inr [?f]" by code_simp
  have p: "examplePlanner ''/d'' [] exampleInfo '''' = Inr ?p" by (simp add: examplePlanner_def)
  have k: "absKey (plTorrentDir ?p) = Inr ''/d''" by code_simp
  show ?thesis using torrentFileStates_contained[OF t p k, of ?f] absKey_abs by simp
qed

section \<open>Parsing of a file selection\<close>

datatype selItem = SelOne int | SelRange int int

fun showSel :: "selItem \<Rightarrow> string" where
  "showSel (SelOne n) = Itoa n"
| "showSel (SelRange a b) = Itoa a @ CHR ''-'' # Itoa b"

fun selMembers :: "selItem \<Rightarrow> int set" where
  "selMembers (SelOne n) = {n}"
| "selMembers (SelRange a b) = {a..b}"

fun selOk :: "int \<Rightarrow> selItem \<Rightarrow> bool" where
  "selOk n (SelOne i) \<longleftrightarrow> 1 \<le> i \<and> i \<le> n"
| "selOk n (SelRange a b) \<longleftrightarrow> 1 \<le> a \<and> a \<le> b \<and> b \<le> n"

lemma dash_notin_Itoa: "0 \<le> n \<Longrightarrow> CHR ''-'' \<notin> set (Itoa n)"
  using Itoa_nonneg_digits[of n "CHR ''-''"] by auto

lemma comma_notin_Itoa: "CHR '','' \<notin> set (Itoa n)"
proof -
  have "CHR '','' \<notin> set (showNat k)" for k using showNat_digits[of "CHR '',''" k] by (auto simp: isDigit_def)
  then show ?thesis by (simp add: Itoa_def)
qed

lemma showSel_plain: "list_all plainByte (showSel it)"
  by (cases it) (auto simp: Itoa_plain, simp add: plainByte_def asciiSpace_def)

lemma showSel_trim [simp]: "TrimSpace (showSel it) = showSel it"
  by (rule TrimSpace_plain) (rule showSel_plain)

lemma showSel_nonempty [simp]: "showSel it \<noteq> []"
  by (cases it) auto

lemma comma_notin_showSel: "CHR '','' \<notin> set (showSel it)"
  by (cases it) (auto simp: comma_notin_Itoa)

lemma set_fold_insert [simp]: "set (fold List.insert xs ys) = set xs \<union> set ys"
  by (induction xs arbitrary: ys) auto

lemma selectItems_showSel:
  assumes "\<forall>it \<in> set items. selOk n it" "n \<le> MaxInt64"
  shows "\<exists>sel'. selectItems n sel (map showSel items) = Inr sel' \<and> set sel' = set sel \<union> (\<Union>it \<in> set items. selMembers it)"
  using assms(1)
proof (induction items arbitrary: sel)
  case (Cons it items)
  have IH: "\<exists>sel'. selectItems n s (map showSel items) = Inr sel' \<and> set sel' = set s \<union> (\<Union>it \<in> set items. selMembers it)" for s
    using Cons by simp
  show ?case
  proof (cases it)
    case (SelOne i)
    with Cons.prems have i: "1 \<le> i" "i \<le> n" by auto
    then have "Atoi (Itoa i) = Some i" using assms(2) by (intro Atoi_Itoa) (simp add: isInt64_def)
    with i SelOne IH[of "List.insert i sel"] dash_notin_Itoa[of i] show ?thesis
      by (auto simp: Cut_notin)
  next
    case (SelRange a b)
    with Cons.prems have ab: "1 \<le> a" "a \<le> b" "b \<le> n" by auto
    then have at: "Atoi (Itoa a) = Some a" "Atoi (Itoa b) = Some b"
      using assms(2) by (auto intro!: Atoi_Itoa simp: isInt64_def)
    have tr: "TrimSpace (Itoa a @ CHR ''-'' # Itoa b) = Itoa a @ CHR ''-'' # Itoa b"
      using showSel_trim[of "SelRange a b"] by simp
    have "selectItems n sel (map showSel (it # items)) = selectItems n (fold List.insert (intRange a b) sel) (map showSel items)"
      using ab at tr SelRange by (simp add: Cut_found dash_notin_Itoa)
    with SelRange IH[of "fold List.insert (intRange a b) sel"] show ?thesis
      by (auto simp: intRange_def)
  qed
qed simp

lemma selectItems_step:
  "selectItems n sel (raw # raws) = Inr sel' \<Longrightarrow> \<exists>s. selectItems n s raws = Inr sel' \<and> set s \<subseteq> set sel \<union> {1..n}"
  by (auto simp: Let_def intRange_def split: if_splits option.splits prod.splits) (rule exI, erule conjI, auto)+

lemma selectItems_range:
  "selectItems n sel raws = Inr sel' \<Longrightarrow> set sel \<subseteq> {1..n} \<Longrightarrow> set sel' \<subseteq> {1..n}"
proof (induction raws arbitrary: sel)
  case (Cons raw raws)
  from selectItems_step[OF Cons.prems(1)] Cons.prems(2) Cons.IH show ?case by blast
qed simp

text \<open>A \<open>select-file\<close> value selects what it says: a comma separated list of indexes and
  ranges within the torrent selects exactly the named files. And whatever is accepted selects only
  existing files.\<close>

theorem selectedFileSet_spec:
  assumes "items \<noteq> []" "\<forall>it \<in> set items. selOk n it" "n \<le> MaxInt64"
  shows "(\<exists>sel. selectedFileSet n (Join (map showSel items) '','') = Inr sel \<and> set sel = (\<Union>it \<in> set items. selMembers it))
    \<and> (\<forall>spec sel. selectedFileSet n spec = Inr sel \<longrightarrow> set sel \<subseteq> {1..n})"
proof -
  have pl: "plainByte (CHR '','')" by (simp add: plainByte_def asciiSpace_def)
  have "list_all plainByte (Join xs '','')" if "\<forall>x \<in> set xs. list_all plainByte x" for xs
    using that pl by (induction xs "'',''" rule: Join.induct) auto
  then have "TrimSpace (Join (map showSel items) '','') = Join (map showSel items) '',''"
    by (intro TrimSpace_plain) (simp add: showSel_plain)
  moreover have sp: "Split (Join (map showSel items) '','') (CHR '','') = map showSel items"
    using assms(1) by (intro Split_Join) (auto simp: comma_notin_showSel)
  moreover have "Join (map showSel items) '','' \<noteq> []"
    using sp assms(1) showSel_nonempty by (cases items) (auto simp del: showSel_nonempty, metis showSel_nonempty)
  ultimately have "\<exists>sel. selectedFileSet n (Join (map showSel items) '','') = Inr sel \<and> set sel = (\<Union>it \<in> set items. selMembers it)"
    using selectItems_showSel[OF assms(2,3), of "[]"] by (simp add: selectedFileSet_def)
  moreover have "set sel \<subseteq> {1..n}" if "selectedFileSet n spec = Inr sel" for spec sel
    using that selectItems_range[of n "[]"] by (auto simp: selectedFileSet_def intRange_def split: if_splits)
  ultimately show ?thesis by blast
qed

theorem selectedFileSet_spec_witness:
  "\<exists>sel. selectedFileSet 9 ''1-3,7'' = Inr sel \<and> set sel = {1, 2, 3, 7}"
proof -
  have "Join (map showSel [SelRange 1 3, SelOne 7]) '','' = ''1-3,7''" by code_simp
  moreover have "(\<Union>it \<in> set [SelRange 1 3, SelOne 7]. selMembers it) = {1, 2, 3, 7}" by auto
  ultimately show ?thesis using selectedFileSet_spec[of "[SelRange 1 3, SelOne 7]" 9] by simp
qed

section \<open>Web seeds\<close>

lemma appendUniqueAll_spec:
  "distinct urls \<Longrightarrow> length urls \<le> maxTorrentWebSeeds \<Longrightarrow>
   (case appendUniqueAll urls raws of
      Inr out \<Rightarrow> distinct out \<and> set out = set urls \<union> set raws \<and> length out \<le> maxTorrentWebSeeds \<and> prefix urls out
    | Inl _ \<Rightarrow> card (set urls \<union> set raws) > maxTorrentWebSeeds)"
proof (induction urls raws rule: appendUniqueAll.induct)
  case (2 urls raw raws)
  show ?case
  proof (cases "raw \<in> set urls")
    case True
    then have "set urls \<union> set (raw # raws) = set urls \<union> set raws" by auto
    then show ?thesis using True 2(1)[OF True 2(3,4)] by (simp split: sum.splits)
  next
    case False
    show ?thesis
    proof (cases "length urls \<ge> maxTorrentWebSeeds")
      case True
      have "card (insert raw (set urls)) \<le> card (set urls \<union> set (raw # raws))"
        by (rule card_mono) auto
      with True False 2(3) show ?thesis by (simp add: distinct_card)
    next
      case le: False
      with False 2(2)[OF False] 2(3) show ?thesis
        by (auto split: sum.splits dest: append_prefixD)
    qed
  qed
qed simp

text \<open>The web seeds of a torrent are the embedded and the added URLs without repetition, at
  most 64; the list is refused only when there are more distinct URLs.\<close>

theorem mergeTorrentWebSeedURLs_spec:
  "case mergeTorrentWebSeedURLs embedded uris of
     Inr urls \<Rightarrow> distinct urls \<and> set urls = set embedded \<union> uURI ` set uris \<and> length urls \<le> maxTorrentWebSeeds
   | Inl _ \<Rightarrow> card (set embedded \<union> uURI ` set uris) > maxTorrentWebSeeds"
  using appendUniqueAll_spec[of "[]" "embedded @ map uURI uris"]
  by (auto simp: mergeTorrentWebSeedURLs_def split: sum.splits)

end
