(* ===== verification/Torrent_Meta.thy ===== *)
theory Torrent_Meta
  imports Torrent_Files
begin

text \<open>
  Validation of torrent metadata and construction of torrent downloads (torrent_download.go). The
  functions of the torrent library are the fields of \<open>torrentLib\<close>: parsing of metainfo bytes and
  magnet links, the storage layout, SHA-256 and the Merkle functions. A hash is a byte string.
\<close>

record MetaInfo =
  miPieceLayers :: "(string \<times> string) list"
  miUrlList :: "string list"
  miAnnounceList :: "string list list"
  miComment :: string
  miCreationDate :: int
  miInfoHash :: string
  miShortV2Hash :: string

record TorrentSpec =
  tsWebseeds :: "string list"
  tsDisplayName :: string
  tsInfoHash :: string
  tsShortV2Hash :: "string option"

record torrentLib =
  tlParseMetaInfoBytes :: "string \<Rightarrow> (MetaInfo \<times> Info) res"
  tlSpecFromMagnet :: "string \<Rightarrow> TorrentSpec res"
  tlPlanFiles :: planner
  tlSum256 :: "string \<Rightarrow> string"
  tlCompactLayer :: "string \<Rightarrow> string list res"
  tlRootWithPadHash :: "string list \<Rightarrow> string \<Rightarrow> string"

definition hashSize :: int where "hashSize = 20"
definition maxTorrentProtocolPieceLength :: int where "maxTorrentProtocolPieceLength = 4294967295"

definition zeroHash :: string where "zeroHash = replicate 20 (CHR 0x00)"

section \<open>Lengths\<close>

fun sumLengths :: "int \<Rightarrow> (string list \<times> int) list \<Rightarrow> int res" where
  "sumLengths tot [] = Inr tot"
| "sumLengths tot ((p, len) # files) =
     (if len < 0 then Inl (Errorf ''file %q has negative length %d'' [Join p ''/'', Itoa len])
      else if len > MaxInt64 - tot then Inl (Errorf ''torrent file lengths overflow int64'' [])
      else sumLengths (tot + len) files)"

definition v1TorrentLength :: "Info \<Rightarrow> int res" where
  "v1TorrentLength info =
     (if iLength info < 0 then Inl (Errorf ''negative torrent length %d'' [Itoa (iLength info)])
      else if iFiles info = [] then Inr (iLength info)
      else sumLengths 0 (map (\<lambda>f. (fiBestPath f, fiLength f)) (iFiles info)))"

text \<open>The callback of \<open>v2TorrentLength\<close> skips directories and stops working after an error, so the
  walk is the loop over the files of the tree.\<close>

definition treeFiles :: "treeNode list \<Rightarrow> treeNode list" where
  "treeFiles tree = filter (\<lambda>n. \<not> tnIsDir n) tree"

definition v2TorrentLength :: "treeNode list \<Rightarrow> int res" where
  "v2TorrentLength tree = sumLengths 0 (map (\<lambda>n. (tnPath n, tnLength n)) (treeFiles tree))"

fun geometryLoop :: "int \<Rightarrow> int \<Rightarrow> int \<Rightarrow> treeNode list \<Rightarrow> int res" where
  "geometryLoop pieceLength pieces paddedLength [] = Inr pieces"
| "geometryLoop pieceLength pieces paddedLength (node # nodes) =
     (if tnLength node < 0
      then Inl (Errorf ''file %q has negative length %d'' [Join (tnPath node) ''/'', Itoa (tnLength node)])
      else
        (let filePieces = ceilDivInt64 (tnLength node) pieceLength in
         if filePieces > maxTorrentPieceCount - pieces
         then Inl (Errorf ''torrent has more than %d pieces at file %q'' [Itoa maxTorrentPieceCount, Join (tnPath node) ''/''])
         else if filePieces > MaxInt64 div pieceLength
         then Inl (Errorf ''padded v2 file length overflows int64 at file %q'' [Join (tnPath node) ''/''])
         else
           (let fileSpan = filePieces * pieceLength in
            if fileSpan > MaxInt64 - paddedLength
            then Inl (Errorf ''padded v2 torrent length overflows int64 at file %q'' [Join (tnPath node) ''/''])
            else geometryLoop pieceLength (pieces + filePieces) (paddedLength + fileSpan) nodes)))"

definition validateV2TorrentGeometry :: "treeNode list \<Rightarrow> int \<Rightarrow> int res" where
  "validateV2TorrentGeometry tree pieceLength =
     (if pieceLength \<le> 0 then Inl (Errorf ''invalid v2 piece length %d'' [Itoa pieceLength])
      else geometryLoop pieceLength 0 0 (treeFiles tree))"

definition torrentInfoPieceCount :: "Info \<Rightarrow> int res" where
  "torrentInfoPieceCount info =
     (if iHasV2 info then validateV2TorrentGeometry (iFileTree info) (iPieceLength info)
      else Inr (iPiecesLen info div hashSize))"

section \<open>Validation\<close>

definition equalTorrentPath :: "string list \<Rightarrow> string list \<Rightarrow> bool" where
  "equalTorrentPath left right \<longleftrightarrow> left = right"

fun hybridLoop :: "Info \<Rightarrow> nat \<Rightarrow> (fileInfo \<times> fileInfo) list \<Rightarrow> unit res" where
  "hybridLoop info i [] = Inr ()"
| "hybridLoop info i ((f1, f2) # fs) =
     (let v1Path = (if iFiles info = [] \<and> fiBestPath f1 = [] then [iBestName info] else fiBestPath f1);
          v2Path = fiBestPath f2 in
      if \<not> equalTorrentPath v1Path v2Path
      then Inl (Errorf ''hybrid file %d paths differ: v1 %q, v2 %q'' [Itoa (int i + 1), Join v1Path ''/'', Join v2Path ''/''])
      else if fiLength f1 \<noteq> fiLength f2
      then Inl (Errorf ''hybrid file %q lengths differ: v1 %d, v2 %d'' [Join v2Path ''/'', Itoa (fiLength f1), Itoa (fiLength f2)])
      else if fiTorrentOffset f1 \<noteq> fiTorrentOffset f2
      then Inl (Errorf ''hybrid file %q offsets differ: v1 %d, v2 %d''
             [Join v2Path ''/'', Itoa (fiTorrentOffset f1), Itoa (fiTorrentOffset f2)])
      else hybridLoop info (Suc i) fs)"

definition validateHybridTorrentLayout :: "Info \<Rightarrow> unit res" where
  "validateHybridTorrentLayout info =
     (let v1Files = filter (\<lambda>f. \<not> ContainsByte (fiAttr f) (CHR ''p'')) (iUpvertedV1Files info);
          v2Files = iUpvertedFiles info in
      if length v1Files \<noteq> length v2Files
      then Inl (Errorf ''hybrid file counts differ: v1 has %d, v2 has %d''
             [Itoa (int (length v1Files)), Itoa (int (length v2Files))])
      else hybridLoop info 0 (zip v1Files v2Files))"

text \<open>\<open>n&(n-1) != 0\<close> on a positive \<open>int64\<close>.\<close>

definition notPowerOfTwo :: "int \<Rightarrow> bool" where
  "notPowerOfTwo n \<longleftrightarrow> n AND (n - 1) \<noteq> 0"

definition validateTorrentInfo :: "Info \<Rightarrow> unit res" where
  "validateTorrentInfo info =
     (if iPiecesLen info mod hashSize \<noteq> 0 then Inl (Errorf ''pieces has invalid length'' [])
      else
        bindR (v1TorrentLength info) (\<lambda>v1Total.
        bindR (if iHasV2 info
               then (case iFileTreeValid info of
                       Inl er \<Rightarrow> Inl (ErrWrap ''bad v2 file tree: %w'' er)
                     | Inr _ \<Rightarrow> v2TorrentLength (iFileTree info))
               else Inr v1Total) (\<lambda>tot.
          if iPieceLength info \<le> 0 then
            (if iPieceLength info < 0 \<or> tot \<noteq> 0 \<or> iPiecesLen info \<noteq> 0 \<or> iHasV2 info
             then Inl (Errorf ''invalid piece length %d'' [Itoa (iPieceLength info)])
             else Inr ())
          else if iPieceLength info > maxTorrentProtocolPieceLength
          then Inl (Errorf ''piece length %d exceeds peer protocol limit'' [Itoa (iPieceLength info)])
          else if iHasV2 info \<and> (iPieceLength info < 16384 \<or> notPowerOfTwo (iPieceLength info))
          then Inl (Errorf ''invalid v2 piece length %d'' [Itoa (iPieceLength info)])
          else
            (let v1Pieces = iPiecesLen info div hashSize in
             if iHasV1 info \<and> ceilDivInt64 v1Total (iPieceLength info) \<noteq> v1Pieces
             then Inl (Errorf ''piece count and file lengths are at odds'' [])
             else if iHasV1 info \<and> v1Pieces > maxTorrentPieceCount
             then Inl (Errorf ''torrent has %d pieces, limit is %d'' [Itoa v1Pieces, Itoa maxTorrentPieceCount])
             else if iHasV2 info then
               bindR (torrentInfoPieceCount info) (\<lambda>v2Pieces.
                 if iHasV1 info then
                   (if v1Pieces \<noteq> v2Pieces
                    then Inl (Errorf ''hybrid piece counts differ: v1 has %d, v2 has %d'' [Itoa v1Pieces, Itoa v2Pieces])
                    else validateHybridTorrentLayout info)
                 else Inr ())
             else Inr ()))))"

section \<open>Piece layers\<close>

text \<open>\<open>torrentPiecePadHash\<close>: the block size of the Merkle tree is 16 KiB.\<close>

function padLoop :: "(string \<Rightarrow> string) \<Rightarrow> int \<Rightarrow> string \<Rightarrow> string" where
  "padLoop sum256 blocks hash = (if blocks > 1 then padLoop sum256 (blocks div 2) (sum256 (hash @ hash)) else hash)"
  by pat_completeness auto
termination
  by (relation "measure (\<lambda>(s, b, h). nat b)") auto

declare padLoop.simps [simp del]

definition torrentPiecePadHash :: "torrentLib \<Rightarrow> int \<Rightarrow> string" where
  "torrentPiecePadHash lib pieceLength = padLoop (tlSum256 lib) (pieceLength div 16384) (replicate 32 (CHR 0x00))"

fun layerLoop ::
    "torrentLib \<Rightarrow> (string \<times> string) list \<Rightarrow> int \<Rightarrow> string \<Rightarrow> string list \<Rightarrow> treeNode list \<Rightarrow> string list res" where
  "layerLoop lib layers pieceLength padHash validated [] = Inr validated"
| "layerLoop lib layers pieceLength padHash validated (node # nodes) =
     (case tnPiecesRoot node of
        None \<Rightarrow> layerLoop lib layers pieceLength padHash validated nodes
      | Some root \<Rightarrow>
         (let expectedHashes = ceilDivInt64 (tnLength node) pieceLength; name = Join (tnPath node) ''/'' in
          if expectedHashes \<le> 1 then
            (if map_of layers root \<noteq> None then Inl (Errorf ''unexpected piece layer for file %q'' [name])
             else layerLoop lib layers pieceLength padHash validated nodes)
          else
            (case map_of layers root of
               None \<Rightarrow> Inl (Errorf ''no piece layers for file %q'' [name])
             | Some layer \<Rightarrow>
                (let expectedBytes = wrap64 (expectedHashes * 32) in
                 if int (length layer) \<noteq> expectedBytes
                 then Inl (Errorf ''file %q piece layer has %d bytes, expected %d''
                        [name, Itoa (int (length layer)), Itoa expectedBytes])
                 else if root \<in> set validated then layerLoop lib layers pieceLength padHash validated nodes
                 else
                   (case tlCompactLayer lib layer of
                      Inl er \<Rightarrow> Inl (ErrWrap ''file %q: %w'' er)
                    | Inr hashes \<Rightarrow>
                       (if tlRootWithPadHash lib hashes padHash \<noteq> root
                        then Inl (Errorf ''file %q: expected hash %x got %x'' [name, root, tlRootWithPadHash lib hashes padHash])
                        else layerLoop lib layers pieceLength padHash (root # validated) nodes))))))"

definition validateTorrentPieceLayers :: "torrentLib \<Rightarrow> (string \<times> string) list \<Rightarrow> Info \<Rightarrow> unit res" where
  "validateTorrentPieceLayers lib layers info =
     bindR (layerLoop lib layers (iPieceLength info) (torrentPiecePadHash lib (iPieceLength info)) [] (treeFiles (iFileTree info)))
       (\<lambda>validated.
         (case filter (\<lambda>root. root \<notin> set validated) (map fst layers) of
            root # _ \<Rightarrow> Inl (Errorf ''piece layer root %x is not referenced by the file tree'' [root])
          | [] \<Rightarrow> Inr ()))"

definition torrentMetaInfo :: "torrentLib \<Rightarrow> string \<Rightarrow> (MetaInfo \<times> Info) res" where
  "torrentMetaInfo lib dat =
     (case tlParseMetaInfoBytes lib dat of
        Inl er \<Rightarrow> Inl (ErrWrap ''invalid torrent metainfo: %w'' er)
      | Inr (mi, info) \<Rightarrow>
         (case validateTorrentInfo info of
            Inl er \<Rightarrow> Inl (ErrWrap ''invalid torrent metainfo: %w'' er)
          | Inr _ \<Rightarrow>
             (if iHasV2 info then
                (case validateTorrentPieceLayers lib (miPieceLayers mi) info of
                   Inl er \<Rightarrow> Inl (ErrWrap ''invalid torrent metainfo: bad v2 piece layers: %w'' er)
                 | Inr _ \<Rightarrow> Inr (mi, info))
              else Inr (mi, info))))"

definition validateRefreshedTorrentMetadata :: "torrentLib \<Rightarrow> MetaInfo \<Rightarrow> Info \<Rightarrow> bool \<Rightarrow> unit res" where
  "validateRefreshedTorrentMetadata lib mi info magnet =
     (case validateTorrentInfo info of
        Inl er \<Rightarrow> Inl (ErrWrap ''invalid torrent metadata: %w'' er)
      | Inr _ \<Rightarrow>
         (if iHasV2 info \<and> \<not> magnet then
            (case validateTorrentPieceLayers lib (miPieceLayers mi) info of
               Inl er \<Rightarrow> Inl (ErrWrap ''invalid torrent metadata: bad v2 piece layers: %w'' er)
             | Inr _ \<Rightarrow> Inr ())
          else Inr ()))"

section \<open>Construction\<close>

definition canonicalTorrentSpecInfoHash :: "TorrentSpec \<Rightarrow> string" where
  "canonicalTorrentSpecInfoHash spec =
     (if tsInfoHash spec \<noteq> zeroHash then tsInfoHash spec
      else case tsShortV2Hash spec of Some h \<Rightarrow> h | None \<Rightarrow> zeroHash)"

definition ensureTorrentSpecShortInfoHash :: "TorrentSpec \<Rightarrow> TorrentSpec" where
  "ensureTorrentSpecShortInfoHash spec =
     (case tsShortV2Hash spec of
        Some h \<Rightarrow> (if tsInfoHash spec = zeroHash then spec\<lparr>tsInfoHash := h, tsShortV2Hash := None\<rparr> else spec)
      | None \<Rightarrow> spec)"

definition canonicalTorrentMetaInfoHash :: "MetaInfo option \<Rightarrow> Info \<Rightarrow> string" where
  "canonicalTorrentMetaInfoHash mi info =
     (case mi of None \<Rightarrow> zeroHash | Some m \<Rightarrow> if iHasV1 info then miInfoHash m else miShortV2Hash m)"

definition hexString :: "string \<Rightarrow> string" where
  "hexString h = hexEncode (map of_char h)"

definition bittorrentInfoOf :: "MetaInfo option \<Rightarrow> Info \<Rightarrow> bittorrentInfo" where
  "bittorrentInfoOf mi info =
     \<lparr>btAnnounceList = (case mi of None \<Rightarrow> [] | Some m \<Rightarrow> miAnnounceList m),
      btComment = (case mi of None \<Rightarrow> '''' | Some m \<Rightarrow> miComment m),
      btCreationDate = (case mi of None \<Rightarrow> 0 | Some m \<Rightarrow> miCreationDate m),
      btMode = (if iFiles info \<noteq> [] \<or> iHasV2 info \<and> iIsDir info then ''multi'' else ''single''),
      btName = iBestName info\<rparr>"

text \<open>The URI list of a new download: the first one in use.\<close>

definition uriInfos :: "string list \<Rightarrow> uriInfo list" where
  "uriInfos uris = map (\<lambda>(i, raw). \<lparr>uURI = raw, uStatus = (if i = 0 then URIStatusUsed else URIStatusWaiting)\<rparr>)
     (zip [0..<length uris] uris)"

definition newTorrentDownload ::
    "torrentLib \<Rightarrow> (string \<Rightarrow> string res) \<Rightarrow> int \<Rightarrow> string \<Rightarrow> string \<Rightarrow> string \<Rightarrow> string list \<Rightarrow> options
      \<Rightarrow> MetaInfo option \<Rightarrow> Info \<Rightarrow> Download res" where
  "newTorrentDownload lib rkey now gid dat magnet uris opts mi info =
     (case validateTorrentInfo info of
        Inl er \<Rightarrow> Inl (ErrWrap ''invalid torrent metadata: %w'' er)
      | Inr _ \<Rightarrow>
     (case torrentInfoPieceCount info of
        Inl er \<Rightarrow> Inl (ErrWrap ''invalid torrent metadata: %w'' er)
      | Inr numPieces \<Rightarrow>
         (let infos = uriInfos uris in
          bindR (case mi of None \<Rightarrow> Inr [] | Some m \<Rightarrow> mergeTorrentWebSeedURLs (miUrlList m) infos) (\<lambda>_.
            (let dir = (if optionString opts ''dir'' = '''' then ''.'' else optionString opts ''dir'');
                 infoHash = canonicalTorrentMetaInfoHash mi info;
                 layoutOpts = (if magnet \<noteq> '''' \<and> mi = None then [] else opts) in
             bindR (torrentFileStates rkey (tlPlanFiles lib) info infoHash layoutOpts dir) (\<lambda>files.
               Inr (zeroDownload\<lparr>dKind := downloadKindTorrent, dGid := gid, dUris := infos, dOptions := opts,
                 dStatus := StatusWaiting, dDir := dir, dTotalLength := torrentSelectedLength files,
                 dPieceLength := iPieceLength info, dNumPieces := numPieces, dTorrentFiles := files,
                 dTorrentData := dat, dTorrentMagnet := magnet, dBittorrent := Some (bittorrentInfoOf mi info),
                 dCreatedAt := now, dInfoHash := (if mi \<noteq> None then hexString infoHash else ''''),
                 dBitfield := unknownTorrentBitfield numPieces\<rparr>)))))))"

text \<open>\<open>metainfo.Info{Name: name}\<close>: no files, no pieces. What the library's methods return for it is
  the parameter \<open>emptyInfo\<close>.\<close>

definition newMagnetDownload ::
    "torrentLib \<Rightarrow> (string \<Rightarrow> Info) \<Rightarrow> (string \<Rightarrow> string res) \<Rightarrow> int \<Rightarrow> string \<Rightarrow> string \<Rightarrow> string list \<Rightarrow> options \<Rightarrow> Download res" where
  "newMagnetDownload lib emptyInfo rkey now gid raw uris opts =
     bindR (tlSpecFromMagnet lib raw) (\<lambda>spec.
     bindR (mergeTorrentWebSeedURLs (tsWebseeds spec) (map (\<lambda>u. \<lparr>uURI = u, uStatus = URIStatusWaiting\<rparr>) uris)) (\<lambda>_.
     bindR (newTorrentDownload lib rkey now gid '''' raw uris opts None (emptyInfo (tsDisplayName spec))) (\<lambda>d.
     Inr (d\<lparr>dInfoHash := hexString (canonicalTorrentSpecInfoHash spec)\<rparr>))))"

text \<open>\<open>Download.metadataInfoLocked\<close>; \<open>live\<close> is what the running torrent, if any, returns.\<close>

definition metadataInfoLocked :: "torrentLib \<Rightarrow> Info option res \<Rightarrow> Download \<Rightarrow> Info option res" where
  "metadataInfoLocked lib live d =
     (if dTorrentData d \<noteq> '''' then
        (if dTorrentMagnet d \<noteq> '''' then
           (case tlParseMetaInfoBytes lib (dTorrentData d) of
              Inl er \<Rightarrow> Inl (ErrWrap ''invalid cached magnet metadata: %w'' er)
            | Inr (_, parsed) \<Rightarrow>
               (case validateTorrentInfo parsed of
                  Inl er \<Rightarrow> Inl (ErrWrap ''invalid cached magnet metadata: %w'' er)
                | Inr _ \<Rightarrow> Inr (Some parsed)))
         else bindR (torrentMetaInfo lib (dTorrentData d)) (\<lambda>(_, info). Inr (Some info)))
      else
        (case dTorrent d of
           Some r \<Rightarrow> (if rtTorrent r then live else Inr None)
         | None \<Rightarrow> Inr None))"

text \<open>\<open>refreshTorrentMetadata\<close>: \<open>mi\<close> and \<open>info\<close> are what the live torrent returns, \<open>runs\<close> its
  piece states, \<open>h\<close> its info hash and \<open>enc\<close> the encoding of \<open>mi\<close> (\<open>None\<close> when encoding fails).\<close>

definition refreshTorrentMetadata ::
    "torrentLib \<Rightarrow> (string \<Rightarrow> string res) \<Rightarrow> MetaInfo \<Rightarrow> Info res \<Rightarrow> pieceRun list \<Rightarrow> string \<Rightarrow> string option
      \<Rightarrow> Download \<Rightarrow> Download res" where
  "refreshTorrentMetadata lib rkey mi unmarshal runs h enc d =
     bindR unmarshal (\<lambda>info.
     bindR (validateRefreshedTorrentMetadata lib mi info (dTorrentMagnet d \<noteq> '''')) (\<lambda>_.
     (case torrentInfoPieceCount info of
        Inl er \<Rightarrow> Inl (ErrWrap ''invalid torrent metadata: %w'' er)
      | Inr numPieces \<Rightarrow>
         bindR (torrentSelectionAndIndexOut info (dOptions d)) (\<lambda>_.
         bindR (torrentFileStates rkey (tlPlanFiles lib) info h (dOptions d) (dDir d)) (\<lambda>files0.
         bindR (validateTorrentFinalizedIndexes files0 (dTorrentFinalized d)) (\<lambda>_.
           (let (files, tot, completed) = torrentFileStateProgress files0 (dTorrentFinalized d);
                (donePieces, bitfield) = torrentPieceProgress runs in
            Inr (d\<lparr>dInfoHash := hexString h, dPieceLength := iPieceLength info, dNumPieces := numPieces,
                   dBittorrent := Some (bittorrentInfoOf (Some mi) info), dTorrentFiles := files,
                   dTotalLength := tot, dCompletedLen := completed, dDonePieces := donePieces,
                   dBitfield := bitfield,
                   dTorrentData := (if dTorrentData d = '''' then (case enc of None \<Rightarrow> '''' | Some b \<Rightarrow> b)
                                    else dTorrentData d)\<rparr>))))))))"

section \<open>Metadata that is accepted\<close>

lemma sumLengths_Inr:
  "sumLengths tot fs = Inr n \<Longrightarrow> 0 \<le> tot \<Longrightarrow> tot \<le> MaxInt64 \<Longrightarrow>
   n = tot + sum_list (map snd fs) \<and> n \<le> MaxInt64 \<and> (\<forall>l \<in> snd ` set fs. 0 \<le> l)"
proof (induction tot fs rule: sumLengths.induct)
  case (2 tot p len files)
  then have c: "\<not> len < 0" "\<not> len > MaxInt64 - tot" by (auto split: if_splits)
  with 2 show ?case by auto
qed simp

lemma geometryLoop_Inr:
  assumes "geometryLoop pl pieces padded nodes = Inr n" "0 < pl" "pieces \<le> maxTorrentPieceCount"
    "padded = pieces * pl" "padded \<le> MaxInt64"
  shows "n = pieces + sum_list (map (\<lambda>x. ceilDivInt64 (tnLength x) pl) nodes) \<and> n \<le> maxTorrentPieceCount
    \<and> n * pl \<le> MaxInt64 \<and> (\<forall>x \<in> set nodes. 0 \<le> tnLength x)"
  using assms
proof (induction pl pieces padded nodes rule: geometryLoop.induct)
  case (2 pl pieces padded node nodes)
  let ?f = "ceilDivInt64 (tnLength node) pl"
  have c: "\<not> tnLength node < 0" "\<not> ?f > maxTorrentPieceCount - pieces" "\<not> ?f > MaxInt64 div pl"
    "\<not> ?f * pl > MaxInt64 - padded" and g: "geometryLoop pl (pieces + ?f) (padded + ?f * pl) nodes = Inr n"
    using 2(2) by (auto simp: Let_def split: if_splits)
  from 2(1)[OF c(1) refl c(2,3) refl c(4) g] 2(3-) c show ?case by (auto simp: algebra_simps)
qed simp

lemma v1TorrentLength_Inr:
  assumes "v1TorrentLength info = Inr n" "iLength info \<le> MaxInt64"
  shows "0 \<le> n \<and> n \<le> MaxInt64 \<and> n = (if iFiles info = [] then iLength info else sum_list (map fiLength (iFiles info)))"
proof (cases "iFiles info = []")
  case True
  with assms show ?thesis by (auto simp: v1TorrentLength_def split: if_splits)
next
  case False
  let ?fs = "map (\<lambda>f. (fiBestPath f, fiLength f)) (iFiles info)"
  from False assms have "sumLengths 0 ?fs = Inr n" by (auto simp: v1TorrentLength_def split: if_splits)
  from sumLengths_Inr[OF this] have s: "n = sum_list (map fiLength (iFiles info))" "n \<le> MaxInt64"
    "\<forall>l \<in> set (map fiLength (iFiles info)). 0 \<le> l" by (auto simp: comp_def)
  from sum_list_nonneg_int[OF s(3)] s(1,2) False show ?thesis by simp
qed

text \<open>C38: Accepted metadata has a consistent geometry: the piece count is the one the file lengths
  and the piece length give (over the whole data for version 1, file by file for version 2), it is at
  most 2^20, and the padded length does not overflow an \<open>int64\<close>.\<close>

theorem validateTorrentInfo_geometry:
  assumes "validateTorrentInfo info = Inr ()" "0 < iPieceLength info" "iHasV1 info \<or> iHasV2 info" "iLength info \<le> MaxInt64"
  shows "\<exists>n. torrentInfoPieceCount info = Inr n \<and> n \<le> maxTorrentPieceCount
    \<and> (iHasV1 info \<longrightarrow> n = ceilDivInt64 (if iFiles info = [] then iLength info else sum_list (map fiLength (iFiles info)))
                            (iPieceLength info))
    \<and> (iHasV2 info \<longrightarrow> n = sum_list (map (\<lambda>x. ceilDivInt64 (tnLength x) (iPieceLength info)) (treeFiles (iFileTree info)))
        \<and> n * iPieceLength info \<le> MaxInt64)"
proof -
  obtain v1 where v1: "v1TorrentLength info = Inr v1"
    using assms(1) by (cases "v1TorrentLength info") (auto simp: validateTorrentInfo_def split: if_splits)
  have v1c: "iHasV1 info \<Longrightarrow> ceilDivInt64 v1 (iPieceLength info) = iPiecesLen info div hashSize
      \<and> iPiecesLen info div hashSize \<le> maxTorrentPieceCount"
    using assms(1,2) v1 by (auto simp: validateTorrentInfo_def bindR_eq_Inr Let_def split: if_splits)
  note len = v1TorrentLength_Inr[OF v1 assms(4)]
  show ?thesis
  proof (cases "iHasV2 info")
    case True
    obtain n where n: "torrentInfoPieceCount info = Inr n" and eq: "iHasV1 info \<Longrightarrow> n = iPiecesLen info div hashSize"
      using assms(1,2) True by (auto simp: validateTorrentInfo_def bindR_eq_Inr Let_def split: if_splits)
    then have "geometryLoop (iPieceLength info) 0 0 (treeFiles (iFileTree info)) = Inr n"
      using True assms(2) by (simp add: torrentInfoPieceCount_def validateV2TorrentGeometry_def)
    from geometryLoop_Inr[OF this assms(2)] n eq v1c len show ?thesis by (auto simp: maxTorrentPieceCount_def)
  next
    case False
    with assms(3) v1c len show ?thesis by (auto simp: torrentInfoPieceCount_def)
  qed
qed

definition v1Example :: Info where
  "v1Example = exampleInfo\<lparr>iLength := 3\<rparr>"

theorem validateTorrentInfo_geometry_witness:
  "\<exists>n. torrentInfoPieceCount v1Example = Inr n \<and> n = ceilDivInt64 3 16384"
proof -
  have v: "validateTorrentInfo v1Example = Inr ()"
    by (simp add: validateTorrentInfo_def v1Example_def exampleInfo_def hashSize_def v1TorrentLength_def
        maxTorrentProtocolPieceLength_def maxTorrentPieceCount_def ceilDivInt64_def Let_def)
  show ?thesis using validateTorrentInfo_geometry[OF v] by (simp add: v1Example_def exampleInfo_def)
qed

section \<open>A new torrent download\<close>

lemma torrentSelectedLength_exact:
  assumes "lengthsOk files" shows "torrentSelectedLength files = selectedSum tfLength files"
proof -
  have "fold (\<lambda>f tot. if tfSelected f then wrap64 (tot + tfLength f) else tot) files t = t + selectedSum tfLength files"
    if "\<forall>f \<in> set files. 0 \<le> tfLength f" "0 \<le> t" "t + sum_list (map tfLength files) \<le> MaxInt64" for t
    using that
  proof (induction files arbitrary: t)
    case (Cons f fs)
    have "0 \<le> sum_list (map tfLength fs)" using Cons.prems(1) by (intro sum_list_nonneg_int) auto
    with Cons.prems have "wrap64 (t + tfLength f) = t + tfLength f" by (intro wrap64_nonneg_id) auto
    with Cons show ?case by (auto simp: selectedSum_def)
  qed (simp add: selectedSum_def)
  from this[of 0] assms show ?thesis by (simp add: torrentSelectedLength_def lengthsOk_def)
qed

lemma planStates_fields:
  "planStates rkey cd sel files = Inr states \<Longrightarrow>
   map tfLength states = map pfLength files \<and> (\<forall>f \<in> set states. tfCompleted f = 0)"
  by (induction files arbitrary: states) (auto simp: bindR_eq_Inr split: if_splits)

text \<open>A new torrent download starts with exact accounting: nothing completed, no file
  finalized, the total length the sum over the selected files. The hypothesis is what the storage
  layout promises: planned files have non-negative lengths whose sum fits an \<open>int64\<close>.\<close>

theorem newTorrentDownload_exact:
  assumes "newTorrentDownload lib rkey now gid dat magnet uris opts mi info = Inr d"
    and "\<And>dir op i h plan. tlPlanFiles lib dir op i h = Inr plan \<Longrightarrow>
          (\<forall>f \<in> set (plFiles plan). 0 \<le> pfLength f) \<and> sum_list (map pfLength (plFiles plan)) \<le> MaxInt64"
  shows "torrentInv d \<and> dCompletedLen d = 0 \<and> dTorrentFinalized d = [] \<and> dGid d = gid \<and> dStatus d = StatusWaiting
    \<and> length (dUris d) = length uris"
proof -
  let ?dir = "if optionString opts ''dir'' = '''' then ''.'' else optionString opts ''dir''"
  let ?lo = "if magnet \<noteq> '''' \<and> mi = None then [] else opts"
  obtain files where f: "torrentFileStates rkey (tlPlanFiles lib) info (canonicalTorrentMetaInfoHash mi info) ?lo ?dir = Inr files"
    and d: "dTorrentFiles d = files" "dTotalLength d = torrentSelectedLength files" "dCompletedLen d = 0"
      "dTorrentFinalized d = []" "dGid d = gid" "dStatus d = StatusWaiting" "dUris d = uriInfos uris"
    using assms(1) by (auto simp: newTorrentDownload_def bindR_eq_Inr Let_def zeroDownload_def split: sum.splits)
  then obtain plan cd sel where p: "tlPlanFiles lib ?dir ?lo info (canonicalTorrentMetaInfoHash mi info) = Inr plan"
    and s: "planStates rkey cd sel (plFiles plan) = Inr files"
    by (auto simp: torrentFileStates_def bindR_eq_Inr)
  have ok: "lengthsOk files" using planStates_fields[OF s] assms(2)[OF p] by (simp add: lengthsOk_map)
  have c: "\<forall>f \<in> set files. tfCompleted f = 0" using planStates_fields[OF s] by simp
  have "selectedSum tfCompleted files = 0" using c by (induction files) (auto simp: selectedSum_def)
  with ok c d show ?thesis
    by (auto simp: torrentInv_def torrentSelectedLength_exact fileInv_def lengthsOk_def uriInfos_def)
qed

definition exampleLib :: torrentLib where
  "exampleLib = \<lparr>tlParseMetaInfoBytes = (\<lambda>_. Inl ContextCanceled), tlSpecFromMagnet = (\<lambda>_. Inl ContextCanceled),
     tlPlanFiles = examplePlanner, tlSum256 = id, tlCompactLayer = (\<lambda>_. Inr []), tlRootWithPadHash = (\<lambda>_ _. '''')\<rparr>"

lemma v1Example_accepted:
  "validateTorrentInfo v1Example = Inr ()" "torrentInfoPieceCount v1Example = Inr 1"
  "torrentFileStates absKey examplePlanner v1Example zeroHash [] ''.'' =
     Inr [\<lparr>tfIndex = 1, tfPath = ''/d/a'', tfLength = 3, tfCompleted = 0, tfSelected = True\<rparr>]"
proof -
  show "validateTorrentInfo v1Example = Inr ()"
    by (simp add: validateTorrentInfo_def v1Example_def exampleInfo_def hashSize_def v1TorrentLength_def
        maxTorrentProtocolPieceLength_def maxTorrentPieceCount_def ceilDivInt64_def Let_def)
  show "torrentInfoPieceCount v1Example = Inr 1"
    by (simp add: torrentInfoPieceCount_def v1Example_def exampleInfo_def hashSize_def)
  show "torrentFileStates absKey examplePlanner v1Example zeroHash [] ''.'' =
     Inr [\<lparr>tfIndex = 1, tfPath = ''/d/a'', tfLength = 3, tfCompleted = 0, tfSelected = True\<rparr>]"
    by code_simp
qed

lemma exampleLib_plan:
  "tlPlanFiles exampleLib dir op i h = Inr plan \<Longrightarrow>
     (\<forall>f \<in> set (plFiles plan). 0 \<le> pfLength f) \<and> sum_list (map pfLength (plFiles plan)) \<le> MaxInt64"
  by (auto simp: exampleLib_def examplePlanner_def)

theorem newTorrentDownload_exact_witness:
  "\<exists>d. newTorrentDownload exampleLib absKey 0 ''g'' '''' '''' [''http://a''] [] None v1Example = Inr d \<and> torrentInv d"
proof -
  have os: "optionString [] ''dir'' = ''''" by code_simp
  obtain d where d: "newTorrentDownload exampleLib absKey 0 ''g'' '''' '''' [''http://a''] [] None v1Example = Inr d"
    using os by (simp add: v1Example_accepted newTorrentDownload_def canonicalTorrentMetaInfoHash_def exampleLib_def Let_def)
  from newTorrentDownload_exact[OF d exampleLib_plan] d show ?thesis by auto
qed

end
