(* ===== verification/Engine_Ops.thy ===== *)
theory Engine_Ops
  imports Torrent_Meta
begin

text \<open>
  The operations of the engine: engine.go and engine_scheduler.go. A handler takes the engine and
  returns its result together with the engine after it, because some handlers change state before
  they fail. What lies outside the sources is the record \<open>sysEnv\<close>: \<open>url.Parse\<close>, the canonical
  form of a path, the torrent library and its view of a live torrent. The random gid and the time are
  arguments.
\<close>

record url =
  urlScheme :: string
  urlHost :: string

record sysEnv =
  seURLParse :: "string \<Rightarrow> url option"
  seRKey :: "string \<Rightarrow> string res"
  seLib :: torrentLib
  seEmptyInfo :: "string \<Rightarrow> Info"
  seLive :: "string \<Rightarrow> Info option res"
  seB64 :: "bool \<Rightarrow> string \<Rightarrow> string \<times> err option"

type_synonym 'a handler = "Engine \<Rightarrow> 'a res \<times> Engine"

text \<open>An early return with an error.\<close>

definition orFail :: "'a res \<Rightarrow> Engine \<Rightarrow> ('a \<Rightarrow> 'b res \<times> Engine) \<Rightarrow> 'b res \<times> Engine" where
  "orFail r e f = (case r of Inl er \<Rightarrow> (Inl er, e) | Inr x \<Rightarrow> f x)"

lemma orFail_simps [simp]: "orFail (Inl er) e f = (Inl er, e)" "orFail (Inr x) e f = f x"
  by (simp_all add: orFail_def)

definition setD :: "nat \<Rightarrow> (Download \<Rightarrow> Download) \<Rightarrow> Engine \<Rightarrow> Engine" where
  "setD i f e = setObj e i (f (obj e i))"

section \<open>URIs and gids\<close>

definition isMagnetURI :: "sysEnv \<Rightarrow> string \<Rightarrow> bool" where
  "isMagnetURI env raw = (case seURLParse env raw of None \<Rightarrow> False | Some u \<Rightarrow> EqualFold (urlScheme u) ''magnet'')"

definition isHTTPTorrentURL :: "sysEnv \<Rightarrow> string \<Rightarrow> bool" where
  "isHTTPTorrentURL env raw =
     (case seURLParse env raw of
        None \<Rightarrow> False
      | Some u \<Rightarrow> urlHost u \<noteq> '''' \<and> (urlScheme u = ''http'' \<or> urlScheme u = ''https''))"

definition validateHTTPURI :: "sysEnv \<Rightarrow> string \<Rightarrow> unit res" where
  "validateHTTPURI env raw =
     (case seURLParse env raw of
        None \<Rightarrow> Inl ErrUnsupportedProtocol
      | Some u \<Rightarrow>
         (if urlScheme u = '''' \<or> urlHost u = '''' then Inl ErrUnsupportedProtocol
          else if urlScheme u \<noteq> ''http'' \<and> urlScheme u \<noteq> ''https'' then Inl ErrUnsupportedProtocol
          else Inr ()))"

text \<open>\<open>hex.DecodeString\<close> succeeds on an even number of hexadecimal digits of either case.\<close>

definition validGID :: "string \<Rightarrow> bool" where
  "validGID gid \<longleftrightarrow> length gid = 16 \<and> list_all (\<lambda>c. decodeHexNibble c \<noteq> None) gid"

definition newDownload :: "int \<Rightarrow> string \<Rightarrow> string list \<Rightarrow> options \<Rightarrow> Download" where
  "newDownload now gid uris opts =
     zeroDownload\<lparr>dKind := downloadKindURI, dGid := gid, dUris := uriInfos uris, dOptions := opts,
       dStatus := StatusWaiting, dDir := optionString opts ''dir'', dOut := optionString opts ''out'',
       dCreatedAt := now\<rparr>"

section \<open>Queues and lookup\<close>

definition insertWaitingLocked :: "string \<Rightarrow> int option \<Rightarrow> Engine \<Rightarrow> Engine" where
  "insertWaitingLocked gid position e =
     (case position of
        None \<Rightarrow> e\<lparr>eWaiting := eWaiting e @ [gid]\<rparr>
      | Some p \<Rightarrow>
         (if p \<ge> int (length (eWaiting e)) then e\<lparr>eWaiting := eWaiting e @ [gid]\<rparr>
          else
            (let pos = nat (if p < 0 then 0 else p) in
             e\<lparr>eWaiting := take pos (eWaiting e) @ [gid] @ drop pos (eWaiting e)\<rparr>)))"

definition pruneProtected :: "Engine \<Rightarrow> string \<Rightarrow> bool" where
  "pruneProtected e gid =
     (if \<not> optionBoolDefault (eGlobal e) ''keep-unfinished-download-result'' True then False
      else (case map_of (eDownloads e) gid of None \<Rightarrow> False | Some i \<Rightarrow> dStatus (obj e i) = StatusError))"

text \<open>The second loop of \<open>pruneStoppedLocked\<close>: the results kept and the results dropped. Whether a
  result is protected does not depend on the entries dropped before it, which are other gids.\<close>

fun pruneLoop :: "(string \<Rightarrow> bool) \<Rightarrow> int \<Rightarrow> string list \<Rightarrow> string list \<times> string list" where
  "pruneLoop protected excess [] = ([], [])"
| "pruneLoop protected excess (gid # gids) =
     (if excess > 0 \<and> \<not> protected gid
      then (let (kept, dropped) = pruneLoop protected (excess - 1) gids in (kept, gid # dropped))
      else (let (kept, dropped) = pruneLoop protected excess gids in (gid # kept, dropped)))"

definition maxResult :: "Engine \<Rightarrow> int" where
  "maxResult e =
     (let m = optionInt (eGlobal e) ''max-download-result'' (eMaxDownloadResult e) in if m < 0 then 0 else m)"

definition prunable :: "Engine \<Rightarrow> string list" where
  "prunable e = filter (\<lambda>gid. \<not> pruneProtected e gid) (eStopped e)"

definition pruneStoppedLocked :: "Engine \<Rightarrow> Engine" where
  "pruneStoppedLocked e =
     (let excess = int (length (prunable e)) - maxResult e in
      if excess \<le> 0 then e
      else
        (let (kept, dropped) = pruneLoop (pruneProtected e) excess (eStopped e) in
         e\<lparr>eStopped := kept, eStoppedSet := filter (\<lambda>g. g \<notin> set dropped) (eStoppedSet e),
           eDownloads := filter (\<lambda>(g, i). g \<notin> set dropped) (eDownloads e)\<rparr>))"

definition appendStoppedLocked :: "string \<Rightarrow> Engine \<Rightarrow> Engine" where
  "appendStoppedLocked gid e =
     pruneStoppedLocked
       (if gid \<notin> set (eStoppedSet e)
        then e\<lparr>eStopped := eStopped e @ [gid], eStoppedSet := gid # eStoppedSet e, eStoppedTotal := Suc (eStoppedTotal e)\<rparr>
        else e)"

fun findPrefix :: "string \<Rightarrow> nat option \<Rightarrow> (string \<times> nat) list \<Rightarrow> nat res" where
  "findPrefix gid found [] = (case found of None \<Rightarrow> Inl ErrNotFound | Some i \<Rightarrow> Inr i)"
| "findPrefix gid found ((k, i) # ds) =
     (if HasPrefix k gid
      then (case found of Some _ \<Rightarrow> Inl (Errorf ''gid prefix is not unique'' []) | None \<Rightarrow> findPrefix gid (Some i) ds)
      else findPrefix gid found ds)"

definition findDownloadLocked :: "string \<Rightarrow> Engine \<Rightarrow> nat res" where
  "findDownloadLocked gid e =
     (if gid = '''' then Inl ErrNotFound
      else (case map_of (eDownloads e) gid of
              Some i \<Rightarrow> Inr i
            | None \<Rightarrow> findPrefix gid None (eDownloads e)))"

definition gidsByStatus :: "status list \<Rightarrow> Engine \<Rightarrow> string list" where
  "gidsByStatus statuses e = map fst (filter (\<lambda>(g, i). dStatus (obj e i) \<in> set statuses) (eDownloads e))"

section \<open>Adding downloads\<close>

text \<open>The common tail of \<open>AddURI\<close>, \<open>addMagnet\<close> and \<open>addTorrent\<close>, under the engine's lock:
  choose the gid, refuse a duplicate, build the download, queue it unless it is added paused. \<open>rnd\<close>
  is what \<open>randomHex(8)\<close> returns.\<close>

definition admitDownload :: "string \<Rightarrow> options \<Rightarrow> (string \<Rightarrow> Download res) \<Rightarrow> int option \<Rightarrow> string handler" where
  "admitDownload rnd merged build position e =
     (let opt = optionString merged ''gid''; gid = (if opt = '''' then rnd else opt) in
      if opt \<noteq> '''' \<and> \<not> validGID opt then (Inl ErrInvalidGID, e)
      else if map_of (eDownloads e) gid \<noteq> None then (Inl (Errorf ''gid already exists'' []), e)
      else orFail (build gid) e (\<lambda>d0.
        (let d = (if optionBool merged ''pause'' then d0\<lparr>dStatus := StatusPaused\<rparr> else d0);
             e1 = (if optionBool merged ''pause'' then e else insertWaitingLocked gid position e);
             e2 = e1\<lparr>eHeap := eHeap e1 @ [d], eDownloads := AList.update gid (length (eHeap e1)) (eDownloads e1)\<rparr> in
         (Inr gid, saveSessionBestEffort (signal e2)))))"

definition addMagnet :: "sysEnv \<Rightarrow> string \<Rightarrow> string \<Rightarrow> options \<Rightarrow> int option \<Rightarrow> string handler" where
  "addMagnet env rnd raw opts position e =
     orFail (tlSpecFromMagnet (seLib env) raw) e (\<lambda>_.
       if eDone e then (Inl ErrShutdown, e)
       else
         (let merged = layerOptions (eGlobal e) opts in
          orFail (validateTorrentExtensionOptions merged) e (\<lambda>_.
            admitDownload rnd merged
              (\<lambda>gid. newMagnetDownload (seLib env) (seEmptyInfo env) (seRKey env) (eClock e) gid raw [] merged) position e)))"

fun validateURIs :: "sysEnv \<Rightarrow> string list \<Rightarrow> unit res" where
  "validateURIs env [] = Inr ()"
| "validateURIs env (raw # raws) =
     (if isMagnetURI env raw then Inl ErrUnsupportedProtocol
      else bindR (validateHTTPURI env raw) (\<lambda>_. validateURIs env raws))"

definition AddURI :: "sysEnv \<Rightarrow> string \<Rightarrow> string list \<Rightarrow> options \<Rightarrow> int option \<Rightarrow> string handler" where
  "AddURI env rnd uris opts position e =
     orFail (validateOptionValues opts) e (\<lambda>_.
       if uris = [] then (Inl (Errorf ''no URI to download'' []), e)
       else if length uris > maxDownloadURIs
       then (Inl (Errorf ''too many URIs: maximum is %d'' [Itoa (int maxDownloadURIs)]), e)
       else if length uris = 1 \<and> isMagnetURI env (hd uris) then addMagnet env rnd (hd uris) opts position e
       else orFail (validateURIs env uris) e (\<lambda>_.
         if eDone e then (Inl ErrShutdown, e)
         else
           (let merged = layerOptions (eGlobal e) opts in
            admitDownload rnd merged (\<lambda>gid. Inr (newDownload (eClock e) gid uris merged)) position e)))"

fun validateWebSeeds :: "sysEnv \<Rightarrow> string list \<Rightarrow> unit res" where
  "validateWebSeeds env [] = Inr ()"
| "validateWebSeeds env (raw # raws) = bindR (validateHTTPURI env raw) (\<lambda>_. validateWebSeeds env raws)"

definition defaultMaxTorrentSize :: int where "defaultMaxTorrentSize = 16777216"

definition torrentSizeLimit :: "options \<Rightarrow> int" where
  "torrentSizeLimit opts =
     (let maxSize = optionBytes opts ''goaria-max-torrent-size'' defaultMaxTorrentSize in
      if maxSize \<le> 0 then defaultMaxTorrentSize
      else if maxSize > maxSupportedTorrentSize then maxSupportedTorrentSize
      else maxSize)"

definition torrentSizeFormat :: string where
  "torrentSizeFormat = ''torrent data exceeds goaria-max-torrent-size %d''"

definition torrentSizeError :: "int \<Rightarrow> err" where
  "torrentSizeError mx = Errorf torrentSizeFormat [Itoa mx]"

fun isTorrentSizeError :: "err \<Rightarrow> bool" where
  "isTorrentSizeError (Errorf f args) = (f = torrentSizeFormat)"
| "isTorrentSizeError (ErrWrap f er) = isTorrentSizeError er"
| "isTorrentSizeError _ = False"

text \<open>\<open>decodeTorrentParamUpTo\<close>: \<open>seB64 env raw s\<close> is the bytes that decode (without padding when
  \<open>raw\<close>) and the error that stopped the decoding, if any. The limited reader reads one byte more than
  the limit, which is how a longer input is recognised.\<close>

definition decodeLimited :: "sysEnv \<Rightarrow> bool \<Rightarrow> string \<Rightarrow> int \<Rightarrow> string res" where
  "decodeLimited env rawEnc s maxSize =
     (let (dat, er) = seB64 env rawEnc s in
      if int (length dat) > maxSize then Inl (torrentSizeError maxSize)
      else (case er of None \<Rightarrow> Inr dat | Some x \<Rightarrow> Inl x))"

definition decodeTorrentParamUpTo :: "sysEnv \<Rightarrow> string \<Rightarrow> int \<Rightarrow> string res" where
  "decodeTorrentParamUpTo env s maxSize =
     (case decodeLimited env False s maxSize of
        Inr dat \<Rightarrow> Inr dat
      | Inl er \<Rightarrow>
         (if isTorrentSizeError er then Inl er
          else
            (case decodeLimited env True s maxSize of
               Inr dat \<Rightarrow> Inr dat
             | Inl rawErr \<Rightarrow>
                (if isTorrentSizeError rawErr then Inl rawErr
                 else Inl (ErrWrap ''invalid base64 torrent: %w'' er)))))"

text \<open>\<open>resolveTorrentSource\<close>; \<open>fetched\<close> is the result of \<open>fetchTorrentURL\<close>, used when the parameter is
  an HTTP URL and not a torrent.\<close>

definition resolveTorrentSource ::
    "sysEnv \<Rightarrow> string res \<Rightarrow> string \<Rightarrow> options \<Rightarrow> (string \<times> MetaInfo \<times> Info \<times> string) res" where
  "resolveTorrentSource env fetched raw opts =
     (let fromURL = bindR fetched (\<lambda>dat. bindR (torrentMetaInfo (seLib env) dat) (\<lambda>(mi, info). Inr (dat, mi, info, raw))) in
      case decodeTorrentParamUpTo env raw (torrentSizeLimit opts) of
        Inr dat \<Rightarrow>
         (case torrentMetaInfo (seLib env) dat of
            Inr (mi, info) \<Rightarrow> Inr (dat, mi, info, '''')
          | Inl er \<Rightarrow> (if \<not> isHTTPTorrentURL env raw then Inl er else fromURL))
      | Inl er \<Rightarrow>
         (if isTorrentSizeError er \<or> \<not> isHTTPTorrentURL env raw then Inl er else fromURL))"

text \<open>\<open>addTorrent\<close> takes the engine's lock twice and resolves the torrent in between. The first part
  only reads; \<open>addTorrentCommit\<close> is the second critical section, on the engine as it is by then.\<close>

definition addTorrentPrepare ::
    "sysEnv \<Rightarrow> string res \<Rightarrow> string \<Rightarrow> string list \<Rightarrow> options \<Rightarrow> Engine \<Rightarrow> (options \<times> string \<times> MetaInfo \<times> Info) res" where
  "addTorrentPrepare env fetched torrentData uris opts e =
     bindR (validateWebSeeds env uris) (\<lambda>_.
       if eDone e then Inl ErrShutdown
       else
         (let merged = layerOptions (cloneOptions (eGlobal e)) opts in
          bindR (resolveTorrentSource env fetched torrentData merged) (\<lambda>(dat, mi, info, sourceURL).
            (let merged' = (if sourceURL \<noteq> '''' then AList.update ''goaria-torrent-source-url'' (VStr sourceURL) merged else merged) in
             bindR (if sourceURL \<noteq> '''' then validateOptionLayerSize merged' else Inr ()) (\<lambda>_.
             bindR (torrentSelectionAndIndexOut info merged') (\<lambda>_.
             Inr (merged', dat, mi, info)))))))"

definition addTorrentCommit ::
    "sysEnv \<Rightarrow> string \<Rightarrow> options \<times> string \<times> MetaInfo \<times> Info \<Rightarrow> string list \<Rightarrow> int option \<Rightarrow> string handler" where
  "addTorrentCommit env rnd prepared uris position e =
     (if eDone e then (Inl ErrShutdown, e)
      else
        (let (merged, dat, mi, info) = prepared in
         admitDownload rnd merged
           (\<lambda>gid. newTorrentDownload (seLib env) (seRKey env) (eClock e) gid dat '''' uris merged (Some mi) info) position e))"

definition AddTorrent ::
    "sysEnv \<Rightarrow> string res \<Rightarrow> string \<Rightarrow> string \<Rightarrow> string list \<Rightarrow> options \<Rightarrow> int option \<Rightarrow> string handler" where
  "AddTorrent env fetched rnd torrentData uris opts position e =
     orFail (validateOptionValues opts) e (\<lambda>_.
       if length uris > maxDownloadURIs
       then (Inl (Errorf ''too many webseed URIs: maximum is %d'' [Itoa (int maxDownloadURIs)]), e)
       else orFail (addTorrentPrepare env fetched torrentData uris opts e) e (\<lambda>prepared.
         addTorrentCommit env rnd prepared uris position e))"

definition AddMetalink :: "string list handler" where
  "AddMetalink e = (Inl ErrUnsupportedMethod, e)"

section \<open>The scheduler\<close>

text \<open>The loop of \<open>schedule\<close>: \<open>starts\<close> are the downloads started, with their contexts.\<close>

fun scheduleLoop :: "int \<Rightarrow> nat \<Rightarrow> Engine \<Rightarrow> (nat \<times> nat) list \<Rightarrow> Engine \<times> (nat \<times> nat) list" where
  "scheduleLoop maxActive 0 e starts = (e, starts)"
| "scheduleLoop maxActive (Suc candidates) e starts =
     (if \<not> eDone e \<and> int (length (eActive e)) < maxActive \<and> eWaiting e \<noteq> [] then
        (let gid = hd (eWaiting e); e1 = e\<lparr>eWaiting := tl (eWaiting e)\<rparr> in
         if gid \<in> set (eActive e1)
         then scheduleLoop maxActive candidates (e1\<lparr>eWaiting := eWaiting e1 @ [gid]\<rparr>) starts
         else
           (case map_of (eDownloads e1) gid of
              None \<Rightarrow> scheduleLoop maxActive candidates e1 starts
            | Some i \<Rightarrow>
               (if dStatus (obj e1 i) \<noteq> StatusWaiting then scheduleLoop maxActive candidates e1 starts
                else
                  (let ctx = eNextCtx e1;
                       e2 = setD i (\<lambda>d. d\<lparr>dCtx := Some ctx, dCancel := Some ctx, dStatus := StatusActive,
                              dErrorCode := '''', dErrorMessage := '''', dDownloadBPS := 0, dConnections := 0\<rparr>) e1 in
                   scheduleLoop maxActive candidates (e2\<lparr>eActive := eActive e2 @ [gid], eNextCtx := Suc ctx\<rparr>)
                     (starts @ [(i, ctx)])))))
      else (e, starts))"

definition startRun :: "nat \<times> nat \<Rightarrow> Engine \<Rightarrow> Engine" where
  "startRun s e =
     (let e1 = notify ''aria2.onDownloadStart'' (dGid (obj e (fst s))) e in e1\<lparr>eRuns := eRuns e1 @ [s]\<rparr>)"

definition schedule :: "Engine \<Rightarrow> Engine" where
  "schedule e =
     (let maxActive = optionInt (eGlobal e) ''max-concurrent-downloads'' (eMaxConcurrentDownloads e);
          (e1, starts) = scheduleLoop maxActive (length (eWaiting e)) e [] in
      fold startRun starts e1)"

text \<open>One turn of the scheduler's goroutine: it ends when the engine's context is done and otherwise
  schedules when it has been woken.\<close>

definition scheduler :: "Engine \<Rightarrow> Engine" where
  "scheduler e = (if eDone e then e else if eWake e then schedule (e\<lparr>eWake := False\<rparr>) else e)"

text \<open>The parts of \<open>finishDownload\<close>; \<open>msg\<close> is \<open>err.Error()\<close>.\<close>

definition finishPaths :: "(string \<Rightarrow> string res) \<Rightarrow> nat \<Rightarrow> nat \<Rightarrow> Engine \<Rightarrow> bool \<times> Engine" where
  "finishPaths rkey i runCtx e =
     (let d = obj e i in
      if dReservationTransitionAfterRun d = Some runCtx then
        (let (ok, e1) = (case replaceOutputPaths rkey (dReservationPathsAfterRun d) (dGid d) e of
                           Inl _ \<Rightarrow> (False, e) | Inr e' \<Rightarrow> (True, e')) in
         (ok, setD i (\<lambda>d. d\<lparr>dReservationTransitionAfterRun := None, dReservationPathsAfterRun := []\<rparr>) e1))
      else (True, e))"

definition completedDownload :: "Download \<Rightarrow> Download" where
  "completedDownload d =
     (let metadataOnly = (dKind d = downloadKindURI \<and> optionBool (dOptions d) ''dry-run'' \<or>
                          dKind d = downloadKindTorrent \<and> optionBool (dOptions d) ''bt-metadata-only'') in
      if dTotalLength d > 0 \<and> \<not> metadataOnly then d\<lparr>dCompletedLen := dTotalLength d\<rparr>
      else if dCompletedLen d > 0 then d\<lparr>dTotalLength := dCompletedLen d\<rparr>
      else d)"

definition finishStatus :: "bool \<Rightarrow> int \<Rightarrow> err option \<Rightarrow> string \<Rightarrow> Download \<Rightarrow> string \<times> Download" where
  "finishStatus shutdown now er msg d0 =
     (let d = d0\<lparr>dCancel := None, dConnections := 0, dDownloadBPS := 0, dStoppedAt := now\<rparr> in
      case er of
        None \<Rightarrow> (''aria2.onDownloadComplete'', (completedDownload d)\<lparr>dStatus := StatusComplete\<rparr>)
      | Some x \<Rightarrow>
         (if shutdown then ('''', d\<lparr>dStatus := StatusWaiting\<rparr>)
          else if errIs x ContextCanceled then ('''', d\<lparr>dStatus := StatusPaused\<rparr>)
          else (''aria2.onDownloadError'', d\<lparr>dStatus := StatusError, dErrorCode := ''1'', dErrorMessage := msg\<rparr>)))"

text \<open>The bookkeeping at the start of \<open>finishDownload\<close>, up to the transition of the status, changes
  only the object and the reservations.\<close>

definition finishBook :: "(string \<Rightarrow> string res) \<Rightarrow> nat \<Rightarrow> nat \<Rightarrow> Engine \<Rightarrow> bool \<times> Engine" where
  "finishBook rkey i runCtx e1 =
     (let d = obj e1 i;
          e2 = (if dRetainReservationsAfterRun d = Some runCtx
                then setD i (\<lambda>d. d\<lparr>dRetainReservationsAfterRun := None\<rparr>) e1 else e1);
          e3 = (if dPathResetAfterRun d = Some runCtx
                then setD i (\<lambda>d. d\<lparr>dPath := '''', dDir := optionString (dOptions d) ''dir'',
                       dOut := optionString (dOptions d) ''out'', dPathResetAfterRun := None\<rparr>) e2
                else e2);
          (keep, e4) = finishPaths rkey i runCtx e3 in
      (keep, setD i (\<lambda>d. d\<lparr>dCtx := None, dTorrent := None\<rparr>) e4))"

text \<open>The last steps of \<open>finishDownload\<close>, after the bookkeeping.\<close>

definition finishTail :: "string \<Rightarrow> nat \<Rightarrow> bool \<Rightarrow> err option \<Rightarrow> string \<Rightarrow> Engine \<Rightarrow> Engine" where
  "finishTail gid i keep er msg e5 =
     (let active = (dStatus (obj e5 i) = StatusActive);
          cancel = (if active then dCancel (obj e5 i) else None);
          (note, e6) = (if active
                        then (let (n, d') = finishStatus (eDone e5) (eClock e5) er msg (obj e5 i) in (n, setObj e5 i d'))
                        else ('''', e5));
          e7 = (if active \<and> isTerminal (dStatus (obj e6 i)) then appendStoppedLocked gid e6 else e6);
          e8 = (if keep then e7 else releaseOutputPaths gid e7);
          e9 = callCancel cancel e8;
          e10 = (if note \<noteq> '''' then notify note gid e9 else e9) in
      saveSessionBestEffort (signal e10))"

text \<open>\<open>finishDownload\<close> for the run \<open>run\<close>, a pair of an object and the run's context: the
  bookkeeping of the run, then the transition of the status and the release of the reservations.\<close>

definition finishDownload :: "(string \<Rightarrow> string res) \<Rightarrow> nat \<times> nat \<Rightarrow> err option \<Rightarrow> string \<Rightarrow> Engine \<Rightarrow> Engine" where
  "finishDownload rkey run er msg e0 =
     (let (i, runCtx) = run; e = e0\<lparr>eRuns := remove1 run (eRuns e0)\<rparr>; d = obj e i in
      if dCtx d \<noteq> Some runCtx then
        (if dStatus d \<noteq> StatusActive then setD i (\<lambda>d. d\<lparr>dTorrent := None\<rparr>) e else e)
      else
        (let gid = dGid d;
             e1 = e\<lparr>eActive := removeAll gid (eActive e)\<rparr>;
             retain = (dStatus d = StatusWaiting \<and> dRetainReservationsAfterRun d = Some runCtx);
             (keep, e5) = finishBook rkey i runCtx e1 in
         finishTail gid i (retain \<and> keep) er msg e5))"

section \<open>Removing, pausing, resuming\<close>

definition remove :: "string \<Rightarrow> string handler" where
  "remove gid e =
     orFail (findDownloadLocked gid e) e (\<lambda>i.
       (let d = obj e i; e1 = e\<lparr>eWaiting := filter (\<lambda>g. g \<noteq> dGid d) (eWaiting e)\<rparr> in
        if isTerminal (dStatus d) then (Inl (Errorf ''cannot remove stopped download'' []), e1)
        else
          (let cancel = dCancel d;
               e2 = setD i (\<lambda>d. d\<lparr>dCancel := None, dStatus := StatusRemoved, dConnections := 0, dDownloadBPS := 0,
                                 dStoppedAt := eClock e\<rparr>) e1;
               e3 = appendStoppedLocked (dGid d) e2;
               e4 = callCancel cancel e3;
               e5 = notify ''aria2.onDownloadStop'' (dGid d) e4 in
           (Inr (dGid d), saveSessionBestEffort (signal e5)))))"

definition pause :: "string \<Rightarrow> string handler" where
  "pause gid e =
     orFail (findDownloadLocked gid e) e (\<lambda>i.
       (let d = obj e i in
        if isTerminal (dStatus d) then (Inl (Errorf ''cannot pause stopped download'' []), e)
        else
          (let e1 = e\<lparr>eWaiting := filter (\<lambda>g. g \<noteq> dGid d) (eWaiting e)\<rparr>;
               cancel = dCancel d;
               e2 = setD i (\<lambda>d. d\<lparr>dCancel := None, dStatus := StatusPaused, dConnections := 0, dDownloadBPS := 0\<rparr>) e1;
               e3 = callCancel cancel e2;
               e4 = notify ''aria2.onDownloadPause'' (dGid d) e3 in
           (Inr (dGid d), saveSessionBestEffort (signal e4)))))"

definition PauseAll :: "string handler" where
  "PauseAll e = (Inr ''OK'', fold (\<lambda>g e. snd (pause g e)) (gidsByStatus [StatusActive, StatusWaiting] e) e)"

definition Unpause :: "string \<Rightarrow> string handler" where
  "Unpause gid e =
     orFail (findDownloadLocked gid e) e (\<lambda>i.
       (let d = obj e i in
        if dStatus d \<noteq> StatusPaused then (Inr (dGid d), e)
        else
          (let e1 = setD i (\<lambda>d. d\<lparr>dStatus := StatusWaiting, dErrorCode := '''', dErrorMessage := ''''\<rparr>) e;
               e2 = e1\<lparr>eWaiting := eWaiting e1 @ [dGid d]\<rparr> in
           (Inr (dGid d), saveSessionBestEffort (signal e2)))))"

definition UnpauseAll :: "string handler" where
  "UnpauseAll e = (Inr ''OK'', fold (\<lambda>g e. snd (Unpause g e)) (gidsByStatus [StatusPaused] e) e)"

section \<open>The waiting queue\<close>

definition clampedQueuePosition :: "int \<Rightarrow> int \<Rightarrow> int \<Rightarrow> int" where
  "clampedQueuePosition base0 delta maximum =
     (let base = (if base0 < 0 then 0 else base0) in
      if delta \<ge> 0 then (if base \<ge> maximum \<or> delta > maximum - base then maximum else base + delta)
      else if delta < - base then 0
      else (let position = base + delta in if position > maximum then maximum else position))"

definition indexOf :: "string \<Rightarrow> string list \<Rightarrow> nat option" where
  "indexOf g xs = (if g \<in> set xs then Some (length (takeWhile (\<lambda>x. x \<noteq> g) xs)) else None)"

definition positionModes :: "string list" where
  "positionModes = [''POS_SET'', ''POS_CUR'', ''POS_END'']"

text \<open>The place of the moved entry in the queue of length \<open>n\<close> without it.\<close>

definition queueDestination :: "string \<Rightarrow> int \<Rightarrow> int \<Rightarrow> int \<Rightarrow> int" where
  "queueDestination how pos idx n =
     (let dst0 = (if how = ''POS_SET'' then pos
                  else if how = ''POS_CUR'' then clampedQueuePosition idx pos n
                  else clampedQueuePosition (n + 1) pos n);
          dst1 = (if dst0 < 0 then 0 else dst0) in
      if dst1 > n then n else dst1)"

definition insertAt :: "nat \<Rightarrow> 'a list \<Rightarrow> 'a list \<Rightarrow> 'a list" where
  "insertAt k new xs = take k xs @ new @ drop k xs"

definition ChangePosition :: "string \<Rightarrow> int \<Rightarrow> string \<Rightarrow> int handler" where
  "ChangePosition gid pos how e =
     orFail (findDownloadLocked gid e) e (\<lambda>i.
       (let g = dGid (obj e i) in
        case indexOf g (eWaiting e) of
          None \<Rightarrow> (Inl (Errorf ''download is not in waiting queue'' []), e)
        | Some idx \<Rightarrow>
           (if how \<notin> set positionModes then (Inl (Errorf ''invalid position mode'' []), e)
            else
              (let w = take idx (eWaiting e) @ drop (Suc idx) (eWaiting e);
                   dst = queueDestination how pos (int idx) (int (length w)) in
               (Inr dst, saveSessionBestEffort (e\<lparr>eWaiting := insertAt (nat dst) [g] w\<rparr>))))))"

section \<open>Changing a download\<close>

definition restartActiveDownloadLocked :: "nat \<Rightarrow> Engine \<Rightarrow> nat option \<times> Engine" where
  "restartActiveDownloadLocked i e =
     (let d = obj e i in
      if dStatus d \<noteq> StatusActive then (None, e)
      else
        (let e1 = setD i (\<lambda>d. d\<lparr>dStatus := StatusWaiting, dConnections := 0, dDownloadBPS := 0, dCancel := None\<rparr>) e;
             e2 = (if dGid d \<notin> set (eWaiting e1) then e1\<lparr>eWaiting := eWaiting e1 @ [dGid d]\<rparr> else e1) in
         (dCancel d, e2)))"

fun deleteURIs :: "string list \<Rightarrow> uriInfo list \<Rightarrow> uriInfo list \<times> int" where
  "deleteURIs [] infos = (infos, 0)"
| "deleteURIs (raw # raws) infos =
     (case dropWhile (\<lambda>u. uURI u \<noteq> raw) infos of
        [] \<Rightarrow> deleteURIs raws infos
      | _ # rest \<Rightarrow>
         (let (out, n) = deleteURIs raws (takeWhile (\<lambda>u. uURI u \<noteq> raw) infos @ rest) in (out, n + 1)))"

text \<open>The common end of \<open>ChangeURI\<close> and \<open>ChangeOption\<close>: cancel the replaced run, if any.\<close>

definition cancelRestarted :: "nat option \<Rightarrow> Engine \<Rightarrow> Engine" where
  "cancelRestarted cancel e =
     saveSessionBestEffort (if cancel \<noteq> None then signal (callCancel cancel e) else e)"

definition commitURIs :: "nat \<Rightarrow> uriInfo list \<Rightarrow> bool \<Rightarrow> Engine \<Rightarrow> Engine" where
  "commitURIs i nextURIs changed e =
     (let e1 = setD i (\<lambda>d. d\<lparr>dUris := nextURIs\<rparr>) e;
          (cancel, e2) =
            (if changed then
               restartActiveDownloadLocked i
                 (if dStatus (obj e i) = StatusActive then setD i (\<lambda>d. d\<lparr>dRetainReservationsAfterRun := dCtx d\<rparr>) e1 else e1)
             else (None, e1)) in
      cancelRestarted cancel e2)"

definition ChangeURI :: "sysEnv \<Rightarrow> string \<Rightarrow> int \<Rightarrow> string list \<Rightarrow> string list \<Rightarrow> int option \<Rightarrow> int list handler" where
  "ChangeURI env gid fileIndex delURIs addURIs position e =
     (if fileIndex \<noteq> 1 then (Inl (Errorf ''fileIndex out of range'' []), e)
      else if length delURIs > maxDownloadURIs \<or> length addURIs > maxDownloadURIs
      then (Inl (Errorf ''too many URI changes: maximum is %d'' [Itoa (int maxDownloadURIs)]), e)
      else orFail (validateWebSeeds env addURIs) e (\<lambda>_.
        orFail (findDownloadLocked gid e) e (\<lambda>i.
          (let d = obj e i;
               (remaining, deleted) = deleteURIs delURIs (dUris d);
               added = int (length addURIs);
               n = int (length remaining);
               at = (case position of None \<Rightarrow> n
                     | Some p \<Rightarrow> (let p1 = (if p < 0 then 0 else p) in if p1 > n then n else p1));
               newInfos = map (\<lambda>raw. \<lparr>uURI = raw, uStatus = URIStatusWaiting\<rparr>) addURIs;
               nextURIs = insertAt (nat at) newInfos remaining in
           if length nextURIs > maxDownloadURIs
           then (Inl (Errorf ''too many URIs: maximum is %d'' [Itoa (int maxDownloadURIs)]), e)
           else if dKind d = downloadKindURI \<and> nextURIs = []
           then (Inl (Errorf ''URI download must retain at least one URI'' []), e)
           else (Inr [deleted, added], commitURIs i nextURIs (deleted + added > 0) e)))))"

definition GetOption :: "string \<Rightarrow> options handler" where
  "GetOption gid e = orFail (findDownloadLocked gid e) e (\<lambda>i. (Inr (optionsForRPC (dOptions (obj e i))), e))"

definition ignoredOptionKey :: "string \<Rightarrow> bool" where
  "ignoredOptionKey key \<longleftrightarrow>
     key = optionBaseKey \<or> key = sessionTorrentFinalizedOption \<or> key = sessionExplicitOptionsOption"

definition activeOptionChangeRequiresRestart :: "downloadKind \<Rightarrow> options \<Rightarrow> bool" where
  "activeOptionChangeRequiresRestart kind opts \<longleftrightarrow>
     (\<exists>key \<in> set (map fst opts). \<not> ignoredOptionKey key \<and> \<not> (kind = downloadKindURI \<and> key = ''max-download-limit''))"

text \<open>\<open>hasOption\<close> and every key that counts is one of \<open>live\<close>: the shape of the two predicates below.\<close>

definition onlyKeys :: "string list \<Rightarrow> options \<Rightarrow> bool" where
  "onlyKeys live opts \<longleftrightarrow>
     (let keys = filter (\<lambda>key. \<not> ignoredOptionKey key) (map fst opts) in keys \<noteq> [] \<and> set keys \<subseteq> set live)"

definition torrentSelectionOnlyChange :: "options \<Rightarrow> bool" where
  "torrentSelectionOnlyChange opts = onlyKeys [''select-file'', torrentSelectFileExtOption, torrentExcludeFileExtOption] opts"

definition uriSegmentedLiveOptionChange :: "options \<Rightarrow> bool" where
  "uriSegmentedLiveOptionChange opts = onlyKeys [''max-download-limit'', ''max-connection-per-server'', ''split''] opts"

definition staticOptionKeys :: "string list" where
  "staticOptionKeys =
     [''dry-run'', ''gid'', ''metalink-base-uri'', ''parameterized-uri'', ''pause'', ''piece-length'', ''rpc-save-upload-metadata'']"

definition optionChangeRestarts :: "Download \<Rightarrow> Info option \<Rightarrow> options \<Rightarrow> bool" where
  "optionChangeRestarts d torrentInfo opts =
     (let r1 = activeOptionChangeRequiresRestart (dKind d) opts;
          r2 = (if dKind d = downloadKindURI \<and> dStatus d = StatusActive \<and> dNumPieces d > 1 \<and> uriSegmentedLiveOptionChange opts
                then False else r1) in
      if dKind d = downloadKindTorrent \<and> torrentInfo = None \<and> torrentSelectionOnlyChange opts then False else r2)"

text \<open>The part of \<open>ChangeOption\<close> that may fail before anything is written: the merged options and,
  for a torrent with metadata, its new file states and totals.\<close>

definition changeOptionPlan ::
    "sysEnv \<Rightarrow> options \<Rightarrow> Download \<Rightarrow> (options \<times> Info option \<times> torrentFileState list \<times> int \<times> int) res" where
  "changeOptionPlan env opts d =
     (let merged = mergeOptions (dOptions d) opts in
      bindR (validateOptionLayerSize merged) (\<lambda>_.
      bindR (if dKind d = downloadKindTorrent
             then bindR (validateTorrentExtensionOptions merged) (\<lambda>_. metadataInfoLocked (seLib env) (seLive env (dGid d)) d)
             else Inr None) (\<lambda>torrentInfo.
      bindR (case torrentInfo of
               None \<Rightarrow> Inr ([], 0, 0)
             | Some info \<Rightarrow>
                rebuildTorrentFileStatesPreservingProgress (seRKey env) (tlPlanFiles (seLib env)) info merged
                  (optionString merged ''dir'') (dTorrentFiles d) (dTorrentFinalized d)) (\<lambda>(files, tot, completed).
      Inr (merged, torrentInfo, files, tot, completed)))))"

definition optionPathChanged :: "options \<Rightarrow> options \<Rightarrow> Download \<Rightarrow> bool" where
  "optionPathChanged opts merged d \<longleftrightarrow> dKind d = downloadKindURI \<and>
     (optionExplicit opts ''dir'' \<and> dDir d \<noteq> optionString merged ''dir'' \<or>
      optionExplicit opts ''out'' \<and> dOut d \<noteq> optionString merged ''out'')"

text \<open>The writes of \<open>ChangeOption\<close>; \<open>d\<close> is the download before them and \<open>transition\<close> the output paths
  of the replacement run when a live torrent run is replaced.\<close>

definition commitOptions ::
    "nat \<Rightarrow> options \<Rightarrow> options \<Rightarrow> (torrentFileState list \<times> int \<times> int) option \<Rightarrow> string list option \<Rightarrow> bool \<Rightarrow> Engine \<Rightarrow> Engine" where
  "commitOptions i opts merged newFiles transition requiresRestart e1 =
     (let d = obj e1 i;
          e2 = (case transition of
                  Some nextPaths \<Rightarrow>
                    setD i (\<lambda>d. d\<lparr>dReservationTransitionAfterRun := dCtx d, dReservationPathsAfterRun := nextPaths\<rparr>) e1
                | None \<Rightarrow> e1);
          pathChanged = optionPathChanged opts merged d;
          e3 = setD i (\<lambda>d. d\<lparr>dOptions := merged, dDir := optionString merged ''dir'', dOut := optionString merged ''out''\<rparr>) e2;
          e4 = (if pathChanged
                then setD i (\<lambda>d. d\<lparr>dPath := '''',
                       dPathResetAfterRun := (if dCtx d \<noteq> None then dCtx d else dPathResetAfterRun d)\<rparr>) e3
                else e3);
          e5 = (case newFiles of
                  Some (files, tot, completed) \<Rightarrow>
                    setD i (\<lambda>d. d\<lparr>dTorrentFiles := files, dTotalLength := tot, dCompletedLen := completed\<rparr>) e4
                | None \<Rightarrow> e4);
          (cancel, e6) =
            (if requiresRestart then
               restartActiveDownloadLocked i
                 (if dStatus d = StatusActive \<and> (dKind d = downloadKindTorrent \<or> \<not> pathChanged)
                  then setD i (\<lambda>d. d\<lparr>dRetainReservationsAfterRun := dCtx d\<rparr>) e5 else e5)
             else (None, e5)) in
      cancelRestarted cancel e6)"

definition ChangeOption :: "sysEnv \<Rightarrow> string \<Rightarrow> options \<Rightarrow> string handler" where
  "ChangeOption env gid opts e =
     (case filter (optionExplicit opts) staticOptionKeys of
        key # _ \<Rightarrow> (Inl (Errorf ''option %q cannot be changed dynamically'' [key]), e)
      | [] \<Rightarrow>
         orFail (validateOptionValues opts) e (\<lambda>_.
         orFail (findDownloadLocked gid e) e (\<lambda>i.
         (let d = obj e i in
         orFail (changeOptionPlan env opts d) e (\<lambda>(merged, torrentInfo, nextFiles, nextTotal, nextCompleted).
          (let requiresRestart = optionChangeRestarts d torrentInfo opts;
               transitioning = (torrentInfo \<noteq> None \<and> requiresRestart \<and> dCtx d \<noteq> None \<and>
                 (dStatus d = StatusActive \<or> (dStatus d = StatusWaiting \<and> dRetainReservationsAfterRun d = dCtx d)));
               nextPaths = selectedTorrentOutputPaths nextFiles (dTorrentFinalized d) in
           orFail (if transitioning then reserveOutputPaths (seRKey env) nextPaths (dGid d) e else Inr e) e (\<lambda>e1.
             (Inr ''OK'', commitOptions i opts merged
                (if torrentInfo \<noteq> None then Some (nextFiles, nextTotal, nextCompleted) else None)
                (if transitioning then Some nextPaths else None) requiresRestart e1))))))))"

section \<open>Global options and results\<close>

definition GetGlobalOption :: "Engine \<Rightarrow> options" where
  "GetGlobalOption e = optionsForRPC (eGlobal e)"

definition setGlobalOptions :: "options \<Rightarrow> Engine \<Rightarrow> Engine" where
  "setGlobalOptions merged e =
     e\<lparr>eGlobal := merged,
       eMaxConcurrentDownloads := optionInt merged ''max-concurrent-downloads'' (eMaxConcurrentDownloads e),
       eMaxDownloadResult := optionInt merged ''max-download-result'' (eMaxDownloadResult e)\<rparr>"

definition ChangeGlobalOption :: "options \<Rightarrow> string handler" where
  "ChangeGlobalOption opts e =
     (if optionExplicit opts ''gid'' then (Inl (Errorf ''option %q cannot be changed globally'' [''gid'']), e)
      else orFail (validateOptionValues opts) e (\<lambda>_.
        (let merged = mergeOptions (eGlobal e) opts in
         orFail (validateOptionLayerSize merged) e (\<lambda>_.
         orFail (validateTorrentExtensionOptions merged) e (\<lambda>_.
           (Inr ''OK'', saveSessionBestEffort (signal (pruneStoppedLocked (setGlobalOptions merged e)))))))))"

definition PurgeDownloadResult :: "string handler" where
  "PurgeDownloadResult e =
     (Inr ''OK'', saveSessionBestEffort
        (e\<lparr>eDownloads := filter (\<lambda>(g, i). g \<notin> set (eStopped e)) (eDownloads e),
           eStoppedSet := filter (\<lambda>g. g \<notin> set (eStopped e)) (eStoppedSet e), eStopped := []\<rparr>))"

definition RemoveDownloadResult :: "string \<Rightarrow> string handler" where
  "RemoveDownloadResult gid e =
     orFail (findDownloadLocked gid e) e (\<lambda>i.
       (let d = obj e i in
        if \<not> isTerminal (dStatus d) then (Inl (Errorf ''download result is not stopped'' []), e)
        else
          (Inr ''OK'', saveSessionBestEffort
             (e\<lparr>eDownloads := AList.delete (dGid d) (eDownloads e), eStoppedSet := removeAll (dGid d) (eStoppedSet e),
                eStopped := filter (\<lambda>g. g \<noteq> dGid d) (eStopped e)\<rparr>))))"

definition closeBegin :: "Engine \<Rightarrow> Engine" where
  "closeBegin e = signal (e\<lparr>eDone := True, eCancelled := map snd (eRuns e) @ eCancelled e\<rparr>)"

text \<open>What \<open>Close\<close> does in its goroutine when every run has ended: the last save and the end of the
  subscriptions.\<close>

definition closeFinish :: "Engine \<Rightarrow> Engine" where
  "closeFinish e = closeSubscribers (saveSessionBestEffort e)"

end
