(* ===== verification/Engine_Inv.thy ===== *)
theory Engine_Inv
  imports Engine_Ops
begin

text \<open>
  The invariant of the engine and its preservation by every operation of theory Engine_Ops: the map of
  downloads, the waiting queue, the active set with the runs, the stopped results and the path
  reservations describe the same downloads. The steps of the engine are an inductive relation, and
  the invariant holds in every state reachable from a new engine.
\<close>

section \<open>The invariant\<close>

definition stat :: "Engine \<Rightarrow> string \<Rightarrow> status option" where
  "stat e g = map_option (\<lambda>i. dStatus (obj e i)) (map_of (eDownloads e) g)"

definition runGids :: "Engine \<Rightarrow> string list" where
  "runGids e = map (\<lambda>r. dGid (obj e (fst r))) (eRuns e)"

definition dlInv :: "Engine \<Rightarrow> bool" where
  "dlInv e \<longleftrightarrow> distinct (map fst (eDownloads e)) \<and>
     (\<forall>g i. map_of (eDownloads e) g = Some i \<longrightarrow> i < length (eHeap e) \<and> dGid (obj e i) = g)"

text \<open>A download is queued once, only while its status is waiting, and always while its status is
  waiting unless the engine has been closed.\<close>

definition waitInv :: "Engine \<Rightarrow> bool" where
  "waitInv e \<longleftrightarrow> distinct (eWaiting e) \<and> (\<forall>g \<in> set (eWaiting e). stat e g = Some StatusWaiting) \<and>
     (\<not> eDone e \<longrightarrow> (\<forall>g. stat e g = Some StatusWaiting \<longrightarrow> g \<in> set (eWaiting e)))"

text \<open>Every live run is the only one of its gid, the active set is the gids of the runs, a download
  has a context exactly while a run of it is live, and an active download can be cancelled.\<close>

definition runInv :: "Engine \<Rightarrow> bool" where
  "runInv e \<longleftrightarrow> distinct (runGids e) \<and> distinct (eActive e) \<and> set (eActive e) = set (runGids e) \<and>
     (\<forall>i c. (i, c) \<in> set (eRuns e) \<longleftrightarrow> i < length (eHeap e) \<and> dCtx (obj e i) = Some c) \<and>
     (\<forall>i < length (eHeap e). dCancel (obj e i) = (if dStatus (obj e i) = StatusActive then dCtx (obj e i) else None)) \<and>
     (\<forall>i < length (eHeap e). dStatus (obj e i) = StatusActive \<longrightarrow>
        dCtx (obj e i) \<noteq> None \<and> map_of (eDownloads e) (dGid (obj e i)) = Some i)"

text \<open>The stopped list is the terminal downloads; \<open>stopInvBut X\<close> leaves out the gids of \<open>X\<close>, which
  have stopped but are not listed yet.\<close>

definition stopInvBut :: "string set \<Rightarrow> Engine \<Rightarrow> bool" where
  "stopInvBut X e \<longleftrightarrow> distinct (eStopped e) \<and> set (eStoppedSet e) = set (eStopped e) \<and>
     (\<forall>g. g \<in> set (eStopped e) \<longleftrightarrow> g \<notin> X \<and> (\<exists>s. stat e g = Some s \<and> isTerminal s))"

abbreviation stopInv :: "Engine \<Rightarrow> bool" where "stopInv \<equiv> stopInvBut {}"

definition coreInv :: "Engine \<Rightarrow> bool" where
  "coreInv e \<longleftrightarrow> dlInv e \<and> waitInv e \<and> runInv e \<and> stopInv e"

definition engineInv :: "Engine \<Rightarrow> bool" where
  "engineInv e \<longleftrightarrow> coreInv e \<and> resInv e"

section \<open>Operations that leave the core alone\<close>

definition core where
  "core e = (eHeap e, eDownloads e, eWaiting e, eActive e, eStopped e, eStoppedSet e, eRuns e, eDone e)"

lemma core_same:
  assumes "core e = core e'"
  shows "eHeap e = eHeap e'" "eDownloads e = eDownloads e'" "eWaiting e = eWaiting e'" "eActive e = eActive e'"
    "eStopped e = eStopped e'" "eStoppedSet e = eStoppedSet e'" "eRuns e = eRuns e'" "eDone e = eDone e'"
  using assms by (simp_all add: core_def)

lemma coreInv_cong: "core e = core e' \<Longrightarrow> coreInv e = coreInv e'"
  using core_same[of e e']
  by (simp add: coreInv_def dlInv_def waitInv_def runInv_def stopInvBut_def stat_def runGids_def obj_def)

lemma core_side [simp]:
  "core (notify m g e) = core e" "core (signal e) = core e" "core (saveSessionBestEffort e) = core e"
  "core (callCancel c e) = core e" "core (releaseOutputPaths g e) = core e"
  by (simp_all add: core_def go_defs releaseOutputPaths_def Let_def split: option.splits)

lemma res_side [simp]:
  "resInv (notify m g e) = resInv e" "resInv (signal e) = resInv e" "resInv (saveSessionBestEffort e) = resInv e"
  "resInv (callCancel c e) = resInv e"
  by (auto intro!: resInv_cong simp: go_defs Let_def split: option.splits)

lemma engineInv_side [simp]:
  "engineInv (notify m g e) = engineInv e" "engineInv (signal e) = engineInv e"
  "engineInv (saveSessionBestEffort e) = engineInv e" "engineInv (callCancel c e) = engineInv e"
  by (simp_all add: engineInv_def coreInv_cong[of "notify m g e" e] coreInv_cong[of "signal e" e]
      coreInv_cong[of "saveSessionBestEffort e" e] coreInv_cong[of "callCancel c e" e])

text \<open>The reservation operations change nothing else.\<close>

lemma record_core [simp]: "core (recordPathReservationLocked k g e) = core e"
  by (simp add: core_def recordPathReservationLocked_def)

lemma core_fold_record [simp]: "core (fold (\<lambda>(k, p). recordPathReservationLocked k g) kps e) = core e"
  by (induction kps arbitrary: e) (auto split: prod.splits)

lemma core_dropObsolete [simp]: "core (dropObsolete ks g e) = core e"
  by (simp add: core_def dropObsolete_def)

lemma core_updateOutputPathReservations:
  "updateOutputPathReservations rkey ps g r e = Inr e' \<Longrightarrow> core e' = core e"
  by (auto simp: updateOutputPathReservations_def bindR_eq_Inr Let_def split: option.splits)

lemma core_reserveOutputPath: "reserveOutputPath rkey st p g r e = Inr (q, e') \<Longrightarrow> core e' = core e"
  using reserveOutputPath_ok by fastforce

section \<open>Writing an object\<close>

lemma setD_fields [simp]:
  "eDownloads (setD i f e) = eDownloads e" "eWaiting (setD i f e) = eWaiting e" "eActive (setD i f e) = eActive e"
  "eStopped (setD i f e) = eStopped e" "eStoppedSet (setD i f e) = eStoppedSet e" "eRuns (setD i f e) = eRuns e"
  "eDone (setD i f e) = eDone e" "eNextCtx (setD i f e) = eNextCtx e" "eGlobal (setD i f e) = eGlobal e"
  "length (eHeap (setD i f e)) = length (eHeap e)" "ePathReservations (setD i f e) = ePathReservations e"
  "eReservedPathsByGID (setD i f e) = eReservedPathsByGID e" "eClock (setD i f e) = eClock e"
  "eMaxDownloadResult (setD i f e) = eMaxDownloadResult e" "eStoppedTotal (setD i f e) = eStoppedTotal e"
  by (simp_all add: setD_def setObj_def)

lemma obj_setD: "i < length (eHeap e) \<Longrightarrow> obj (setD i f e) j = (if j = i then f (obj e i) else obj e j)"
  by (simp add: setD_def setObj_def obj_def)

lemma setD_twice: "i < length (eHeap e) \<Longrightarrow> setD i f (setD i g e) = setD i (\<lambda>d. f (g d)) e"
  by (simp add: setD_def setObj_def obj_def)

lemma setObj_setD: "setObj e i d = setD i (\<lambda>_. d) e"
  by (simp add: setD_def)

lemma obj_update [simp]:
  "obj (e\<lparr>eWaiting := w\<rparr>) = obj e" "obj (e\<lparr>eActive := a\<rparr>) = obj e" "obj (e\<lparr>eRuns := r\<rparr>) = obj e"
  "obj (e\<lparr>eStopped := s\<rparr>) = obj e" "obj (e\<lparr>eStoppedSet := ss\<rparr>) = obj e" "obj (e\<lparr>eStoppedTotal := n\<rparr>) = obj e"
  "obj (e\<lparr>eDownloads := ds\<rparr>) = obj e" "obj (e\<lparr>eNextCtx := c\<rparr>) = obj e" "obj (e\<lparr>eGlobal := go\<rparr>) = obj e"
  "obj (e\<lparr>eMaxConcurrentDownloads := mc\<rparr>) = obj e" "obj (e\<lparr>eMaxDownloadResult := mr\<rparr>) = obj e"
  "obj (e\<lparr>eDone := dn\<rparr>) = obj e" "obj (e\<lparr>eCancelled := cc\<rparr>) = obj e" "obj (e\<lparr>eWake := wk\<rparr>) = obj e"
  by (simp_all add: obj_def fun_eq_iff)

lemma stat_update [simp]:
  "stat (e\<lparr>eWaiting := w\<rparr>) = stat e" "stat (e\<lparr>eActive := a\<rparr>) = stat e" "stat (e\<lparr>eRuns := r\<rparr>) = stat e"
  "stat (e\<lparr>eStopped := s\<rparr>) = stat e" "stat (e\<lparr>eStoppedSet := ss\<rparr>) = stat e" "stat (e\<lparr>eStoppedTotal := n\<rparr>) = stat e"
  "stat (e\<lparr>eNextCtx := c\<rparr>) = stat e" "stat (e\<lparr>eDone := dn\<rparr>) = stat e"
  by (simp_all add: stat_def fun_eq_iff)

lemma stat_setD:
  assumes "i < length (eHeap e)"
  shows "stat (setD i f e) g = (if map_of (eDownloads e) g = Some i then Some (dStatus (f (obj e i))) else stat e g)"
  using assms by (cases "map_of (eDownloads e) g") (auto simp: stat_def obj_setD)

lemma runGids_setD: "i < length (eHeap e) \<Longrightarrow> dGid (f (obj e i)) = dGid (obj e i) \<Longrightarrow> runGids (setD i f e) = runGids e"
  by (auto simp: runGids_def obj_setD)

lemma dlInv_setD: "dlInv e \<Longrightarrow> i < length (eHeap e) \<Longrightarrow> dGid (f (obj e i)) = dGid (obj e i) \<Longrightarrow> dlInv (setD i f e)"
  by (auto simp: dlInv_def obj_setD)

lemma dlInv_lookup:
  "dlInv e \<Longrightarrow> map_of (eDownloads e) g = Some i \<Longrightarrow> i < length (eHeap e) \<and> g = dGid (obj e i)"
  by (auto simp: dlInv_def)

lemma dlInv_inj: "dlInv e \<Longrightarrow> map_of (eDownloads e) g = Some i \<Longrightarrow> map_of (eDownloads e) h = Some i \<longleftrightarrow> h = g"
  using dlInv_lookup by metis

text \<open>A write that keeps what the invariant reads of an object.\<close>

definition sameControl :: "Download \<Rightarrow> Download \<Rightarrow> bool" where
  "sameControl d d' \<longleftrightarrow> dGid d' = dGid d \<and> dStatus d' = dStatus d \<and> dCtx d' = dCtx d \<and> dCancel d' = dCancel d"

lemma coreInv_setD_same:
  assumes "coreInv e" "i < length (eHeap e)" "sameControl (obj e i) (f (obj e i))"
  shows "coreInv (setD i f e)"
proof -
  note s = assms(3)[unfolded sameControl_def]
  have st: "stat (setD i f e) g = stat e g" for g
    using assms(2) s by (simp add: stat_setD) (simp add: stat_def)
  have rg: "runGids (setD i f e) = runGids e" using assms(2) s by (intro runGids_setD) auto
  have "runInv (setD i f e)"
    using assms s unfolding coreInv_def runInv_def rg by (auto simp: obj_setD)
  with assms s st show ?thesis
    by (auto simp: coreInv_def waitInv_def stopInvBut_def intro: dlInv_setD)
qed

lemma findPrefix_sound: "findPrefix g found ds = Inr i \<Longrightarrow> found = Some i \<or> (\<exists>k. (k, i) \<in> set ds \<and> HasPrefix k g)"
  by (induction g found ds rule: findPrefix.induct) (auto split: option.splits if_splits)

lemma findDownload_in:
  assumes "dlInv e" "findDownloadLocked g e = Inr i"
  shows "i < length (eHeap e) \<and> map_of (eDownloads e) (dGid (obj e i)) = Some i"
proof -
  obtain k where "map_of (eDownloads e) k = Some i"
  proof (cases "map_of (eDownloads e) g")
    case None
    then have "findPrefix g None (eDownloads e) = Inr i"
      using assms(2) by (auto simp: findDownloadLocked_def split: if_splits)
    with findPrefix_sound[OF this] obtain k where "(k, i) \<in> set (eDownloads e)" by auto
    then have "map_of (eDownloads e) k = Some i" using assms(1) by (simp add: dlInv_def)
    then show ?thesis using that by blast
  next
    case (Some j)
    then show ?thesis using assms(2) that by (auto simp: findDownloadLocked_def split: if_splits)
  qed
  with dlInv_lookup[OF assms(1)] show ?thesis by auto
qed

section \<open>Stopped results\<close>

text \<open>Dropping stopped results: pruning, purging and removing a result are instances.\<close>

definition dropResults :: "string set \<Rightarrow> Engine \<Rightarrow> Engine" where
  "dropResults D e = e\<lparr>eDownloads := filter (\<lambda>(g, i). g \<notin> D) (eDownloads e),
     eStoppedSet := filter (\<lambda>g. g \<notin> D) (eStoppedSet e), eStopped := filter (\<lambda>g. g \<notin> D) (eStopped e)\<rparr>"

lemma map_of_filter_notin: "map_of (filter (\<lambda>(g, i). g \<notin> D) ds) g = (if g \<in> D then None else map_of ds g)"
  by (induction ds) auto

lemma obj_dropResults [simp]: "obj (dropResults D e) = obj e"
  by (simp add: dropResults_def obj_def fun_eq_iff)

lemma stat_dropResults: "stat (dropResults D e) g = (if g \<in> D then None else stat e g)"
  by (simp add: stat_def) (simp add: dropResults_def map_of_filter_notin)

lemma dropResults_fields [simp]:
  "eWaiting (dropResults D e) = eWaiting e" "eActive (dropResults D e) = eActive e" "eRuns (dropResults D e) = eRuns e"
  "eHeap (dropResults D e) = eHeap e" "eDone (dropResults D e) = eDone e" "runGids (dropResults D e) = runGids e"
  by (simp_all add: runGids_def) (simp_all add: dropResults_def)

lemma resInv_dropResults [simp]: "resInv (dropResults D e) = resInv e"
  by (rule resInv_cong) (simp_all add: dropResults_def)

lemma coreInv_dropResults:
  assumes "coreInv e" "D \<subseteq> set (eStopped e)"
  shows "coreInv (dropResults D e)"
proof -
  have tm: "stat e g \<noteq> Some StatusWaiting \<and> stat e g \<noteq> Some StatusActive" if "g \<in> D" for g
    using that assms by (auto simp: coreInv_def stopInvBut_def isTerminal_def)
  have dl: "dlInv (dropResults D e)"
    using assms(1) by (auto simp: coreInv_def dlInv_def)
      (auto simp: dropResults_def map_of_filter_notin distinct_map inj_on_def split: if_splits)
  have wait: "waitInv (dropResults D e)"
    using assms(1) tm by (auto simp: coreInv_def waitInv_def stat_dropResults)
  have "map_of (eDownloads (dropResults D e)) (dGid (obj e i)) = Some i"
    if "i < length (eHeap e)" "dStatus (obj e i) = StatusActive" for i
  proof -
    have m: "map_of (eDownloads e) (dGid (obj e i)) = Some i"
      using that assms(1) by (auto simp: coreInv_def runInv_def)
    then have "stat e (dGid (obj e i)) = Some StatusActive" using that by (simp add: stat_def)
    with tm have "dGid (obj e i) \<notin> D" by auto
    with m show ?thesis by (simp add: dropResults_def map_of_filter_notin)
  qed
  then have run: "runInv (dropResults D e)"
    using assms(1) by (auto simp: coreInv_def runInv_def)
  have "stopInv (dropResults D e)"
    using assms(1) by (auto simp: coreInv_def stopInvBut_def stat_dropResults) (auto simp: dropResults_def)
  with dl wait run show ?thesis by (simp add: coreInv_def)
qed

lemma pruneLoop_split:
  "pruneLoop pr ex gs = (kept, dropped) \<Longrightarrow> distinct gs \<Longrightarrow>
   set dropped \<subseteq> set gs \<and> kept = filter (\<lambda>g. g \<notin> set dropped) gs"
proof (induction pr ex gs arbitrary: kept dropped rule: pruneLoop.induct)
  case (2 pr ex g gs)
  show ?case
  proof (cases "ex > 0 \<and> \<not> pr g")
    case True
    obtain k d where kd: "pruneLoop pr (ex - 1) gs = (k, d)" by fastforce
    with 2(1)[OF True kd] 2(3,4) True have "kept = k" "dropped = g # d" "set d \<subseteq> set gs" "k = filter (\<lambda>x. x \<notin> set d) gs"
      by auto
    moreover have "filter (\<lambda>x. x \<notin> set (g # d)) (g # gs) = filter (\<lambda>x. x \<notin> set d) gs"
      using 2(4) by (auto intro!: filter_cong)
    ultimately show ?thesis by auto
  next
    case False
    obtain k d where kd: "pruneLoop pr ex gs = (k, d)" by fastforce
    with 2(2)[OF False kd] 2(3,4) False show ?thesis by auto
  qed
qed simp

lemma pruneStopped_drop:
  assumes "distinct (eStopped e)"
  shows "\<exists>D \<subseteq> set (eStopped e). pruneStoppedLocked e = dropResults D e"
proof (cases "pruneStoppedLocked e = e")
  case True
  then show ?thesis by (intro exI[of _ "{}"]) (simp add: dropResults_def case_prod_beta)
next
  case False
  define ex where "ex = int (length (prunable e)) - maxResult e"
  obtain k d where kd: "pruneLoop (pruneProtected e) ex (eStopped e) = (k, d)" by fastforce
  have "\<not> ex \<le> 0" using False by (auto simp: pruneStoppedLocked_def ex_def)
  then have "pruneStoppedLocked e = e\<lparr>eStopped := k, eStoppedSet := filter (\<lambda>g. g \<notin> set d) (eStoppedSet e),
      eDownloads := filter (\<lambda>(g, i). g \<notin> set d) (eDownloads e)\<rparr>"
    using kd by (simp add: pruneStoppedLocked_def Let_def flip: ex_def)
  with pruneLoop_split[OF kd assms] show ?thesis
    by (intro exI[of _ "set d"]) (simp add: dropResults_def)
qed

lemma engineInv_prune: "engineInv e \<Longrightarrow> engineInv (pruneStoppedLocked e)"
  using pruneStopped_drop[of e] coreInv_dropResults[of e]
  by (auto simp: engineInv_def coreInv_def stopInvBut_def)

text \<open>Listing a download that has just stopped.\<close>

lemma engineInv_appendStopped:
  assumes "dlInv e" "waitInv e" "runInv e" "stopInvBut {g} e" "resInv e" "stat e g = Some s" "isTerminal s"
  shows "engineInv (appendStoppedLocked g e)"
proof -
  let ?e = "e\<lparr>eStopped := eStopped e @ [g], eStoppedSet := g # eStoppedSet e, eStoppedTotal := Suc (eStoppedTotal e)\<rparr>"
  have n: "g \<notin> set (eStoppedSet e)" "g \<notin> set (eStopped e)" using assms(4) by (auto simp: stopInvBut_def)
  have "dlInv ?e" "waitInv ?e" "runInv ?e"
    using assms(1-3) by (auto simp: dlInv_def waitInv_def runInv_def runGids_def)
  moreover have "stopInv ?e" using assms(4,6,7) n by (auto simp: stopInvBut_def)
  moreover have "resInv ?e" using assms(5) by (auto intro: resInv_cong[THEN iffD1, rotated 2])
  ultimately have "engineInv ?e" by (simp add: engineInv_def coreInv_def)
  with n show ?thesis by (simp add: appendStoppedLocked_def engineInv_prune)
qed

section \<open>Changing the status of a download\<close>

lemma stat_setD_mapped:
  "dlInv e \<Longrightarrow> map_of (eDownloads e) g = Some i \<Longrightarrow>
   stat (setD i f e) h = (if h = g then Some (dStatus (f (obj e i))) else stat e h)"
  using dlInv_lookup[of e g i] dlInv_inj[of e g i h] by (simp add: stat_setD)

lemma stat_mapped: "map_of (eDownloads e) g = Some i \<Longrightarrow> stat e g = Some (dStatus (obj e i))"
  by (simp add: stat_def)

lemma runInv_setD:
  assumes "runInv e" "dlInv e" "map_of (eDownloads e) g = Some i"
    and "dGid (f (obj e i)) = g" "dCtx (f (obj e i)) = dCtx (obj e i)"
    and "dCancel (f (obj e i)) = (if dStatus (f (obj e i)) = StatusActive then dCtx (obj e i) else None)"
    and "dStatus (f (obj e i)) = StatusActive \<Longrightarrow> dCtx (obj e i) \<noteq> None"
  shows "runInv (setD i f e)"
proof -
  have i: "i < length (eHeap e)" "dGid (obj e i) = g" using dlInv_lookup[OF assms(2,3)] by auto
  then have rg: "runGids (setD i f e) = runGids e" using assms(4) by (intro runGids_setD) auto
  show ?thesis
    using assms(1,3-7) i unfolding runInv_def rg by (auto simp: obj_setD)
qed

text \<open>Stopping, pausing or requeueing a download that is not terminal: a new status, no cancel
  function, the queue without it or with it at a new place.\<close>

lemma setStatus_inv:
  assumes inv: "coreInv e" and m: "map_of (eDownloads e) g = Some i" and nt: "\<not> isTerminal (dStatus (obj e i))"
    and f: "dGid (f (obj e i)) = g" "dCtx (f (obj e i)) = dCtx (obj e i)" "dCancel (f (obj e i)) = None"
      "dStatus (f (obj e i)) = s" "s \<noteq> StatusActive"
    and w: "distinct w" "\<And>h. h \<in> set w \<longleftrightarrow> (if h = g then s = StatusWaiting else h \<in> set (eWaiting e))"
  shows "dlInv ((setD i f e)\<lparr>eWaiting := w\<rparr>)" "waitInv ((setD i f e)\<lparr>eWaiting := w\<rparr>)"
    "runInv ((setD i f e)\<lparr>eWaiting := w\<rparr>)" "stopInvBut (if isTerminal s then {g} else {}) ((setD i f e)\<lparr>eWaiting := w\<rparr>)"
    "stat ((setD i f e)\<lparr>eWaiting := w\<rparr>) g = Some s"
proof -
  have i: "i < length (eHeap e)" "dGid (obj e i) = g" and dl: "dlInv e"
    using inv m dlInv_lookup by (auto simp: coreInv_def)
  have st: "stat (setD i f e) h = (if h = g then Some s else stat e h)" for h
    using stat_setD_mapped[OF dl m] f(4) by simp
  have "dlInv (setD i f e)" using dl i f by (intro dlInv_setD) auto
  then show "dlInv ((setD i f e)\<lparr>eWaiting := w\<rparr>)" by (simp add: dlInv_def)
  show "waitInv ((setD i f e)\<lparr>eWaiting := w\<rparr>)"
    using inv w st unfolding coreInv_def waitInv_def by auto
  have "runInv (setD i f e)" using inv dl m f by (intro runInv_setD) (auto simp: coreInv_def)
  then show "runInv ((setD i f e)\<lparr>eWaiting := w\<rparr>)" by (simp add: runInv_def runGids_def)
  have "stat e g = Some (dStatus (obj e i))" using m by (rule stat_mapped)
  then show "stopInvBut (if isTerminal s then {g} else {}) ((setD i f e)\<lparr>eWaiting := w\<rparr>)"
    using inv nt unfolding coreInv_def stopInvBut_def by (auto simp: st)
  show "stat ((setD i f e)\<lparr>eWaiting := w\<rparr>) g = Some s" by (simp add: st)
qed

lemma setD_waiting: "(setD i f e)\<lparr>eWaiting := w\<rparr> = setD i f (e\<lparr>eWaiting := w\<rparr>)"
  by (simp add: setD_def setObj_def)

lemma resInv_same [simp]:
  "resInv (setD i f e) = resInv e" "resInv (e\<lparr>eWaiting := w\<rparr>) = resInv e" "resInv (e\<lparr>eActive := a\<rparr>) = resInv e"
  "resInv (e\<lparr>eRuns := r\<rparr>) = resInv e"
  by (auto intro!: resInv_cong)

lemma engineInv_remove: "engineInv e \<Longrightarrow> engineInv (snd (remove gid e))"
proof (cases "findDownloadLocked gid e")
  case (Inr i)
  assume inv: "engineInv e"
  let ?g = "dGid (obj e i)" and ?w = "filter (\<lambda>g. g \<noteq> dGid (obj e i)) (eWaiting e)"
  have dl: "dlInv e" using inv by (simp add: engineInv_def coreInv_def)
  note found = findDownload_in[OF dl Inr]
  show ?thesis
  proof (cases "isTerminal (dStatus (obj e i))")
    case True
    then have "?g \<notin> set (eWaiting e)"
      using inv stat_mapped[of e ?g i] found by (auto simp: engineInv_def coreInv_def waitInv_def isTerminal_def)
    then have "?w = eWaiting e" by (auto simp: filter_id_conv)
    with True Inr inv show ?thesis by (simp add: remove_def)
  next
    case False
    let ?f = "\<lambda>d. d\<lparr>dCancel := None, dStatus := StatusRemoved, dConnections := 0, dDownloadBPS := 0, dStoppedAt := eClock e\<rparr>"
    have "distinct ?w" using inv by (simp add: engineInv_def coreInv_def waitInv_def)
    then have "engineInv (appendStoppedLocked ?g ((setD i ?f e)\<lparr>eWaiting := ?w\<rparr>))"
      using setStatus_inv[of e ?g i ?f StatusRemoved ?w] inv found False
      by (intro engineInv_appendStopped[where s = StatusRemoved]) (auto simp: engineInv_def isTerminal_def)
    with False Inr show ?thesis by (simp add: remove_def setD_waiting Let_def)
  qed
qed (simp add: remove_def)

lemma engineInv_pause: "engineInv e \<Longrightarrow> engineInv (snd (pause gid e))"
proof (cases "findDownloadLocked gid e")
  case (Inr i)
  assume inv: "engineInv e"
  let ?g = "dGid (obj e i)" and ?w = "filter (\<lambda>g. g \<noteq> dGid (obj e i)) (eWaiting e)"
  let ?f = "\<lambda>d. d\<lparr>dCancel := None, dStatus := StatusPaused, dConnections := 0, dDownloadBPS := 0\<rparr>"
  have dl: "dlInv e" using inv by (simp add: engineInv_def coreInv_def)
  note found = findDownload_in[OF dl Inr]
  show ?thesis
  proof (cases "isTerminal (dStatus (obj e i))")
    case False
    have "distinct ?w" using inv by (simp add: engineInv_def coreInv_def waitInv_def)
    then have "engineInv ((setD i ?f e)\<lparr>eWaiting := ?w\<rparr>)"
      using setStatus_inv[of e ?g i ?f StatusPaused ?w] inv found False
      by (auto simp: engineInv_def isTerminal_def coreInv_def)
    with False Inr show ?thesis by (simp add: pause_def setD_waiting Let_def)
  qed (use Inr inv in \<open>simp add: pause_def\<close>)
qed (simp add: pause_def)

lemma engineInv_Unpause: "engineInv e \<Longrightarrow> engineInv (snd (Unpause gid e))"
proof (cases "findDownloadLocked gid e")
  case (Inr i)
  assume inv: "engineInv e"
  let ?g = "dGid (obj e i)" and ?w = "eWaiting e @ [dGid (obj e i)]"
  let ?f = "\<lambda>d. d\<lparr>dStatus := StatusWaiting, dErrorCode := '''', dErrorMessage := ''''\<rparr>"
  have dl: "dlInv e" using inv by (simp add: engineInv_def coreInv_def)
  note found = findDownload_in[OF dl Inr]
  show ?thesis
  proof (cases "dStatus (obj e i) = StatusPaused")
    case True
    then have c: "dCancel (obj e i) = None" and nw: "?g \<notin> set (eWaiting e)"
      using inv found stat_mapped[of e ?g i] by (auto simp: engineInv_def coreInv_def waitInv_def runInv_def)
    then have "distinct ?w" using inv by (simp add: engineInv_def coreInv_def waitInv_def)
    then have "engineInv ((setD i ?f e)\<lparr>eWaiting := ?w\<rparr>)"
      using setStatus_inv[of e ?g i ?f StatusWaiting ?w] inv found True c
      by (auto simp: engineInv_def isTerminal_def coreInv_def)
    with True Inr show ?thesis by (simp add: Unpause_def Let_def)
  qed (use Inr inv in \<open>simp add: Unpause_def\<close>)
qed (simp add: Unpause_def)

lemma restartActive_inv:
  assumes "engineInv e" "map_of (eDownloads e) (dGid (obj e i)) = Some i"
  shows "engineInv (snd (restartActiveDownloadLocked i e))"
proof (cases "dStatus (obj e i) = StatusActive")
  case True
  let ?g = "dGid (obj e i)" and ?w = "eWaiting e @ [dGid (obj e i)]"
  let ?f = "\<lambda>d. d\<lparr>dStatus := StatusWaiting, dConnections := 0, dDownloadBPS := 0, dCancel := None\<rparr>"
  have nw: "?g \<notin> set (eWaiting e)"
    using assms True stat_mapped[of e ?g i] by (auto simp: engineInv_def coreInv_def waitInv_def)
  then have "distinct ?w" using assms by (simp add: engineInv_def coreInv_def waitInv_def)
  then have "engineInv ((setD i ?f e)\<lparr>eWaiting := ?w\<rparr>)"
    using setStatus_inv[of e ?g i ?f StatusWaiting ?w] assms True
    by (auto simp: engineInv_def isTerminal_def coreInv_def)
  with True nw show ?thesis by (simp add: restartActiveDownloadLocked_def Let_def)
qed (simp add: restartActiveDownloadLocked_def assms)

section \<open>Scheduling\<close>

lemma waitInv_perm:
  "waitInv e \<Longrightarrow> mset w = mset (eWaiting e) \<Longrightarrow> waitInv (e\<lparr>eWaiting := w\<rparr>)"
  unfolding waitInv_def by (auto dest: mset_eq_setD mset_eq_imp_distinct_iff)

lemma coreInv_perm: "coreInv e \<Longrightarrow> mset w = mset (eWaiting e) \<Longrightarrow> coreInv (e\<lparr>eWaiting := w\<rparr>)"
  using waitInv_perm[of e w]
  by (auto simp: coreInv_def dlInv_def runInv_def runGids_def stopInvBut_def)

lemma startOne_inv:
  assumes inv: "coreInv e" and w: "eWaiting e = g # w" and a: "g \<notin> set (eActive e)"
    and m: "map_of (eDownloads e) g = Some i"
    and f: "dGid (f (obj e i)) = g" "dCtx (f (obj e i)) = Some c" "dCancel (f (obj e i)) = Some c"
      "dStatus (f (obj e i)) = StatusActive"
  shows "coreInv ((setD i f e)\<lparr>eWaiting := w, eActive := eActive e @ [g], eRuns := eRuns e @ [(i, c)]\<rparr>)" (is "coreInv ?e")
proof -
  have dl: "dlInv e" and ri: "runInv e" using inv by (auto simp: coreInv_def)
  have i: "i < length (eHeap e)" "dGid (obj e i) = g" using dlInv_lookup[OF dl m] by auto
  have nc: "dCtx (obj e i) = None"
  proof (cases "dCtx (obj e i)")
    case (Some c')
    then have "(i, c') \<in> set (eRuns e)" using ri i by (simp add: runInv_def)
    then have "g \<in> set (runGids e)" using i by (force simp: runGids_def)
    then show ?thesis using ri a by (simp add: runInv_def)
  qed
  have st: "stat (setD i f e) h = (if h = g then Some StatusActive else stat e h)" for h
    using stat_setD_mapped[OF dl m] f by simp
  have "dlInv (setD i f e)" using dl i f by (intro dlInv_setD) auto
  then have "dlInv ?e" by (simp add: dlInv_def)
  moreover have "waitInv ?e"
    using inv w st unfolding coreInv_def waitInv_def by auto
  moreover have "stopInv ?e"
  proof -
    have "stat e g = Some StatusWaiting" using inv w by (auto simp: coreInv_def waitInv_def)
    then show ?thesis using inv st unfolding coreInv_def stopInvBut_def by (auto simp: isTerminal_def)
  qed
  moreover have "runInv ?e"
  proof -
    have rg: "runGids ?e = runGids e @ [g]"
      using i f by (auto simp: runGids_def obj_setD)
    show ?thesis using ri a m i f nc unfolding runInv_def rg by (auto simp: obj_setD)
  qed
  ultimately show ?thesis by (simp add: coreInv_def)
qed

lemma scheduleLoop_stop:
  "\<not> (\<not> eDone e \<and> int (length (eActive e)) < m \<and> eWaiting e \<noteq> []) \<Longrightarrow> scheduleLoop m n e starts = (e, starts)"
  by (cases n) (simp, simp only: scheduleLoop.simps if_False)

lemma scheduleLoop_inv:
  "scheduleLoop m n e starts = (e', starts') \<Longrightarrow> coreInv (e\<lparr>eRuns := eRuns e @ starts\<rparr>) \<Longrightarrow>
   coreInv (e'\<lparr>eRuns := eRuns e' @ starts'\<rparr>)"
proof (induction n arbitrary: e starts)
  case (Suc n)
  show ?case
  proof (cases "\<not> eDone e \<and> int (length (eActive e)) < m \<and> eWaiting e \<noteq> []")
    case False
    then have "(e', starts') = (e, starts)" using Suc.prems(1) scheduleLoop_stop[OF False] by metis
    then show ?thesis using Suc.prems(2) by simp
  next
    case go: True
    then obtain g w where w: "eWaiting e = g # w" by (cases "eWaiting e") auto
    let ?er = "e\<lparr>eRuns := eRuns e @ starts\<rparr>" and ?e1 = "e\<lparr>eWaiting := w\<rparr>"
    have inv: "coreInv ?er" by (rule Suc.prems(2))
    show ?thesis
    proof (cases "g \<in> set (eActive e)")
      case True
      have "coreInv (?er\<lparr>eWaiting := w @ [g]\<rparr>)" using inv w by (intro coreInv_perm) simp_all
      moreover have "core (?er\<lparr>eWaiting := w @ [g]\<rparr>) = core ((e\<lparr>eWaiting := w @ [g]\<rparr>)\<lparr>eRuns := eRuns e @ starts\<rparr>)"
        by (simp add: core_def)
      ultimately have "coreInv ((e\<lparr>eWaiting := w @ [g]\<rparr>)\<lparr>eRuns := eRuns e @ starts\<rparr>)" using coreInv_cong by blast
      moreover have "scheduleLoop m n (e\<lparr>eWaiting := w @ [g]\<rparr>) starts = (e', starts')"
        using Suc.prems(1) True w go by (simp add: Let_def)
      ultimately show ?thesis using Suc.IH[of "e\<lparr>eWaiting := w @ [g]\<rparr>" starts] by simp
    next
      case False
      obtain i where m: "map_of (eDownloads e) g = Some i" and s: "dStatus (obj e i) = StatusWaiting"
        using inv w by (auto simp: coreInv_def waitInv_def stat_def)
      let ?c = "eNextCtx e"
      let ?f = "\<lambda>d. d\<lparr>dCtx := Some ?c, dCancel := Some ?c, dStatus := StatusActive, dErrorCode := '''',
          dErrorMessage := '''', dDownloadBPS := 0, dConnections := 0\<rparr>"
      have "i < length (eHeap e)" "dGid (obj e i) = g" using inv m by (auto simp: coreInv_def dlInv_def)
      then have "coreInv ((setD i ?f ?er)\<lparr>eWaiting := w, eActive := eActive ?er @ [g], eRuns := eRuns ?er @ [(i, ?c)]\<rparr>)"
        using inv w False m by (intro startOne_inv) simp_all
      moreover let ?e2 = "(setD i ?f ?e1)\<lparr>eActive := eActive e @ [g], eNextCtx := Suc ?c\<rparr>"
      have "core (?e2\<lparr>eRuns := eRuns ?e2 @ (starts @ [(i, ?c)])\<rparr>) =
          core ((setD i ?f ?er)\<lparr>eWaiting := w, eActive := eActive ?er @ [g], eRuns := eRuns ?er @ [(i, ?c)]\<rparr>)"
        by (simp add: core_def setD_def setObj_def)
      ultimately have "coreInv (?e2\<lparr>eRuns := eRuns ?e2 @ (starts @ [(i, ?c)])\<rparr>)" using coreInv_cong by blast
      moreover have "scheduleLoop m n ?e2 (starts @ [(i, ?c)]) = (e', starts')"
        using Suc.prems(1) go w False m s by (simp add: Let_def)
      ultimately show ?thesis using Suc.IH by blast
    qed
  qed
qed simp

lemma core_startRuns: "core (fold startRun starts e) = core (e\<lparr>eRuns := eRuns e @ starts\<rparr>)"
proof (induction starts arbitrary: e)
  case (Cons s starts)
  show ?case by (simp add: Cons) (simp add: core_def startRun_def notify_def Let_def)
qed (simp add: core_def)

lemma res_startRuns [simp]: "resInv (fold startRun starts e) = resInv e"
  by (induction starts arbitrary: e) (simp_all add: startRun_def Let_def)

lemma scheduleLoop_res: "scheduleLoop m n e starts = (e', starts') \<Longrightarrow>
  ePathReservations e' = ePathReservations e \<and> eReservedPathsByGID e' = eReservedPathsByGID e"
  by (induction m n e starts rule: scheduleLoop.induct) (auto simp: Let_def split: if_splits option.splits)

lemma engineInv_schedule: "engineInv e \<Longrightarrow> engineInv (schedule e)"
proof -
  assume inv: "engineInv e"
  obtain e1 starts where l: "scheduleLoop (optionInt (eGlobal e) ''max-concurrent-downloads'' (eMaxConcurrentDownloads e))
      (length (eWaiting e)) e [] = (e1, starts)" by fastforce
  have "core (e\<lparr>eRuns := eRuns e @ []\<rparr>) = core e" by simp
  then have "coreInv (e\<lparr>eRuns := eRuns e @ []\<rparr>)" using inv coreInv_cong engineInv_def by blast
  from scheduleLoop_inv[OF l this] have "coreInv (schedule e)"
    using coreInv_cong[OF core_startRuns[of starts e1]] l by (simp add: schedule_def)
  moreover have "resInv (schedule e)"
    using inv resInv_cong[of e1 e] scheduleLoop_res[OF l] l by (simp add: schedule_def engineInv_def)
  ultimately show ?thesis by (simp add: engineInv_def)
qed

section \<open>The end of a run\<close>

lemma set_map_remove1:
  "distinct (map h xs) \<Longrightarrow> x \<in> set xs \<Longrightarrow>
   distinct (map h (remove1 x xs)) \<and> set (map h (remove1 x xs)) = set (map h xs) - {h x} \<and> set (remove1 x xs) = set xs - {x}"
proof (induction xs)
  case (Cons y ys)
  show ?case
  proof (cases "x = y")
    case True
    with Cons.prems show ?thesis by auto
  next
    case False
    moreover from False Cons.prems have "h x \<noteq> h y" by (auto intro: rev_image_eqI)
    moreover have "set (remove1 x ys) \<subseteq> set ys" by (rule set_remove1_subset)
    ultimately show ?thesis using Cons by auto
  qed
qed simp

lemma endRun_inv:
  fixes e i c f
  defines "e1 \<equiv> e\<lparr>eRuns := remove1 (i, c) (eRuns e), eActive := removeAll (dGid (obj e i)) (eActive e)\<rparr>"
  assumes inv: "coreInv e" and r: "(i, c) \<in> set (eRuns e)"
    and f: "dGid (f (obj e i)) = dGid (obj e i)" "dCtx (f (obj e i)) = None" "dCancel (f (obj e i)) = None"
      "dStatus (f (obj e i)) = s" "s \<noteq> StatusActive"
    and s: "dStatus (obj e i) \<noteq> StatusActive \<and> s = dStatus (obj e i) \<or>
            dStatus (obj e i) = StatusActive \<and> (s = StatusWaiting \<longrightarrow> eDone e)"
  shows "dlInv (setD i f e1)" "waitInv (setD i f e1)" "runInv (setD i f e1)"
    "stopInvBut (if dStatus (obj e i) = StatusActive \<and> isTerminal s then {dGid (obj e i)} else {}) (setD i f e1)"
    "dStatus (obj e i) = StatusActive \<Longrightarrow> stat (setD i f e1) (dGid (obj e i)) = Some s"
proof -
  let ?g = "dGid (obj e i)"
  have dl: "dlInv e" and ri: "runInv e" using inv by (auto simp: coreInv_def)
  have i: "i < length (eHeap e)" using ri r by (simp add: runInv_def)
  have act: "dStatus (obj e i) = StatusActive \<Longrightarrow> map_of (eDownloads e) ?g = Some i"
    using ri i by (simp add: runInv_def)
  have o1: "obj e1 = obj e" "length (eHeap e1) = length (eHeap e)" "eDownloads e1 = eDownloads e" "eWaiting e1 = eWaiting e"
    "eDone e1 = eDone e" "eStopped e1 = eStopped e" "eStoppedSet e1 = eStoppedSet e" "stat e1 = stat e"
    by (simp_all add: e1_def)
  have st: "stat (setD i f e1) h = (if dStatus (obj e i) = StatusActive \<and> h = ?g then Some s else stat e h)" for h
  proof (cases "map_of (eDownloads e) h = Some i")
    case True
    then have "h = ?g" using dlInv_lookup[OF dl] by auto
    with True i s f(4) stat_mapped[OF True] show ?thesis by (auto simp: stat_setD o1)
  next
    case False
    then show ?thesis using act i by (auto simp: stat_setD o1)
  qed
  have "dlInv e1" using dl by (simp add: dlInv_def o1)
  then show "dlInv (setD i f e1)" using i f by (intro dlInv_setD) (auto simp: o1)
  have nw: "dStatus (obj e i) = StatusActive \<Longrightarrow> ?g \<notin> set (eWaiting e)"
    using inv stat_mapped[OF act] by (auto simp: coreInv_def waitInv_def)
  then show "waitInv (setD i f e1)"
    using inv s unfolding coreInv_def waitInv_def by (auto simp: st o1)
  have ns: "dStatus (obj e i) = StatusActive \<Longrightarrow> ?g \<notin> set (eStopped e)"
    using inv stat_mapped[OF act] by (auto simp: coreInv_def stopInvBut_def isTerminal_def)
  then show "stopInvBut (if dStatus (obj e i) = StatusActive \<and> isTerminal s then {?g} else {}) (setD i f e1)"
    using inv unfolding coreInv_def stopInvBut_def by (auto simp: st o1)
  show "dStatus (obj e i) = StatusActive \<Longrightarrow> stat (setD i f e1) ?g = Some s" by (simp add: st)
  have rg: "runGids (setD i f e1) = map (\<lambda>r. dGid (obj e (fst r))) (remove1 (i, c) (eRuns e))"
    using i f(1) by (auto simp: runGids_def obj_setD o1 e1_def)
  have "distinct (map (\<lambda>r. dGid (obj e (fst r))) (eRuns e))" using ri by (simp add: runInv_def runGids_def)
  note rm = set_map_remove1[OF this r]
  have runs: "eRuns (setD i f e1) = remove1 (i, c) (eRuns e)" "eActive (setD i f e1) = removeAll ?g (eActive e)"
    by (simp_all add: e1_def)
  have ctx: "(j, x) \<in> set (eRuns e) - {(i, c)} \<longleftrightarrow> j < length (eHeap e) \<and> dCtx (obj (setD i f e1) j) = Some x" for j x
    using ri r i f(2) by (auto simp: runInv_def obj_setD o1)
  have act': "set (removeAll ?g (eActive e)) = set (map (\<lambda>r. dGid (obj e (fst r))) (remove1 (i, c) (eRuns e)))"
  proof -
    have "set (eActive e) = set (map (\<lambda>r. dGid (obj e (fst r))) (eRuns e))" using ri by (simp add: runInv_def runGids_def)
    then show ?thesis using rm unfolding set_removeAll fst_conv by blast
  qed
  have len: "length (eHeap (setD i f e1)) = length (eHeap e)" "eDownloads (setD i f e1) = eDownloads e" by (simp_all add: o1)
  show "runInv (setD i f e1)"
    unfolding runInv_def rg runs len
  proof (intro conjI)
    show "distinct (map (\<lambda>r. dGid (obj e (fst r))) (remove1 (i, c) (eRuns e)))" using rm by blast
    show "distinct (removeAll ?g (eActive e))" using ri by (simp add: runInv_def distinct_removeAll)
    show "\<forall>j x. ((j, x) \<in> set (remove1 (i, c) (eRuns e))) = (j < length (eHeap e) \<and> dCtx (obj (setD i f e1) j) = Some x)"
      using rm ctx by blast
    show "\<forall>j < length (eHeap e). dCancel (obj (setD i f e1) j) =
        (if dStatus (obj (setD i f e1) j) = StatusActive then dCtx (obj (setD i f e1) j) else None)"
      using ri i f by (simp add: runInv_def obj_setD o1)
    show "\<forall>j < length (eHeap e). dStatus (obj (setD i f e1) j) = StatusActive \<longrightarrow>
        dCtx (obj (setD i f e1) j) \<noteq> None \<and> map_of (eDownloads e) (dGid (obj (setD i f e1) j)) = Some j"
      using ri i f by (simp add: runInv_def obj_setD o1)
  qed (rule act')
qed

text \<open>The bookkeeping of \<open>finishDownload\<close> changes only the object and the reservations.\<close>

definition bookOf :: "Download \<Rightarrow> Download \<Rightarrow> bool" where
  "bookOf d d' \<longleftrightarrow> dGid d' = dGid d \<and> dStatus d' = dStatus d \<and> dCancel d' = dCancel d \<and> dCtx d' = dCtx d
     \<and> dKind d' = dKind d \<and> dOptions d' = dOptions d \<and> dTotalLength d' = dTotalLength d \<and> dCompletedLen d' = dCompletedLen d"

lemma core_setD_cong: "core e = core e' \<Longrightarrow> core (setD i f e) = core (setD i f e')"
  by (simp add: core_def setD_def setObj_def obj_def)

lemma obj_core: "core e = core e' \<Longrightarrow> obj e = obj e'"
  by (simp add: core_def obj_def fun_eq_iff)

text \<open>Every write of the bookkeeping is of this form.\<close>

definition touches :: "nat \<Rightarrow> Engine \<Rightarrow> Engine \<Rightarrow> bool" where
  "touches i e e' \<longleftrightarrow> (\<exists>d'. core e' = core (setD i (\<lambda>_. d') e) \<and> bookOf (obj e i) d') \<and> (resInv e \<longrightarrow> resInv e')
     \<and> eClock e' = eClock e"

lemma touches_refl: "i < length (eHeap e) \<Longrightarrow> touches i e e"
  unfolding touches_def by (intro conjI exI[of _ "obj e i"]) (auto simp: core_def setD_def setObj_def obj_def bookOf_def)

lemma touches_setD:
  assumes "i < length (eHeap e)" "touches i e e'" "\<And>d. bookOf d (f d)" shows "touches i e (setD i f e')"
proof -
  from assms(2) obtain d' where c: "core e' = core (setD i (\<lambda>_. d') e)" and b: "bookOf (obj e i) d'"
    and r: "resInv e \<longrightarrow> resInv e'" and k: "eClock e' = eClock e" unfolding touches_def by blast
  have "obj e' i = d'" using obj_core[OF c] assms(1) by (simp add: obj_setD)
  moreover have "core (setD i f e') = core (setD i f (setD i (\<lambda>_. d') e))" by (rule core_setD_cong[OF c])
  ultimately have "core (setD i f e') = core (setD i (\<lambda>_. f d') e)" using assms(1) by (simp add: setD_twice)
  moreover have "bookOf (obj e i) (f d')" using b assms(3)[of d'] by (simp add: bookOf_def)
  ultimately show ?thesis using r k unfolding touches_def by auto
qed

lemma touches_core: "touches i e e' \<Longrightarrow> core e'' = core e' \<Longrightarrow> (resInv e' \<Longrightarrow> resInv e'') \<Longrightarrow> eClock e'' = eClock e' \<Longrightarrow> touches i e e''"
  unfolding touches_def by auto

lemma clock_updateReservations: "updateOutputPathReservations rkey ps g r e = Inr e' \<Longrightarrow> eClock e' = eClock e"
proof -
  have rec: "eClock (fold (\<lambda>(k, p). recordPathReservationLocked k g) kps x) = eClock x" for kps x
    by (induction kps arbitrary: x) (auto simp: recordPathReservationLocked_def split: prod.splits)
  assume "updateOutputPathReservations rkey ps g r e = Inr e'"
  then show ?thesis
    by (auto simp: updateOutputPathReservations_def bindR_eq_Inr Let_def rec dropObsolete_def split: option.splits)
qed

lemma touches_finishPaths:
  assumes i: "i < length (eHeap e)" and t: "touches i e e'" and p: "finishPaths rkey i c e' = (keep, e'')"
  shows "touches i e e''"
proof (cases "dReservationTransitionAfterRun (obj e' i) = Some c")
  case True
  let ?f = "\<lambda>d. d\<lparr>dReservationTransitionAfterRun := None, dReservationPathsAfterRun := []\<rparr>"
  show ?thesis
  proof (cases "replaceOutputPaths rkey (dReservationPathsAfterRun (obj e' i)) (dGid (obj e' i)) e'")
    case (Inl er)
    with p True have "e'' = setD i ?f e'" by (simp add: finishPaths_def)
    then show ?thesis using touches_setD[OF i t, of ?f] by (simp add: bookOf_def)
  next
    case (Inr e1)
    then have up: "updateOutputPathReservations rkey (dReservationPathsAfterRun (obj e' i)) (dGid (obj e' i)) True e' = Inr e1"
      by (simp add: replaceOutputPaths_def)
    have "core e1 = core e'" by (rule core_updateOutputPathReservations[OF up])
    moreover have "resInv e' \<Longrightarrow> resInv e1" using update_reservations_ok[OF _ up] by blast
    moreover have "eClock e1 = eClock e'" by (rule clock_updateReservations[OF up])
    ultimately have "touches i e e1" by (intro touches_core[OF t])
    moreover have "e'' = setD i ?f e1" using p True Inr by (simp add: finishPaths_def)
    ultimately show ?thesis using touches_setD[OF i, of e1 ?f] by (simp add: bookOf_def)
  qed
qed (use p t in \<open>simp add: finishPaths_def\<close>)

lemma finishBook_touches:
  assumes i: "i < length (eHeap e)" and b: "finishBook rkey i c e = (keep, e5)"
  shows "\<exists>d'. core e5 = core (setD i (\<lambda>_. d'\<lparr>dCtx := None, dTorrent := None\<rparr>) e) \<and> bookOf (obj e i) d'
    \<and> (resInv e \<longrightarrow> resInv e5) \<and> obj e5 i = d'\<lparr>dCtx := None, dTorrent := None\<rparr> \<and> eClock e5 = eClock e"
proof -
  let ?f2 = "\<lambda>d. d\<lparr>dRetainReservationsAfterRun := None\<rparr>"
  let ?f3 = "\<lambda>d. d\<lparr>dPath := '''', dDir := optionString (dOptions d) ''dir'', dOut := optionString (dOptions d) ''out'',
      dPathResetAfterRun := None\<rparr>"
  define e2 where "e2 = (if dRetainReservationsAfterRun (obj e i) = Some c then setD i ?f2 e else e)"
  define e3 where "e3 = (if dPathResetAfterRun (obj e i) = Some c then setD i ?f3 e2 else e2)"
  obtain k4 e4 where p: "finishPaths rkey i c e3 = (k4, e4)" by fastforce
  then have e5: "e5 = setD i (\<lambda>d. d\<lparr>dCtx := None, dTorrent := None\<rparr>) e4"
  proof -
    have "finishBook rkey i c e = (case finishPaths rkey i c e3 of (k, e4) \<Rightarrow> (k, setD i (\<lambda>d. d\<lparr>dCtx := None, dTorrent := None\<rparr>) e4))"
      unfolding finishBook_def Let_def e3_def e2_def by (rule refl)
    with b p show ?thesis by simp
  qed
  have "touches i e e2" unfolding e2_def using touches_setD[OF i touches_refl[OF i], of ?f2] touches_refl[OF i]
    by (simp add: bookOf_def)
  then have "touches i e e3" unfolding e3_def using touches_setD[OF i, of e2 ?f3] by (simp add: bookOf_def)
  then have "touches i e e4" by (rule touches_finishPaths[OF i _ p])
  then obtain d' where c: "core e4 = core (setD i (\<lambda>_. d') e)" "bookOf (obj e i) d'" and r: "resInv e \<longrightarrow> resInv e4"
    and k: "eClock e4 = eClock e" by (auto simp: touches_def)
  have o4: "obj e4 i = d'" using obj_core[OF c(1)] i by (simp add: obj_setD)
  have len: "length (eHeap e4) = length (eHeap e)" using core_same(1)[OF c(1)] by simp
  have "core e5 = core (setD i (\<lambda>d. d\<lparr>dCtx := None, dTorrent := None\<rparr>) (setD i (\<lambda>_. d') e))"
    unfolding e5 by (rule core_setD_cong[OF c(1)])
  then have "core e5 = core (setD i (\<lambda>_. d'\<lparr>dCtx := None, dTorrent := None\<rparr>) e)" using i by (simp add: setD_twice)
  moreover have "obj e5 i = d'\<lparr>dCtx := None, dTorrent := None\<rparr>" using o4 len i by (simp add: e5 obj_setD)
  ultimately show ?thesis using c(2) r k by (auto simp: e5)
qed

lemma finishStatus_facts:
  assumes "finishStatus sh now er msg d = (n, d')"
  shows "dGid d' = dGid d \<and> dCtx d' = dCtx d \<and> dCancel d' = None \<and> dStatus d' \<noteq> StatusActive
    \<and> (dStatus d' = StatusWaiting \<longrightarrow> sh) \<and> (n \<noteq> '''' \<longleftrightarrow> isTerminal (dStatus d'))"
  using assms by (auto simp: finishStatus_def completedDownload_def Let_def isTerminal_def split: option.splits if_splits)

lemma finishDownload_eq:
  assumes "dCtx (obj e i) = Some c"
    and "finishBook rkey i c (e\<lparr>eRuns := remove1 (i, c) (eRuns e), eActive := removeAll (dGid (obj e i)) (eActive e)\<rparr>) = (keep, e5)"
  shows "finishDownload rkey (i, c) er msg e =
     finishTail (dGid (obj e i)) i
       (dStatus (obj e i) = StatusWaiting \<and> dRetainReservationsAfterRun (obj e i) = Some c \<and> keep) er msg e5"
  using assms by (simp add: finishDownload_def Let_def)

lemma engineInv_release: "engineInv e \<Longrightarrow> engineInv (releaseOutputPaths g e)"
  using coreInv_cong[of "releaseOutputPaths g e" e] resInv_release[of e g] by (simp add: engineInv_def)

lemma engineInv_finishDownload:
  assumes inv: "engineInv e" and r: "(i, c) \<in> set (eRuns e)"
  shows "engineInv (finishDownload rkey (i, c) er msg e)"
proof -
  let ?g = "dGid (obj e i)"
  define e1 where "e1 = e\<lparr>eRuns := remove1 (i, c) (eRuns e), eActive := removeAll ?g (eActive e)\<rparr>"
  have i: "i < length (eHeap e)" and ctx: "dCtx (obj e i) = Some c"
    and cn: "dStatus (obj e i) \<noteq> StatusActive \<Longrightarrow> dCancel (obj e i) = None"
    using inv r by (auto simp: engineInv_def coreInv_def runInv_def)
  obtain keep e5 where b: "finishBook rkey i c e1 = (keep, e5)" by fastforce
  have o1: "obj e1 i = obj e i" "length (eHeap e1) = length (eHeap e)" "eDone e1 = eDone e" by (simp_all add: e1_def)
  obtain d' where c5: "core e5 = core (setD i (\<lambda>_. d'\<lparr>dCtx := None, dTorrent := None\<rparr>) e1)" and bk: "bookOf (obj e i) d'"
    and r5: "resInv e5" and o5: "obj e5 i = d'\<lparr>dCtx := None, dTorrent := None\<rparr>"
    using finishBook_touches[OF _ b] i inv o1 by (auto simp: engineInv_def e1_def)
  define keep' where "keep' = (dStatus (obj e i) = StatusWaiting \<and> dRetainReservationsAfterRun (obj e i) = Some c \<and> keep)"
  have fin: "finishDownload rkey (i, c) er msg e = finishTail ?g i keep' er msg e5"
    using finishDownload_eq[OF ctx b[unfolded e1_def], of er msg] by (simp add: keep'_def)
  have done5: "eDone e5 = eDone e" using core_same(8)[OF c5] o1 by simp
  have core: "coreInv e" using inv by (simp add: engineInv_def)
  show ?thesis
  proof (cases "dStatus (obj e i) = StatusActive")
    case False
    then have "coreInv (setD i (\<lambda>_. d'\<lparr>dCtx := None, dTorrent := None\<rparr>) e1)"
      using endRun_inv[OF core r, of "\<lambda>_. d'\<lparr>dCtx := None, dTorrent := None\<rparr>" "dStatus (obj e i)"] bk cn
      by (simp add: coreInv_def bookOf_def flip: e1_def)
    then have e5: "engineInv e5" using coreInv_cong[OF c5] r5 by (simp add: engineInv_def)
    have "dStatus (obj e5 i) \<noteq> StatusActive" using False bk o5 by (simp add: bookOf_def)
    then show ?thesis unfolding fin using e5 engineInv_release[OF e5, of ?g] by (simp add: finishTail_def Let_def)
  next
    case True
    obtain n d6 where fs: "finishStatus (eDone e5) (eClock e5) er msg (obj e5 i) = (n, d6)" by fastforce
    note ff = finishStatus_facts[OF fs]
    have d6: "dGid d6 = ?g" "dCtx d6 = None" "dCancel d6 = None" "dStatus d6 \<noteq> StatusActive" "dStatus d6 = StatusWaiting \<longrightarrow> eDone e"
      using ff o5 bk done5 by (auto simp: bookOf_def)
    have "core (setD i (\<lambda>_. d6) e5) = core (setD i (\<lambda>_. d6) (setD i (\<lambda>_. d'\<lparr>dCtx := None, dTorrent := None\<rparr>) e1))"
      by (rule core_setD_cong[OF c5])
    then have c6: "core (setD i (\<lambda>_. d6) e5) = core (setD i (\<lambda>_. d6) e1)" using i o1 by (simp add: setD_twice)
    note er6 = endRun_inv[OF core r, of "\<lambda>_. d6" "dStatus d6", folded e1_def]
    let ?e6 = "setD i (\<lambda>_. d6) e5"
    have o6: "obj ?e6 i = d6" using core_same(1)[OF c5] i o1 by (simp add: obj_setD)
    have inv6: "dlInv ?e6" "waitInv ?e6" "runInv ?e6" "stopInvBut (if isTerminal (dStatus d6) then {?g} else {}) ?e6"
        "stat ?e6 ?g = Some (dStatus d6)"
      using er6 True d6 core_same[OF c6]
      by (auto simp: dlInv_def waitInv_def runInv_def stopInvBut_def stat_def runGids_def obj_def)
    have e7: "engineInv (if isTerminal (dStatus d6) then appendStoppedLocked ?g ?e6 else ?e6)"
    proof (cases "isTerminal (dStatus d6)")
      case True
      with inv6 r5 show ?thesis by (auto intro!: engineInv_appendStopped[where s = "dStatus d6"])
    next
      case False
      with inv6 r5 show ?thesis by (auto simp: engineInv_def coreInv_def)
    qed
    have act: "dStatus (obj e5 i) = StatusActive" using True bk o5 by (simp add: bookOf_def)
    show ?thesis
      unfolding fin using e7 engineInv_release[OF e7, of ?g] fs o6 act
      by (simp add: finishTail_def Let_def setObj_setD split: if_splits)
  qed
qed

section \<open>Adding downloads\<close>

definition freshFor :: "string \<Rightarrow> Download \<Rightarrow> bool" where
  "freshFor g d \<longleftrightarrow> dGid d = g \<and> dStatus d = StatusWaiting \<and> dCtx d = None \<and> dCancel d = None"

lemma newDownload_fresh: "freshFor g (newDownload now g uris opts)"
  by (simp add: freshFor_def newDownload_def zeroDownload_def)

lemma newTorrentDownload_fresh: "newTorrentDownload lib rkey now g dat mg uris opts mi info = Inr d \<Longrightarrow> freshFor g d"
  by (auto simp: newTorrentDownload_def freshFor_def zeroDownload_def bindR_eq_Inr Let_def split: sum.splits)

lemma newMagnetDownload_fresh: "newMagnetDownload lib ei rkey now g raw uris opts = Inr d \<Longrightarrow> freshFor g d"
  by (auto simp: newMagnetDownload_def bindR_eq_Inr freshFor_def dest!: newTorrentDownload_fresh)

lemma insertWaiting_fields:
  "insertWaitingLocked g p e = e\<lparr>eWaiting := eWaiting (insertWaitingLocked g p e)\<rparr>"
  "set (eWaiting (insertWaitingLocked g p e)) = insert g (set (eWaiting e))"
  "g \<notin> set (eWaiting e) \<Longrightarrow> distinct (eWaiting e) \<Longrightarrow> distinct (eWaiting (insertWaitingLocked g p e))"
proof -
  have s: "set (take n w) \<union> set (drop n w) = set w" for n and w :: "string list"
    by (metis append_take_drop_id set_append)
  have d: "distinct w \<Longrightarrow> set (take n w) \<inter> set (drop n w) = {}" for n and w :: "string list"
    by (metis append_take_drop_id distinct_append)
  show "insertWaitingLocked g p e = e\<lparr>eWaiting := eWaiting (insertWaitingLocked g p e)\<rparr>"
    by (auto simp: insertWaitingLocked_def Let_def split: option.splits)
  show "set (eWaiting (insertWaitingLocked g p e)) = insert g (set (eWaiting e))"
    using s[of _ "eWaiting e"] by (auto simp: insertWaitingLocked_def Let_def split: option.splits dest: in_set_takeD in_set_dropD)
  show "g \<notin> set (eWaiting e) \<Longrightarrow> distinct (eWaiting e) \<Longrightarrow> distinct (eWaiting (insertWaitingLocked g p e))"
    using d[of "eWaiting e"]
    by (auto simp: insertWaitingLocked_def Let_def split: option.splits dest: in_set_takeD in_set_dropD)
qed

text \<open>A new object with a new gid, queued when its status is waiting.\<close>

lemma addObject_inv:
  assumes inv: "coreInv e" and g: "map_of (eDownloads e) g = None"
    and d: "dGid d = g" "dCtx d = None" "dCancel d = None" "dStatus d \<in> {StatusWaiting, StatusPaused}"
    and w: "distinct w" "set w = (if dStatus d = StatusWaiting then insert g (set (eWaiting e)) else set (eWaiting e))"
  shows "coreInv (e\<lparr>eWaiting := w, eHeap := eHeap e @ [d], eDownloads := AList.update g (length (eHeap e)) (eDownloads e)\<rparr>)"
    (is "coreInv ?e")
proof -
  have dl: "dlInv e" and ri: "runInv e" using inv by (auto simp: coreInv_def)
  have o: "obj ?e j = (if j < length (eHeap e) then obj e j else if j = length (eHeap e) then d else obj ?e j)" for j
    by (simp add: obj_def nth_append)
  have mp: "map_of (eDownloads ?e) h = (if h = g then Some (length (eHeap e)) else map_of (eDownloads e) h)" for h
    by (simp add: update_conv')
  have lt: "map_of (eDownloads e) h = Some j \<Longrightarrow> j < length (eHeap e)" for h j using dl by (auto simp: dlInv_def)
  have st: "stat ?e h = (if h = g then Some (dStatus d) else stat e h)" for h
  proof (cases "map_of (eDownloads e) h")
    case (Some j)
    then show ?thesis using o[of j] lt[OF Some] g unfolding stat_def mp by auto
  next
    case None
    then show ?thesis using o[of "length (eHeap e)"] g unfolding stat_def mp by auto
  qed
  have "dlInv ?e"
    using dl d(1) unfolding dlInv_def mp by (auto simp: distinct_update obj_def nth_append less_Suc_eq)
  moreover have "waitInv ?e"
    using inv w d(4) g unfolding coreInv_def waitInv_def st by (auto simp: stat_def split: if_splits)
  moreover have "stopInv ?e"
  proof -
    have "stat e g = None" using g by (simp add: stat_def)
    then show ?thesis using inv d(4) unfolding coreInv_def stopInvBut_def st by (auto simp: isTerminal_def)
  qed
  moreover have "runInv ?e"
  proof -
    have rl: "r \<in> set (eRuns e) \<Longrightarrow> fst r < length (eHeap e)" for r using ri by (cases r) (auto simp: runInv_def)
    have rg: "runGids ?e = runGids e" using o rl by (auto simp: runGids_def)
    have al: "i < length (eHeap e) \<Longrightarrow> dStatus (obj e i) = StatusActive \<Longrightarrow> dGid (obj e i) \<noteq> g" for i
      using ri g by (force simp: runInv_def)
    show ?thesis
      using ri d al unfolding runInv_def rg mp by (auto simp: obj_def nth_append less_Suc_eq)
  qed
  ultimately show ?thesis by (simp add: coreInv_def)
qed

lemma engineInv_admit:
  assumes inv: "engineInv e" and b: "\<And>g d. build g = Inr d \<Longrightarrow> freshFor g d"
  shows "engineInv (snd (admitDownload rnd merged build position e))"
proof -
  define g where "g = (if optionString merged ''gid'' = '''' then rnd else optionString merged ''gid'')"
  define e1 where "e1 = (if optionBool merged ''pause'' then e else insertWaitingLocked g position e)"
  let ?bad = "optionString merged ''gid'' \<noteq> '''' \<and> \<not> validGID (optionString merged ''gid'')"
  let ?d = "\<lambda>d0. if optionBool merged ''pause'' then d0\<lparr>dStatus := StatusPaused\<rparr> else d0"
  have ad: "admitDownload rnd merged build position e =
      (if ?bad then (Inl ErrInvalidGID, e)
       else if map_of (eDownloads e) g \<noteq> None then (Inl (Errorf ''gid already exists'' []), e)
       else orFail (build g) e (\<lambda>d0. (Inr g, saveSessionBestEffort (signal
         (e1\<lparr>eHeap := eHeap e1 @ [?d d0], eDownloads := AList.update g (length (eHeap e1)) (eDownloads e1)\<rparr>)))))"
    unfolding admitDownload_def Let_def g_def e1_def by (rule refl)
  show ?thesis
  proof (cases "\<not> ?bad \<and> map_of (eDownloads e) g = None \<and> (\<exists>d. build g = Inr d)")
    case False
    then show ?thesis using inv by (cases "build g") (auto simp: ad)
  next
    case True
    then obtain d0 where nb: "\<not> ?bad" and g: "map_of (eDownloads e) g = None" and d0: "build g = Inr d0" by blast
    define w where "w = eWaiting e1"
    have core: "coreInv e" using inv by (simp add: engineInv_def)
    have nw: "g \<notin> set (eWaiting e)" "distinct (eWaiting e)"
      using core g by (auto simp: coreInv_def waitInv_def stat_def)
    have e1: "e1 = e\<lparr>eWaiting := w\<rparr>"
      using insertWaiting_fields(1)[of g position e] by (simp add: w_def e1_def)
    let ?e = "e\<lparr>eWaiting := w, eHeap := eHeap e @ [?d d0], eDownloads := AList.update g (length (eHeap e)) (eDownloads e)\<rparr>"
    have "coreInv ?e"
      using b[OF d0] nw insertWaiting_fields(2)[of g position e] insertWaiting_fields(3)[of g e position]
      by (intro addObject_inv[OF core g]) (auto simp: w_def e1_def freshFor_def)
    moreover have "resInv ?e = resInv e" by (rule resInv_cong) simp_all
    ultimately have "engineInv ?e" using inv by (simp add: engineInv_def)
    then show ?thesis using ad nb g d0 e1 by simp
  qed
qed

lemma engineInv_addMagnet: "engineInv e \<Longrightarrow> engineInv (snd (addMagnet env rnd raw opts position e))"
  unfolding addMagnet_def orFail_def Let_def
  by (auto split: sum.splits intro!: engineInv_admit dest: newMagnetDownload_fresh)

lemma engineInv_AddURI: "engineInv e \<Longrightarrow> engineInv (snd (AddURI env rnd uris opts position e))"
  unfolding AddURI_def orFail_def Let_def
  by (auto split: sum.splits intro!: engineInv_admit engineInv_addMagnet simp: newDownload_fresh)

lemma engineInv_addTorrentCommit: "engineInv e \<Longrightarrow> engineInv (snd (addTorrentCommit env rnd prepared uris position e))"
  unfolding addTorrentCommit_def Let_def
  by (auto split: prod.splits intro!: engineInv_admit dest: newTorrentDownload_fresh)

section \<open>Changing downloads, options and results\<close>

lemma length_takeWhile_in: "g \<in> set xs \<Longrightarrow> length (takeWhile (\<lambda>x. x \<noteq> g) xs) < length xs"
  by (induction xs) auto

lemma indexOf_Some: "indexOf g xs = Some k \<Longrightarrow> k < length xs \<and> xs ! k = g \<and> g \<notin> set (take k xs)"
proof -
  assume "indexOf g xs = Some k"
  then have k: "g \<in> set xs" "k = length (takeWhile (\<lambda>x. x \<noteq> g) xs)" by (auto simp: indexOf_def split: if_splits)
  from length_takeWhile_in[OF k(1)] have l: "k < length xs" by (simp add: k(2))
  moreover have "xs ! k = g" using nth_length_takeWhile[of "\<lambda>x. x \<noteq> g" xs] l k by auto
  moreover have "take k xs = takeWhile (\<lambda>x. x \<noteq> g) xs" unfolding k(2) by (rule takeWhile_eq_take[symmetric])
  then have "g \<notin> set (take k xs)" by (auto dest: set_takeWhileD)
  ultimately show ?thesis by blast
qed

lemma mset_insertAt: "mset (insertAt k new xs) = mset new + mset xs"
proof -
  have "mset (take k xs) + mset (drop k xs) = mset xs" by (metis append_take_drop_id mset_append)
  then show ?thesis by (simp add: insertAt_def)
qed

lemma mset_move:
  assumes "k < length xs" "xs ! k = g"
  shows "mset (insertAt n [g] (take k xs @ drop (Suc k) xs)) = mset xs"
proof -
  have "mset (take k xs @ g # drop (Suc k) xs) = mset xs" using assms id_take_nth_drop[of k xs] by simp
  then show ?thesis by (simp add: mset_insertAt)
qed

lemma engineInv_waiting_perm: "engineInv e \<Longrightarrow> mset w = mset (eWaiting e) \<Longrightarrow> engineInv (e\<lparr>eWaiting := w\<rparr>)"
  by (simp add: engineInv_def coreInv_perm)

lemma ChangePosition_effect:
  "snd (ChangePosition gid pos how e) = e \<or>
   (\<exists>w. mset w = mset (eWaiting e) \<and> snd (ChangePosition gid pos how e) = saveSessionBestEffort (e\<lparr>eWaiting := w\<rparr>))"
proof (cases "findDownloadLocked gid e")
  case (Inr i)
  show ?thesis
  proof (cases "indexOf (dGid (obj e i)) (eWaiting e)")
    case None
    with Inr show ?thesis by (simp add: ChangePosition_def)
  next
    case (Some k)
    show ?thesis
    proof (cases "how \<in> set positionModes")
      case True
      have "mset (insertAt n [dGid (obj e i)] (take k (eWaiting e) @ drop (Suc k) (eWaiting e))) = mset (eWaiting e)" for n
        using indexOf_Some[OF Some] by (intro mset_move) auto
      with True Inr Some show ?thesis by (intro disjI2) (simp add: ChangePosition_def Let_def, blast)
    qed (use Inr Some in \<open>simp add: ChangePosition_def Let_def\<close>)
  qed
qed (simp add: ChangePosition_def)

lemma engineInv_ChangePosition: "engineInv e \<Longrightarrow> engineInv (snd (ChangePosition gid pos how e))"
  using ChangePosition_effect[of gid pos how e] engineInv_waiting_perm[of e] by auto

lemma engineInv_setD_same:
  "engineInv e \<Longrightarrow> i < length (eHeap e) \<Longrightarrow> (\<And>d. sameControl d (f d)) \<Longrightarrow> engineInv (setD i f e)"
  by (simp add: engineInv_def coreInv_setD_same)

lemma mapped_setD:
  "map_of (eDownloads e) (dGid (obj e i)) = Some i \<Longrightarrow> i < length (eHeap e) \<Longrightarrow> (\<And>d. sameControl d (f d)) \<Longrightarrow>
   map_of (eDownloads (setD i f e)) (dGid (obj (setD i f e) i)) = Some i"
  by (simp add: obj_setD sameControl_def)

lemma engineInv_cancelRestarted [simp]: "engineInv (cancelRestarted c e) = engineInv e"
  by (simp add: cancelRestarted_def)

text \<open>An update of the object that keeps its control fields, then a restart if it is active.\<close>

lemma retainRestart_inv:
  assumes "engineInv e" "i < length (eHeap e)" "map_of (eDownloads e) (dGid (obj e i)) = Some i"
  shows "engineInv (snd (restartActiveDownloadLocked i
     (if b then setD i (\<lambda>d. d\<lparr>dRetainReservationsAfterRun := dCtx d\<rparr>) e else e)))"
proof -
  let ?f = "\<lambda>d. d\<lparr>dRetainReservationsAfterRun := dCtx d\<rparr>"
  have "engineInv (setD i ?f e)" using assms by (intro engineInv_setD_same) (simp_all add: sameControl_def)
  moreover have "map_of (eDownloads (setD i ?f e)) (dGid (obj (setD i ?f e) i)) = Some i"
    using assms by (intro mapped_setD) (simp_all add: sameControl_def)
  ultimately show ?thesis using assms restartActive_inv by (cases b) simp_all
qed

lemma engineInv_commitURIs:
  assumes inv: "engineInv e" and i: "i < length (eHeap e)" "map_of (eDownloads e) (dGid (obj e i)) = Some i"
  shows "engineInv (commitURIs i us changed e)"
proof -
  let ?e = "setD i (\<lambda>d. d\<lparr>dUris := us\<rparr>) e"
  have u: "engineInv ?e" using inv i by (intro engineInv_setD_same) (simp_all add: sameControl_def)
  moreover have "map_of (eDownloads ?e) (dGid (obj ?e i)) = Some i" using i by (simp add: obj_setD)
  ultimately have "engineInv (snd (restartActiveDownloadLocked i
      (if b then setD i (\<lambda>d. d\<lparr>dRetainReservationsAfterRun := dCtx d\<rparr>) ?e else ?e)))" for b
    using i by (intro retainRestart_inv) simp_all
  with u show ?thesis by (auto simp: commitURIs_def Let_def case_prod_beta)
qed

lemma engineInv_ChangeURI: "engineInv e \<Longrightarrow> engineInv (snd (ChangeURI env gid fi del add position e))"
proof (cases "findDownloadLocked gid e")
  case (Inr i)
  assume inv: "engineInv e"
  have "i < length (eHeap e)" "map_of (eDownloads e) (dGid (obj e i)) = Some i"
    using findDownload_in[OF _ Inr] inv by (auto simp: engineInv_def coreInv_def)
  from engineInv_commitURIs[OF inv this] inv Inr show ?thesis
    by (auto simp: ChangeURI_def orFail_def Let_def case_prod_beta split: sum.splits)
next
  case (Inl er)
  assume inv: "engineInv e"
  with Inl show ?thesis by (auto simp: ChangeURI_def orFail_def split: sum.splits)
qed

lemma engineInv_reserve:
  "engineInv e \<Longrightarrow> updateOutputPathReservations rkey ps g r e = Inr e' \<Longrightarrow> engineInv e'"
  using coreInv_cong[OF core_updateOutputPathReservations, of rkey ps g r e e'] update_reservations_ok(3)[of e rkey ps g r e']
  by (simp add: engineInv_def)

lemma engineInv_PurgeDownloadResult: "engineInv e \<Longrightarrow> engineInv (snd (PurgeDownloadResult e))"
proof -
  assume inv: "engineInv e"
  have "(e\<lparr>eDownloads := filter (\<lambda>(g, i). g \<notin> set (eStopped e)) (eDownloads e),
      eStoppedSet := filter (\<lambda>g. g \<notin> set (eStopped e)) (eStoppedSet e), eStopped := []\<rparr>) = dropResults (set (eStopped e)) e"
    by (simp add: dropResults_def)
  moreover have "engineInv (dropResults (set (eStopped e)) e)"
    using inv coreInv_dropResults[of e "set (eStopped e)"] by (simp add: engineInv_def)
  ultimately show ?thesis by (simp add: PurgeDownloadResult_def)
qed

lemma engineInv_RemoveDownloadResult: "engineInv e \<Longrightarrow> engineInv (snd (RemoveDownloadResult gid e))"
proof (cases "findDownloadLocked gid e")
  case (Inr i)
  assume inv: "engineInv e"
  have found: "map_of (eDownloads e) (dGid (obj e i)) = Some i"
    using findDownload_in[OF _ Inr] inv by (auto simp: engineInv_def coreInv_def)
  let ?g = "dGid (obj e i)"
  have "(e\<lparr>eDownloads := AList.delete ?g (eDownloads e), eStoppedSet := removeAll ?g (eStoppedSet e),
      eStopped := filter (\<lambda>g. g \<noteq> ?g) (eStopped e)\<rparr>) = dropResults {?g} e"
    by (simp add: dropResults_def AList.delete_eq removeAll_filter_not_eq case_prod_beta eq_commute)
  moreover have "isTerminal (dStatus (obj e i)) \<Longrightarrow> {?g} \<subseteq> set (eStopped e)"
    using inv stat_mapped[OF found] by (simp add: engineInv_def coreInv_def stopInvBut_def)
  moreover have "{?g} \<subseteq> set (eStopped e) \<Longrightarrow> engineInv (dropResults {?g} e)"
    using inv coreInv_dropResults[of e "{?g}"] by (simp add: engineInv_def)
  ultimately show ?thesis using inv Inr by (simp add: RemoveDownloadResult_def Let_def)
qed (simp add: RemoveDownloadResult_def)

lemma engineInv_setGlobalOptions: "engineInv e \<Longrightarrow> engineInv (setGlobalOptions merged e)"
proof -
  have "core (setGlobalOptions merged e) = core e" by (simp add: core_def setGlobalOptions_def)
  moreover have "resInv (setGlobalOptions merged e) = resInv e" by (rule resInv_cong) (simp_all add: setGlobalOptions_def)
  ultimately show "engineInv e \<Longrightarrow> engineInv (setGlobalOptions merged e)"
    using coreInv_cong[of "setGlobalOptions merged e" e] by (simp add: engineInv_def)
qed

lemma engineInv_ChangeGlobalOption: "engineInv e \<Longrightarrow> engineInv (snd (ChangeGlobalOption opts e))"
  unfolding ChangeGlobalOption_def orFail_def Let_def
  by (auto split: sum.splits intro!: engineInv_prune engineInv_setGlobalOptions)

lemma engineInv_fold: "(\<And>x e. engineInv e \<Longrightarrow> engineInv (f x e)) \<Longrightarrow> engineInv e \<Longrightarrow> engineInv (fold f xs e)"
  by (induction xs arbitrary: e) auto

lemma engineInv_PauseAll: "engineInv e \<Longrightarrow> engineInv (snd (PauseAll e))"
  unfolding PauseAll_def by (auto intro: engineInv_fold engineInv_pause)

lemma engineInv_UnpauseAll: "engineInv e \<Longrightarrow> engineInv (snd (UnpauseAll e))"
  unfolding UnpauseAll_def by (auto intro: engineInv_fold engineInv_Unpause)

lemma engineInv_closeBegin: "engineInv e \<Longrightarrow> engineInv (closeBegin e)"
proof -
  assume inv: "engineInv e"
  let ?e = "e\<lparr>eDone := True, eCancelled := map snd (eRuns e) @ eCancelled e\<rparr>"
  have o: "obj ?e = obj e" "stat ?e = stat e" by (simp_all add: obj_def stat_def fun_eq_iff)
  have "coreInv ?e" using inv
    by (auto simp: engineInv_def coreInv_def dlInv_def waitInv_def runInv_def runGids_def stopInvBut_def o)
  moreover have "resInv ?e = resInv e" by (rule resInv_cong) simp_all
  ultimately show ?thesis using inv by (simp add: closeBegin_def engineInv_def coreInv_cong[of "signal ?e" ?e])
qed

lemma engineInv_commitOptions:
  assumes inv: "engineInv e" and i: "i < length (eHeap e)" "map_of (eDownloads e) (dGid (obj e i)) = Some i"
  shows "engineInv (commitOptions i opts merged newFiles transition restart e)"
proof -
  have step: "engineInv (setD i f x) \<and> i < length (eHeap (setD i f x)) \<and>
      map_of (eDownloads (setD i f x)) (dGid (obj (setD i f x) i)) = Some i"
    if "engineInv x \<and> i < length (eHeap x) \<and> map_of (eDownloads x) (dGid (obj x i)) = Some i" "\<And>d. sameControl d (f d)"
    for f x
    using that engineInv_setD_same[of x i f] by (simp add: obj_setD sameControl_def)
  define good where "good x \<longleftrightarrow> engineInv x \<and> i < length (eHeap x) \<and> map_of (eDownloads x) (dGid (obj x i)) = Some i" for x
  have set: "good x \<Longrightarrow> (\<And>d. sameControl d (f d)) \<Longrightarrow> good (setD i f x)" for f x
    unfolding good_def by (rule step)
  define e2 where "e2 = (case transition of
      Some nextPaths \<Rightarrow> setD i (\<lambda>d. d\<lparr>dReservationTransitionAfterRun := dCtx d, dReservationPathsAfterRun := nextPaths\<rparr>) e
    | None \<Rightarrow> e)"
  define e3 where "e3 = setD i (\<lambda>d. d\<lparr>dOptions := merged, dDir := optionString merged ''dir'', dOut := optionString merged ''out''\<rparr>) e2"
  define e4 where "e4 = (if optionPathChanged opts merged (obj e i)
      then setD i (\<lambda>d. d\<lparr>dPath := '''', dPathResetAfterRun := (if dCtx d \<noteq> None then dCtx d else dPathResetAfterRun d)\<rparr>) e3 else e3)"
  define e5 where "e5 = (case newFiles of
      Some (files, tot, completed) \<Rightarrow> setD i (\<lambda>d. d\<lparr>dTorrentFiles := files, dTotalLength := tot, dCompletedLen := completed\<rparr>) e4
    | None \<Rightarrow> e4)"
  have "good e" using inv i by (simp add: good_def)
  then have "good e2" unfolding e2_def by (cases transition) (auto intro!: set simp: sameControl_def)
  then have "good e3" unfolding e3_def by (rule set) (simp add: sameControl_def)
  then have "good e4" unfolding e4_def by (auto intro!: set simp: sameControl_def)
  then have g5: "good e5" unfolding e5_def by (cases newFiles) (auto intro!: set simp: sameControl_def)
  have "engineInv (snd (if restart then restartActiveDownloadLocked i
      (if b then setD i (\<lambda>d. d\<lparr>dRetainReservationsAfterRun := dCtx d\<rparr>) e5 else e5) else (None, e5)))" for b
    using g5 retainRestart_inv[of e5 i b] by (simp add: good_def)
  moreover have "commitOptions i opts merged newFiles transition restart e =
      (case (if restart then restartActiveDownloadLocked i
        (if dStatus (obj e i) = StatusActive \<and> (dKind (obj e i) = downloadKindTorrent \<or> \<not> optionPathChanged opts merged (obj e i))
         then setD i (\<lambda>d. d\<lparr>dRetainReservationsAfterRun := dCtx d\<rparr>) e5 else e5) else (None, e5))
       of (cancel, e6) \<Rightarrow> cancelRestarted cancel e6)"
    unfolding commitOptions_def Let_def e5_def e4_def e3_def e2_def by (rule refl)
  ultimately show ?thesis by (simp add: case_prod_beta)
qed

lemma reserve_keeps:
  "reserveOutputPaths rkey ps g e = Inr e' \<Longrightarrow> engineInv e \<Longrightarrow>
   engineInv e' \<and> eHeap e' = eHeap e \<and> eDownloads e' = eDownloads e \<and> obj e' = obj e"
  unfolding reserveOutputPaths_def
  using engineInv_reserve core_updateOutputPathReservations core_same(1,2) obj_core by blast

lemma engineInv_ChangeOption: "engineInv e \<Longrightarrow> engineInv (snd (ChangeOption env gid opts e))"
proof (cases "findDownloadLocked gid e")
  case (Inr i)
  assume inv: "engineInv e"
  have found: "i < length (eHeap e)" "map_of (eDownloads e) (dGid (obj e i)) = Some i"
    using findDownload_in[OF _ Inr] inv by (auto simp: engineInv_def coreInv_def)
  have c: "engineInv (snd (orFail (if b then reserveOutputPaths rk ps (dGid (obj e i)) e else Inr e) e
      (\<lambda>e1. (Inr ''OK'', commitOptions i opts m nf tr rs e1))))" for b rk ps m nf tr rs
  proof (cases "if b then reserveOutputPaths rk ps (dGid (obj e i)) e else Inr e")
    case (Inr e1)
    then have "engineInv e1 \<and> eHeap e1 = eHeap e \<and> eDownloads e1 = eDownloads e \<and> obj e1 = obj e"
      using inv reserve_keeps[of rk ps "dGid (obj e i)" e e1] by (cases b) auto
    then have "engineInv (commitOptions i opts m nf tr rs e1)" using found by (intro engineInv_commitOptions) auto
    then show ?thesis using Inr by simp
  qed (simp add: inv)
  show ?thesis
    unfolding ChangeOption_def Inr orFail_simps Let_def
    using inv c by (auto simp: orFail_def[of "validateOptionValues opts"] orFail_def[of "changeOptionPlan env opts (obj e i)"]
      split: list.splits sum.splits)
next
  case (Inl er)
  assume inv: "engineInv e"
  with Inl show ?thesis by (auto simp: ChangeOption_def orFail_def split: sum.splits list.splits)
qed

end
