(* ===== verification/Session.thy ===== *)
theory Session
  imports Engine_Inv "HOL-Library.List_Lexorder" "HOL-Library.Char_ord" "HOL-Library.Product_Lexorder"
begin

text \<open>
  The session file of session.go: its text format (\<open>parseSession\<close>, \<open>addOption\<close> and the writer), the
  codecs of the internal options, the snapshot of the engine that is written and the downloads
  \<open>loadSession\<close> restores. A file is its bytes. Base64 and JSON are the record \<open>sessionLib\<close>: the
  encoding of the list of explicit option keys and its decoding, and the base64 encoding of torrent data.
\<close>

section \<open>Format constants and data\<close>

definition sessionTorrentDataURIPrefix :: string where
  "sessionTorrentDataURIPrefix = ''data:application/x-bittorrent;base64,''"

definition maxSessionFileSize :: int where "maxSessionFileSize = 268435456"
definition maxSessionDownloads :: nat where "maxSessionDownloads = 10000"
definition maxSessionURIsPerDownload :: nat where "maxSessionURIsPerDownload = 65"
definition maxSessionOptionKeys :: nat where "maxSessionOptionKeys = maxDownloadOptionKeys * 2 + 4"
definition maxSessionEffectiveOptions :: nat where "maxSessionEffectiveOptions = maxDownloadOptionKeys * 2 + 2"
definition maxSessionOptionValues :: nat where "maxSessionOptionValues = 64"

record sessionDownload =
  sdGid :: string
  sdUris :: "string list"
  sdOptions :: options
  sdCreatedAt :: int
  sdOrder :: nat

record sessionItem =
  siLine :: nat
  siUris :: "string list"
  siOptions :: options

record sessionLib =
  slEncodeKeys :: "string list \<Rightarrow> string"
  slDecodeKeys :: "string \<Rightarrow> string list res"
  slB64 :: "string \<Rightarrow> string"

section \<open>Reading the text\<close>

text \<open>\<open>base64.StdEncoding.EncodedLen(n)\<close> is \<open>(n + 2) / 3 * 4\<close>.\<close>

definition sessionMaxLineSize :: int where
  "sessionMaxLineSize = (maxSupportedTorrentSize + 2) div 3 * 4 + int (length sessionTorrentDataURIPrefix) + 1048576"

definition badSessionKey :: "string \<Rightarrow> bool" where
  "badSessionKey key \<longleftrightarrow> key = '''' \<or> length key > 256 \<or> ContainsByte key (CHR ''='') \<or> hasSpace key"

definition addOption :: "string \<Rightarrow> optval \<Rightarrow> sessionItem \<Rightarrow> sessionItem res" where
  "addOption key val i =
     (if badSessionKey key then Inl (Errorf ''invalid option key %q'' [key])
      else
        (let valueText = sprint val in
         if length valueText > maxDownloadOptionValueSize
         then Inl (Errorf ''value for option %q is too large'' [key])
         else
           (case map_of (siOptions i) key of
              Some (VStrs p) \<Rightarrow>
                (if length p \<ge> maxSessionOptionValues then Inl (Errorf ''too many values for option %q'' [key])
                 else Inr (i\<lparr>siOptions := AList.update key (VStrs (p @ [valueText])) (siOptions i)\<rparr>))
            | Some p \<Rightarrow> Inr (i\<lparr>siOptions := AList.update key (VStrs [sprint p, valueText]) (siOptions i)\<rparr>)
            | None \<Rightarrow>
                (if length (siOptions i) \<ge> maxSessionOptionKeys then Inl (Errorf ''too many options'' [])
                 else Inr (i\<lparr>siOptions := AList.update key val (siOptions i)\<rparr>)))))"

definition isSessionOptionLine :: "string \<Rightarrow> bool" where
  "isSessionOptionLine line = (case line of [] \<Rightarrow> False | c # _ \<Rightarrow> c = CHR '' '' \<or> c = CHR 0x09)"

text \<open>The variables of the loop of \<open>parseSession\<close>.\<close>

record parseState =
  psItems :: "sessionItem list"
  psCurrent :: "sessionItem option"
  psLine :: nat
  psTotal :: int

definition flushItem :: "parseState \<Rightarrow> parseState" where
  "flushItem s =
     s\<lparr>psItems := psItems s @ (case psCurrent s of None \<Rightarrow> [] | Some i \<Rightarrow> if siUris i \<noteq> [] then [i] else []),
       psCurrent := None\<rparr>"

definition atLine :: "nat \<Rightarrow> err \<Rightarrow> err" where
  "atLine n er = ErrWrap (''line '' @ Itoa (int n) @ '': %w'') er"

definition optionLine :: "string \<Rightarrow> parseState \<Rightarrow> parseState res" where
  "optionLine trimmed s =
     (case psCurrent s of
        None \<Rightarrow> Inl (Errorf ''line %d: option without URI'' [Itoa (int (psLine s))])
      | Some cur \<Rightarrow>
         (case Cut trimmed (CHR ''='') of (key0, val, ok) \<Rightarrow>
            (if \<not> ok then Inl (Errorf ''line %d: invalid option'' [Itoa (int (psLine s))])
             else
               (let key = TrimSpace key0 in
                if key = '''' then Inl (Errorf ''line %d: invalid option'' [Itoa (int (psLine s))])
                else
                  (case addOption key (normalizeOptionValue (VStr (TrimSpace val))) cur of
                     Inl er \<Rightarrow> Inl (atLine (psLine s) er)
                   | Inr cur' \<Rightarrow> Inr (s\<lparr>psCurrent := Some cur'\<rparr>))))))"

definition uriLine :: "string \<Rightarrow> parseState \<Rightarrow> parseState res" where
  "uriLine trimmed s0 =
     (let s = flushItem s0; uris = Fields trimmed in
      if length uris > maxSessionURIsPerDownload then Inl (Errorf ''line %d: too many URIs'' [Itoa (int (psLine s))])
      else if length (psItems s) \<ge> maxSessionDownloads
      then Inl (Errorf ''line %d: too many session downloads'' [Itoa (int (psLine s))])
      else Inr (s\<lparr>psCurrent := Some \<lparr>siLine = psLine s, siUris = uris, siOptions = []\<rparr>\<rparr>))"

text \<open>\<open>bufio.ScanLines\<close> drops one carriage return before the line feed; a line that does not fit the
  scanner's buffer together with its end stops the scanner with \<open>bufio.ErrTooLong\<close>.\<close>

definition dropCR :: "string \<Rightarrow> string" where
  "dropCR raw = (if raw \<noteq> [] \<and> last raw = CHR 0x0D then butlast raw else raw)"

definition parseLine :: "string \<Rightarrow> parseState \<Rightarrow> parseState res" where
  "parseLine raw s0 =
     (if int (length raw) \<ge> sessionMaxLineSize
      then Inl (atLine (psLine s0 + 1) (Errorf ''bufio.Scanner: token too long'' []))
      else
        (let line = dropCR raw;
             s = s0\<lparr>psLine := psLine s0 + 1, psTotal := psTotal s0 + int (length line) + 1\<rparr>;
             trimmed = TrimSpace line in
         if psTotal s > maxSessionFileSize then Inl (Errorf ''session exceeds maximum size %d'' [Itoa maxSessionFileSize])
         else if trimmed \<noteq> '''' \<and> \<not> HasPrefix trimmed ''#'' then
           (if isSessionOptionLine line then optionLine trimmed s else uriLine trimmed s)
         else Inr s))"

fun parseLines :: "string list \<Rightarrow> parseState \<Rightarrow> parseState res" where
  "parseLines [] s = Inr s"
| "parseLines (raw # raws) s = bindR (parseLine raw s) (parseLines raws)"

definition scanLines :: "string \<Rightarrow> string list" where
  "scanLines content =
     (let ls = Split content (CHR 0x0A) in if last ls = [] then butlast ls else ls)"

definition parseSession :: "string \<Rightarrow> sessionItem list res" where
  "parseSession content =
     bindR (parseLines (scanLines content) \<lparr>psItems = [], psCurrent = None, psLine = 0, psTotal = 0\<rparr>)
       (\<lambda>s. Inr (psItems (flushItem s)))"

section \<open>Writing the text\<close>

definition validateSessionOptionValue :: "string \<Rightarrow> string \<Rightarrow> string \<Rightarrow> unit res" where
  "validateSessionOptionValue gid key val =
     (if length val > maxDownloadOptionValueSize
      then Inl (Errorf ''cannot serialize session download %s: option %q value is too large'' [gid, key])
      else if ContainsAny val [CHR 0x0D, CHR 0x0A]
      then Inl (Errorf ''cannot serialize session download %s: option %q value contains a line break'' [gid, key])
      else if TrimSpace val \<noteq> val
      then Inl (Errorf ''cannot serialize session download %s: option %q value has leading or trailing whitespace'' [gid, key])
      else Inr ())"

fun validateSessionItems :: "string \<Rightarrow> string \<Rightarrow> string list \<Rightarrow> unit res" where
  "validateSessionItems gid key [] = Inr ()"
| "validateSessionItems gid key (x # xs) =
     bindR (validateSessionOptionValue gid key x) (\<lambda>_. validateSessionItems gid key xs)"

fun validateSessionURIs :: "string \<Rightarrow> nat \<Rightarrow> string list \<Rightarrow> unit res" where
  "validateSessionURIs gid i [] = Inr ()"
| "validateSessionURIs gid i (raw # raws) =
     (if raw = '''' then Inl (Errorf ''cannot serialize session download %s: URI %d is empty'' [gid, Itoa (int i + 1)])
      else if hasSpace raw
      then Inl (Errorf ''cannot serialize session download %s: URI %d contains whitespace'' [gid, Itoa (int i + 1)])
      else if i = 0 \<and> HasPrefix raw ''#''
      then Inl (Errorf ''cannot serialize session download %s: first URI is parsed as a comment'' [gid])
      else validateSessionURIs gid (Suc i) raws)"

fun validateSessionOptions :: "string \<Rightarrow> options \<Rightarrow> unit res" where
  "validateSessionOptions gid [] = Inr ()"
| "validateSessionOptions gid ((key, val) # kvs) =
     (if key = '''' then Inl (Errorf ''cannot serialize session download %s: option key is empty'' [gid])
      else if length key > 256 \<or> ContainsByte key (CHR ''='') \<or> hasSpace key
      then Inl (Errorf (''cannot serialize session download %s: option key %q contains whitespace or '' @ [CHR 0x27, CHR ''='', CHR 0x27]) [gid, key])
      else
        bindR
          (case val of
             VStrs xs \<Rightarrow>
               (if length xs > maxSessionOptionValues
                then Inl (Errorf ''cannot serialize session download %s: too many values for option %q'' [gid, key])
                else validateSessionItems gid key xs)
           | v \<Rightarrow> validateSessionOptionValue gid key (sprint v))
          (\<lambda>_. validateSessionOptions gid kvs))"

definition validateSessionDownload :: "sysEnv \<Rightarrow> sessionDownload \<Rightarrow> unit res" where
  "validateSessionDownload env entry =
     (let torrentFirst = (case sdUris entry of [] \<Rightarrow> False
            | u # _ \<Rightarrow> HasPrefix u sessionTorrentDataURIPrefix \<or> isMagnetURI env u);
          uriLimit = (if torrentFirst then maxDownloadURIs + 1 else maxDownloadURIs) in
      if length (sdUris entry) > uriLimit
      then Inl (Errorf ''cannot serialize session download %s: too many URIs'' [sdGid entry])
      else bindR (validateSessionURIs (sdGid entry) 0 (sdUris entry)) (\<lambda>_.
        if length (sdOptions entry) > maxSessionOptionKeys
        then Inl (Errorf ''cannot serialize session download %s: too many options'' [sdGid entry])
        else validateSessionOptions (sdGid entry) (sdOptions entry)))"

text \<open>The lines of one entry: the URIs, then the options in the order of their sorted keys.\<close>

definition valueLines :: "string \<Rightarrow> optval \<Rightarrow> string list" where
  "valueLines k v =
     (case v of VStrs xs \<Rightarrow> map (\<lambda>x. ''  '' @ k @ ''='' @ x) xs | w \<Rightarrow> [''  '' @ k @ ''='' @ sprint w])"

definition entryLines :: "sessionDownload \<Rightarrow> string list" where
  "entryLines entry =
     Join (sdUris entry) [CHR 0x09]
     # concat (map (\<lambda>k. case map_of (sdOptions entry) k of None \<Rightarrow> [] | Some v \<Rightarrow> valueLines k v)
         (sort (map fst (sdOptions entry))))"

fun validateEntries2 :: "sysEnv \<Rightarrow> nat \<Rightarrow> sessionDownload list \<Rightarrow> unit res" where
  "validateEntries2 env n [] = Inr ()"
| "validateEntries2 env n (entry # entries) =
     (if sdUris entry = [] then validateEntries2 env n entries
      else bindR (validateSessionDownload env entry) (\<lambda>_.
        if n + 1 > maxSessionDownloads
        then Inl (Errorf ''cannot serialize more than %d session downloads'' [Itoa (int maxSessionDownloads)])
        else validateEntries2 env (n + 1) entries))"

definition sessionLines :: "sessionDownload list \<Rightarrow> string list" where
  "sessionLines entries = concat (map entryLines (filter (\<lambda>d. sdUris d \<noteq> []) entries))"

definition textOf :: "string list \<Rightarrow> string" where
  "textOf ls = concat (map (\<lambda>l. l @ [CHR 0x0A]) ls)"

text \<open>\<open>sessionSizeWriter\<close> refuses to pass its limit, whatever portions the buffered writer hands it.\<close>

definition sessionText :: "sysEnv \<Rightarrow> sessionDownload list \<Rightarrow> string res" where
  "sessionText env entries =
     bindR (validateEntries2 env 0 entries) (\<lambda>_.
       (let text = textOf (sessionLines entries) in
        if int (length text) > maxSessionFileSize
        then Inl (Errorf ''session exceeds maximum size %d'' [Itoa maxSessionFileSize])
        else Inr text))"

section \<open>Internal options\<close>

definition encodeSessionTorrentDataURI :: "sessionLib \<Rightarrow> string \<Rightarrow> string" where
  "encodeSessionTorrentDataURI sl dat = sessionTorrentDataURIPrefix @ slB64 sl dat"

text \<open>\<open>None\<close> when the text is no such URI. The decoder is \<open>seB64\<close> of the standard encoding: what it
  decodes and the error that stopped it; the limited reader stops before an error behind the limit.\<close>

definition decodeSessionTorrentDataURI :: "sysEnv \<Rightarrow> string \<Rightarrow> int \<Rightarrow> string option res" where
  "decodeSessionTorrentDataURI env raw maxSize0 =
     (if \<not> HasPrefix raw sessionTorrentDataURIPrefix then Inr None
      else
        (let encoded = drop (length sessionTorrentDataURIPrefix) raw;
             maxSize = (if maxSize0 \<le> 0 \<or> maxSize0 > maxSupportedTorrentSize then maxSupportedTorrentSize else maxSize0);
             (dat, er) = seB64 env False encoded in
         if int (length dat) > maxSize then Inl (torrentSizeError maxSize)
         else (case er of Some x \<Rightarrow> Inl (ErrWrap ''invalid session torrent data URI: %w'' x) | None \<Rightarrow> Inr (Some dat))))"

fun parseFinalizedItems :: "int list \<Rightarrow> string list \<Rightarrow> int list res" where
  "parseFinalizedItems indexes [] = Inr indexes"
| "parseFinalizedItems indexes (item0 # items) =
     (let item = TrimSpace item0 in
      case Atoi item of
        None \<Rightarrow> Inl (Errorf ''invalid %s index %q'' [sessionTorrentFinalizedOption, item])
      | Some index \<Rightarrow>
         (if index < 1 then Inl (Errorf ''invalid %s index %q'' [sessionTorrentFinalizedOption, item])
          else parseFinalizedItems (if index \<in> set indexes then indexes else indexes @ [index]) items))"

definition parseSessionTorrentFinalizedIndexes :: "options \<Rightarrow> (int list \<times> bool) res" where
  "parseSessionTorrentFinalizedIndexes opts =
     (if \<not> optionExplicit opts sessionTorrentFinalizedOption then Inr ([], False)
      else
        (let raw = TrimSpace (optionString opts sessionTorrentFinalizedOption) in
         if raw = '''' then Inr ([], True)
         else bindR (parseFinalizedItems [] (Split raw (CHR '',''))) (\<lambda>indexes. Inr (indexes, True))))"

definition encodeSessionTorrentFinalizedIndexes :: "int list \<Rightarrow> string" where
  "encodeSessionTorrentFinalizedIndexes indexes = Join (map Itoa (sort indexes)) '',''"

fun validateExplicitKeys :: "string list \<Rightarrow> string list \<Rightarrow> string list res" where
  "validateExplicitKeys explicit [] = Inr explicit"
| "validateExplicitKeys explicit (key # keys) =
     (if invalidOptionKey key then Inl (Errorf ''invalid explicit session option key %q'' [key])
      else validateExplicitKeys (key # explicit) keys)"

definition parseSessionExplicitOptions :: "sessionLib \<Rightarrow> options \<Rightarrow> (string list \<times> bool) res" where
  "parseSessionExplicitOptions sl opts =
     (if \<not> optionExplicit opts sessionExplicitOptionsOption then Inr ([], False)
      else
        (case slDecodeKeys sl (optionString opts sessionExplicitOptionsOption) of
           Inl er \<Rightarrow> Inl (ErrWrap (''invalid '' @ sessionExplicitOptionsOption @ '': %w'') er)
         | Inr keys \<Rightarrow>
            (if length keys > maxDownloadOptionKeys
             then Inl (Errorf ''invalid %s: too many option keys'' [sessionExplicitOptionsOption])
             else bindR (validateExplicitKeys [] keys) (\<lambda>explicit. Inr (explicit, True)))))"

definition explicitKeys :: "options \<Rightarrow> string list" where
  "explicitKeys opts = sort (filter (\<lambda>key. \<not> internalKey key \<and> key \<noteq> ''gid'' \<and> key \<noteq> ''pause'') (map fst opts))"

definition encodeSessionExplicitOptions :: "sessionLib \<Rightarrow> options \<Rightarrow> string" where
  "encodeSessionExplicitOptions sl opts = slEncodeKeys sl (explicitKeys opts)"

definition restoreSessionOptionLayers :: "options \<Rightarrow> string list \<Rightarrow> options" where
  "restoreSessionOptionLayers effective explicit =
     (let inOverlay = (\<lambda>key. key = ''gid'' \<or> key = ''pause'' \<or> key \<in> set explicit);
          norm = map (\<lambda>(key, val). (key, normalizeOptionValue val)) in
      layerOptions (norm (filter (\<lambda>(key, _). \<not> inOverlay key) effective))
        (norm (filter (\<lambda>(key, _). inOverlay key) effective)))"

definition validateRestoredOptionLayers :: "options \<Rightarrow> unit res" where
  "validateRestoredOptionLayers opts =
     (case validateOptionLayerSize opts of
        Inl er \<Rightarrow> Inl (ErrWrap ''too many explicit session options: %w'' er)
      | Inr _ \<Rightarrow>
         (case map_of opts optionBaseKey of
            Some (VOpts base) \<Rightarrow>
             (case validateOptionLayerSize base of
                Inl er \<Rightarrow> Inl (ErrWrap ''too many inherited session options: %w'' er)
              | Inr _ \<Rightarrow> Inr ())
          | _ \<Rightarrow> Inr ()))"

section \<open>The snapshot\<close>

definition sessionURIs :: "sessionLib \<Rightarrow> Download \<Rightarrow> string list" where
  "sessionURIs sl d =
     (if dKind d = downloadKindTorrent then
        (if dTorrentMagnet d \<noteq> '''' then dTorrentMagnet d # map uURI (dUris d)
         else if dTorrentData d \<noteq> '''' then encodeSessionTorrentDataURI sl (dTorrentData d) # map uURI (dUris d)
         else map uURI (dUris d))
      else map uURI (dUris d))"

definition sessionOptions :: "sessionLib \<Rightarrow> Download \<Rightarrow> options" where
  "sessionOptions sl d =
     (let o1 = AList.delete sessionExplicitOptionsOption (AList.delete sessionTorrentFinalizedOption (optionsForRPC (dOptions d)));
          o2 = AList.update sessionExplicitOptionsOption (VStr (encodeSessionExplicitOptions sl (dOptions d))) o1;
          o3 = (if dKind d = downloadKindTorrent \<and> dTorrentFinalized d \<noteq> []
                then AList.update sessionTorrentFinalizedOption (VStr (encodeSessionTorrentFinalizedIndexes (dTorrentFinalized d))) o2
                else o2);
          o4 = AList.delete ''save-session'' (AList.update ''gid'' (VStr (dGid d)) o3) in
      AList.update ''pause'' (VStr (if dStatus d = StatusPaused then ''true'' else ''false'')) o4)"

definition sessionEntry :: "sessionLib \<Rightarrow> Engine \<Rightarrow> string \<times> nat \<Rightarrow> sessionDownload" where
  "sessionEntry sl e = (\<lambda>(gid, i).
     (let d = obj e i in
      \<lparr>sdGid = dGid d, sdUris = sessionURIs sl d, sdOptions = sessionOptions sl d, sdCreatedAt = dCreatedAt d,
       sdOrder = (case indexOf gid (eWaiting e) of Some k \<Rightarrow> k | None \<Rightarrow> length (eWaiting e))\<rparr>))"

text \<open>The stable sort compares the queue position, then the creation time, then the gid.\<close>

definition sessionSnapshot :: "sessionLib \<Rightarrow> Engine \<Rightarrow> sessionDownload list" where
  "sessionSnapshot sl e =
     sort_key (\<lambda>d. (sdOrder d, sdCreatedAt d, sdGid d))
       (map (sessionEntry sl e)
         (filter (\<lambda>(gid, i). dStatus (obj e i) \<noteq> StatusComplete \<and> dStatus (obj e i) \<noteq> StatusRemoved) (eDownloads e)))"

section \<open>Restoring downloads\<close>

definition loadItemOptions :: "sessionLib \<Rightarrow> options \<Rightarrow> options \<Rightarrow> ((int list \<times> bool) \<times> options) res" where
  "loadItemOptions sl global opts =
     bindR (parseSessionTorrentFinalizedIndexes opts) (\<lambda>fin.
       (let o1 = AList.delete sessionTorrentFinalizedOption opts in
        bindR (parseSessionExplicitOptions sl o1) (\<lambda>(explicit, hasExplicit).
          (let o2 = AList.delete sessionExplicitOptionsOption o1;
               optionLimit = (if hasExplicit then maxSessionEffectiveOptions else maxDownloadOptionKeys) in
           bindR (validateOptionValuesWithLimit o2 optionLimit) (\<lambda>_.
             if hasExplicit then
               (let merged = restoreSessionOptionLayers o2 explicit in
                bindR (validateRestoredOptionLayers merged) (\<lambda>_. Inr (fin, merged)))
             else Inr (fin, layerOptions global o2))))))"

definition loadItemDownload :: "sysEnv \<Rightarrow> int \<Rightarrow> string \<Rightarrow> string list \<Rightarrow> options \<Rightarrow> Download res" where
  "loadItemDownload env now gid uris merged =
     bindR (decodeSessionTorrentDataURI env (hd uris) (torrentSizeLimit merged)) (\<lambda>dat.
       case dat of
         Some d \<Rightarrow>
           bindR (validateWebSeeds env (tl uris)) (\<lambda>_.
           bindR (torrentMetaInfo (seLib env) d) (\<lambda>(mi, info).
           bindR (torrentSelectionAndIndexOut info merged) (\<lambda>_.
           newTorrentDownload (seLib env) (seRKey env) now gid d '''' (tl uris) merged (Some mi) info)))
       | None \<Rightarrow>
          (if isMagnetURI env (hd uris) then
             (if length (tl uris) > maxDownloadURIs then Inl (Errorf ''too many magnet webseeds'' [])
              else bindR (validateWebSeeds env (tl uris)) (\<lambda>_.
                newMagnetDownload (seLib env) (seEmptyInfo env) (seRKey env) now gid (hd uris) (tl uris) merged))
           else if length uris > maxDownloadURIs then Inl (Errorf ''too many URIs'' [])
           else bindR (validateURIs env uris) (\<lambda>_. Inr (newDownload now gid uris merged))))"

text \<open>One iteration of the loop of \<open>loadSession\<close>; \<open>rnd\<close> is the random gid of a download without one.\<close>

definition loadItem :: "sysEnv \<Rightarrow> sessionLib \<Rightarrow> string \<Rightarrow> sessionItem \<Rightarrow> Engine \<Rightarrow> Engine res" where
  "loadItem env sl rnd item e =
     (if siUris item = [] then Inr e
      else bindR (loadItemOptions sl (eGlobal e) (siOptions item)) (\<lambda>((fin, hasFin), merged).
        bindR (if isMagnetURI env (hd (siUris item)) then validateTorrentExtensionOptions merged else Inr ()) (\<lambda>_.
          (let opt = optionString merged ''gid''; gid = (if opt = '''' then rnd else opt) in
           if opt \<noteq> '''' \<and> \<not> validGID opt then Inl ErrInvalidGID
           else if map_of (eDownloads e) gid \<noteq> None then Inl (Errorf ''gid already exists'' [])
           else bindR (loadItemDownload env (eClock e) gid (siUris item) merged) (\<lambda>d0.
             bindR
               (if hasFin then
                  (if dKind d0 \<noteq> downloadKindTorrent
                   then Inl (Errorf ''%s is only valid for torrent session entries'' [sessionTorrentFinalizedOption])
                   else restoreTorrentFinalized fin d0)
                else Inr d0)
               (\<lambda>d1.
                 (let paused = optionBool merged ''pause'';
                      d = (if paused then d1\<lparr>dStatus := StatusPaused\<rparr> else d1);
                      e1 = (if paused then e else insertWaitingLocked gid None e) in
                  Inr (e1\<lparr>eHeap := eHeap e1 @ [d], eDownloads := AList.update gid (length (eHeap e1)) (eDownloads e1)\<rparr>))))))))"

text \<open>Every error of an item is reported with the path and the item's line.\<close>

fun loadItems :: "sysEnv \<Rightarrow> sessionLib \<Rightarrow> string \<Rightarrow> (nat \<Rightarrow> string) \<Rightarrow> sessionItem list \<Rightarrow> Engine \<Rightarrow> Engine res" where
  "loadItems env sl path rnd [] e = Inr e"
| "loadItems env sl path rnd (item # items) e =
     (case loadItem env sl (rnd (siLine item)) item e of
        Inl er \<Rightarrow> Inl (ErrWrap (path @ '':'' @ Itoa (int (siLine item)) @ '': %w'') er)
      | Inr e' \<Rightarrow> loadItems env sl path rnd items e')"

definition loadSession :: "sysEnv \<Rightarrow> sessionLib \<Rightarrow> string \<Rightarrow> string res \<Rightarrow> (nat \<Rightarrow> string) \<Rightarrow> Engine \<Rightarrow> Engine res" where
  "loadSession env sl path content rnd e =
     bindR content (\<lambda>c. bindR (parseSession c) (\<lambda>items. loadItems env sl path rnd items e))"

section \<open>Construction with an input file\<close>

definition newEngineWithInput ::
    "sysEnv \<Rightarrow> sessionLib \<Rightarrow> string res \<Rightarrow> int \<Rightarrow> int \<Rightarrow> string \<Rightarrow> string \<Rightarrow> string \<Rightarrow> string res \<Rightarrow> (nat \<Rightarrow> string) \<Rightarrow> string \<Rightarrow> int \<Rightarrow> Engine res" where
  "newEngineWithInput env sl absDir maxConcurrent maxDownloadResult userAgent saveSession inputFile content rnd sid now =
     bindR (NewEngine absDir maxConcurrent maxDownloadResult userAgent saveSession sid now) (\<lambda>e.
       if inputFile \<noteq> '''' then loadSession env sl inputFile content rnd e else Inr e)"

section \<open>Restored downloads keep the invariant\<close>

lemma engineInv_core_same:
  "core e' = core e \<Longrightarrow> ePathReservations e' = ePathReservations e \<Longrightarrow> eReservedPathsByGID e' = eReservedPathsByGID e \<Longrightarrow>
   engineInv e \<Longrightarrow> engineInv e'"
  using coreInv_cong[of e' e] resInv_cong[of e' e] by (simp add: engineInv_def)


lemma restoreTorrentFinalized_fresh: "restoreTorrentFinalized ix d = Inr d' \<Longrightarrow> freshFor g d \<Longrightarrow> freshFor g d'"
  by (auto simp: restoreTorrentFinalized_def freshFor_def bindR_eq_Inr split: prod.splits)

lemma loadItemDownload_fresh: "loadItemDownload env now g uris merged = Inr d \<Longrightarrow> freshFor g d"
  by (auto simp: loadItemDownload_def bindR_eq_Inr newDownload_fresh split: option.splits if_splits prod.splits
      dest: newTorrentDownload_fresh newMagnetDownload_fresh)

lemma loadItem_admit:
  assumes "loadItem env sl rnd item e = Inr e'" "siUris item \<noteq> []"
  obtains merged build where "admitDownload rnd merged build None e = (Inr (if optionString merged ''gid'' = '''' then rnd else optionString merged ''gid''), saveSessionBestEffort (signal e'))"
    "\<And>g d. build g = Inr d \<Longrightarrow> freshFor g d"
proof -
  obtain fin hasFin merged where m: "loadItemOptions sl (eGlobal e) (siOptions item) = Inr ((fin, hasFin), merged)"
    using assms by (auto simp: loadItem_def bindR_eq_Inr)
  define build where "build g = bindR (loadItemDownload env (eClock e) g (siUris item) merged) (\<lambda>d0.
    if hasFin then (if dKind d0 \<noteq> downloadKindTorrent
         then Inl (Errorf ''%s is only valid for torrent session entries'' [sessionTorrentFinalizedOption])
         else restoreTorrentFinalized fin d0) else Inr d0)" for g
  have "\<And>g d. build g = Inr d \<Longrightarrow> freshFor g d"
    by (auto simp: build_def bindR_eq_Inr split: if_splits dest: loadItemDownload_fresh restoreTorrentFinalized_fresh)
  moreover have "admitDownload rnd merged build None e = (Inr (if optionString merged ''gid'' = '''' then rnd else optionString merged ''gid''), saveSessionBestEffort (signal e'))"
    using assms m by (auto simp: loadItem_def bindR_eq_Inr admitDownload_def build_def Let_def split: if_splits)
  ultimately show thesis using that by blast
qed

lemma engineInv_loadItem: "engineInv e \<Longrightarrow> loadItem env sl rnd item e = Inr e' \<Longrightarrow> engineInv e'"
proof (cases "siUris item = []")
  case False
  assume inv: "engineInv e" and l: "loadItem env sl rnd item e = Inr e'"
  obtain merged build where a: "snd (admitDownload rnd merged build None e) = saveSessionBestEffort (signal e')"
      and b: "\<And>g d. build g = Inr d \<Longrightarrow> freshFor g d"
    using loadItem_admit[OF l False] by (metis snd_conv)
  have "engineInv (snd (admitDownload rnd merged build None e))" by (rule engineInv_admit[OF inv]) (rule b)
  then have "engineInv (saveSessionBestEffort (signal e'))" unfolding a .
  then show ?thesis by (rule engineInv_core_same[rotated 3]) (simp_all add: go_defs core_def)
qed (simp add: loadItem_def)

lemma engineInv_loadItems: "engineInv e \<Longrightarrow> loadItems env sl path rnd items e = Inr e' \<Longrightarrow> engineInv e'"
  by (induction env sl path rnd items e rule: loadItems.induct) (auto split: sum.splits dest: engineInv_loadItem)

lemma engineInv_loadSession: "engineInv e \<Longrightarrow> loadSession env sl path content rnd e = Inr e' \<Longrightarrow> engineInv e'"
  by (auto simp: loadSession_def bindR_eq_Inr dest: engineInv_loadItems)

lemma engineInv_new: "NewEngine absDir mc mr ua save sid now = Inr e \<Longrightarrow> engineInv e"
  by (auto simp: NewEngine_def bindR_eq_Inr Let_def engineInv_def coreInv_def dlInv_def waitInv_def runInv_def stopInvBut_def
      stat_def runGids_def resInv_def owner_def pathsOf_def)

lemma engineInv_newWithInput: "newEngineWithInput env sl absDir mc mr ua save inputFile content rnd sid now = Inr e \<Longrightarrow> engineInv e"
  by (auto simp: newEngineWithInput_def bindR_eq_Inr split: if_splits intro: engineInv_new engineInv_loadSession)

end
