(* ===== verification/Engine_Steps.thy ===== *)
theory Engine_Steps
  imports Session
begin

text \<open>
  The engine as a transition system. A step is one critical section: a call of the API, a turn of the
  scheduler, something a run does to its own download, or the end of a run. Because every step holds
  the engine's lock, an execution of the concurrent program is a sequence of such steps. The theorems
  here are about all reachable engines.
\<close>

section \<open>Transition systems\<close>

locale invariant_system =
  fixes init :: "'s \<Rightarrow> bool" and step :: "'s \<Rightarrow> 's \<Rightarrow> bool" and inv :: "'s \<Rightarrow> bool"
  assumes init_inv: "init s \<Longrightarrow> inv s"
    and step_inv: "inv s \<Longrightarrow> step s t \<Longrightarrow> inv t"
begin

definition reach :: "'s \<Rightarrow> bool" where
  "reach t \<longleftrightarrow> (\<exists>s. init s \<and> step\<^sup>*\<^sup>* s t)"

lemma reach_init: "init s \<Longrightarrow> reach s"
  unfolding reach_def by blast

lemma reach_step: "reach s \<Longrightarrow> step s t \<Longrightarrow> reach t"
  unfolding reach_def by (meson rtranclp.rtrancl_into_rtrancl)

lemma reach_inv:
  assumes "reach t" shows "inv t"
proof -
  from assms obtain s where "init s" "step\<^sup>*\<^sup>* s t" unfolding reach_def by blast
  from this(2) init_inv[OF this(1)] show ?thesis by induction (auto intro: step_inv)
qed

lemma reach_strengthen:
  assumes "reach s" "step\<^sup>*\<^sup>* s t" shows "inv t"
  using assms reach_inv unfolding reach_def by (meson rtranclp_trans)

end

section \<open>The steps of the engine\<close>

inductive estep :: "sysEnv \<Rightarrow> (string \<Rightarrow> bool res) \<Rightarrow> Engine \<Rightarrow> Engine \<Rightarrow> bool" for env st where
  addURI: "estep env st e (snd (AddURI env rnd uris opts position e))"
| addTorrent: "estep env st e (snd (addTorrentCommit env rnd prepared uris position e))"
| remove: "estep env st e (snd (remove gid e))"
| pause: "estep env st e (snd (pause gid e))"
| pauseAll: "estep env st e (snd (PauseAll e))"
| unpause: "estep env st e (snd (Unpause gid e))"
| unpauseAll: "estep env st e (snd (UnpauseAll e))"
| changePosition: "estep env st e (snd (ChangePosition gid pos how e))"
| changeURI: "estep env st e (snd (ChangeURI env gid fi del add position e))"
| changeOption: "estep env st e (snd (ChangeOption env gid opts e))"
| changeGlobal: "estep env st e (snd (ChangeGlobalOption opts e))"
| purge: "estep env st e (snd (PurgeDownloadResult e))"
| removeResult: "estep env st e (snd (RemoveDownloadResult gid e))"
| subscribe: "estep env st e (snd (Subscribe buffer e))"
| unsubscribe: "estep env st e (unsubscribe i e)"
| requestShutdown: "estep env st e (RequestShutdown force e)"
| scheduler: "estep env st e (scheduler e)"
| finish: "r \<in> set (eRuns e) \<Longrightarrow> estep env st e (finishDownload (seRKey env) r er msg e)"
| runWrite: "r \<in> set (eRuns e) \<Longrightarrow> (\<And>d. sameControl d (f d)) \<Longrightarrow> estep env st e (setD (fst r) f e)"
| runReserve: "r \<in> set (eRuns e) \<Longrightarrow> reserveOutputPath (seRKey env) st p (dGid (obj e (fst r))) rename e = Inr (q, e') \<Longrightarrow>
    estep env st e e'"
| runReserveAll: "r \<in> set (eRuns e) \<Longrightarrow> reserveOutputPaths (seRKey env) ps (dGid (obj e (fst r))) e = Inr e' \<Longrightarrow> estep env st e e'"
| runReplaceAll: "r \<in> set (eRuns e) \<Longrightarrow> replaceOutputPaths (seRKey env) ps (dGid (obj e (fst r))) e = Inr e' \<Longrightarrow> estep env st e e'"
| clock: "estep env st e (e\<lparr>eClock := t\<rparr>)"
| closeBegin: "estep env st e (closeBegin e)"
| closeFinish: "eDone e \<Longrightarrow> eRuns e = [] \<Longrightarrow> estep env st e (closeFinish e)"

inductive_cases estepE [elim]: "estep env st e e'"

text \<open>An engine as the program starts with it: new, with or without the downloads of a session file.\<close>

definition einit :: "sysEnv \<Rightarrow> Engine \<Rightarrow> bool" where
  "einit env e \<longleftrightarrow> (\<exists>sl absDir mc mr ua save inputFile content rnd sid now.
     newEngineWithInput env sl absDir mc mr ua save inputFile content rnd sid now = Inr e)"

lemma engineInv_scheduler: "engineInv e \<Longrightarrow> engineInv (scheduler e)"
proof -
  assume "engineInv e"
  then have "engineInv (e\<lparr>eWake := False\<rparr>)" by (rule engineInv_core_same[rotated 3]) (simp_all add: core_def)
  then show ?thesis using \<open>engineInv e\<close> by (simp add: scheduler_def engineInv_schedule)
qed

lemma engineInv_notifications:
  assumes "engineInv e"
  shows "engineInv (snd (Subscribe buffer e))" "engineInv (unsubscribe i e)" "engineInv (RequestShutdown force e)"
    "engineInv (closeFinish e)" "engineInv (e\<lparr>eClock := t\<rparr>)"
  using assms
  by (auto intro!: engineInv_core_same[OF _ _ _ assms] simp: core_def Subscribe_def unsubscribe_def RequestShutdown_def
      closeFinish_def closeSubscribers_def saveSessionBestEffort_def Let_def split: option.splits)

lemma engineInv_step:
  assumes "engineInv e" "estep env st e e'" shows "engineInv e'"
  using assms(2)
proof cases
  case (finish r er msg)
  then show ?thesis using engineInv_finishDownload[OF assms(1), of "fst r" "snd r"] by simp
next
  case (runWrite r f)
  then have "fst r < length (eHeap e)"
    using assms(1) by (cases r) (auto simp: engineInv_def coreInv_def runInv_def)
  with runWrite show ?thesis using engineInv_setD_same[OF assms(1)] by blast
next
  case (runReserve r p rename q)
  then obtain k where "owner e k = None \<or> owner e k = Some (dGid (obj e (fst r)))"
      "e' = recordPathReservationLocked k (dGid (obj e (fst r))) e"
    using reserveOutputPath_ok[OF runReserve(2)] by blast
  then show ?thesis using assms(1) coreInv_cong[of e' e] resInv_record[of e k] by (simp add: engineInv_def)
next
  case (runReserveAll r ps)
  then show ?thesis using engineInv_reserve[OF assms(1)] by (simp add: reserveOutputPaths_def)
next
  case (runReplaceAll r ps)
  then show ?thesis using engineInv_reserve[OF assms(1)] by (simp add: replaceOutputPaths_def)
qed (use assms(1) in \<open>simp_all add: engineInv_AddURI engineInv_addTorrentCommit engineInv_remove engineInv_pause engineInv_PauseAll
  engineInv_Unpause engineInv_UnpauseAll engineInv_ChangePosition engineInv_ChangeURI engineInv_ChangeOption
  engineInv_ChangeGlobalOption engineInv_PurgeDownloadResult engineInv_RemoveDownloadResult engineInv_notifications
  engineInv_scheduler engineInv_closeBegin\<close>)

lemma engineInv_init: "einit env e \<Longrightarrow> engineInv e"
  unfolding einit_def by (auto intro: engineInv_newWithInput)

interpretation eng: invariant_system "einit env" "estep env st" engineInv for env st
  by unfold_locales (auto intro: engineInv_init engineInv_step)

text \<open>A reachable engine.\<close>

definition reachable :: "sysEnv \<Rightarrow> (string \<Rightarrow> bool res) \<Rightarrow> Engine \<Rightarrow> bool" where
  "reachable env st e \<longleftrightarrow> (\<exists>s. einit env s \<and> (estep env st)\<^sup>*\<^sup>* s e)"

lemma reachable_inv: "reachable env st e \<Longrightarrow> engineInv e"
  using eng.reach_inv[of env st e] by (simp add: reachable_def eng.reach_def)

lemma exampleEngine_new: "NewEngine (Inr ''/dl'') 0 0 '''' '''' ''s'' 0 = Inr exampleEngine"
  by (simp add: exampleEngine_def NewEngine_def Let_def)

lemma exampleEngine_reachable: "reachable env st exampleEngine"
proof -
  have "newEngineWithInput env undefined (Inr ''/dl'') 0 0 '''' '''' '''' undefined undefined ''s'' 0 = Inr exampleEngine"
    using exampleEngine_new by (simp add: newEngineWithInput_def)
  then have "einit env exampleEngine" unfolding einit_def by blast
  then show ?thesis unfolding reachable_def by blast
qed

section \<open>Every download is in its place\<close>


text \<open>C2: In every reachable engine at most one run is live per gid, even when a gid is removed and
  added again while its old run has not ended. The active set counts the live runs, and a run that
  ends always finds the context it was started with, so the branch of \<open>finishDownload\<close> for a
  superseded run is never taken.\<close>

theorem one_run_per_gid:
  assumes "reachable env st e" "(i, c) \<in> set (eRuns e)"
  shows "dCtx (obj e i) = Some c \<and> dGid (obj e i) \<in> set (eActive e) \<and> length (eActive e) = length (eRuns e) \<and>
    (\<forall>j x. (j, x) \<in> set (eRuns e) \<longrightarrow> dGid (obj e j) = dGid (obj e i) \<longrightarrow> j = i \<and> x = c)"
proof -
  have inv: "runInv e" using reachable_inv[OF assms(1)] by (simp add: engineInv_def coreInv_def)
  have inj: "inj_on (\<lambda>r. dGid (obj e (fst r))) (set (eRuns e))"
    using inv by (simp add: runInv_def runGids_def distinct_map)
  have "j = i \<and> x = c" if "(j, x) \<in> set (eRuns e)" "dGid (obj e j) = dGid (obj e i)" for j x
    using inj_onD[OF inj, of "(j, x)" "(i, c)"] that assms(2) by simp
  moreover have "dGid (obj e i) \<in> set (runGids e)" using assms(2) unfolding runGids_def by (force intro: image_eqI)
  moreover have "length (eActive e) = length (eRuns e)"
    using inv distinct_card[of "eActive e"] distinct_card[of "runGids e"] by (simp add: runInv_def runGids_def)
  ultimately show ?thesis using inv assms(2) unfolding runInv_def by blast
qed

section \<open>An example execution\<close>

definition exampleEnv :: sysEnv where
  "exampleEnv = \<lparr>seURLParse = (\<lambda>_. Some \<lparr>urlScheme = ''http'', urlHost = ''h''\<rparr>), seRKey = Inr, seLib = exampleLib,
     seEmptyInfo = (\<lambda>_. v1Example), seLive = (\<lambda>_. Inr None), seB64 = (\<lambda>_ _. ('''', None))\<rparr>"

definition gidA :: string where "gidA = ''00000000000000aa''"

definition addedEngine :: Engine where
  "addedEngine = snd (AddURI exampleEnv gidA [''http://h/f''] [] None exampleEngine)"

definition runEngine :: Engine where
  "runEngine = scheduler addedEngine"

lemma reachable_step: "reachable env st e \<Longrightarrow> estep env st e e' \<Longrightarrow> reachable env st e'"
  using eng.reach_step[of env st e e'] by (simp add: reachable_def eng.reach_def)

lemma addedEngine_reachable: "reachable exampleEnv st addedEngine"
  unfolding addedEngine_def by (rule reachable_step[OF exampleEngine_reachable]) (rule estep.addURI)

lemma runEngine_reachable: "reachable exampleEnv st runEngine"
  unfolding runEngine_def by (rule reachable_step[OF addedEngine_reachable]) (rule estep.scheduler)

text \<open>The values the default options give.\<close>

lemma example_global:
  "eGlobal exampleEngine = AList.update ''user-agent'' (VStr ''goaria/0.3.0'') (defaultOptions ''/dl'' 5 1000)"
  by (simp add: exampleEngine_def NewEngine_def Let_def)

lemma example_value: "optionValue (eGlobal exampleEngine) key =
    (case map_of (eGlobal exampleEngine) key of Some v \<Rightarrow> (if v = VNil then None else Some v) | None \<Rightarrow> None)"
  by (rule optionValue_flat) (simp add: example_global defaultOptions_def optionBaseKey_def)

lemma example_options:
  "optionString (layerOptions (eGlobal exampleEngine) []) ''gid'' = ''''"
  "\<not> optionBool (layerOptions (eGlobal exampleEngine) []) ''pause''"
  "optionInt (eGlobal exampleEngine) ''max-concurrent-downloads'' n = 5"
proof -
  have l: "\<not> internalKey k \<Longrightarrow> optionString (layerOptions (eGlobal exampleEngine) []) k = optionString (eGlobal exampleEngine) k" for k
    by (rule layer.string_unwritten) simp_all
  have i: "\<not> internalKey ''gid''" "\<not> internalKey ''pause''"
    by (simp_all add: internalKey_def optionBaseKey_def sessionTorrentFinalizedOption_def sessionExplicitOptionsOption_def)
  have g: "optionValue (eGlobal exampleEngine) ''gid'' = None" "optionValue (eGlobal exampleEngine) ''pause'' = None"
    "optionValue (eGlobal exampleEngine) ''max-concurrent-downloads'' = Some (VStr (Itoa 5))"
    unfolding example_value by (simp_all add: example_global defaultOptions_def)
  show "optionString (layerOptions (eGlobal exampleEngine) []) ''gid'' = ''''"
    "\<not> optionBool (layerOptions (eGlobal exampleEngine) []) ''pause''"
    using l i g by (simp_all add: optionBool_def optionString_def)
  show "optionInt (eGlobal exampleEngine) ''max-concurrent-downloads'' n = 5"
    using g(3) Atoi_Itoa[of 5] by (simp add: optionInt_def optionString_def isInt64_def)
qed

lemma addedEngine_eq:
  "addedEngine = saveSessionBestEffort (signal (exampleEngine\<lparr>eWaiting := [gidA],
     eHeap := [newDownload 0 gidA [''http://h/f''] (layerOptions (eGlobal exampleEngine) [])], eDownloads := [(gidA, 0)]\<rparr>))"
proof -
  have "validateOptionValues [] = Inr ()" by (simp add: options_eval)
  moreover have "\<not> EqualFold ''http'' ''magnet''" by code_simp
  moreover have "eClock exampleEngine = 0" by (simp add: exampleEngine_def NewEngine_def Let_def)
  ultimately show ?thesis
    by (simp add: addedEngine_def AddURI_def isMagnetURI_def validateHTTPURI_def exampleEnv_def maxDownloadURIs_def
        admitDownload_def example_options insertWaitingLocked_def Let_def)
qed

lemma addedEngine_facts:
  "eWaiting addedEngine = [gidA]" "eDownloads addedEngine = [(gidA, 0)]" "dGid (obj addedEngine 0) = gidA"
  "dStatus (obj addedEngine 0) = StatusWaiting" "\<not> eDone addedEngine"
  by (simp_all add: addedEngine_eq go_defs obj_def newDownload_def zeroDownload_def)

lemma runEngine_facts:
  "eRuns runEngine = [(0, 0)]" "eActive runEngine = [gidA]" "eWaiting runEngine = []"
  "eDownloads runEngine = [(gidA, 0)]" "dGid (obj runEngine 0) = gidA" "dStatus (obj runEngine 0) = StatusActive"
  "length (eHeap runEngine) = 1" "\<not> eDone runEngine" "dKind (obj runEngine 0) = downloadKindURI"
proof -
  have "\<not> eDone addedEngine" "eWake addedEngine" by (simp_all add: addedEngine_eq go_defs)
  then show "eRuns runEngine = [(0, 0)]" "eActive runEngine = [gidA]" "eWaiting runEngine = []"
    "eDownloads runEngine = [(gidA, 0)]" "dGid (obj runEngine 0) = gidA" "dStatus (obj runEngine 0) = StatusActive"
    "length (eHeap runEngine) = 1" "\<not> eDone runEngine" "dKind (obj runEngine 0) = downloadKindURI"
    by (simp_all add: runEngine_def scheduler_def schedule_def addedEngine_eq saveSessionBestEffort_def signal_def
        notify_def example_options obj_def setD_def setObj_def startRun_def newDownload_def zeroDownload_def Let_def)
qed


theorem one_run_per_gid_witness:
  "dCtx (obj runEngine 0) = Some 0 \<and> length (eActive runEngine) = length (eRuns runEngine)"
  using one_run_per_gid[OF runEngine_reachable, of 0 0] by (simp add: runEngine_facts)

section \<open>Scheduling\<close>

lemma scheduleLoop_bound:
  "scheduleLoop m n e starts = (e', starts') \<Longrightarrow> int (length (eActive e')) \<le> max (int (length (eActive e))) m"
proof (induction n arbitrary: e starts)
  case (Suc n)
  show ?case
  proof (cases "\<not> eDone e \<and> int (length (eActive e)) < m \<and> eWaiting e \<noteq> []")
    case False
    then have "e' = e" using Suc.prems scheduleLoop_stop[OF False] by (metis prod.inject)
    then show ?thesis by simp
  next
    case True
    with Suc.prems obtain e1 s1 where "scheduleLoop m n e1 s1 = (e', starts')"
      and "length (eActive e1) \<le> Suc (length (eActive e))"
      unfolding scheduleLoop.simps if_P[OF True] Let_def
      by (auto split: if_splits option.splits)
    from Suc.IH[OF this(1)] this(2) True show ?thesis by linarith
  qed
qed simp

text \<open>One turn of the loop on a queue whose head is waiting and has no run: it is started.\<close>

lemma scheduleLoop_start:
  assumes inv: "coreInv (e\<lparr>eRuns := eRuns e @ starts\<rparr>)" and go: "\<not> eDone e" "int (length (eActive e)) < m"
    and w: "eWaiting e = g # w" and a: "g \<notin> set (eActive e)"
  shows "\<exists>e2 s2. scheduleLoop m (Suc n) e starts = scheduleLoop m n e2 s2 \<and> eWaiting e2 = w \<and> eActive e2 = eActive e @ [g] \<and>
    \<not> eDone e2 \<and> coreInv (e2\<lparr>eRuns := eRuns e2 @ s2\<rparr>)"
proof -
  obtain i where m: "map_of (eDownloads e) g = Some i" and s: "dStatus (obj e i) = StatusWaiting"
    using inv w by (auto simp: coreInv_def waitInv_def stat_def)
  let ?f = "\<lambda>d. d\<lparr>dCtx := Some (eNextCtx e), dCancel := Some (eNextCtx e), dStatus := StatusActive, dErrorCode := '''',
      dErrorMessage := '''', dDownloadBPS := 0, dConnections := 0\<rparr>"
  let ?e2 = "(setD i ?f (e\<lparr>eWaiting := w\<rparr>))\<lparr>eActive := eActive e @ [g], eNextCtx := Suc (eNextCtx e)\<rparr>"
  let ?s2 = "starts @ [(i, eNextCtx e)]"
  have one: "scheduleLoop m (Suc 0) e starts = (?e2, ?s2)" using go w a m s by (simp add: Let_def)
  have "coreInv (?e2\<lparr>eRuns := eRuns ?e2 @ ?s2\<rparr>)" using scheduleLoop_inv[OF one inv] .
  moreover have "scheduleLoop m (Suc n) e starts = scheduleLoop m n ?e2 ?s2" using go w a m s by (simp add: Let_def)
  ultimately show ?thesis using go by (intro exI[of _ ?e2] exI[of _ ?s2]) simp
qed

lemma scheduleLoop_fifo:
  assumes "scheduleLoop m n e starts = (e', starts')" "coreInv (e\<lparr>eRuns := eRuns e @ starts\<rparr>)" "\<not> eDone e"
    "length (eWaiting e) \<le> n" "set (eWaiting e) \<inter> set (eActive e) = {}"
  shows "eWaiting e' = drop (nat (m - int (length (eActive e)))) (eWaiting e) \<and>
    eActive e' = eActive e @ take (nat (m - int (length (eActive e)))) (eWaiting e)"
  using assms
proof (induction n arbitrary: e starts)
  case (Suc n)
  show ?case
  proof (cases "int (length (eActive e)) < m \<and> eWaiting e \<noteq> []")
    case False
    then have "\<not> (\<not> eDone e \<and> int (length (eActive e)) < m \<and> eWaiting e \<noteq> [])" by blast
    from scheduleLoop_stop[OF this] Suc.prems(1) have "e' = e" by (metis prod.inject)
    then show ?thesis using False by auto
  next
    case True
    then obtain g w where w: "eWaiting e = g # w" by (cases "eWaiting e") auto
    then have a: "g \<notin> set (eActive e)" using Suc.prems(5) by auto
    from True scheduleLoop_start[OF Suc.prems(2,3) _ w a, of m n] obtain e2 s2
      where e2: "scheduleLoop m (Suc n) e starts = scheduleLoop m n e2 s2" "eWaiting e2 = w" "eActive e2 = eActive e @ [g]"
        "\<not> eDone e2" "coreInv (e2\<lparr>eRuns := eRuns e2 @ s2\<rparr>)" by blast
    have dist: "g \<notin> set w" using Suc.prems(2) w by (auto simp: coreInv_def waitInv_def)
    have k: "nat (m - int (length (eActive e))) = Suc (nat (m - int (length (eActive e2))))"
      using True e2(3) by (simp add: nat_eq_iff)
    have "eWaiting e' = drop (nat (m - int (length (eActive e2)))) (eWaiting e2) \<and>
        eActive e' = eActive e2 @ take (nat (m - int (length (eActive e2)))) (eWaiting e2)"
      using e2 Suc.prems w dist by (intro Suc.IH[of e2 s2]) auto
    then show ?thesis using e2 w by (simp add: k)
  qed
qed simp

lemma scheduleLoop_drained:
  assumes "scheduleLoop m n e starts = (e', starts')" "coreInv (e\<lparr>eRuns := eRuns e @ starts\<rparr>)" "\<not> eDone e"
    "eWaiting e = u @ r" "length u = n" "set r \<subseteq> set (eActive e)"
  shows "m \<le> int (length (eActive e')) \<or> set (eWaiting e') \<subseteq> set (eActive e')"
  using assms
proof (induction n arbitrary: e starts u r)
  case (Suc n)
  then obtain g u' where u: "u = g # u'" by (cases u) auto
  show ?case
  proof (cases "int (length (eActive e)) < m")
    case False
    then have "\<not> (\<not> eDone e \<and> int (length (eActive e)) < m \<and> eWaiting e \<noteq> [])" by blast
    from scheduleLoop_stop[OF this] Suc.prems(1) have "e' = e" by (metis prod.inject)
    then show ?thesis using False by simp
  next
    case True
    have w: "eWaiting e = g # (u' @ r)" using Suc.prems(4) u by simp
    show ?thesis
    proof (cases "g \<in> set (eActive e)")
      case False
      from scheduleLoop_start[OF Suc.prems(2,3) True w False, of n] obtain e2 s2
        where e2: "scheduleLoop m (Suc n) e starts = scheduleLoop m n e2 s2" "eWaiting e2 = u' @ r" "eActive e2 = eActive e @ [g]"
          "\<not> eDone e2" "coreInv (e2\<lparr>eRuns := eRuns e2 @ s2\<rparr>)" by blast
      then show ?thesis using Suc.prems u by (intro Suc.IH[of e2 s2 u' r]) auto
    next
      case act: True
      let ?e1 = "e\<lparr>eWaiting := (u' @ r) @ [g]\<rparr>"
      have one: "scheduleLoop m (Suc 0) e starts = (?e1, starts)" using Suc.prems(3) True w act by (simp add: Let_def)
      have "scheduleLoop m n ?e1 starts = (e', starts')"
        using Suc.prems(1,3) True w act by (simp add: Let_def)
      then show ?thesis using scheduleLoop_inv[OF one Suc.prems(2)] Suc.prems u act
        by (intro Suc.IH[of ?e1 starts u' "r @ [g]"]) auto
    qed
  qed
qed auto

definition maxActive :: "Engine \<Rightarrow> int" where
  "maxActive e = optionInt (eGlobal e) ''max-concurrent-downloads'' (eMaxConcurrentDownloads e)"

lemma schedule_core:
  assumes "scheduleLoop (maxActive e) (length (eWaiting e)) e [] = (e1, starts)"
  shows "eWaiting (schedule e) = eWaiting e1 \<and> eActive (schedule e) = eActive e1"
  using assms core_same(3,4)[OF core_startRuns[of starts e1]] by (simp add: schedule_def maxActive_def)

text \<open>C3: The scheduler respects the limit on concurrent downloads, is work conserving and serves the
  queue in order: it starts no download beyond the limit, it leaves a waiting download only when the
  limit is reached or the old run of that download has not ended, and when no waiting download has an
  old run it starts exactly the first downloads of the queue.\<close>

theorem schedule_fair:
  assumes "reachable env st e" "\<not> eDone e"
  shows "int (length (eActive (schedule e))) \<le> max (int (length (eActive e))) (maxActive e)
    \<and> (maxActive e \<le> int (length (eActive (schedule e))) \<or> set (eWaiting (schedule e)) \<subseteq> set (eActive (schedule e)))
    \<and> (set (eWaiting e) \<inter> set (eActive e) = {} \<longrightarrow>
         eWaiting (schedule e) = drop (nat (maxActive e - int (length (eActive e)))) (eWaiting e) \<and>
         eActive (schedule e) = eActive e @ take (nat (maxActive e - int (length (eActive e)))) (eWaiting e))"
proof -
  obtain e1 starts where l: "scheduleLoop (maxActive e) (length (eWaiting e)) e [] = (e1, starts)" by fastforce
  have inv: "coreInv (e\<lparr>eRuns := eRuns e @ []\<rparr>)" using reachable_inv[OF assms(1)] by (simp add: engineInv_def)
  show ?thesis
    using schedule_core[OF l] scheduleLoop_bound[OF l] scheduleLoop_drained[OF l inv assms(2), of "eWaiting e" "[]"]
      scheduleLoop_fifo[OF l inv assms(2)] by auto
qed

theorem schedule_fair_witness:
  "int (length (eActive (schedule runEngine))) \<le> max 1 (maxActive runEngine)"
  using schedule_fair[OF runEngine_reachable] by (simp add: runEngine_facts)

section \<open>Looking up a gid\<close>

lemma findPrefix_found:
  "findPrefix g (Some i) ds =
     (if filter (\<lambda>(k, i). HasPrefix k g) ds \<noteq> [] then Inl (Errorf ''gid prefix is not unique'' []) else Inr i)"
  by (induction ds) auto

lemma findPrefix_spec:
  "findPrefix g None ds =
     (case filter (\<lambda>(k, i). HasPrefix k g) ds of
        [] \<Rightarrow> Inl ErrNotFound
      | [(k, i)] \<Rightarrow> Inr i
      | _ \<Rightarrow> Inl (Errorf ''gid prefix is not unique'' []))"
proof (induction ds)
  case (Cons d ds)
  obtain k i where d: "d = (k, i)" by fastforce
  show ?case
  proof (cases "HasPrefix k g")
    case True
    with d show ?thesis
      by (cases "filter (\<lambda>(k, i). HasPrefix k g) ds") (simp_all add: findPrefix_found)
  qed (use Cons d in simp)
qed simp

lemma distinct_set_single: "distinct xs \<Longrightarrow> set xs = {x} \<Longrightarrow> xs = [x]"
  by (cases xs; cases "tl xs") auto

text \<open>Looking up a download by a gid or a prefix of it: an exact gid wins; otherwise the prefix
  must belong to exactly one download, whatever the iteration order of the map; the empty string and
  an unmatched prefix are not found and an ambiguous prefix is an error.\<close>

theorem findDownloadLocked_spec:
  assumes "reachable env st e"
  shows "findDownloadLocked gid e = Inr i \<longleftrightarrow>
      gid \<noteq> '''' \<and> map_of (eDownloads e) (dGid (obj e i)) = Some i \<and>
      (dGid (obj e i) = gid \<or> map_of (eDownloads e) gid = None \<and>
         (\<forall>k. k \<in> dom (map_of (eDownloads e)) \<and> HasPrefix k gid \<longleftrightarrow> k = dGid (obj e i)))"
    (is "?l \<longleftrightarrow> ?r")
proof -
  have dl: "dlInv e" using reachable_inv[OF assms] by (simp add: engineInv_def coreInv_def)
  then have dist: "distinct (map fst (eDownloads e))" by (simp add: dlInv_def)
  let ?m = "filter (\<lambda>(k, i). HasPrefix k gid) (eDownloads e)"
  have mem: "(k, j) \<in> set ?m \<longleftrightarrow> map_of (eDownloads e) k = Some j \<and> HasPrefix k gid" for k j using dist by auto
  have dm: "distinct (map fst ?m)" using dist by (simp add: distinct_map_filter)
  show ?thesis
  proof (cases "gid = '''' \<or> map_of (eDownloads e) gid \<noteq> None")
    case True
    then consider "gid = ''''" | j where "gid \<noteq> ''''" "map_of (eDownloads e) gid = Some j" by fastforce
    then show ?thesis
    proof cases
      case 2
      then have "?l \<longleftrightarrow> i = j" by (auto simp: findDownloadLocked_def)
      also have "\<dots> \<longleftrightarrow> ?r" using 2 dlInv_lookup[OF dl 2(2)] by (metis option.distinct(1) option.inject)
      finally show ?thesis .
    qed (simp add: findDownloadLocked_def)
  next
    case False
    then have l: "?l \<longleftrightarrow> (\<exists>k. ?m = [(k, i)])"
      by (auto simp: findDownloadLocked_def findPrefix_spec split: option.splits list.splits)
    have none: "map_of (eDownloads e) (dGid (obj e i)) = Some i \<Longrightarrow> dGid (obj e i) \<noteq> gid" using False by auto
    show ?thesis unfolding l
    proof
      assume "\<exists>k. ?m = [(k, i)]"
      then obtain k where k: "?m = [(k, i)]" by blast
      then have mk: "map_of (eDownloads e) k = Some i" "HasPrefix k gid" using mem[of k i] by auto
      then have "k = dGid (obj e i)" using dlInv_lookup[OF dl] by auto
      moreover have "h = k" if "map_of (eDownloads e) h = Some j" "HasPrefix h gid" for h j
        using mem[of h j] that k by simp
      ultimately have "\<forall>h. h \<in> dom (map_of (eDownloads e)) \<and> HasPrefix h gid \<longleftrightarrow> h = dGid (obj e i)"
        using mk by blast
      with False mk \<open>k = dGid (obj e i)\<close> show ?r by blast
    next
      assume r: ?r
      let ?k = "dGid (obj e i)"
      from r none have all: "\<forall>h. h \<in> dom (map_of (eDownloads e)) \<and> HasPrefix h gid \<longleftrightarrow> h = ?k" by blast
      then have "HasPrefix ?k gid" by blast
      then have "(?k, i) \<in> set ?m" using mem r by blast
      moreover have "x = (?k, i)" if "x \<in> set ?m" for x
      proof -
        obtain h j where x: "x = (h, j)" by fastforce
        then have "map_of (eDownloads e) h = Some j \<and> HasPrefix h gid" using that mem by blast
        moreover from this all have "h = ?k" by (auto simp: dom_def)
        ultimately show ?thesis using r x by simp
      qed
      ultimately have "set ?m = {(?k, i)}" by blast
      moreover have "distinct ?m" using dm distinct_map by blast
      ultimately have "?m = [(?k, i)]" by (rule distinct_set_single[rotated])
      then show "\<exists>k. ?m = [(k, i)]" by blast
    qed
  qed
qed

section \<open>Moving in the queue\<close>

lemma queueDestination_range: "0 \<le> n \<Longrightarrow> 0 \<le> queueDestination how pos idx n \<and> queueDestination how pos idx n \<le> n"
  by (auto simp: queueDestination_def Let_def)

lemma filter_insertAt: "\<not> P x \<Longrightarrow> filter P (insertAt k [x] xs) = filter P xs"
  by (simp add: insertAt_def) (metis append_take_drop_id filter_append)

lemma insertAt_nth: "k \<le> length xs \<Longrightarrow> insertAt k [x] xs ! k = x"
  by (simp add: insertAt_def nth_append)

lemma insertAt_length: "length (insertAt k [x] xs) = Suc (length xs)"
  by (simp add: insertAt_def)

text \<open>A successful change of position moves the download and nothing else: it ends at the
  returned index of the queue, the order of the other downloads does not change, and the index is
  inside the queue.\<close>

theorem ChangePosition_moves:
  assumes "reachable env st e" "ChangePosition gid pos how e = (Inr dst, e')"
  shows "\<exists>g \<in> set (eWaiting e). 0 \<le> dst \<and> nat dst < length (eWaiting e') \<and> eWaiting e' ! nat dst = g
    \<and> filter (\<lambda>x. x \<noteq> g) (eWaiting e') = filter (\<lambda>x. x \<noteq> g) (eWaiting e) \<and> length (eWaiting e') = length (eWaiting e)"
proof -
  obtain i where i: "findDownloadLocked gid e = Inr i"
    using assms(2) by (cases "findDownloadLocked gid e") (simp_all add: ChangePosition_def)
  define g where "g = dGid (obj e i)"
  obtain k where k: "indexOf g (eWaiting e) = Some k"
    using assms(2) i by (cases "indexOf g (eWaiting e)") (simp_all add: ChangePosition_def g_def)
  let ?w = "take k (eWaiting e) @ drop (Suc k) (eWaiting e)"
  have w': "dst = queueDestination how pos (int k) (int (length ?w))" "eWaiting e' = insertAt (nat dst) [g] ?w"
    using assms(2) i k
    by (cases "how \<in> set positionModes"; auto simp: ChangePosition_def Let_def g_def saveSessionBestEffort_def)+
  note ix = indexOf_Some[OF k]
  have r: "0 \<le> dst \<and> dst \<le> int (length ?w)" unfolding w'(1) by (rule queueDestination_range) simp
  then have n: "nat dst \<le> length ?w" by linarith
  have "eWaiting e' ! nat dst = g" using insertAt_nth[OF n] unfolding w'(2) by simp
  moreover have len: "length (eWaiting e') = length (eWaiting e)" using ix unfolding w'(2) insertAt_length by (simp, linarith)
  moreover have "filter (\<lambda>x. x \<noteq> g) (eWaiting e') = filter (\<lambda>x. x \<noteq> g) ?w"
    unfolding w'(2) by (rule filter_insertAt) simp
  moreover have "filter (\<lambda>x. x \<noteq> g) (eWaiting e) = filter (\<lambda>x. x \<noteq> g) ?w"
    using ix id_take_nth_drop[of k "eWaiting e"]
    by (metis (mono_tags, lifting) filter.simps(2) filter_append)
  moreover have "nat dst < length (eWaiting e')" using n ix len by (simp, linarith)
  ultimately show ?thesis using r ix by (metis nth_mem)
qed

theorem findDownloadLocked_spec_witness:
  "findDownloadLocked ''00'' addedEngine = Inr 0"
proof -
  have "\<forall>k. k \<in> dom (map_of (eDownloads addedEngine)) \<and> HasPrefix k ''00'' \<longleftrightarrow> k = gidA"
    by (auto simp: addedEngine_facts gidA_def HasPrefix_def)
  then show ?thesis
    using findDownloadLocked_spec[OF addedEngine_reachable, of "''00''" 0] by (simp add: addedEngine_facts gidA_def)
qed

theorem ChangePosition_moves_witness:
  "\<exists>dst e'. ChangePosition gidA 0 ''POS_SET'' addedEngine = (Inr dst, e') \<and> length (eWaiting e') = 1"
proof -
  have "gidA \<noteq> ''''" by (simp add: gidA_def)
  then have "findDownloadLocked gidA addedEngine = Inr 0" by (simp add: findDownloadLocked_def addedEngine_facts)
  then obtain dst e' where c: "ChangePosition gidA 0 ''POS_SET'' addedEngine = (Inr dst, e')"
    by (simp add: ChangePosition_def addedEngine_facts indexOf_def positionModes_def Let_def)
  with ChangePosition_moves[OF addedEngine_reachable c] show ?thesis by (auto simp: addedEngine_facts)
qed

section \<open>Retention of results\<close>

lemma pruneLoop_dropped:
  "pruneLoop pr ex gs = (kept, dropped) \<Longrightarrow> dropped = take (nat ex) (filter (\<lambda>g. \<not> pr g) gs)"
proof (induction pr ex gs arbitrary: kept dropped rule: pruneLoop.induct)
  case (2 pr ex g gs)
  show ?case
  proof (cases "ex > 0 \<and> \<not> pr g")
    case True
    obtain k d where kd: "pruneLoop pr (ex - 1) gs = (k, d)" by fastforce
    have "nat ex = Suc (nat (ex - 1))" using True by linarith
    with 2(1)[OF True kd] 2(3) True kd show ?thesis by simp
  next
    case False
    obtain k d where kd: "pruneLoop pr ex gs = (k, d)" by fastforce
    with 2(2)[OF False kd] 2(3) False show ?thesis by auto
  qed
qed simp

lemma pruneProtected_kept:
  "pruneProtected (dropResults D e) g = (if g \<in> D then False else pruneProtected e g)"
  by (simp add: pruneProtected_def obj_def dropResults_def map_of_filter_notin split: option.split)

text \<open>C4: Pruning keeps the list of results within its limit and drops the oldest first: afterwards
  at most \<open>max-download-result\<close> results are not protected; exactly the oldest excess results were
  dropped, from the list and from the map of downloads; a failed download is never dropped while
  \<open>keep-unfinished-download-result\<close> holds.\<close>

theorem pruneStopped_spec:
  assumes "reachable env st e"
  shows "int (length (prunable (pruneStoppedLocked e))) \<le> max (maxResult e) 0
    \<and> (let old = take (nat (int (length (prunable e)) - maxResult e)) (prunable e) in
       eStopped (pruneStoppedLocked e) = filter (\<lambda>g. g \<notin> set old) (eStopped e)
       \<and> (\<forall>g. map_of (eDownloads (pruneStoppedLocked e)) g = (if g \<in> set old then None else map_of (eDownloads e) g)))
    \<and> (\<forall>g \<in> set (eStopped e). pruneProtected e g \<longrightarrow> g \<in> set (eStopped (pruneStoppedLocked e)))"
proof -
  have dist: "distinct (eStopped e)"
    using reachable_inv[OF assms] by (simp add: engineInv_def coreInv_def stopInvBut_def)
  define ex where "ex = int (length (prunable e)) - maxResult e"
  define old where "old = take (nat ex) (prunable e)"
  have eq: "pruneStoppedLocked e = dropResults (set old) e"
  proof (cases "ex \<le> 0")
    case True
    then show ?thesis by (simp add: pruneStoppedLocked_def old_def dropResults_def case_prod_beta flip: ex_def)
  next
    case False
    obtain k d where kd: "pruneLoop (pruneProtected e) ex (eStopped e) = (k, d)" by fastforce
    have "d = old" using pruneLoop_dropped[OF kd] by (simp add: old_def prunable_def)
    then show ?thesis
      using False kd pruneLoop_split[OF kd dist] by (simp add: pruneStoppedLocked_def dropResults_def flip: ex_def)
  qed
  have sub: "set old \<subseteq> set (prunable e)" by (auto simp: old_def dest: in_set_takeD)
  have "prunable (dropResults (set old) e) = filter (\<lambda>g. g \<notin> set old) (prunable e)"
    by (auto simp: prunable_def pruneProtected_kept) (auto simp: dropResults_def intro!: filter_cong)
  also have "\<dots> = drop (nat ex) (prunable e)"
  proof -
    have d: "distinct (prunable e)" using dist by (simp add: prunable_def)
    have "filter (\<lambda>g. g \<notin> set old) (take (nat ex) (prunable e)) = []" by (auto simp: old_def filter_empty_conv)
    moreover have "filter (\<lambda>g. g \<notin> set old) (drop (nat ex) (prunable e)) = drop (nat ex) (prunable e)"
      using d unfolding old_def filter_id_conv
      by (metis append_take_drop_id disjoint_iff distinct_append)
    ultimately show ?thesis by (metis append_take_drop_id filter_append append_Nil)
  qed
  finally have "int (length (prunable (pruneStoppedLocked e))) \<le> max (maxResult e) 0"
    unfolding eq by (simp add: ex_def)
  moreover have "\<forall>g \<in> set (eStopped e). pruneProtected e g \<longrightarrow> g \<in> set (eStopped (pruneStoppedLocked e))"
    using sub unfolding eq by (auto simp: dropResults_def prunable_def)
  ultimately show ?thesis
    unfolding Let_def eq by (simp add: dropResults_def map_of_filter_notin flip: ex_def old_def)
qed

theorem pruneStopped_spec_witness:
  "int (length (prunable (pruneStoppedLocked runEngine))) \<le> max (maxResult runEngine) 0"
  using pruneStopped_spec[OF runEngine_reachable] by blast

end
