(* ===== verification/Query.thy ===== *)
theory Query
  imports Engine_Steps
begin

text \<open>
  The queries of query.go: the status of one download, the lists of active, waiting and stopped
  downloads with their paging, and the global statistics. A query reads the engine and changes nothing,
  so it is a function of the engine. What lies outside is the record \<open>queryEnv\<close>: the escaped path of a
  URL (\<open>None\<close> when \<open>url.Parse\<close> fails), \<open>url.PathUnescape\<close>, and the peers the torrent client reports.
\<close>

record peerSnapshot =
  peRemoteAddr :: string
  peSplit :: "(string \<times> string) option"
  peBitfield :: string
  pePeerIDEscaped :: string
  peLocalChoking :: bool
  peRemoteChoking :: bool
  peDownloadRate :: int
  peUploadRate :: int
  peSeeder :: bool

record queryEnv =
  qeEscapedPath :: "string \<Rightarrow> string option"
  qePathUnescape :: "string \<Rightarrow> string option"
  qePeers :: "string \<Rightarrow> peerSnapshot list"

record FileInfo =
  fiIndex :: string
  fiPath :: string
  fiLength :: string
  fiCompletedLength :: string
  fiSelected :: string
  fiURIs :: "uriInfo list"

record ServerInfo =
  svURI :: string
  svCurrentURI :: string
  svDownloadSpeed :: string

record GlobalStat =
  gsDownloadSpeed :: string
  gsUploadSpeed :: string
  gsNumActive :: string
  gsNumWaiting :: string
  gsNumStopped :: string
  gsNumStoppedTotal :: string

text \<open>The values of a status map.\<close>

datatype statusVal = SStr string | SFiles "FileInfo list" | SBittorrent bittorrentInfo

section \<open>File names\<close>

definition currentOrOriginal :: "string \<Rightarrow> string \<Rightarrow> string" where
  "currentOrOriginal current original = (if current \<noteq> '''' then current else original)"

definition safeURIFilename :: "string \<Rightarrow> string" where
  "safeURIFilename raw =
     (let name = pathBase raw in
      if name = ''.'' \<or> name = ''..'' \<or> name = ''/'' \<or> name = [CHR 0x5C] \<or> name = '''' \<or> ContainsByte name (CHR 0x00)
      then ''index.html'' else name)"

definition filenameFromURI :: "queryEnv \<Rightarrow> string \<Rightarrow> string" where
  "filenameFromURI qe raw =
     (case qeEscapedPath qe raw of
        Some escapedPath \<Rightarrow>
         (if escapedPath = '''' \<or> HasSuffix escapedPath ''/'' then ''index.html''
          else
            (let segment = pathBase escapedPath in
             if segment \<noteq> ''.'' \<and> segment \<noteq> ''/'' \<and> segment \<noteq> '''' then
               (case qePathUnescape qe segment of Some decoded \<Rightarrow> safeURIFilename decoded | None \<Rightarrow> safeURIFilename segment)
             else ''index.html''))
      | None \<Rightarrow> safeURIFilename (takeWhile (\<lambda>c. c \<noteq> CHR ''?'' \<and> c \<noteq> CHR ''#'') raw))"

section \<open>One download\<close>

definition filesLocked :: "queryEnv \<Rightarrow> Download \<Rightarrow> FileInfo list" where
  "filesLocked qe d =
     (if dKind d = downloadKindTorrent then
        map (\<lambda>f. \<lparr>fiIndex = Itoa (tfIndex f), fiPath = tfPath f, fiLength = Itoa (tfLength f),
                  fiCompletedLength = Itoa (tfCompleted f), fiSelected = FormatBool (tfSelected f), fiURIs = dUris d\<rparr>)
          (dTorrentFiles d)
      else
        (let name1 = (if dOut d = '''' \<and> dUris d \<noteq> [] then filenameFromURI qe (uURI (hd (dUris d))) else dOut d);
             name = (if name1 = '''' then dGid d else name1);
             path = (if dPath d = '''' then pathJoin [dDir d, name] else dPath d) in
         [\<lparr>fiIndex = ''1'', fiPath = path, fiLength = Itoa (dTotalLength d), fiCompletedLength = Itoa (dCompletedLen d),
           fiSelected = ''true'', fiURIs = dUris d\<rparr>]))"

definition statusFull :: "queryEnv \<Rightarrow> Download \<Rightarrow> (string \<times> statusVal) list" where
  "statusFull qe d =
     [(''gid'', SStr (dGid d)), (''status'', SStr (statusText (dStatus d))), (''totalLength'', SStr (Itoa (dTotalLength d))),
      (''completedLength'', SStr (Itoa (dCompletedLen d))), (''uploadLength'', SStr ''0''),
      (''downloadSpeed'', SStr (Itoa (dDownloadBPS d))), (''uploadSpeed'', SStr ''0''), (''connections'', SStr (Itoa (dConnections d))),
      (''numPieces'', SStr (Itoa (dNumPieces d))), (''pieceLength'', SStr (Itoa (dPieceLength d))), (''bitfield'', SStr (dBitfield d)),
      (''dir'', SStr (dDir d)), (''files'', SFiles (filesLocked qe d))]
     @ (if dKind d = downloadKindTorrent then
          [(''infoHash'', SStr (dInfoHash d)), (''numSeeders'', SStr (Itoa (dNumSeeders d))), (''seeder'', SStr (FormatBool (dSeeder d)))]
          @ (case dBittorrent d of None \<Rightarrow> [] | Some b \<Rightarrow> [(''bittorrent'', SBittorrent b)])
        else [])
     @ (if dErrorCode d \<noteq> '''' then [(''errorCode'', SStr (dErrorCode d))] else [])
     @ (if dErrorMessage d \<noteq> '''' then [(''errorMessage'', SStr (dErrorMessage d))] else [])"

text \<open>The switch over the requested keys; \<open>None\<close> when the case writes nothing.\<close>

definition statusKey :: "queryEnv \<Rightarrow> Download \<Rightarrow> string \<Rightarrow> statusVal option" where
  "statusKey qe d key =
     (if key = ''gid'' then Some (SStr (dGid d))
      else if key = ''status'' then Some (SStr (statusText (dStatus d)))
      else if key = ''totalLength'' then Some (SStr (Itoa (dTotalLength d)))
      else if key = ''completedLength'' then Some (SStr (Itoa (dCompletedLen d)))
      else if key = ''uploadLength'' then Some (SStr ''0'')
      else if key = ''downloadSpeed'' then Some (SStr (Itoa (dDownloadBPS d)))
      else if key = ''uploadSpeed'' then Some (SStr ''0'')
      else if key = ''connections'' then Some (SStr (Itoa (dConnections d)))
      else if key = ''numPieces'' then Some (SStr (Itoa (dNumPieces d)))
      else if key = ''pieceLength'' then Some (SStr (Itoa (dPieceLength d)))
      else if key = ''bitfield'' then Some (SStr (dBitfield d))
      else if key = ''dir'' then Some (SStr (dDir d))
      else if key = ''files'' then Some (SFiles (filesLocked qe d))
      else if key = ''infoHash'' then (if dKind d = downloadKindTorrent then Some (SStr (dInfoHash d)) else None)
      else if key = ''numSeeders'' then (if dKind d = downloadKindTorrent then Some (SStr (Itoa (dNumSeeders d))) else None)
      else if key = ''seeder'' then (if dKind d = downloadKindTorrent then Some (SStr (FormatBool (dSeeder d))) else None)
      else if key = ''bittorrent'' then
        (if dKind d = downloadKindTorrent then (case dBittorrent d of None \<Rightarrow> None | Some b \<Rightarrow> Some (SBittorrent b)) else None)
      else if key = ''errorCode'' then (if dErrorCode d \<noteq> '''' then Some (SStr (dErrorCode d)) else None)
      else if key = ''errorMessage'' then (if dErrorMessage d \<noteq> '''' then Some (SStr (dErrorMessage d)) else None)
      else None)"

fun statusFiltered :: "queryEnv \<Rightarrow> Download \<Rightarrow> string list \<Rightarrow> (string \<times> statusVal) list \<Rightarrow> (string \<times> statusVal) list" where
  "statusFiltered qe d [] out = out"
| "statusFiltered qe d (key # keys) out =
     statusFiltered qe d keys (case statusKey qe d key of None \<Rightarrow> out | Some v \<Rightarrow> AList.update key v out)"

definition snapshot :: "queryEnv \<Rightarrow> string list \<Rightarrow> Download \<Rightarrow> (string \<times> statusVal) list" where
  "snapshot qe keys d = (if keys = [] then statusFull qe d else statusFiltered qe d keys [])"

definition TellStatus :: "queryEnv \<Rightarrow> string \<Rightarrow> string list \<Rightarrow> Engine \<Rightarrow> (string \<times> statusVal) list res" where
  "TellStatus qe gid keys e = bindR (findDownloadLocked gid e) (\<lambda>i. Inr (snapshot qe keys (obj e i)))"

definition GetURIs :: "string \<Rightarrow> Engine \<Rightarrow> uriInfo list res" where
  "GetURIs gid e = bindR (findDownloadLocked gid e) (\<lambda>i. Inr (dUris (obj e i)))"

definition GetFiles :: "queryEnv \<Rightarrow> string \<Rightarrow> Engine \<Rightarrow> FileInfo list res" where
  "GetFiles qe gid e = bindR (findDownloadLocked gid e) (\<lambda>i. Inr (filesLocked qe (obj e i)))"

definition torrentPeersLocked :: "queryEnv \<Rightarrow> Download \<Rightarrow> (string \<times> string) list list" where
  "torrentPeersLocked qe d =
     (case dTorrent d of
        None \<Rightarrow> []
      | Some r \<Rightarrow>
         (if \<not> rtTorrent r then []
          else map (\<lambda>p.
            (let (host, port) = (case peSplit p of None \<Rightarrow> (peRemoteAddr p, ''0'') | Some hp \<Rightarrow> hp) in
             [(''peerId'', pePeerIDEscaped p), (''ip'', host), (''port'', port),
              (''bitfield'', if peBitfield p \<noteq> '''' then hexString (peBitfield p) else ''''),
              (''amChoking'', FormatBool (peLocalChoking p)), (''peerChoking'', FormatBool (peRemoteChoking p)),
              (''downloadSpeed'', Itoa (peDownloadRate p)), (''uploadSpeed'', Itoa (peUploadRate p)),
              (''seeder'', FormatBool (peSeeder p))])) (qePeers qe (dGid d))))"

definition GetPeers :: "queryEnv \<Rightarrow> string \<Rightarrow> Engine \<Rightarrow> (string \<times> string) list list res" where
  "GetPeers qe gid e = bindR (findDownloadLocked gid e) (\<lambda>i.
     Inr (if dKind (obj e i) = downloadKindTorrent then torrentPeersLocked qe (obj e i) else []))"

text \<open>The one element of the result: its index and its servers.\<close>

definition GetServers :: "string \<Rightarrow> Engine \<Rightarrow> (string \<times> ServerInfo list) list res" where
  "GetServers gid e = bindR (findDownloadLocked gid e) (\<lambda>i.
     (let d = obj e i in
      Inr [(''1'', map (\<lambda>u. \<lparr>svURI = uURI u, svCurrentURI = currentOrOriginal (dCurrentURI d) (uURI u),
                            svDownloadSpeed = Itoa (dDownloadBPS d)\<rparr>) (dUris d))]))"

section \<open>Lists of downloads\<close>

definition byCreation :: "Engine \<Rightarrow> nat list \<Rightarrow> nat list" where
  "byCreation e is = sort_key (\<lambda>i. (dCreatedAt (obj e i), dGid (obj e i))) is"

definition downloadsByStatus :: "status \<Rightarrow> Engine \<Rightarrow> nat list" where
  "downloadsByStatus s e = byCreation e (map snd (filter (\<lambda>(gid, i). dStatus (obj e i) = s) (eDownloads e)))"

definition waitingDownloads :: "Engine \<Rightarrow> nat list" where
  "waitingDownloads e =
     (let queued = List.map_filter (map_of (eDownloads e)) (eWaiting e);
          seen = filter (\<lambda>gid. map_of (eDownloads e) gid \<noteq> None) (eWaiting e) in
      queued @ byCreation e (map snd (filter (\<lambda>(gid, i). gid \<notin> set seen \<and> dStatus (obj e i) = StatusPaused) (eDownloads e))))"

definition sliceDownloads :: "nat list \<Rightarrow> int \<Rightarrow> int \<Rightarrow> nat list" where
  "sliceDownloads items offset num0 =
     (let num = (if num0 < 0 then 0 else num0) in
      if num = 0 \<or> items = [] then []
      else if offset \<ge> 0 then
        (if offset \<ge> int (length items) then []
         else
           (let remaining = int (length items) - offset;
                n = (if num > remaining then remaining else num) in
            take (nat n) (drop (nat offset) items)))
      else
        (let start0 = int (length items) + offset;
             start = (if start0 < 0 then 0 else start0) in
         map (\<lambda>k. items ! (nat start - k)) [0..<nat (min num (start + 1))]))"

definition TellActive :: "queryEnv \<Rightarrow> string list \<Rightarrow> Engine \<Rightarrow> (string \<times> statusVal) list list" where
  "TellActive qe keys e = map (\<lambda>i. snapshot qe keys (obj e i)) (downloadsByStatus StatusActive e)"

definition TellWaiting :: "queryEnv \<Rightarrow> int \<Rightarrow> int \<Rightarrow> string list \<Rightarrow> Engine \<Rightarrow> (string \<times> statusVal) list list" where
  "TellWaiting qe offset num keys e = map (\<lambda>i. snapshot qe keys (obj e i)) (sliceDownloads (waitingDownloads e) offset num)"

definition stoppedDownloads :: "Engine \<Rightarrow> nat list" where
  "stoppedDownloads e = List.map_filter (map_of (eDownloads e)) (eStopped e)"

definition TellStopped :: "queryEnv \<Rightarrow> int \<Rightarrow> int \<Rightarrow> string list \<Rightarrow> Engine \<Rightarrow> (string \<times> statusVal) list list" where
  "TellStopped qe offset num keys e = map (\<lambda>i. snapshot qe keys (obj e i)) (sliceDownloads (stoppedDownloads e) offset num)"

section \<open>Statistics\<close>

text \<open>The loop of \<open>GetGlobalStat\<close>: speed, active and waiting downloads.\<close>

fun statLoop :: "Engine \<Rightarrow> (string \<times> nat) list \<Rightarrow> int \<times> nat \<times> nat \<Rightarrow> int \<times> nat \<times> nat" where
  "statLoop e [] acc = acc"
| "statLoop e ((gid, i) # ds) (speed, active, waiting) =
     statLoop e ds
       (let d = obj e i in
        if dStatus d = StatusActive then
          (if dDownloadBPS d > MaxInt64 - speed then MaxInt64
           else if dDownloadBPS d > 0 then speed + dDownloadBPS d else speed, active + 1, waiting)
        else if dStatus d = StatusWaiting \<or> dStatus d = StatusPaused then (speed, active, waiting + 1)
        else (speed, active, waiting))"

definition GetGlobalStat :: "Engine \<Rightarrow> GlobalStat" where
  "GetGlobalStat e =
     (let (speed, active, waiting) = statLoop e (eDownloads e) (0, 0, 0) in
      \<lparr>gsDownloadSpeed = Itoa speed, gsUploadSpeed = ''0'', gsNumActive = Itoa (int active), gsNumWaiting = Itoa (int waiting),
       gsNumStopped = Itoa (int (length (eStopped e))), gsNumStoppedTotal = Itoa (int (eStoppedTotal e))\<rparr>)"

section \<open>What a query shows\<close>

definition plainQuery :: queryEnv where
  "plainQuery = \<lparr>qeEscapedPath = Some, qePathUnescape = Some, qePeers = (\<lambda>_. [])\<rparr>"

text \<open>A requested key shows what the full status shows under it.\<close>

lemma map_of_statusFull: "map_of (statusFull qe d) k = statusKey qe d k"
  by (simp add: statusFull_def statusKey_def split: option.split)

lemma map_of_statusFiltered:
  "map_of (statusFiltered qe d keys out) k =
     (if k \<in> set keys \<and> statusKey qe d k \<noteq> None then statusKey qe d k else map_of out k)"
proof (induction keys arbitrary: out)
  case (Cons key keys)
  then show ?case by (cases "statusKey qe d key") (auto simp: AList.update_conv')
qed simp

lemma distinct_statusFiltered: "distinct (map fst out) \<Longrightarrow> distinct (map fst (statusFiltered qe d keys out))"
proof (induction keys arbitrary: out)
  case (Cons key keys)
  then show ?case by (cases "statusKey qe d key") (simp_all add: AList.distinct_update)
qed simp

text \<open>A status request that names keys is the restriction of the full status to those keys: a requested
  key has the value it has in the full status and is absent when the full status lacks it, a key that was
  not requested is absent, no key is listed twice, and the order and repetition of the requested keys
  do not matter.\<close>

theorem snapshot_filtered:
  assumes "keys \<noteq> []"
  shows "map_of (snapshot qe keys d) = map_of (snapshot qe [] d) |` set keys \<and> distinct (map fst (snapshot qe keys d))"
  using assms distinct_statusFiltered [of "[]"]
  by (auto simp: snapshot_def map_of_statusFull map_of_statusFiltered restrict_map_def fun_eq_iff)

theorem snapshot_filtered_witness:
  "map_of (snapshot plainQuery [''status'', ''gid'', ''status''] zeroDownload) ''status'' =
     map_of (snapshot plainQuery [] zeroDownload) ''status''"
  using snapshot_filtered [of "[''status'', ''gid'', ''status'']" plainQuery zeroDownload] by simp

text \<open>Paging. From a non-negative offset a page is the next \<open>num\<close> downloads in order; a negative offset
  counts from the end (clamped to the first download) and lists backwards from there; a negative or
  zero \<open>num\<close> and an offset past the end give the empty page.\<close>

theorem sliceDownloads_spec:
  "sliceDownloads items offset num =
     (if items = [] then []
      else if offset \<ge> 0 then take (nat num) (drop (nat offset) items)
      else take (nat num) (rev (take (Suc (nat (int (length items) + offset))) items)))"
proof -
  consider "items = [] \<or> num \<le> 0" | "items \<noteq> []" "num > 0" "offset \<ge> 0" | "items \<noteq> []" "num > 0" "offset < 0"
    by linarith
  then show ?thesis
  proof cases
    case 2
    then show ?thesis by (auto simp: sliceDownloads_def Let_def nat_diff_distrib min_def)
  next
    case 3
    define s where "s = nat (int (length items) + offset)"
    have "length items > 0" using 3(1) by simp
    then have len: "s < length items" using 3(3) unfolding s_def by linarith
    then have s: "s < length items" "(if int (length items) + offset < 0 then 0 else int (length items) + offset) = int s"
      using 3 by (auto simp: s_def)
    have "map (\<lambda>k. items ! (s - k)) [0..<nat (min num (int s + 1))] = take (nat num) (rev (take (Suc s) items))"
    proof (rule nth_equalityI)
      fix i assume "i < length (map (\<lambda>k. items ! (s - k)) [0..<nat (min num (int s + 1))])"
      then have i: "i < nat num" "i < Suc s" "i < nat (min num (int s + 1))" by auto
      then show "map (\<lambda>k. items ! (s - k)) [0..<nat (min num (int s + 1))] ! i = take (nat num) (rev (take (Suc s) items)) ! i"
        using len by (simp add: rev_nth)
    qed (use len in auto)
    then show ?thesis using 3 by (simp add: sliceDownloads_def s s_def [symmetric])
  qed (auto simp: sliceDownloads_def)
qed

section \<open>The three lists cover the downloads\<close>

lemma mset_lookups:
  assumes "distinct (map fst ds)" "distinct gs" "set gs \<subseteq> dom (map_of ds)"
  shows "mset (List.map_filter (map_of ds) gs) = mset (map snd (filter (\<lambda>(g, i). g \<in> set gs) ds))"
proof -
  let ?xs = "filter (\<lambda>(g, i). g \<in> set gs) ds" and ?f = "\<lambda>g. the (map_of ds g)"
  have sub: "distinct (map fst ?xs)" using assms(1) by (rule distinct_map_filter)
  have "set (map fst ?xs) = set gs" using assms(3) by (force dest: map_of_SomeD)
  then have "mset gs = mset (map fst ?xs)" using assms(2) sub set_eq_iff_mset_eq_distinct by metis
  then have "mset (map ?f gs) = mset (map ?f (map fst ?xs))" by (metis mset_map)
  moreover have "map ?f (map fst ?xs) = map snd ?xs" using assms(1) by auto
  moreover have "List.map_filter (map_of ds) gs = map ?f gs"
    using assms(3) by (induction gs) (auto simp: List.map_filter_simps)
  ultimately show ?thesis by metis
qed

lemma length_lookups: "set gs \<subseteq> dom m \<Longrightarrow> length (List.map_filter m gs) = length gs"
  by (induction gs) (auto simp: List.map_filter_simps)

lemma sum_list_mset: "mset xs = mset ys \<Longrightarrow> sum_list (map f xs) = (sum_list (map f ys) :: int)"
  by (metis mset_map sum_mset_sum_list)

lemma mset_byCreation [simp]: "mset (byCreation e is) = mset is"
  by (simp add: byCreation_def)

lemma mset_filter_split:
  "(\<And>x. x \<in> set xs \<Longrightarrow> R x \<longleftrightarrow> P x \<or> Q x) \<Longrightarrow> (\<And>x. x \<in> set xs \<Longrightarrow> \<not> (P x \<and> Q x)) \<Longrightarrow>
   mset (map f (filter P xs)) + mset (map f (filter Q xs)) = mset (map f (filter R xs))"
  by (induction xs) auto

lemma queries_by_status:
  assumes "engineInv e" "\<not> eDone e"
  shows "mset (waitingDownloads e) =
           mset (map snd (filter (\<lambda>(g, i). dStatus (obj e i) = StatusWaiting \<or> dStatus (obj e i) = StatusPaused) (eDownloads e)))"
    and "mset (stoppedDownloads e) = mset (map snd (filter (\<lambda>(g, i). isTerminal (dStatus (obj e i))) (eDownloads e)))"
proof -
  have inv: "dlInv e" "waitInv e" "stopInv e" using assms by (simp_all add: engineInv_def coreInv_def)
  have d: "distinct (map fst (eDownloads e))" using inv by (simp add: dlInv_def)
  have st: "stat e g = Some (dStatus (obj e i))" if "(g, i) \<in> set (eDownloads e)" for g i
    using that d by (simp add: stat_def)
  have sub: "set (eWaiting e) \<subseteq> dom (map_of (eDownloads e))" "set (eStopped e) \<subseteq> dom (map_of (eDownloads e))"
    using inv by (auto simp: waitInv_def stopInvBut_def stat_def)
  have w: "g \<in> set (eWaiting e) \<longleftrightarrow> dStatus (obj e i) = StatusWaiting" if "(g, i) \<in> set (eDownloads e)" for g i
    using st[OF that] inv(2) assms(2) by (auto simp: waitInv_def)
  have s: "g \<in> set (eStopped e) \<longleftrightarrow> isTerminal (dStatus (obj e i))" if "(g, i) \<in> set (eDownloads e)" for g i
    using st[OF that] inv(3) by (auto simp: stopInvBut_def)
  have seen: "filter (\<lambda>gid. map_of (eDownloads e) gid \<noteq> None) (eWaiting e) = eWaiting e"
    using sub(1) by (auto simp: filter_id_conv)
  show "mset (waitingDownloads e) =
           mset (map snd (filter (\<lambda>(g, i). dStatus (obj e i) = StatusWaiting \<or> dStatus (obj e i) = StatusPaused) (eDownloads e)))"
  proof -
    have "distinct (eWaiting e)" using inv(2) by (simp add: waitInv_def)
    note q = mset_lookups[OF d this sub(1)]
    show ?thesis unfolding waitingDownloads_def Let_def seen mset_append mset_byCreation q
      by (rule mset_filter_split) (auto simp: w)
  qed
  show "mset (stoppedDownloads e) = mset (map snd (filter (\<lambda>(g, i). isTerminal (dStatus (obj e i))) (eDownloads e)))"
  proof -
    have "distinct (eStopped e)" using inv(3) by (simp add: stopInvBut_def)
    note q = mset_lookups[OF d this sub(2)]
    have "filter (\<lambda>(g, i). g \<in> set (eStopped e)) (eDownloads e) = filter (\<lambda>(g, i). isTerminal (dStatus (obj e i))) (eDownloads e)"
      by (rule filter_cong) (auto simp: s)
    then show ?thesis unfolding stoppedDownloads_def q by simp
  qed
qed

text \<open>C34: In every reachable engine that has not been closed, the lists behind \<open>TellActive\<close>, \<open>TellWaiting\<close> and
  \<open>TellStopped\<close> together hold every download exactly once: none is hidden from the queries and none is
  shown twice.\<close>

theorem queries_partition:
  assumes "reachable env st e" "\<not> eDone e"
  shows "mset (downloadsByStatus StatusActive e @ waitingDownloads e @ stoppedDownloads e) = mset (map snd (eDownloads e))"
proof -
  note q = queries_by_status[OF reachable_inv[OF assms(1)] assms(2)]
  let ?ds = "eDownloads e"
  have "mset (map snd (filter (\<lambda>(g, i). dStatus (obj e i) = StatusWaiting \<or> dStatus (obj e i) = StatusPaused) ?ds)) +
      mset (map snd (filter (\<lambda>(g, i). isTerminal (dStatus (obj e i))) ?ds)) =
      mset (map snd (filter (\<lambda>(g, i). dStatus (obj e i) \<noteq> StatusActive) ?ds))"
    by (rule mset_filter_split) (auto simp: isTerminal_def intro: status.exhaust)
  moreover have "mset (map snd (filter (\<lambda>(g, i). dStatus (obj e i) = StatusActive) ?ds)) +
      mset (map snd (filter (\<lambda>(g, i). dStatus (obj e i) \<noteq> StatusActive) ?ds)) = mset (map snd (filter (\<lambda>_. True) ?ds))"
    by (rule mset_filter_split) auto
  ultimately show ?thesis by (simp add: q downloadsByStatus_def)
qed


theorem queries_partition_witness:
  "mset (downloadsByStatus StatusActive runEngine @ waitingDownloads runEngine @ stoppedDownloads runEngine) = {#0#}"
  using queries_partition[OF runEngine_reachable] by (simp add: runEngine_facts)

lemma statLoop_sums:
  assumes "0 \<le> speed" "speed \<le> MaxInt64"
  shows "statLoop e ds (speed, active, waiting) =
    (min MaxInt64 (speed + (\<Sum>(g, i)\<leftarrow>filter (\<lambda>(g, i). dStatus (obj e i) = StatusActive) ds. max 0 (dDownloadBPS (obj e i)))),
     active + length (filter (\<lambda>(g, i). dStatus (obj e i) = StatusActive) ds),
     waiting + length (filter (\<lambda>(g, i). dStatus (obj e i) = StatusWaiting \<or> dStatus (obj e i) = StatusPaused) ds))"
  using assms
proof (induction ds arbitrary: speed active waiting)
  case (Cons p ds)
  obtain g i where p: "p = (g, i)" by force
  let ?speed = "if dDownloadBPS (obj e i) > MaxInt64 - speed then MaxInt64 else speed + max 0 (dDownloadBPS (obj e i))"
  have nonneg: "(\<Sum>(g, i)\<leftarrow>filter (\<lambda>(g, i). dStatus (obj e i) = StatusActive) ds. max 0 (dDownloadBPS (obj e i))) \<ge> 0"
    by (rule sum_list_nonneg) auto
  show ?case
  proof (cases "dStatus (obj e i) = StatusActive")
    case True
    have "0 \<le> ?speed" "?speed \<le> MaxInt64" using Cons.prems by auto
    note ih = Cons.IH[OF this]
    have "statLoop e (p # ds) (speed, active, waiting) = statLoop e ds (?speed, active + 1, waiting)"
      using True Cons.prems by (auto simp: p Let_def max_def)
    then show ?thesis unfolding ih using True nonneg Cons.prems by (auto simp: p min_def max_def)
  next
    case False
    then show ?thesis using Cons by (auto simp: p Let_def)
  qed
qed (simp add: min_def)

text \<open>The global statistics agree with the lists. In every reachable engine that has not been closed the
  numbers of active, waiting and stopped downloads are the lengths of the three lists, and the
  speed is the sum of the positive speeds of the active downloads, saturating at the largest 64-bit
  integer instead of wrapping.\<close>

theorem GetGlobalStat_spec:
  assumes "reachable env st e" "\<not> eDone e"
  shows "GetGlobalStat e =
    \<lparr>gsDownloadSpeed = Itoa (min MaxInt64 (\<Sum>i\<leftarrow>downloadsByStatus StatusActive e. max 0 (dDownloadBPS (obj e i)))),
     gsUploadSpeed = ''0'', gsNumActive = Itoa (int (length (downloadsByStatus StatusActive e))),
     gsNumWaiting = Itoa (int (length (waitingDownloads e))), gsNumStopped = Itoa (int (length (stoppedDownloads e))),
     gsNumStoppedTotal = Itoa (int (eStoppedTotal e))\<rparr>"
proof -
  have inv: "engineInv e" using reachable_inv[OF assms(1)] .
  note q = queries_by_status[OF inv assms(2)]
  let ?act = "filter (\<lambda>(g, i). dStatus (obj e i) = StatusActive) (eDownloads e)"
  let ?wait = "filter (\<lambda>(g, i). dStatus (obj e i) = StatusWaiting \<or> dStatus (obj e i) = StatusPaused) (eDownloads e)"
  have m: "mset (downloadsByStatus StatusActive e) = mset (map snd ?act)" by (simp add: downloadsByStatus_def)
  have "(\<Sum>i\<leftarrow>downloadsByStatus StatusActive e. max 0 (dDownloadBPS (obj e i))) =
      (\<Sum>i\<leftarrow>map snd ?act. max 0 (dDownloadBPS (obj e i)))" using m by (rule sum_list_mset)
  also have "\<dots> = (\<Sum>(g, i)\<leftarrow>?act. max 0 (dDownloadBPS (obj e i)))"
    by (simp add: comp_def case_prod_unfold)
  finally have speed: "(\<Sum>i\<leftarrow>downloadsByStatus StatusActive e. max 0 (dDownloadBPS (obj e i))) =
      (\<Sum>(g, i)\<leftarrow>?act. max 0 (dDownloadBPS (obj e i)))" .
  have len: "length (downloadsByStatus StatusActive e) = length ?act" "length (waitingDownloads e) = length ?wait"
    using mset_eq_length[OF m] mset_eq_length[OF q(1)] by simp_all
  have "set (eStopped e) \<subseteq> dom (map_of (eDownloads e))"
    using inv by (auto simp: engineInv_def coreInv_def stopInvBut_def stat_def)
  then have stopped: "length (stoppedDownloads e) = length (eStopped e)"
    unfolding stoppedDownloads_def by (rule length_lookups)
  have "statLoop e (eDownloads e) (0, 0, 0) =
      (min MaxInt64 (\<Sum>(g, i)\<leftarrow>?act. max 0 (dDownloadBPS (obj e i))), length ?act, length ?wait)"
    using statLoop_sums[of 0 e "eDownloads e" 0 0] by simp
  then show ?thesis unfolding GetGlobalStat_def speed len stopped by (simp only: Let_def prod.case)
qed

theorem GetGlobalStat_spec_witness:
  "gsNumActive (GetGlobalStat runEngine) = Itoa (int (length (downloadsByStatus StatusActive runEngine)))"
  using GetGlobalStat_spec[OF runEngine_reachable] by (simp add: runEngine_facts)


section \<open>Local file names\<close>

lemma pathBase_component: "pathBase p \<noteq> '''' \<and> (pathBase p = ''/'' \<or> CHR ''/'' \<notin> set (pathBase p))"
  by (auto simp: pathBase_def pathTail_def Let_def dest: set_takeWhileD)

text \<open>C40: The name of the file a URI is saved under is one path component whatever the URI is: it is not empty,
  not \<open>.\<close> or \<open>..\<close>, and holds no slash and no NUL byte, so a server cannot choose a
  file outside the download directory, neither with an encoded slash nor with a malformed URL.\<close>

theorem filenameFromURI_safe:
  "let name = filenameFromURI qe raw in
     name \<noteq> '''' \<and> name \<noteq> ''.'' \<and> name \<noteq> ''..'' \<and> CHR ''/'' \<notin> set name \<and> CHR 0x00 \<notin> set name"
proof -
  have "let name = safeURIFilename s in name \<noteq> '''' \<and> name \<noteq> ''.'' \<and> name \<noteq> ''..'' \<and> CHR ''/'' \<notin> set name \<and> CHR 0x00 \<notin> set name" for s
    using pathBase_component[of s] by (auto simp: safeURIFilename_def Let_def ContainsByte_def)
  then show ?thesis by (simp add: filenameFromURI_def Let_def split: option.split)
qed

end
