(* ===== verification/Session_Proofs.thy ===== *)
theory Session_Proofs
  imports Engine_Steps
begin

text \<open>
  What the session file preserves: the text the writer produces is read back to the same downloads, the
  finalized files and the options of a download survive, and the file keeps the order of the queue.
\<close>

section \<open>The text format round trip\<close>

text \<open>A byte of a white-space sequence of more than one byte is above 127.\<close>

lemma spaceSeqs_multi: "q \<in> set spaceSeqs \<Longrightarrow> c \<in> set q \<Longrightarrow> asciiSpace c \<Longrightarrow> q = [c]"
  unfolding spaceSeqs_def asciiSpace_def by auto

text \<open>A byte that occurs in a sequence only as the whole sequence keeps what precedes it apart from
  what follows.\<close>

lemma leadLen_barrier:
  assumes "leadLen qs s = 0" "s \<noteq> []" "[] \<notin> set qs" "\<And>q. q \<in> set qs \<Longrightarrow> c \<in> set q \<Longrightarrow> length q = 1"
  shows "leadLen qs (s @ c # t) = 0"
  unfolding leadLen_zero_iff[OF assms(3)]
proof
  fix q assume q: "q \<in> set qs"
  show "\<not> prefix q (s @ c # t)"
  proof
    assume p: "prefix q (s @ c # t)"
    have ns: "\<not> prefix q s" using assms(1) q by (simp add: leadLen_zero_iff[OF assms(3)])
    then have "prefix s q" using p by (meson prefix_same_cases prefixI)
    then obtain r where r: "q = s @ r" by (auto simp: prefix_def)
    moreover from this ns have "r \<noteq> []" by auto
    ultimately have "c \<in> set q" using p by (cases r) auto
    then have "length q = 1" using assms(4) q by blast
    with r \<open>r \<noteq> []\<close> assms(2) show False by (cases s; cases r) auto
  qed
qed

lemma rev_seqs_bytes: "q \<in> set (map rev spaceSeqs) \<Longrightarrow> c \<in> set q \<Longrightarrow> plainByte c \<or> asciiSpace c \<Longrightarrow> length q = 1"
  using plain_not_in_space spaceSeqs_multi by fastforce

lemma seqs_bytes: "q \<in> set spaceSeqs \<Longrightarrow> c \<in> set q \<Longrightarrow> plainByte c \<or> asciiSpace c \<Longrightarrow> length q = 1"
  using plain_not_in_space spaceSeqs_multi by fastforce

lemmas lead_barrier = leadLen_barrier[OF _ _ nil_not_space(1) seqs_bytes]
lemmas trail_barrier = leadLen_barrier[OF _ _ nil_not_space(2) rev_seqs_bytes]

lemma ascii_specials [simp]:
  "plainByte (CHR ''='')" "asciiSpace (CHR 0x09)" "asciiSpace (CHR '' '')" "asciiSpace (CHR 0x0A)" "asciiSpace (CHR 0x0D)"
  by (simp_all add: plainByte_def asciiSpace_def)

lemma asciiSpace_seq: "asciiSpace c \<Longrightarrow> [c] \<in> set spaceSeqs"
proof -
  assume c: "asciiSpace c"
  define n where "n = (of_char c :: nat)"
  have "c = char_of n" "n \<in> {9, 10, 11, 12, 13, 32}" using c by (simp_all add: n_def asciiSpace_def)
  then show ?thesis unfolding spaceSeqs_def by auto
qed

lemma asciiSpace_hasSpace: "asciiSpace c \<Longrightarrow> c \<in> set s \<Longrightarrow> hasSpace s"
proof -
  assume c: "asciiSpace c" "c \<in> set s"
  have "[c] \<in> set spaceSeqs" using c(1) by (rule asciiSpace_seq)
  moreover have "sublist [c] s" using c(2) by (metis append_Cons append_Nil split_list sublist_appendI)
  ultimately show ?thesis unfolding hasSpace_iff by blast
qed


text \<open>The line of the URIs.\<close>

lemma fieldsFrom_word:
  assumes "\<not> hasSpace w" and "t = [] \<or> (\<exists>c t'. t = c # t' \<and> asciiSpace c)"
  shows "fieldsFrom acc (w @ t) = fieldsFrom (rev w @ acc) t"
  using assms
proof (induction w arbitrary: acc)
  case (Cons x xs)
  have "leadLen spaceSeqs ((x # xs) @ t) = 0"
    using Cons.prems lead_barrier[of "x # xs"] no_space_lead[of "x # xs"] by auto
  then have "fieldsFrom acc ((x # xs) @ t) = fieldsFrom (x # acc) (xs @ t)"
    by (subst fieldsFrom.simps) simp
  also have "\<dots> = fieldsFrom (rev xs @ x # acc) t" using Cons by simp
  finally show ?case by simp
qed simp

lemma leadLen_ascii: "asciiSpace c \<Longrightarrow> leadLen spaceSeqs (c # t) = 1"
proof -
  assume c: "asciiSpace c"
  obtain q where q: "find (\<lambda>q. prefix q (c # t)) spaceSeqs = Some q"
    using asciiSpace_seq[OF c] by (cases "find (\<lambda>q. prefix q (c # t)) spaceSeqs") (auto simp: find_None_iff)
  then have "q \<in> set spaceSeqs" "prefix q (c # t)" by (auto simp: find_Some_iff)
  moreover have "c \<in> set q" using spaceSeqs_nonempty[OF \<open>q \<in> set spaceSeqs\<close>] \<open>prefix q (c # t)\<close>
    by (metis prefix_Cons list.set_intros(1))
  ultimately have "q = [c]" using spaceSeqs_multi c by blast
  with q show ?thesis by (simp add: leadLen_def)
qed

lemmas leadLen_blanks [simp] = leadLen_ascii[OF ascii_specials(2)] leadLen_ascii[OF ascii_specials(3)]

lemma Fields_Join:
  "(\<And>u. u \<in> set us \<Longrightarrow> u \<noteq> [] \<and> \<not> hasSpace u) \<Longrightarrow> Fields (Join us [CHR 0x09]) = us"
  unfolding Fields_def
proof (induction us "[CHR 0x09]" rule: Join.induct)
  case 1
  show ?case by (simp add: fieldsFrom.simps)
next
  case (2 x)
  then show ?case using fieldsFrom_word[of x "[]" "[]"] by (simp add: fieldsFrom.simps)
next
  case (3 x y ys)
  have "fieldsFrom [] (Join (x # y # ys) [CHR 0x09]) = fieldsFrom (rev x) (CHR 0x09 # Join (y # ys) [CHR 0x09])"
    using 3(2)[of x] fieldsFrom_word[of x "CHR 0x09 # Join (y # ys) [CHR 0x09]" "[]"] by simp
  also have "\<dots> = x # fieldsFrom [] (Join (y # ys) [CHR 0x09])"
    using 3(2)[of x] by (subst fieldsFrom.simps) simp
  finally show ?case using 3 by simp
qed

lemma Join_trim:
  assumes "us \<noteq> []" "\<And>u. u \<in> set us \<Longrightarrow> u \<noteq> [] \<and> \<not> hasSpace u"
  shows "TrimSpace (Join us [CHR 0x09]) = Join us [CHR 0x09]"
proof -
  have "leadLen spaceSeqs (Join us [CHR 0x09]) = 0"
    using assms by (cases us; cases "tl us") (auto simp: no_space_lead lead_barrier)
  moreover have "leadLen (map rev spaceSeqs) (rev (Join us [CHR 0x09])) = 0 \<and> Join us [CHR 0x09] \<noteq> []"
    using assms
  proof (induction us "[CHR 0x09]" rule: Join.induct)
    case (3 x y ys)
    then have "leadLen (map rev spaceSeqs) (rev (Join (y # ys) [CHR 0x09])) = 0" "Join (y # ys) [CHR 0x09] \<noteq> []" by auto
    then show ?case using trail_barrier[where s = "rev (Join (y # ys) [CHR 0x09])" and c = "CHR 0x09" and t = "rev x"] by simp
  qed (auto simp: no_space_trail)
  ultimately show ?thesis by (simp add: TrimSpace_id_iff)
qed

text \<open>The line of an option.\<close>

lemma option_trim:
  assumes "k \<noteq> []" "\<not> hasSpace k" "TrimSpace v = v"
  shows "TrimSpace (''  '' @ k @ ''='' @ v) = k @ ''='' @ v"
proof -
  have "leadLen spaceSeqs (k @ CHR ''='' # v) = 0" using assms by (intro lead_barrier) (auto simp: no_space_lead)
  then have l: "TrimLeftSpace (''  '' @ k @ ''='' @ v) = k @ CHR ''='' # v"
    unfolding TrimLeftSpace_def by (simp add: stripLead.simps[of _ "CHR '' '' # _"] stripLead_id)
  have "leadLen (map rev spaceSeqs) (rev v @ CHR ''='' # rev k) = 0"
  proof (cases "v = []")
    case True
    have "leadLen (map rev spaceSeqs) ([CHR ''=''] @ rev k) = 0"
      unfolding spaceLen_zero
    proof
      fix q assume q: "q \<in> set (map rev spaceSeqs)"
      then have "q \<noteq> []" "CHR ''='' \<notin> set q" using nil_not_space(2) plain_not_in_space[of "CHR ''=''"] by auto
      then show "\<not> prefix q ([CHR ''=''] @ rev k)" by (cases q) auto
    qed
    then show ?thesis using True by simp
  next
    case False
    then show ?thesis using assms(3) by (intro trail_barrier) (auto simp: TrimSpace_id_iff)
  qed
  then show ?thesis unfolding TrimSpace_def l by (simp add: TrimRightSpace_def stripLead_id)
qed


section \<open>Reading back what was written\<close>

text \<open>What reading one written option leaves: a list of one value is read as that value, an empty
  list leaves nothing, and neither does an option whose key starts with the comment sign, whose lines the
  reader skips.\<close>

definition canonOption :: "string \<Rightarrow> optval \<Rightarrow> options" where
  "canonOption k v =
     (if HasPrefix k ''#'' then []
      else case v of
        VStrs [] \<Rightarrow> []
      | VStrs [x] \<Rightarrow> [(k, VStr x)]
      | VStrs xs \<Rightarrow> [(k, VStrs xs)]
      | w \<Rightarrow> [(k, VStr (sprint w))])"

definition canonOptions :: "options \<Rightarrow> options" where
  "canonOptions opts =
     concat (map (\<lambda>k. case map_of opts k of None \<Rightarrow> [] | Some v \<Rightarrow> canonOption k v) (sort (map fst opts)))"

text \<open>A value that \<open>validateSessionOptionValue\<close> accepts and a key that is accepted and is not read as
  a comment.\<close>

definition goodValue :: "string \<Rightarrow> bool" where
  "goodValue v \<longleftrightarrow> length v \<le> maxDownloadOptionValueSize \<and> CHR 0x0D \<notin> set v \<and> CHR 0x0A \<notin> set v \<and> TrimSpace v = v"

definition goodKey :: "string \<Rightarrow> bool" where
  "goodKey k \<longleftrightarrow> \<not> badSessionKey k \<and> \<not> HasPrefix k ''#''"

lemma validateSessionOptionValue_ok: "validateSessionOptionValue gid k v = Inr () \<longleftrightarrow> goodValue v"
  by (auto simp: validateSessionOptionValue_def goodValue_def ContainsAny_def list_ex_iff)

lemma validateSessionItems_ok: "validateSessionItems gid k xs = Inr () \<longleftrightarrow> (\<forall>x \<in> set xs. goodValue x)"
  by (induction xs) (auto simp: bindR_eq_Inr validateSessionOptionValue_ok)

definition valueTexts :: "optval \<Rightarrow> string list" where
  "valueTexts v = (case v of VStrs xs \<Rightarrow> xs | w \<Rightarrow> [sprint w])"

lemma valueLines_texts: "valueLines k v = map (\<lambda>x. ''  '' @ k @ ''='' @ x) (valueTexts v)"
  by (simp add: valueLines_def valueTexts_def split: optval.split)

lemma validateSessionOptions_ok:
  "validateSessionOptions gid opts = Inr () \<Longrightarrow> (k, v) \<in> set opts \<Longrightarrow>
     \<not> badSessionKey k \<and> length (valueTexts v) \<le> maxSessionOptionValues \<and> (\<forall>x \<in> set (valueTexts v). goodValue x)"
proof (induction gid opts rule: validateSessionOptions.induct)
  case (2 gid key val kvs)
  have "\<not> badSessionKey key" using 2(2) by (auto simp: badSessionKey_def split: if_splits)
  moreover have "length (valueTexts val) \<le> maxSessionOptionValues \<and> (\<forall>x \<in> set (valueTexts val). goodValue x)"
    using 2(2)
    by (auto simp: bindR_eq_Inr valueTexts_def validateSessionOptionValue_ok validateSessionItems_ok maxSessionOptionValues_def
        split: if_splits optval.splits)
  moreover have "validateSessionOptions gid kvs = Inr ()" using 2(2) by (auto simp: bindR_eq_Inr split: if_splits)
  ultimately show ?case using 2 by (auto split: if_splits simp: bindR_eq_Inr)
qed simp

lemma parseLine_option:
  assumes "goodKey k" "goodValue x" "psCurrent s = Some i" "addOption k (VStr x) i = Inr i'"
    and "int (length (''  '' @ k @ ''='' @ x)) < sessionMaxLineSize"
    and "psTotal s + int (length (''  '' @ k @ ''='' @ x)) + 1 \<le> maxSessionFileSize"
  shows "parseLine (''  '' @ k @ ''='' @ x) s =
    Inr (s\<lparr>psLine := psLine s + 1, psTotal := psTotal s + int (length (''  '' @ k @ ''='' @ x)) + 1, psCurrent := Some i'\<rparr>)"
proof -
  let ?l = "''  '' @ k @ ''='' @ x"
  have k: "k \<noteq> []" "\<not> hasSpace k" "CHR ''='' \<notin> set k" using assms(1) by (auto simp: goodKey_def badSessionKey_def ContainsByte_def)
  have x: "TrimSpace x = x" "CHR 0x0D \<notin> set x" using assms(2) by (auto simp: goodValue_def)
  have cr: "dropCR ?l = ?l" using x by (cases x rule: rev_cases) (auto simp: dropCR_def)
  have tr: "TrimSpace ?l = k @ ''='' @ x" using option_trim k x by blast
  have nc: "\<not> HasPrefix (k @ ''='' @ x) ''#''" using assms(1) k by (cases k) (auto simp: goodKey_def HasPrefix_def)
  have cut: "Cut (k @ CHR ''='' # x) (CHR ''='') = (k, x, True)" using k(3) by (rule Cut_found)
  have "optionLine (k @ ''='' @ x) (s\<lparr>psLine := psLine s + 1, psTotal := psTotal s + int (length ?l) + 1\<rparr>) =
     Inr (s\<lparr>psLine := psLine s + 1, psTotal := psTotal s + int (length ?l) + 1, psCurrent := Some i'\<rparr>)"
    using assms(3,4) k x cut TrimSpace_no_space[OF k(2)] by (simp add: optionLine_def)
  then show ?thesis
    using assms(5,6) k nc unfolding parseLine_def Let_def cr tr by (simp add: isSessionOptionLine_def)
qed

text \<open>An option line whose key starts with the comment sign is only counted.\<close>

lemma parseLine_comment:
  assumes "\<not> badSessionKey k" "HasPrefix k ''#''" "goodValue x"
    and "int (length (''  '' @ k @ ''='' @ x)) < sessionMaxLineSize"
    and "psTotal s + int (length (''  '' @ k @ ''='' @ x)) + 1 \<le> maxSessionFileSize"
  shows "parseLine (''  '' @ k @ ''='' @ x) s =
    Inr (s\<lparr>psLine := psLine s + 1, psTotal := psTotal s + int (length (''  '' @ k @ ''='' @ x)) + 1\<rparr>)"
proof -
  let ?l = "''  '' @ k @ ''='' @ x"
  have k: "k \<noteq> []" "\<not> hasSpace k" using assms(1) by (auto simp: badSessionKey_def)
  have x: "TrimSpace x = x" "CHR 0x0D \<notin> set x" using assms(3) by (auto simp: goodValue_def)
  have cr: "dropCR ?l = ?l" using x by (cases x rule: rev_cases) (auto simp: dropCR_def)
  have tr: "TrimSpace ?l = k @ ''='' @ x" using option_trim k x by blast
  have "HasPrefix (k @ ''='' @ x) ''#''" using assms(2) k by (cases k) (auto simp: HasPrefix_def)
  then show ?thesis using assms(4,5) unfolding parseLine_def Let_def cr tr by simp
qed


definition lineBytes :: "string list \<Rightarrow> int" where
  "lineBytes ls = (\<Sum>l \<leftarrow> ls. int (length l) + 1)"

lemma lineBytes_simps [simp]:
  "lineBytes [] = 0" "lineBytes (l # ls) = int (length l) + 1 + lineBytes ls" "lineBytes (xs @ ys) = lineBytes xs + lineBytes ys"
  by (simp_all add: lineBytes_def)

lemma lineBytes_nonneg [simp]: "0 \<le> lineBytes ls"
  by (induction ls) auto

lemma lineBytes_textOf: "int (length (textOf ls)) = lineBytes ls"
  by (induction ls) (auto simp: textOf_def)

definition listOption :: "string \<Rightarrow> string list \<Rightarrow> options" where
  "listOption k xs = (case xs of [] \<Rightarrow> [] | [x] \<Rightarrow> [(k, VStr x)] | _ \<Rightarrow> [(k, VStrs xs)])"

definition readOption :: "string \<Rightarrow> string list \<Rightarrow> options" where
  "readOption k xs = (if HasPrefix k ''#'' then [] else listOption k xs)"

lemma canonOption_texts: "canonOption k v = readOption k (valueTexts v)"
  by (auto simp: canonOption_def readOption_def listOption_def valueTexts_def split: optval.splits list.splits)

lemma update_new: "map_of xs k = None \<Longrightarrow> AList.update k v xs = xs @ [(k, v)]"
  by (induction xs) (auto split: if_splits)

lemma update_last: "map_of xs k = None \<Longrightarrow> AList.update k v (xs @ [(k, w)]) = xs @ [(k, v)]"
  by (induction xs) (auto split: if_splits)

lemma map_of_None_last: "map_of xs k = None \<Longrightarrow> map_of (xs @ [(k, v)]) k = Some v"
  by (simp add: map_add_def)

lemma addOption_next:
  assumes "goodKey k" "goodValue x" "map_of opts k = None" "length opts < maxSessionOptionKeys" "length xs < maxSessionOptionValues"
  shows "addOption k (VStr x) (i\<lparr>siOptions := opts @ listOption k xs\<rparr>) = Inr (i\<lparr>siOptions := opts @ listOption k (xs @ [x])\<rparr>)"
proof -
  have g: "\<not> badSessionKey k" "\<not> maxDownloadOptionValueSize < length x" using assms(1,2) by (auto simp: goodKey_def goodValue_def)
  consider "xs = []" | y where "xs = [y]" | y z ys where "xs = y # z # ys" by (cases xs; cases "tl xs") auto
  then show ?thesis
  proof cases
    case 1
    then show ?thesis using g assms by (simp add: addOption_def listOption_def update_new)
  next
    case 2
    then show ?thesis using g assms by (simp add: addOption_def listOption_def map_add_def update_last)
  next
    case 3
    then show ?thesis using g assms by (simp add: addOption_def listOption_def map_add_def update_last)
  qed
qed

lemma parseLines_append: "parseLines (xs @ ys) s = bindR (parseLines xs s) (parseLines ys)"
  by (induction xs arbitrary: s) (simp_all add: bindR_def split: sum.splits)

abbreviation advance :: "string list \<Rightarrow> sessionItem \<Rightarrow> parseState \<Rightarrow> parseState" where
  "advance ls i s \<equiv> s\<lparr>psLine := psLine s + length ls, psTotal := psTotal s + lineBytes ls, psCurrent := Some i\<rparr>"

lemma parseLines_values:
  assumes "goodKey k" "\<forall>x \<in> set xs. goodValue x" "psCurrent s = Some i" "map_of (siOptions i) k = None"
    and "length (siOptions i) < maxSessionOptionKeys" "length xs \<le> maxSessionOptionValues"
    and "\<forall>x \<in> set xs. int (length (''  '' @ k @ ''='' @ x)) < sessionMaxLineSize"
    and "psTotal s + lineBytes (map (\<lambda>x. ''  '' @ k @ ''='' @ x) xs) \<le> maxSessionFileSize"
  shows "parseLines (map (\<lambda>x. ''  '' @ k @ ''='' @ x) xs) s =
    Inr (advance (map (\<lambda>x. ''  '' @ k @ ''='' @ x) xs) (i\<lparr>siOptions := siOptions i @ listOption k xs\<rparr>) s)"
  using assms
proof (induction xs rule: rev_induct)
  case Nil
  then show ?case by (simp add: listOption_def)
next
  case (snoc x xs)
  let ?f = "\<lambda>x. ''  '' @ k @ ''='' @ x"
  let ?s = "advance (map ?f xs) (i\<lparr>siOptions := siOptions i @ listOption k xs\<rparr>) s"
  have ih: "parseLines (map ?f xs) s = Inr ?s"
    using snoc.prems lineBytes_nonneg[of "[?f x]"] by (intro snoc.IH) (simp_all add: le_diff_eq)
  have "addOption k (VStr x) (i\<lparr>siOptions := siOptions i @ listOption k xs\<rparr>) = Inr (i\<lparr>siOptions := siOptions i @ listOption k (xs @ [x])\<rparr>)"
    using snoc.prems by (intro addOption_next) auto
  then have "parseLine (?f x) ?s = Inr (?s\<lparr>psLine := psLine ?s + 1, psTotal := psTotal ?s + int (length (?f x)) + 1,
      psCurrent := Some (i\<lparr>siOptions := siOptions i @ listOption k (xs @ [x])\<rparr>)\<rparr>)"
    using snoc.prems by (intro parseLine_option) (simp_all add: add.assoc)
  then show ?case unfolding map_append parseLines_append ih by (simp add: add.assoc)
qed


text \<open>The lines of one key, read as an option or skipped.\<close>

lemma parseLines_comments:
  assumes "\<not> badSessionKey k" "HasPrefix k ''#''" "\<forall>x \<in> set xs. goodValue x" "psCurrent s = Some i"
    and "\<forall>x \<in> set xs. int (length (''  '' @ k @ ''='' @ x)) < sessionMaxLineSize"
    and "psTotal s + lineBytes (map (\<lambda>x. ''  '' @ k @ ''='' @ x) xs) \<le> maxSessionFileSize"
  shows "parseLines (map (\<lambda>x. ''  '' @ k @ ''='' @ x) xs) s = Inr (advance (map (\<lambda>x. ''  '' @ k @ ''='' @ x) xs) i s)"
  using assms
proof (induction xs arbitrary: s)
  case (Cons x xs)
  let ?f = "\<lambda>x. ''  '' @ k @ ''='' @ x"
  let ?s = "s\<lparr>psLine := psLine s + 1, psTotal := psTotal s + int (length (?f x)) + 1\<rparr>"
  have b: "psTotal s + int (length (?f x)) + 1 \<le> maxSessionFileSize"
    using Cons.prems(6) lineBytes_nonneg[of "map ?f xs"] unfolding list.map lineBytes_simps by linarith
  have "parseLine (?f x) s = Inr ?s" by (rule parseLine_comment[OF Cons.prems(1,2) _ _ b]) (use Cons.prems in simp_all)
  moreover have "parseLines (map ?f xs) ?s = Inr (advance (map ?f xs) i ?s)"
    using Cons.prems by (intro Cons.IH) simp_all
  ultimately show ?case by (simp add: add.assoc)
qed simp

lemma parseLines_key:
  assumes "\<not> badSessionKey k" "\<forall>x \<in> set xs. goodValue x" "psCurrent s = Some i" "map_of (siOptions i) k = None"
    and "length (siOptions i) < maxSessionOptionKeys" "length xs \<le> maxSessionOptionValues"
    and "\<forall>x \<in> set xs. int (length (''  '' @ k @ ''='' @ x)) < sessionMaxLineSize"
    and "psTotal s + lineBytes (map (\<lambda>x. ''  '' @ k @ ''='' @ x) xs) \<le> maxSessionFileSize"
  shows "parseLines (map (\<lambda>x. ''  '' @ k @ ''='' @ x) xs) s =
    Inr (advance (map (\<lambda>x. ''  '' @ k @ ''='' @ x) xs) (i\<lparr>siOptions := siOptions i @ readOption k xs\<rparr>) s)"
proof (cases "HasPrefix k ''#''")
  case True
  then show ?thesis using parseLines_comments[OF assms(1) True assms(2,3,7,8)] by (simp add: readOption_def)
next
  case False
  then have "goodKey k" using assms(1) by (simp add: goodKey_def)
  then show ?thesis using parseLines_values[OF _ assms(2-8)] False by (simp add: readOption_def)
qed

text \<open>All options of an entry, in any order of distinct keys.\<close>

lemma parseLines_options:
  assumes "\<forall>k \<in> set ks. \<not> badSessionKey k \<and> (\<forall>x \<in> set (texts k). goodValue x) \<and> length (texts k) \<le> maxSessionOptionValues"
    and "distinct ks" "psCurrent s = Some i" "\<forall>k \<in> set ks. map_of (siOptions i) k = None"
    and "length (siOptions i) + length ks \<le> maxSessionOptionKeys"
    and "\<forall>l \<in> set (concat (map (\<lambda>k. map (\<lambda>x. ''  '' @ k @ ''='' @ x) (texts k)) ks)). int (length l) < sessionMaxLineSize"
    and "psTotal s + lineBytes (concat (map (\<lambda>k. map (\<lambda>x. ''  '' @ k @ ''='' @ x) (texts k)) ks)) \<le> maxSessionFileSize"
  shows "parseLines (concat (map (\<lambda>k. map (\<lambda>x. ''  '' @ k @ ''='' @ x) (texts k)) ks)) s =
    Inr (advance (concat (map (\<lambda>k. map (\<lambda>x. ''  '' @ k @ ''='' @ x) (texts k)) ks))
      (i\<lparr>siOptions := siOptions i @ concat (map (\<lambda>k. readOption k (texts k)) ks)\<rparr>) s)"
  using assms
proof (induction ks arbitrary: s i)
  case (Cons k ks)
  let ?f = "\<lambda>k. map (\<lambda>x. ''  '' @ k @ ''='' @ x) (texts k)"
  define i1 where "i1 = i\<lparr>siOptions := siOptions i @ readOption k (texts k)\<rparr>"
  define s1 where "s1 = advance (?f k) i1 s"
  have bytes: "lineBytes (concat (map ?f (k # ks))) = lineBytes (?f k) + lineBytes (concat (map ?f ks))" by simp
  have "parseLines (?f k) s = Inr s1"
    unfolding s1_def i1_def
  proof (rule parseLines_key)
    show "psTotal s + lineBytes (?f k) \<le> maxSessionFileSize"
      using Cons.prems(7) lineBytes_nonneg[of "concat (map ?f ks)"] unfolding bytes by linarith
    show "\<forall>x \<in> set (texts k). int (length (''  '' @ k @ ''='' @ x)) < sessionMaxLineSize"
    proof
      fix x assume "x \<in> set (texts k)"
      then have "''  '' @ k @ ''='' @ x \<in> set (concat (map ?f (k # ks)))" by simp
      then show "int (length (''  '' @ k @ ''='' @ x)) < sessionMaxLineSize" using Cons.prems(6) by blast
    qed
  qed (use Cons.prems in auto)
  moreover have "parseLines (concat (map ?f ks)) s1 =
      Inr (advance (concat (map ?f ks)) (i1\<lparr>siOptions := siOptions i1 @ concat (map (\<lambda>k. readOption k (texts k)) ks)\<rparr>) s1)"
  proof (rule Cons.IH)
    have l: "length (readOption k (texts k)) \<le> 1" "\<And>h. h \<noteq> k \<Longrightarrow> map_of (readOption k (texts k)) h = None"
      by (auto simp: readOption_def listOption_def split: list.splits)
    show "length (siOptions i1) + length ks \<le> maxSessionOptionKeys"
      using Cons.prems(5) l(1) by (simp add: i1_def)
    show "\<forall>h \<in> set ks. map_of (siOptions i1) h = None"
    proof
      fix h assume "h \<in> set ks"
      then show "map_of (siOptions i1) h = None" using Cons.prems(2,4) l(2)[of h] by (auto simp: i1_def map_add_def)
    qed
    show "psTotal s1 + lineBytes (concat (map ?f ks)) \<le> maxSessionFileSize"
      using Cons.prems(7) unfolding bytes by (simp add: s1_def)
  qed (use Cons.prems in \<open>auto simp: s1_def\<close>)
  ultimately show ?case
    unfolding list.map concat.simps parseLines_append by (simp add: s1_def i1_def add.assoc)
qed simp

lemma validateSessionURIs_ok:
  "validateSessionURIs gid n us = Inr () \<Longrightarrow> (\<forall>u \<in> set us. u \<noteq> [] \<and> \<not> hasSpace u) \<and> (n = 0 \<longrightarrow> us \<noteq> [] \<longrightarrow> \<not> HasPrefix (hd us) ''#'')"
  by (induction gid n us rule: validateSessionURIs.induct) (auto split: if_splits)

lemma parseLine_uris:
  assumes "us \<noteq> []" "\<forall>u \<in> set us. u \<noteq> [] \<and> \<not> hasSpace u" "\<not> HasPrefix (hd us) ''#''" "length us \<le> maxSessionURIsPerDownload"
    and "length (psItems (flushItem s)) < maxSessionDownloads"
    and "int (length (Join us [CHR 0x09])) < sessionMaxLineSize"
    and "psTotal s + int (length (Join us [CHR 0x09])) + 1 \<le> maxSessionFileSize"
  shows "parseLine (Join us [CHR 0x09]) s =
    Inr (advance [Join us [CHR 0x09]] \<lparr>siLine = psLine s + 1, siUris = us, siOptions = []\<rparr> (flushItem s))"
proof -
  let ?l = "Join us [CHR 0x09]"
  have f: "Fields ?l = us" using assms(2) by (intro Fields_Join) auto
  have tr: "TrimSpace ?l = ?l" using assms(1,2) by (intro Join_trim) auto
  obtain c t rest where l: "?l = (c # t) @ rest" "hd us = c # t"
    using assms(1,2) by (cases us; cases "tl us"; cases "hd us") auto
  have c: "\<not> asciiSpace c" "c \<noteq> CHR ''#''"
    using assms(1-3) l(2) asciiSpace_hasSpace[of c "hd us"] hd_in_set[of us] by (auto simp: HasPrefix_def)
  have lst: "?l \<noteq> []" "last ?l \<noteq> CHR 0x0D"
  proof -
    show "?l \<noteq> []" using l by simp
    have "leadLen (map rev spaceSeqs) (rev ?l) = 0" using tr by (simp add: TrimSpace_id_iff)
    then have "\<not> prefix [CHR 0x0D] (rev ?l)" using asciiSpace_seq[of "CHR 0x0D"] unfolding spaceLen_zero by force
    then show "last ?l \<noteq> CHR 0x0D" using \<open>?l \<noteq> []\<close> by (cases ?l rule: rev_cases) auto
  qed
  have cr: "dropCR ?l = ?l" using lst by (simp add: dropCR_def)
  have opt: "\<not> isSessionOptionLine ?l" using l c by (auto simp: isSessionOptionLine_def)
  have nc: "\<not> HasPrefix ?l ''#''" using l c by (auto simp: HasPrefix_def)
  show ?thesis
    using assms(4-7) lst(1) opt nc unfolding parseLine_def Let_def cr tr uriLine_def f
    by (simp add: flushItem_def add.assoc)
qed


text \<open>One entry, then all of them.\<close>

definition goodEntry :: "sysEnv \<Rightarrow> sessionDownload \<Rightarrow> bool" where
  "goodEntry env d \<longleftrightarrow> validateSessionDownload env d = Inr () \<and> sdUris d \<noteq> [] \<and> distinct (map fst (sdOptions d)) \<and> (\<forall>l \<in> set (entryLines d). int (length l) < sessionMaxLineSize)"

definition itemOf :: "nat \<Rightarrow> sessionDownload \<Rightarrow> sessionItem" where
  "itemOf n d = \<lparr>siLine = n, siUris = sdUris d, siOptions = canonOptions (sdOptions d)\<rparr>"

lemma validateSessionDownload_ok:
  assumes "validateSessionDownload env d = Inr ()"
  shows "validateSessionURIs (sdGid d) 0 (sdUris d) = Inr ()" "length (sdUris d) \<le> maxSessionURIsPerDownload"
    "length (sdOptions d) \<le> maxSessionOptionKeys" "validateSessionOptions (sdGid d) (sdOptions d) = Inr ()"
  using assms
  by (auto simp: validateSessionDownload_def Let_def bindR_eq_Inr maxSessionURIsPerDownload_def maxDownloadURIs_def split: if_splits)

lemma parseLines_entry:
  assumes "goodEntry env d" "length (psItems (flushItem s)) < maxSessionDownloads"
    and "psTotal s + lineBytes (entryLines d) \<le> maxSessionFileSize"
  shows "parseLines (entryLines d) s = Inr (advance (entryLines d) (itemOf (psLine s + 1) d) (flushItem s))"
proof -
  note v = validateSessionDownload_ok[OF assms(1)[unfolded goodEntry_def, THEN conjunct1]]
  define texts where "texts k = (case map_of (sdOptions d) k of None \<Rightarrow> [] | Some w \<Rightarrow> valueTexts w)" for k
  define ks where "ks = sort (map fst (sdOptions d))"
  define ols where "ols = concat (map (\<lambda>k. map (\<lambda>x. ''  '' @ k @ ''='' @ x) (texts k)) ks)"
  let ?u = "Join (sdUris d) [CHR 0x09]"
  have lines: "entryLines d = ?u # ols"
    unfolding entryLines_def ols_def ks_def texts_def valueLines_texts
    by (auto intro!: arg_cong[where f = concat] split: option.splits)
  have canon: "canonOptions (sdOptions d) = concat (map (\<lambda>k. readOption k (texts k)) ks)"
    unfolding canonOptions_def ks_def texts_def canonOption_texts
    by (auto intro!: arg_cong[where f = concat] simp: readOption_def listOption_def split: option.splits)
  have us: "(\<forall>u \<in> set (sdUris d). u \<noteq> [] \<and> \<not> hasSpace u) \<and> \<not> HasPrefix (hd (sdUris d)) ''#''"
    using validateSessionURIs_ok[OF v(1)] assms(1) by (simp add: goodEntry_def)
  define i0 where "i0 = \<lparr>siLine = psLine s + 1, siUris = sdUris d, siOptions = []\<rparr>"
  define s1 where "s1 = advance [?u] i0 (flushItem s)"
  have tot: "psTotal s + int (length ?u) + 1 \<le> maxSessionFileSize"
    using assms(3) lineBytes_nonneg[of ols] unfolding lines lineBytes_simps by linarith
  have "parseLine ?u s = Inr s1"
    unfolding s1_def i0_def using assms us v(2) tot by (intro parseLine_uris) (simp_all add: lines goodEntry_def)
  moreover have "parseLines ols s1 = Inr (advance ols (i0\<lparr>siOptions := siOptions i0 @ concat (map (\<lambda>k. readOption k (texts k)) ks)\<rparr>) s1)"
    unfolding ols_def
  proof (rule parseLines_options, fold ols_def)
    show "\<forall>k \<in> set ks. \<not> badSessionKey k \<and> (\<forall>x \<in> set (texts k). goodValue x) \<and> length (texts k) \<le> maxSessionOptionValues"
    proof
      fix k assume "k \<in> set ks"
      then obtain w where w: "map_of (sdOptions d) k = Some w" "(k, w) \<in> set (sdOptions d)"
        by (auto simp: ks_def) (metis map_of_SomeD map_of_eq_None_iff not_None_eq fst_conv image_eqI)
      from validateSessionOptions_ok[OF v(4) w(2)] w(1)
      show "\<not> badSessionKey k \<and> (\<forall>x \<in> set (texts k). goodValue x) \<and> length (texts k) \<le> maxSessionOptionValues"
        by (simp add: texts_def)
    qed
    show "distinct ks" using assms(1) by (simp add: ks_def goodEntry_def)
    show "psTotal s1 + lineBytes ols \<le> maxSessionFileSize" using assms(3) by (simp add: s1_def lines flushItem_def)
    show "length (siOptions i0) + length ks \<le> maxSessionOptionKeys" using v(3) by (simp add: i0_def ks_def)
    show "\<forall>l \<in> set ols. int (length l) < sessionMaxLineSize" using assms(1) by (simp add: goodEntry_def lines)
  qed (simp_all add: s1_def i0_def)
  ultimately show ?thesis
    unfolding lines itemOf_def canon by (simp add: s1_def i0_def flushItem_def add.assoc)
qed


lemma flushItem_rest [simp]: "psTotal (flushItem s) = psTotal s" "psLine (flushItem s) = psLine s"
  by (simp_all add: flushItem_def)

lemma parseLines_entries:
  assumes "\<forall>d \<in> set ds. goodEntry env d" "length (psItems (flushItem s)) + length ds \<le> maxSessionDownloads"
    and "psTotal s + lineBytes (concat (map entryLines ds)) \<le> maxSessionFileSize"
  shows "\<exists>s'. parseLines (concat (map entryLines ds)) s = Inr s' \<and>
    (\<exists>ns. psItems (flushItem s') = psItems (flushItem s) @ map2 itemOf ns ds \<and> length ns = length ds)"
  using assms
proof (induction ds arbitrary: s)
  case (Cons d ds)
  let ?s1 = "advance (entryLines d) (itemOf (psLine s + 1) d) (flushItem s)"
  have bytes: "lineBytes (concat (map entryLines (d # ds))) = lineBytes (entryLines d) + lineBytes (concat (map entryLines ds))" by simp
  have p: "parseLines (entryLines d) s = Inr ?s1"
    using Cons.prems lineBytes_nonneg[of "concat (map entryLines ds)"] unfolding bytes
    by (intro parseLines_entry[of env]) (simp, simp, linarith)
  have u: "sdUris d \<noteq> []" using Cons.prems(1) by (simp add: goodEntry_def)
  have f: "psItems (flushItem ?s1) = psItems (flushItem s) @ [itemOf (psLine s + 1) d]"
    using u by (simp add: flushItem_def itemOf_def)
  have "\<exists>s'. parseLines (concat (map entryLines ds)) ?s1 = Inr s' \<and>
    (\<exists>ns. psItems (flushItem s') = psItems (flushItem ?s1) @ map2 itemOf ns ds \<and> length ns = length ds)"
    using Cons.prems unfolding bytes by (intro Cons.IH) (simp_all add: f[simplified] add.assoc)
  then obtain s' ns where s': "parseLines (concat (map entryLines ds)) ?s1 = Inr s'"
      "psItems (flushItem s') = psItems (flushItem s) @ [itemOf (psLine s + 1) d] @ map2 itemOf ns ds" "length ns = length ds"
    unfolding f by auto
  then have "parseLines (concat (map entryLines (d # ds))) s = Inr s'" by (simp add: parseLines_append p)
  moreover have "psItems (flushItem s') = psItems (flushItem s) @ map2 itemOf ((psLine s + 1) # ns) (d # ds)" using s'(2) by simp
  ultimately show ?case using s'(3) by (metis length_Cons)
qed (auto simp: flushItem_def)

lemma scanLines_textOf: "\<forall>l \<in> set ls. CHR 0x0A \<notin> set l \<Longrightarrow> scanLines (textOf ls) = ls"
proof -
  assume "\<forall>l \<in> set ls. CHR 0x0A \<notin> set l"
  then have "Split (textOf ls) (CHR 0x0A) = ls @ [[]]"
    by (induction ls) (simp_all add: textOf_def Split_append)
  then show ?thesis by (simp add: scanLines_def Let_def)
qed

lemma Join_set: "c \<in> set (Join us sep) \<Longrightarrow> (\<exists>u \<in> set us. c \<in> set u) \<or> c \<in> set sep"
  by (induction us sep rule: Join.induct) auto

lemma entryLines_no_LF:
  assumes "goodEntry env d" "l \<in> set (entryLines d)" shows "CHR 0x0A \<notin> set l"
proof -
  note v = validateSessionDownload_ok[OF assms(1)[unfolded goodEntry_def, THEN conjunct1]]
  consider "l = Join (sdUris d) [CHR 0x09]" | k w x where "(k, w) \<in> set (sdOptions d)" "x \<in> set (valueTexts w)" "l = ''  '' @ k @ ''='' @ x"
    using assms(2) unfolding entryLines_def valueLines_texts
    by (auto split: option.splits) (metis append_Cons append_Nil map_of_SomeD)+
  then show ?thesis
  proof cases
    case 1
    then show ?thesis
      using Join_set[of "CHR 0x0A" "sdUris d" "[CHR 0x09]"] validateSessionURIs_ok[OF v(1)] asciiSpace_hasSpace[OF ascii_specials(4)] by auto
  next
    case 2
    from validateSessionOptions_ok[OF v(4) 2(1)] 2(2) have "\<not> badSessionKey k" "goodValue x" by auto
    then show ?thesis
      using 2(3) asciiSpace_hasSpace[OF ascii_specials(4), of k] by (auto simp: badSessionKey_def goodValue_def)
  qed
qed

lemma validateEntries2_ok:
  "validateEntries2 env n entries = Inr () \<Longrightarrow>
     (\<forall>d \<in> set entries. sdUris d \<noteq> [] \<longrightarrow> validateSessionDownload env d = Inr ()) \<and>
     (n \<le> maxSessionDownloads \<longrightarrow> n + length (filter (\<lambda>d. sdUris d \<noteq> []) entries) \<le> maxSessionDownloads)"
proof (induction env n entries rule: validateEntries2.induct)
  case (2 env n entry entries)
  show ?case
  proof (cases "sdUris entry = []")
    case True
    then show ?thesis using 2 by simp
  next
    case False
    then have "validateSessionDownload env entry = Inr ()" "n + 1 \<le> maxSessionDownloads" "validateEntries2 env (n + 1) entries = Inr ()"
      using 2(3) by (auto simp: bindR_eq_Inr split: if_splits)
    then show ?thesis using 2(2)[OF False] False by auto
  qed
qed simp

text \<open>Reading back what was written.\<close>

lemma written_session_read:
  assumes "sessionText env entries = Inr text" "\<forall>d \<in> set entries. distinct (map fst (sdOptions d))"
    and "\<forall>l \<in> set (sessionLines entries). int (length l) < sessionMaxLineSize"
  obtains ns where "parseSession text = Inr (map2 itemOf ns (filter (\<lambda>d. sdUris d \<noteq> []) entries))"
    "length ns = length (filter (\<lambda>d. sdUris d \<noteq> []) entries)"
proof -
  define ds where "ds = filter (\<lambda>d. sdUris d \<noteq> []) entries"
  have val: "validateEntries2 env 0 entries = Inr ()" and ct: "text = textOf (sessionLines entries)"
      and sz: "int (length text) \<le> maxSessionFileSize"
    using assms(1) by (auto simp: sessionText_def bindR_eq_Inr Let_def split: if_splits)
  have lines: "sessionLines entries = concat (map entryLines ds)" by (simp add: sessionLines_def ds_def)
  have good: "\<forall>d \<in> set ds. goodEntry env d"
    using validateEntries2_ok[OF val] assms(2,3) unfolding lines by (fastforce simp: goodEntry_def ds_def)
  have cnt: "length ds \<le> maxSessionDownloads" using validateEntries2_ok[OF val] by (simp add: ds_def)
  have scan: "scanLines text = concat (map entryLines ds)"
    unfolding ct lines by (rule scanLines_textOf) (use good entryLines_no_LF in auto)
  let ?s = "\<lparr>psItems = [], psCurrent = None, psLine = 0, psTotal = 0\<rparr> :: parseState"
  have "lineBytes (concat (map entryLines ds)) \<le> maxSessionFileSize" using sz unfolding ct lines lineBytes_textOf .
  then obtain s' ns where p: "parseLines (concat (map entryLines ds)) ?s = Inr s'"
      "psItems (flushItem s') = map2 itemOf ns ds" "length ns = length ds"
    using parseLines_entries[OF good, of ?s] cnt by (auto simp: flushItem_def)
  show ?thesis by (rule that[of ns]) (simp_all add: parseSession_def scan p ds_def[symmetric])
qed



definition exampleEntry :: sessionDownload where
  "exampleEntry = \<lparr>sdGid = gidA, sdUris = [''http://h/f''],
     sdOptions = [(''header'', VStrs [''A:1'', ''B:2'']), (''dir'', VStr ''/dl'')], sdCreatedAt = 0, sdOrder = 0\<rparr>"

lemma plain_no_space: "list_all plainByte s \<Longrightarrow> TrimSpace s = s \<and> \<not> hasSpace s"
  by (simp add: TrimSpace_plain hasSpace_plain)

lemma plain_strings:
  "\<not> hasSpace ''http://h/f''" "\<not> hasSpace ''header''" "\<not> hasSpace ''dir''"
  "TrimSpace ''A:1'' = ''A:1''" "TrimSpace ''B:2'' = ''B:2''" "TrimSpace ''/dl'' = ''/dl''"
  by (rule plain_no_space[THEN conjunct2] plain_no_space[THEN conjunct1], simp add: plainByte_def asciiSpace_def)+

lemma exampleEntry_text:
  "sessionText exampleEnv [exampleEntry] = Inr (textOf (entryLines exampleEntry))"
  by (simp add: sessionText_def exampleEntry_def validateSessionDownload_def Let_def validateSessionOptionValue_def
      plain_strings HasPrefix_def maxDownloadURIs_def maxSessionOptionKeys_def maxDownloadOptionKeys_def
      maxSessionOptionValues_def maxDownloadOptionValueSize_def ContainsByte_def ContainsAny_def maxSessionDownloads_def
      sessionLines_def entryLines_def valueLines_def textOf_def maxSessionFileSize_def del: hasSpace.simps)


text \<open>An entry with an option whose key starts with the comment sign.\<close>

definition commentEntry :: sessionDownload where
  "commentEntry = \<lparr>sdGid = gidA, sdUris = [''http://h/f''], sdOptions = [(''#a'', VStr ''1'')], sdCreatedAt = 0, sdOrder = 0\<rparr>"

lemma commentEntry_strings:
  "\<not> hasSpace ''http://h/f''" "\<not> hasSpace ''#a''" "TrimSpace ''1'' = ''1''" "TrimSpace ''http://h/f'' = ''http://h/f''"
  by (rule plain_no_space[THEN conjunct2] plain_no_space[THEN conjunct1], simp add: plainByte_def asciiSpace_def)+

text \<open>The reader takes an option line whose key starts with the comment sign for a comment: the writer accepts
  and writes such an option, and reading the file back gives the entry without it.\<close>

theorem session_drops_comment_option:
  "sessionText exampleEnv [commentEntry] = Inr (textOf (entryLines commentEntry)) \<and>
   parseSession (textOf (entryLines commentEntry)) = Inr [\<lparr>siLine = 1, siUris = [''http://h/f''], siOptions = []\<rparr>]"
proof
  show "sessionText exampleEnv [commentEntry] = Inr (textOf (entryLines commentEntry))"
    by (simp add: sessionText_def commentEntry_def validateSessionDownload_def Let_def validateSessionOptionValue_def
      commentEntry_strings HasPrefix_def maxDownloadURIs_def maxSessionOptionKeys_def maxDownloadOptionKeys_def
      maxSessionOptionValues_def maxDownloadOptionValueSize_def ContainsByte_def ContainsAny_def maxSessionDownloads_def
      sessionLines_def entryLines_def valueLines_def textOf_def maxSessionFileSize_def del: hasSpace.simps)
  have ls: "entryLines commentEntry = [''http://h/f'', ''  #a=1'']"
    by (simp add: entryLines_def commentEntry_def valueLines_def)
  have tr: "TrimSpace ''  #a=1'' = ''#a=1''" using option_trim[of "''#a''" "''1''"] commentEntry_strings by simp
  have f: "Fields ''http://h/f'' = [''http://h/f'']" using Fields_Join[of "[''http://h/f'']"] commentEntry_strings by simp
  show "parseSession (textOf (entryLines commentEntry)) = Inr [\<lparr>siLine = 1, siUris = [''http://h/f''], siOptions = []\<rparr>]"
    unfolding parseSession_def ls
    by (simp add: scanLines_textOf parseLine_def sessionMaxLineSize_def maxSupportedTorrentSize_def sessionTorrentDataURIPrefix_def
      dropCR_def Let_def maxSessionFileSize_def tr f commentEntry_strings HasPrefix_def isSessionOptionLine_def uriLine_def flushItem_def
      maxSessionURIsPerDownload_def maxSessionDownloads_def)
qed


section \<open>The codec of the finalized files\<close>

lemma parseFinalizedItems_ok:
  "(\<forall>n \<in> set ns. 1 \<le> n \<and> n \<le> MaxInt64) \<Longrightarrow> distinct (acc @ ns) \<Longrightarrow> parseFinalizedItems acc (map Itoa ns) = Inr (acc @ ns)"
proof (induction ns arbitrary: acc)
  case (Cons n ns)
  have "Atoi (Itoa n) = Some n" using Cons.prems(1) by (intro Atoi_Itoa) (simp add: isInt64_def)
  then show ?case using Cons by simp
qed simp

lemma comma_Itoa: "1 \<le> n \<Longrightarrow> CHR '','' \<notin> set (Itoa n)"
  using Itoa_nonneg_digits[of n "CHR '',''"] by (auto simp: isDigit_def)

lemma encodeFinalized_plain:
  assumes "\<forall>n \<in> set ns. 1 \<le> n" shows "list_all plainByte (Join (map Itoa ns) '','')"
  unfolding list_all_iff
proof
  fix c assume "c \<in> set (Join (map Itoa ns) '','')"
  then have "(\<exists>n \<in> set ns. c \<in> set (Itoa n)) \<or> c = CHR '',''" using Join_set by fastforce
  then show "plainByte c" using Itoa_plain by (auto simp: list_all_iff) (simp add: plainByte_def asciiSpace_def)
qed

lemma finalized_roundtrip:
  assumes "ns \<noteq> []" "distinct ns" "\<forall>n \<in> set ns. 1 \<le> n \<and> n \<le> MaxInt64"
    and "map_of opts sessionTorrentFinalizedOption = Some (VStr (encodeSessionTorrentFinalizedIndexes ns))"
  shows "parseSessionTorrentFinalizedIndexes opts = Inr (sort ns, True)"
proof -
  let ?raw = "Join (map Itoa (sort ns)) '',''"
  have os: "optionString opts sessionTorrentFinalizedOption = ?raw"
    using assms(4) by (simp add: optionString_def optionValue_explicit encodeSessionTorrentFinalizedIndexes_def)
  have tr: "TrimSpace ?raw = ?raw" using assms(3) by (intro TrimSpace_plain encodeFinalized_plain) auto
  have ne: "sort ns \<noteq> []" using assms(1) by (metis length_sort length_0_conv)
  have sp: "Split ?raw (CHR '','') = map Itoa (sort ns)" using ne assms(3) comma_Itoa by (intro Split_Join) auto
  have "?raw \<noteq> ''''" using ne by (cases "sort ns"; cases "tl (sort ns)") auto
  moreover have "parseFinalizedItems [] (map Itoa (sort ns)) = Inr (sort ns)"
    using assms(2,3) parseFinalizedItems_ok[of "sort ns" "[]"] by simp
  ultimately show ?thesis
    using assms(4) by (simp add: parseSessionTorrentFinalizedIndexes_def optionExplicit_def os tr sp Let_def)
qed

section \<open>The order of the snapshot\<close>

lemma indexOf_nth: "indexOf g xs = Some k \<Longrightarrow> k < length xs \<and> xs ! k = g"
  using indexOf_Some by blast

lemma indexOf_at: "distinct xs \<Longrightarrow> k < length xs \<Longrightarrow> indexOf (xs ! k) xs = Some k"
proof (cases "indexOf (xs ! k) xs")
  case None
  assume "k < length xs"
  then show ?thesis using None by (auto simp: indexOf_def find_None_iff)
next
  case (Some j)
  assume "distinct xs" "k < length xs"
  then show ?thesis using indexOf_nth[OF Some] Some nth_eq_iff_index_eq[of xs j k] by metis
qed

text \<open>The session file keeps the order of the queue: among the written downloads the waiting ones
  stand in the order of the waiting queue, each of them once, in every reachable engine.\<close>

theorem sessionSnapshot_order:
  assumes "reachable env st e"
  shows "map sdGid (filter (\<lambda>d. sdGid d \<in> set (eWaiting e)) (sessionSnapshot sl e)) = eWaiting e"
proof -
  have inv: "dlInv e" "waitInv e" using reachable_inv[OF assms] by (auto simp: engineInv_def coreInv_def)
  define w where "w = eWaiting e"
  define f where "f d = (sdOrder d, sdCreatedAt d, sdGid d)" for d :: sessionDownload
  define live where "live = filter (\<lambda>(gid, i). dStatus (obj e i) \<noteq> StatusComplete \<and> dStatus (obj e i) \<noteq> StatusRemoved) (eDownloads e)"
  define zs where "zs = filter (\<lambda>d. sdGid d \<in> set w) (sort_key f (map (sessionEntry sl e) live))"
  have dw: "distinct w" using inv(2) by (simp add: waitInv_def w_def)
  have key: "(g, i) \<in> set live \<Longrightarrow> dGid (obj e i) = g" for g i
    using inv(1) by (auto simp: live_def dlInv_def)
  have entry: "sdGid (sessionEntry sl e (g, i)) = g \<and>
      (g \<in> set w \<longrightarrow> indexOf g w = Some (sdOrder (sessionEntry sl e (g, i))))" if "(g, i) \<in> set live" for g i
    using key[OF that] by (auto simp: sessionEntry_def w_def indexOf_def Let_def)
  have zentry: "indexOf (sdGid z) w = Some (sdOrder z)" if "z \<in> set zs" for z
    using that entry by (auto simp: zs_def)
  have sorted: "sorted (map sdOrder zs)"
  proof -
    have "sorted (map f (sort_key f (map (sessionEntry sl e) live)))" by simp
    then have "sorted (map f zs)" unfolding zs_def by (rule sorted_filter)
    then have "sorted_wrt (\<lambda>a b. f a \<le> f b) zs" by (simp add: sorted_map)
    then have "sorted_wrt (\<lambda>a b. sdOrder a \<le> sdOrder b) zs"
      by (rule sorted_wrt_mono_rel[rotated]) (auto simp: f_def less_eq_prod_def)
    then show ?thesis by (simp add: sorted_map)
  qed
  have dist: "distinct (map sdOrder zs)"
  proof -
    have "distinct (map fst live)" using inv(1) unfolding live_def dlInv_def by (simp add: distinct_map_filter)
    moreover have "map sdGid (map (sessionEntry sl e) live) = map fst live" using entry by (auto simp: case_prod_beta)
    ultimately have "distinct (map sdGid (map (sessionEntry sl e) live))" by metis
    then have "distinct (map sdGid (sort_key f (map (sessionEntry sl e) live)))"
      by (simp only: distinct_map distinct_sort set_sort)
    then have "distinct (map sdGid zs)" unfolding zs_def by (rule distinct_map_filter)
    moreover have "sdGid z = w ! sdOrder z" if "z \<in> set zs" for z using indexOf_nth[OF zentry[OF that]] by simp
    ultimately show ?thesis unfolding distinct_map inj_on_def by metis
  qed
  have "set (map sdOrder zs) = {0..<length w}"
  proof
    show "set (map sdOrder zs) \<subseteq> {0..<length w}" using zentry indexOf_nth by fastforce
    show "{0..<length w} \<subseteq> set (map sdOrder zs)"
    proof
      fix k assume "k \<in> {0..<length w}"
      then have k: "k < length w" by simp
      then have "stat e (w ! k) = Some StatusWaiting" using inv(2) by (simp add: waitInv_def w_def)
      then obtain i where "map_of (eDownloads e) (w ! k) = Some i" "dStatus (obj e i) = StatusWaiting" by (auto simp: stat_def)
      then have i: "(w ! k, i) \<in> set live" using map_of_SomeD by (fastforce simp: live_def)
      then have "sessionEntry sl e (w ! k, i) \<in> set zs" using entry k by (auto simp: zs_def)
      moreover have "sdOrder (sessionEntry sl e (w ! k, i)) = k" using entry[OF i] indexOf_at[OF dw k] k by simp
      ultimately show "k \<in> set (map sdOrder zs)" by (metis image_eqI list.set_map)
    qed
  qed
  then have ord: "map sdOrder zs = [0..<length w]"
    using sorted dist by (intro sorted_distinct_set_unique) simp_all
  have "map sdGid zs = map (\<lambda>z. w ! sdOrder z) zs" using zentry indexOf_nth by force
  also have "\<dots> = map ((!) w) (map sdOrder zs)" by simp
  also have "\<dots> = w" unfolding ord by (rule map_nth)
  finally show ?thesis unfolding zs_def w_def sessionSnapshot_def f_def live_def .
qed


text \<open>A concrete library for examples: one key per line, data unencoded.\<close>

definition exampleSessionLib :: sessionLib where
  "exampleSessionLib = \<lparr>slEncodeKeys = (\<lambda>ks. Join ks '',''), slDecodeKeys = (\<lambda>s. Inr (Split s (CHR '',''))), slB64 = (\<lambda>s. s)\<rparr>"

theorem sessionSnapshot_order_witness:
  "map sdGid (filter (\<lambda>d. sdGid d \<in> {gidA}) (sessionSnapshot exampleSessionLib addedEngine)) = [gidA]"
  using sessionSnapshot_order[OF addedEngine_reachable, of exampleSessionLib] by (simp add: addedEngine_facts)

section \<open>Options survive a restart\<close>

text \<open>The shape of a download's options: an overlay over a flat base, every value a string or a list
  of strings, as \<open>layerOptions\<close> and \<open>mergeOptions\<close> produce them.\<close>

definition simpleValue :: "optval \<Rightarrow> bool" where
  "simpleValue v = (case v of VStr _ \<Rightarrow> True | VStrs _ \<Rightarrow> True | _ \<Rightarrow> False)"

definition layered :: "options \<Rightarrow> options \<Rightarrow> bool" where
  "layered opts base \<longleftrightarrow> map_of opts optionBaseKey = Some (VOpts base) \<and> distinct (map fst opts) \<and> distinct (map fst base) \<and>
     map_of base optionBaseKey = None \<and> (\<forall>(k, v) \<in> set opts. k \<noteq> optionBaseKey \<longrightarrow> simpleValue v) \<and> (\<forall>(k, v) \<in> set base. simpleValue v)"

text \<open>The keys the session rewrites or leaves out.\<close>

definition ordinaryKey :: "string \<Rightarrow> bool" where
  "ordinaryKey k \<longleftrightarrow> \<not> internalKey k \<and> k \<noteq> ''gid'' \<and> k \<noteq> ''pause'' \<and> k \<noteq> ''save-session'' \<and> \<not> HasPrefix k ''#''"

lemma rpcValue_simple: "simpleValue v \<Longrightarrow> rpcValue v = v"
  by (auto simp: simpleValue_def rpcValue_def split: optval.splits)

lemma normalize_simple: "simpleValue v \<Longrightarrow> normalizeOptionValue v = v"
  by (auto simp: simpleValue_def split: optval.splits)

lemma optionsForRPC_layered:
  assumes "layered opts base" "\<not> internalKey k"
  shows "map_of (optionsForRPC opts) k = optionValue opts k"
proof -
  have b: "optionsForRPC base = writeRPC [] base" using assms(1) by (subst optionsForRPC.simps) (simp add: layered_def)
  have nb: "map_of opts optionBaseKey = Some (VOpts base)" "distinct (map fst opts)" "distinct (map fst base)"
    using assms(1) by (auto simp: layered_def)
  have r: "map_of (optionsForRPC opts) k = (case map_of opts k of Some v \<Rightarrow> Some (rpcValue v)
      | None \<Rightarrow> (case map_of base k of Some v \<Rightarrow> Some (rpcValue v) | None \<Rightarrow> None))"
    using assms(2) nb by (subst optionsForRPC.simps) (simp add: b map_of_writeRPC split: option.split)
  have s: "simpleValue v" if "map_of opts k = Some v \<or> map_of base k = Some v" for v
    using that assms not_internal_base[OF assms(2)] by (auto simp: layered_def dest!: map_of_SomeD)
  have nn: "simpleValue v \<Longrightarrow> v \<noteq> VNil" for v by (auto simp: simpleValue_def)
  have "optionValue base k = map_of base k"
    using s nn assms(1) by (subst optionValue.simps) (auto simp: layered_def split: option.splits)
  then have "optionValue opts k = (case map_of opts k of Some v \<Rightarrow> Some v | None \<Rightarrow> map_of base k)"
    using s nn nb(1) by (subst optionValue.simps) (auto split: option.splits)
  then show ?thesis unfolding r using s rpcValue_simple by (auto split: option.splits)
qed

lemma layered_simple:
  assumes "layered opts base" "\<not> internalKey k" "optionValue opts k = Some v"
  shows "simpleValue v"
proof -
  have nb: "map_of opts optionBaseKey = Some (VOpts base)" "map_of base optionBaseKey = None" using assms(1) by (auto simp: layered_def)
  have "map_of opts k = Some v \<or> map_of base k = Some v"
    using assms(3) nb optionValue.simps[of opts k] optionValue.simps[of base k] by (auto split: option.splits if_splits)
  then show ?thesis using assms(1) not_internal_base[OF assms(2)] by (auto simp: layered_def dest!: map_of_SomeD)
qed

lemma map_of_canonOptions:
  assumes "distinct (map fst opts)"
  shows "map_of (canonOptions opts) k = (case map_of opts k of None \<Rightarrow> None | Some v \<Rightarrow> map_of (canonOption k v) k)"
proof -
  define g where "g h = (case map_of opts h of None \<Rightarrow> [] | Some v \<Rightarrow> canonOption h v)" for h
  have other: "h \<noteq> k \<Longrightarrow> map_of (g h) k = None" for h
    by (auto simp: g_def canonOption_texts readOption_def listOption_def split: list.splits option.splits)
  have "map_of (concat (map g ks)) k = (if k \<in> set ks then map_of (g k) k else None)" for ks
  proof (induction ks)
    case (Cons a ks)
    then show ?case using other[of a] by (cases "a = k") (auto simp: map_add_def split: option.splits)
  qed simp
  then have "map_of (canonOptions opts) k = (if k \<in> set (map fst opts) then map_of (g k) k else None)"
    unfolding canonOptions_def g_def by simp
  moreover have "k \<in> set (map fst opts) \<longleftrightarrow> map_of opts k \<noteq> None" by (simp add: map_of_eq_None_iff)
  ultimately show ?thesis by (cases "map_of opts k") (simp_all add: g_def)
qed

lemma listOption_keys: "fst ` set (listOption k xs) \<subseteq> {k}" "distinct (map fst (listOption k xs))"
  by (cases xs; cases "tl xs"; simp add: listOption_def)+

lemma readOption_keys: "fst ` set (readOption k xs) \<subseteq> {k}" "distinct (map fst (readOption k xs))"
  using listOption_keys by (auto simp: readOption_def)

lemma canonOptions_distinct: "distinct (map fst opts) \<Longrightarrow> distinct (map fst (canonOptions opts))"
proof -
  assume "distinct (map fst opts)"
  then have d: "distinct (sort (map fst opts))" by simp
  define g where "g h = (case map_of opts h of None \<Rightarrow> [] | Some v \<Rightarrow> canonOption h v)" for h
  have g: "fst ` set (g h) \<subseteq> {h}" "distinct (map fst (g h))" for h
    using readOption_keys by (auto simp: g_def canonOption_texts split: option.splits)
  have keys: "fst ` set (concat (map g ks)) \<subseteq> set ks" for ks using g(1) by fastforce
  have "distinct ks \<Longrightarrow> distinct (map fst (concat (map g ks)))" for ks
  proof (induction ks)
    case (Cons h ks)
    then show ?case using g[of h] keys[of ks] by (simp add: disjoint_iff) blast
  qed simp
  from this[OF d] show ?thesis unfolding canonOptions_def g_def .
qed


lemma map_of_norm_filter:
  "map_of (map (\<lambda>(k, v). (k, f v)) (filter (\<lambda>(k, _). P k) xs)) k = (if P k then map_option f (map_of xs k) else None)"
  by (induction xs) auto

lemma distinct_norm_filter: "distinct (map fst xs) \<Longrightarrow> distinct (map fst (map (\<lambda>(k, v). (k, f v)) (filter (\<lambda>(k, _). P k) xs)))"
proof -
  have "map fst (map (\<lambda>(k, v). (k, f v)) ys) = map fst ys" for ys :: "('a \<times> 'b) list" by (induction ys) auto
  then show "distinct (map fst xs) \<Longrightarrow> ?thesis" by (simp only: distinct_map_filter)
qed

lemma restore_lookup:
  assumes "distinct (map fst eff)" "map_of eff optionBaseKey = None" "\<not> internalKey k"
  shows "optionValue (restoreSessionOptionLayers eff ex) k = map_option normalizeOptionValue (map_of eff k)"
proof -
  define P where "P key \<longleftrightarrow> key = ''gid'' \<or> key = ''pause'' \<or> key \<in> set ex" for key
  define nf where "nf Q = map (\<lambda>(key, val). (key, normalizeOptionValue val)) (filter (\<lambda>(key, _). Q key) eff)" for Q
  have nf: "map_of (nf Q) h = (if Q h then map_option normalizeOptionValue (map_of eff h) else None)" "distinct (map fst (nf Q))" for Q h
    unfolding nf_def by (rule map_of_norm_filter) (rule distinct_norm_filter[OF assms(1)])
  have r: "restoreSessionOptionLayers eff ex = layerOptions (nf (\<lambda>key. \<not> P key)) (nf P)"
    unfolding restoreSessionOptionLayers_def Let_def nf_def P_def by (rule refl)
  show ?thesis
  proof (cases "map_of (nf P) k")
    case (Some v)
    then show ?thesis using layer.read_written[OF nf(2) Some assms(3)] nf(1)[of P k]
      by (auto simp: r normalizeOptionValue_idem split: if_splits)
  next
    case None
    have "optionValue (nf (\<lambda>key. \<not> P key)) k = map_of (nf (\<lambda>key. \<not> P key)) k"
      using nf(1)[of "\<lambda>key. \<not> P key"] assms(2) by (subst optionValue.simps) (auto split: option.splits)
    then show ?thesis using layer.read_unwritten[OF None assms(3)] None nf(1) by (simp add: r) (auto split: if_splits)
  qed
qed

lemma restore_explicit:
  assumes "\<not> internalKey k" "k \<noteq> ''gid''" "k \<noteq> ''pause''"
  shows "optionExplicit (restoreSessionOptionLayers eff ex) k \<longleftrightarrow> k \<in> set ex \<and> map_of eff k \<noteq> None"
proof -
  have "map_of (layerOptions base ov) k \<noteq> None \<longleftrightarrow> map_of ov k \<noteq> None" for base ov
  proof -
    have "map_of (overlayOptions out ov) k \<noteq> None \<longleftrightarrow> map_of ov k \<noteq> None \<or> map_of out k \<noteq> None" for out
      using assms(1) by (induction out ov rule: overlayOptions.induct) (auto simp: update_conv')
    then show ?thesis using not_internal_base[OF assms(1)] by (simp add: layerOptions_def)
  qed
  then show ?thesis
    using assms unfolding optionExplicit_def restoreSessionOptionLayers_def Let_def by (simp only: map_of_norm_filter) simp
qed

lemma validateExplicitKeys_set: "validateExplicitKeys acc keys = Inr ex \<Longrightarrow> set ex = set acc \<union> set keys"
  by (induction acc keys rule: validateExplicitKeys.induct) (auto split: if_splits)

lemma writeRPC_distinct: "distinct (map fst out) \<Longrightarrow> distinct (map fst (writeRPC out ov))"
  by (induction out ov rule: writeRPC.induct) (auto simp: distinct_update)

lemma optionsForRPC_distinct: "distinct (map fst (optionsForRPC opts))"
proof (induction opts rule: optionsForRPC.induct)
  case (1 opts)
  then show ?case by (subst optionsForRPC.simps) (auto intro!: writeRPC_distinct split: option.splits optval.splits)
qed

lemma writeRPC_internal: "internalKey k \<Longrightarrow> map_of (writeRPC out ov) k = map_of out k"
  by (induction out ov rule: writeRPC.induct) (auto simp: update_conv')

lemma optionsForRPC_internal: "internalKey k \<Longrightarrow> map_of (optionsForRPC opts) k = None"
proof (induction opts rule: optionsForRPC.induct)
  case (1 opts)
  then show ?case by (subst optionsForRPC.simps) (auto simp: writeRPC_internal split: option.splits optval.splits)
qed

lemma internal_keys:
  "internalKey sessionExplicitOptionsOption" "internalKey sessionTorrentFinalizedOption"
  "\<not> internalKey ''gid''" "\<not> internalKey ''pause''" "\<not> internalKey ''save-session''"
  "sessionExplicitOptionsOption \<noteq> sessionTorrentFinalizedOption" "optionBaseKey \<noteq> sessionExplicitOptionsOption"
  "optionBaseKey \<noteq> sessionTorrentFinalizedOption"
  "\<not> HasPrefix sessionExplicitOptionsOption ''#''" "\<not> HasPrefix sessionTorrentFinalizedOption ''#''"
  by (simp_all add: HasPrefix_def internalKey_def optionBaseKey_def sessionExplicitOptionsOption_def sessionTorrentFinalizedOption_def)

lemma sessionOptions_distinct: "distinct (map fst (sessionOptions sl d))"
  unfolding sessionOptions_def Let_def by (auto simp: distinct_update distinct_delete optionsForRPC_distinct)

lemma sessionOptions_lookup:
  "ordinaryKey k \<Longrightarrow> map_of (sessionOptions sl d) k = map_of (optionsForRPC (dOptions d)) k"
  "map_of (sessionOptions sl d) ''gid'' = Some (VStr (dGid d))"
  "map_of (sessionOptions sl d) optionBaseKey = None"
  "map_of (sessionOptions sl d) sessionExplicitOptionsOption = Some (VStr (encodeSessionExplicitOptions sl (dOptions d)))"
  "map_of (sessionOptions sl d) sessionTorrentFinalizedOption =
    (if dKind d = downloadKindTorrent \<and> dTorrentFinalized d \<noteq> []
     then Some (VStr (encodeSessionTorrentFinalizedIndexes (dTorrentFinalized d))) else None)"
proof -
  have n: "internalKey k \<Longrightarrow> k \<noteq> ''gid'' \<and> k \<noteq> ''pause'' \<and> k \<noteq> ''save-session''" for k using internal_keys by auto
  note rules = sessionOptions_def Let_def update_conv' delete_conv' optionsForRPC_internal
  show "ordinaryKey k \<Longrightarrow> map_of (sessionOptions sl d) k = map_of (optionsForRPC (dOptions d)) k"
    using internal_keys by (auto simp: rules ordinaryKey_def)
  show "map_of (sessionOptions sl d) ''gid'' = Some (VStr (dGid d))" by (simp add: rules)
  show "map_of (sessionOptions sl d) optionBaseKey = None"
    using internal_keys n[of optionBaseKey] by (simp add: rules)
  show "map_of (sessionOptions sl d) sessionExplicitOptionsOption = Some (VStr (encodeSessionExplicitOptions sl (dOptions d)))"
    using internal_keys n[of sessionExplicitOptionsOption] by (simp add: rules)
  show "map_of (sessionOptions sl d) sessionTorrentFinalizedOption =
    (if dKind d = downloadKindTorrent \<and> dTorrentFinalized d \<noteq> []
     then Some (VStr (encodeSessionTorrentFinalizedIndexes (dTorrentFinalized d))) else None)"
    using internal_keys n[of sessionTorrentFinalizedOption] by (simp add: rules)
qed


lemma canonOption_present: "simpleValue v \<Longrightarrow> \<not> HasPrefix k ''#'' \<Longrightarrow> v \<noteq> VStrs [] \<Longrightarrow> map_of (canonOption k v) k \<noteq> None"
proof (cases v)
  case (VStrs xs)
  assume "v \<noteq> VStrs []" "\<not> HasPrefix k ''#''"
  then show ?thesis using VStrs by (cases xs; cases "tl xs") (auto simp: canonOption_def)
qed (auto simp: simpleValue_def canonOption_def)

lemma canonOption_string: "\<not> HasPrefix k ''#'' \<Longrightarrow> canonOption k (VStr s) = [(k, VStr s)]"
  by (simp add: canonOption_def)



text \<open>What is read back from the options the session wrote: the explicit keys, the finalized files, and the layer from which the options
  are restored.\<close>

lemma session_layers:
  assumes "layered (dOptions d) base" "slDecodeKeys sl (slEncodeKeys sl (explicitKeys (dOptions d))) = Inr (explicitKeys (dOptions d))"
    "loadItemOptions sl global (canonOptions (sessionOptions sl d)) = Inr (fin, merged)"
  obtains o2 explicit where "set explicit = set (explicitKeys (dOptions d))" "merged = restoreSessionOptionLayers o2 explicit"
    "parseSessionTorrentFinalizedIndexes (canonOptions (sessionOptions sl d)) = Inr fin"
    "distinct (map fst o2)" "map_of o2 optionBaseKey = None"
    "\<And>k. ordinaryKey k \<Longrightarrow> map_of o2 k = (case optionValue (dOptions d) k of None \<Rightarrow> None | Some v \<Rightarrow> map_of (canonOption k v) k)"
    "map_of o2 ''gid'' = Some (VStr (dGid d))"
proof -
  define it where "it = canonOptions (sessionOptions sl d)"
  have look: "map_of it k = (case map_of (sessionOptions sl d) k of None \<Rightarrow> None | Some v \<Rightarrow> map_of (canonOption k v) k)" for k
    unfolding it_def by (rule map_of_canonOptions[OF sessionOptions_distinct])
  have dist: "distinct (map fst it)" unfolding it_def by (rule canonOptions_distinct[OF sessionOptions_distinct])
  define o1 where "o1 = AList.delete sessionTorrentFinalizedOption it"
  define o2 where "o2 = AList.delete sessionExplicitOptionsOption o1"
  have ex: "map_of o1 sessionExplicitOptionsOption = Some (VStr (encodeSessionExplicitOptions sl (dOptions d)))"
    using internal_keys by (simp add: o1_def delete_conv' look sessionOptions_lookup canonOption_string internal_keys)
  obtain explicit where p: "set explicit = set (explicitKeys (dOptions d))"
    and m: "merged = restoreSessionOptionLayers o2 explicit" and fin: "parseSessionTorrentFinalizedIndexes it = Inr fin"
    using assms(2,3) ex unfolding loadItemOptions_def it_def[symmetric] o1_def[symmetric] o2_def[symmetric] Let_def
    by (auto simp: bindR_eq_Inr parseSessionExplicitOptions_def optionExplicit_def optionString_def optionValue_explicit
        encodeSessionExplicitOptions_def split: sum.splits if_splits prod.splits dest: validateExplicitKeys_set)
  have "map_of o2 k = (case optionValue (dOptions d) k of None \<Rightarrow> None | Some v \<Rightarrow> map_of (canonOption k v) k)" if k: "ordinaryKey k" for k
    using k internal_keys sessionOptions_lookup(1)[OF k] optionsForRPC_layered[OF assms(1), of k]
    by (auto simp: ordinaryKey_def o1_def o2_def delete_conv' look)
  moreover have "map_of o2 ''gid'' = Some (VStr (dGid d))"
  proof -
    have "sessionExplicitOptionsOption \<noteq> ''gid''" "sessionTorrentFinalizedOption \<noteq> ''gid''" "\<not> HasPrefix ''gid'' ''#''"
      using internal_keys by (auto simp: HasPrefix_def)
    then show ?thesis by (simp add: o1_def o2_def delete_conv' look sessionOptions_lookup canonOption_string)
  qed
  moreover have "distinct (map fst o2)" "map_of o2 optionBaseKey = None"
    using dist internal_keys by (simp_all add: o1_def o2_def distinct_delete delete_conv' look sessionOptions_lookup)
  ultimately show ?thesis using that p m fin unfolding it_def by blast
qed

lemma restored_string:
  assumes "layered (dOptions d) base" "ordinaryKey k" "distinct (map fst o2)" "map_of o2 optionBaseKey = None"
    "map_of o2 k = (case optionValue (dOptions d) k of None \<Rightarrow> None | Some v \<Rightarrow> map_of (canonOption k v) k)"
  shows "optionString (restoreSessionOptionLayers o2 explicit) k = optionString (dOptions d) k"
proof -
  have ni: "\<not> internalKey k" using assms(2) by (simp add: ordinaryKey_def)
  have v: "optionValue (restoreSessionOptionLayers o2 explicit) k = map_option normalizeOptionValue (map_of o2 k)"
    using assms(3,4) ni by (rule restore_lookup)
  show ?thesis
  proof (cases "optionValue (dOptions d) k")
    case None
    then show ?thesis by (simp add: optionString_def v assms(5))
  next
    case (Some w)
    have "simpleValue w" using layered_simple[OF assms(1) ni Some] .
    then show ?thesis
      using Some by (cases w) (auto simp: optionString_def v assms(5) simpleValue_def canonOption_def assms(2)[unfolded ordinaryKey_def] split: list.splits)
  qed
qed

lemma restored_explicit:
  assumes "layered (dOptions d) base" "ordinaryKey k" "optionValue (dOptions d) k \<noteq> Some (VStrs [])" "set explicit = set (explicitKeys (dOptions d))"
    "map_of o2 k = (case optionValue (dOptions d) k of None \<Rightarrow> None | Some v \<Rightarrow> map_of (canonOption k v) k)"
  shows "optionExplicit (restoreSessionOptionLayers o2 explicit) k = optionExplicit (dOptions d) k"
proof -
  have ni: "\<not> internalKey k" "k \<noteq> ''gid''" "k \<noteq> ''pause''" using assms(2) by (simp_all add: ordinaryKey_def)
  have "optionExplicit (restoreSessionOptionLayers o2 explicit) k \<longleftrightarrow> k \<in> set explicit \<and> map_of o2 k \<noteq> None" using ni by (rule restore_explicit)
  moreover have "k \<in> set explicit \<longleftrightarrow> optionExplicit (dOptions d) k"
    using ni unfolding assms(4) by (auto simp: explicitKeys_def optionExplicit_def map_of_eq_None_iff)
  moreover have "map_of o2 k \<noteq> None" if ex: "optionExplicit (dOptions d) k"
  proof -
    obtain v where v: "map_of (dOptions d) k = Some v" using ex by (auto simp: optionExplicit_def)
    then have "simpleValue v" using assms(1) not_internal_base[OF ni(1)] by (auto simp: layered_def dest!: map_of_SomeD)
    moreover from this have "optionValue (dOptions d) k = Some v" using v by (auto simp: optionValue_explicit simpleValue_def)
    ultimately show ?thesis using assms(2,3,5) canonOption_present[of v k] by (auto simp: ordinaryKey_def)
  qed
  ultimately show ?thesis by blast
qed

lemma restored_gid:
  assumes "distinct (map fst o2)" "map_of o2 optionBaseKey = None" "map_of o2 ''gid'' = Some (VStr g)"
  shows "optionString (restoreSessionOptionLayers o2 explicit) ''gid'' = g"
  using restore_lookup[OF assms(1,2), of "''gid''"] internal_keys assms(3) by (simp add: optionString_def)

lemma restored_finalized:
  assumes "dKind d = downloadKindTorrent" "distinct (dTorrentFinalized d)" "\<forall>n \<in> set (dTorrentFinalized d). 1 \<le> n \<and> n \<le> MaxInt64"
    "parseSessionTorrentFinalizedIndexes (canonOptions (sessionOptions sl d)) = Inr fin"
  shows "set (if snd fin then fst fin else []) = set (dTorrentFinalized d)"
proof -
  note look = map_of_canonOptions[OF sessionOptions_distinct, of sl d sessionTorrentFinalizedOption]
  show ?thesis
  proof (cases "dTorrentFinalized d = []")
    case True
    then have "map_of (canonOptions (sessionOptions sl d)) sessionTorrentFinalizedOption = None" by (simp add: look sessionOptions_lookup)
    then show ?thesis using assms(4) True by (auto simp: parseSessionTorrentFinalizedIndexes_def optionExplicit_def)
  next
    case False
    then have "map_of (canonOptions (sessionOptions sl d)) sessionTorrentFinalizedOption =
        Some (VStr (encodeSessionTorrentFinalizedIndexes (dTorrentFinalized d)))"
      using assms(1) by (simp add: look sessionOptions_lookup canonOption_string internal_keys)
    from finalized_roundtrip[OF False assms(2,3) this] assms(4) show ?thesis by auto
  qed
qed

text \<open>What loading one item of a session file adds to the engine, and that the items loaded after it leave it alone.\<close>

definition startsAs :: "options \<Rightarrow> string \<Rightarrow> Download \<Rightarrow> bool" where
  "startsAs merged g d \<longleftrightarrow> dOptions d = merged \<and> dGid d = g \<and> dTorrentFinalized d = []"

lemma newDownloads_start:
  "startsAs merged g (newDownload now g uris merged)"
  "newTorrentDownload lib rkey now g dat mg uris merged mi info = Inr d \<Longrightarrow> startsAs merged g d"
  "newMagnetDownload lib ei rkey now g raw uris merged = Inr d \<Longrightarrow> startsAs merged g d"
proof -
  show t: "newTorrentDownload lib rkey now g dat mg uris merged mi info = Inr d \<Longrightarrow> startsAs merged g d" for dat mg mi info d
    by (auto simp: startsAs_def newTorrentDownload_def zeroDownload_def bindR_eq_Inr Let_def split: sum.splits)
  show "newMagnetDownload lib ei rkey now g raw uris merged = Inr d \<Longrightarrow> startsAs merged g d"
    by (auto simp: newMagnetDownload_def bindR_eq_Inr startsAs_def dest!: t)
qed (simp add: startsAs_def newDownload_def zeroDownload_def)

lemma loadItemDownload_options: "loadItemDownload env now g uris merged = Inr d \<Longrightarrow> startsAs merged g d"
  by (auto simp: loadItemDownload_def bindR_eq_Inr newDownloads_start(1) split: option.splits if_splits prod.splits
      dest: newDownloads_start(2,3))

lemma loadItem_adds:
  assumes "loadItem env sl r item e = Inr e'" "siUris item \<noteq> []"
  obtains fin merged d where "loadItemOptions sl (eGlobal e) (siOptions item) = Inr (fin, merged)"
    "map_of (eDownloads e) (dGid d) = None" "dGid d = (if optionString merged ''gid'' = '''' then r else optionString merged ''gid'')"
    "eHeap e' = eHeap e @ [d]" "eDownloads e' = AList.update (dGid d) (length (eHeap e)) (eDownloads e)" "eGlobal e' = eGlobal e"
    "dOptions d = merged" "dTorrentFinalized d = (if snd fin then fst fin else [])"
proof -
  obtain fin hasFin merged where m: "loadItemOptions sl (eGlobal e) (siOptions item) = Inr ((fin, hasFin), merged)"
    using assms by (auto simp: loadItem_def bindR_eq_Inr)
  define g where "g = (if optionString merged ''gid'' = '''' then r else optionString merged ''gid'')"
  obtain d0 d1 where d0: "loadItemDownload env (eClock e) g (siUris item) merged = Inr d0" and nw: "map_of (eDownloads e) g = None"
    and d1: "d1 = d0 \<and> \<not> hasFin \<or> hasFin \<and> restoreTorrentFinalized fin d0 = Inr d1"
    and e': "\<exists>e1 st. eHeap e1 = eHeap e \<and> eDownloads e1 = eDownloads e \<and> eGlobal e1 = eGlobal e \<and>
      e' = e1\<lparr>eHeap := eHeap e1 @ [d1\<lparr>dStatus := st\<rparr>], eDownloads := AList.update g (length (eHeap e1)) (eDownloads e1)\<rparr>"
  proof -
    obtain d0 d1 where x: "loadItemDownload env (eClock e) g (siUris item) merged = Inr d0" "map_of (eDownloads e) g = None"
      "d1 = d0 \<and> \<not> hasFin \<or> hasFin \<and> restoreTorrentFinalized fin d0 = Inr d1"
      and y: "e' = (let paused = optionBool merged ''pause''; d = (if paused then d1\<lparr>dStatus := StatusPaused\<rparr> else d1);
                      e1 = (if paused then e else insertWaitingLocked g None e) in
                  e1\<lparr>eHeap := eHeap e1 @ [d], eDownloads := AList.update g (length (eHeap e1)) (eDownloads e1)\<rparr>)"
      using assms m unfolding g_def by (auto simp: loadItem_def bindR_eq_Inr Let_def split: if_splits)
    have "d1 = d1\<lparr>dStatus := dStatus d1\<rparr>" by simp
    then have "\<exists>e1 st. eHeap e1 = eHeap e \<and> eDownloads e1 = eDownloads e \<and> eGlobal e1 = eGlobal e \<and>
      e' = e1\<lparr>eHeap := eHeap e1 @ [d1\<lparr>dStatus := st\<rparr>], eDownloads := AList.update g (length (eHeap e1)) (eDownloads e1)\<rparr>"
      unfolding y Let_def insertWaitingLocked_def
      by (cases "optionBool merged ''pause''") (force, intro exI[of _ "e\<lparr>eWaiting := eWaiting e @ [g]\<rparr>"] exI[of _ "dStatus d1"], simp)
    with x that show thesis by blast
  qed
  then obtain st where st: "eHeap e' = eHeap e @ [d1\<lparr>dStatus := st\<rparr>]" "eDownloads e' = AList.update g (length (eHeap e)) (eDownloads e)"
    "eGlobal e' = eGlobal e" by auto
  have d: "dOptions d1 = merged \<and> dGid d1 = g \<and> dTorrentFinalized d1 = (if hasFin then fin else [])"
    using d1 loadItemDownload_options[OF d0] by (auto simp: startsAs_def restoreTorrentFinalized_def bindR_eq_Inr split: prod.splits)
  show thesis by (rule that[of "(fin, hasFin)" merged "d1\<lparr>dStatus := st\<rparr>"]) (use m nw st d in \<open>simp_all add: g_def\<close>)
qed

lemma loadItems_keep:
  "loadItems env sl path rnd items e = Inr e' \<Longrightarrow> map_of (eDownloads e) g = Some j \<Longrightarrow> j < length (eHeap e) \<Longrightarrow>
     map_of (eDownloads e') g = Some j \<and> obj e' j = obj e j"
proof (induction env sl path rnd items e rule: loadItems.induct)
  case (2 env sl path rnd item items e)
  obtain e1 where e1: "loadItem env sl (rnd (siLine item)) item e = Inr e1" "loadItems env sl path rnd items e1 = Inr e'"
    using 2(2) by (auto split: sum.splits)
  have "map_of (eDownloads e1) g = Some j \<and> j < length (eHeap e1) \<and> obj e1 j = obj e j"
  proof (cases "siUris item = []")
    case True
    then show ?thesis using e1(1) 2(3,4) by (simp add: loadItem_def)
  next
    case False
    from loadItem_adds[OF e1(1) False] obtain d where "map_of (eDownloads e) (dGid d) = None" "eHeap e1 = eHeap e @ [d]"
      "eDownloads e1 = AList.update (dGid d) (length (eHeap e)) (eDownloads e)" by metis
    then show ?thesis using 2(3,4) by (auto simp: update_conv' obj_def nth_append)
  qed
  then show ?case using 2(1)[OF e1] by simp
qed simp

lemma loadItems_adds:
  "loadItems env sl path rnd items e = Inr e' \<Longrightarrow> item \<in> set items \<Longrightarrow> siUris item \<noteq> [] \<Longrightarrow>
     \<exists>fin merged j. loadItemOptions sl (eGlobal e) (siOptions item) = Inr (fin, merged) \<and>
       map_of (eDownloads e') (dGid (obj e' j)) = Some j \<and>
       dGid (obj e' j) = (if optionString merged ''gid'' = '''' then rnd (siLine item) else optionString merged ''gid'') \<and>
       dOptions (obj e' j) = merged \<and> dTorrentFinalized (obj e' j) = (if snd fin then fst fin else [])"
proof (induction env sl path rnd items e rule: loadItems.induct)
  case (2 env sl path rnd it items e)
  obtain e1 where e1: "loadItem env sl (rnd (siLine it)) it e = Inr e1" "loadItems env sl path rnd items e1 = Inr e'"
    using 2(2) by (auto split: sum.splits)
  show ?case
  proof (cases "it = item")
    case True
    obtain fin merged d where d: "loadItemOptions sl (eGlobal e) (siOptions item) = Inr (fin, merged)"
        "dGid d = (if optionString merged ''gid'' = '''' then rnd (siLine item) else optionString merged ''gid'')"
        "eHeap e1 = eHeap e @ [d]" "eDownloads e1 = AList.update (dGid d) (length (eHeap e)) (eDownloads e)"
        "dOptions d = merged" "dTorrentFinalized d = (if snd fin then fst fin else [])"
      using loadItem_adds[OF e1(1)] 2(4) unfolding True by blast
    have o: "obj e1 (length (eHeap e)) = d" "map_of (eDownloads e1) (dGid d) = Some (length (eHeap e))"
      using d(3,4) by (simp_all add: obj_def update_conv')
    have "map_of (eDownloads e') (dGid d) = Some (length (eHeap e)) \<and> obj e' (length (eHeap e)) = d"
      using loadItems_keep[OF e1(2) o(2)] o(1) d(3) by simp
    with d(1,2,5,6) show ?thesis by (intro exI[of _ fin] exI[of _ merged] exI[of _ "length (eHeap e)"]) simp
  next
    case False
    have "eGlobal e1 = eGlobal e"
    proof (cases "siUris it = []")
      case True
      then show ?thesis using e1(1) by (simp add: loadItem_def)
    qed (use loadItem_adds[OF e1(1)] in blast)
    moreover have "item \<in> set items" using 2(3) False by simp
    ultimately show ?thesis using 2(1)[OF e1 _ 2(4)] by simp
  qed
qed simp

lemma snapshot_entry:
  assumes "map_of (eDownloads e) g = Some i" "dStatus (obj e i) \<notin> {StatusComplete, StatusRemoved}"
  shows "sessionEntry sl e (g, i) \<in> set (sessionSnapshot sl e)"
  using map_of_SomeD[OF assms(1)] assms(2) by (force simp: sessionSnapshot_def)


text \<open>A torrent added by its magnet, with one option of its own, one inherited and two finalized files.\<close>

definition savedDownload :: Download where
  "savedDownload = zeroDownload\<lparr>dKind := downloadKindTorrent, dGid := gidA, dStatus := StatusPaused, dTorrentMagnet := ''magnet:x'',
     dOptions := [(''dir'', VStr ''/dl''), (optionBaseKey, VOpts [(''split'', VStr ''5'')])], dTorrentFinalized := [2, 1]\<rparr>"

definition savedEnv :: sysEnv where
  "savedEnv = exampleEnv\<lparr>seURLParse := (\<lambda>_. Some \<lparr>urlScheme = ''magnet'', urlHost = ''''\<rparr>), seRKey := absKey,
     seLib := exampleLib\<lparr>tlSpecFromMagnet := (\<lambda>_. Inr \<lparr>tsWebseeds = [], tsDisplayName = ''t'', tsInfoHash = '''', tsShortV2Hash = None\<rparr>)\<rparr>\<rparr>"

definition savedEngine :: Engine where
  "savedEngine = exampleEngine\<lparr>eHeap := [savedDownload], eDownloads := [(gidA, 0)]\<rparr>"

lemma savedDownload_layered: "layered (dOptions savedDownload) [(''split'', VStr ''5'')]"
  by (simp add: layered_def savedDownload_def zeroDownload_def optionBaseKey_def simpleValue_def)

lemma finalized_example: "encodeSessionTorrentFinalizedIndexes [2, 1] = ''1,2''"
  by code_simp

lemma savedDownload_options:
  "sessionOptions exampleSessionLib savedDownload =
    [(''split'', VStr ''5''), (''dir'', VStr ''/dl''), (sessionExplicitOptionsOption, VStr ''dir''),
     (sessionTorrentFinalizedOption, VStr ''1,2''), (''gid'', VStr gidA), (''pause'', VStr ''true'')]"
  by (simp add: sessionOptions_def savedDownload_def zeroDownload_def optionsForRPC.simps[of "(_, VStr _) # _"] optionBaseKey_def
      internalKey_def sessionExplicitOptionsOption_def sessionTorrentFinalizedOption_def rpcValue_def Let_def
      encodeSessionExplicitOptions_def explicitKeys_def exampleSessionLib_def finalized_example gidA_def)

lemma savedDownload_canon:
  "canonOptions (sessionOptions exampleSessionLib savedDownload) =
    [(''dir'', VStr ''/dl''), (''gid'', VStr gidA), (sessionExplicitOptionsOption, VStr ''dir''),
     (sessionTorrentFinalizedOption, VStr ''1,2''), (''pause'', VStr ''true''), (''split'', VStr ''5'')]"
  unfolding savedDownload_options
  by (simp add: canonOptions_def sessionExplicitOptionsOption_def sessionTorrentFinalizedOption_def canonOption_def HasPrefix_def)

lemma savedDownload_plain:
  "TrimSpace ''/dl'' = ''/dl''" "TrimSpace gidA = gidA" "TrimSpace ''true'' = ''true''" "TrimSpace ''5'' = ''5''"
  "\<not> hasSpace ''dir''" "\<not> hasSpace ''gid''" "\<not> hasSpace ''pause''" "\<not> hasSpace ''split''"
  by (rule plain_no_space[THEN conjunct2] plain_no_space[THEN conjunct1], simp add: plainByte_def asciiSpace_def gidA_def)+

lemma lower_true: "ToLower ''true'' = ''true''"
  by code_simp

definition savedMerged :: options where
  "savedMerged = [(optionBaseKey, VOpts [(''split'', VStr ''5'')]), (''dir'', VStr ''/dl''), (''gid'', VStr gidA), (''pause'', VStr ''true'')]"

lemma savedDownload_load:
  "loadItemOptions exampleSessionLib g (canonOptions (sessionOptions exampleSessionLib savedDownload)) = Inr (([1, 2], True), savedMerged)"
proof -
  let ?it = "canonOptions (sessionOptions exampleSessionLib savedDownload)"
  have "parseSessionTorrentFinalizedIndexes ?it = Inr (sort [2, 1], True)"
  proof (rule finalized_roundtrip)
    show "map_of ?it sessionTorrentFinalizedOption = Some (VStr (encodeSessionTorrentFinalizedIndexes [2, 1]))"
      unfolding savedDownload_canon
      by (simp add: finalized_example sessionExplicitOptionsOption_def sessionTorrentFinalizedOption_def)
  qed simp_all
  moreover have "parseSessionExplicitOptions exampleSessionLib (AList.delete sessionTorrentFinalizedOption ?it) = Inr ([''dir''], True)"
    unfolding savedDownload_canon
    by (simp add: parseSessionExplicitOptions_def optionExplicit_def sessionExplicitOptionsOption_def sessionTorrentFinalizedOption_def
      exampleSessionLib_def scanLines_def optionString_def optionValue.simps invalidOptionKey_def internalKey_def savedDownload_plain
      ContainsByte_def optionBaseKey_def maxDownloadOptionKeys_def del: hasSpace.simps)
  moreover have "validateOptionValuesWithLimit (AList.delete sessionExplicitOptionsOption (AList.delete sessionTorrentFinalizedOption ?it))
      maxSessionEffectiveOptions = Inr ()"
    unfolding savedDownload_canon
    by (simp add: validateOptionValuesWithLimit_def validateOptionCount_def validateOptionEntry_def invalidOptionKey_def internalKey_def
      optionBaseKey_def sessionTorrentFinalizedOption_def sessionExplicitOptionsOption_def ContainsByte_def ContainsAny_def
      optionString_def optionValue_explicit maxDownloadOptionValueSize_def maxDownloadOptionKeys_def maxDownloadOptionListItems_def
      validateTypedValue_def boolOptionKeys_def intOptionKeys_def sizeOptionKeys_def Atoi_def parseUint_def isDigit_def digitVal_def
      isInt64_def maxSessionEffectiveOptions_def savedDownload_plain(1,3-8) savedDownload_plain(2)[unfolded gidA_def] lower_true
      Let_def gidA_def del: hasSpace.simps ToLower.simps)
  moreover have "restoreSessionOptionLayers
      (AList.delete sessionExplicitOptionsOption (AList.delete sessionTorrentFinalizedOption ?it)) [''dir''] = savedMerged"
    unfolding savedDownload_canon savedMerged_def
    by (simp add: restoreSessionOptionLayers_def layerOptions_def
      sessionExplicitOptionsOption_def sessionTorrentFinalizedOption_def internalKey_def optionBaseKey_def)
  moreover have "validateRestoredOptionLayers savedMerged = Inr ()"
    by (simp add: validateRestoredOptionLayers_def validateOptionLayerSize_def savedMerged_def
      sessionExplicitOptionsOption_def sessionTorrentFinalizedOption_def internalKey_def optionBaseKey_def maxDownloadOptionKeys_def)
  ultimately show ?thesis by (simp add: loadItemOptions_def Let_def)
qed

lemma savedMerged_strings:
  "optionString savedMerged ''gid'' = gidA" "optionString savedMerged ''dir'' = ''/dl''" "optionString savedMerged ''split'' = ''5''"
  "splitCSVOptions savedMerged torrentSelectFileExtOption = []" "splitCSVOptions savedMerged torrentExcludeFileExtOption = []"
  by (simp_all add: savedMerged_def optionString_def optionValue.simps optionBaseKey_def splitCSVOptions_def optionStringList_def
      torrentSelectFileExtOption_def torrentExcludeFileExtOption_def)

lemma saved_files:
  "torrentFileStates absKey examplePlanner v1Example zeroHash [] ''/dl'' =
     Inr [\<lparr>tfIndex = 1, tfPath = ''/d/a'', tfLength = 3, tfCompleted = 0, tfSelected = True\<rparr>]"
  by code_simp

lemma saved_magnet:
  "EqualFold ''magnet'' ''magnet''" "validGID gidA" "\<not> HasPrefix ''magnet:x'' sessionTorrentDataURIPrefix"
  by (simp_all add: EqualFold_def sessionTorrentDataURIPrefix_def HasPrefix_def) code_simp

lemma saved_loads:
  assumes "map_of (eDownloads e) gidA = None" "siUris item = [''magnet:x'']"
    "siOptions item = canonOptions (sessionOptions exampleSessionLib savedDownload)"
  shows "\<exists>e1. loadItem savedEnv exampleSessionLib r item e = Inr e1"
proof -
  have gid: "gidA \<noteq> ''''" by (simp add: gidA_def)
  have "isMagnetURI savedEnv ''magnet:x''" by (simp add: isMagnetURI_def savedEnv_def saved_magnet)
  moreover have "validateTorrentExtensionOptions savedMerged = Inr ()"
    by (simp add: validateTorrentExtensionOptions_def parseTorrentExtensionFilters_def parseTorrentExtensionFilter_def savedMerged_strings)
  moreover have "\<exists>d. loadItemDownload savedEnv (eClock e) gidA [''magnet:x''] savedMerged = Inr d \<and> dKind d = downloadKindTorrent \<and>
      dTorrentMagnet d = ''magnet:x''"
    using \<open>isMagnetURI savedEnv ''magnet:x''\<close>
    by (simp add: loadItemDownload_def decodeSessionTorrentDataURI_def saved_magnet newMagnetDownload_def savedEnv_def exampleEnv_def exampleLib_def
        mergeTorrentWebSeedURLs_def newTorrentDownload_def v1Example_accepted saved_files savedMerged_strings canonicalTorrentMetaInfoHash_def
        uriInfos_def Let_def)
  ultimately show ?thesis
    using assms savedDownload_load
    by (auto simp: loadItem_def saved_magnet savedMerged_strings restoreTorrentFinalized_def gid Let_def split: prod.splits)
qed

lemma saved_snapshot:
  "sessionSnapshot exampleSessionLib savedEngine =
     [\<lparr>sdGid = gidA, sdUris = [''magnet:x''], sdOptions = sessionOptions exampleSessionLib savedDownload, sdCreatedAt = 0,
       sdOrder = length (eWaiting exampleEngine)\<rparr>]"
  by (simp add: sessionSnapshot_def savedEngine_def sessionEntry_def obj_def savedDownload_def zeroDownload_def sessionURIs_def Let_def
      exampleEngine_def NewEngine_def indexOf_def)

lemma saved_more_plain:
  "TrimSpace ''1,2'' = ''1,2''" "TrimSpace ''dir'' = ''dir''" "\<not> hasSpace ''magnet:x''" "\<not> hasSpace sessionExplicitOptionsOption"
  "\<not> hasSpace sessionTorrentFinalizedOption"
  by (rule plain_no_space[THEN conjunct2] plain_no_space[THEN conjunct1],
      simp add: plainByte_def asciiSpace_def sessionExplicitOptionsOption_def sessionTorrentFinalizedOption_def)+

lemma saved_text: "\<exists>text. sessionText savedEnv (sessionSnapshot exampleSessionLib savedEngine) = Inr text"
  unfolding saved_snapshot savedDownload_options
  by (simp add: sessionText_def validateSessionDownload_def Let_def validateSessionOptionValue_def saved_more_plain(1-3)
      saved_more_plain(4)[unfolded sessionExplicitOptionsOption_def] saved_more_plain(5)[unfolded sessionTorrentFinalizedOption_def]
      savedDownload_plain(1,3-8) savedDownload_plain(2)[unfolded gidA_def] HasPrefix_def maxDownloadURIs_def maxSessionOptionKeys_def maxDownloadOptionKeys_def
      maxSessionOptionValues_def maxDownloadOptionValueSize_def ContainsByte_def ContainsAny_def maxSessionDownloads_def
      sessionLines_def entryLines_def valueLines_def textOf_def maxSessionFileSize_def sessionExplicitOptionsOption_def
      sessionTorrentFinalizedOption_def gidA_def del: hasSpace.simps)

lemma saved_lines: "\<forall>l \<in> set (sessionLines (sessionSnapshot exampleSessionLib savedEngine)). int (length l) < sessionMaxLineSize"
  unfolding saved_snapshot savedDownload_options
  by (simp add: sessionLines_def entryLines_def valueLines_def sessionMaxLineSize_def
          maxSupportedTorrentSize_def sessionTorrentDataURIPrefix_def sessionExplicitOptionsOption_def
      sessionTorrentFinalizedOption_def gidA_def)

lemma saved_session_loads:
  assumes "sessionText savedEnv (sessionSnapshot exampleSessionLib savedEngine) = Inr text"
  shows "\<exists>e1. loadSession savedEnv exampleSessionLib ''/s'' (Inr text) rnd exampleEngine = Inr e1"
proof -
  obtain ns where ns: "parseSession text = Inr (map2 itemOf ns (filter (\<lambda>d. sdUris d \<noteq> []) (sessionSnapshot exampleSessionLib savedEngine)))"
    "length ns = length (filter (\<lambda>d. sdUris d \<noteq> []) (sessionSnapshot exampleSessionLib savedEngine))"
    by (rule written_session_read[OF assms _ saved_lines]) (simp add: saved_snapshot sessionOptions_distinct)
  then obtain item where i: "parseSession text = Inr [item]" "siUris item = [''magnet:x'']"
      "siOptions item = canonOptions (sessionOptions exampleSessionLib savedDownload)"
    by (auto simp: saved_snapshot itemOf_def length_Suc_conv)
  have "map_of (eDownloads exampleEngine) gidA = None" by (simp add: exampleEngine_def NewEngine_def Let_def)
  then obtain e1 where "loadItem savedEnv exampleSessionLib (rnd (siLine item)) item exampleEngine = Inr e1"
    using saved_loads[OF _ i(2,3)] by blast
  then show ?thesis using i(1) by (simp add: loadSession_def)
qed


end
