(* ===== verification/Http_Range.thy ===== *)
theory Http_Range
  imports Query Session_Proofs
begin

text \<open>
  HTTP headers, the requests the downloader builds (download_http.go) and the validation of the responses
  it gets (download_util.go): Content-Range, the checks of partial responses, the metadata of a
  response, and the classification of errors as retryable.

  What the code takes from other packages is the record \<open>httpEnv\<close>: the printed form of a URL without its
  user information, that user information, base64, the HTTP date format, the parameters of a media type,
  and the gzip reader.
\<close>

section \<open>Headers\<close>

type_synonym header = "(string \<times> string list) list"

text \<open>\<open>textproto.CanonicalMIMEHeaderKey\<close>: a key with a byte that is not a token byte is left as it is.\<close>

definition tokenByte :: "char \<Rightarrow> bool" where
  "tokenByte c \<longleftrightarrow> isDigit c \<or> (let b = (of_char c :: nat) in (65 \<le> b \<and> b \<le> 90) \<or> (97 \<le> b \<and> b \<le> 122)) \<or>
     c \<in> set ''!#$%&*+-.^_`|~'' \<or> c = CHR 0x27"

definition asciiUpper :: "char \<Rightarrow> char" where
  "asciiUpper c = (let b = (of_char c :: nat) in if 97 \<le> b \<and> b \<le> 122 then char_of (b - 32) else c)"

fun canonFrom :: "bool \<Rightarrow> string \<Rightarrow> string" where
  "canonFrom upper [] = []"
| "canonFrom upper (c # cs) = (if upper then asciiUpper c else asciiLower c) # canonFrom (c = CHR ''-'') cs"

definition canonicalHeaderKey :: "string \<Rightarrow> string" where
  "canonicalHeaderKey k = (if list_all tokenByte k then canonFrom True k else k)"

definition headerValues :: "header \<Rightarrow> string \<Rightarrow> string list" where
  "headerValues h k = (case map_of h (canonicalHeaderKey k) of None \<Rightarrow> [] | Some vs \<Rightarrow> vs)"

definition headerGet :: "header \<Rightarrow> string \<Rightarrow> string" where
  "headerGet h k = (case headerValues h k of [] \<Rightarrow> '''' | v # _ \<Rightarrow> v)"

definition headerSet :: "string \<Rightarrow> string \<Rightarrow> header \<Rightarrow> header" where
  "headerSet k v h = AList.update (canonicalHeaderKey k) [v] h"

definition headerAdd :: "string \<Rightarrow> string \<Rightarrow> header \<Rightarrow> header" where
  "headerAdd k v h = AList.update (canonicalHeaderKey k) (headerValues h k @ [v]) h"

definition headerDel :: "string \<Rightarrow> header \<Rightarrow> header" where
  "headerDel k h = AList.delete (canonicalHeaderKey k) h"

section \<open>Requests and responses\<close>

text \<open>A body is what the successive calls of \<open>Read\<close> return: bytes and possibly an error. A reader whose events
  are used up is at its end.\<close>

type_synonym body = "(string \<times> err option) list"

record request =
  rqMethod :: string
  rqURL :: string
  rqHost :: string
  rqHeader :: header

record response =
  rsStatusCode :: int
  rsStatus :: string
  rsHeader :: header
  rsContentLength :: int
  rsURL :: "(string \<times> string) option"
  rsBody :: body

text \<open>\<open>rsURL\<close> is the URL of the request that was answered, printed and as its path.\<close>

record httpEnv =
  heNewRequest :: "string \<Rightarrow> err option"
  heURLNoUser :: "string \<Rightarrow> string"
  heURLUser :: "string \<Rightarrow> (string \<times> string) option"
  heURLHost :: "string \<Rightarrow> string"
  heB64 :: "string \<Rightarrow> string"
  heParseTime :: "string \<Rightarrow> int option"
  heFormatTime :: "int \<Rightarrow> string"
  heMediaParams :: "string \<Rightarrow> (string \<times> string) list option"
  heGunzip :: "body \<Rightarrow> body res"

definition statusOK :: int where "statusOK = 200"
definition statusPartialContent :: int where "statusPartialContent = 206"
definition statusNotModified :: int where "statusNotModified = 304"
definition statusRangeNotSatisfiable :: int where "statusRangeNotSatisfiable = 416"

definition setBasicAuth :: "httpEnv \<Rightarrow> string \<Rightarrow> string \<Rightarrow> request \<Rightarrow> request" where
  "setBasicAuth he user pass rq =
     rq\<lparr>rqHeader := headerSet ''Authorization'' (''Basic '' @ heB64 he (user @ '':'' @ pass)) (rqHeader rq)\<rparr>"

text \<open>The loop over the header option; the flag says that it set the user agent.\<close>

fun applyHeaderOptions :: "string list \<Rightarrow> bool \<times> request \<Rightarrow> bool \<times> request" where
  "applyHeaderOptions [] s = s"
| "applyHeaderOptions (h # hs) (ua, rq) =
     applyHeaderOptions hs
       (case Cut h (CHR '':'') of (name0, value0, ok) \<Rightarrow>
         (let name = TrimSpace name0; val = TrimSpace value0 in
          if \<not> ok \<or> name = '''' then (ua, rq)
          else if EqualFold name ''Host'' then (ua, rq\<lparr>rqHeader := headerDel ''Host'' (rqHeader rq), rqHost := val\<rparr>)
          else if EqualFold name ''User-Agent'' then (True, rq\<lparr>rqHeader := headerSet name val (rqHeader rq)\<rparr>)
          else (ua, rq\<lparr>rqHeader := headerAdd name val (rqHeader rq)\<rparr>)))"

definition basicAuthCredentials :: "httpEnv \<Rightarrow> request \<Rightarrow> options \<Rightarrow> (string \<times> string) option" where
  "basicAuthCredentials he rq opts =
     (if optionString opts ''http-user'' \<noteq> '''' then Some (optionString opts ''http-user'', optionString opts ''http-passwd'')
      else heURLUser he (rqURL rq))"

definition setHeader :: "string \<Rightarrow> string \<Rightarrow> request \<Rightarrow> request" where
  "setHeader k v rq = rq\<lparr>rqHeader := headerSet k v (rqHeader rq)\<rparr>"

definition applyRequestOptions :: "httpEnv \<Rightarrow> options \<Rightarrow> request \<Rightarrow> request" where
  "applyRequestOptions he opts rq0 =
     (let (headerUserAgent, rq1) = applyHeaderOptions (optionStringList opts ''header'') (False, rq0);
          ua = optionString opts ''user-agent'';
          rq2 = (if ua \<noteq> '''' \<and> \<not> headerUserAgent then setHeader ''User-Agent'' ua rq1 else rq1);
          ref = optionString opts ''referer'';
          rq3 = (if ref \<noteq> '''' then setHeader ''Referer'' (if ref = ''*'' then heURLNoUser he (rqURL rq2) else ref) rq2 else rq2);
          rq4 = (if optionBool opts ''http-no-cache''
                 then setHeader ''Pragma'' ''no-cache'' (setHeader ''Cache-Control'' ''no-cache'' rq3) else rq3);
          rq5 = (if optionBool opts ''http-accept-gzip'' then setHeader ''Accept-Encoding'' ''gzip'' rq4
                 else if headerGet (rqHeader rq4) ''Accept-Encoding'' = '''' then setHeader ''Accept-Encoding'' ''identity'' rq4
                 else rq4) in
      if optionBool opts ''http-auth-challenge'' then rq5
      else
        (if optionString opts ''http-user'' \<noteq> ''''
         then setBasicAuth he (optionString opts ''http-user'') (optionString opts ''http-passwd'') rq5
         else (case heURLUser he (rqURL rq5) of None \<Rightarrow> rq5 | Some (user, pass) \<Rightarrow> setBasicAuth he user pass rq5)))"

definition applyMetadataRequestOptions :: "httpEnv \<Rightarrow> options \<Rightarrow> request \<Rightarrow> request" where
  "applyMetadataRequestOptions he opts rq =
     (let rq1 = applyRequestOptions he opts rq in
      setHeader ''Accept-Encoding'' ''identity'' (rq1\<lparr>rqHeader := headerDel ''Range'' (rqHeader rq1)\<rparr>))"

definition applyRangeRequestOptions :: "httpEnv \<Rightarrow> options \<Rightarrow> string \<Rightarrow> request \<Rightarrow> request" where
  "applyRangeRequestOptions he opts rangeValue rq =
     setHeader ''Accept-Encoding'' ''identity'' (setHeader ''Range'' rangeValue (applyRequestOptions he opts rq))"

definition strongETag :: "string \<Rightarrow> string" where
  "strongETag etag0 = (let etag = TrimSpace etag0 in if etag = '''' \<or> HasPrefix (ToLower etag) ''w/'' then '''' else etag)"

definition applyIfRange :: "httpEnv \<Rightarrow> remoteMeta \<Rightarrow> request \<Rightarrow> request" where
  "applyIfRange he m rq =
     (if strongETag (mETag m) \<noteq> '''' then setHeader ''If-Range'' (strongETag (mETag m)) rq
      else (case heParseTime he (mLastModified m) of None \<Rightarrow> rq | Some t \<Rightarrow> setHeader ''If-Range'' (heFormatTime he t) rq))"

definition hasBasicAuthChallenge :: "response \<Rightarrow> bool" where
  "hasBasicAuthChallenge resp \<longleftrightarrow>
     list_ex (\<lambda>val. list_ex (\<lambda>challenge. (case Fields (TrimSpace challenge) of [] \<Rightarrow> False | f # _ \<Rightarrow> EqualFold f ''Basic''))
       (Split val (CHR '',''))) (headerValues (rsHeader resp) ''WWW-Authenticate'')"

section \<open>Content-Range\<close>

record byteContentRange =
  bcStart :: int
  bcEnd :: int
  bcTotal :: int
  bcTotalKnown :: bool
  bcUnsatisfied :: bool

definition parseHTTPNonNegativeDecimal :: "string \<Rightarrow> int option" where
  "parseHTTPNonNegativeDecimal s = (if s = '''' \<or> \<not> list_all isDigit s then None else Atoi s)"

definition parseRangePart :: "string \<Rightarrow> bool \<Rightarrow> int \<Rightarrow> byteContentRange option" where
  "parseRangePart rangePart totalKnown tot =
     (case Cut rangePart (CHR ''-'') of (startPart, endPart, ok) \<Rightarrow>
        (if \<not> ok then None
         else
           (case parseHTTPNonNegativeDecimal startPart of
              None \<Rightarrow> None
            | Some start \<Rightarrow>
               (case parseHTTPNonNegativeDecimal endPart of
                  None \<Rightarrow> None
                | Some en \<Rightarrow>
                   (if en < start then None
                    else if totalKnown \<and> en \<ge> tot then None
                    else Some \<lparr>bcStart = start, bcEnd = en, bcTotal = tot, bcTotalKnown = totalKnown, bcUnsatisfied = False\<rparr>)))))"

definition parseRangeSpec :: "string \<Rightarrow> byteContentRange option" where
  "parseRangeSpec spec =
     (case Cut spec (CHR ''/'') of (rangePart, totalPart, ok) \<Rightarrow>
        (if \<not> ok \<or> totalPart = '''' then None
         else
           (let totalKnown = (totalPart \<noteq> ''*'') in
            (case (if totalKnown then parseHTTPNonNegativeDecimal totalPart else Some (-1)) of
               None \<Rightarrow> None
             | Some tot \<Rightarrow>
                (if rangePart = ''*''
                 then (if \<not> totalKnown then None
                       else Some \<lparr>bcStart = 0, bcEnd = 0, bcTotal = tot, bcTotalKnown = True, bcUnsatisfied = True\<rparr>)
                 else parseRangePart rangePart totalKnown tot)))))"

definition parseByteContentRange :: "string \<Rightarrow> byteContentRange option" where
  "parseByteContentRange s =
     (let fields = Fields (TrimSpace s) in
      if length fields \<noteq> 2 \<or> \<not> EqualFold (fields ! 0) ''bytes'' then None
      else parseRangeSpec (fields ! 1))"

definition hasByteRangeSupport :: "header \<Rightarrow> bool" where
  "hasByteRangeSupport h \<longleftrightarrow>
     list_ex (\<lambda>val. list_ex (\<lambda>token. EqualFold (TrimSpace token) ''bytes'') (Split val (CHR '',''))) (headerValues h ''Accept-Ranges'')"

definition hasNonIdentityContentEncoding :: "header \<Rightarrow> bool" where
  "hasNonIdentityContentEncoding h \<longleftrightarrow>
     list_ex (\<lambda>val. list_ex (\<lambda>token. TrimSpace token \<noteq> '''' \<and> \<not> EqualFold (TrimSpace token) ''identity'') (Split val (CHR '','')))
       (headerValues h ''Content-Encoding'')"

section \<open>Checks of partial responses\<close>

definition validatePartialContentRange :: "response \<Rightarrow> byteContentRange res" where
  "validatePartialContentRange resp =
     (if hasNonIdentityContentEncoding (rsHeader resp)
      then Inl (HttpProtocolError ''partial response uses unsupported Content-Encoding %q'' [headerGet (rsHeader resp) ''Content-Encoding''])
      else
        (case parseByteContentRange (headerGet (rsHeader resp) ''Content-Range'') of
           None \<Rightarrow> Inl (HttpProtocolError ''partial response has invalid Content-Range %q'' [headerGet (rsHeader resp) ''Content-Range''])
         | Some cr \<Rightarrow>
            (if bcUnsatisfied cr
             then Inl (HttpProtocolError ''partial response has invalid Content-Range %q'' [headerGet (rsHeader resp) ''Content-Range''])
             else Inr cr)))"

definition validateContentRangeLength :: "response \<Rightarrow> byteContentRange \<Rightarrow> unit res" where
  "validateContentRangeLength resp cr =
     (let want = wrap64 (bcEnd cr - bcStart cr + 1) in
      if rsContentLength resp \<ge> 0 \<and> rsContentLength resp \<noteq> want
      then Inl (HttpProtocolError ''partial response Content-Length %d does not match Content-Range length %d''
             [Itoa (rsContentLength resp), Itoa want])
      else Inr ())"

definition validateProbeRangeResponse :: "response \<Rightarrow> int \<Rightarrow> int \<Rightarrow> byteContentRange res" where
  "validateProbeRangeResponse resp requestedStart requestedEnd =
     bindR (validatePartialContentRange resp) (\<lambda>cr.
       if bcStart cr \<noteq> requestedStart \<or> bcEnd cr < requestedStart \<or> bcEnd cr > requestedEnd
       then Inl (HttpProtocolError ''partial response Content-Range %q does not satisfy requested range bytes=%d-%d''
              [headerGet (rsHeader resp) ''Content-Range'', Itoa requestedStart, Itoa requestedEnd])
       else bindR (validateContentRangeLength resp cr) (\<lambda>_. Inr cr))"

definition validateExactRangeResponse :: "response \<Rightarrow> int \<Rightarrow> int \<Rightarrow> int \<Rightarrow> byteContentRange res" where
  "validateExactRangeResponse resp expectedStart expectedEnd expectedTotal =
     bindR (validatePartialContentRange resp) (\<lambda>cr.
       if bcStart cr \<noteq> expectedStart \<or> bcEnd cr \<noteq> expectedEnd
       then Inl (HttpProtocolError ''partial response Content-Range %q does not match requested range bytes=%d-%d''
              [headerGet (rsHeader resp) ''Content-Range'', Itoa expectedStart, Itoa expectedEnd])
       else if expectedTotal \<ge> 0 \<and> bcTotalKnown cr \<and> bcTotal cr \<noteq> expectedTotal
       then Inl (HttpProtocolError ''partial response Content-Range total %d does not match expected total %d''
              [Itoa (bcTotal cr), Itoa expectedTotal])
       else bindR (validateContentRangeLength resp cr) (\<lambda>_. Inr cr))"

definition validateOpenRangeResponse :: "response \<Rightarrow> int \<Rightarrow> int \<Rightarrow> byteContentRange res" where
  "validateOpenRangeResponse resp expectedStart expectedTotal =
     bindR (validatePartialContentRange resp) (\<lambda>cr.
       if bcStart cr \<noteq> expectedStart
       then Inl (HttpProtocolError ''partial response Content-Range %q does not start at requested offset %d''
              [headerGet (rsHeader resp) ''Content-Range'', Itoa expectedStart])
       else if expectedTotal \<ge> 0 \<and> bcTotalKnown cr \<and> bcTotal cr \<noteq> expectedTotal
       then Inl (HttpProtocolError ''partial response Content-Range total %d does not match expected total %d''
              [Itoa (bcTotal cr), Itoa expectedTotal])
       else if expectedTotal \<ge> 0 \<and> bcEnd cr \<noteq> expectedTotal - 1
       then Inl (HttpProtocolError ''partial response Content-Range %q does not complete expected total %d''
              [headerGet (rsHeader resp) ''Content-Range'', Itoa expectedTotal])
       else if bcTotalKnown cr \<and> bcEnd cr \<noteq> bcTotal cr - 1
       then Inl (HttpProtocolError ''partial response Content-Range %q does not complete the open-ended range''
              [headerGet (rsHeader resp) ''Content-Range''])
       else bindR (validateContentRangeLength resp cr) (\<lambda>_. Inr cr))"

definition completeLengthFromUnsatisfiedRange :: "response \<Rightarrow> int option" where
  "completeLengthFromUnsatisfiedRange resp =
     (case parseByteContentRange (headerGet (rsHeader resp) ''Content-Range'') of
        None \<Rightarrow> None
      | Some cr \<Rightarrow> if \<not> bcUnsatisfied cr \<or> \<not> bcTotalKnown cr then None else Some (bcTotal cr))"

definition isHTTPTransferSuccess :: "int \<Rightarrow> bool" where
  "isHTTPTransferSuccess status \<longleftrightarrow> status \<ge> 200 \<and> status < 300"

definition isHTTPBodySuccess :: "int \<Rightarrow> bool" where
  "isHTTPBodySuccess status \<longleftrightarrow> isHTTPTransferSuccess status \<and> status \<noteq> 204 \<and> status \<noteq> 205"

section \<open>Metadata of a response\<close>

definition responseBodyDecoded :: "response \<Rightarrow> options \<Rightarrow> bool" where
  "responseBodyDecoded resp opts \<longleftrightarrow>
     optionBool opts ''http-accept-gzip'' \<and> EqualFold (headerGet (rsHeader resp) ''Content-Encoding'') ''gzip''"

definition responseReader :: "httpEnv \<Rightarrow> response \<Rightarrow> options \<Rightarrow> body res" where
  "responseReader he resp opts = (if responseBodyDecoded resp opts then heGunzip he (rsBody resp) else Inr (rsBody resp))"

definition filenameFromResponse :: "httpEnv \<Rightarrow> queryEnv \<Rightarrow> response \<Rightarrow> string \<Rightarrow> string" where
  "filenameFromResponse he qe resp original =
     (let cd = headerGet (rsHeader resp) ''Content-Disposition'';
          named = (if cd = '''' then ''''
                   else (case heMediaParams he cd of None \<Rightarrow> ''''
                         | Some ps \<Rightarrow> (case map_of ps ''filename'' of None \<Rightarrow> '''' | Some n \<Rightarrow> n)));
          base = (case rsURL resp of None \<Rightarrow> '''' | Some (_, p) \<Rightarrow> pathBase p) in
      if named \<noteq> '''' then safeURIFilename named
      else if base \<noteq> ''.'' \<and> base \<noteq> ''/'' \<and> base \<noteq> '''' then safeURIFilename base
      else filenameFromURI qe original)"

definition metaFromResponse :: "httpEnv \<Rightarrow> queryEnv \<Rightarrow> response \<Rightarrow> string \<Rightarrow> options \<Rightarrow> remoteMeta" where
  "metaFromResponse he qe resp original opts =
     (let decoded = responseBodyDecoded resp opts in
      \<lparr>mLength = (if decoded then 0 else nonNegativeLength (rsContentLength resp)),
       mAcceptRange = (if decoded then False else hasByteRangeSupport (rsHeader resp)),
       mFinalURI = (case rsURL resp of None \<Rightarrow> original | Some (u, _) \<Rightarrow> u),
       mFilename = filenameFromResponse he qe resp original,
       mLastModified = headerGet (rsHeader resp) ''Last-Modified'',
       mETag = headerGet (rsHeader resp) ''ETag'',
       mNotModified = False\<rparr>)"

section \<open>Errors\<close>

definition isStatusError :: "err \<Rightarrow> bool" where
  "isStatusError e = (case e of HttpStatusError m u c s \<Rightarrow> True | _ \<Rightarrow> False)"

definition isProtocolError :: "err \<Rightarrow> bool" where
  "isProtocolError e = (case e of HttpProtocolError f args \<Rightarrow> True | _ \<Rightarrow> False)"

definition isBodyError :: "err \<Rightarrow> bool" where
  "isBodyError e = (case e of RangeBodyError e' n \<Rightarrow> True | _ \<Rightarrow> False)"

text \<open>\<open>*url.Error\<close> and \<open>context.DeadlineExceeded\<close> are \<open>net.Error\<close>s too.\<close>

definition isNetError :: "err \<Rightarrow> bool" where
  "isNetError e = (case e of NetError s \<Rightarrow> True | UrlError x \<Rightarrow> True | DeadlineExceeded \<Rightarrow> True | _ \<Rightarrow> False)"

definition isURLError :: "err \<Rightarrow> bool" where
  "isURLError e = (case e of UrlError x \<Rightarrow> True | _ \<Rightarrow> False)"

definition asStatus :: "err \<Rightarrow> int option" where
  "asStatus e = (case errAs isStatusError e of Some (HttpStatusError m u c s) \<Rightarrow> Some c | _ \<Rightarrow> None)"

definition isRetryableDownloadError :: "err option \<Rightarrow> bool" where
  "isRetryableDownloadError er =
     (case er of
        None \<Rightarrow> False
      | Some e \<Rightarrow>
         (if errIs e ContextCanceled \<or> errIs e DeadlineExceeded then False
          else if errAs isProtocolError e \<noteq> None then False
          else
            (case asStatus e of
               Some code \<Rightarrow> code \<in> {408, 429, 500, 502, 503, 504}
             | None \<Rightarrow>
                (errIs e ErrUnexpectedEOF \<or> errIs e EOF \<or> errIs e ErrShortWrite \<or>
                 errAs isURLError e \<noteq> None \<or> errAs isNetError e \<noteq> None))))"

definition isFileNotFoundError :: "err \<Rightarrow> bool" where
  "isFileNotFoundError e \<longleftrightarrow> asStatus e = Some 404"

definition isRetryableRangeError :: "err \<Rightarrow> bool" where
  "isRetryableRangeError e \<longleftrightarrow> isRetryableDownloadError (Some e)"

definition isAdaptiveRangeThrottleError :: "err \<Rightarrow> bool" where
  "isAdaptiveRangeThrottleError e =
     (case asStatus e of None \<Rightarrow> False | Some code \<Rightarrow> code = 403 \<or> code = 429 \<or> (500 \<le> code \<and> code \<le> 599))"

definition shouldDowngradeSegmentedDownload :: "err option \<Rightarrow> bool" where
  "shouldDowngradeSegmentedDownload er = (case er of None \<Rightarrow> False | Some e \<Rightarrow> asStatus e = Some statusOK)"

definition bodyLengthMismatchError :: "int \<Rightarrow> int \<Rightarrow> err" where
  "bodyLengthMismatchError got want =
     (if got < want then ErrUnexpectedEOF
      else HttpProtocolError ''response body length %d does not match expected length %d'' [Itoa got, Itoa want])"

text \<open>\<open>errors.Join\<close> of errors that may be nil.\<close>

definition joinErrors :: "err option list \<Rightarrow> err option" where
  "joinErrors es = (case filter (\<lambda>e. e \<noteq> None) es of [] \<Rightarrow> None | xs \<Rightarrow> Some (ErrJoin (map the xs)))"

section \<open>Reading and checking a range\<close>

lemma parseHTTPNonNegativeDecimal_Itoa:
  "0 \<le> n \<Longrightarrow> n \<le> MaxInt64 \<Longrightarrow> parseHTTPNonNegativeDecimal (Itoa n) = Some n"
  using Itoa_nonneg_digits[of n] Atoi_Itoa[of n] by (auto simp: parseHTTPNonNegativeDecimal_def list_all_iff isInt64_def)

lemma parseHTTPNonNegativeDecimal_range:
  assumes "parseHTTPNonNegativeDecimal s = Some n"
  shows "0 \<le> n \<and> n \<le> MaxInt64"
proof -
  obtain c cs where s: "s = c # cs" "isDigit c" "Atoi s = Some n"
    using assms by (cases s) (auto simp: parseHTTPNonNegativeDecimal_def split: if_splits)
  then have "c \<noteq> CHR ''-''" by auto
  then have "0 \<le> n" using s by (auto simp: Atoi_def split: option.splits if_splits)
  then show ?thesis using Atoi_range[OF s(3)] by (simp add: isInt64_def)
qed

text \<open>Every range the parser accepts is a non-empty interval of bytes inside the representation.\<close>

lemma parseByteContentRange_bounds:
  assumes "parseByteContentRange s = Some cr" "\<not> bcUnsatisfied cr"
  shows "0 \<le> bcStart cr \<and> bcStart cr \<le> bcEnd cr \<and> bcEnd cr \<le> MaxInt64 \<and> (bcTotalKnown cr \<longrightarrow> bcEnd cr < bcTotal cr \<and> bcTotal cr \<le> MaxInt64)"
  using assms
  by (auto simp: parseByteContentRange_def parseRangeSpec_def parseRangePart_def Let_def
      dest: parseHTTPNonNegativeDecimal_range split: if_splits prod.splits option.splits)

definition printContentRange :: "int \<Rightarrow> int \<Rightarrow> int option \<Rightarrow> string" where
  "printContentRange start en tot =
     ''bytes '' @ Itoa start @ ''-'' @ Itoa en @ ''/'' @ (case tot of None \<Rightarrow> ''*'' | Some t \<Rightarrow> Itoa t)"

lemma Itoa_not_in: "0 \<le> n \<Longrightarrow> \<not> isDigit c \<Longrightarrow> c \<notin> set (Itoa n)"
  using Itoa_nonneg_digits by blast

lemma digit_specials [simp]: "\<not> isDigit (CHR ''/'')" "\<not> isDigit (CHR ''*'')"
  by (simp_all add: isDigit_def)

lemma plain_specials [simp]: "plainByte (CHR ''/'')" "plainByte (CHR ''*'')" "plainByte (CHR ''-'')"
  by (simp_all add: plainByte_def asciiSpace_def)

lemma bytes_plain: "list_all plainByte ''bytes''"
  by (simp add: plainByte_def asciiSpace_def)

lemma parse_printContentRange:
  assumes "0 \<le> start" "start \<le> en" "en \<le> MaxInt64" "\<And>t. tot = Some t \<Longrightarrow> en < t \<and> t \<le> MaxInt64"
  shows "parseByteContentRange (printContentRange start en tot) =
    Some \<lparr>bcStart = start, bcEnd = en, bcTotal = (case tot of None \<Rightarrow> -1 | Some t \<Rightarrow> t), bcTotalKnown = (tot \<noteq> None), bcUnsatisfied = False\<rparr>"
proof -
  let ?r = "Itoa start @ ''-'' @ Itoa en" and ?t = "case tot of None \<Rightarrow> ''*'' | Some t \<Rightarrow> Itoa t"
  let ?spec = "?r @ CHR ''/'' # ?t"
  have plain: "list_all plainByte ?spec" by (simp add: Itoa_plain split: option.split)
  have spec: "?spec \<noteq> []" "\<not> hasSpace ?spec" "\<not> hasSpace ''bytes''"
    by (simp, rule hasSpace_plain[OF plain], rule hasSpace_plain[OF bytes_plain])
  have "Fields (''bytes'' @ CHR '' '' # ?spec) = [''bytes'', ?spec]"
    using fieldsFrom_word[of "''bytes''" "CHR '' '' # ?spec" "[]"] fieldsFrom_word[of ?spec "[]" "[]"] spec
    by (simp add: Fields_def fieldsFrom.simps[of _ "CHR '' '' # _"] fieldsFrom.simps[of _ "[]"])
  moreover have "TrimSpace (''bytes'' @ CHR '' '' # ?spec) = ''bytes'' @ CHR '' '' # ?spec"
  proof -
    obtain ds d where d: "?spec = ds @ [d]" using spec(1) by (metis rev_exhaust)
    then have "plainByte d" using plain unfolding d by simp
    then show ?thesis using d bytes_plain by (intro TrimSpace_plain_ends[of _ "CHR ''b''" _ "''bytes '' @ ds" d]) simp_all
  qed
  moreover have "parseRangeSpec ?spec = parseRangePart ?r (tot \<noteq> None) (case tot of None \<Rightarrow> -1 | Some t \<Rightarrow> t)"
  proof -
    have "CHR ''/'' \<notin> set ?r" using assms(1,2) Itoa_not_in by simp
    then have "Cut ?spec (CHR ''/'') = (?r, ?t, True)" by (rule Cut_found)
    moreover have "?r \<noteq> ''*''" by (simp add: append_eq_Cons_conv)
    moreover have "Itoa t \<noteq> ''*''" if "tot = Some t" for t
      using assms(1-3) assms(4)[OF that] Itoa_not_in[of t "CHR ''*''"] by auto
    ultimately show ?thesis using assms(1-4)
      by (cases tot) (auto simp: parseRangeSpec_def parseHTTPNonNegativeDecimal_Itoa)
  qed
  moreover have "parseRangePart ?r (tot \<noteq> None) (case tot of None \<Rightarrow> -1 | Some t \<Rightarrow> t) =
      Some \<lparr>bcStart = start, bcEnd = en, bcTotal = (case tot of None \<Rightarrow> -1 | Some t \<Rightarrow> t), bcTotalKnown = (tot \<noteq> None), bcUnsatisfied = False\<rparr>"
  proof -
    have "Cut (Itoa start @ CHR ''-'' # Itoa en) (CHR ''-'') = (Itoa start, Itoa en, True)"
      using assms(1) Itoa_not_in by (intro Cut_found) simp
    then show ?thesis using assms(1-3) assms(4) unfolding parseRangePart_def
      by (cases tot) (auto simp: parseHTTPNonNegativeDecimal_Itoa)
  qed
  ultimately show ?thesis by (simp add: parseByteContentRange_def printContentRange_def Let_def)
qed

text \<open>C19: A Content-Range value in the format of the HTTP specification reads as the range it states, with or
  without the total length.\<close>

theorem parseByteContentRange_roundtrip:
  assumes "0 \<le> start" "start \<le> en" "en \<le> MaxInt64" "\<And>t. tot = Some t \<Longrightarrow> en < t \<and> t \<le> MaxInt64"
  shows "parseByteContentRange (printContentRange start en tot) =
    Some \<lparr>bcStart = start, bcEnd = en, bcTotal = (case tot of None \<Rightarrow> -1 | Some t \<Rightarrow> t), bcTotalKnown = (tot \<noteq> None), bcUnsatisfied = False\<rparr>"
  using assms by (rule parse_printContentRange)

theorem parseByteContentRange_roundtrip_witness:
  "parseByteContentRange (printContentRange 5 9 (Some 20)) =
     Some \<lparr>bcStart = 5, bcEnd = 9, bcTotal = 20, bcTotalKnown = True, bcUnsatisfied = False\<rparr>"
  using parseByteContentRange_roundtrip[of 5 9 "Some 20"] by simp

end
