(* ===== verification/Rate_Limit.thy ===== *)
theory Rate_Limit
  imports Goaria_Prelude Complex_Main "HOL-Library.Log_Nat"
begin

text \<open>
  The rate limiters and the speed tracker of downloader.go. A time is a number of nanoseconds, a duration
  likewise. The code converts between bytes and nanoseconds in \<open>float64\<close>, so the arithmetic of IEEE doubles is
  written out: \<open>f64\<close> rounds a positive rational to the nearest double, ties to even (all values here are
  in the range of normal numbers).
\<close>

section \<open>Doubles\<close>

definition roundHalfEven :: "rat \<Rightarrow> int" where
  "roundHalfEven x =
     (let f = \<lfloor>x\<rfloor>; r = x - of_int f in
      if r < 1 / 2 then f else if r > 1 / 2 then f + 1 else if even f then f else f + 1)"

text \<open>The exponent of the last of the 53 bits of the significand.\<close>

definition f64exp :: "rat \<Rightarrow> int" where
  "f64exp x =
     (let (p, q) = quotient_of x; k = bitlen p - bitlen q in
      (if 2 powi k * of_int q \<le> (of_int p :: rat) then k else k - 1) - 52)"

definition f64 :: "rat \<Rightarrow> rat" where
  "f64 x = (if x \<le> 0 then 0 else (let u = 2 powi f64exp x in of_int (roundHalfEven (x / u)) * u))"

definition second :: int where "second = 1000000000"

definition rateLimitDuration :: "int \<Rightarrow> int \<Rightarrow> int" where
  "rateLimitDuration n limit =
     (if n \<le> 0 \<or> limit \<le> 0 then 0
      else
        (let nanoseconds = \<lceil>f64 (f64 (f64 (of_int n) * of_int second) / f64 (of_int limit))\<rceil> in
         if nanoseconds \<ge> 2 ^ 63 then MaxInt64
         else if nanoseconds < 1 then 1
         else nanoseconds))"

definition bytesPerSecond :: "int \<Rightarrow> int \<Rightarrow> int" where
  "bytesPerSecond n elapsed =
     (if n \<le> 0 \<or> elapsed \<le> 0 then 0
      else
        (let rate = f64 (f64 (f64 (of_int n) * of_int second) / f64 (of_int elapsed)) in
         if rate \<ge> 2 ^ 63 then MaxInt64 else \<lfloor>rate\<rfloor>))"

section \<open>Limiters\<close>

text \<open>A limiter is the head of a list whose tail is its chain of parents. \<open>rlDynamic\<close> says that it has a
  \<open>limitFunc\<close>; the value a call of that function returns is an argument of the operations.\<close>

record rateLimiter =
  rlLimit :: int
  rlDynamic :: bool
  rlNext :: int

definition newDynamicRateLimiter :: rateLimiter where
  "newDynamicRateLimiter = \<lparr>rlLimit = 0, rlDynamic = True, rlNext = 0\<rparr>"

definition reserve :: "int \<Rightarrow> int \<Rightarrow> int \<Rightarrow> rateLimiter \<Rightarrow> int \<times> rateLimiter" where
  "reserve dynamicLimit now n l =
     (let limit = (if rlDynamic l then dynamicLimit else rlLimit l);
          l1 = (if rlDynamic l \<and> limit \<noteq> rlLimit l then l\<lparr>rlLimit := limit, rlNext := now\<rparr> else l) in
      if limit \<le> 0 then (now, l1)
      else
        (let l2 = (if rlNext l1 < now then l1\<lparr>rlNext := now\<rparr> else l1);
             l3 = l2\<lparr>rlNext := rlNext l2 + rateLimitDuration n limit\<rparr> in
         (rlNext l3, l3)))"

fun reservationChunk :: "int list \<Rightarrow> int \<Rightarrow> rateLimiter list \<Rightarrow> int" where
  "reservationChunk dyns chunk [] = chunk"
| "reservationChunk dyns chunk (l # ls) =
     (let limit = (if rlDynamic l then (case dyns of [] \<Rightarrow> 0 | v # _ \<Rightarrow> v) else rlLimit l);
          candidate0 = limit div 10;
          candidate = (if candidate0 < 1 then 1 else candidate0) in
      reservationChunk (tl dyns) (if limit \<le> 0 then chunk else if candidate < chunk then candidate else chunk) ls)"

fun reservationDeadline :: "int list \<Rightarrow> int \<Rightarrow> int \<Rightarrow> int \<Rightarrow> rateLimiter list \<Rightarrow> int \<times> rateLimiter list" where
  "reservationDeadline dyns now n deadline [] = (deadline, [])"
| "reservationDeadline dyns now n deadline (l # ls) =
     (let (reserved, l') = reserve (case dyns of [] \<Rightarrow> 0 | v # _ \<Rightarrow> v) now n l;
          (d, ls') = reservationDeadline (tl dyns) now n (if reserved > deadline then reserved else deadline) ls in
      (d, l' # ls'))"

text \<open>What \<open>wait\<close> meets in its \<open>k\<close>-th round: the error of the context, the clock at its two readings, the limits the
  two traversals of the chain read, and the result of the sleep.\<close>

record waitEnv =
  weCtx :: "nat \<Rightarrow> err option"
  weNow :: "nat \<Rightarrow> int"
  weLater :: "nat \<Rightarrow> int"
  weLimits :: "nat \<Rightarrow> int list"
  weLimits2 :: "nat \<Rightarrow> int list"
  weSleep :: "nat \<Rightarrow> err option"

lemma reservationChunk_bounds: "0 < chunk \<Longrightarrow> 0 < reservationChunk dyns chunk ls \<and> reservationChunk dyns chunk ls \<le> chunk"
proof (induction ls arbitrary: dyns chunk)
  case (Cons l ls)
  let ?lim = "if rlDynamic l then (case dyns of [] \<Rightarrow> 0 | v # _ \<Rightarrow> v) else rlLimit l"
  let ?cand = "if ?lim div 10 < 1 then 1 else ?lim div 10"
  let ?c = "if ?lim \<le> 0 then chunk else if ?cand < chunk then ?cand else chunk"
  have "0 < ?c" "?c \<le> chunk" using Cons.prems by auto
  with Cons.IH[of ?c "tl dyns"] show ?case unfolding reservationChunk.simps Let_def by linarith
qed simp

function wait :: "waitEnv \<Rightarrow> nat \<Rightarrow> int \<Rightarrow> rateLimiter list \<Rightarrow> err option \<times> rateLimiter list" where
  "wait we k n ls =
     (if ls = [] \<or> n \<le> 0 then (None, ls)
      else
        (case weCtx we k of
           Some er \<Rightarrow> (Some er, ls)
         | None \<Rightarrow>
            (let chunk = reservationChunk (weLimits we k) n ls;
                 (deadline, ls') = reservationDeadline (weLimits2 we k) (weNow we k) chunk (weNow we k) ls in
             if deadline - weLater we k > 0 then
               (case weSleep we k of
                  Some er \<Rightarrow> (Some er, ls')
                | None \<Rightarrow> wait we (Suc k) (n - chunk) ls')
             else wait we (Suc k) (n - chunk) ls')))"
  by pat_completeness auto
termination
proof (relation "measure (\<lambda>(we, k, n, ls). nat n)", goal_cases)
  case (2 we k n ls c p)
  then show ?case using reservationChunk_bounds[of n "weLimits we k" ls] by auto
next
  case (3 we k n ls c p)
  then show ?case using reservationChunk_bounds[of n "weLimits we k" ls] by auto
qed simp

declare wait.simps [simp del]

section \<open>The speed tracker\<close>

record speedTracker =
  stBytes :: int
  stLastBytes :: int
  stLastAt :: int

definition addBytes :: "int \<Rightarrow> speedTracker \<Rightarrow> speedTracker" where
  "addBytes n t = (if n > 0 then t\<lparr>stBytes := wrap64 (stBytes t + n)\<rparr> else t)"

text \<open>The closure \<open>update\<close> of \<open>run\<close>; \<open>Some\<close> is the speed it sets.\<close>

definition updateSpeed :: "int \<Rightarrow> speedTracker \<Rightarrow> int option \<times> speedTracker" where
  "updateSpeed now t =
     (let current = stBytes t; elapsed = now - stLastAt t in
      if elapsed \<le> 0 then (None, t)
      else
        (let delta0 = wrap64 (current - stLastBytes t); delta = (if delta0 < 0 then 0 else delta0) in
         (Some (bytesPerSecond delta elapsed), t\<lparr>stLastBytes := current, stLastAt := now\<rparr>)))"

section \<open>Rounding\<close>

lemma roundHalfEven_error: "\<bar>of_int (roundHalfEven x) - x\<bar> \<le> 1 / 2"
proof -
  define f where "f = \<lfloor>x\<rfloor>"
  have "of_int f \<le> x" "x < of_int f + 1" unfolding f_def by linarith+
  then show ?thesis unfolding roundHalfEven_def Let_def abs_if f_def[symmetric] by auto
qed

lemma bitlen_powi: "0 < n \<Longrightarrow> 2 powi (bitlen n - 1) \<le> (of_int n :: rat) \<and> (of_int n :: rat) < 2 powi bitlen n"
proof -
  assume n: "0 < n"
  have pos: "bitlen n > 0" using n bitlen_eq_zero_iff[of n] bitlen_nonneg[of n] by linarith
  have "(2 :: int) ^ nat (bitlen n - 1) \<le> n \<and> n < 2 ^ nat (bitlen n)" using bitlen_bounds[OF n] by simp
  then have "(of_int (2 ^ nat (bitlen n - 1)) :: rat) \<le> of_int n \<and> (of_int n :: rat) < of_int (2 ^ nat (bitlen n))"
    by (simp only: of_int_le_iff of_int_less_iff)
  then show ?thesis using pos by (simp add: power_int_def)
qed

lemma f64exp_bound:
  assumes "0 < x"
  shows "2 ^ 52 \<le> x / 2 powi f64exp x"
proof -
  obtain p q where pq: "quotient_of x = (p, q)" by force
  have q: "0 < q" and x: "x = of_int p / of_int q" using quotient_of_denom_pos[OF pq] quotient_of_div[OF pq] by auto
  have p: "0 < p" using assms x q by (simp add: zero_less_divide_iff)
  let ?k = "bitlen p - bitlen q"
  have low: "2 powi (?k - 1) \<le> x"
  proof -
    have "(2 :: rat) powi (bitlen p - 1) * of_int q \<le> of_int p * 2 powi bitlen q"
      using bitlen_powi[OF p] bitlen_powi[OF q] q p by (intro mult_mono) auto
    then have "(2 :: rat) powi (bitlen p - 1) / 2 powi bitlen q \<le> of_int p / of_int q"
      using q by (simp add: field_simps)
    moreover have "?k - 1 = (bitlen p - 1) - bitlen q" by simp
    moreover have "(2 :: rat) powi (a - b) = 2 powi a / 2 powi b" for a b by (simp add: power_int_diff)
    ultimately show ?thesis unfolding x by metis
  qed
  have "2 powi (f64exp x + 52) \<le> x"
  proof (cases "2 powi ?k * of_int q \<le> (of_int p :: rat)")
    case True
    then have "f64exp x + 52 = ?k" by (simp add: f64exp_def pq)
    then show ?thesis unfolding x using True q by (simp add: pos_le_divide_eq)
  next
    case False
    then show ?thesis using low by (simp add: f64exp_def pq)
  qed
  then show ?thesis by (simp add: power_int_add field_simps)
qed

text \<open>The relative error of a double is at most \<open>2\<^sup>-\<^sup>53\<close>.\<close>

lemma f64_error:
  assumes "0 < x"
  shows "\<bar>f64 x - x\<bar> \<le> x / 2 ^ 53"
proof -
  let ?u = "2 powi f64exp x :: rat"
  have u: "0 < ?u" by simp
  have "\<bar>of_int (roundHalfEven (x / ?u)) - x / ?u\<bar> \<le> (x / ?u) / 2 ^ 53"
    using roundHalfEven_error[of "x / ?u"] f64exp_bound[OF assms] by simp
  then have "\<bar>of_int (roundHalfEven (x / ?u)) - x / ?u\<bar> * ?u \<le> (x / ?u) / 2 ^ 53 * ?u"
    using u by (intro mult_right_mono) auto
  moreover have "\<bar>of_int (roundHalfEven (x / ?u)) - x / ?u\<bar> * ?u = \<bar>of_int (roundHalfEven (x / ?u)) * ?u - x\<bar>"
    using u by (subst abs_mult_pos) (simp_all add: left_diff_distrib)
  ultimately show ?thesis using assms u by (simp add: f64_def Let_def)
qed

lemma f64_pos: "0 < x \<Longrightarrow> 0 < f64 x"
  using f64_error[of x] by (auto simp: abs_if field_simps split: if_splits)


lemma f64_bounds:
  assumes "0 < x"
  shows "x * (1 - 1 / 2 ^ 53) \<le> f64 x" "f64 x \<le> x * (1 + 1 / 2 ^ 53)"
proof -
  have "x - x / 2 ^ 53 \<le> f64 x" "f64 x \<le> x + x / 2 ^ 53" using f64_error[OF assms] by linarith+
  then show "x * (1 - 1 / 2 ^ 53) \<le> f64 x" "f64 x \<le> x * (1 + 1 / 2 ^ 53)" by (simp_all add: algebra_simps)
qed

text \<open>The duration of a reservation is long enough for the limit, up to the rounding of the doubles.\<close>

lemma rateLimitDuration_enough:
  assumes "0 < n" "n \<le> limit"
  shows "(2 ^ 51 - 1) * (n * second) \<le> 2 ^ 51 * (limit * rateLimitDuration n limit)"
proof -
  let ?e = "1 / 2 ^ 53 :: rat"
  define a where "a = f64 (of_int n)"
  define b where "b = f64 (a * of_int second)"
  define c where "c = f64 (of_int limit)"
  define r where "r = f64 (b / c)"
  have pos: "0 < (of_int n :: rat)" "0 < (of_int limit :: rat)" "0 < (of_int second :: rat)" using assms by (simp_all add: second_def)
  have a: "of_int n * (1 - ?e) \<le> a" "a \<le> of_int n * (1 + ?e)" "0 < a" using f64_bounds[OF pos(1)] f64_pos[OF pos(1)] by (simp_all add: a_def)
  have b: "a * of_int second * (1 - ?e) \<le> b" "b \<le> a * of_int second * (1 + ?e)" "0 < b"
    using f64_bounds[of "a * of_int second"] f64_pos[of "a * of_int second"] a(3) pos by (simp_all add: b_def)
  have c: "of_int limit * (1 - ?e) \<le> c" "c \<le> of_int limit * (1 + ?e)" "0 < c" using f64_bounds[OF pos(2)] f64_pos[OF pos(2)] by (simp_all add: c_def)
  have r: "b / c * (1 - ?e) \<le> r" "r \<le> b / c * (1 + ?e)" "0 < r"
    using f64_bounds[of "b / c"] f64_pos[of "b / c"] b(3) c(3) by (simp_all add: r_def)
  let ?N = "of_int n * of_int second :: rat"
  have N: "0 < ?N" using pos by simp
  have "?N * ((1 - 4 * ?e) * (1 + ?e)) \<le> ?N * ((1 - ?e) * (1 - ?e) * (1 - ?e))"
    using N by (intro mult_left_mono) simp_all
  also have "\<dots> = of_int n * (1 - ?e) * (of_int second * (1 - ?e) * (1 - ?e))" by simp
  also have "\<dots> \<le> a * (of_int second * (1 - ?e) * (1 - ?e))" using a pos by (intro mult_right_mono) simp_all
  also have "\<dots> = a * of_int second * (1 - ?e) * (1 - ?e)" by simp
  also have "\<dots> \<le> b * (1 - ?e)" using b by (intro mult_right_mono) simp_all
  also have "\<dots> \<le> r * c" using r(1) c(3) by (simp add: field_simps)
  also have "\<dots> \<le> r * (of_int limit * (1 + ?e))" using c r(3) by (intro mult_left_mono) simp_all
  finally have "?N * (1 - 4 * ?e) * (1 + ?e) \<le> r * of_int limit * (1 + ?e)" by (simp only: mult.assoc)
  then have low: "?N * (1 - 4 * ?e) \<le> r * of_int limit" by (rule mult_right_le_imp_le) simp
  have "b \<le> a * of_int second * (1 + ?e)" by (rule b(2))
  also have "\<dots> \<le> of_int n * (1 + ?e) * of_int second * (1 + ?e)" using a pos by (intro mult_right_mono) simp_all
  also have "\<dots> \<le> of_int limit * (1 + ?e) * of_int second * (1 + ?e)" using assms pos by (intro mult_right_mono) simp_all
  also have "\<dots> \<le> of_int limit * (1 - ?e) * (4 * of_int second)" using pos by (simp add: second_def)
  also have "\<dots> \<le> c * (4 * of_int second)" using c pos by (intro mult_right_mono) simp_all
  finally have "b / c \<le> 4 * of_int second" using c(3) by (simp add: field_simps)
  then have "b / c * (1 + ?e) \<le> 4 * of_int second * (1 + ?e)" by (intro mult_right_mono) simp_all
  then have "r < 2 ^ 62" using r(2) by (simp add: second_def)
  then have "\<lceil>r\<rceil> < 2 ^ 63" by (simp add: ceiling_less_iff)
  moreover have "\<lceil>r\<rceil> \<ge> 1" using r(3) by linarith
  ultimately have "rateLimitDuration n limit = \<lceil>r\<rceil>"
    using assms by (simp add: rateLimitDuration_def a_def b_def c_def r_def Let_def)
  moreover have "?N * (1 - 4 * ?e) \<le> of_int \<lceil>r\<rceil> * of_int limit"
    using low pos(2) by (meson le_of_int_ceiling mult_right_mono less_imp_le order_trans)
  then have "of_int ((2 ^ 51 - 1) * (n * second)) \<le> (of_int (2 ^ 51 * (limit * \<lceil>r\<rceil>)) :: rat)" by (simp add: field_simps)
  ultimately show ?thesis by (simp only: of_int_le_iff)
qed


section \<open>A limiter keeps its limit\<close>

text \<open>Successive reservations \<open>(now, n)\<close> on one limiter while its limit is \<open>limit\<close>.\<close>

fun reserveAll :: "int \<Rightarrow> (int \<times> int) list \<Rightarrow> rateLimiter \<Rightarrow> rateLimiter" where
  "reserveAll limit [] l = l"
| "reserveAll limit ((now, n) # rs) l = reserveAll limit rs (snd (reserve limit now n l))"

lemma reserve_next:
  assumes "0 < limit" "rlLimit l = limit"
  shows "rlLimit (snd (reserve limit now n l)) = limit"
    and "rlNext (snd (reserve limit now n l)) = max (rlNext l) now + rateLimitDuration n limit"
    and "fst (reserve limit now n l) = rlNext (snd (reserve limit now n l))"
  using assms by (simp_all add: reserve_def Let_def max_def)

lemma reserveAll_next:
  assumes "0 < limit" "rlLimit l = limit"
  shows "rlNext l + (\<Sum>(now, n)\<leftarrow>rs. rateLimitDuration n limit) \<le> rlNext (reserveAll limit rs l)"
  using assms
proof (induction rs arbitrary: l)
  case (Cons r rs)
  obtain now n where r: "r = (now, n)" by force
  note nx = reserve_next[OF Cons.prems, of now n]
  show ?case using Cons.IH[OF Cons.prems(1) nx(1)] nx(2) by (simp add: r)
qed simp

lemma sum_durations:
  "(\<And>now n. (now, n) \<in> set rs \<Longrightarrow> 0 < n \<and> n \<le> limit) \<Longrightarrow>
   (2 ^ 51 - 1) * ((\<Sum>(now, n)\<leftarrow>rs. n) * second) \<le> 2 ^ 51 * (limit * (\<Sum>(now, n)\<leftarrow>rs. rateLimitDuration n limit))"
proof (induction rs)
  case (Cons r rs)
  obtain now n where r: "r = (now, n)" by force
  have "(2 ^ 51 - 1) * (n * second) \<le> 2 ^ 51 * (limit * rateLimitDuration n limit)"
    using Cons.prems[of now n] by (intro rateLimitDuration_enough) (simp_all add: r)
  moreover have "(2 ^ 51 - 1) * ((\<Sum>(now, n)\<leftarrow>rs. n) * second) \<le> 2 ^ 51 * (limit * (\<Sum>(now, n)\<leftarrow>rs. rateLimitDuration n limit))"
    using Cons.prems by (intro Cons.IH) (meson list.set_intros(2))
  ultimately show ?case by (simp add: r algebra_simps)
qed simp

text \<open>C18: A rate limiter keeps its limit. Over any sequence of reservations made while the limit is the same, the
  bytes granted by the deadline of the last one are at most the limit times the time since the first,
  up to a relative error of \<open>2\<^sup>-\<^sup>51\<close> from the arithmetic in doubles; idle time is not saved up.\<close>

theorem rate_bounded:
  assumes "0 < limit" "rlLimit l = limit" "\<And>t n. (t, n) \<in> set ((now, k) # rs) \<Longrightarrow> 0 < n \<and> n \<le> limit"
  shows "(2 ^ 51 - 1) * ((\<Sum>(t, n)\<leftarrow>(now, k) # rs. n) * second) \<le>
    2 ^ 51 * (limit * (rlNext (reserveAll limit ((now, k) # rs) l) - now))"
proof -
  note first = reserve_next[OF assms(1,2), of now k]
  have "max (rlNext l) now + rateLimitDuration k limit + (\<Sum>(t, n)\<leftarrow>rs. rateLimitDuration n limit) \<le>
      rlNext (reserveAll limit ((now, k) # rs) l)"
    using reserveAll_next[OF assms(1) first(1), of rs] first(2) by simp
  then have "(\<Sum>(t, n)\<leftarrow>(now, k) # rs. rateLimitDuration n limit) \<le> rlNext (reserveAll limit ((now, k) # rs) l) - now" by simp
  then have "2 ^ 51 * (limit * (\<Sum>(t, n)\<leftarrow>(now, k) # rs. rateLimitDuration n limit)) \<le>
      2 ^ 51 * (limit * (rlNext (reserveAll limit ((now, k) # rs) l) - now))"
    using assms(1) by (intro mult_left_mono) simp_all
  with sum_durations[OF assms(3)] show ?thesis by (rule order_trans)
qed

theorem rate_bounded_witness:
  "(2 ^ 51 - 1) * (30 * second) \<le>
     2 ^ 51 * (100 * (rlNext (reserveAll 100 [(0, 10), (5, 10), (9, 10)] \<lparr>rlLimit = 100, rlDynamic = True, rlNext = 0\<rparr>) - 0))"
  using rate_bounded[of 100 "\<lparr>rlLimit = 100, rlDynamic = True, rlNext = 0\<rparr>" 0 10 "[(5, 10), (9, 10)]"] by fastforce

text \<open>The reservations of \<open>wait\<close> meet the hypothesis: a chunk is at most a tenth of every limit of the chain, or one
  byte.\<close>

lemma reservationChunk_le_limit:
  assumes "0 < chunk" "l \<in> set (zip dyns ls)" "rlDynamic (snd l)" "0 < fst l"
  shows "reservationChunk dyns chunk ls \<le> max 1 (fst l div 10)"
  using assms
proof (induction ls arbitrary: dyns chunk)
  case (Cons k ks)
  obtain v vs where d: "dyns = v # vs" using Cons.prems(2) by (cases dyns) auto
  let ?lim = "if rlDynamic k then v else rlLimit k"
  let ?cand = "if ?lim div 10 < 1 then 1 else ?lim div 10"
  let ?c = "if ?lim \<le> 0 then chunk else if ?cand < chunk then ?cand else chunk"
  have eq: "reservationChunk dyns chunk (k # ks) = reservationChunk vs ?c ks" by (simp add: d Let_def)
  have c: "0 < ?c" using Cons.prems(1) by auto
  from Cons.prems(2) consider "l = (v, k)" | "l \<in> set (zip vs ks)" by (auto simp: d)
  then show ?case
  proof cases
    case 1
    then have "?c \<le> max 1 (fst l div 10)" using Cons.prems(3,4) by auto
    then show ?thesis using reservationChunk_bounds[OF c, of vs ks] unfolding eq by linarith
  next
    case 2
    show ?thesis unfolding eq by (rule Cons.IH[OF c 2 Cons.prems(3,4)])
  qed
qed simp

end
