(* ===== verification/Http_Copy.thy ===== *)
theory Http_Copy
  imports Http_Range Rate_Limit
begin

text \<open>
  Copying a response body to a file (downloader.go, from \<open>countingWriter\<close> to \<open>copyWithProgressBuffer\<close>). One round of the
  loop is \<open>copyRound\<close>, which the segmented download interleaves with those of other transfers; what the round
  meets outside (the context, the limiter, the result of the write, the clock) is the record \<open>roundEnv\<close>. A file is
  the list of its bytes, and the writer stands at an offset in it.
\<close>

section \<open>One round\<close>

record roundEnv =
  reCtx :: "err option"
  reWait :: "err option"
  reWrite :: "nat \<times> err option"
  reElapsed :: int

record copyState =
  csFile :: string
  csOffset :: nat
  csRead :: int
  csWritten :: int
  csPending :: int
  csD :: Download
  csTracker :: speedTracker

datatype outcome = Stop "err option" copyState | Continue copyState

definition writeAt :: "nat \<Rightarrow> string \<Rightarrow> string \<Rightarrow> string" where
  "writeAt off data f = take off f @ data @ drop (off + length data) f"

definition progressFlushBytes :: int where "progressFlushBytes = 1 * 1024 * 1024"

definition flushProgress :: "copyState \<Rightarrow> copyState" where
  "flushProgress s = (if csPending s > 0 then s\<lparr>csD := addCompleted (csPending s) (csD s), csPending := 0\<rparr> else s)"

definition checkSpeed :: "int \<Rightarrow> int \<Rightarrow> copyState \<Rightarrow> err option" where
  "checkSpeed lowestSpeed elapsed s =
     (if lowestSpeed > 0 \<and> elapsed \<ge> second then
        (let avg = bytesPerSecond (csWritten s) elapsed in
         if avg \<le> lowestSpeed
         then Some (Errorf ''download speed %d is below lowest-speed-limit %d'' [Itoa avg, Itoa lowestSpeed]) else None)
      else None)"

text \<open>The writer counts and stores the bytes the underlying write accepts.\<close>

definition countWrite :: "nat \<Rightarrow> string \<Rightarrow> copyState \<Rightarrow> copyState" where
  "countWrite nw data s =
     (if nw = 0 then s
      else s\<lparr>csFile := writeAt (csOffset s) (take nw data) (csFile s), csOffset := csOffset s + nw,
             csPending := csPending s + int nw, csWritten := csWritten s + int nw,
             csTracker := addBytes (int nw) (csTracker s)\<rparr>)"

definition writeRound :: "roundEnv \<Rightarrow> int \<Rightarrow> string \<Rightarrow> copyState \<Rightarrow> outcome" where
  "writeRound re lowestSpeed data s =
     (case reWait re of
        Some er \<Rightarrow> Stop (Some er) (flushProgress s)
      | None \<Rightarrow>
         (let nw = min (fst (reWrite re)) (length data); ew = snd (reWrite re);
              s1 = countWrite nw data s;
              flush = (nw > 0 \<and> (csPending s1 \<ge> progressFlushBytes \<or> lowestSpeed > 0));
              s2 = (if flush then flushProgress s1 else s1) in
          (case (if flush then checkSpeed lowestSpeed (reElapsed re) s2 else None) of
             Some er \<Rightarrow> Stop (Some er) s2
           | None \<Rightarrow>
              (if ew \<noteq> None then Stop ew (flushProgress s2)
               else if length data \<noteq> nw then Stop (Some ErrShortWrite) (flushProgress s2)
               else Continue s2))))"

definition copyRound :: "roundEnv \<Rightarrow> int \<Rightarrow> string \<times> err option \<Rightarrow> copyState \<Rightarrow> outcome" where
  "copyRound re lowestSpeed ev s0 =
     (case reCtx re of
        Some er \<Rightarrow> Stop (Some er) (flushProgress s0)
      | None \<Rightarrow>
         (let s = s0\<lparr>csRead := csRead s0 + int (length (fst ev))\<rparr> in
          (case (if fst ev \<noteq> [] then writeRound re lowestSpeed (fst ev) s else Continue s) of
             Stop x s' \<Rightarrow> Stop x s'
           | Continue s' \<Rightarrow>
              (case snd ev of
                 None \<Rightarrow> Continue s'
               | Some er \<Rightarrow> Stop (if errIs er EOF then None else Some er) (flushProgress s')))))"

section \<open>The loop\<close>

fun copyWithProgressBuffer :: "(nat \<Rightarrow> roundEnv) \<Rightarrow> int \<Rightarrow> nat \<Rightarrow> body \<Rightarrow> copyState \<Rightarrow> err option \<times> copyState" where
  "copyWithProgressBuffer envs lowestSpeed k [] s =
     (case copyRound (envs k) lowestSpeed ([], Some EOF) s of Stop x s' \<Rightarrow> (x, s') | Continue s' \<Rightarrow> (None, s'))"
| "copyWithProgressBuffer envs lowestSpeed k (ev # evs) s =
     (case copyRound (envs k) lowestSpeed ev s of
        Stop x s' \<Rightarrow> (x, s')
      | Continue s' \<Rightarrow> copyWithProgressBuffer envs lowestSpeed (Suc k) evs s')"

text \<open>A read into a buffer of \<open>n\<close> bytes returns at most \<open>n\<close> bytes; the rest comes with the next reads.\<close>

definition smallCopyBufferSize :: int where "smallCopyBufferSize = 4 * 1024"
definition largeCopyBufferSize :: int where "largeCopyBufferSize = 256 * 1024"

definition copyBufferSize :: "int \<Rightarrow> nat" where
  "copyBufferSize contentLength =
     (if contentLength > 0 \<and> contentLength \<le> smallCopyBufferSize then nat smallCopyBufferSize
      else if contentLength \<ge> 512 * 1024 then nat largeCopyBufferSize
      else 32 * 1024)"

function boundEvent :: "nat \<Rightarrow> string \<times> err option \<Rightarrow> body" where
  "boundEvent n (data, er) = (if n = 0 \<or> length data \<le> n then [(data, er)] else (take n data, None) # boundEvent n (drop n data, er))"
  by pat_completeness auto
termination
  by (relation "measure (\<lambda>(n, data, er). length data)") auto

declare boundEvent.simps [simp del]

definition boundReads :: "nat \<Rightarrow> body \<Rightarrow> body" where
  "boundReads n b = concat (map (boundEvent n) b)"

definition copyWithProgress :: "(nat \<Rightarrow> roundEnv) \<Rightarrow> int \<Rightarrow> int \<Rightarrow> body \<Rightarrow> copyState \<Rightarrow> err option \<times> copyState" where
  "copyWithProgress envs lowestSpeed contentLength b s =
     copyWithProgressBuffer envs lowestSpeed 0 (boundReads (copyBufferSize contentLength) b) s"

definition copyCountingWithProgress ::
    "(nat \<Rightarrow> roundEnv) \<Rightarrow> int \<Rightarrow> int \<Rightarrow> body \<Rightarrow> copyState \<Rightarrow> int \<times> err option \<times> copyState" where
  "copyCountingWithProgress envs lowestSpeed contentLength b s =
     (case copyWithProgress envs lowestSpeed contentLength b s of (er, s') \<Rightarrow> (csWritten s', er, s'))"

text \<open>\<open>io.LimitedReader\<close> with \<open>n\<close> bytes left.\<close>

fun limitReads :: "nat \<Rightarrow> body \<Rightarrow> body" where
  "limitReads n [] = [([], Some EOF)]"
| "limitReads n ((data, er) # evs) =
     (if n = 0 then [([], Some EOF)]
      else if length data \<le> n then (data, er) # limitReads (n - length data) evs
      else [(take n data, None), ([], Some EOF)])"

definition copyExactWithProgressCount ::
    "(nat \<Rightarrow> roundEnv) \<Rightarrow> int \<Rightarrow> int \<Rightarrow> body \<Rightarrow> copyState \<Rightarrow> int \<times> err option \<times> copyState" where
  "copyExactWithProgressCount envs lowestSpeed expected b s =
     (case copyCountingWithProgress envs lowestSpeed expected (limitReads (nat expected) b) s of
        (n, Some er, s') \<Rightarrow> (n, Some er, s')
      | (n, None, s') \<Rightarrow> (n, if n \<noteq> expected \<or> expected - csRead s' \<noteq> 0 then Some ErrUnexpectedEOF else None, s'))"

definition copyExactWithProgress ::
    "(nat \<Rightarrow> roundEnv) \<Rightarrow> int \<Rightarrow> int \<Rightarrow> body \<Rightarrow> copyState \<Rightarrow> err option \<times> copyState" where
  "copyExactWithProgress envs lowestSpeed expected b s =
     (case copyExactWithProgressCount envs lowestSpeed expected b s of (_, er, s') \<Rightarrow> (er, s'))"

section \<open>What a copy does\<close>

text \<open>The bytes of a body up to its first error, and that this error is the regular end.\<close>

fun bodyData :: "body \<Rightarrow> string" where
  "bodyData [] = []"
| "bodyData ((data, er) # evs) = data @ (if er = None then bodyData evs else [])"

fun bodyEnds :: "body \<Rightarrow> bool" where
  "bodyEnds [] \<longleftrightarrow> True"
| "bodyEnds ((data, er) # evs) \<longleftrightarrow> (case er of None \<Rightarrow> bodyEnds evs | Some x \<Rightarrow> errIs x EOF)"

text \<open>There is room for \<open>m\<close> more bytes in the count of completed bytes.\<close>

definition room :: "Download \<Rightarrow> int \<Rightarrow> bool" where
  "room d m \<longleftrightarrow> 0 \<le> dCompletedLen d \<and> dCompletedLen d + m \<le> MaxInt64 \<and> (dTotalLength d > 0 \<longrightarrow> dCompletedLen d + m \<le> dTotalLength d)"

lemma addCompleted_room:
  assumes "room d n" "0 \<le> n"
  shows "dCompletedLen (addCompleted n d) = dCompletedLen d + n"
proof -
  have "wrap64 (dCompletedLen d + n) = dCompletedLen d + n" using assms by (intro wrap64_nonneg_id) (auto simp: room_def)
  then show ?thesis using assms by (auto simp: addCompleted_def Let_def room_def)
qed

lemma addCompleted_total [simp]: "dTotalLength (addCompleted n d) = dTotalLength d"
  by (simp add: addCompleted_def Let_def)

lemma writeAt_nil [simp]: "writeAt off [] f = f"
  by (simp add: writeAt_def)

lemma writeAt_writeAt:
  "off \<le> length f \<Longrightarrow> writeAt (off + length a) b (writeAt off a f) = writeAt off (a @ b) f"
  by (simp add: writeAt_def min_def ac_simps)

lemma length_writeAt: "off \<le> length f \<Longrightarrow> off + length a \<le> length (writeAt off a f)"
  by (simp add: writeAt_def min_def)

text \<open>\<open>copied s data s'\<close>: between the two states \<open>data\<close> was written at the offset, and as many bytes were counted.\<close>

definition copied :: "copyState \<Rightarrow> string \<Rightarrow> copyState \<Rightarrow> bool" where
  "copied s data s' \<longleftrightarrow>
     csFile s' = writeAt (csOffset s) data (csFile s) \<and> csOffset s' = csOffset s + length data \<and>
     csWritten s' = csWritten s + int (length data) \<and> dTotalLength (csD s') = dTotalLength (csD s) \<and>
     (0 \<le> csPending s \<longrightarrow> 0 \<le> csPending s' \<and>
       (room (csD s) (csPending s + int (length data)) \<longrightarrow>
          0 \<le> dCompletedLen (csD s') \<and>
          dCompletedLen (csD s') + csPending s' = dCompletedLen (csD s) + csPending s + int (length data)))"

lemma copied_refl: "csFile s' = csFile s \<Longrightarrow> csOffset s' = csOffset s \<Longrightarrow> csWritten s' = csWritten s \<Longrightarrow>
    csPending s' = csPending s \<Longrightarrow> csD s' = csD s \<Longrightarrow> copied s [] s'"
  by (simp add: copied_def room_def)

lemma copied_trans:
  assumes "copied s a t" "copied t b u" "csOffset s \<le> length (csFile s)"
  shows "copied s (a @ b) u"
proof -
  have "room (csD t) (csPending t + int (length b))"
    if "0 \<le> csPending s" "room (csD s) (csPending s + int (length (a @ b)))"
    using that assms(1) by (auto simp: copied_def room_def)
  moreover have "room (csD s) (csPending s + int (length a))" if "room (csD s) (csPending s + int (length (a @ b)))"
    using that by (auto simp: room_def)
  ultimately show ?thesis using assms writeAt_writeAt[OF assms(3), of a b] by (simp add: copied_def)
qed

lemma copied_flush: "copied s [] (flushProgress s)"
proof -
  have "dCompletedLen (addCompleted (csPending s) (csD s)) = dCompletedLen (csD s) + csPending s"
    if "room (csD s) (csPending s)" "0 \<le> csPending s"
    using that by (rule addCompleted_room)
  then show ?thesis by (auto simp: copied_def flushProgress_def room_def)
qed

lemma flush_pending: "0 \<le> csPending s \<Longrightarrow> csPending (flushProgress s) = 0"
  by (simp add: flushProgress_def)

lemma flush_read [simp]: "csRead (flushProgress s) = csRead s"
  by (simp add: flushProgress_def)

lemma copied_countWrite: "nw \<le> length data \<Longrightarrow> copied s (take nw data) (countWrite nw data s)"
  by (auto simp: copied_def countWrite_def room_def min_def)

lemma copied_offset: "copied s a t \<Longrightarrow> csOffset s \<le> length (csFile s) \<Longrightarrow> csOffset t \<le> length (csFile t)"
  using length_writeAt by (simp add: copied_def)

lemma copied_flushed:
  "copied s a t \<Longrightarrow> csOffset s \<le> length (csFile s) \<Longrightarrow> copied s a (flushProgress t)"
  using copied_trans[OF _ copied_flush] by fastforce


lemma countWrite_read [simp]: "csRead (countWrite nw data s) = csRead s"
  by (simp add: countWrite_def)

lemma writeRound_cases:
  assumes "csOffset s \<le> length (csFile s)" "0 \<le> csPending s"
  shows "case writeRound re lowestSpeed data s of
      Stop x t \<Rightarrow> (\<exists>a. prefix a data \<and> copied s a t) \<and> csPending t = 0 \<and> x \<noteq> None
    | Continue t \<Rightarrow> copied s data t \<and> csRead t = csRead s"
proof -
  define nw where "nw = min (fst (reWrite re)) (length data)"
  define s1 where "s1 = countWrite nw data s"
  define flush where "flush \<longleftrightarrow> nw > 0 \<and> (csPending s1 \<ge> progressFlushBytes \<or> lowestSpeed > 0)"
  define s2 where "s2 = (if flush then flushProgress s1 else s1)"
  have c1: "copied s (take nw data) s1" unfolding s1_def by (rule copied_countWrite) (simp add: nw_def)
  have c2: "copied s (take nw data) s2" using copied_flushed[OF c1 assms(1)] c1 by (simp add: s2_def)
  have p1: "0 \<le> csPending s1" using c1 assms(2) by (simp add: copied_def)
  have p2: "0 \<le> csPending s2" "flush \<Longrightarrow> csPending s2 = 0" using p1 flush_pending[OF p1] by (simp_all add: s2_def)
  have c3: "copied s (take nw data) (flushProgress s2)" using copied_flushed[OF c2 assms(1)] .
  have c0: "copied s [] (flushProgress s)" by (rule copied_flush)
  have read: "csRead s2 = csRead s" by (simp add: s2_def s1_def)
  have pre: "prefix (take nw data) data" by (rule take_is_prefix)
  have eq: "writeRound re lowestSpeed data s =
     (case reWait re of
        Some er \<Rightarrow> Stop (Some er) (flushProgress s)
      | None \<Rightarrow>
         (case (if flush then checkSpeed lowestSpeed (reElapsed re) s2 else None) of
             Some er \<Rightarrow> Stop (Some er) s2
           | None \<Rightarrow>
              (if snd (reWrite re) \<noteq> None then Stop (snd (reWrite re)) (flushProgress s2)
               else if length data \<noteq> nw then Stop (Some ErrShortWrite) (flushProgress s2)
               else Continue s2)))"
    unfolding writeRound_def Let_def nw_def s1_def s2_def flush_def by simp
  show ?thesis unfolding eq
    using c0 c2 c3 pre read p2 flush_pending[OF assms(2)] flush_pending[OF p2(1)]
    by (auto split: option.splits if_splits intro: exI[of _ "[]"])
qed

lemma copyRound_cases:
  assumes "csOffset s \<le> length (csFile s)" "0 \<le> csPending s"
  shows "case copyRound re lowestSpeed ev s of
      Stop x t \<Rightarrow> (\<exists>a. prefix a (fst ev) \<and> copied s a t \<and> (x = None \<longrightarrow> a = fst ev \<and> csRead t = csRead s + int (length a) \<and>
        (\<exists>er. snd ev = Some er \<and> errIs er EOF))) \<and> csPending t = 0
    | Continue t \<Rightarrow> copied s (fst ev) t \<and> csRead t = csRead s + int (length (fst ev)) \<and> snd ev = None"
proof -
  define s1 where "s1 = s\<lparr>csRead := csRead s + int (length (fst ev))\<rparr>"
  have s1: "csOffset s1 \<le> length (csFile s1)" "0 \<le> csPending s1" "csRead s1 = csRead s + int (length (fst ev))" using assms by (simp_all add: s1_def)
  have to_s: "copied s a t" if "copied s1 a t" for a t using that by (simp add: copied_def s1_def)
  define r where "r = (if fst ev \<noteq> [] then writeRound re lowestSpeed (fst ev) s1 else Continue s1)"
  have r: "case r of Stop x t \<Rightarrow> (\<exists>a. prefix a (fst ev) \<and> copied s a t) \<and> csPending t = 0 \<and> x \<noteq> None
      | Continue t \<Rightarrow> copied s (fst ev) t \<and> csRead t = csRead s1"
    using writeRound_cases[OF s1(1,2), where re = re and lowestSpeed = lowestSpeed and data = "fst ev"] to_s copied_refl[of s1 s]
    by (auto simp: r_def s1_def split: outcome.splits)
  have eq: "copyRound re lowestSpeed ev s =
     (case reCtx re of
        Some er \<Rightarrow> Stop (Some er) (flushProgress s)
      | None \<Rightarrow> (case r of Stop x s' \<Rightarrow> Stop x s'
           | Continue s' \<Rightarrow> (case snd ev of None \<Rightarrow> Continue s'
               | Some er \<Rightarrow> Stop (if errIs er EOF then None else Some er) (flushProgress s'))))"
    unfolding copyRound_def Let_def r_def s1_def by simp
  show ?thesis
  proof (cases "reCtx re")
    case (Some er)
    then show ?thesis unfolding eq using copied_flush[of s] flush_pending[OF assms(2)] by (auto intro!: exI[of _ "[]"])
  next
    case None
    show ?thesis
    proof (cases r)
      case (Stop x t)
      then show ?thesis unfolding eq using None r by auto
    next
      case (Continue t)
      then have t: "copied s (fst ev) t" "csRead t = csRead s + int (length (fst ev))" using r s1(3) by auto
      moreover have "0 \<le> csPending t" using t(1) assms(2) by (simp add: copied_def)
      ultimately show ?thesis unfolding eq using None Continue copied_flushed[OF t(1) assms(1)] flush_pending[of t]
        by (auto split: option.splits)
    qed
  qed
qed

lemma copyBuffer_cases:
  assumes "csOffset s \<le> length (csFile s)" "0 \<le> csPending s" "copyWithProgressBuffer envs lowestSpeed k evs s = (x, t)"
  shows "(\<exists>a. prefix a (bodyData evs) \<and> copied s a t \<and>
      (x = None \<longrightarrow> a = bodyData evs \<and> csRead t = csRead s + int (length a) \<and> bodyEnds evs)) \<and> csPending t = 0"
  using assms
proof (induction evs arbitrary: s k)
  case Nil
  then show ?case using copyRound_cases[OF Nil(1,2), where re = "envs k" and lowestSpeed = lowestSpeed and ev = "([], Some EOF)"]
    by (auto split: outcome.splits)
next
  case (Cons ev evs)
  note round = copyRound_cases[OF Cons.prems(1,2), where re = "envs k" and lowestSpeed = lowestSpeed and ev = ev]
  obtain data er where ev: "ev = (data, er)" by force
  show ?case
  proof (cases "copyRound (envs k) lowestSpeed ev s")
    case (Stop y u)
    then have xt: "x = y" "t = u" using Cons.prems(3) by auto
    obtain a where a: "prefix a data" "copied s a u" "y = None \<longrightarrow> a = data \<and> csRead u = csRead s + int (length a) \<and>
        (\<exists>er'. er = Some er' \<and> errIs er' EOF)" "csPending u = 0"
      using round Stop unfolding ev by auto
    then show ?thesis unfolding xt ev by (intro conjI exI[of _ a]) (auto simp: prefix_def)
  next
    case (Continue u)
    then have u: "copied s data u" "csRead u = csRead s + int (length data)" "er = None" using round Continue unfolding ev by auto
    have "csOffset u \<le> length (csFile u)" using copied_offset[OF u(1) Cons.prems(1)] .
    moreover have "0 \<le> csPending u" using u(1) Cons.prems(2) by (simp add: copied_def)
    moreover have "copyWithProgressBuffer envs lowestSpeed (Suc k) evs u = (x, t)" using Continue Cons.prems(3) by simp
    ultimately obtain a where a: "prefix a (bodyData evs)" "copied u a t" "csPending t = 0"
      "x = None \<longrightarrow> a = bodyData evs \<and> csRead t = csRead u + int (length a) \<and> bodyEnds evs" using Cons.IH by blast
    then show ?thesis using copied_trans[OF u(1) a(2) Cons.prems(1)] u
      by (intro conjI exI[of _ "data @ a"]) (auto simp: ev)
  qed
qed


lemma bodyData_append: "bodyData (a @ b) = bodyData a @ (if list_all (\<lambda>ev. snd ev = None) a then bodyData b else [])"
  by (induction a) auto

lemma boundEvent_data:
  "0 < n \<Longrightarrow> bodyData (boundEvent n (data, er) @ evs) = data @ (if er = None then bodyData evs else [])"
proof (induction n "(data, er)" arbitrary: data rule: boundEvent.induct)
  case (1 n data)
  then show ?case by (subst boundEvent.simps) auto
qed

lemma boundReads_data: "0 < n \<Longrightarrow> bodyData (boundReads n b) = bodyData b"
  unfolding boundReads_def
proof (induction b)
  case (Cons ev b)
  obtain data er where "ev = (data, er)" by force
  then show ?case using boundEvent_data[OF Cons.prems, of data er "concat (map (boundEvent n) b)"] Cons by simp
qed simp

lemma boundEvent_ends:
  "bodyEnds (boundEvent n (data, er) @ evs) = (case er of None \<Rightarrow> bodyEnds evs | Some x \<Rightarrow> errIs x EOF)"
proof (induction n "(data, er)" arbitrary: data rule: boundEvent.induct)
  case (1 n data)
  then show ?case by (subst boundEvent.simps) (auto split: option.splits)
qed

lemma boundReads_ends: "bodyEnds (boundReads n b) = bodyEnds b"
  unfolding boundReads_def
proof (induction b)
  case (Cons ev b)
  obtain data er where "ev = (data, er)" by force
  then show ?case using boundEvent_ends[of n data er "concat (map (boundEvent n) b)"] Cons by (simp split: option.splits)
qed simp

lemma limitReads_data: "bodyData (limitReads n b) = take n (bodyData b)"
proof (induction n b rule: limitReads.induct)
  case (2 n data er evs)
  then show ?case by (cases "n = 0") auto
qed simp

lemma copyBufferSize_pos: "0 < copyBufferSize n"
  by (simp add: copyBufferSize_def smallCopyBufferSize_def largeCopyBufferSize_def)

definition freshCopy :: "copyState \<Rightarrow> bool" where
  "freshCopy s \<longleftrightarrow> csOffset s \<le> length (csFile s) \<and> csRead s = 0 \<and> csWritten s = 0 \<and> csPending s = 0"

lemma copyWithProgress_cases:
  assumes "freshCopy s" "copyWithProgress envs lowestSpeed contentLength b s = (x, t)"
  shows "\<exists>a. prefix a (bodyData b) \<and> copied s a t \<and> csPending t = 0 \<and>
    (x = None \<longrightarrow> a = bodyData b \<and> csRead t = int (length a) \<and> bodyEnds b)"
proof -
  have s: "csOffset s \<le> length (csFile s)" "0 \<le> csPending s" "csRead s = 0" using assms(1) by (simp_all add: freshCopy_def)
  show ?thesis using copyBuffer_cases[OF s(1,2) assms(2)[unfolded copyWithProgress_def]]
    by (auto simp: boundReads_data[OF copyBufferSize_pos] boundReads_ends s(3))
qed

lemma copied_completed:
  assumes "copied s a t" "freshCopy s" "csPending t = 0" "room (csD s) (int (length a))"
  shows "dCompletedLen (csD t) = dCompletedLen (csD s) + int (length a)"
  using assms by (simp add: copied_def freshCopy_def)

lemma copyExact_written:
  assumes "freshCopy s" "copyExactWithProgressCount envs lowestSpeed expected b s = (n, er, t)"
  shows "\<exists>a. prefix a (take (nat expected) (bodyData b)) \<and> copied s a t \<and> csPending t = 0 \<and> n = int (length a) \<and>
    (er = None \<longrightarrow> n = expected \<and> a = take (nat expected) (bodyData b))"
proof -
  obtain x where x: "copyWithProgress envs lowestSpeed expected (limitReads (nat expected) b) s = (x, t)"
      "n = csWritten t" "er = None \<Longrightarrow> x = None \<and> n = expected"
    using assms(2) by (auto simp: copyExactWithProgressCount_def copyCountingWithProgress_def split: prod.splits option.splits if_splits)
  obtain a where a: "prefix a (take (nat expected) (bodyData b))" "copied s a t" "csPending t = 0"
      "x = None \<longrightarrow> a = take (nat expected) (bodyData b)"
    using copyWithProgress_cases[OF assms(1) x(1)] unfolding limitReads_data by blast
  have "n = int (length a)" using x(2) a(2) assms(1) by (simp add: copied_def freshCopy_def)
  then show ?thesis using a x(3) by blast
qed

text \<open>C16: Copying an exact range. Whatever the body delivers and whichever write, context or speed check fails, the
  copy writes a prefix of the range at the offset and nothing else, reports the number of bytes it wrote,
  and has counted exactly these bytes as completed, so that taking them back restores the count. It
  returns no error only if it wrote every byte of the range.\<close>

theorem copyExact_exact:
  assumes "freshCopy s" "0 \<le> expected" "room (csD s) expected"
    and "copyExactWithProgressCount envs lowestSpeed expected b s = (n, er, t)"
  shows "\<exists>a. prefix a (take (nat expected) (bodyData b)) \<and> csFile t = writeAt (csOffset s) a (csFile s) \<and> n = int (length a) \<and>
    dCompletedLen (csD t) = dCompletedLen (csD s) + n \<and> dCompletedLen (rollbackCompleted n (csD t)) = dCompletedLen (csD s) \<and>
    (er = None \<longrightarrow> n = expected \<and> a = take (nat expected) (bodyData b))"
proof -
  obtain a where a: "prefix a (take (nat expected) (bodyData b))" "copied s a t" "csPending t = 0" and n: "n = int (length a)"
      and ok: "er = None \<longrightarrow> n = expected \<and> a = take (nat expected) (bodyData b)"
    using copyExact_written[OF assms(1,4)] by blast
  have "length a \<le> nat expected" using prefix_length_le[OF a(1)] by simp
  then have "room (csD s) (int (length a))" using assms(2,3) by (auto simp: room_def)
  then have c: "dCompletedLen (csD t) = dCompletedLen (csD s) + n" unfolding n by (rule copied_completed[OF a(2) assms(1) a(3)])
  moreover have "dCompletedLen (rollbackCompleted n (csD t)) = dCompletedLen (csD s)"
  proof -
    have "0 \<le> dCompletedLen (csD s)" "dCompletedLen (csD s) \<le> MaxInt64" using assms(2,3) by (auto simp: room_def)
    then show ?thesis using c n wrap64_nonneg_id[of "dCompletedLen (csD s)"] by (simp add: rollbackCompleted_def Let_def)
  qed
  moreover have "csFile t = writeAt (csOffset s) a (csFile s)" using a(2) by (simp add: copied_def)
  ultimately show ?thesis using a(1) n ok by blast
qed


text \<open>An environment in which every call succeeds, and a file of four bytes.\<close>

definition goodRound :: roundEnv where
  "goodRound = \<lparr>reCtx = None, reWait = None, reWrite = (65536, None), reElapsed = 1\<rparr>"

definition exampleCopy :: copyState where
  "exampleCopy = \<lparr>csFile = ''....'', csOffset = 1, csRead = 0, csWritten = 0, csPending = 0,
     csD = zeroDownload\<lparr>dTotalLength := 4\<rparr>, csTracker = \<lparr>stBytes = 0, stLastBytes = 0, stLastAt = 0\<rparr>\<rparr>"

theorem copyExact_exact_witness:
  "csFile (snd (snd (copyExactWithProgressCount (\<lambda>_. goodRound) 0 2 [(''a'', None), (''bc'', None)] exampleCopy))) = ''.ab.''"
proof -
  let ?r = "copyExactWithProgressCount (\<lambda>_. goodRound) 0 2 [(''a'', None), (''bc'', None)] exampleCopy"
  have ok: "fst (snd ?r) = None"
    by (simp add: copyExactWithProgressCount_def copyCountingWithProgress_def copyWithProgress_def boundReads_def
      copyBufferSize_def smallCopyBufferSize_def boundEvent.simps copyRound_def writeRound_def goodRound_def countWrite_def
      exampleCopy_def progressFlushBytes_def flushProgress_def Let_def)
  have "freshCopy exampleCopy" "room (csD exampleCopy) 2"
    by (simp_all add: freshCopy_def exampleCopy_def room_def zeroDownload_def)
  then obtain a where "csFile (snd (snd ?r)) = writeAt 1 a ''....''" "a = take 2 (bodyData [(''a'', None), (''bc'', None)])"
    using copyExact_exact[of exampleCopy 2 "\<lambda>_. goodRound" 0 "[(''a'', None), (''bc'', None)]" "fst ?r" "fst (snd ?r)" "snd (snd ?r)"] ok
    by (auto simp: exampleCopy_def)
  then show ?thesis by (simp add: writeAt_def)
qed

end
