(* ===== verification/Http_Single.thy ===== *)
theory Http_Single
  imports Http_Copy
begin

text \<open>
  Probing a URI and transferring it over one connection (downloader.go: \<open>probe\<close>, \<open>downloadSingle\<close>,
  \<open>downloadSingleWithGETProbe\<close>; download_util.go: the choice of the output path). A transfer works on a record
  \<open>run\<close>: the engine, the files, and a counter of the calls that left the program. What such a call meets is a
  function of that counter in the record \<open>netEnv\<close>: the answer to a request, the error of a file system
  call, the rounds of a copy. Directories are entries of the file map; the outcome of creating one is left
  to the environment.
\<close>

section \<open>Files and calls\<close>

record fileEntry =
  feDir :: bool
  feData :: string
  feMtime :: int

record run =
  rnE :: Engine
  rnFiles :: "string \<Rightarrow> fileEntry option"
  rnTick :: nat

datatype fsCall = CallStat | CallOpen | CallTruncate | CallSeek | CallClose | CallMkdirAll | CallRemove | CallChtimes | CallRead

record netEnv =
  neDo :: "nat \<Rightarrow> request \<Rightarrow> options \<Rightarrow> response res"
  neFault :: "nat \<Rightarrow> fsCall \<Rightarrow> string \<Rightarrow> err option"
  neRounds :: "nat \<Rightarrow> nat \<Rightarrow> roundEnv"
  neHash :: "string \<Rightarrow> string \<Rightarrow> string"
  neHttp :: httpEnv
  neQuery :: queryEnv
  neRKey :: "string \<Rightarrow> string res"

definition tick :: "run \<Rightarrow> run" where
  "tick r = r\<lparr>rnTick := Suc (rnTick r)\<rparr>"

definition bindS :: "'a res \<times> run \<Rightarrow> ('a \<Rightarrow> run \<Rightarrow> 'b res \<times> run) \<Rightarrow> 'b res \<times> run" where
  "bindS p f = (case p of (Inl er, r) \<Rightarrow> (Inl er, r) | (Inr x, r) \<Rightarrow> f x r)"

text \<open>A file system call that may only fail.\<close>

definition fsCallS :: "netEnv \<Rightarrow> fsCall \<Rightarrow> string \<Rightarrow> run \<Rightarrow> unit res \<times> run" where
  "fsCallS ne c p r = (case neFault ne (rnTick r) c p of Some er \<Rightarrow> (Inl er, tick r) | None \<Rightarrow> (Inr (), tick r))"

text \<open>\<open>os.Stat\<close>: \<open>Inr None\<close> is \<open>os.ErrNotExist\<close>.\<close>

definition statFile :: "netEnv \<Rightarrow> string \<Rightarrow> run \<Rightarrow> fileEntry option res \<times> run" where
  "statFile ne p r = (case neFault ne (rnTick r) CallStat p of Some er \<Rightarrow> (Inl er, tick r) | None \<Rightarrow> (Inr (rnFiles r p), tick r))"

definition fileSize :: "fileEntry \<Rightarrow> int" where
  "fileSize f = int (length (feData f))"

text \<open>The entry a stat shows when its error is ignored.\<close>

definition statOk :: "fileEntry option res \<Rightarrow> fileEntry option" where
  "statOk x = (case x of Inl er \<Rightarrow> None | Inr f \<Rightarrow> f)"

definition setFile :: "string \<Rightarrow> string \<Rightarrow> run \<Rightarrow> run" where
  "setFile p data r =
     r\<lparr>rnFiles := (rnFiles r)(p \<mapsto> (case rnFiles r p of None \<Rightarrow> \<lparr>feDir = False, feData = data, feMtime = 0\<rparr> | Some f \<Rightarrow> f\<lparr>feData := data\<rparr>))\<rparr>"

definition fileData :: "run \<Rightarrow> string \<Rightarrow> string" where
  "fileData r p = (case rnFiles r p of None \<Rightarrow> [] | Some f \<Rightarrow> feData f)"

definition isDirectory :: "run \<Rightarrow> string \<Rightarrow> bool" where
  "isDirectory r p = (case rnFiles r p of None \<Rightarrow> False | Some f \<Rightarrow> feDir f)"

text \<open>\<open>os.OpenFile\<close> for writing with \<open>O_CREATE\<close>; \<open>trunc\<close> is \<open>O_TRUNC\<close>.\<close>

definition openFile :: "netEnv \<Rightarrow> bool \<Rightarrow> string \<Rightarrow> run \<Rightarrow> unit res \<times> run" where
  "openFile ne trunc p r =
     (case neFault ne (rnTick r) CallOpen p of
        Some er \<Rightarrow> (Inl er, tick r)
      | None \<Rightarrow>
         (if isDirectory r p then (Inl (Errorf ''open %s: is a directory'' [p]), tick r)
          else (Inr (), tick (setFile p (if trunc then [] else fileData r p) r))))"

text \<open>\<open>O_CREATE|O_EXCL\<close>: \<open>False\<close> when the file exists.\<close>

definition createFile :: "netEnv \<Rightarrow> string \<Rightarrow> run \<Rightarrow> bool res \<times> run" where
  "createFile ne p r =
     (case neFault ne (rnTick r) CallOpen p of
        Some er \<Rightarrow> (Inl er, tick r)
      | None \<Rightarrow> (if rnFiles r p \<noteq> None then (Inr False, tick r) else (Inr True, tick (setFile p [] r))))"

definition truncateFile :: "netEnv \<Rightarrow> string \<Rightarrow> run \<Rightarrow> unit res \<times> run" where
  "truncateFile ne p r =
     (case neFault ne (rnTick r) CallTruncate p of Some er \<Rightarrow> (Inl er, tick r) | None \<Rightarrow> (Inr (), tick (setFile p [] r)))"

text \<open>\<open>os.Remove\<close> with its error ignored.\<close>

definition removeFile :: "netEnv \<Rightarrow> string \<Rightarrow> run \<Rightarrow> err option \<times> run" where
  "removeFile ne p r =
     (case neFault ne (rnTick r) CallRemove p of
        Some er \<Rightarrow> (Some er, tick r)
      | None \<Rightarrow> (None, tick (r\<lparr>rnFiles := (rnFiles r)(p := None)\<rparr>)))"

definition closeFile :: "netEnv \<Rightarrow> string \<Rightarrow> run \<Rightarrow> err option \<times> run" where
  "closeFile ne p r = (neFault ne (rnTick r) CallClose p, tick r)"

text \<open>The deferred \<open>retErr = errors.Join(retErr, file.Close())\<close>.\<close>

definition deferClose :: "netEnv \<Rightarrow> string \<Rightarrow> 'a res \<times> run \<Rightarrow> 'a res \<times> run" where
  "deferClose ne p res =
     (case closeFile ne p (snd res) of (ce, r) \<Rightarrow>
        (case fst res of
           Inl er \<Rightarrow> (case joinErrors [Some er, ce] of None \<Rightarrow> (fst res, r) | Some x \<Rightarrow> (Inl x, r))
         | Inr v \<Rightarrow> (case joinErrors [None, ce] of None \<Rightarrow> (Inr v, r) | Some x \<Rightarrow> (Inl x, r))))"

definition httpDo :: "netEnv \<Rightarrow> request \<Rightarrow> options \<Rightarrow> run \<Rightarrow> response res \<times> run" where
  "httpDo ne rq opts r = (neDo ne (rnTick r) rq opts, tick r)"

definition newRequest :: "netEnv \<Rightarrow> string \<Rightarrow> string \<Rightarrow> run \<Rightarrow> request res \<times> run" where
  "newRequest ne m u r =
     (case heNewRequest (neHttp ne) u of
        Some er \<Rightarrow> (Inl er, r)
      | None \<Rightarrow> (Inr \<lparr>rqMethod = m, rqURL = u, rqHost = heURLHost (neHttp ne) u, rqHeader = []\<rparr>, r))"

definition onD :: "nat \<Rightarrow> (Download \<Rightarrow> Download) \<Rightarrow> run \<Rightarrow> run" where
  "onD i f r = r\<lparr>rnE := setD i f (rnE r)\<rparr>"

section \<open>The output path\<close>

definition isSimpleRelativeName :: "string \<Rightarrow> bool" where
  "isSimpleRelativeName name \<longleftrightarrow> name \<noteq> '''' \<and> name \<noteq> ''.'' \<and> name \<noteq> ''..'' \<and> \<not> ContainsAny name [CHR ''/'', CHR 0x5C]"

definition resolveOutputPath :: "queryEnv \<Rightarrow> string \<Rightarrow> string \<Rightarrow> string \<Rightarrow> string \<Rightarrow> string" where
  "resolveOutputPath qe dir0 out0 filename rawURI =
     (let dir = (if dir0 = '''' then ''.'' else dir0);
          out1 = (if out0 = '''' then filename else out0);
          out = (if out1 = '''' then filenameFromURI qe rawURI else out1) in
      if pathIsAbs out then pathClean out
      else if isSimpleRelativeName out \<and> dir \<noteq> '''' \<and> dir \<noteq> ''.'' then dir @ ''/'' @ out
      else pathJoin [dir, pathClean out])"

function nextAvailableFrom :: "netEnv \<Rightarrow> string \<Rightarrow> nat \<Rightarrow> run \<Rightarrow> string res \<times> run" where
  "nextAvailableFrom ne p i r =
     (if i < 10000 then
        (let candidate = p @ ''.'' @ Itoa (int i) in
         (case statFile ne candidate r of
            (Inl er, r') \<Rightarrow> (Inl er, r')
          | (Inr None, r') \<Rightarrow> (Inr candidate, r')
          | (Inr (Some f), r') \<Rightarrow> nextAvailableFrom ne p (Suc i) r'))
      else (Inl (Errorf ''could not find available auto-renamed path for %s'' [p]), r))"
  by pat_completeness auto
termination
  by (relation "measure (\<lambda>(ne, p, i, r). 10000 - i)") auto

declare nextAvailableFrom.simps [simp del]

definition nextAvailableOutputPath :: "netEnv \<Rightarrow> string \<Rightarrow> run \<Rightarrow> string res \<times> run" where
  "nextAvailableOutputPath ne p r = nextAvailableFrom ne p 1 r"

definition resolveExistingOutputPath :: "netEnv \<Rightarrow> string \<Rightarrow> options \<Rightarrow> bool \<Rightarrow> run \<Rightarrow> string res \<times> run" where
  "resolveExistingOutputPath ne p opts allowResume r =
     bindS (statFile ne p r) (\<lambda>st r.
       (case st of
          None \<Rightarrow> (Inr p, r)
        | Some f \<Rightarrow>
           (if feDir f then (Inl (Errorf ''output path is a directory: %s'' [p]), r)
            else if allowResume \<or> optionBool opts ''allow-overwrite'' then (Inr p, r)
            else if optionBoolDefault opts ''auto-file-renaming'' True then nextAvailableOutputPath ne p r
            else (Inl (Errorf ''file already exists: %s'' [p]), r))))"

definition canResumeExistingOutput :: "netEnv \<Rightarrow> string \<Rightarrow> options \<Rightarrow> remoteMeta \<Rightarrow> bool \<Rightarrow> run \<Rightarrow> bool \<times> run" where
  "canResumeExistingOutput ne p opts m segmented r =
     (if segmented \<or> \<not> optionBool opts ''continue'' \<or> \<not> mAcceptRange m \<or> mLength m \<le> 0 then (False, r)
      else
        (case statFile ne p r of (st, r') \<Rightarrow>
           (case statOk st of None \<Rightarrow> (False, r') | Some f \<Rightarrow> (\<not> feDir f \<and> fileSize f > 0 \<and> fileSize f < mLength m, r'))))"

definition ensureDownloadDir :: "netEnv \<Rightarrow> string \<Rightarrow> run \<Rightarrow> unit res \<times> run" where
  "ensureDownloadDir ne dir r = fsCallS ne CallMkdirAll (pathClean dir) r"

text \<open>\<open>reserveOutputPath\<close> on the engine, with the files as they are.\<close>

definition reservePath :: "netEnv \<Rightarrow> string \<Rightarrow> string \<Rightarrow> bool \<Rightarrow> run \<Rightarrow> string res \<times> run" where
  "reservePath ne p g autoRename r =
     (case reserveOutputPath (neRKey ne)
         (\<lambda>q. case neFault ne (rnTick r) CallStat q of Some er \<Rightarrow> Inl er | None \<Rightarrow> Inr (rnFiles r q \<noteq> None)) p g autoRename (rnE r) of
        Inl er \<Rightarrow> (Inl er, tick r)
      | Inr (q, e) \<Rightarrow> (Inr q, tick (r\<lparr>rnE := e\<rparr>)))"

section \<open>Conditional requests\<close>

definition applyConditionalHeaders :: "netEnv \<Rightarrow> options \<Rightarrow> string \<Rightarrow> request \<Rightarrow> run \<Rightarrow> request \<times> run" where
  "applyConditionalHeaders ne opts p rq r =
     (if \<not> optionBool opts ''conditional-get'' then (rq, r)
      else
        (case statFile ne p r of (st, r') \<Rightarrow>
           (case statOk st of
              None \<Rightarrow> (rq, r')
            | Some f \<Rightarrow> (if feDir f then rq else setHeader ''If-Modified-Since'' (heFormatTime (neHttp ne) (feMtime f)) rq, r'))))"

definition notModifiedMeta :: "netEnv \<Rightarrow> string \<Rightarrow> string \<Rightarrow> run \<Rightarrow> remoteMeta \<times> run" where
  "notModifiedMeta ne rawURI p r =
     (case statFile ne p r of (st, r') \<Rightarrow>
        (let (size, lastModified) = (case statOk st of None \<Rightarrow> (0, '''') | Some f \<Rightarrow> (fileSize f, heFormatTime (neHttp ne) (feMtime f))) in
         (\<lparr>mLength = size, mAcceptRange = True, mFinalURI = rawURI, mFilename = pathBase p, mLastModified = lastModified,
           mETag = '''', mNotModified = True\<rparr>, r')))"

section \<open>The probe\<close>

definition metadataProbeRangeEnd :: int where "metadataProbeRangeEnd = 1023"

text \<open>The HEAD request: \<open>Inr (Some m)\<close> ends the probe, \<open>Inr None\<close> with metadata or not goes on to the GET request.\<close>

definition conditionally :: "netEnv \<Rightarrow> options \<Rightarrow> string \<Rightarrow> request \<Rightarrow> run \<Rightarrow> request \<times> run" where
  "conditionally ne opts p rq r = (if optionBool opts ''continue'' then (rq, r) else applyConditionalHeaders ne opts p rq r)"

definition probeHead ::
    "netEnv \<Rightarrow> string \<Rightarrow> options \<Rightarrow> string \<Rightarrow> run \<Rightarrow> (remoteMeta option \<times> remoteMeta option) res \<times> run" where
  "probeHead ne rawURI opts conditionalPath r0 =
     bindS (newRequest ne ''HEAD'' rawURI r0) (\<lambda>rq0 r1.
       (case conditionally ne opts conditionalPath (applyMetadataRequestOptions (neHttp ne) opts rq0) r1 of (rq, r2) \<Rightarrow>
       (case httpDo ne rq opts r2 of
          (Inl er, r) \<Rightarrow> (Inr (None, None), r)
        | (Inr resp, r) \<Rightarrow>
           (if rsStatusCode resp = statusNotModified
            then (case notModifiedMeta ne rawURI conditionalPath r of (m, r') \<Rightarrow> (Inr (Some m, None), r'))
            else if isHTTPTransferSuccess (rsStatusCode resp)
            then (let m = metaFromResponse (neHttp ne) (neQuery ne) resp rawURI opts in
                  if rsContentLength resp \<ge> 0 then (Inr (Some m, None), r) else (Inr (None, Some m), r))
            else if rsStatusCode resp \<noteq> 405 \<and> rsStatusCode resp \<noteq> 501 \<and> rsStatusCode resp \<noteq> 403
            then (Inl (HttpStatusError ''HEAD'' rawURI (rsStatusCode resp) (rsStatus resp)), r)
            else (Inr (None, None), r)))))"

text \<open>A failure of the GET request falls back to the metadata of the HEAD request.\<close>

definition orHead :: "remoteMeta option \<Rightarrow> err \<Rightarrow> remoteMeta res" where
  "orHead headMeta er = (case headMeta of Some m \<Rightarrow> Inr m | None \<Rightarrow> Inl er)"

definition probeAnswer :: "netEnv \<Rightarrow> string \<Rightarrow> options \<Rightarrow> remoteMeta option \<Rightarrow> response \<Rightarrow> remoteMeta res" where
  "probeAnswer ne rawURI opts headMeta resp =
     (let m = metaFromResponse (neHttp ne) (neQuery ne) resp rawURI opts in
      (case (if rsStatusCode resp = statusRangeNotSatisfiable then completeLengthFromUnsatisfiedRange resp else None) of
         Some tot \<Rightarrow> Inr (m\<lparr>mLength := tot, mAcceptRange := True\<rparr>)
       | None \<Rightarrow>
          (if \<not> isHTTPTransferSuccess (rsStatusCode resp)
           then orHead headMeta (HttpStatusError ''GET'' rawURI (rsStatusCode resp) (rsStatus resp))
           else if rsStatusCode resp = statusPartialContent
           then (case validateProbeRangeResponse resp 0 metadataProbeRangeEnd of
                   Inl er \<Rightarrow> orHead headMeta er
                 | Inr cr \<Rightarrow> Inr (m\<lparr>mAcceptRange := True, mLength := (if bcTotalKnown cr then bcTotal cr else 0)\<rparr>))
           else Inr (m\<lparr>mAcceptRange := False\<rparr>))))"

definition probe :: "netEnv \<Rightarrow> string \<Rightarrow> options \<Rightarrow> string \<Rightarrow> run \<Rightarrow> remoteMeta res \<times> run" where
  "probe ne rawURI opts conditionalPath r0 =
     bindS (if optionBoolDefault opts ''use-head'' True then probeHead ne rawURI opts conditionalPath r0 else (Inr (None, None), r0))
       (\<lambda>(answer, headMeta) r1.
         (case answer of
            Some m \<Rightarrow> (Inr m, r1)
          | None \<Rightarrow>
             bindS (newRequest ne ''GET'' rawURI r1) (\<lambda>rq0 r2.
               (case conditionally ne opts conditionalPath
                   (applyRangeRequestOptions (neHttp ne) opts (''bytes=0-'' @ Itoa metadataProbeRangeEnd) rq0) r2 of (rq, r3) \<Rightarrow>
               (case httpDo ne rq opts r3 of
                  (Inl er, r) \<Rightarrow> (orHead headMeta er, r)
                | (Inr resp, r) \<Rightarrow>
                   (if rsStatusCode resp = statusNotModified
                    then (case notModifiedMeta ne rawURI conditionalPath r of (m, r') \<Rightarrow> (Inr m, r'))
                    else (probeAnswer ne rawURI opts headMeta resp, r)))))))"

section \<open>One connection\<close>

text \<open>Copying a body into the file at an offset. \<open>rangeLength\<close> is negative for a whole body, whose length is
  checked against \<open>want\<close> unless it was decoded.\<close>

definition startCopy :: "nat \<Rightarrow> string \<Rightarrow> nat \<Rightarrow> run \<Rightarrow> copyState" where
  "startCopy i p off r =
     \<lparr>csFile = fileData r p, csOffset = off, csRead = 0, csWritten = 0, csPending = 0, csD = obj (rnE r) i,
      csTracker = \<lparr>stBytes = 0, stLastBytes = 0, stLastAt = 0\<rparr>\<rparr>"

definition endCopy :: "nat \<Rightarrow> string \<Rightarrow> copyState \<Rightarrow> run \<Rightarrow> run" where
  "endCopy i p s r = tick (setFile p (csFile s) (onD i (\<lambda>_. csD s) r))"

definition copyBody ::
    "netEnv \<Rightarrow> nat \<Rightarrow> string \<Rightarrow> nat \<Rightarrow> options \<Rightarrow> response \<Rightarrow> body \<Rightarrow> int \<Rightarrow> int \<Rightarrow> run \<Rightarrow> unit res \<times> run" where
  "copyBody ne i p off opts resp b rangeLength want r =
     (let envs = neRounds ne (rnTick r); lowest = optionBytes opts ''lowest-speed-limit'' 0; s0 = startCopy i p off r in
      if rangeLength \<ge> 0 then
        (case copyExactWithProgress envs lowest rangeLength b s0 of
           (er, s) \<Rightarrow> ((case er of None \<Rightarrow> Inr () | Some x \<Rightarrow> Inl x), endCopy i p s r))
      else
        (case copyCountingWithProgress envs lowest (rsContentLength resp) b s0 of
           (n, er, s) \<Rightarrow>
             ((case er of
                 Some x \<Rightarrow> Inl x
               | None \<Rightarrow> if \<not> responseBodyDecoded resp opts \<and> want > 0 \<and> n \<noteq> want then Inl (bodyLengthMismatchError n want) else Inr ()),
              endCopy i p s r)))"

text \<open>The end both single transfers share: progress, connection, reader, copy.\<close>

definition transferBody ::
    "netEnv \<Rightarrow> nat \<Rightarrow> string \<Rightarrow> int \<Rightarrow> options \<Rightarrow> response \<Rightarrow> int \<Rightarrow> int \<Rightarrow> run \<Rightarrow> unit res \<times> run" where
  "transferBody ne i p start opts resp rangeLength len r0 =
     (let r1 = onD i (\<lambda>d. setConnections 1 (resetSingleProgress len start d)) r0 in
      (case (if rangeLength < 0 then responseReader (neHttp ne) resp opts else Inr (rsBody resp)) of
         Inl er \<Rightarrow> (Inl er, onD i (setConnections 0) r1)
       | Inr b \<Rightarrow>
          (case copyBody ne i p (nat start) opts resp b rangeLength len r1 of (res, r2) \<Rightarrow> (res, onD i (setConnections 0) r2))))"

definition singleStart :: "netEnv \<Rightarrow> remoteMeta \<Rightarrow> string \<Rightarrow> options \<Rightarrow> run \<Rightarrow> int \<times> run" where
  "singleStart ne m p opts r =
     (if optionBool opts ''continue'' \<and> mLength m > 0 then
        (case statFile ne p r of (st, r') \<Rightarrow>
           ((case statOk st of None \<Rightarrow> 0
             | Some f \<Rightarrow> if fileSize f > 0 \<and> fileSize f < mLength m \<and> mAcceptRange m then fileSize f else 0), r'))
      else (0, r))"

definition singleRequest :: "httpEnv \<Rightarrow> remoteMeta \<Rightarrow> options \<Rightarrow> int \<Rightarrow> request \<Rightarrow> request" where
  "singleRequest he m opts start rq =
     (if start > 0 then applyIfRange he m (applyRangeRequestOptions he opts (''bytes='' @ Itoa start @ ''-'') rq)
      else applyRequestOptions he opts rq)"

text \<open>The answer to the request of \<open>downloadSingle\<close>, with the file open.\<close>

definition singleAnswer ::
    "netEnv \<Rightarrow> nat \<Rightarrow> remoteMeta \<Rightarrow> string \<Rightarrow> options \<Rightarrow> int \<Rightarrow> response \<Rightarrow> run \<Rightarrow> unit res \<times> run" where
  "singleAnswer ne i m p opts start resp r =
     (if start > 0 \<and> rsStatusCode resp = statusRangeNotSatisfiable \<and>
         completeLengthFromUnsatisfiedRange resp = Some start \<and> (mLength m \<le> 0 \<or> start = mLength m)
      then (Inr (), onD i (resetSingleProgress start start) r)
      else if \<not> isHTTPTransferSuccess (rsStatusCode resp) \<or> \<not> isHTTPBodySuccess (rsStatusCode resp)
      then (Inl (HttpStatusError ''GET'' (mFinalURI m) (rsStatusCode resp) (rsStatus resp)), r)
      else if start > 0 \<and> rsStatusCode resp \<noteq> statusPartialContent
      then bindS (truncateFile ne p r) (\<lambda>_ r. bindS (fsCallS ne CallSeek p r) (\<lambda>_ r. transferBody ne i p 0 opts resp (-1) (mLength m) r))
      else if start > 0
      then (case validateOpenRangeResponse resp start (mLength m) of
              Inl er \<Rightarrow> (Inl er, r)
            | Inr cr \<Rightarrow> transferBody ne i p start opts resp (wrap64 (bcEnd cr - bcStart cr + 1)) (mLength m) r)
      else if rsStatusCode resp = statusPartialContent
      then (Inl (HttpProtocolError ''unexpected partial response without an internal Range request'' []), r)
      else
        (let rm = metaFromResponse (neHttp ne) (neQuery ne) resp (mFinalURI m) opts;
             len = (if rsContentLength resp \<ge> 0 \<or> responseBodyDecoded resp opts \<or> mLength m \<le> 0 then mLength rm else mLength m);
             m1 = m\<lparr>mLength := len, mLastModified := mLastModified rm, mFinalURI := mFinalURI rm, mAcceptRange := mAcceptRange rm\<rparr> in
         transferBody ne i p 0 opts resp (-1) (mLength m1) (onD i (setMetadata m1 p) r)))"

definition downloadSingle :: "netEnv \<Rightarrow> nat \<Rightarrow> remoteMeta \<Rightarrow> string \<Rightarrow> options \<Rightarrow> run \<Rightarrow> unit res \<times> run" where
  "downloadSingle ne i m p opts r0 =
     (case singleStart ne m p opts r0 of (start, r1) \<Rightarrow>
      bindS (openFile ne (\<not> start > 0) p r1) (\<lambda>_ r2.
        deferClose ne p
          (bindS (newRequest ne ''GET'' (mFinalURI m) r2) (\<lambda>rq r3.
             bindS (httpDo ne (singleRequest (neHttp ne) m opts start rq) opts r3) (\<lambda>resp r4.
               singleAnswer ne i m p opts start resp r4)))))"

section \<open>After the transfer\<close>

definition checksumAlgorithms :: "string list" where
  "checksumAlgorithms = [''md5'', ''sha1'', ''sha224'', ''sha256'', ''sha384'', ''sha512'']"

text \<open>\<open>neHash\<close> is the hexadecimal digest of the algorithm with that name.\<close>

definition verifyChecksum :: "netEnv \<Rightarrow> string \<Rightarrow> options \<Rightarrow> run \<Rightarrow> unit res \<times> run" where
  "verifyChecksum ne p opts r =
     (let spec = optionString opts ''checksum'' in
      if spec = '''' then (Inr (), r)
      else
        (case Cut spec (CHR ''='') of (algo, expected, ok) \<Rightarrow>
           (let name = ToLower (filter (\<lambda>c. c \<noteq> CHR ''-'') algo) in
            if \<not> ok then (Inl (Errorf ''invalid checksum format'' []), r)
            else if name \<notin> set checksumAlgorithms then (Inl (Errorf ''unsupported checksum algorithm %q'' [algo]), r)
            else
              bindS (if rnFiles r p = None then (Inl (Errorf ''open %s: no such file or directory'' [p]), r) else fsCallS ne CallOpen p r)
                (\<lambda>_ r. bindS (fsCallS ne CallRead p r) (\<lambda>_ r.
                (let got = neHash ne name (fileData r p); want = ToLower (TrimSpace expected) in
                 if got \<noteq> want then (Inl (Errorf ''checksum mismatch: got %s want %s'' [got, want]), r) else (Inr (), r)))))))"

definition applyRemoteTime :: "netEnv \<Rightarrow> string \<Rightarrow> remoteMeta \<Rightarrow> options \<Rightarrow> run \<Rightarrow> unit res \<times> run" where
  "applyRemoteTime ne p m opts r =
     (if \<not> optionBool opts ''remote-time'' \<or> mLastModified m = '''' then (Inr (), r)
      else
        (case heParseTime (neHttp ne) (mLastModified m) of
           None \<Rightarrow> (Inr (), r)
         | Some t \<Rightarrow>
            bindS (fsCallS ne CallChtimes p r) (\<lambda>_ r.
              (Inr (), r\<lparr>rnFiles := (rnFiles r)(p := map_option (\<lambda>f. f\<lparr>feMtime := t\<rparr>) (rnFiles r p))\<rparr>))))"


section \<open>One GET request that is also the probe\<close>

definition canCreateSingleDestinationBeforeGET :: "options \<Rightarrow> string \<Rightarrow> bool" where
  "canCreateSingleDestinationBeforeGET opts out \<longleftrightarrow> out \<noteq> '''' \<and> optionBool opts ''continue'' \<and> \<not> optionBool opts ''conditional-get''"

text \<open>Closing and removing a file the transfer has just created.\<close>

definition discardNew :: "netEnv \<Rightarrow> bool \<Rightarrow> string \<Rightarrow> run \<Rightarrow> run" where
  "discardNew ne createdNew p r = (if createdNew then snd (removeFile ne p (snd (closeFile ne p r))) else r)"

text \<open>The size of an existing file, 0 when there is none to resume.\<close>

definition resumeSize :: "netEnv \<Rightarrow> string \<Rightarrow> run \<Rightarrow> int \<times> run" where
  "resumeSize ne p r =
     (case statFile ne p r of (st, r') \<Rightarrow>
        ((case statOk st of None \<Rightarrow> 0 | Some f \<Rightarrow> if fileSize f > 0 then fileSize f else 0), r'))"

text \<open>What happens before the request: the path, the offset to resume at, and whether the file was created.\<close>

definition getProbePrepare :: "netEnv \<Rightarrow> nat \<Rightarrow> options \<Rightarrow> string \<Rightarrow> string \<Rightarrow> run \<Rightarrow> (string \<times> int \<times> bool) res \<times> run" where
  "getProbePrepare ne i opts outOpt p r0 =
     (if canCreateSingleDestinationBeforeGET opts outOpt then
        bindS (ensureDownloadDir ne (pathDir p) r0) (\<lambda>_ r1.
        bindS (reservePath ne p (dGid (obj (rnE r1) i)) False r1) (\<lambda>q r2.
        bindS (createFile ne q r2) (\<lambda>created r3.
          if created then (Inr (q, 0, True), r3)
          else (case resumeSize ne q r3 of (start, r4) \<Rightarrow> (Inr (q, start, False), r4)))))
      else if optionBool opts ''continue''
      then (case resumeSize ne p r0 of (start, r1) \<Rightarrow> (Inr (p, start, False), r1))
      else (Inr (p, 0, False), r0))"

definition getProbeRequest :: "netEnv \<Rightarrow> options \<Rightarrow> string \<Rightarrow> int \<Rightarrow> request \<Rightarrow> run \<Rightarrow> request \<times> run" where
  "getProbeRequest ne opts p start rq r =
     (if start > 0 then (applyRangeRequestOptions (neHttp ne) opts (''bytes='' @ Itoa start @ ''-'') rq, r)
      else applyConditionalHeaders ne opts p (applyRequestOptions (neHttp ne) opts rq) r)"

text \<open>The choice of the destination when no file is open yet.\<close>

definition chooseOutput ::
    "netEnv \<Rightarrow> nat \<Rightarrow> options \<Rightarrow> string \<Rightarrow> string \<Rightarrow> string \<Rightarrow> int \<Rightarrow> run \<Rightarrow> string res \<times> run" where
  "chooseOutput ne i opts outOpt selectedPath outPath start r0 =
     bindS
       (if selectedPath = '''' \<and> start = 0 then
          (case (if outOpt \<noteq> '''' \<and> optionBool opts ''continue'' then statFile ne outPath r0 else (Inr None, r0)) of (st, r1) \<Rightarrow>
             (let reuse = (case statOk st of None \<Rightarrow> False | Some f \<Rightarrow> \<not> feDir f \<and> fileSize f = 0) in
              resolveExistingOutputPath ne outPath opts reuse r1))
        else (Inr outPath, r0))
       (\<lambda>q r2. bindS (ensureDownloadDir ne (pathDir q) r2) (\<lambda>_ r3.
          (let autoRename = (selectedPath = '''' \<and> start = 0 \<and> \<not> optionBool opts ''allow-overwrite'' \<and>
                 optionBoolDefault opts ''auto-file-renaming'' True) in
           reservePath ne q (dGid (obj (rnE r3) i)) autoRename r3)))"

text \<open>The transfer of the body into the open file.\<close>

definition getProbeTransfer ::
    "netEnv \<Rightarrow> nat \<Rightarrow> options \<Rightarrow> remoteMeta \<Rightarrow> string \<Rightarrow> int \<Rightarrow> bool \<Rightarrow> response \<Rightarrow> int \<Rightarrow> run \<Rightarrow> (remoteMeta \<times> string) res \<times> run" where
  "getProbeTransfer ne i opts m outPath start createdNew resp rangeLength r0 =
     (let r1 = onD i (setMetadata m outPath) r0 in
      (case (if createdNew \<and> rangeLength < 0 then responseReader (neHttp ne) resp opts else Inr []) of
         Inl er \<Rightarrow>
          (let r2 = onD i (\<lambda>d. setConnections 0 (setConnections 1 (resetSingleProgress (mLength m) start d))) r1 in
           (case closeFile ne outPath r2 of (ce, r3) \<Rightarrow> (case removeFile ne outPath r3 of (re, r4) \<Rightarrow>
              (Inl (the (joinErrors [Some er, ce, re])), r4))))
       | Inr _ \<Rightarrow>
          deferClose ne outPath
            (bindS (transferBody ne i outPath start opts resp rangeLength (mLength m) r1) (\<lambda>_ r. (Inr (m, outPath), r)))))"

text \<open>The destination of a successful response, and the transfer into it.\<close>

definition getProbeStore ::
    "netEnv \<Rightarrow> nat \<Rightarrow> string \<Rightarrow> options \<Rightarrow> string \<Rightarrow> string \<Rightarrow> string \<Rightarrow> string \<Rightarrow> string \<Rightarrow> int \<Rightarrow> bool \<Rightarrow>
     remoteMeta \<Rightarrow> response \<Rightarrow> int \<Rightarrow> run \<Rightarrow> (remoteMeta \<times> string) res \<times> run" where
  "getProbeStore ne i rawURI opts dirOpt outOpt provisionalName provisionalPath selectedPath start createdNew m resp rangeLength r0 =
     (let outPath = (if selectedPath = '''' \<and> outOpt = '''' \<and> mFilename m \<noteq> '''' \<and> mFilename m \<noteq> provisionalName
                     then resolveOutputPath (neQuery ne) dirOpt '''' (mFilename m) rawURI else provisionalPath) in
      if createdNew then
        (if start > 0 \<and> rsStatusCode resp \<noteq> statusPartialContent then
           (case truncateFile ne outPath r0 of
              (Inl er, r1) \<Rightarrow> (Inl er, discardNew ne True outPath r1)
            | (Inr _, r1) \<Rightarrow> getProbeTransfer ne i opts m outPath 0 createdNew resp rangeLength r1)
         else getProbeTransfer ne i opts m outPath start createdNew resp rangeLength r0)
      else
        (let start1 = (if outPath \<noteq> provisionalPath \<or> rsStatusCode resp \<noteq> statusPartialContent then 0 else start) in
         bindS (chooseOutput ne i opts outOpt selectedPath outPath start1 r0) (\<lambda>q r1.
         bindS (openFile ne (\<not> start1 > 0) q r1) (\<lambda>_ r2.
           getProbeTransfer ne i opts m q (if start1 > 0 then start1 else 0) createdNew resp rangeLength r2))))"

definition getProbeAnswer ::
    "netEnv \<Rightarrow> nat \<Rightarrow> string \<Rightarrow> options \<Rightarrow> string \<Rightarrow> string \<Rightarrow> string \<Rightarrow> string \<Rightarrow> string \<Rightarrow> int \<Rightarrow> bool \<Rightarrow> response \<Rightarrow> run \<Rightarrow>
     (remoteMeta \<times> string) res \<times> run" where
  "getProbeAnswer ne i rawURI opts dirOpt outOpt provisionalName p selectedPath start createdNew resp r =
     (let m = metaFromResponse (neHttp ne) (neQuery ne) resp rawURI opts;
          store = getProbeStore ne i rawURI opts dirOpt outOpt provisionalName p selectedPath start createdNew in
      if rsStatusCode resp = statusNotModified then
        (case notModifiedMeta ne rawURI p (discardNew ne createdNew p r) of (nm, r') \<Rightarrow> (Inr (nm, p), onD i (setMetadata nm p) r'))
      else if start > 0 \<and> rsStatusCode resp = statusRangeNotSatisfiable \<and> completeLengthFromUnsatisfiedRange resp = Some start then
        (let m1 = m\<lparr>mLength := start, mAcceptRange := True\<rparr> in
         (Inr (m1, p), onD i (setMetadata m1 p) (discardNew ne createdNew p r)))
      else if \<not> isHTTPTransferSuccess (rsStatusCode resp) \<or> \<not> isHTTPBodySuccess (rsStatusCode resp)
      then (Inl (HttpStatusError ''GET'' rawURI (rsStatusCode resp) (rsStatus resp)), discardNew ne createdNew p r)
      else if rsStatusCode resp = statusPartialContent then
        (if start = 0
         then (Inl (HttpProtocolError ''unexpected partial response without an internal Range request'' []), discardNew ne createdNew p r)
         else
           (case validateOpenRangeResponse resp start (-1) of
              Inl er \<Rightarrow> (Inl er, discardNew ne createdNew p r)
            | Inr cr \<Rightarrow>
               store (m\<lparr>mAcceptRange := True,
                       mLength := (if bcTotalKnown cr then bcTotal cr else if bcEnd cr < MaxInt64 then bcEnd cr + 1 else mLength m)\<rparr>)
                 resp (wrap64 (bcEnd cr - bcStart cr + 1)) r))
      else store m resp (-1) r)"

definition downloadSingleWithGETProbe ::
    "netEnv \<Rightarrow> nat \<Rightarrow> string \<Rightarrow> options \<Rightarrow> string \<Rightarrow> string \<Rightarrow> run \<Rightarrow> (remoteMeta \<times> string) res \<times> run" where
  "downloadSingleWithGETProbe ne i rawURI opts dirOpt outOpt r0 =
     (let provisionalName = filenameFromURI (neQuery ne) rawURI;
          selectedPath = outputPath (obj (rnE r0) i);
          path0 = (if selectedPath \<noteq> '''' then selectedPath
                   else resolveOutputPath (neQuery ne) dirOpt outOpt provisionalName rawURI) in
      bindS (getProbePrepare ne i opts outOpt path0 r0) (\<lambda>(p, start, createdNew) r1.
      bindS (newRequest ne ''GET'' rawURI r1) (\<lambda>rq0 r2.
        (case getProbeRequest ne opts p start rq0 r2 of (rq, r3) \<Rightarrow>
          (case httpDo ne rq opts r3 of
             (Inl er, r4) \<Rightarrow> (Inl er, discardNew ne createdNew p r4)
           | (Inr resp, r4) \<Rightarrow>
              getProbeAnswer ne i rawURI opts dirOpt outOpt provisionalName p selectedPath start createdNew resp r4)))))"


section \<open>What a single transfer leaves in the file\<close>

lemma fileData_setFile [simp]: "fileData (setFile p data r) q = (if q = p then data else fileData r q)"
  by (simp add: fileData_def setFile_def split: option.split)

lemma fileData_side [simp]: "fileData (tick r) p = fileData r p" "fileData (onD i f r) p = fileData r p"
  by (simp_all add: fileData_def tick_def onD_def)

lemma fileData_fsCallS [simp]: "fileData (snd (fsCallS ne c q r)) p = fileData r p"
  by (simp add: fsCallS_def split: option.split)

lemma fileData_statFile [simp]: "fileData (snd (statFile ne q r)) p = fileData r p"
  by (simp add: statFile_def split: option.split)

lemma fileData_endCopy [simp]: "fileData (endCopy i p s r) p = csFile s"
  by (simp add: endCopy_def)

lemma fresh_startCopy: "off \<le> length (fileData r p) \<Longrightarrow> freshCopy (startCopy i p off r)"
  by (simp add: freshCopy_def startCopy_def)

lemma bindS_Inr: "bindS x f = (Inr v, r') \<longleftrightarrow> (\<exists>a r. x = (Inr a, r) \<and> f a r = (Inr v, r'))"
  by (auto simp: bindS_def split: prod.splits sum.splits)

lemma deferClose_Inr: "deferClose ne p x = (Inr v, r') \<Longrightarrow> \<exists>r. x = (Inr v, r) \<and> (\<forall>q. fileData r' q = fileData r q)"
  by (cases x) (auto simp: deferClose_def closeFile_def joinErrors_def split: sum.splits option.splits list.splits)

text \<open>A copy that succeeds has appended the whole body, or exactly the bytes of the range.\<close>

lemma copyBody_stored:
  assumes "copyBody ne i p (length (fileData r p)) opts resp b rangeLength want r = (Inr (), r')"
  shows "if rangeLength < 0 then fileData r' p = fileData r p @ bodyData b \<and> bodyEnds b \<and>
      (\<not> responseBodyDecoded resp opts \<and> want > 0 \<longrightarrow> int (length (bodyData b)) = want)
    else fileData r' p = fileData r p @ take (nat rangeLength) (bodyData b) \<and> int (length (take (nat rangeLength) (bodyData b))) = rangeLength"
proof -
  let ?s = "startCopy i p (length (fileData r p)) r"
  note fresh = fresh_startCopy[of "length (fileData r p)" r p i, OF order_refl]
  have at_end: "csFile t = fileData r p @ a" if "copied ?s a t" for a t
    using that by (simp add: copied_def startCopy_def writeAt_def)
  show ?thesis
  proof (cases "rangeLength < 0")
    case True
    then obtain t where t: "copyWithProgress (neRounds ne (rnTick r)) (optionBytes opts ''lowest-speed-limit'' 0) (rsContentLength resp) b ?s = (None, t)"
        "r' = endCopy i p t r" "\<not> responseBodyDecoded resp opts \<and> want > 0 \<longrightarrow> csWritten t = want"
      using assms by (auto simp: copyBody_def copyCountingWithProgress_def Let_def split: prod.splits option.splits if_splits)
    have "csWritten t = int (length a)" if "copied ?s a t" for a using that by (simp add: copied_def startCopy_def)
    then show ?thesis using copyWithProgress_cases[OF fresh t(1)] at_end t(2,3) True by auto
  next
    case False
    then obtain n t where t: "copyExactWithProgressCount (neRounds ne (rnTick r)) (optionBytes opts ''lowest-speed-limit'' 0) rangeLength b ?s = (n, None, t)"
        "r' = endCopy i p t r"
      using assms by (auto simp: copyBody_def copyExactWithProgress_def Let_def split: prod.splits option.splits)
    then show ?thesis using copyExact_written[OF fresh t(1)] at_end False by auto
  qed
qed

lemma transferBody_stored:
  assumes "transferBody ne i p start opts resp rangeLength len r = (Inr (), r')" "nat start = length (fileData r p)"
  shows "if rangeLength < 0 then \<exists>b. responseReader (neHttp ne) resp opts = Inr b \<and> fileData r' p = fileData r p @ bodyData b \<and> bodyEnds b \<and>
      (\<not> responseBodyDecoded resp opts \<and> len > 0 \<longrightarrow> int (length (bodyData b)) = len)
    else fileData r' p = fileData r p @ take (nat rangeLength) (bodyData (rsBody resp)) \<and>
      int (length (take (nat rangeLength) (bodyData (rsBody resp)))) = rangeLength"
proof -
  let ?r1 = "onD i (\<lambda>d. setConnections 1 (resetSingleProgress len start d)) r"
  obtain b r2 where b: "(if rangeLength < 0 then responseReader (neHttp ne) resp opts else Inr (rsBody resp)) = Inr b"
      "copyBody ne i p (nat start) opts resp b rangeLength len ?r1 = (Inr (), r2)" "r' = onD i (setConnections 0) r2"
    using assms(1) unfolding transferBody_def Let_def by (auto split: sum.splits prod.splits)
  show ?thesis using copyBody_stored[of ne i p ?r1 opts resp b rangeLength len r2] b assms(2) by (auto split: if_splits)
qed


lemma newRequest_method: "newRequest ne meth u r = (Inr rq, r') \<Longrightarrow> rqMethod rq = meth"
  by (auto simp: newRequest_def split: option.splits)

lemma applyHeaderOptions_method: "rqMethod (snd (applyHeaderOptions hs x)) = rqMethod (snd x)"
  by (induction hs x rule: applyHeaderOptions.induct) (auto simp: Let_def split: prod.split)

lemma setHeader_method [simp]: "rqMethod (setHeader k v rq) = rqMethod rq"
  by (simp add: setHeader_def)

lemma setBasicAuth_method [simp]: "rqMethod (setBasicAuth he u p rq) = rqMethod rq"
  by (simp add: setBasicAuth_def)

lemma applyRequestOptions_method [simp]: "rqMethod (applyRequestOptions he opts rq) = rqMethod rq"
proof -
  obtain ua rq1 where h: "applyHeaderOptions (optionStringList opts ''header'') (False, rq) = (ua, rq1)" by force
  have "rqMethod rq1 = rqMethod rq" using applyHeaderOptions_method[of "optionStringList opts ''header''" "(False, rq)"] h by simp
  moreover have case_method: "rqMethod x = c \<Longrightarrow> (\<And>a b. rqMethod (f a b) = c) \<Longrightarrow> rqMethod (case y of None \<Rightarrow> x | Some (a, b) \<Rightarrow> f a b) = c"
    and if_method: "rqMethod x = c \<Longrightarrow> rqMethod x' = c \<Longrightarrow> rqMethod (if b then x else x') = c"
    and set_method: "rqMethod x = c \<Longrightarrow> rqMethod (setHeader k v x) = c" "rqMethod x = c \<Longrightarrow> rqMethod (setBasicAuth he k v x) = c" for b x x' y f c k v
    by (simp_all split: option.split prod.split)
  ultimately show ?thesis unfolding applyRequestOptions_def h Let_def prod.case by (intro if_method case_method set_method)
qed

lemma conditionally_method: "conditionally ne opts p rq r = (rq', r') \<Longrightarrow> rqMethod rq' = rqMethod rq"
  by (auto simp: conditionally_def applyConditionalHeaders_def split: if_splits prod.splits option.splits)

lemma applyRangeRequestOptions_method [simp]: "rqMethod (applyRangeRequestOptions he opts v rq) = rqMethod rq"
  by (simp add: applyRangeRequestOptions_def Let_def)

lemma applyIfRange_method [simp]: "rqMethod (applyIfRange he m rq) = rqMethod rq"
  by (simp add: applyIfRange_def Let_def split: option.split)

lemma singleRequest_method [simp]: "rqMethod (singleRequest he m opts start rq) = rqMethod rq"
  by (simp add: singleRequest_def)

lemma getProbeRequest_method: "getProbeRequest ne opts p start rq r = (rq', r') \<Longrightarrow> rqMethod rq' = rqMethod rq"
  by (auto simp: getProbeRequest_def applyConditionalHeaders_def split: if_splits prod.splits option.splits)

text \<open>The answers of a server that has the representation \<open>content\<close>: a partial response carries bytes of it from
  the offset its Content-Range states, any other successful response carries all of it. The answer to a HEAD request
  carries no body, and nothing is said of one.\<close>

definition servesContent :: "netEnv \<Rightarrow> options \<Rightarrow> string \<Rightarrow> bool" where
  "servesContent ne opts content \<longleftrightarrow>
     (\<forall>t rq resp. neDo ne t rq opts = Inr resp \<and> rqMethod rq \<noteq> ''HEAD'' \<longrightarrow>
        (rsStatusCode resp = statusPartialContent \<longrightarrow>
           (\<forall>cr. validatePartialContentRange resp = Inr cr \<longrightarrow> prefix (bodyData (rsBody resp)) (drop (nat (bcStart cr)) content))) \<and>
        (rsStatusCode resp \<noteq> statusPartialContent \<longrightarrow> isHTTPBodySuccess (rsStatusCode resp) \<longrightarrow>
           (\<forall>b. responseReader (neHttp ne) resp opts = Inr b \<and> bodyEnds b \<longrightarrow> bodyData b = content)))"

lemma servesContent_whole:
  "servesContent ne opts content \<Longrightarrow> neDo ne t rq opts = Inr resp \<Longrightarrow> rqMethod rq \<noteq> ''HEAD'' \<Longrightarrow> isHTTPBodySuccess (rsStatusCode resp) \<Longrightarrow>
   rsStatusCode resp \<noteq> statusPartialContent \<Longrightarrow> responseReader (neHttp ne) resp opts = Inr b \<Longrightarrow> bodyEnds b \<Longrightarrow> bodyData b = content"
  unfolding servesContent_def by blast

lemma servesContent_range:
  "servesContent ne opts content \<Longrightarrow> neDo ne t rq opts = Inr resp \<Longrightarrow> rqMethod rq \<noteq> ''HEAD'' \<Longrightarrow> rsStatusCode resp = statusPartialContent \<Longrightarrow>
   validatePartialContentRange resp = Inr cr \<Longrightarrow> prefix (bodyData (rsBody resp)) (drop (nat (bcStart cr)) content)"
  unfolding servesContent_def by blast

lemma validateOpenRangeResponse_ok:
  assumes "validateOpenRangeResponse resp start tot = Inr cr"
  shows "validatePartialContentRange resp = Inr cr" "bcStart cr = start" "0 \<le> tot \<Longrightarrow> bcEnd cr = tot - 1"
    "0 \<le> bcStart cr" "bcStart cr \<le> bcEnd cr" "bcEnd cr \<le> MaxInt64"
proof -
  show p: "validatePartialContentRange resp = Inr cr" and "bcStart cr = start" and "0 \<le> tot \<Longrightarrow> bcEnd cr = tot - 1"
    using assms by (auto simp: validateOpenRangeResponse_def bindR_eq_Inr split: if_splits)
  have "parseByteContentRange (headerGet (rsHeader resp) ''Content-Range'') = Some cr" "\<not> bcUnsatisfied cr"
    using p by (auto simp: validatePartialContentRange_def split: if_splits option.splits)
  from parseByteContentRange_bounds[OF this]
  show "0 \<le> bcStart cr" "bcStart cr \<le> bcEnd cr" "bcEnd cr \<le> MaxInt64" by auto
qed

lemma range_completes:
  assumes "prefix b (drop s content)" "take s content = old" "s \<le> length content" "length (take n b) = n" "s + n = length content"
  shows "old @ take n b = content"
proof -
  have "n \<le> length b" using assms(4) by (metis length_take min.cobounded1)
  then have "take n b = drop s content"
    using assms(1,5) by (metis prefix_length_le length_drop diff_add_inverse prefix_def append_eq_append_conv2 take_all_iff
      append_take_drop_id length_append le_antisym append_Nil2 prefix_order.dual_order.trans not_less_eq_eq append_eq_conv_conj)
  then show ?thesis using assms(2) append_take_drop_id by metis
qed

lemma singleAnswer_integrity:
  assumes server: "servesContent ne opts content" "neDo ne t rq opts = Inr resp" "rqMethod rq \<noteq> ''HEAD''"
    and ok: "singleAnswer ne i m p opts start resp r = (Inr (), r')"
    and old: "fileData r p = take (nat start) content" "nat start \<le> length content" "0 \<le> start"
    and len: "start > 0 \<Longrightarrow> mLength m = int (length content)" "start > 0 \<Longrightarrow> start < mLength m" "int (length content) \<le> MaxInt64"
  shows "fileData r' p = content"
proof -
  have start: "nat start = length (fileData r p)" using old by simp
  have succ: "isHTTPBodySuccess (rsStatusCode resp)"
    using ok len(2) by (auto simp: singleAnswer_def split: if_splits)
  show ?thesis
  proof (cases "start > 0")
    case False
    then have 0: "start = 0" "fileData r p = []" using old by auto
    have "rsStatusCode resp \<noteq> statusPartialContent" using ok succ 0 by (auto simp: singleAnswer_def isHTTPBodySuccess_def split: if_splits)
    moreover obtain f len' where "transferBody ne i p 0 opts resp (-1) len' (onD i f r) = (Inr (), r')"
      using ok succ 0 calculation by (auto simp: singleAnswer_def isHTTPBodySuccess_def Let_def split: if_splits)
    then obtain b where "responseReader (neHttp ne) resp opts = Inr b" "fileData r' p = bodyData b" "bodyEnds b"
      using transferBody_stored[of ne i p 0 opts resp "-1" len' "onD i f r" r'] 0 by auto
    ultimately show ?thesis using servesContent_whole[OF server succ] by simp
  next
    case True
    show ?thesis
    proof (cases "rsStatusCode resp = statusPartialContent")
      case partial: True
      then obtain cr where cr: "validateOpenRangeResponse resp start (mLength m) = Inr cr"
          "transferBody ne i p start opts resp (wrap64 (bcEnd cr - bcStart cr + 1)) (mLength m) r = (Inr (), r')"
        using ok succ True len(2) by (auto simp: singleAnswer_def isHTTPBodySuccess_def split: if_splits sum.splits)
      note v = validateOpenRangeResponse_ok[OF cr(1)]
      have e: "bcEnd cr - bcStart cr + 1 = int (length content) - start" using v(2,3) len True by simp
      have w: "wrap64 (bcEnd cr - bcStart cr + 1) = int (length content) - start"
        unfolding e using old len True by (intro wrap64_nonneg_id) auto
      have nn: "\<not> int (length content) - start < 0" using old by linarith
      let ?n = "nat (int (length content) - start)"
      have st: "fileData r' p = fileData r p @ take ?n (bodyData (rsBody resp))" "length (take ?n (bodyData (rsBody resp))) = ?n"
        using transferBody_stored[OF cr(2) start] nn unfolding w by auto
      have "prefix (bodyData (rsBody resp)) (drop (nat start) content)"
        using servesContent_range[OF server partial v(1)] v(2) by simp
      then show ?thesis unfolding st(1) by (rule range_completes) (use old st(2) in auto)
    next
      case False
      then obtain r1 r2 where "truncateFile ne p r = (Inr (), r1)" "fsCallS ne CallSeek p r1 = (Inr (), r2)"
          "transferBody ne i p 0 opts resp (-1) (mLength m) r2 = (Inr (), r')"
        using ok succ True len(2) by (auto simp: singleAnswer_def isHTTPBodySuccess_def bindS_Inr split: if_splits)
      moreover from calculation have "fileData r2 p = []"
        using fileData_fsCallS[of ne CallSeek p r1 p] by (auto simp: truncateFile_def split: option.splits)
      ultimately obtain b where "responseReader (neHttp ne) resp opts = Inr b" "fileData r' p = bodyData b" "bodyEnds b"
        using transferBody_stored[of ne i p 0 opts resp "-1" "mLength m" r2 r'] by auto
      then show ?thesis using servesContent_whole[OF server succ False] by simp
    qed
  qed
qed


lemma downloadSingle_stored:
  assumes server: "servesContent ne opts content" "int (length content) \<le> MaxInt64"
    and old: "optionBool opts ''continue'' \<and> mAcceptRange m \<Longrightarrow> prefix (fileData r p) content"
    and len: "mLength m > 0 \<Longrightarrow> mLength m = int (length content)"
    and ok: "downloadSingle ne i m p opts r = (Inr (), r')"
  shows "fileData r' p = content"
proof -
  obtain start r1 where s: "singleStart ne m p opts r = (start, r1)" by force
  have start: "0 \<le> start" "fileData r1 p = fileData r p"
      "start > 0 \<Longrightarrow> start = int (length (fileData r p)) \<and> start < mLength m \<and> mLength m > 0 \<and> optionBool opts ''continue'' \<and> mAcceptRange m"
    using s unfolding singleStart_def statFile_def fileData_def tick_def fileSize_def statOk_def
    by (auto split: if_splits option.splits prod.splits sum.splits)
  then have pre: "start > 0 \<Longrightarrow> prefix (fileData r p) content" using old by blast
  obtain r2 r3 where r2: "openFile ne (\<not> start > 0) p r1 = (Inr (), r2)"
      and r3: "bindS (newRequest ne ''GET'' (mFinalURI m) r2) (\<lambda>rq r3. bindS (httpDo ne (singleRequest (neHttp ne) m opts start rq) opts r3)
        (\<lambda>resp r4. singleAnswer ne i m p opts start resp r4)) = (Inr (), r3)" "fileData r' p = fileData r3 p"
    using ok s by (auto simp: downloadSingle_def bindS_Inr dest!: deferClose_Inr)
  have "fileData r2 p = take (nat start) content"
    using r2 start pre by (auto simp: openFile_def prefix_def split: option.splits if_splits)
  then obtain rq t resp r4 where a: "neDo ne t rq opts = Inr resp" "rqMethod rq \<noteq> ''HEAD''" "singleAnswer ne i m p opts start resp r4 = (Inr (), r3)"
      "fileData r4 p = take (nat start) content"
    using r3(1) by (auto simp: bindS_Inr newRequest_def httpDo_def split: option.splits)
  have "nat start \<le> length content" using start pre[THEN prefix_length_le] by (cases "start > 0") auto
  then have "fileData r3 p = content"
    using singleAnswer_integrity[OF server(1) a(1,2,3,4) _ start(1) _ _ server(2)] start(3) len by blast
  then show ?thesis using r3(2) by simp
qed

text \<open>C10: A single transfer stores the representation. If the server answers requests with the bytes of
  \<open>content\<close>, a file that may be resumed holds a prefix of it, and the length found by the probe is right, then
  \<open>downloadSingle\<close> reports success only when the file holds exactly \<open>content\<close>, whether it resumed,
  started over because the server ignored the range, or started fresh.\<close>

theorem downloadSingle_integrity:
  assumes "servesContent ne opts content" "int (length content) \<le> MaxInt64"
    and "optionBool opts ''continue'' \<and> mAcceptRange m \<Longrightarrow> prefix (fileData r p) content"
    and "mLength m > 0 \<Longrightarrow> mLength m = int (length content)"
    and "downloadSingle ne i m p opts r = (Inr (), r')"
  shows "fileData r' p = content"
  using assms by (rule downloadSingle_stored)

text \<open>A server with a representation of six bytes that ignores ranges.\<close>

definition exampleHttp :: httpEnv where
  "exampleHttp = \<lparr>heNewRequest = (\<lambda>_. None), heURLNoUser = id, heURLUser = (\<lambda>_. None), heURLHost = id, heB64 = id, heParseTime = (\<lambda>_. None),
     heFormatTime = (\<lambda>_. ''''), heMediaParams = (\<lambda>_. None), heGunzip = Inr\<rparr>"

definition exampleResponse :: response where
  "exampleResponse = \<lparr>rsStatusCode = 200, rsStatus = ''200 OK'', rsHeader = [], rsContentLength = 6, rsURL = None,
     rsBody = [(''abc'', None), (''def'', Some EOF)]\<rparr>"

definition headResponse :: response where
  "headResponse = exampleResponse\<lparr>rsBody := [([], Some EOF)]\<rparr>"

definition exampleNet :: netEnv where
  "exampleNet = \<lparr>neDo = (\<lambda>_ rq _. Inr (if rqMethod rq = ''HEAD'' then headResponse else exampleResponse)), neFault = (\<lambda>_ _ _. None), neRounds = (\<lambda>_ _. goodRound), neHash = (\<lambda>_ _. ''''),
     neHttp = exampleHttp, neQuery = plainQuery, neRKey = Inr\<rparr>"

definition exampleRun :: run where
  "exampleRun = \<lparr>rnE = runEngine, rnFiles = (\<lambda>_. None), rnTick = 0\<rparr>"

definition exampleMeta :: remoteMeta where
  "exampleMeta = \<lparr>mLength = 6, mAcceptRange = True, mFinalURI = ''http://h/f'', mFilename = ''f'', mLastModified = '''', mETag = '''',
     mNotModified = False\<rparr>"

lemma exampleNet_simps:
  "neDo exampleNet t rq opts = Inr (if rqMethod rq = ''HEAD'' then headResponse else exampleResponse)" "neFault exampleNet t c p = None" "heNewRequest (neHttp exampleNet) u = None"
  "neRKey exampleNet = Inr" "rsStatusCode exampleResponse = 200" "rsContentLength exampleResponse = 6"
  by (simp_all add: exampleNet_def exampleHttp_def exampleResponse_def)

lemma empty_options: "optionString [] k = ''''" "\<not> optionBool [] k" "optionBytes [] k 0 = 0"
proof -
  have "optionValue [] k = None" by (subst optionValue_flat) simp_all
  then show s: "optionString [] k = ''''" by (simp add: optionString_def)
  then show "\<not> optionBool [] k" by (simp add: optionBool_def)
  show "optionBytes [] k 0 = 0" by (simp add: optionBytes_def s parseSize_def parseSizeValue_def TrimSpace_no_space)
qed

lemma exampleNet_serves: "servesContent exampleNet [] ''abcdef''"
  by (auto simp: servesContent_def exampleNet_def exampleResponse_def statusPartialContent_def responseReader_def
    responseBodyDecoded_def empty_options)

lemma exampleNet_body: "fst (copyBody exampleNet i p 0 [] exampleResponse (rsBody exampleResponse) (-1) 6 r) = Inr ()"
  by (simp add: copyBody_def copyCountingWithProgress_def copyWithProgress_def boundReads_def empty_options exampleNet_def
    exampleResponse_def copyBufferSize_def smallCopyBufferSize_def boundEvent.simps copyRound_def writeRound_def goodRound_def
    countWrite_def startCopy_def progressFlushBytes_def flushProgress_def Let_def)

lemma exampleNet_single: "fst (downloadSingle exampleNet 0 exampleMeta ''/dl/f'' [] exampleRun) = Inr ()"
  using exampleNet_body
  by (simp add: downloadSingle_def singleStart_def exampleMeta_def empty_options openFile_def exampleNet_simps isDirectory_def
      exampleRun_def bindS_def newRequest_def httpDo_def singleAnswer_def isHTTPBodySuccess_def case_prod_unfold
      isHTTPTransferSuccess_def statusPartialContent_def statusRangeNotSatisfiable_def transferBody_def responseReader_def
      responseBodyDecoded_def metaFromResponse_def nonNegativeLength_def deferClose_def closeFile_def joinErrors_def Let_def)

theorem downloadSingle_integrity_witness:
  "fileData (snd (downloadSingle exampleNet 0 exampleMeta ''/dl/f'' [] exampleRun)) ''/dl/f'' = ''abcdef''"
  using downloadSingle_integrity[OF exampleNet_serves, of exampleMeta exampleRun "''/dl/f''" 0 "snd (downloadSingle exampleNet 0 exampleMeta ''/dl/f'' [] exampleRun)"]
    exampleNet_single by (simp add: prod_eq_iff fileData_def exampleRun_def exampleMeta_def)


section \<open>What a transfer with a GET probe leaves in the file\<close>

lemma statFile_files: "statFile ne p r = (x, r') \<Longrightarrow> rnFiles r' = rnFiles r"
  by (auto simp: statFile_def tick_def split: option.splits)

lemma fsCallS_files: "fsCallS ne c p r = (x, r') \<Longrightarrow> rnFiles r' = rnFiles r"
  by (auto simp: fsCallS_def tick_def split: option.splits)

lemma fileData_cong: "rnFiles r' = rnFiles r \<Longrightarrow> fileData r' p = fileData r p"
  by (simp add: fileData_def)

lemma resumeSize_ok:
  "resumeSize ne p r = (s, r') \<Longrightarrow> rnFiles r' = rnFiles r \<and> 0 \<le> s \<and> (s > 0 \<longrightarrow> s = int (length (fileData r p)))"
  by (auto simp: resumeSize_def statFile_def tick_def statOk_def fileSize_def fileData_def split: option.splits if_splits)

lemma reservePath_ok:
  assumes "reservePath ne p g autoRename r = (Inr q, r')"
  shows "rnFiles r' = rnFiles r \<and> (\<not> autoRename \<longrightarrow> q = p)"
proof -
  obtain st e where e: "reserveOutputPath (neRKey ne) st p g autoRename (rnE r) = Inr (q, e)" "r' = tick (r\<lparr>rnE := e\<rparr>)"
    using assms unfolding reservePath_def by (auto split: sum.splits prod.splits)
  have "q = p" if "\<not> autoRename"
    using e(1) that by (auto simp: reserveOutputPath_def bindR_eq_Inr split: option.splits if_splits)
  then show ?thesis using e(2) by (simp add: tick_def)
qed

lemma nextAvailable_files: "nextAvailableFrom ne p i r = (x, r') \<Longrightarrow> rnFiles r' = rnFiles r"
proof (induction ne p i r rule: nextAvailableFrom.induct)
  case (1 ne p i r)
  let ?c = "p @ ''.'' @ Itoa (int i)"
  obtain st r1 where st: "statFile ne ?c r = (st, r1)" by force
  have f: "rnFiles r1 = rnFiles r" by (rule statFile_files[OF st])
  show ?case
  proof (cases st)
    case (Inr fo)
    show ?thesis
    proof (cases "i < 10000 \<and> fo \<noteq> None")
      case True
      then obtain g where g: "fo = Some g" "i < 10000" by auto
      have "nextAvailableFrom ne p (Suc i) r1 = (x, r')" using 1(2) st Inr g by (subst (asm) nextAvailableFrom.simps) simp
      then show ?thesis using 1(1)[OF g(2) refl] st Inr g f by simp
    next
      case False
      then show ?thesis using 1(2) st Inr f by (subst (asm) nextAvailableFrom.simps) (auto split: if_splits)
    qed
  qed (use 1(2) st f in \<open>subst (asm) nextAvailableFrom.simps, auto split: if_splits\<close>)
qed

lemma resolveExisting_files: "resolveExistingOutputPath ne p opts a r = (Inr q, r') \<Longrightarrow> rnFiles r' = rnFiles r"
  by (auto simp: resolveExistingOutputPath_def bindS_Inr nextAvailableOutputPath_def dest!: statFile_files nextAvailable_files
      split: option.splits if_splits)

lemma chooseOutput_ok:
  assumes "chooseOutput ne i opts outOpt sel p start r = (Inr q, r')"
  shows "rnFiles r' = rnFiles r \<and> (start > 0 \<longrightarrow> q = p)"
proof -
  obtain q1 r1 r2 a where c: "(if sel = '''' \<and> start = 0 then
          (case (if outOpt \<noteq> '''' \<and> optionBool opts ''continue'' then statFile ne p r else (Inr None, r)) of (st, r1) \<Rightarrow>
             (let reuse = (case statOk st of None \<Rightarrow> False | Some f \<Rightarrow> \<not> feDir f \<and> fileSize f = 0) in
              resolveExistingOutputPath ne p opts reuse r1))
        else (Inr p, r)) = (Inr q1, r1)"
      "ensureDownloadDir ne (pathDir q1) r1 = (Inr (), r2)" "reservePath ne q1 (dGid (obj (rnE r2) i)) a r2 = (Inr q, r')"
      "start > 0 \<longrightarrow> \<not> a"
    using assms unfolding chooseOutput_def bindS_Inr Let_def by auto
  have "rnFiles r1 = rnFiles r \<and> (start > 0 \<longrightarrow> q1 = p)"
    using c(1) by (auto split: if_splits prod.splits dest!: resolveExisting_files statFile_files)
  then show ?thesis using reservePath_ok[OF c(3)] fsCallS_files[OF c(2)[unfolded ensureDownloadDir_def]] c(4) by auto
qed

lemma openFile_ok: "openFile ne tr p r = (Inr (), r') \<Longrightarrow> fileData r' p = (if tr then [] else fileData r p)"
  by (auto simp: openFile_def split: option.splits if_splits)

lemma getProbePrepare_ok:
  assumes "getProbePrepare ne i opts outOpt p r = (Inr (q, start, new), r')"
  shows "q = p \<and> 0 \<le> start \<and> (new \<longrightarrow> start = 0 \<and> fileData r' p = []) \<and>
    (start > 0 \<longrightarrow> optionBool opts ''continue'' \<and> start = int (length (fileData r p)) \<and> fileData r' p = fileData r p)"
proof (cases "canCreateSingleDestinationBeforeGET opts outOpt")
  case True
  then obtain r1 r2 r3 created where c: "ensureDownloadDir ne (pathDir p) r = (Inr (), r1)"
      "reservePath ne p (dGid (obj (rnE r1) i)) False r1 = (Inr q, r2)" "createFile ne q r2 = (Inr created, r3)"
      "(if created then (Inr (q, 0, True), r3) else (case resumeSize ne q r3 of (s, r4) \<Rightarrow> (Inr (q, s, False), r4))) = (Inr (q, start, new), r')"
    using assms unfolding getProbePrepare_def bindS_Inr by (auto simp: bindS_Inr split: if_splits prod.splits)
  have f: "rnFiles r2 = rnFiles r" "q = p"
    using fsCallS_files[OF c(1)[unfolded ensureDownloadDir_def]] reservePath_ok[OF c(2)] by auto
  have cont: "optionBool opts ''continue''" using True by (simp add: canCreateSingleDestinationBeforeGET_def)
  show ?thesis
  proof (cases created)
    case True
    then show ?thesis using c(3,4) f by (auto simp: createFile_def split: option.splits if_splits)
  next
    case False
    then have "rnFiles r3 = rnFiles r2" using c(3) by (auto simp: createFile_def tick_def split: option.splits if_splits)
    moreover have s: "resumeSize ne q r3 = (start, r')" "\<not> new" using c(4) False by (auto split: prod.splits)
    ultimately have "fileData r' p = fileData r p" "fileData r3 p = fileData r p"
      using resumeSize_ok[OF s(1)] f by (simp_all add: fileData_def)
    then show ?thesis using resumeSize_ok[OF s(1)] s(2) f cont by simp
  qed
next
  case False
  then consider "resumeSize ne p r = (start, r')" "q = p" "\<not> new" "optionBool opts ''continue''" | "q = p" "start = 0" "\<not> new"
    using assms by (auto simp: getProbePrepare_def split: if_splits prod.splits)
  then show ?thesis
  proof cases
    case 1
    have "fileData r' p = fileData r p" using resumeSize_ok[OF 1(1)] by (simp add: fileData_def)
    then show ?thesis using resumeSize_ok[OF 1(1)] 1 by simp
  qed simp
qed


lemma getProbeTransfer_ok:
  assumes "getProbeTransfer ne i opts m p start new resp rl r = (Inr v, r')"
  shows "v = (m, p) \<and> (\<exists>r1 r2. fileData r1 p = fileData r p \<and> fileData r' p = fileData r2 p \<and>
    transferBody ne i p start opts resp rl (mLength m) r1 = (Inr (), r2))"
proof -
  let ?r1 = "onD i (setMetadata m p) r"
  have "deferClose ne p (bindS (transferBody ne i p start opts resp rl (mLength m) ?r1) (\<lambda>_ r. (Inr (m, p), r))) = (Inr v, r')"
    using assms unfolding getProbeTransfer_def Let_def by (auto split: sum.splits prod.splits)
  from deferClose_Inr[OF this] obtain r2 where "transferBody ne i p start opts resp rl (mLength m) ?r1 = (Inr (), r2)" "v = (m, p)"
      "fileData r' p = fileData r2 p"
    by (auto simp: bindS_Inr)
  then show ?thesis by (metis fileData_side(2))
qed

text \<open>The destination the transfer writes to holds what is to be kept: nothing, or the file being resumed.\<close>

lemma getProbeStore_ok:
  assumes "getProbeStore ne i rawURI opts dirOpt outOpt name p sel start new m resp rl r = (Inr v, r')"
    and "new \<longrightarrow> start = 0 \<and> fileData r p = []" "0 \<le> start" "start > 0 \<longrightarrow> outOpt \<noteq> '''' \<and> start = int (length (fileData r p))" "new \<longrightarrow> outOpt \<noteq> ''''"
  shows "\<exists>q s r1 r2. v = (m, q) \<and> fileData r' q = fileData r2 q \<and> transferBody ne i q s opts resp rl (mLength m) r1 = (Inr (), r2) \<and>
    s = int (length (fileData r1 q)) \<and>
    (if start > 0 \<and> rsStatusCode resp = statusPartialContent then q = p \<and> s = start \<and> fileData r1 q = fileData r p else fileData r1 q = [])"
proof -
  define out where "out = (if sel = '''' \<and> outOpt = '''' \<and> mFilename m \<noteq> '''' \<and> mFilename m \<noteq> name
      then resolveOutputPath (neQuery ne) dirOpt '''' (mFilename m) rawURI else p)"
  have out: "start > 0 \<or> new \<Longrightarrow> out = p" using assms(4,5) by (auto simp: out_def)
  show ?thesis
  proof (cases new)
    case True
    then have "getProbeTransfer ne i opts m p start new resp rl r = (Inr v, r')"
      using assms(1,2) out by (simp add: getProbeStore_def out_def Let_def)
    from getProbeTransfer_ok[OF this] obtain r1 r2 where "v = (m, p)" "fileData r1 p = fileData r p" "fileData r' p = fileData r2 p"
        "transferBody ne i p start opts resp rl (mLength m) r1 = (Inr (), r2)" by blast
    then show ?thesis using assms(2) True by (intro exI[of _ p] exI[of _ start] exI[of _ r1] exI[of _ r2]) simp
  next
    case False
    define s where "s = (if out \<noteq> p \<or> rsStatusCode resp \<noteq> statusPartialContent then 0 else start)"
    obtain q r1 r2 where c: "chooseOutput ne i opts outOpt sel out s r = (Inr q, r1)" "openFile ne (\<not> s > 0) q r1 = (Inr (), r2)"
        "getProbeTransfer ne i opts m q (if s > 0 then s else 0) new resp rl r2 = (Inr v, r')"
      using assms(1) False unfolding getProbeStore_def Let_def out_def[symmetric] s_def[symmetric] by (auto simp: bindS_Inr)
    have f: "fileData r2 q = (if \<not> s > 0 then [] else fileData r q)" "s > 0 \<longrightarrow> q = out"
      using openFile_ok[OF c(2)] chooseOutput_ok[OF c(1)] by (simp_all add: fileData_def)
    from getProbeTransfer_ok[OF c(3)] obtain r3 r4 where t: "v = (m, q)" "fileData r3 q = fileData r2 q" "fileData r' q = fileData r4 q"
        "transferBody ne i q (if s > 0 then s else 0) opts resp rl (mLength m) r3 = (Inr (), r4)" by blast
    show ?thesis
    proof (cases "start > 0 \<and> rsStatusCode resp = statusPartialContent")
      case True
      then have "s = start" "q = p" using out f(2) by (auto simp: s_def)
      then show ?thesis using t f assms(4) True by (intro exI[of _ q] exI[of _ s] exI[of _ r3] exI[of _ r4]) auto
    next
      case False
      then have "\<not> s > 0" using assms(3) by (auto simp: s_def)
      then show ?thesis using t f False by (intro exI[of _ q] exI[of _ 0] exI[of _ r3] exI[of _ r4]) auto
    qed
  qed
qed


definition requestedPath :: "netEnv \<Rightarrow> nat \<Rightarrow> string \<Rightarrow> string \<Rightarrow> string \<Rightarrow> run \<Rightarrow> string" where
  "requestedPath ne i rawURI dirOpt outOpt r =
     (if outputPath (obj (rnE r) i) \<noteq> '''' then outputPath (obj (rnE r) i)
      else resolveOutputPath (neQuery ne) dirOpt outOpt (filenameFromURI (neQuery ne) rawURI) rawURI)"

text \<open>The ways \<open>getProbeAnswer\<close> succeeds.\<close>

lemma getProbeAnswer_cases:
  assumes "getProbeAnswer ne i rawURI opts dirOpt outOpt name p sel start new resp r = (Inr (m, q), r')" "\<not> mNotModified m"
    "new \<longrightarrow> start = 0" "0 \<le> start"
  shows "(start > 0 \<and> q = p \<and> mLength m = start \<and> completeLengthFromUnsatisfiedRange resp = Some start \<and> fileData r' p = fileData r p) \<or>
    (rsStatusCode resp \<noteq> statusPartialContent \<and> isHTTPBodySuccess (rsStatusCode resp) \<and>
      getProbeStore ne i rawURI opts dirOpt outOpt name p sel start new (metaFromResponse (neHttp ne) (neQuery ne) resp rawURI opts) resp (-1) r = (Inr (m, q), r')) \<or>
    (rsStatusCode resp = statusPartialContent \<and> start > 0 \<and> (\<exists>cr m0. validateOpenRangeResponse resp start (-1) = Inr cr \<and>
      (bcTotalKnown cr \<or> bcEnd cr < MaxInt64 \<longrightarrow> mLength m0 = bcEnd cr + 1) \<and> (bcTotalKnown cr \<longrightarrow> bcTotal cr = bcEnd cr + 1) \<and>
      getProbeStore ne i rawURI opts dirOpt outOpt name p sel start new m0 resp (wrap64 (bcEnd cr - bcStart cr + 1)) r = (Inr (m, q), r')))"
proof -
  let ?m = "metaFromResponse (neHttp ne) (neQuery ne) resp rawURI opts"
  have nm: "rsStatusCode resp \<noteq> statusNotModified"
    using assms(1,2) by (auto simp: getProbeAnswer_def notModifiedMeta_def Let_def split: prod.splits if_splits)
  show ?thesis
  proof (cases "start > 0 \<and> rsStatusCode resp = statusRangeNotSatisfiable \<and> completeLengthFromUnsatisfiedRange resp = Some start")
    case True
    then show ?thesis using assms nm by (auto simp: getProbeAnswer_def discardNew_def Let_def)
  next
    case no416: False
    have succ: "isHTTPBodySuccess (rsStatusCode resp)"
      using assms(1) nm no416 by (auto simp: getProbeAnswer_def Let_def isHTTPBodySuccess_def split: if_splits)
    show ?thesis
    proof (cases "rsStatusCode resp = statusPartialContent")
      case False
      then show ?thesis using assms(1) nm no416 succ by (auto simp: getProbeAnswer_def Let_def isHTTPBodySuccess_def)
    next
      case True
      then have st: "start > 0" using assms(1,4) nm no416 succ by (auto simp: getProbeAnswer_def Let_def isHTTPBodySuccess_def split: if_splits)
      then obtain cr where cr: "validateOpenRangeResponse resp start (-1) = Inr cr"
          "getProbeStore ne i rawURI opts dirOpt outOpt name p sel start new
             (?m\<lparr>mAcceptRange := True, mLength := (if bcTotalKnown cr then bcTotal cr else if bcEnd cr < MaxInt64 then bcEnd cr + 1 else mLength ?m)\<rparr>)
             resp (wrap64 (bcEnd cr - bcStart cr + 1)) r = (Inr (m, q), r')"
        using assms(1) nm no416 succ True by (auto simp: getProbeAnswer_def Let_def isHTTPBodySuccess_def split: sum.splits)
      have tot: "bcTotalKnown cr \<Longrightarrow> bcTotal cr = bcEnd cr + 1"
        using cr(1) by (auto simp: validateOpenRangeResponse_def bindR_eq_Inr split: if_splits)
      then have "bcTotalKnown cr \<or> bcEnd cr < MaxInt64 \<longrightarrow>
          mLength (?m\<lparr>mAcceptRange := True, mLength := (if bcTotalKnown cr then bcTotal cr else if bcEnd cr < MaxInt64 then bcEnd cr + 1 else mLength ?m)\<rparr>) =
            bcEnd cr + 1" by auto
      then show ?thesis using True st cr tot by blast
    qed
  qed
qed

text \<open>A server that states the length of the representation wherever it states a length.\<close>

definition statesLength :: "netEnv \<Rightarrow> options \<Rightarrow> string \<Rightarrow> bool" where
  "statesLength ne opts content \<longleftrightarrow>
     (\<forall>t rq resp. neDo ne t rq opts = Inr resp \<longrightarrow>
        (isHTTPTransferSuccess (rsStatusCode resp) \<and> (rqMethod rq = ''HEAD'' \<or> rsStatusCode resp \<noteq> statusPartialContent) \<longrightarrow>
           (\<forall>u. mLength (metaFromResponse (neHttp ne) (neQuery ne) resp u opts) > 0 \<longrightarrow>
              mLength (metaFromResponse (neHttp ne) (neQuery ne) resp u opts) = int (length content))) \<and>
        (\<forall>cr. validatePartialContentRange resp = Inr cr \<longrightarrow> bcTotalKnown cr \<and> bcTotal cr = int (length content)) \<and>
        (\<forall>n. completeLengthFromUnsatisfiedRange resp = Some n \<longrightarrow> n = int (length content)))"

lemma statesLength_complete:
  "statesLength ne opts content \<Longrightarrow> neDo ne t rq opts = Inr resp \<Longrightarrow> completeLengthFromUnsatisfiedRange resp = Some n \<Longrightarrow> n = int (length content)"
  unfolding statesLength_def by blast

lemma statesLength_range:
  "statesLength ne opts content \<Longrightarrow> neDo ne t rq opts = Inr resp \<Longrightarrow> validatePartialContentRange resp = Inr cr \<Longrightarrow>
   bcTotalKnown cr \<and> bcTotal cr = int (length content)"
  unfolding statesLength_def by blast

lemma statesLength_meta:
  "statesLength ne opts content \<Longrightarrow> neDo ne t rq opts = Inr resp \<Longrightarrow> isHTTPTransferSuccess (rsStatusCode resp) \<Longrightarrow>
   rqMethod rq = ''HEAD'' \<or> rsStatusCode resp \<noteq> statusPartialContent \<Longrightarrow> mLength (metaFromResponse (neHttp ne) (neQuery ne) resp u opts) > 0 \<Longrightarrow>
   mLength (metaFromResponse (neHttp ne) (neQuery ne) resp u opts) = int (length content)"
  unfolding statesLength_def by blast

lemma prefix_length_eq: "prefix xs ys \<Longrightarrow> int (length xs) = int (length ys) \<Longrightarrow> xs = ys"
  by (auto simp: prefix_def)

text \<open>Up to the answer: the path is the requested one, and the file there is new, kept for resuming, or left alone.\<close>

lemma getProbe_response:
  assumes "downloadSingleWithGETProbe ne i rawURI opts dirOpt outOpt r = (Inr (m, q), r')"
  obtains p start new r4 rq t resp where "p = requestedPath ne i rawURI dirOpt outOpt r" "neDo ne t rq opts = Inr resp" "rqMethod rq \<noteq> ''HEAD''"
    "getProbeAnswer ne i rawURI opts dirOpt outOpt (filenameFromURI (neQuery ne) rawURI) p (outputPath (obj (rnE r) i)) start new resp r4 = (Inr (m, q), r')"
    "0 \<le> start" "new \<longrightarrow> start = 0 \<and> fileData r4 p = [] \<and> outOpt \<noteq> ''''"
    "start > 0 \<longrightarrow> optionBool opts ''continue'' \<and> start = int (length (fileData r4 p)) \<and> fileData r4 p = fileData r p"
proof -
  define p where "p = requestedPath ne i rawURI dirOpt outOpt r"
  obtain x r1 where x: "getProbePrepare ne i opts outOpt p r = (Inr x, r1)"
      "(case x of (p', start, new) \<Rightarrow> \<lambda>r1. bindS (newRequest ne ''GET'' rawURI r1) (\<lambda>rq0 r2. (case getProbeRequest ne opts p' start rq0 r2 of (rq, r3) \<Rightarrow>
        (case httpDo ne rq opts r3 of (Inl er, r4) \<Rightarrow> (Inl er, discardNew ne new p' r4)
         | (Inr resp, r4) \<Rightarrow> getProbeAnswer ne i rawURI opts dirOpt outOpt (filenameFromURI (neQuery ne) rawURI) p'
             (outputPath (obj (rnE r) i)) start new resp r4)))) r1 = (Inr (m, q), r')"
    using assms unfolding downloadSingleWithGETProbe_def Let_def p_def requestedPath_def by (subst (asm) bindS_Inr) blast
  obtain p' start new where "x = (p', start, new)" by (cases x)
  note prep = x(1)[unfolded this] and rest = x(2)[unfolded this prod.case]
  note pr = getProbePrepare_ok[OF prep]
  then have "p' = p" by blast
  with rest obtain rq0 r2 where q0: "newRequest ne ''GET'' rawURI r1 = (Inr rq0, r2)"
      "(case getProbeRequest ne opts p start rq0 r2 of (rq, r3) \<Rightarrow>
        (case httpDo ne rq opts r3 of (Inl er, r4) \<Rightarrow> (Inl er, discardNew ne new p r4)
         | (Inr resp, r4) \<Rightarrow> getProbeAnswer ne i rawURI opts dirOpt outOpt (filenameFromURI (neQuery ne) rawURI) p
             (outputPath (obj (rnE r) i)) start new resp r4)) = (Inr (m, q), r')"
    unfolding bindS_Inr by blast
  obtain rq r3 where q: "getProbeRequest ne opts p start rq0 r2 = (rq, r3)" by force
  have "fileData r3 p = fileData r2 p"
    using q by (auto simp: getProbeRequest_def applyConditionalHeaders_def fileData_def dest!: statFile_files split: if_splits prod.splits option.splits)
  then have f: "fileData (tick r3) p = fileData r1 p" using q0(1) by (simp add: newRequest_def split: option.splits)
  obtain resp where resp: "neDo ne (rnTick r3) rq opts = Inr resp"
      "getProbeAnswer ne i rawURI opts dirOpt outOpt (filenameFromURI (neQuery ne) rawURI) p (outputPath (obj (rnE r) i)) start new resp (tick r3) = (Inr (m, q), r')"
    using q0(2) q unfolding httpDo_def by (auto split: sum.splits)
  have "new \<longrightarrow> outOpt \<noteq> ''''"
    using prep by (auto simp: getProbePrepare_def canCreateSingleDestinationBeforeGET_def split: if_splits prod.splits)
  moreover have "rqMethod rq \<noteq> ''HEAD''" using getProbeRequest_method[OF q] newRequest_method[OF q0(1)] by simp
  ultimately show ?thesis using that[OF p_def resp(1) _ resp(2)] pr f by auto
qed

text \<open>A whole body replaces the file; a range continues it.\<close>

lemma getProbe_whole:
  assumes server: "servesContent ne opts content" "neDo ne t rq opts = Inr resp" "rqMethod rq \<noteq> ''HEAD''"
    and status: "rsStatusCode resp \<noteq> statusPartialContent" "isHTTPBodySuccess (rsStatusCode resp)"
    and t: "transferBody ne i q s opts resp (-1) (mLength m) r5 = (Inr (), r6)" "s = int (length (fileData r5 q))" "fileData r5 q = []"
    and m: "m = metaFromResponse (neHttp ne) (neQuery ne) resp rawURI opts"
  shows "fileData r6 q = content \<and> (mLength m > 0 \<longrightarrow> int (length content) = mLength m)"
proof -
  have "nat s = length (fileData r5 q)" using t(2) by simp
  from transferBody_stored[OF t(1) this] obtain b where b: "responseReader (neHttp ne) resp opts = Inr b" "fileData r6 q = bodyData b" "bodyEnds b"
      "\<not> responseBodyDecoded resp opts \<and> mLength m > 0 \<longrightarrow> int (length (bodyData b)) = mLength m" using t(3) by auto
  moreover have "mLength m > 0 \<Longrightarrow> \<not> responseBodyDecoded resp opts" unfolding m by (auto simp: metaFromResponse_def Let_def)
  ultimately show ?thesis using servesContent_whole[OF server status(2,1) b(1,3)] by auto
qed

lemma getProbe_range:
  assumes server: "servesContent ne opts content" "neDo ne t rq opts = Inr resp" "rqMethod rq \<noteq> ''HEAD''" "rsStatusCode resp = statusPartialContent"
    and v: "validateOpenRangeResponse resp start (-1) = Inr cr" "start > 0"
    and old: "prefix old content" "start = int (length old)" "fileData r5 q = old" "s = start"
    and t: "transferBody ne i q s opts resp (wrap64 (bcEnd cr - bcStart cr + 1)) len r5 = (Inr (), r6)"
  shows "prefix (fileData r6 q) content \<and> int (length (fileData r6 q)) = bcEnd cr + 1"
proof -
  note v' = validateOpenRangeResponse_ok[OF v(1)]
  have w: "wrap64 (bcEnd cr - bcStart cr + 1) = bcEnd cr - start + 1" using v' v(2) by (subst wrap64_nonneg_id) auto
  let ?n = "nat (bcEnd cr - start + 1)" and ?b = "bodyData (rsBody resp)"
  have "nat s = length (fileData r5 q)" "\<not> bcEnd cr - start + 1 < 0" using old v' by auto
  with transferBody_stored[OF t this(1)] have f: "fileData r6 q = old @ take ?n ?b" "length (take ?n ?b) = ?n"
    unfolding w old(3) by auto
  have "prefix ?b (drop (nat start) content)" using servesContent_range[OF server v'(1)] v'(2) by simp
  then have "prefix (take ?n ?b) (drop (nat start) content)" by (meson prefix_order.order_trans take_is_prefix)
  moreover have "old = take (nat start) content" using old(1,2) by (auto simp: prefix_def)
  ultimately have "prefix (fileData r6 q) content" unfolding f(1) by (metis append_take_drop_id same_prefix_prefix)
  moreover have "int (length (fileData r6 q)) = bcEnd cr + 1" unfolding f(1) using f(2) old(2) v' by auto
  ultimately show ?thesis by blast
qed

lemma getProbe_stored:
  assumes server: "servesContent ne opts content" "int (length content) \<le> MaxInt64"
    and old: "optionBool opts ''continue'' \<Longrightarrow> prefix (fileData r (requestedPath ne i rawURI dirOpt outOpt r)) content"
    and caller: "optionBool opts ''continue'' \<Longrightarrow> outOpt \<noteq> ''''"
    and ok: "downloadSingleWithGETProbe ne i rawURI opts dirOpt outOpt r = (Inr (m, q), r')" "\<not> mNotModified m"
  shows "prefix (fileData r' q) content \<and> (mLength m > 0 \<longrightarrow> int (length (fileData r' q)) = mLength m) \<and>
    (mLength m > 0 \<or> fileData r' q = content) \<and> (statesLength ne opts content \<longrightarrow> fileData r' q = content)"
proof -
  from getProbe_response[OF ok(1)] obtain p start new r4 rq t resp where p: "p = requestedPath ne i rawURI dirOpt outOpt r"
    and a: "neDo ne t rq opts = Inr resp" "rqMethod rq \<noteq> ''HEAD''" "getProbeAnswer ne i rawURI opts dirOpt outOpt (filenameFromURI (neQuery ne) rawURI) p
      (outputPath (obj (rnE r) i)) start new resp r4 = (Inr (m, q), r')"
    and st: "0 \<le> start" and new: "new \<longrightarrow> start = 0 \<and> fileData r4 p = [] \<and> outOpt \<noteq> ''''"
    and res: "start > 0 \<longrightarrow> optionBool opts ''continue'' \<and> start = int (length (fileData r4 p)) \<and> fileData r4 p = fileData r p" .
  have old4: "start > 0 \<longrightarrow> outOpt \<noteq> '''' \<and> start = int (length (fileData r4 p)) \<and> prefix (fileData r4 p) content"
    using res caller old unfolding p by metis
  have new0: "new \<longrightarrow> start = 0" "new \<longrightarrow> start = 0 \<and> fileData r4 p = []" "new \<longrightarrow> outOpt \<noteq> ''''"
    and st1: "start > 0 \<longrightarrow> outOpt \<noteq> '''' \<and> start = int (length (fileData r4 p))" using new old4 by auto
  note store = getProbeStore_ok[OF _ new0(2) st st1 new0(3)]
  from getProbeAnswer_cases[OF a(3) ok(2) new0(1) st] show ?thesis
  proof (elim disjE conjE exE)
    assume s: "0 < start" "q = p" "mLength m = start" "completeLengthFromUnsatisfiedRange resp = Some start" "fileData r' p = fileData r4 p"
    have "fileData r' p = content" if "statesLength ne opts content"
      using statesLength_complete[OF that a(1) s(4)] old4 s(1,5) by (simp add: prefix_length_eq)
    then show ?thesis using old4 s by simp
  next
    let ?m = "metaFromResponse (neHttp ne) (neQuery ne) resp rawURI opts"
    assume s: "rsStatusCode resp \<noteq> statusPartialContent" "isHTTPBodySuccess (rsStatusCode resp)"
      and "getProbeStore ne i rawURI opts dirOpt outOpt (filenameFromURI (neQuery ne) rawURI) p (outputPath (obj (rnE r) i)) start new ?m resp (-1) r4 = (Inr (m, q), r')"
    from store[OF this(3)] s(1) obtain s5 r5 r6 where t: "m = ?m" "fileData r' q = fileData r6 q" "transferBody ne i q s5 opts resp (-1) (mLength ?m) r5 = (Inr (), r6)"
        "s5 = int (length (fileData r5 q))" "fileData r5 q = []" by auto
    show ?thesis using getProbe_whole[OF server(1) a(1,2) s t(3-5) refl] t(1,2) by auto
  next
    fix cr m0
    assume s: "rsStatusCode resp = statusPartialContent" "0 < start" "validateOpenRangeResponse resp start (-1) = Inr cr"
      and m0: "bcTotalKnown cr \<or> bcEnd cr < MaxInt64 \<longrightarrow> mLength m0 = bcEnd cr + 1" "bcTotalKnown cr \<longrightarrow> bcTotal cr = bcEnd cr + 1"
      and "getProbeStore ne i rawURI opts dirOpt outOpt (filenameFromURI (neQuery ne) rawURI) p (outputPath (obj (rnE r) i)) start new m0 resp
        (wrap64 (bcEnd cr - bcStart cr + 1)) r4 = (Inr (m, q), r')"
    from store[OF this(6)] s(1,2) obtain r5 r6 where t: "m = m0" "q = p" "fileData r' q = fileData r6 q" "fileData r5 q = fileData r4 p"
        "transferBody ne i q start opts resp (wrap64 (bcEnd cr - bcStart cr + 1)) (mLength m0) r5 = (Inr (), r6)" by auto
    from old4 s(2) have o1: "prefix (fileData r4 p) content" "start = int (length (fileData r4 p))" by auto
    have l: "prefix (fileData r6 q) content" "int (length (fileData r6 q)) = bcEnd cr + 1"
      using getProbe_range[OF server(1) a(1,2) s(1,3,2) o1 t(4) refl t(5)] by auto
    then have "bcEnd cr < MaxInt64" using prefix_length_le[OF l(1)] server(2) by linarith
    then have "mLength m = bcEnd cr + 1" using m0(1) t(1) by simp
    moreover have "fileData r6 q = content" if "statesLength ne opts content"
      using statesLength_range[OF that a(1) validateOpenRangeResponse_ok(1)[OF s(3)]] m0(2) l by (simp add: prefix_length_eq)
    moreover have "0 \<le> bcEnd cr" using validateOpenRangeResponse_ok(4,5)[OF s(3)] by linarith
    ultimately show ?thesis using l t(3) by simp
  qed
qed

text \<open>A transfer whose GET request is also the probe stores the representation. Under the same hypothesis on
  the server, and for a resumed file that holds a prefix of \<open>content\<close>, a success means that the file at the
  returned path holds a prefix of \<open>content\<close> of exactly the length the transfer reports, and all of it when it reports
  none. The only caller asks for it with \<open>continue\<close> only together with \<open>out\<close>, which the hypothesis
  on \<open>outOpt\<close> states: without it a resumed range could be written to the start of a file named by the server.\<close>

theorem getProbe_integrity:
  assumes "servesContent ne opts content" "int (length content) \<le> MaxInt64"
    and "optionBool opts ''continue'' \<Longrightarrow> prefix (fileData r (requestedPath ne i rawURI dirOpt outOpt r)) content"
    and "optionBool opts ''continue'' \<Longrightarrow> outOpt \<noteq> ''''"
    and "downloadSingleWithGETProbe ne i rawURI opts dirOpt outOpt r = (Inr (m, q), r')" "\<not> mNotModified m"
  shows "prefix (fileData r' q) content \<and> (if mLength m > 0 then int (length (fileData r' q)) = mLength m else fileData r' q = content)"
  using getProbe_stored[OF assms] by auto


definition probeRun :: run where
  "probeRun = \<lparr>rnE = exampleEngine\<lparr>eHeap := [zeroDownload], ePathReservations := [], eReservedPathsByGID := []\<rparr>, rnFiles = (\<lambda>_. None), rnTick = 0\<rparr>"

lemma exampleNet_getProbe:
  "\<exists>m q. fst (downloadSingleWithGETProbe exampleNet 0 ''http://h/f'' [] ''/dl'' ''f'' probeRun) = Inr (m, q) \<and> mLength m = 6 \<and> \<not> mNotModified m"
  using exampleNet_body
  by (simp add: downloadSingleWithGETProbe_def getProbePrepare_def canCreateSingleDestinationBeforeGET_def empty_options bindS_def
    newRequest_def exampleNet_simps getProbeRequest_def applyConditionalHeaders_def httpDo_def getProbeAnswer_def statusNotModified_def
    statusPartialContent_def statusRangeNotSatisfiable_def isHTTPTransferSuccess_def isHTTPBodySuccess_def getProbeStore_def chooseOutput_def
    probeRun_def outputPath_def obj_def zeroDownload_def statOk_def resolveExistingOutputPath_def statFile_def tick_def ensureDownloadDir_def
    fsCallS_def reservePath_def reserveOutputPath_def openFile_def isDirectory_def getProbeTransfer_def transferBody_def responseReader_def
    responseBodyDecoded_def metaFromResponse_def nonNegativeLength_def deferClose_def closeFile_def joinErrors_def case_prod_unfold Let_def)

theorem getProbe_integrity_witness:
  "\<exists>m q. fst (downloadSingleWithGETProbe exampleNet 0 ''http://h/f'' [] ''/dl'' ''f'' probeRun) = Inr (m, q) \<and>
     prefix (fileData (snd (downloadSingleWithGETProbe exampleNet 0 ''http://h/f'' [] ''/dl'' ''f'' probeRun)) q) ''abcdef'' \<and>
     length (fileData (snd (downloadSingleWithGETProbe exampleNet 0 ''http://h/f'' [] ''/dl'' ''f'' probeRun)) q) = 6"
proof -
  obtain m q where mq: "fst (downloadSingleWithGETProbe exampleNet 0 ''http://h/f'' [] ''/dl'' ''f'' probeRun) = Inr (m, q)" "mLength m = 6" "\<not> mNotModified m"
    using exampleNet_getProbe by blast
  have "fileData probeRun p = []" for p by (simp add: fileData_def probeRun_def)
  then show ?thesis
    using getProbe_integrity[OF exampleNet_serves, where r = probeRun and i = 0 and rawURI = "''http://h/f''" and dirOpt = "''/dl''" and outOpt = "''f''"
        and m = m and q = q and r' = "snd (downloadSingleWithGETProbe exampleNet 0 ''http://h/f'' [] ''/dl'' ''f'' probeRun)"] mq
    by (simp add: prod_eq_iff)
qed

end
