(* ===== verification/Http_Segmented.thy ===== *)
theory Http_Segmented
  imports Http_Single
begin

text \<open>
  The segmented download (downloader.go): the adaptive controller of the number of connections, the transfer of one
  range (\<open>downloadRange\<close>), and the loop of \<open>downloadSegmented\<close>, which starts range transfers, collects their results
  and retries them. The transfers run concurrently. A running transfer is a \<open>rangeRun\<close>, whose next action
  is a step of its own; the loop's iteration is a step; an execution is any interleaving of them. All transfers write to
  the one file and report to the one download.
\<close>

section \<open>The controller\<close>

record controller =
  ctEffectiveLimit :: int
  ctSuccessesAtLimit :: int
  ctRejectedProbeLimit :: int
  ctGeneration :: int

definition adjustedCeiling :: "int \<Rightarrow> controller \<Rightarrow> int" where
  "adjustedCeiling ceil0 c =
     (let ceil1 = (if ceil0 < 1 then 1 else ceil0) in
      if ctRejectedProbeLimit c > 0 \<and> ceil1 \<ge> ctRejectedProbeLimit c
      then (let ceil2 = ctRejectedProbeLimit c - 1 in if ceil2 < 1 then 1 else ceil2)
      else ceil1)"

definition clampCeiling :: "int \<Rightarrow> controller \<Rightarrow> controller" where
  "clampCeiling ceil0 c =
     (let ceil1 = adjustedCeiling ceil0 c;
          l1 = (if ctEffectiveLimit c < 1 then 1 else ctEffectiveLimit c);
          l2 = (if l1 > ceil1 then ceil1 else l1) in
      if l2 \<noteq> ctEffectiveLimit c
      then c\<lparr>ctEffectiveLimit := l2, ctSuccessesAtLimit := 0, ctGeneration := ctGeneration c + 1\<rparr>
      else c\<lparr>ctEffectiveLimit := l2\<rparr>)"

definition newSegmentedConcurrencyController :: "int \<Rightarrow> controller" where
  "newSegmentedConcurrencyController ceil1 =
     clampCeiling ceil1 \<lparr>ctEffectiveLimit = 1, ctSuccessesAtLimit = 0, ctRejectedProbeLimit = 0, ctGeneration = 0\<rparr>"

definition limit :: "controller \<Rightarrow> int" where
  "limit c = (if ctEffectiveLimit c < 1 then 1 else ctEffectiveLimit c)"

definition launchState :: "controller \<Rightarrow> int \<times> int" where
  "launchState c = (limit c, ctGeneration c)"

definition onSuccess :: "int \<Rightarrow> int \<Rightarrow> int \<Rightarrow> controller \<Rightarrow> controller" where
  "onSuccess launchLimit launchGeneration ceil1 c0 =
     (let c = clampCeiling ceil1 c0 in
      if launchGeneration \<noteq> ctGeneration c \<or> launchLimit \<noteq> ctEffectiveLimit c then c
      else
        (let c1 = c\<lparr>ctSuccessesAtLimit := ctSuccessesAtLimit c + 1\<rparr> in
         if ctSuccessesAtLimit c1 < ctEffectiveLimit c1 then c1
         else
           (let c2 = c1\<lparr>ctSuccessesAtLimit := 0\<rparr> in
            if ctEffectiveLimit c2 < adjustedCeiling ceil1 c2
            then c2\<lparr>ctEffectiveLimit := ctEffectiveLimit c2 + 1, ctGeneration := ctGeneration c2 + 1\<rparr>
            else c2)))"

definition onThrottle :: "int \<Rightarrow> int \<Rightarrow> int \<Rightarrow> controller \<Rightarrow> controller" where
  "onThrottle launchLimit0 launchGeneration ceil1 c0 =
     (let c = clampCeiling ceil1 c0 in
      if launchGeneration \<noteq> ctGeneration c then c
      else
        (let launchLimit = (if launchLimit0 < 1 then limit c else launchLimit0);
             c1 = (if launchLimit > 1 \<and> (ctRejectedProbeLimit c = 0 \<or> launchLimit < ctRejectedProbeLimit c)
                   then c\<lparr>ctRejectedProbeLimit := launchLimit\<rparr> else c);
             next1 = (if launchLimit - 1 < 1 then 1 else launchLimit - 1);
             ceil2 = adjustedCeiling ceil1 c1;
             next2 = (if next1 > ceil2 then ceil2 else next1) in
         c1\<lparr>ctEffectiveLimit := next2, ctSuccessesAtLimit := 0, ctGeneration := ctGeneration c1 + 1\<rparr>))"

definition onRetryableError :: "int \<Rightarrow> int \<Rightarrow> int \<Rightarrow> controller \<Rightarrow> controller" where
  "onRetryableError launchLimit launchGeneration ceil1 c0 =
     (let c = clampCeiling ceil1 c0 in
      if launchGeneration \<noteq> ctGeneration c \<or> launchLimit \<noteq> ctEffectiveLimit c then c
      else c\<lparr>ctSuccessesAtLimit := 0, ctGeneration := ctGeneration c + 1\<rparr>)"

section \<open>Options of a segmented download\<close>

definition meetsSegmentedMinimum :: "int \<Rightarrow> int \<Rightarrow> bool \<Rightarrow> bool" where
  "meetsSegmentedMinimum len minSplit explicit =
     (if len \<le> 0 \<or> minSplit < 0 \<or> minSplit > MaxInt64 div 2 then False
      else
        (let m = minSplit * 2; minimum = (if \<not> explicit \<and> m < 8388608 then 8388608 else m) in len \<ge> minimum))"

definition normalizeHTTPVersion :: "string \<Rightarrow> string" where
  "normalizeHTTPVersion raw =
     (let v = ToLower (TrimSpace raw) in
      if v = '''' \<or> v = ''auto'' then ''auto''
      else if v = ''1'' \<or> v = ''1.1'' \<or> v = ''http/1.1'' \<or> v = ''h1'' then ''1.1''
      else if v = ''2'' \<or> v = ''2.0'' \<or> v = ''http/2'' \<or> v = ''h2'' then ''2''
      else if v = ''3'' \<or> v = ''3.0'' \<or> v = ''http/3'' \<or> v = ''h3'' then ''3''
      else raw)"

definition transportOptionsForSegmented :: "options \<Rightarrow> options" where
  "transportOptionsForSegmented opts =
     (if normalizeHTTPVersion (optionString opts ''http-version'') \<noteq> ''auto'' then opts
      else AList.update ''http-version'' (VStr ''1.1'') (cloneOptions opts))"

definition httpSegmentSize :: "options \<Rightarrow> int \<Rightarrow> int" where
  "httpSegmentSize opts minSplit =
     (let size0 = optionBytes opts ''goaria-http-segment-size'' defaultHTTPSegmentSize;
          size = (if size0 \<le> 0 then defaultHTTPSegmentSize else size0) in
      if minSplit > size then minSplit else size)"

definition dynamicSegmentedOptionSnapshot :: "options \<Rightarrow> options \<Rightarrow> options" where
  "dynamicSegmentedOptionSnapshot dopts global =
     fold (\<lambda>key opts. if optionExplicit opts key then opts
                      else AList.update key (normalizeOptionValue (VStr (optionString global key))) opts)
       [''split'', ''max-connection-per-server''] dopts"

definition segmentedWorkerLimit :: "options \<Rightarrow> options \<Rightarrow> options \<Rightarrow> int \<Rightarrow> int" where
  "segmentedWorkerLimit dopts global fallback max0 =
     (let maxi = (if max0 < 1 then 1 else max0);
          opts = dynamicSegmentedOptionSnapshot dopts global;
          split0 = optionInt opts ''split'' (optionInt fallback ''split'' 1);
          split = (if split0 < 1 then 1 else split0);
          conn0 = optionInt opts ''max-connection-per-server'' split;
          conn = (if conn0 < 1 then 1 else conn0);
          lim0 = min split conn;
          lim1 = (if lim0 > maxi then maxi else lim0) in
      if lim1 < 1 then 1 else lim1)"

definition canRetryRangeAttempt :: "int \<Rightarrow> int \<Rightarrow> bool" where
  "canRetryRangeAttempt attempts maxTries0 =
     (if maxTries0 = 0 then True
      else (let maxTries = (if maxTries0 < 0 then 1 else maxTries0) in attempts < maxTries))"

section \<open>State of the loop\<close>

record segmentedRangeTask =
  tkIndex :: nat
  tkRange :: chunkRange
  tkAttempts :: int
  tkNotBefore :: "int option"
  tkLaunchLimit :: int
  tkLaunchGeneration :: int

text \<open>Where the copy of a range stands: the part of \<open>copyState\<close> that belongs to the one transfer.\<close>

record copyPos =
  cpOffset :: nat
  cpRead :: int
  cpWritten :: int
  cpPending :: int

datatype phase = Requesting | Copying copyPos body | Finished "err option"

record rangeRun =
  rrTask :: segmentedRangeTask
  rrOpts :: options
  rrMaxTries :: int
  rrRetryWait :: int
  rrPhase :: phase

record seg =
  sgTasks :: "segmentedRangeTask list"
  sgRunning :: "rangeRun list"
  sgActive :: int
  sgController :: controller
  sgFirstErr :: "err option"
  sgCancelled :: bool
  sgFile :: string
  sgD :: Download
  sgTracker :: speedTracker

text \<open>The options the loop reads at one moment: those of the download, the global ones, and those the download was
  started with.\<close>

record segOpts =
  soDownload :: options
  soGlobal :: options
  soFallback :: options

definition workerLimit :: "segOpts \<Rightarrow> int \<Rightarrow> int" where
  "workerLimit so n = segmentedWorkerLimit (soDownload so) (soGlobal so) (soFallback so) n"

definition remainingChunks :: "bool \<Rightarrow> seg \<Rightarrow> int" where
  "remainingChunks includeResult s = sgActive s + int (length (sgTasks s)) + (if includeResult then 1 else 0)"

section \<open>One range\<close>

definition rangeLength :: "chunkRange \<Rightarrow> int" where
  "rangeLength r = wrap64 (crEnd r - crStart r + 1)"

definition rangeRequest :: "httpEnv \<Rightarrow> remoteMeta \<Rightarrow> options \<Rightarrow> chunkRange \<Rightarrow> request \<Rightarrow> request" where
  "rangeRequest he m opts r rq =
     applyIfRange he m (applyRangeRequestOptions he opts (''bytes='' @ Itoa (crStart r) @ ''-'' @ Itoa (crEnd r)) rq)"

text \<open>The answer to the request: an error ends the transfer, otherwise the file is opened and the copy begins. The
  three errors are those of opening, seeking and closing the file.\<close>

definition rangeAnswer :: "remoteMeta \<Rightarrow> chunkRange \<Rightarrow> response res \<Rightarrow> err option \<Rightarrow> err option \<Rightarrow> err option \<Rightarrow> phase" where
  "rangeAnswer m r ans openErr seekErr closeErr =
     (case ans of
        Inl er \<Rightarrow> Finished (Some er)
      | Inr resp \<Rightarrow>
         (if rsStatusCode resp \<noteq> statusPartialContent
          then Finished (Some (HttpStatusError ''GET'' (mFinalURI m) (rsStatusCode resp)
                 (''range '' @ Itoa (crStart r) @ ''-'' @ Itoa (crEnd r) @ '': '' @ rsStatus resp)))
          else
            (case validateExactRangeResponse resp (crStart r) (crEnd r) (mLength m) of
               Inl er \<Rightarrow> Finished (Some er)
             | Inr cr \<Rightarrow>
                (if openErr \<noteq> None then Finished openErr
                 else if seekErr \<noteq> None then Finished (joinErrors [seekErr, closeErr])
                 else Copying \<lparr>cpOffset = nat (crStart r), cpRead = 0, cpWritten = 0, cpPending = 0\<rparr>
                        (boundReads (copyBufferSize (rangeLength r)) (limitReads (nat (rangeLength r)) (rsBody resp)))))))"

definition setPhase :: "nat \<Rightarrow> phase \<Rightarrow> seg \<Rightarrow> seg" where
  "setPhase i ph s = s\<lparr>sgRunning := (sgRunning s)[i := (sgRunning s ! i)\<lparr>rrPhase := ph\<rparr>]\<rparr>"

definition beginRange :: "netEnv \<Rightarrow> nat \<Rightarrow> remoteMeta \<Rightarrow> err option \<Rightarrow> err option \<Rightarrow> err option \<Rightarrow> nat \<Rightarrow> seg \<Rightarrow> seg" where
  "beginRange ne t m openErr seekErr closeErr i s =
     (let rr = sgRunning s ! i; r = tkRange (rrTask rr) in
      setPhase i
        (case heNewRequest (neHttp ne) (mFinalURI m) of
           Some er \<Rightarrow> Finished (Some er)
         | None \<Rightarrow>
            (let rq = rangeRequest (neHttp ne) m (rrOpts rr) r \<lparr>rqMethod = ''GET'', rqURL = mFinalURI m, rqHost = heURLHost (neHttp ne) (mFinalURI m), rqHeader = []\<rparr> in
             rangeAnswer m r (neDo ne t rq (rrOpts rr)) openErr seekErr closeErr)) s)"

text \<open>The end of the copy: \<open>copyExactWithProgressCount\<close> and the rest of \<open>downloadRange\<close>.\<close>

definition rangeEnd :: "int \<Rightarrow> copyState \<Rightarrow> err option \<Rightarrow> err option \<Rightarrow> err option" where
  "rangeEnd expected c x closeErr =
     (let er = (case x of Some e \<Rightarrow> Some e
                | None \<Rightarrow> if csWritten c \<noteq> expected \<or> expected - csRead c \<noteq> 0 then Some ErrUnexpectedEOF else None) in
      if er \<noteq> None then Some (RangeBodyError (the (joinErrors [er, closeErr])) (csWritten c)) else closeErr)"

definition toCopy :: "copyPos \<Rightarrow> seg \<Rightarrow> copyState" where
  "toCopy cp s =
     \<lparr>csFile = sgFile s, csOffset = cpOffset cp, csRead = cpRead cp, csWritten = cpWritten cp, csPending = cpPending cp,
      csD = sgD s, csTracker = sgTracker s\<rparr>"

definition posOf :: "copyState \<Rightarrow> copyPos" where
  "posOf c = \<lparr>cpOffset = csOffset c, cpRead = csRead c, cpWritten = csWritten c, cpPending = csPending c\<rparr>"

definition putCopy :: "copyState \<Rightarrow> seg \<Rightarrow> seg" where
  "putCopy c s = s\<lparr>sgFile := csFile c, sgD := csD c, sgTracker := csTracker c\<rparr>"

definition roundRange :: "roundEnv \<Rightarrow> err option \<Rightarrow> nat \<Rightarrow> copyPos \<Rightarrow> body \<Rightarrow> seg \<Rightarrow> seg" where
  "roundRange re closeErr i cp evs s =
     (let rr = sgRunning s ! i; expected = rangeLength (tkRange (rrTask rr));
          ev = (case evs of [] \<Rightarrow> ([], Some EOF) | e # _ \<Rightarrow> e) in
      (case copyRound re (optionBytes (rrOpts rr) ''lowest-speed-limit'' 0) ev (toCopy cp s) of
         Continue c \<Rightarrow> setPhase i (Copying (posOf c) (tl evs)) (putCopy c s)
       | Stop x c \<Rightarrow> setPhase i (Finished (rangeEnd expected c x closeErr)) (putCopy c s)))"

section \<open>The loop\<close>

fun readySegmentedTaskIndex :: "segmentedRangeTask list \<Rightarrow> int \<Rightarrow> nat option" where
  "readySegmentedTaskIndex [] now = None"
| "readySegmentedTaskIndex (task # tasks) now =
     (if (case tkNotBefore task of None \<Rightarrow> True | Some t \<Rightarrow> \<not> t > now) then Some 0
      else map_option Suc (readySegmentedTaskIndex tasks now))"

definition setConns :: "seg \<Rightarrow> seg" where
  "setConns s = s\<lparr>sgD := setConnections (sgActive s) (sgD s)\<rparr>"

definition startTask :: "segOpts \<Rightarrow> segmentedRangeTask \<Rightarrow> seg \<Rightarrow> seg" where
  "startTask so task s =
     (let rangeOpts = transportOptionsForSegmented (soDownload so);
          tries0 = optionInt rangeOpts ''max-tries'' 5;
          tries = (if tries0 < 0 then 1 else tries0);
          wait = wrap64 (optionInt rangeOpts ''retry-wait'' 0 * second);
          (l, g) = launchState (sgController s);
          task' = task\<lparr>tkAttempts := tkAttempts task + 1, tkLaunchLimit := l, tkLaunchGeneration := g\<rparr> in
      setConns (s\<lparr>sgActive := sgActive s + 1,
        sgRunning := sgRunning s @ [\<lparr>rrTask = task', rrOpts = rangeOpts, rrMaxTries = tries, rrRetryWait = wait, rrPhase = Requesting\<rparr>]\<rparr>))"

function startLoop :: "segOpts \<Rightarrow> int \<Rightarrow> seg \<Rightarrow> seg" where
  "startLoop so now s =
     (if sgActive s < limit (sgController s) then
        (case readySegmentedTaskIndex (sgTasks s) now of
           None \<Rightarrow> s
         | Some idx \<Rightarrow>
            (if idx < length (sgTasks s)
             then startLoop so now (startTask so (sgTasks s ! idx) (s\<lparr>sgTasks := take idx (sgTasks s) @ drop (Suc idx) (sgTasks s)\<rparr>))
             else s))
      else s)"
  by pat_completeness auto
termination
  by (relation "measure (\<lambda>(so, now, s). length (sgTasks s))") (auto simp: startTask_def setConns_def Let_def split: prod.split)

declare startLoop.simps [simp del]

definition startReady :: "segOpts \<Rightarrow> int \<Rightarrow> seg \<Rightarrow> seg" where
  "startReady so now s =
     (if sgFirstErr s \<noteq> None then s
      else startLoop so now (s\<lparr>sgController := clampCeiling (workerLimit so (remainingChunks False s)) (sgController s)\<rparr>))"

definition requeue :: "int \<Rightarrow> rangeRun \<Rightarrow> seg \<Rightarrow> seg" where
  "requeue now rr s = s\<lparr>sgTasks := sgTasks s @ [(rrTask rr)\<lparr>tkNotBefore := Some (now + rrRetryWait rr)\<rparr>]\<rparr>"

definition failWith :: "err \<Rightarrow> seg \<Rightarrow> seg" where
  "failWith er s = (if sgFirstErr s = None then s\<lparr>sgFirstErr := Some er, sgCancelled := True\<rparr> else s)"

definition rollbackBody :: "err \<Rightarrow> seg \<Rightarrow> seg" where
  "rollbackBody er s =
     (case errAs isBodyError er of Some (RangeBodyError e n) \<Rightarrow> s\<lparr>sgD := rollbackCompleted n (sgD s)\<rparr> | _ \<Rightarrow> s)"

text \<open>Receiving the result of the transfer at position \<open>i\<close>.\<close>

definition handleResult :: "segOpts \<Rightarrow> int \<Rightarrow> nat \<Rightarrow> err option \<Rightarrow> seg \<Rightarrow> seg" where
  "handleResult so now i result s0 =
     (let rr = sgRunning s0 ! i; task = rrTask rr; l = tkLaunchLimit task; g = tkLaunchGeneration task;
          s = setConns (s0\<lparr>sgActive := sgActive s0 - 1, sgRunning := take i (sgRunning s0) @ drop (Suc i) (sgRunning s0)\<rparr>) in
      (case result of
         None \<Rightarrow>
          (let s1 = s\<lparr>sgD := markPieceComplete (int (tkIndex task)) (sgD s)\<rparr> in
           s1\<lparr>sgController := onSuccess l g (workerLimit so (remainingChunks False s1)) (sgController s1)\<rparr>)
       | Some er \<Rightarrow>
          (let s1 = rollbackBody er s; canRetry = canRetryRangeAttempt (tkAttempts task) (rrMaxTries rr) in
           if isAdaptiveRangeThrottleError er then
             (let s2 = s1\<lparr>sgController := onThrottle l g (workerLimit so (remainingChunks canRetry s1)) (sgController s1)\<rparr> in
              if canRetry then requeue now rr s2 else failWith er s2)
           else if isRetryableRangeError er \<and> canRetry then
             requeue now rr (s1\<lparr>sgController := onRetryableError l g (workerLimit so (remainingChunks True s1)) (sgController s1)\<rparr>)
           else failWith er s1)))"

definition ctxDone :: "err \<Rightarrow> seg \<Rightarrow> seg" where
  "ctxDone er s = (failWith er s)\<lparr>sgCancelled := True\<rparr>"

definition segDone :: "seg \<Rightarrow> bool" where
  "segDone s \<longleftrightarrow> (sgTasks s = [] \<and> sgActive s = 0) \<or> (sgFirstErr s \<noteq> None \<and> sgActive s = 0)"

text \<open>The file is created or opened and set to the length of the representation.\<close>

definition truncateTo :: "nat \<Rightarrow> string \<Rightarrow> string" where
  "truncateTo n f = take n f @ replicate (n - length f) (CHR 0x00)"

fun tasksFrom :: "nat \<Rightarrow> chunkRange list \<Rightarrow> segmentedRangeTask list" where
  "tasksFrom i [] = []"
| "tasksFrom i (ch # chs) =
     \<lparr>tkIndex = i, tkRange = ch, tkAttempts = 0, tkNotBefore = None, tkLaunchLimit = 0, tkLaunchGeneration = 0\<rparr> # tasksFrom (Suc i) chs"

definition segInit :: "segOpts \<Rightarrow> int \<Rightarrow> remoteMeta \<Rightarrow> chunkRange list \<Rightarrow> string \<Rightarrow> Download \<Rightarrow> seg" where
  "segInit so now m chunks f d =
     startReady so now
       \<lparr>sgTasks = tasksFrom 0 chunks, sgRunning = [], sgActive = 0,
        sgController = newSegmentedConcurrencyController (workerLimit so (int (length chunks))),
        sgFirstErr = None, sgCancelled = False, sgFile = truncateTo (nat (mLength m)) f, sgD = resetProgress (mLength m) chunks d,
        sgTracker = \<lparr>stBytes = 0, stLastBytes = 0, stLastAt = 0\<rparr>\<rparr>"

text \<open>The interleavings: a transfer gets its answer or does a round of its copy; the loop receives a result, wakes up from
  its ticker, or sees the context done. \<open>Q\<close> holds of the options the loop may read while it runs.\<close>

inductive segStep :: "netEnv \<Rightarrow> remoteMeta \<Rightarrow> (segOpts \<Rightarrow> bool) \<Rightarrow> seg \<Rightarrow> seg \<Rightarrow> bool" for ne m Q where
  answer: "i < length (sgRunning s) \<Longrightarrow> rrPhase (sgRunning s ! i) = Requesting \<Longrightarrow>
     segStep ne m Q s (beginRange ne t m openErr seekErr closeErr i s)"
| round: "i < length (sgRunning s) \<Longrightarrow> rrPhase (sgRunning s ! i) = Copying cp evs \<Longrightarrow>
     segStep ne m Q s (roundRange re closeErr i cp evs s)"
| result: "\<not> segDone s \<Longrightarrow> Q so \<Longrightarrow> Q so' \<Longrightarrow> i < length (sgRunning s) \<Longrightarrow> rrPhase (sgRunning s ! i) = Finished er \<Longrightarrow>
     segStep ne m Q s (startReady so' now' (handleResult so now i er s))"
| ticker: "\<not> segDone s \<Longrightarrow> Q so \<Longrightarrow> segStep ne m Q s (startReady so now s)"
| cancel: "\<not> segDone s \<Longrightarrow> Q so \<Longrightarrow> segStep ne m Q s (startReady so now (ctxDone er s))"

inductive_cases segStepE [elim]: "segStep ne m Q s s'"

text \<open>Before the loop: opening the file, setting its length and closing it may fail.\<close>

definition segStart :: "err option \<Rightarrow> err option \<Rightarrow> err option \<Rightarrow> segOpts \<Rightarrow> int \<Rightarrow> remoteMeta \<Rightarrow> chunkRange list \<Rightarrow> string \<Rightarrow> Download \<Rightarrow> seg res" where
  "segStart openErr truncErr closeErr so now m chunks f d =
     (case (openErr, truncErr, closeErr) of
        (Some er, _, _) \<Rightarrow> Inl er
      | (None, Some er, _) \<Rightarrow> Inl er
      | (None, None, Some er) \<Rightarrow> Inl er
      | (None, None, None) \<Rightarrow> Inr (segInit so now m chunks f d))"

text \<open>What \<open>downloadSegmented\<close> leaves and returns when its loop has ended; \<open>ctxErr\<close> is the state of the context then.\<close>

definition segResult :: "err option \<Rightarrow> seg \<Rightarrow> err option \<times> seg" where
  "segResult ctxErr s =
     (if sgFirstErr s \<noteq> None then sgFirstErr s else ctxErr, s\<lparr>sgCancelled := True, sgD := setConnections 0 (sgD s)\<rparr>)"


section \<open>The controller never probes a rejected limit again\<close>

definition ctInv :: "controller \<Rightarrow> bool" where
  "ctInv c \<longleftrightarrow> 1 \<le> ctEffectiveLimit c \<and> (ctRejectedProbeLimit c = 0 \<or> 2 \<le> ctRejectedProbeLimit c \<and> ctEffectiveLimit c < ctRejectedProbeLimit c)"

inductive ctStep :: "(int \<Rightarrow> bool) \<Rightarrow> controller \<Rightarrow> controller \<Rightarrow> bool" for P where
  clamp: "P n \<Longrightarrow> ctStep P c (clampCeiling n c)"
| success: "P n \<Longrightarrow> ctStep P c (onSuccess l g n c)"
| throttle: "P n \<Longrightarrow> ctStep P c (onThrottle l g n c)"
| retry: "P n \<Longrightarrow> ctStep P c (onRetryableError l g n c)"

lemma adjustedCeiling_bounds:
  assumes "ctInv c"
  shows "1 \<le> adjustedCeiling n c" "adjustedCeiling n c \<le> max 1 n" "ctRejectedProbeLimit c \<noteq> 0 \<Longrightarrow> adjustedCeiling n c < ctRejectedProbeLimit c"
  using assms by (auto simp: adjustedCeiling_def ctInv_def Let_def)

lemma clampCeiling_inv:
  assumes "ctInv c"
  shows "ctInv (clampCeiling n c)" "ctRejectedProbeLimit (clampCeiling n c) = ctRejectedProbeLimit c"
    "ctEffectiveLimit (clampCeiling n c) \<le> max 1 n" "ctEffectiveLimit (clampCeiling n c) \<le> ctEffectiveLimit c"
  using assms adjustedCeiling_bounds[OF assms, of n] by (auto simp: clampCeiling_def ctInv_def Let_def)

lemma onThrottle_inv:
  assumes "ctInv c"
  shows "ctInv (onThrottle l g n c) \<and> (ctRejectedProbeLimit c \<noteq> 0 \<longrightarrow> ctRejectedProbeLimit (onThrottle l g n c) \<noteq> 0 \<and>
    ctRejectedProbeLimit (onThrottle l g n c) \<le> ctRejectedProbeLimit c) \<and> ctEffectiveLimit (onThrottle l g n c) \<le> max 1 n"
proof -
  define c1 where "c1 = clampCeiling n c"
  note cl = clampCeiling_inv[OF assms, of n, folded c1_def]
  define l' where "l' = (if l < 1 then limit c1 else l)"
  define c2 where "c2 = (if l' > 1 \<and> (ctRejectedProbeLimit c1 = 0 \<or> l' < ctRejectedProbeLimit c1) then c1\<lparr>ctRejectedProbeLimit := l'\<rparr> else c1)"
  define nx where "nx = (if l' - 1 < 1 then 1 else l' - 1)"
  define e where "e = (if nx > adjustedCeiling n c2 then adjustedCeiling n c2 else nx)"
  have r2: "ctRejectedProbeLimit c2 = 0 \<or> 2 \<le> ctRejectedProbeLimit c2" using cl(1) by (auto simp: c2_def ctInv_def)
  have e: "1 \<le> e" "e \<le> max 1 n" "ctRejectedProbeLimit c2 \<noteq> 0 \<longrightarrow> e < ctRejectedProbeLimit c2"
    using r2 unfolding e_def adjustedCeiling_def Let_def nx_def by auto
  have eq: "onThrottle l g n c = (if g \<noteq> ctGeneration c1 then c1
      else c2\<lparr>ctEffectiveLimit := e, ctSuccessesAtLimit := 0, ctGeneration := ctGeneration c2 + 1\<rparr>)"
    unfolding onThrottle_def Let_def c1_def c2_def e_def nx_def l'_def by simp
  have "ctRejectedProbeLimit c1 \<noteq> 0 \<longrightarrow> ctRejectedProbeLimit c2 \<noteq> 0 \<and> ctRejectedProbeLimit c2 \<le> ctRejectedProbeLimit c1"
    by (auto simp: c2_def)
  then show ?thesis unfolding eq using cl e r2 by (auto simp: ctInv_def)
qed

lemma onSuccess_inv:
  assumes "ctInv c"
  shows "ctInv (onSuccess l g n c) \<and> ctRejectedProbeLimit (onSuccess l g n c) = ctRejectedProbeLimit c \<and> ctEffectiveLimit (onSuccess l g n c) \<le> max 1 n"
proof -
  define c1 where "c1 = clampCeiling n c"
  note cl = clampCeiling_inv[OF assms, of n, folded c1_def]
  note adj = adjustedCeiling_bounds[OF cl(1), of n]
  have a: "adjustedCeiling n (c1\<lparr>ctSuccessesAtLimit := x\<rparr>) = adjustedCeiling n c1" for x by (simp add: adjustedCeiling_def)
  show ?thesis unfolding onSuccess_def Let_def c1_def[symmetric] using cl adj by (auto simp: ctInv_def a)
qed

lemma onRetryableError_inv:
  assumes "ctInv c"
  shows "ctInv (onRetryableError l g n c) \<and> ctRejectedProbeLimit (onRetryableError l g n c) = ctRejectedProbeLimit c \<and>
    ctEffectiveLimit (onRetryableError l g n c) \<le> max 1 n"
  using clampCeiling_inv[OF assms, of n] by (auto simp: onRetryableError_def Let_def ctInv_def)

lemma ctStep_inv:
  "ctStep P c c' \<Longrightarrow> ctInv c \<Longrightarrow> ctInv c' \<and>
     (ctRejectedProbeLimit c \<noteq> 0 \<longrightarrow> ctRejectedProbeLimit c' \<noteq> 0 \<and> ctRejectedProbeLimit c' \<le> ctRejectedProbeLimit c) \<and>
     (\<exists>n. P n \<and> ctEffectiveLimit c' \<le> max 1 n)"
  by (induction rule: ctStep.induct) (use clampCeiling_inv onSuccess_inv onThrottle_inv onRetryableError_inv in fastforce)+

lemma newController_inv: "ctInv (newSegmentedConcurrencyController n)"
  unfolding newSegmentedConcurrencyController_def by (rule clampCeiling_inv(1)) (simp add: ctInv_def)

interpretation ctl: invariant_system "\<lambda>c. \<exists>n. c = newSegmentedConcurrencyController n" "ctStep P" ctInv for P
  by unfold_locales (use newController_inv ctStep_inv in blast)+

lemma onThrottle_rejects:
  assumes "ctInv c" "g = ctGeneration (clampCeiling n c)" "1 < l"
  shows "ctRejectedProbeLimit (onThrottle l g n c) \<noteq> 0 \<and> ctRejectedProbeLimit (onThrottle l g n c) \<le> l"
  using assms clampCeiling_inv[OF assms(1), of n] by (auto simp: onThrottle_def Let_def ctInv_def)




section \<open>Every byte of a segment is a byte of the representation\<close>

definition taskIndexes :: "seg \<Rightarrow> nat list" where
  "taskIndexes s = map tkIndex (sgTasks s @ map rrTask (sgRunning s))"

text \<open>The bytes of the range from \<open>a\<close> on and before \<open>b\<close> are those of the representation.\<close>

definition agrees :: "string \<Rightarrow> string \<Rightarrow> int \<Rightarrow> int \<Rightarrow> bool" where
  "agrees content f a b \<longleftrightarrow> (\<forall>k < length content. a \<le> int k \<longrightarrow> int k < b \<longrightarrow> f ! k = content ! k)"

definition chunkDone :: "string \<Rightarrow> chunkRange list \<Rightarrow> string \<Rightarrow> nat \<Rightarrow> bool" where
  "chunkDone content chunks f j \<longleftrightarrow> agrees content f (crStart (chunks ! j)) (crEnd (chunks ! j) + 1)"

definition phaseOk :: "string \<Rightarrow> string \<Rightarrow> chunkRange \<Rightarrow> phase \<Rightarrow> bool" where
  "phaseOk content f r ph =
     (case ph of
        Requesting \<Rightarrow> True
      | Copying cp evs \<Rightarrow>
          0 \<le> cpWritten cp \<and> cpRead cp = cpWritten cp \<and> 0 \<le> cpPending cp \<and> int (cpOffset cp) = crStart r + cpWritten cp \<and>
          cpWritten cp + int (length (bodyData evs)) \<le> rangeLength r \<and> prefix (bodyData evs) (drop (cpOffset cp) content) \<and>
          agrees content f (crStart r) (int (cpOffset cp))
      | Finished None \<Rightarrow> agrees content f (crStart r) (crEnd r + 1)
      | Finished (Some er) \<Rightarrow> True)"

definition chunksIn :: "string \<Rightarrow> chunkRange list \<Rightarrow> bool" where
  "chunksIn content chunks \<longleftrightarrow> int (length content) \<le> MaxInt64 \<and>
     (\<forall>r \<in> set chunks. 0 \<le> crStart r \<and> crStart r \<le> crEnd r \<and> crEnd r < int (length content))"

definition shapeOk :: "string \<Rightarrow> seg \<Rightarrow> bool" where
  "shapeOk content s \<longleftrightarrow> length (sgFile s) = length content \<and> sgActive s = int (length (sgRunning s)) \<and> distinct (taskIndexes s)"

definition tasksOk :: "chunkRange list \<Rightarrow> seg \<Rightarrow> bool" where
  "tasksOk chunks s \<longleftrightarrow> (\<forall>t \<in> set (sgTasks s @ map rrTask (sgRunning s)). tkIndex t < length chunks \<and> chunks ! tkIndex t = tkRange t)"

text \<open>Unless the download has failed, every segment is queued, running or stored.\<close>

definition coverOk :: "string \<Rightarrow> chunkRange list \<Rightarrow> seg \<Rightarrow> bool" where
  "coverOk content chunks s \<longleftrightarrow>
     sgFirstErr s = None \<longrightarrow> (\<forall>j < length chunks. j \<in> set (taskIndexes s) \<or> chunkDone content chunks (sgFile s) j)"

definition phasesOk :: "string \<Rightarrow> seg \<Rightarrow> bool" where
  "phasesOk content s \<longleftrightarrow> (\<forall>rr \<in> set (sgRunning s). phaseOk content (sgFile s) (tkRange (rrTask rr)) (rrPhase rr))"

definition segInv :: "string \<Rightarrow> chunkRange list \<Rightarrow> seg \<Rightarrow> bool" where
  "segInv content chunks s \<longleftrightarrow> shapeOk content s \<and> tasksOk chunks s \<and> coverOk content chunks s \<and> phasesOk content s"

lemma rangeLength_in:
  assumes "chunksIn content chunks" "r \<in> set chunks"
  shows "rangeLength r = crEnd r - crStart r + 1"
  unfolding rangeLength_def using assms by (intro wrap64_nonneg_id) (auto simp: chunksIn_def)

text \<open>Writing bytes of the representation at their place keeps what already agrees.\<close>

lemma writeAt_content:
  assumes "prefix a (drop off content)" "off \<le> length content" "length f = length content"
  shows "length (writeAt off a f) = length content" "k < length content \<Longrightarrow> writeAt off a f ! k = (if off \<le> k \<and> k < off + length a then content ! k else f ! k)"
proof -
  have len: "off + length a \<le> length content" using prefix_length_le[OF assms(1)] assms(2) by simp
  show "length (writeAt off a f) = length content" using len assms(3) by (simp add: writeAt_def)
  assume k: "k < length content"
  have "a ! (k - off) = content ! k" if "off \<le> k" "k < off + length a"
  proof -
    have "a ! (k - off) = drop off content ! (k - off)" using assms(1) that by (auto simp: prefix_def nth_append)
    then show ?thesis using that assms(2) by simp
  qed
  then show "writeAt off a f ! k = (if off \<le> k \<and> k < off + length a then content ! k else f ! k)"
    using k len assms(3) by (auto simp: writeAt_def nth_append min_def)
qed

lemma agrees_mono: "agrees content f a b \<Longrightarrow> a \<le> a' \<Longrightarrow> b' \<le> b \<Longrightarrow> agrees content f a' b'"
  unfolding agrees_def by auto

lemma agrees_writeAt:
  assumes "prefix d (drop off content)" "off \<le> length content" "length f = length content" "agrees content f a b"
  shows "agrees content (writeAt off d f) a b"
  using assms writeAt_content(2)[OF assms(1-3)] by (auto simp: agrees_def)

lemma agrees_extend:
  assumes "prefix d (drop off content)" "off \<le> length content" "length f = length content" "agrees content f a (int off)"
  shows "agrees content (writeAt off d f) a (int (off + length d))"
proof -
  have "off + length d \<le> length content" using prefix_length_le[OF assms(1)] assms(2) by simp
  then show ?thesis using assms(4) writeAt_content(2)[OF assms(1-3)] by (auto simp: agrees_def)
qed

section \<open>Steps keep the invariant\<close>

text \<open>Changes of the control part.\<close>

lemma segInv_control:
  assumes "segInv content chunks s" "sgFile s' = sgFile s" "sgTasks s' = sgTasks s" "sgRunning s' = sgRunning s" "sgActive s' = sgActive s"
    "sgFirstErr s' = None \<Longrightarrow> sgFirstErr s = None"
  shows "segInv content chunks s'"
  using assms by (simp add: segInv_def shapeOk_def tasksOk_def coverOk_def phasesOk_def taskIndexes_def)

lemma startTask_fields:
  "sgFile (startTask so t s) = sgFile s" "sgTasks (startTask so t s) = sgTasks s" "sgFirstErr (startTask so t s) = sgFirstErr s"
  "sgController (startTask so t s) = sgController s" "sgActive (startTask so t s) = sgActive s + 1"
  "\<exists>rr. sgRunning (startTask so t s) = sgRunning s @ [rr] \<and> rrPhase rr = Requesting \<and> tkIndex (rrTask rr) = tkIndex t \<and> tkRange (rrTask rr) = tkRange t"
  by (simp_all add: startTask_def setConns_def Let_def split: prod.split)

lemma ready_index: "readySegmentedTaskIndex ts now = Some k \<Longrightarrow> k < length ts"
  by (induction ts now arbitrary: k rule: readySegmentedTaskIndex.induct) (auto split: if_splits option.splits)

lemma segInv_startTask:
  assumes "segInv content chunks s" "idx < length (sgTasks s)"
  shows "segInv content chunks (startTask so (sgTasks s ! idx) (s\<lparr>sgTasks := take idx (sgTasks s) @ drop (Suc idx) (sgTasks s)\<rparr>))"
proof -
  let ?t = "sgTasks s ! idx" and ?s1 = "s\<lparr>sgTasks := take idx (sgTasks s) @ drop (Suc idx) (sgTasks s)\<rparr>"
  obtain rr where rr: "sgRunning (startTask so ?t ?s1) = sgRunning s @ [rr]" "rrPhase rr = Requesting" "tkIndex (rrTask rr) = tkIndex ?t" "tkRange (rrTask rr) = tkRange ?t"
    using startTask_fields(6)[of so ?t ?s1] by auto
  have split: "sgTasks s = take idx (sgTasks s) @ ?t # drop (Suc idx) (sgTasks s)" using assms(2) by (rule id_take_nth_drop)
  have "mset (map tkIndex (sgTasks s)) = add_mset (tkIndex ?t) (mset (map tkIndex (take idx (sgTasks s) @ drop (Suc idx) (sgTasks s))))"
    using arg_cong[OF split, of "\<lambda>ts. mset (map tkIndex ts)"] by simp
  then have ms: "mset (taskIndexes (startTask so ?t ?s1)) = mset (taskIndexes s)"
    unfolding taskIndexes_def startTask_fields rr(1) map_append mset_append by (simp add: rr(3))
  then have ix: "distinct (taskIndexes (startTask so ?t ?s1)) = distinct (taskIndexes s)" "set (taskIndexes (startTask so ?t ?s1)) = set (taskIndexes s)"
    by (metis mset_eq_imp_distinct_iff, metis set_mset_mset)
  have sub: "set (sgTasks (startTask so ?t ?s1)) \<subseteq> set (sgTasks s)" "?t \<in> set (sgTasks s)"
    using assms(2) set_take_subset set_drop_subset by (fastforce simp: startTask_fields)+
  have inv: "shapeOk content s" "tasksOk chunks s" "coverOk content chunks s" "phasesOk content s" using assms(1) by (simp_all add: segInv_def)
  have "tasksOk chunks (startTask so ?t ?s1)"
    unfolding tasksOk_def
  proof
    fix t assume "t \<in> set (sgTasks (startTask so ?t ?s1) @ map rrTask (sgRunning (startTask so ?t ?s1)))"
    then consider "t = rrTask rr" | "t \<in> set (sgTasks s @ map rrTask (sgRunning s))" using sub(1) unfolding rr(1) by auto
    then show "tkIndex t < length chunks \<and> chunks ! tkIndex t = tkRange t"
      using inv(2) sub(2) rr(3,4) unfolding tasksOk_def by cases auto
  qed
  moreover have "shapeOk content (startTask so ?t ?s1)" using inv(1) ix(1) by (simp add: shapeOk_def startTask_fields rr(1))
  moreover have "coverOk content chunks (startTask so ?t ?s1)" using inv(3) ix(2) by (simp add: coverOk_def startTask_fields)
  moreover have "phasesOk content (startTask so ?t ?s1)"
    using inv(4) by (simp add: phasesOk_def startTask_fields rr(1,2) phaseOk_def)
  ultimately show ?thesis by (simp add: segInv_def)
qed

lemma segInv_startLoop: "segInv content chunks s \<Longrightarrow> segInv content chunks (startLoop so now s)"
proof (induction so now s rule: startLoop.induct)
  case (1 so now s)
  then show ?case using segInv_startTask[OF 1(2)] by (subst startLoop.simps) (auto split: option.splits)
qed

lemma segInv_startReady: "segInv content chunks s \<Longrightarrow> segInv content chunks (startReady so now s)"
  unfolding startReady_def by (simp, intro impI, rule segInv_startLoop, erule segInv_control) simp_all


lemma setPhase_running:
  assumes "i < length (sgRunning s)"
  shows "map rrTask (sgRunning (setPhase i ph s)) = map rrTask (sgRunning s)"
  using assms by (simp add: setPhase_def map_update list_update_same_conv)

lemma segInv_setPhase:
  assumes "segInv content chunks s" "i < length (sgRunning s)" "phaseOk content (sgFile s) (tkRange (rrTask (sgRunning s ! i))) ph"
  shows "segInv content chunks (setPhase i ph s)"
proof -
  have ix: "taskIndexes (setPhase i ph s) = taskIndexes s"
    using setPhase_running[OF assms(2)] by (simp add: taskIndexes_def setPhase_def)
  have "phasesOk content (setPhase i ph s)"
    using assms by (auto simp: phasesOk_def setPhase_def segInv_def dest!: set_update_subset_insert[THEN subsetD])
  moreover have "tasksOk chunks (setPhase i ph s)"
    using assms(1) unfolding tasksOk_def setPhase_running[OF assms(2)] segInv_def by (simp add: setPhase_def tasksOk_def)
  ultimately show ?thesis using assms(1) ix by (simp add: segInv_def shapeOk_def coverOk_def setPhase_def)
qed

lemma phaseOk_write:
  assumes "phaseOk content f r ph" "prefix d (drop off content)" "off \<le> length content" "length f = length content"
  shows "phaseOk content (writeAt off d f) r ph"
  using assms(1) agrees_writeAt[OF assms(2-4)] by (auto simp: phaseOk_def split: phase.splits option.splits)

lemma segInv_write:
  assumes "segInv content chunks s" "prefix d (drop off content)" "off \<le> length content"
    "sgFile s' = writeAt off d (sgFile s)" "sgTasks s' = sgTasks s" "sgRunning s' = sgRunning s" "sgActive s' = sgActive s" "sgFirstErr s' = sgFirstErr s"
  shows "segInv content chunks s'"
proof -
  have l: "length (sgFile s) = length content" using assms(1) by (simp add: segInv_def shapeOk_def)
  have "chunkDone content chunks (sgFile s) j \<Longrightarrow> chunkDone content chunks (sgFile s') j" for j
    using agrees_writeAt[OF assms(2,3) l] by (simp add: chunkDone_def assms(4))
  moreover have "length (sgFile s') = length content" using writeAt_content(1)[OF assms(2,3) l] by (simp add: assms(4))
  ultimately show ?thesis using assms(1) phaseOk_write[OF _ assms(2,3) l]
    by (auto simp: segInv_def shapeOk_def tasksOk_def coverOk_def phasesOk_def taskIndexes_def assms(4-8))
qed

lemma segInv_answer:
  assumes "segInv content chunks s" "chunksIn content chunks" "\<And>opts. servesContent ne opts content" "i < length (sgRunning s)"
  shows "segInv content chunks (beginRange ne t m openErr seekErr closeErr i s)"
proof -
  define rr where "rr = sgRunning s ! i"
  define r where "r = tkRange (rrTask rr)"
  have "rrTask rr \<in> set (sgTasks s @ map rrTask (sgRunning s))" using assms(4) by (auto simp: rr_def)
  then have r: "r \<in> set chunks" using assms(1) unfolding segInv_def tasksOk_def r_def by (metis nth_mem)
  note len = rangeLength_in[OF assms(2) r]
  have ok: "phaseOk content (sgFile s) r (rangeAnswer m r (neDo ne t rq opts) openErr seekErr closeErr)" if get: "rqMethod rq \<noteq> ''HEAD''" for rq opts
  proof (cases "neDo ne t rq opts")
    case (Inr resp)
    show ?thesis
    proof (cases "rsStatusCode resp = statusPartialContent \<and> (\<exists>cr. validateExactRangeResponse resp (crStart r) (crEnd r) (mLength m) = Inr cr)")
      case True
      then obtain cr where cr: "validateExactRangeResponse resp (crStart r) (crEnd r) (mLength m) = Inr cr" by blast
      then have v: "validatePartialContentRange resp = Inr cr" "bcStart cr = crStart r"
        by (auto simp: validateExactRangeResponse_def bindR_eq_Inr split: if_splits)
      have start: "0 \<le> crStart r" using assms(2) r by (simp add: chunksIn_def)
      have "prefix (bodyData (rsBody resp)) (drop (nat (crStart r)) content)"
        using servesContent_range[OF assms(3) Inr get _ v(1)] True v(2) by simp
      then have "prefix (take n (bodyData (rsBody resp))) (drop (nat (crStart r)) content)" for n
        by (meson prefix_order.order_trans take_is_prefix)
      moreover have "0 \<le> rangeLength r" using len assms(2) r by (auto simp: chunksIn_def)
      ultimately show ?thesis using Inr True cr start
        by (auto simp: rangeAnswer_def phaseOk_def boundReads_data[OF copyBufferSize_pos] limitReads_data agrees_def joinErrors_def
            split: option.splits list.splits)
    next
      case False
      then show ?thesis using Inr by (auto simp: rangeAnswer_def phaseOk_def split: sum.splits)
    qed
  qed (simp add: rangeAnswer_def phaseOk_def)
  then show ?thesis unfolding beginRange_def Let_def rr_def[symmetric] r_def[symmetric]
    using segInv_setPhase[OF assms(1,4)] unfolding rr_def[symmetric] r_def[symmetric]
    by (auto simp: phaseOk_def rangeRequest_def split: option.split)
qed


lemma prefix_drop_append: "prefix (a @ b) (drop n xs) \<Longrightarrow> prefix b (drop (n + length a) xs)"
  by (metis add.commute append_eq_conv_conj append_assoc drop_drop prefix_def)

lemma segInv_round:
  assumes "segInv content chunks s" "chunksIn content chunks" "i < length (sgRunning s)" "rrPhase (sgRunning s ! i) = Copying cp evs"
  shows "segInv content chunks (roundRange re closeErr i cp evs s)"
proof -
  define rr where "rr = sgRunning s ! i"
  define r where "r = tkRange (rrTask rr)"
  have mem: "rr \<in> set (sgRunning s)" using assms(3) by (simp add: rr_def)
  then have "rrTask rr \<in> set (sgTasks s @ map rrTask (sgRunning s))" by simp
  then have r: "r \<in> set chunks" using assms(1) unfolding segInv_def tasksOk_def r_def by (metis nth_mem)
  have rb: "0 \<le> crStart r" "crStart r \<le> crEnd r" "crEnd r < int (length content)" using assms(2) r by (auto simp: chunksIn_def)
  note len = rangeLength_in[OF assms(2) r]
  have "phaseOk content (sgFile s) r (Copying cp evs)"
    using assms(1) mem assms(4) unfolding segInv_def phasesOk_def r_def rr_def by metis
  then have ph: "0 \<le> cpWritten cp" "cpRead cp = cpWritten cp" "0 \<le> cpPending cp" "int (cpOffset cp) = crStart r + cpWritten cp"
      "cpWritten cp + int (length (bodyData evs)) \<le> rangeLength r" "prefix (bodyData evs) (drop (cpOffset cp) content)"
      "agrees content (sgFile s) (crStart r) (int (cpOffset cp))" unfolding phaseOk_def phase.case by blast+
  have fl: "length (sgFile s) = length content" using assms(1) by (simp add: segInv_def shapeOk_def)
  have off: "cpOffset cp \<le> length content" using ph(4,5) rb len by linarith
  define ev where "ev = (case evs of [] \<Rightarrow> ([], Some EOF) | e # _ \<Rightarrow> e)"
  have evp: "prefix (fst ev) (bodyData evs)" "snd ev = None \<Longrightarrow> bodyData evs = fst ev @ bodyData (tl evs)"
    by (auto simp: ev_def split: list.splits)
  let ?c = "toCopy cp s"
  define out where "out = copyRound re (optionBytes (rrOpts rr) ''lowest-speed-limit'' 0) ev ?c"
  have c: "csOffset ?c \<le> length (csFile ?c)" "0 \<le> csPending ?c" using off fl ph(3) by (simp_all add: toCopy_def)
  note cases = copyRound_cases[OF c, where re = re and lowestSpeed = "optionBytes (rrOpts rr) ''lowest-speed-limit'' 0" and ev = ev, folded out_def]
  have pre: "prefix a (drop (cpOffset cp) content)" if "prefix a (fst ev)" for a
    using that evp(1) ph(6) by (meson prefix_order.order_trans)
  have put: "segInv content chunks (putCopy d s)" if "prefix a (fst ev)" "copied ?c a d" for a d
    by (rule segInv_write[OF assms(1) pre[OF that(1)] off]) (use that(2) in \<open>simp_all add: putCopy_def copied_def toCopy_def\<close>)
  have run: "sgRunning (putCopy d s) = sgRunning s" "sgFile (putCopy d s) = csFile d" for d by (simp_all add: putCopy_def)
  have eq: "roundRange re closeErr i cp evs s = (case out of
      Continue d \<Rightarrow> setPhase i (Copying (posOf d) (tl evs)) (putCopy d s)
    | Stop x d \<Rightarrow> setPhase i (Finished (rangeEnd (rangeLength r) d x closeErr)) (putCopy d s))"
    unfolding roundRange_def Let_def out_def ev_def r_def rr_def by simp
  have agr: "agrees content (csFile d) (crStart r) (int (csOffset d))" if "prefix a (fst ev)" "copied ?c a d" for a d
    using agrees_extend[OF pre[OF that(1)] off fl ph(7)] that(2) by (simp add: copied_def toCopy_def)
  show ?thesis
  proof (cases out)
    case (Continue d)
    then have d: "copied ?c (fst ev) d" "csRead d = csRead ?c + int (length (fst ev))" "snd ev = None" using cases by auto
    have "phaseOk content (csFile d) r (Copying (posOf d) (tl evs))"
      using ph(1-5) prefix_drop_append[of "fst ev" "bodyData (tl evs)" "cpOffset cp" content] ph(6) evp(2)[OF d(3)] d agr[OF prefix_order.refl d(1)]
      by (auto simp: phaseOk_def posOf_def copied_def toCopy_def)
    then show ?thesis unfolding eq Continue
      by (simp, intro segInv_setPhase put[OF prefix_order.refl d(1)]) (simp_all add: run assms(3) r_def[symmetric] rr_def[symmetric])
  next
    case (Stop x d)
    then obtain a where a: "prefix a (fst ev)" "copied ?c a d" "x = None \<longrightarrow> csRead d = csRead ?c + int (length a)" using cases by auto
    have "agrees content (csFile d) (crStart r) (crEnd r + 1)" if "rangeEnd (rangeLength r) d x closeErr = None"
    proof -
      have "csWritten d = rangeLength r" using that by (auto simp: rangeEnd_def Let_def joinErrors_def split: if_splits option.splits)
      moreover have "int (csOffset d) = crStart r + csWritten d" using a(2) ph(4) by (simp add: copied_def toCopy_def)
      ultimately show ?thesis using agr[OF a(1,2)] len by (simp add: algebra_simps)
    qed
    then have "phaseOk content (csFile d) r (Finished (rangeEnd (rangeLength r) d x closeErr))"
      by (auto simp: phaseOk_def split: option.splits)
    then show ?thesis unfolding eq Stop
      by (simp, intro segInv_setPhase put[OF a(1,2)]) (simp_all add: run assms(3) r_def[symmetric] rr_def[symmetric])
  qed
qed

lemma removeAt_split:
  assumes "i < length xs"
  shows "mset xs = add_mset (xs ! i) (mset (take i xs @ drop (Suc i) xs))"
  using arg_cong[OF id_take_nth_drop[OF assms], of mset] by simp

text \<open>Taking transfer \<open>i\<close> out of the running ones: its segment is no longer counted.\<close>

definition withoutRun :: "nat \<Rightarrow> seg \<Rightarrow> seg" where
  "withoutRun i s = s\<lparr>sgActive := sgActive s - 1, sgRunning := take i (sgRunning s) @ drop (Suc i) (sgRunning s)\<rparr>"

lemma withoutRun_sets:
  assumes "i < length (sgRunning s)"
  shows "mset (taskIndexes s) = add_mset (tkIndex (rrTask (sgRunning s ! i))) (mset (taskIndexes (withoutRun i s)))"
    "set (sgRunning (withoutRun i s)) \<subseteq> set (sgRunning s)"
    "int (length (sgRunning (withoutRun i s))) = int (length (sgRunning s)) - 1"
proof -
  have "mset (map tkIndex (map rrTask (sgRunning s))) = image_mset (tkIndex \<circ> rrTask) (mset (sgRunning s))" by (simp add: multiset.map_comp)
  also have "\<dots> = add_mset (tkIndex (rrTask (sgRunning s ! i))) (mset (map tkIndex (map rrTask (sgRunning (withoutRun i s)))))"
    unfolding removeAt_split[OF assms] by (simp add: withoutRun_def multiset.map_comp)
  finally show "mset (taskIndexes s) = add_mset (tkIndex (rrTask (sgRunning s ! i))) (mset (taskIndexes (withoutRun i s)))"
    unfolding taskIndexes_def map_append mset_append by (simp add: withoutRun_def)
  show "set (sgRunning (withoutRun i s)) \<subseteq> set (sgRunning s)" by (auto simp: withoutRun_def dest: in_set_takeD in_set_dropD)
  show "int (length (sgRunning (withoutRun i s))) = int (length (sgRunning s)) - 1" using assms by (simp add: withoutRun_def)
qed

text \<open>The invariant of the loop while it holds a result in its hand.\<close>

lemma segInv_without:
  assumes "segInv content chunks s" "i < length (sgRunning s)"
    and "sgFirstErr s = None \<Longrightarrow> chunkDone content chunks (sgFile s) (tkIndex (rrTask (sgRunning s ! i)))"
  shows "segInv content chunks (withoutRun i s)"
proof -
  note w = withoutRun_sets[OF assms(2)]
  have ix: "set (taskIndexes s) = insert (tkIndex (rrTask (sgRunning s ! i))) (set (taskIndexes (withoutRun i s)))"
    using arg_cong[OF w(1), of set_mset] by simp
  have "distinct (taskIndexes (withoutRun i s))" if "distinct (taskIndexes s)"
    using that w(1) by (metis distinct.simps(2) mset.simps(2) mset_eq_imp_distinct_iff)
  then have "shapeOk content (withoutRun i s)" using assms(1) w(3) by (simp add: segInv_def shapeOk_def withoutRun_def)
  moreover have "tasksOk chunks (withoutRun i s)"
    using assms(1) w(2) by (auto simp: segInv_def tasksOk_def withoutRun_def)
  moreover have "coverOk content chunks (withoutRun i s)"
    using assms(1,3) ix by (auto simp: segInv_def coverOk_def withoutRun_def)
  moreover have "phasesOk content (withoutRun i s)"
    using assms(1) w(2) by (auto simp: segInv_def phasesOk_def withoutRun_def)
  ultimately show ?thesis by (simp add: segInv_def)
qed

lemma segInv_requeue:
  assumes "segInv content chunks s" "i < length (sgRunning s)"
    and "sgFile s1 = sgFile s" "sgTasks s1 = sgTasks s" "sgRunning s1 = sgRunning (withoutRun i s)" "sgActive s1 = sgActive s - 1" "sgFirstErr s1 = sgFirstErr s"
  shows "segInv content chunks (requeue now (sgRunning s ! i) s1)"
proof -
  note w = withoutRun_sets[OF assms(2)]
  let ?s2 = "requeue now (sgRunning s ! i) s1"
  have ms: "mset (taskIndexes ?s2) = mset (taskIndexes s)"
    unfolding w(1) by (simp add: taskIndexes_def requeue_def assms(4,5) withoutRun_def)
  then have ix: "distinct (taskIndexes ?s2) = distinct (taskIndexes s)" "set (taskIndexes ?s2) = set (taskIndexes s)"
    by (metis mset_eq_imp_distinct_iff, metis set_mset_mset)
  have mem: "rrTask (sgRunning s ! i) \<in> set (map rrTask (sgRunning s))" using assms(2) by simp
  have inv: "shapeOk content s" "tasksOk chunks s" "coverOk content chunks s" "phasesOk content s" using assms(1) by (simp_all add: segInv_def)
  have "shapeOk content ?s2" using inv(1) w(3) ix(1) by (simp add: shapeOk_def requeue_def assms(3,5,6))
  moreover have "tasksOk chunks ?s2"
    unfolding tasksOk_def
  proof
    fix t assume "t \<in> set (sgTasks ?s2 @ map rrTask (sgRunning ?s2))"
    then consider "t \<in> set (sgTasks s @ map rrTask (sgRunning s))" | "t = (rrTask (sgRunning s ! i))\<lparr>tkNotBefore := Some (now + rrRetryWait (sgRunning s ! i))\<rparr>"
      using w(2) by (auto simp: requeue_def assms(4,5))
    then show "tkIndex t < length chunks \<and> chunks ! tkIndex t = tkRange t" using inv(2) mem unfolding tasksOk_def by cases auto
  qed
  moreover have "coverOk content chunks ?s2" using inv(3) ix(2) by (simp add: coverOk_def requeue_def assms(3,7))
  moreover have "phasesOk content ?s2" using inv(4) w(2) by (auto simp: phasesOk_def requeue_def assms(3,5))
  ultimately show ?thesis by (simp add: segInv_def)
qed


lemma rollbackBody_fields:
  "sgFile (rollbackBody er s) = sgFile s" "sgTasks (rollbackBody er s) = sgTasks s" "sgRunning (rollbackBody er s) = sgRunning s"
  "sgActive (rollbackBody er s) = sgActive s" "sgFirstErr (rollbackBody er s) = sgFirstErr s" "sgController (rollbackBody er s) = sgController s"
  by (simp_all add: rollbackBody_def split: option.split err.split)

lemma failWith_fields:
  "sgFile (failWith er s) = sgFile s" "sgTasks (failWith er s) = sgTasks s" "sgRunning (failWith er s) = sgRunning s"
  "sgActive (failWith er s) = sgActive s" "\<exists>y. sgFirstErr (failWith er s) = Some y" "sgController (failWith er s) = sgController s"
  by (simp_all add: failWith_def)

lemma segInv_fail:
  assumes "segInv content chunks s" "i < length (sgRunning s)"
    and "sgFile s' = sgFile s" "sgTasks s' = sgTasks s" "sgRunning s' = sgRunning (withoutRun i s)" "sgActive s' = sgActive s - 1" "sgFirstErr s' \<noteq> None"
  shows "segInv content chunks s'"
proof (rule segInv_control)
  have "segInv content chunks (s\<lparr>sgFirstErr := sgFirstErr s'\<rparr>)"
    using assms(1,7) by (auto simp: segInv_def shapeOk_def tasksOk_def coverOk_def phasesOk_def taskIndexes_def)
  from segInv_without[OF this, of i] assms(2,7)
  show "segInv content chunks (withoutRun i (s\<lparr>sgFirstErr := sgFirstErr s'\<rparr>))" by simp
qed (use assms in \<open>simp_all add: withoutRun_def\<close>)

lemmas result_fields = withoutRun_def setConns_def rollbackBody_fields failWith_fields

lemma segInv_result:
  assumes "segInv content chunks s" "i < length (sgRunning s)" "rrPhase (sgRunning s ! i) = Finished x"
  shows "segInv content chunks (handleResult so now i x s)"
proof (cases x)
  case None
  let ?rr = "sgRunning s ! i"
  have mem: "?rr \<in> set (sgRunning s)" using assms(2) by simp
  then have "phaseOk content (sgFile s) (tkRange (rrTask ?rr)) (Finished None)"
    using assms(1,3) None unfolding segInv_def phasesOk_def by metis
  moreover have "chunks ! tkIndex (rrTask ?rr) = tkRange (rrTask ?rr)" using assms(1) mem by (auto simp: segInv_def tasksOk_def)
  ultimately have "chunkDone content chunks (sgFile s) (tkIndex (rrTask ?rr))" by (simp add: phaseOk_def chunkDone_def)
  from segInv_without[OF assms(1,2) this] show ?thesis
    by (rule segInv_control) (simp_all add: None handleResult_def Let_def result_fields)
next
  case (Some er)
  show ?thesis unfolding handleResult_def Let_def Some option.case
    by (auto intro!: segInv_requeue[OF assms(1,2)] segInv_fail[OF assms(1,2), of "failWith _ _"] simp: result_fields)
qed


lemma segInv_step:
  assumes "segStep ne m Q s s'" "segInv content chunks s" "chunksIn content chunks" "\<And>opts. servesContent ne opts content"
  shows "segInv content chunks s'"
  using assms(1)
proof cases
  case (answer i t openErr seekErr closeErr)
  show ?thesis unfolding answer(1) using segInv_answer[OF assms(2-4)] answer(2) by blast
next
  case (round i cp evs re closeErr)
  show ?thesis unfolding round(1) using segInv_round[OF assms(2,3)] round(2,3) by blast
next
  case (result so so' i er now' now)
  show ?thesis unfolding result(1) using segInv_startReady segInv_result[OF assms(2)] result(5,6) by blast
next
  case (ticker so now)
  show ?thesis unfolding ticker(1) using segInv_startReady assms(2) by blast
next
  case (cancel so now er)
  show ?thesis unfolding cancel(1)
    by (rule segInv_startReady, rule segInv_control[OF assms(2)]) (simp_all add: ctxDone_def failWith_def split: if_splits)
qed

lemma tasksFrom_index: "map tkIndex (tasksFrom i chs) = [i..<i + length chs]"
  by (induction chs arbitrary: i) (simp_all add: upt_conv_Cons del: upt_Suc)

lemma tasksFrom_range: "t \<in> set (tasksFrom i chs) \<Longrightarrow> i \<le> tkIndex t \<and> tkIndex t < i + length chs \<and> chs ! (tkIndex t - i) = tkRange t"
proof (induction chs arbitrary: i)
  case (Cons ch chs)
  consider "tkIndex t = i" "tkRange t = ch" | "t \<in> set (tasksFrom (Suc i) chs)" using Cons.prems by auto
  then show ?case
  proof cases
    case 2
    from Cons.IH[OF this] show ?thesis by (auto simp: nth_Cons' Suc_diff_Suc)
  qed simp
qed simp

lemma segInv_init:
  assumes "mLength m = int (length content)"
  shows "segInv content chunks (segInit so now m chunks f d)"
  unfolding segInit_def
proof (rule segInv_startReady, unfold segInv_def, intro conjI)
  let ?s = "\<lparr>sgTasks = tasksFrom 0 chunks, sgRunning = [], sgActive = 0,
        sgController = newSegmentedConcurrencyController (workerLimit so (int (length chunks))),
        sgFirstErr = None, sgCancelled = False, sgFile = truncateTo (nat (mLength m)) f, sgD = resetProgress (mLength m) chunks d,
        sgTracker = \<lparr>stBytes = 0, stLastBytes = 0, stLastAt = 0\<rparr>\<rparr>"
  show "shapeOk content ?s" using assms by (simp add: shapeOk_def truncateTo_def taskIndexes_def tasksFrom_index)
  show "tasksOk chunks ?s" using tasksFrom_range[of _ 0 chunks] by (auto simp: tasksOk_def)
  show "coverOk content chunks ?s" unfolding coverOk_def taskIndexes_def by (simp del: set_map add: tasksFrom_index)
  show "phasesOk content ?s" by (simp add: phasesOk_def)
qed

text \<open>The ranges of \<open>makeChunks\<close> are ranges of the representation, and every byte is in one of them.\<close>

lemma makeChunks_in:
  assumes "0 < length content" "int (length content) \<le> MaxInt64"
  shows "chunksIn content (makeChunks (int (length content)) n)"
  using assms chunksFrom_bounds[of _ "int (length content)" _ 0] by (fastforce simp: chunksIn_def makeChunks_eq)

lemma makeChunks_cover:
  assumes "k < length content"
  shows "\<exists>j < length (makeChunks (int (length content)) n).
    crStart (makeChunks (int (length content)) n ! j) \<le> int k \<and> int k \<le> crEnd (makeChunks (int (length content)) n ! j)"
proof -
  have pos: "0 < int (length content)" using assms by linarith
  have "int k \<in> set (concat (map (\<lambda>k. [crStart k..crEnd k]) (makeChunks (int (length content)) n)))"
    unfolding makeChunks_eq[OF pos] chunksFrom_partition[OF effectiveChunk_pos order_less_imp_le[OF pos]] using assms by simp
  then obtain r where "r \<in> set (makeChunks (int (length content)) n)" "crStart r \<le> int k" "int k \<le> crEnd r" by auto
  then show ?thesis by (metis in_set_conv_nth)
qed


definition segServed :: "netEnv \<Rightarrow> string \<Rightarrow> chunkRange list \<Rightarrow> bool" where
  "segServed ne content chunks \<longleftrightarrow> chunksIn content chunks \<and> (\<forall>opts. servesContent ne opts content)"

interpretation sgs: invariant_system
  "\<lambda>s. segServed ne content chunks \<and> mLength m = int (length content) \<and> (\<exists>so now f d. s = segInit so now m chunks f d)"
  "segStep ne m Q" "\<lambda>s. segServed ne content chunks \<and> segInv content chunks s" for ne m Q content chunks
  by unfold_locales (use segInv_init segInv_step in \<open>auto simp: segServed_def\<close>)

text \<open>Once the loop has ended without an error, no segment is queued or running, so all of them are stored.\<close>

lemma segInv_complete:
  assumes "segInv content (makeChunks (int (length content)) n) s" "segDone s" "sgFirstErr s = None"
  shows "sgFile s = content"
proof (rule nth_equalityI)
  let ?chunks = "makeChunks (int (length content)) n"
  show len: "length (sgFile s) = length content" using assms(1) by (simp add: segInv_def shapeOk_def)
  have "taskIndexes s = []" using assms by (auto simp: segInv_def shapeOk_def segDone_def taskIndexes_def)
  then have stored: "chunkDone content ?chunks (sgFile s) j" if "j < length ?chunks" for j
    using assms(1,3) that by (simp add: segInv_def coverOk_def)
  fix k assume "k < length (sgFile s)"
  then have k: "k < length content" using len by simp
  from makeChunks_cover[OF this] obtain j where
    j: "j < length ?chunks" "crStart (?chunks ! j) \<le> int k" "int k \<le> crEnd (?chunks ! j)" by blast
  from stored[OF j(1)] j(2,3) k show "sgFile s ! k = content ! k" by (simp add: chunkDone_def agrees_def)
qed

lemma segmented_stored:
  assumes "\<forall>opts. servesContent ne opts content" "0 < mLength m" "mLength m \<le> MaxInt64" "mLength m = int (length content)"
    and "segStart openErr truncErr closeErr so now m (makeChunks (mLength m) n) f d = Inr s0"
    and "(segStep ne m Q)\<^sup>*\<^sup>* s0 s" "segDone s" "segResult ctxErr s = (None, s')"
  shows "sgFile s' = content"
proof -
  have s0: "s0 = segInit so now m (makeChunks (mLength m) n) f d" using assms(5) by (simp add: segStart_def split: option.splits)
  have "segServed ne content (makeChunks (mLength m) n)"
    using assms(1-4) makeChunks_in[of content n] by (simp add: segServed_def)
  with s0 assms(4,6) have "sgs.reach ne content (makeChunks (mLength m) n) m Q s" unfolding sgs.reach_def by blast
  from sgs.reach_inv[OF this] have "segInv content (makeChunks (int (length content)) n) s" by (simp add: assms(4))
  moreover have "sgFirstErr s = None" "sgFile s' = sgFile s" using assms(8) by (auto simp: segResult_def split: if_splits)
  ultimately show ?thesis using segInv_complete assms(7) by simp
qed

text \<open>C9: A segmented download that returns without an error has stored the whole representation, byte for byte: whatever the
  interleaving of its transfers, whichever of them failed and were retried, however the number of connections was adapted,
  and whatever the file held before. The server is assumed to answer range requests with bytes of the representation at the
  place its Content-Range header states.\<close>

theorem segmented_integrity:
  assumes "\<forall>opts. servesContent ne opts content" "0 < mLength m" "mLength m \<le> MaxInt64" "mLength m = int (length content)"
    and "segStart openErr truncErr closeErr so now m (makeChunks (mLength m) n) f d = Inr s0"
    and "(segStep ne m Q)\<^sup>*\<^sup>* s0 s" "segDone s" "segResult ctxErr s = (None, s')"
  shows "sgFile s' = content"
  using assms by (rule segmented_stored)

definition segResponse :: response where
  "segResponse = \<lparr>rsStatusCode = 206, rsStatus = ''206 Partial Content'', rsHeader = [(''Content-Range'', [printContentRange 0 1 (Some 2)])], rsContentLength = 2,
     rsURL = None, rsBody = [(''ab'', Some EOF)]\<rparr>"

definition segNet :: netEnv where
  "segNet = exampleNet\<lparr>neDo := (\<lambda>_ _ _. Inr segResponse)\<rparr>"

definition noOpts :: segOpts where
  "noOpts = \<lparr>soDownload = [], soGlobal = [], soFallback = []\<rparr>"

definition segMeta :: remoteMeta where
  "segMeta = exampleMeta\<lparr>mLength := 2\<rparr>"


abbreviation segRange :: chunkRange where
  "segRange \<equiv> \<lparr>crStart = 0, crEnd = 1\<rparr>"

lemma canonical_keys: "canonicalHeaderKey ''Content-Range'' = ''Content-Range''" "canonicalHeaderKey ''Content-Encoding'' = ''Content-Encoding''"
  by code_simp+

lemma segResponse_range: "validatePartialContentRange segResponse = Inr \<lparr>bcStart = 0, bcEnd = 1, bcTotal = 2, bcTotalKnown = True, bcUnsatisfied = False\<rparr>"
  using parse_printContentRange[of 0 1 "Some 2"]
  by (simp add: validatePartialContentRange_def segResponse_def hasNonIdentityContentEncoding_def headerValues_def headerGet_def canonical_keys)

lemma segNet_serves: "servesContent segNet opts ''ab''"
  using segResponse_range by (simp add: servesContent_def segNet_def segResponse_def statusPartialContent_def)

lemma segAnswer: "rangeAnswer segMeta segRange (neDo segNet t rq opts) None None None =
    Copying \<lparr>cpOffset = 0, cpRead = 0, cpWritten = 0, cpPending = 0\<rparr> [(''ab'', Some EOF), ([], Some EOF)]"
  using segResponse_range
  by (simp add: rangeAnswer_def segNet_def validateExactRangeResponse_def validateContentRangeLength_def segMeta_def exampleMeta_def rangeLength_def wrap64_nonneg_id)
     (simp add: segResponse_def statusPartialContent_def wrap64_nonneg_id copyBufferSize_def smallCopyBufferSize_def boundReads_def boundEvent.simps)

lemma segChunks: "makeChunks (mLength segMeta) 2 = [segRange]"
  by (simp add: segMeta_def) code_simp


lemma segExample_init:
  "\<exists>rr. sgRunning (segInit so 0 m [r] f d) = [rr] \<and> rrPhase rr = Requesting \<and> tkRange (rrTask rr) = r \<and>
     sgTasks (segInit so 0 m [r] f d) = [] \<and> sgActive (segInit so 0 m [r] f d) = 1 \<and> sgFirstErr (segInit so 0 m [r] f d) = None"
proof -
  have lim: "0 < limit c" for c by (simp add: limit_def)
  have empty: "sgTasks x = [] \<Longrightarrow> startLoop so 0 x = x" for x by (simp add: startLoop.simps)
  show ?thesis
    by (simp add: segInit_def startReady_def startLoop.simps[of so 0 "\<lparr>sgTasks = _ # _, sgRunning = _, sgActive = _, sgController = _, sgFirstErr = _,
        sgCancelled = _, sgFile = _, sgD = _, sgTracker = _\<rparr>"] lim empty startTask_def setConns_def Let_def split: prod.split)
qed

lemma segExample_round:
  "\<exists>d. copyRound goodRound ls (''ab'', Some EOF) c = Stop None d \<and> csWritten d = csWritten c + 2 \<and> csRead d = csRead c + 2"
  by (simp add: copyRound_def writeRound_def goodRound_def countWrite_def flushProgress_def checkSpeed_def second_def Let_def)

theorem segmented_integrity_witness:
  "\<exists>s s'. (segStep segNet segMeta (\<lambda>_. True))\<^sup>*\<^sup>* (segInit noOpts 0 segMeta (makeChunks (mLength segMeta) 2) '''' zeroDownload) s \<and>
     segDone s \<and> segResult None s = (None, s') \<and> sgFile s' = ''ab''"
proof -
  let ?s0 = "segInit noOpts 0 segMeta (makeChunks (mLength segMeta) 2) '''' zeroDownload"
  let ?cp = "\<lparr>cpOffset = 0, cpRead = 0, cpWritten = 0, cpPending = 0\<rparr>" and ?evs = "[(''ab'', Some EOF), ([], Some EOF)]"
  obtain rr where s0: "sgRunning ?s0 = [rr]" "rrPhase rr = Requesting" "tkRange (rrTask rr) = segRange" "sgTasks ?s0 = []" "sgActive ?s0 = 1"
      "sgFirstErr ?s0 = None"
    using segExample_init[of noOpts segMeta segRange "''''" zeroDownload] unfolding segChunks by blast
  define s1 where "s1 = beginRange segNet 0 segMeta None None None 0 ?s0"
  have s1: "sgRunning s1 = [rr\<lparr>rrPhase := Copying ?cp ?evs\<rparr>]" "sgTasks s1 = []" "sgActive s1 = 1" "sgFirstErr s1 = None"
    unfolding s1_def beginRange_def Let_def s0(1) nth_Cons_0 s0(3) segAnswer
    by (simp_all add: setPhase_def s0) (simp add: segNet_def exampleNet_def exampleHttp_def)
  define s2 where "s2 = roundRange goodRound None 0 ?cp ?evs s1"
  have s2: "\<exists>x. sgRunning s2 = [x] \<and> rrPhase x = Finished None" "sgTasks s2 = []" "sgActive s2 = 1" "sgFirstErr s2 = None"
    using segExample_round[of "optionBytes (rrOpts rr) ''lowest-speed-limit'' 0" "toCopy ?cp s1"]
    unfolding s2_def roundRange_def
    by (auto simp: setPhase_def putCopy_def s1 s0 Let_def rangeEnd_def rangeLength_def wrap64_nonneg_id toCopy_def)
  define s3 where "s3 = startReady noOpts 0 (handleResult noOpts 0 0 None s2)"
  have "sgTasks x = [] \<Longrightarrow> startLoop noOpts 0 x = x" for x by (simp add: startLoop.simps)
  then have s3: "sgTasks s3 = []" "sgActive s3 = 0" "sgFirstErr s3 = None"
    unfolding s3_def handleResult_def startReady_def by (auto simp: s2 setConns_def Let_def)
  have "segStep segNet segMeta (\<lambda>_. True) ?s0 s1" unfolding s1_def by (rule segStep.answer) (simp_all add: s0)
  moreover have "segStep segNet segMeta (\<lambda>_. True) s1 s2" unfolding s2_def by (rule segStep.round) (simp_all add: s1)
  moreover have "segStep segNet segMeta (\<lambda>_. True) s2 s3" unfolding s3_def
    by (rule segStep.result) (use s2 in \<open>auto simp: segDone_def\<close>)
  ultimately have run: "(segStep segNet segMeta (\<lambda>_. True))\<^sup>*\<^sup>* ?s0 s3" by (meson rtranclp.rtrancl_into_rtrancl rtranclp.rtrancl_refl)
  have fin: "segDone s3" "fst (segResult None s3) = None" using s3 by (simp_all add: segDone_def segResult_def)
  have "sgFile (snd (segResult None s3)) = ''ab''"
    by (rule segmented_integrity[where ne = segNet and m = segMeta and s = s3 and n = 2 and so = noOpts and now = 0 and f = "''''"
        and d = zeroDownload and Q = "\<lambda>_. True" and ctxErr = None and openErr = None and truncErr = None and closeErr = None and ?s0.0 = ?s0])
      (use run fin segNet_serves in \<open>auto simp: segStart_def prod_eq_iff segMeta_def exampleMeta_def\<close>)
  then show ?thesis using run fin by (metis prod.collapse)
qed


section \<open>The number of connections\<close>

definition countedRuns :: "seg \<Rightarrow> bool" where
  "countedRuns s \<longleftrightarrow> sgActive s = int (length (sgRunning s))"

lemma countedRuns_startLoop: "countedRuns s \<Longrightarrow> countedRuns (startLoop so now s)"
proof (induction so now s rule: startLoop.induct)
  case (1 so now s)
  have "countedRuns (startTask so t (s\<lparr>sgTasks := ts\<rparr>))" for t ts
    using 1(2) startTask_fields(6)[of so t "s\<lparr>sgTasks := ts\<rparr>"] by (auto simp: countedRuns_def startTask_fields(5))
  then show ?case using 1 by (subst startLoop.simps) (auto split: option.split)
qed

lemma countedRuns_startReady:
  assumes "countedRuns s" shows "countedRuns (startReady so now s)"
proof -
  have "countedRuns (s\<lparr>sgController := c\<rparr>)" for c using assms by (simp add: countedRuns_def)
  then show ?thesis using assms by (simp add: startReady_def countedRuns_startLoop)
qed

lemma countedRuns_init: "countedRuns (segInit so now m chunks f d)"
  unfolding segInit_def by (rule countedRuns_startReady) (simp add: countedRuns_def)

lemma handleResult_counts:
  assumes "i < length (sgRunning s)" "countedRuns s"
  shows "countedRuns (handleResult so now i x s) \<and> length (sgRunning (handleResult so now i x s)) < length (sgRunning s)"
  using assms unfolding handleResult_def Let_def countedRuns_def by (auto simp: result_fields requeue_def split: option.split)

lemma countedRuns_step: "segStep ne m Q s s' \<Longrightarrow> countedRuns s \<Longrightarrow> countedRuns s'"
proof (induction rule: segStep.induct)
  case (result s so so' i er now' now)
  then show ?case using countedRuns_startReady handleResult_counts by blast
next
  case (ticker s so now)
  then show ?case using countedRuns_startReady by blast
next
  case (cancel s so now er)
  then show ?case by (intro countedRuns_startReady) (simp add: ctxDone_def countedRuns_def failWith_fields)
qed (simp_all add: beginRange_def roundRange_def setPhase_def putCopy_def countedRuns_def Let_def split: outcome.split)

interpretation counted: invariant_system "\<lambda>s. \<exists>so now f d. s = segInit so now m chunks f d" "segStep ne m Q" countedRuns for ne m Q chunks
proof
  fix s assume "\<exists>so now f d. s = segInit so now m chunks f d"
  then show "countedRuns s" using countedRuns_init by blast
qed (rule countedRuns_step)

definition connInv :: "int \<Rightarrow> seg \<Rightarrow> bool" where
  "connInv W s \<longleftrightarrow> sgActive s \<le> W \<and> ctInv (sgController s) \<and> ctEffectiveLimit (sgController s) \<le> W"

lemma connInv_startLoop: "connInv W s \<Longrightarrow> connInv W (startLoop so now s)"
proof (induction so now s rule: startLoop.induct)
  case (1 so now s)
  have "limit (sgController s) \<le> W" using 1(2) by (auto simp: connInv_def limit_def ctInv_def)
  then have "sgActive s < limit (sgController s) \<Longrightarrow> connInv W (startTask so t (s\<lparr>sgTasks := ts\<rparr>))" for t ts
    using 1(2) by (simp add: connInv_def startTask_fields(4,5))
  then show ?case using 1 by (subst startLoop.simps) (auto split: option.split)
qed

lemma connInv_startReady:
  assumes "connInv W s" "\<And>n. workerLimit so n \<le> W" "1 \<le> W"
  shows "connInv W (startReady so now s)"
proof -
  let ?n = "workerLimit so (remainingChunks False s)"
  have "ctInv (sgController s)" using assms(1) by (simp add: connInv_def)
  note c = clampCeiling_inv[OF this, of ?n]
  then have "connInv W (s\<lparr>sgController := clampCeiling ?n (sgController s)\<rparr>)" using assms(1) by (simp add: connInv_def)
  then show ?thesis using assms(1) by (simp add: startReady_def connInv_startLoop)
qed

lemma connInv_result:
  assumes "connInv W s" "\<And>n. workerLimit so n \<le> W" "1 \<le> W"
  shows "connInv W (handleResult so now i x s)"
proof -
  have inv: "ctInv (sgController s)" using assms(1) by (simp add: connInv_def)
  have lim: "max 1 (workerLimit so n) \<le> W" for n using assms(2,3) by simp
  have ctl: "ctInv (onSuccess l g (workerLimit so n) (sgController s)) \<and> ctEffectiveLimit (onSuccess l g (workerLimit so n) (sgController s)) \<le> W"
      "ctInv (onThrottle l g (workerLimit so n) (sgController s)) \<and> ctEffectiveLimit (onThrottle l g (workerLimit so n) (sgController s)) \<le> W"
      "ctInv (onRetryableError l g (workerLimit so n) (sgController s)) \<and> ctEffectiveLimit (onRetryableError l g (workerLimit so n) (sgController s)) \<le> W"
    for l g n using onSuccess_inv[OF inv] onThrottle_inv[OF inv] onRetryableError_inv[OF inv] lim by (meson order_trans)+
  show ?thesis using assms(1) ctl unfolding handleResult_def Let_def
    by (auto simp: connInv_def result_fields requeue_def split: option.split)
qed

lemma connInv_step:
  assumes "segStep ne m Q s s'" "\<And>so n. Q so \<Longrightarrow> workerLimit so n \<le> W" "1 \<le> W" "connInv W s"
  shows "connInv W s'"
  using assms(1)
proof cases
  case (answer i t openErr seekErr closeErr)
  then show ?thesis using assms(4) by (auto simp: beginRange_def setPhase_def Let_def connInv_def)
next
  case (round i cp evs re closeErr)
  then show ?thesis using assms(4) by (auto simp: roundRange_def setPhase_def putCopy_def Let_def connInv_def split: outcome.split)
next
  case (result so so' i er now' now)
  show ?thesis unfolding result(1) using connInv_startReady connInv_result[OF assms(4)] assms(2,3) result(3,4) by blast
next
  case (ticker so now)
  show ?thesis unfolding ticker(1) using connInv_startReady[OF assms(4)] assms(2,3) ticker(3) by blast
next
  case (cancel so now er)
  have "connInv W (ctxDone er s)" using assms(4) by (simp add: ctxDone_def connInv_def failWith_fields)
  then show ?thesis unfolding cancel(1) using connInv_startReady assms(2,3) cancel(3) by blast
qed

lemma connInv_init:
  assumes "\<And>n. workerLimit so n \<le> W" "1 \<le> W"
  shows "connInv W (segInit so now m chunks f d)"
proof -
  have "ctEffectiveLimit (newSegmentedConcurrencyController n) \<le> W" for n
    using assms(2) clampCeiling_inv(4)[of "\<lparr>ctEffectiveLimit = 1, ctSuccessesAtLimit = 0, ctRejectedProbeLimit = 0, ctGeneration = 0\<rparr>" n]
    by (simp add: newSegmentedConcurrencyController_def ctInv_def)
  then show ?thesis unfolding segInit_def using assms by (intro connInv_startReady) (simp_all add: connInv_def newController_inv)
qed

interpretation conns: invariant_system
  "\<lambda>s. (\<forall>so n. Q so \<longrightarrow> workerLimit so n \<le> W) \<and> 1 \<le> W \<and> (\<exists>so now f d. Q so \<and> s = segInit so now m chunks f d)"
  "segStep ne m Q" "\<lambda>s. (\<forall>so n. Q so \<longrightarrow> workerLimit so n \<le> W) \<and> 1 \<le> W \<and> connInv W s" for ne m Q W chunks
  by unfold_locales (use connInv_init connInv_step in blast)+

text \<open>C15: A segmented download never has more range requests in flight than \<open>split\<close> and
  \<open>max-connection-per-server\<close> allow: if every setting the options take while it runs allows at most \<open>W\<close> connections, then at
  every moment at most \<open>W\<close> transfers are running.\<close>

theorem segmented_connections:
  assumes "\<And>so n. Q so \<Longrightarrow> workerLimit so n \<le> W" "1 \<le> W" "Q so0" "(segStep ne m Q)\<^sup>*\<^sup>* (segInit so0 now m chunks f d) s"
  shows "int (length (sgRunning s)) \<le> W"
proof -
  have "conns.reach Q W m chunks ne s" unfolding conns.reach_def using assms by blast
  from conns.reach_inv[OF this] have "sgActive s \<le> W" by (simp add: connInv_def)
  moreover have "counted.reach m chunks ne Q s" unfolding counted.reach_def using assms(4) by blast
  from counted.reach_inv[OF this] have "countedRuns s" .
  ultimately show ?thesis by (simp add: countedRuns_def)
qed

lemma noOpts_workers: "workerLimit noOpts n \<le> 1"
proof -
  let ?o = "dynamicSegmentedOptionSnapshot [] []"
  have o: "?o = [(''split'', VStr ''''), (''max-connection-per-server'', VStr '''')]"
    by (simp add: dynamicSegmentedOptionSnapshot_def optionExplicit_def empty_options)
  have "optionValue ?o k = (case map_of ?o k of Some v \<Rightarrow> (if v = VNil then None else Some v) | None \<Rightarrow> None)" for k
    by (rule optionValue_flat) (simp add: o optionBaseKey_def)
  then have "optionString ?o k = ''''" for k by (simp add: optionString_def o)
  then have "optionInt ?o k d = d" "optionInt [] k d = d" for k d by (simp_all add: optionInt_def empty_options TrimSpace_no_space)
  then show ?thesis by (simp add: workerLimit_def noOpts_def segmentedWorkerLimit_def Let_def)
qed

theorem segmented_connections_witness:
  "int (length (sgRunning (segInit noOpts 0 segMeta [segRange, \<lparr>crStart = 2, crEnd = 3\<rparr>] [] zeroDownload))) \<le> 1"
  by (rule segmented_connections[where Q = "\<lambda>so. so = noOpts" and ne = segNet]) (auto simp: noOpts_workers)


section \<open>A failed download ends\<close>

lemma setPhase_fields:
  "sgFirstErr (setPhase i ph s) = sgFirstErr s" "sgActive (setPhase i ph s) = sgActive s" "length (sgRunning (setPhase i ph s)) = length (sgRunning s)"
  "i < length (sgRunning s) \<Longrightarrow> rrPhase (sgRunning (setPhase i ph s) ! i) = ph"
  by (simp_all add: setPhase_def)

text \<open>A transfer whose context is cancelled reaches its end.\<close>

lemma finish_transfer:
  assumes "i < length (sgRunning s)"
  shows "\<exists>s' x. (segStep ne m Q)\<^sup>*\<^sup>* s s' \<and> rrPhase (sgRunning s' ! i) = Finished x \<and> sgFirstErr s' = sgFirstErr s \<and> sgActive s' = sgActive s \<and>
    length (sgRunning s') = length (sgRunning s)"
proof -
  have copying: "\<exists>s' x. (segStep ne m Q)\<^sup>*\<^sup>* s s' \<and> rrPhase (sgRunning s' ! i) = Finished x \<and> sgFirstErr s' = sgFirstErr s \<and> sgActive s' = sgActive s \<and>
      length (sgRunning s') = length (sgRunning s)"
    if "i < length (sgRunning s)" "rrPhase (sgRunning s ! i) = Copying cp evs" for s cp evs
  proof -
    let ?re = "goodRound\<lparr>reCtx := Some ContextCanceled\<rparr>"
    have "segStep ne m Q s (roundRange ?re None i cp evs s)" using that by (rule segStep.round)
    moreover have "\<exists>x c. roundRange ?re None i cp evs s = setPhase i (Finished x) (putCopy c s)"
      by (auto simp: roundRange_def copyRound_def Let_def)
    ultimately obtain x c where "segStep ne m Q s (setPhase i (Finished x) (putCopy c s))" by auto
    then show ?thesis using that(1)
      by (intro exI[of _ "setPhase i (Finished x) (putCopy c s)"] exI[of _ x]) (simp add: r_into_rtranclp setPhase_fields putCopy_def)
  qed
  show ?thesis
  proof (cases "rrPhase (sgRunning s ! i)")
    case (Copying cp evs)
    then show ?thesis using copying[OF assms] by blast
  next
    case (Finished x)
    then show ?thesis by blast
  next
    case Requesting
    define s1 where "s1 = beginRange ne 0 m (Some ContextCanceled) None None i s"
    have step: "segStep ne m Q s s1" unfolding s1_def using assms Requesting by (rule segStep.answer)
    have f: "sgFirstErr s1 = sgFirstErr s" "sgActive s1 = sgActive s" "length (sgRunning s1) = length (sgRunning s)"
      by (simp_all add: s1_def beginRange_def setPhase_fields Let_def)
    have "\<exists>x. rrPhase (sgRunning s1 ! i) = Finished x"
      using assms by (auto simp: s1_def beginRange_def setPhase_fields rangeAnswer_def Let_def split: option.split sum.split)
    then show ?thesis using step f by (auto intro!: exI[of _ s1])
  qed
qed

lemma handleResult_failed: "sgFirstErr s \<noteq> None \<Longrightarrow> sgFirstErr (handleResult so now i x s) \<noteq> None"
  unfolding handleResult_def Let_def by (auto simp: result_fields requeue_def failWith_def split: option.split)

lemma drain:
  assumes "countedRuns s" "sgFirstErr s \<noteq> None" "Q so"
  shows "\<exists>s'. (segStep ne m Q)\<^sup>*\<^sup>* s s' \<and> segDone s'"
  using assms(1,2)
proof (induction "length (sgRunning s)" arbitrary: s rule: less_induct)
  case less
  show ?case
  proof (cases "sgRunning s = []")
    case True
    then show ?thesis using less.prems by (auto simp: segDone_def countedRuns_def)
  next
    case False
    then have i: "0 < length (sgRunning s)" by simp
    from finish_transfer[OF i] obtain s1 x where s1: "(segStep ne m Q)\<^sup>*\<^sup>* s s1" "rrPhase (sgRunning s1 ! 0) = Finished x"
        "sgFirstErr s1 = sgFirstErr s" "sgActive s1 = sgActive s" "length (sgRunning s1) = length (sgRunning s)" by blast
    have c1: "countedRuns s1" "sgFirstErr s1 \<noteq> None" "0 < length (sgRunning s1)" using less.prems s1 i by (simp_all add: countedRuns_def)
    have nd: "\<not> segDone s1" using c1 i s1(5) by (auto simp: segDone_def countedRuns_def)
    define s2 where "s2 = handleResult so 0 0 x s1"
    have h: "countedRuns s2" "length (sgRunning s2) < length (sgRunning s)" "sgFirstErr s2 \<noteq> None"
      using handleResult_counts[OF c1(3,1), of so 0 x] handleResult_failed[OF c1(2)] s1(5) by (simp_all add: s2_def)
    have "startReady so 0 s2 = s2" using h(3) by (auto simp: startReady_def)
    then have step: "segStep ne m Q s1 s2" using segStep.result[of s1 Q so so 0 x ne m 0 0] nd assms(3) c1(3) s1(2) by (simp add: s2_def)
    from less.hyps[OF h(2) h(1) h(3)] obtain s' where "(segStep ne m Q)\<^sup>*\<^sup>* s2 s'" "segDone s'" by blast
    then show ?thesis using s1(1) step by (meson converse_rtranclp_into_rtranclp rtranclp_trans)
  qed
qed

text \<open>C14: A segmented download never hangs by itself: from every state it can reach, whatever its transfers are doing and
  however many retries are queued, an execution leads to its end, at the latest through the cancellation of its
  context.\<close>

theorem segmented_can_end:
  assumes "Q so0" "(segStep ne m Q)\<^sup>*\<^sup>* (segInit so0 now m chunks f d) s"
  shows "\<exists>s'. (segStep ne m Q)\<^sup>*\<^sup>* s s' \<and> segDone s'"
proof (cases "segDone s")
  case False
  have "counted.reach m chunks ne Q s" unfolding counted.reach_def using assms(2) by blast
  then have c: "countedRuns s" by (rule counted.reach_inv)
  define s1 where "s1 = ctxDone ContextCanceled s"
  have f: "sgFirstErr s1 \<noteq> None" "countedRuns s1" using c failWith_fields(5)[of ContextCanceled s] by (auto simp: s1_def ctxDone_def countedRuns_def failWith_fields)
  then have "startReady so0 now s1 = s1" by (auto simp: startReady_def)
  then have "segStep ne m Q s s1" using segStep.cancel[of s Q so0 ne m now ContextCanceled] False assms(1) by (simp add: s1_def)
  with drain[of s1 Q so0 ne m, OF f(2,1) assms(1)] show ?thesis by (meson converse_rtranclp_into_rtranclp)
qed blast

theorem segmented_can_end_witness:
  "\<exists>s'. (segStep segNet segMeta (\<lambda>_. True))\<^sup>*\<^sup>* (segInit noOpts 0 segMeta [segRange] [] zeroDownload) s' \<and> segDone s'"
  by (rule segmented_can_end[of "\<lambda>_. True" noOpts segNet segMeta 0 "[segRange]" "[]" zeroDownload]) simp_all

end
