(* ===== verification/Proxy_Config.thy ===== *)
theory Proxy_Config
  imports Go_Url Http_Segmented
begin

text \<open>
  The proxy configuration of a request (proxy.go): which proxy the options name for a scheme, with which credentials,
  which hosts bypass it, and the key under which a transport with that configuration is cached. The environment
  \<open>proxyEnv\<close> holds URL and IP parsing, the printed form of a duration, and the proxy settings of the
  process environment with the function \<open>golang.org/x/net/http/httpproxy\<close> makes of them.
\<close>

section \<open>Configuration\<close>

text \<open>A URL: its user information is a name and possibly a password; \<open>puRest\<close> is path, query and fragment.\<close>

record proxyURL =
  puScheme :: string
  puUser :: "(string \<times> string option) option"
  puHost :: string
  puRest :: string

record envProxy =
  epHTTPProxy :: string
  epHTTPSProxy :: string
  epNoProxy :: string
  epCGI :: bool

record proxyEnv =
  pxParse :: "string \<Rightarrow> proxyURL res"
  pxString :: "proxyURL \<Rightarrow> string"
  pxDuration :: "int \<Rightarrow> string"
  pxParseIP :: "string \<Rightarrow> nat list option"
  pxParseCIDR :: "string \<Rightarrow> (nat list \<Rightarrow> bool) option"
  pxFromEnvironment :: envProxy
  pxProxyFunc :: "envProxy \<Rightarrow> proxyURL \<Rightarrow> proxyURL option res"

record proxyConfig =
  cfScheme :: string
  cfRaw :: string
  cfProxyURL :: "proxyURL option"
  cfSocksAddr :: string
  cfSocksUser :: string
  cfSocksPass :: string
  cfNoProxy :: "string list"
  cfConnectTimeout :: int
  cfHeaderTimeout :: int
  cfCheckCertificate :: bool
  cfKeepAlive :: bool
  cfHTTPVersion :: string
  cfEnvHTTPProxy :: string
  cfEnvHTTPSProxy :: string
  cfEnvCGI :: bool

definition splitList :: "string \<Rightarrow> string list" where
  "splitList s = (if s = '''' then [] else filter (\<lambda>p. p \<noteq> '''') (map TrimSpace (Split s (CHR '',''))))"

definition proxySpecForScheme :: "string \<Rightarrow> options \<Rightarrow> string \<times> bool" where
  "proxySpecForScheme scheme opts =
     (let key = scheme @ ''-proxy'' in
      if optionPresent opts key then (let raw = optionString opts key in (raw, raw = ''''))
      else if optionPresent opts ''all-proxy'' then (let raw = optionString opts ''all-proxy'' in (raw, raw = ''''))
      else ('''', False))"

definition proxyCredentialsForScheme :: "string \<Rightarrow> options \<Rightarrow> string \<times> string" where
  "proxyCredentialsForScheme scheme opts =
     (let user = optionString opts (scheme @ ''-proxy-user''); pass = optionString opts (scheme @ ''-proxy-passwd'') in
      if user = '''' then (optionString opts ''all-proxy-user'', optionString opts ''all-proxy-passwd'') else (user, pass))"

definition containsText :: "string \<Rightarrow> string \<Rightarrow> bool" where
  "containsText s p = list_ex (\<lambda>t. prefix p t) (suffixes s)"

definition normalizeProxyURL :: "proxyEnv \<Rightarrow> string \<Rightarrow> proxyURL res" where
  "normalizeProxyURL px raw0 =
     (let raw1 = TrimSpace raw0 in
      if raw1 = '''' then Inl (Errorf ''empty proxy URL'' [])
      else
        (let raw = (if containsText raw1 ''://'' then raw1 else ''http://'' @ raw1) in
         bindR (pxParse px raw) (\<lambda>u. if puHost u = '''' then Inl (Errorf ''invalid proxy URL'' []) else Inr u)))"

definition nanoseconds :: "int \<Rightarrow> int" where
  "nanoseconds seconds = wrap64 (seconds * 1000000000)"

definition baseConfig :: "proxyEnv \<Rightarrow> string \<Rightarrow> options \<Rightarrow> proxyConfig" where
  "baseConfig px scheme opts =
     (let env = pxFromEnvironment px in
      \<lparr>cfScheme = scheme, cfRaw = '''', cfProxyURL = None, cfSocksAddr = '''', cfSocksUser = '''', cfSocksPass = '''',
        cfNoProxy = (if optionPresent opts ''no-proxy'' then splitList (optionString opts ''no-proxy'') else splitList (epNoProxy env)),
        cfConnectTimeout = nanoseconds (optionInt opts ''connect-timeout'' 60),
        cfHeaderTimeout = nanoseconds (optionInt opts ''timeout'' 60),
        cfCheckCertificate = optionBoolDefault opts ''check-certificate'' True,
        cfKeepAlive = optionBoolDefault opts ''enable-http-keep-alive'' True,
        cfHTTPVersion = normalizeHTTPVersion (optionString opts ''http-version''),
        cfEnvHTTPProxy = epHTTPProxy env, cfEnvHTTPSProxy = epHTTPSProxy env, cfEnvCGI = epCGI env\<rparr>)"

definition withProxyURL :: "proxyURL \<Rightarrow> proxyConfig \<Rightarrow> proxyConfig res" where
  "withProxyURL u cfg =
     (let scheme = ToLower (puScheme u) in
      if scheme = ''http'' \<or> scheme = ''https'' then Inr (cfg\<lparr>cfProxyURL := Some u\<rparr>)
      else if scheme = ''socks5'' \<or> scheme = ''socks5h''
      then (if puHost u = '''' then Inl (Errorf ''invalid socks proxy'' [])
            else Inr (case puUser u of
                None \<Rightarrow> cfg\<lparr>cfSocksAddr := puHost u\<rparr>
              | Some (user, pass) \<Rightarrow>
                 cfg\<lparr>cfSocksAddr := puHost u, cfSocksUser := user, cfSocksPass := (case pass of None \<Rightarrow> '''' | Some p \<Rightarrow> p)\<rparr>))
      else Inl (Errorf ''unsupported proxy scheme %q'' [puScheme u]))"

definition buildProxyConfig :: "proxyEnv \<Rightarrow> string \<Rightarrow> options \<Rightarrow> proxyConfig res" where
  "buildProxyConfig px scheme opts =
     (let cfg = baseConfig px scheme opts; (raw, explicitNone) = proxySpecForScheme scheme opts in
      if explicitNone then Inr (cfg\<lparr>cfRaw := ''-''\<rparr>)
      else if raw = '''' then Inr cfg
      else bindR (normalizeProxyURL px raw) (\<lambda>u0.
        (let (user, pass) = proxyCredentialsForScheme scheme opts;
             u = (if user \<noteq> '''' then u0\<lparr>puUser := Some (user, Some pass)\<rparr> else u0) in
         withProxyURL u (cfg\<lparr>cfRaw := raw\<rparr>))))"

section \<open>Bypassing the proxy\<close>

definition splitNoProxyHostPort :: "string \<Rightarrow> string \<times> string" where
  "splitNoProxyHostPort rule = (case SplitHostPort rule of Some hp \<Rightarrow> hp | None \<Rightarrow> (rule, ''''))"

definition trimBrackets :: "string \<Rightarrow> string" where
  "trimBrackets s = (let b = (\<lambda>c. c = CHR ''['' \<or> c = CHR '']'') in rev (dropWhile b (rev (dropWhile b s))))"

definition defaultPort :: "string \<Rightarrow> string \<Rightarrow> string" where
  "defaultPort scheme port =
     (if port \<noteq> '''' then port
      else if ToLower scheme = ''http'' then ''80'' else if ToLower scheme = ''https'' then ''443'' else '''')"

text \<open>Whether one rule of the no-proxy list applies to a host with its port and, when it is one, its IP address.\<close>

definition domainRule :: "string \<Rightarrow> string \<Rightarrow> bool" where
  "domainRule host ruleHost0 =
     (let subdomainsOnly = HasPrefix ruleHost0 ''.'' \<or> HasPrefix ruleHost0 ''*.'';
          ruleHost = TrimPrefix (TrimPrefix ruleHost0 ''*.'') ''.'' in
      if ruleHost = '''' then False
      else (\<not> subdomainsOnly \<and> host = ruleHost) \<or> HasSuffix host (''.'' @ ruleHost))"

definition hostRule :: "proxyEnv \<Rightarrow> string \<Rightarrow> string \<Rightarrow> nat list option \<Rightarrow> string \<Rightarrow> bool" where
  "hostRule px host port ip rule =
     (let (ruleHost0, rulePort) = splitNoProxyHostPort rule in
      if rulePort \<noteq> '''' \<and> port \<noteq> rulePort then False
      else
        (let ruleHost = TrimSuffix (trimBrackets ruleHost0) ''.'' in
         (case (pxParseIP px ruleHost, ip) of
            (Some parsed, Some a) \<Rightarrow> parsed = a
          | _ \<Rightarrow> domainRule host ruleHost)))"

definition ruleApplies :: "proxyEnv \<Rightarrow> string \<Rightarrow> string \<Rightarrow> nat list option \<Rightarrow> string \<Rightarrow> bool" where
  "ruleApplies px host port ip rawRule =
     (let rule = TrimSpace (ToLower rawRule) in
      if rule = '''' then False
      else if rule = ''*'' then True
      else (case (pxParseCIDR px rule, ip) of
          (Some network, Some a) \<Rightarrow> network a
        | _ \<Rightarrow> hostRule px host port ip rule))"

definition shouldBypassProxyURL :: "proxyEnv \<Rightarrow> string \<Rightarrow> string \<Rightarrow> string list \<Rightarrow> bool" where
  "shouldBypassProxyURL px scheme hostPort noProxy =
     (let host = TrimSuffix (ToLower (urlHostname hostPort)) ''.'' in
      if host = '''' then False
      else list_ex (ruleApplies px host (defaultPort scheme (urlPort hostPort)) (pxParseIP px host)) noProxy)"

definition shouldBypassProxy :: "proxyEnv \<Rightarrow> string \<Rightarrow> string list \<Rightarrow> bool" where
  "shouldBypassProxy px host noProxy =
     shouldBypassProxyURL px '''' (if \<not> ContainsByte host (CHR '':'') then JoinHostPort host '''' else host) noProxy"

definition hasPotentialProxy :: "proxyConfig \<Rightarrow> bool" where
  "hasPotentialProxy cfg =
     (if cfRaw cfg = ''-'' then False
      else if list_ex (\<lambda>rule. TrimSpace rule = ''*'') (cfNoProxy cfg) then False
      else if cfProxyURL cfg \<noteq> None \<or> cfSocksAddr cfg \<noteq> '''' then True
      else if cfScheme cfg = ''https'' then TrimSpace (cfEnvHTTPSProxy cfg) \<noteq> ''''
      else TrimSpace (cfEnvHTTPProxy cfg) \<noteq> '''')"

section \<open>The key of a configuration\<close>

definition keyParts :: "proxyEnv \<Rightarrow> proxyConfig \<Rightarrow> string list" where
  "keyParts px cfg =
     [cfScheme cfg, cfRaw cfg, cfSocksAddr cfg, cfSocksUser cfg, cfSocksPass cfg, Join (cfNoProxy cfg) '','',
      pxDuration px (cfConnectTimeout cfg), pxDuration px (cfHeaderTimeout cfg), FormatBool (cfCheckCertificate cfg),
      FormatBool (cfKeepAlive cfg), cfHTTPVersion cfg, cfEnvHTTPProxy cfg, cfEnvHTTPSProxy cfg, FormatBool (cfEnvCGI cfg)] @
     (case cfProxyURL cfg of None \<Rightarrow> [] | Some u \<Rightarrow> [pxString px u])"

definition cacheKey :: "proxyEnv \<Rightarrow> proxyConfig \<Rightarrow> string" where
  "cacheKey px cfg = Join (keyParts px cfg) ''|''"

section \<open>Which options need a transport of their own\<close>

definition hasCustomTransportOptionsExceptHTTPVersion :: "options \<Rightarrow> bool" where
  "hasCustomTransportOptionsExceptHTTPVersion opts \<longleftrightarrow>
     list_ex (optionPresent opts) [''all-proxy'', ''http-proxy'', ''https-proxy'', ''no-proxy''] \<or>
     list_ex (\<lambda>key. optionString opts key \<noteq> '''')
       [''all-proxy-user'', ''all-proxy-passwd'', ''http-proxy-user'', ''http-proxy-passwd'', ''https-proxy-user'', ''https-proxy-passwd''] \<or>
     optionInt opts ''connect-timeout'' 60 \<noteq> 60 \<or> optionInt opts ''timeout'' 60 \<noteq> 60 \<or>
     \<not> optionBoolDefault opts ''check-certificate'' True \<or> \<not> optionBoolDefault opts ''enable-http-keep-alive'' True"

definition hasCustomTransportOptions :: "options \<Rightarrow> bool" where
  "hasCustomTransportOptions opts \<longleftrightarrow>
     hasCustomTransportOptionsExceptHTTPVersion opts \<or> normalizeHTTPVersion (optionString opts ''http-version'') \<noteq> ''auto''"

definition hasSchemeSpecificProxyOptions :: "options \<Rightarrow> bool" where
  "hasSchemeSpecificProxyOptions opts \<longleftrightarrow>
     list_ex (\<lambda>scheme. optionPresent opts (scheme @ ''-proxy'') \<or> optionString opts (scheme @ ''-proxy-user'') \<noteq> '''' \<or>
       optionString opts (scheme @ ''-proxy-passwd'') \<noteq> '''') [''http'', ''https'']"

end
