(* ===== verification/Transports.thy ===== *)
theory Transports
  imports Proxy_Config
begin

text \<open>
  The transports of HTTP requests (proxy.go): a transport is described by its settings, the route a
  request takes follows from them, and the engine caches one transport per configuration, at most 256 in all.
\<close>

section \<open>Transports\<close>

datatype proxyRule = ProxyNone | ProxyFromEnv envProxy | ProxyFixed proxyURL "string list"

text \<open>How connections are dialled: directly, or through a SOCKS server unless the target bypasses it. The
  timeouts are in nanoseconds.\<close>

datatype dialRule = DialDirect int | DialSocks string "(string \<times> string) option" string "string list" int

record httpTransport =
  trProxy :: proxyRule
  trDial :: dialRule
  trMaxIdleConns :: int
  trMaxIdleConnsPerHost :: int
  trIdleConnTimeout :: int
  trTLSHandshakeTimeout :: int
  trResponseHeaderTimeout :: int
  trForceAttemptHTTP2 :: bool
  trOnlyHTTP1 :: bool
  trDisableCompression :: bool
  trDisableKeepAlives :: bool
  trInsecureSkipVerify :: bool

record http2Transport =
  t2InsecureSkipVerify :: bool
  t2DialTimeout :: int
  t2HandshakeTimeout :: "int option"
  t2IdleConnTimeout :: int
  t2WriteByteTimeout :: int
  t2DisableCompression :: bool

record http3Transport =
  t3InsecureSkipVerify :: bool
  t3HandshakeIdleTimeout :: int
  t3MaxIdleTimeout :: int
  t3MaxResponseHeaderBytes :: int
  t3DisableCompression :: bool

definition environmentProxyFunc :: "proxyConfig \<Rightarrow> proxyRule" where
  "environmentProxyFunc cfg =
     ProxyFromEnv \<lparr>epHTTPProxy = cfEnvHTTPProxy cfg, epHTTPSProxy = cfEnvHTTPSProxy cfg,
       epNoProxy = Join (cfNoProxy cfg) '','', epCGI = cfEnvCGI cfg\<rparr>"

definition newTransport :: "proxyConfig \<Rightarrow> httpTransport" where
  "newTransport cfg =
     (let http1 = cfHTTPVersion cfg = ''1.1'' \<or> cfHTTPVersion cfg = ''1'' \<or> cfHTTPVersion cfg = ''h1'' in
      \<lparr>trProxy =
         (if cfSocksAddr cfg \<noteq> '''' then ProxyNone
          else if cfRaw cfg = ''-'' then ProxyNone
          else (case cfProxyURL cfg of Some u \<Rightarrow> ProxyFixed u (cfNoProxy cfg) | None \<Rightarrow> environmentProxyFunc cfg)),
       trDial =
         (if cfSocksAddr cfg \<noteq> ''''
          then DialSocks (cfSocksAddr cfg) (if cfSocksUser cfg \<noteq> '''' then Some (cfSocksUser cfg, cfSocksPass cfg) else None)
                 (cfScheme cfg) (cfNoProxy cfg) (cfConnectTimeout cfg)
          else DialDirect (cfConnectTimeout cfg)),
       trMaxIdleConns = 1024, trMaxIdleConnsPerHost = 128, trIdleConnTimeout = nanoseconds 90,
       trTLSHandshakeTimeout = cfConnectTimeout cfg, trResponseHeaderTimeout = cfHeaderTimeout cfg,
       trForceAttemptHTTP2 = \<not> http1, trOnlyHTTP1 = http1, trDisableCompression = True,
       trDisableKeepAlives = \<not> cfKeepAlive cfg, trInsecureSkipVerify = \<not> cfCheckCertificate cfg\<rparr>)"

definition newHTTP2Transport :: "proxyConfig \<Rightarrow> http2Transport" where
  "newHTTP2Transport cfg =
     \<lparr>t2InsecureSkipVerify = \<not> cfCheckCertificate cfg, t2DialTimeout = cfConnectTimeout cfg,
       t2HandshakeTimeout = (if cfConnectTimeout cfg > 0 then Some (cfConnectTimeout cfg) else None),
       t2IdleConnTimeout = nanoseconds 90, t2WriteByteTimeout = cfHeaderTimeout cfg, t2DisableCompression = True\<rparr>"

definition newHTTP3Transport :: "proxyConfig \<Rightarrow> http3Transport" where
  "newHTTP3Transport cfg =
     \<lparr>t3InsecureSkipVerify = \<not> cfCheckCertificate cfg, t3HandshakeIdleTimeout = cfConnectTimeout cfg,
       t3MaxIdleTimeout = nanoseconds 90, t3MaxResponseHeaderBytes = 10485760, t3DisableCompression = True\<rparr>"

text \<open>The route of a request over a transport: the function the Proxy field holds, and the dial function when no
  proxy is used. \<open>addr\<close> is the address \<open>net/http\<close> dials for the target.\<close>

datatype route = RouteDirect | RouteProxy proxyURL | RouteSocks string | RouteError err

definition dialRoute :: "proxyEnv \<Rightarrow> dialRule \<Rightarrow> string \<Rightarrow> route" where
  "dialRoute px rule addr =
     (case rule of
        DialDirect t \<Rightarrow> RouteDirect
      | DialSocks server auth scheme noProxy t \<Rightarrow>
          (if shouldBypassProxyURL px scheme addr noProxy then RouteDirect else RouteSocks server))"

definition requestRoute :: "proxyEnv \<Rightarrow> httpTransport \<Rightarrow> proxyURL \<Rightarrow> string \<Rightarrow> route" where
  "requestRoute px tr u addr =
     (case trProxy tr of
        ProxyNone \<Rightarrow> dialRoute px (trDial tr) addr
      | ProxyFixed p noProxy \<Rightarrow>
          (if shouldBypassProxyURL px (puScheme u) (puHost u) noProxy then dialRoute px (trDial tr) addr else RouteProxy p)
      | ProxyFromEnv env \<Rightarrow>
          (case pxProxyFunc px env u of
             Inl er \<Rightarrow> RouteError er
           | Inr None \<Rightarrow> dialRoute px (trDial tr) addr
           | Inr (Some p) \<Rightarrow> RouteProxy p))"

section \<open>Clients\<close>

datatype roundTripper =
    RtDefault
  | RtCustom string
  | RtHTTP httpTransport
  | RtHTTP2 http2Transport
  | RtHTTP3 http3Transport
  | RtCloseIdle roundTripper
  | RtScheme roundTripper roundTripper
  | RtHeaderTimeout int roundTripper
  | RtBodyTimeout int roundTripper

text \<open>\<open>RtDefault\<close> is the nil transport, \<open>RtCustom\<close> one the caller supplied. A cookie jar is the list of cookie files
  loaded on top of the base jar, a redirect check the host it sets.\<close>

record client =
  clTransport :: roundTripper
  clJar :: "string list"
  clRedirectHost :: "string option"

record transportState =
  tsClient :: "client option"
  tsCustom :: bool
  tsH1 :: "(string \<times> httpTransport) list"
  tsH2 :: "(string \<times> http2Transport) list"
  tsH3 :: "(string \<times> http3Transport) list"

definition maxCachedTransports :: nat where "maxCachedTransports = 256"

definition clientWithTransport :: "transportState \<Rightarrow> roundTripper \<Rightarrow> client" where
  "clientWithTransport ts rt =
     (case tsClient ts of
        None \<Rightarrow> \<lparr>clTransport = rt, clJar = [], clRedirectHost = None\<rparr>
      | Some c \<Rightarrow> c\<lparr>clTransport := rt\<rparr>)"

definition transportCacheFullLocked :: "transportState \<Rightarrow> bool" where
  "transportCacheFullLocked ts \<longleftrightarrow> length (tsH1 ts) + length (tsH2 ts) + length (tsH3 ts) \<ge> maxCachedTransports"

definition cachedHTTPTransport :: "proxyEnv \<Rightarrow> proxyConfig \<Rightarrow> transportState \<Rightarrow> httpTransport \<times> transportState" where
  "cachedHTTPTransport px cfg ts =
     (let key = cacheKey px cfg in
      case map_of (tsH1 ts) key of
        Some tr \<Rightarrow> (tr, ts)
      | None \<Rightarrow>
         (let tr = newTransport cfg in
          if transportCacheFullLocked ts then (tr\<lparr>trDisableKeepAlives := True\<rparr>, ts)
          else (tr, ts\<lparr>tsH1 := AList.update key tr (tsH1 ts)\<rparr>)))"

definition transportWithKeepAlivePolicy :: "roundTripper \<Rightarrow> bool \<Rightarrow> roundTripper" where
  "transportWithKeepAlivePolicy base keepAlive = (if keepAlive then base else RtCloseIdle base)"

definition clientHTTP3 :: "proxyEnv \<Rightarrow> proxyConfig \<Rightarrow> transportState \<Rightarrow> client res \<times> transportState" where
  "clientHTTP3 px cfg ts =
     (if cfScheme cfg \<noteq> ''https'' then (Inl (Errorf ''HTTP/3 requires https'' []), ts)
      else if hasPotentialProxy cfg then (Inl (Errorf ''HTTP/3 over configured HTTP/SOCKS proxy is not supported'' []), ts)
      else
        (let key = cacheKey px cfg;
             (tr, cached, ts') =
               (case map_of (tsH3 ts) key of
                  Some tr \<Rightarrow> (tr, True, ts)
                | None \<Rightarrow>
                   (let tr = newHTTP3Transport cfg in
                    if transportCacheFullLocked ts then (tr, False, ts)
                    else (tr, True, ts\<lparr>tsH3 := AList.update key tr (tsH3 ts)\<rparr>))) in
         (Inr (clientWithTransport ts' (transportWithKeepAlivePolicy (RtHTTP3 tr) (cfKeepAlive cfg \<and> cached))), ts')))"

definition clientHTTP2 :: "proxyEnv \<Rightarrow> proxyConfig \<Rightarrow> transportState \<Rightarrow> client res \<times> transportState" where
  "clientHTTP2 px cfg ts =
     (if cfScheme cfg \<noteq> ''https'' then (Inl (Errorf ''forced HTTP/2 requires https'' []), ts)
      else if hasPotentialProxy cfg then (Inl (Errorf ''forced HTTP/2 over configured HTTP/SOCKS proxy is not supported'' []), ts)
      else
        (let key = cacheKey px cfg;
             (tr, cached, ts') =
               (case map_of (tsH2 ts) key of
                  Some tr \<Rightarrow> (tr, True, ts)
                | None \<Rightarrow>
                   (let tr = newHTTP2Transport cfg in
                    if transportCacheFullLocked ts then (tr, False, ts)
                    else (tr, True, ts\<lparr>tsH2 := AList.update key tr (tsH2 ts)\<rparr>))) in
         (Inr (clientWithTransport ts' (transportWithKeepAlivePolicy (RtHTTP2 tr) (cfKeepAlive cfg \<and> cached))), ts')))"

definition clientHTTP1 :: "proxyEnv \<Rightarrow> string \<Rightarrow> options \<Rightarrow> proxyConfig \<Rightarrow> transportState \<Rightarrow> client res \<times> transportState" where
  "clientHTTP1 px scheme opts cfg ts =
     (case cachedHTTPTransport px cfg ts of (tr, ts1) \<Rightarrow>
       (if \<not> hasSchemeSpecificProxyOptions opts then (Inr (clientWithTransport ts1 (RtHTTP tr)), ts1)
        else
          (let otherScheme = (if scheme = ''http'' then ''https'' else ''http'') in
           (case buildProxyConfig px otherScheme opts of
              Inl er \<Rightarrow> (Inl er, ts1)
            | Inr otherCfg \<Rightarrow>
               (case cachedHTTPTransport px otherCfg ts1 of (other, ts2) \<Rightarrow>
                  (Inr (clientWithTransport ts2
                     (if scheme = ''https'' then RtScheme (RtHTTP other) (RtHTTP tr) else RtScheme (RtHTTP tr) (RtHTTP other))), ts2))))))"

definition clientFor :: "proxyEnv \<Rightarrow> string \<Rightarrow> options \<Rightarrow> transportState \<Rightarrow> client option res \<times> transportState" where
  "clientFor px scheme opts ts =
     (if \<not> hasCustomTransportOptions opts then (Inr (tsClient ts), ts)
      else if tsCustom ts \<and> normalizeHTTPVersion (optionString opts ''http-version'') = ''1.1'' \<and>
              \<not> hasCustomTransportOptionsExceptHTTPVersion opts
      then (Inr (tsClient ts), ts)
      else
        (case buildProxyConfig px scheme opts of
           Inl er \<Rightarrow> (Inl er, ts)
         | Inr cfg \<Rightarrow>
            (case (if cfHTTPVersion cfg = ''3'' \<or> cfHTTPVersion cfg = ''h3'' then clientHTTP3 px cfg ts
                   else if cfHTTPVersion cfg = ''2'' \<or> cfHTTPVersion cfg = ''h2'' then clientHTTP2 px cfg ts
                   else clientHTTP1 px scheme opts cfg ts) of
               (Inl er, ts') \<Rightarrow> (Inl er, ts')
             | (Inr c, ts') \<Rightarrow> (Inr (Some c), ts'))))"

text \<open>\<open>schemeRoundTripper\<close>: which of its transports a request goes to.\<close>

definition schemeTransport :: "roundTripper \<Rightarrow> roundTripper \<Rightarrow> string \<Rightarrow> roundTripper res" where
  "schemeTransport http https scheme =
     (if scheme = ''http'' then Inr http
      else if scheme = ''https'' then Inr https
      else Inl (Errorf ''unsupported protocol scheme %q'' [scheme]))"

section \<open>The cache is bounded\<close>

text \<open>The configuration a cached transport was made from, by its key.\<close>

definition madeFrom :: "proxyEnv \<Rightarrow> (proxyConfig \<Rightarrow> bool) \<Rightarrow> (proxyConfig \<Rightarrow> 'a) \<Rightarrow> (string \<times> 'a) list \<Rightarrow> bool" where
  "madeFrom px P mk cache \<longleftrightarrow>
     distinct (map fst cache) \<and> (\<forall>(key, tr) \<in> set cache. \<exists>cfg. P cfg \<and> key = cacheKey px cfg \<and> tr = mk cfg)"

definition cacheInv :: "proxyEnv \<Rightarrow> (proxyConfig \<Rightarrow> bool) \<Rightarrow> transportState \<Rightarrow> bool" where
  "cacheInv px P ts \<longleftrightarrow>
     length (tsH1 ts) + length (tsH2 ts) + length (tsH3 ts) \<le> maxCachedTransports \<and>
     madeFrom px P newTransport (tsH1 ts) \<and> madeFrom px P newHTTP2Transport (tsH2 ts) \<and> madeFrom px P newHTTP3Transport (tsH3 ts)"

lemma update_absent: "map_of al k = None \<Longrightarrow> AList.update k v al = al @ [(k, v)]"
  by (induction al) (auto split: if_splits)

lemma madeFrom_add:
  "madeFrom px P mk cache \<Longrightarrow> map_of cache (cacheKey px cfg) = None \<Longrightarrow> P cfg \<Longrightarrow>
   madeFrom px P mk (AList.update (cacheKey px cfg) (mk cfg) cache)"
  by (auto simp: madeFrom_def update_absent map_of_eq_None_iff)

lemma cacheInv_h1:
  assumes "cacheInv px P ts" "P cfg" shows "cacheInv px P (snd (cachedHTTPTransport px cfg ts))"
  using assms madeFrom_add[of px P newTransport "tsH1 ts" cfg]
  by (auto simp: cachedHTTPTransport_def cacheInv_def transportCacheFullLocked_def update_absent Let_def split: option.splits)

lemma cacheInv_h2:
  assumes "cacheInv px P ts" "P cfg" shows "cacheInv px P (snd (clientHTTP2 px cfg ts))"
  using assms madeFrom_add[of px P newHTTP2Transport "tsH2 ts" cfg]
  by (auto simp: clientHTTP2_def cacheInv_def transportCacheFullLocked_def update_absent Let_def split: option.splits)

lemma cacheInv_h3:
  assumes "cacheInv px P ts" "P cfg" shows "cacheInv px P (snd (clientHTTP3 px cfg ts))"
  using assms madeFrom_add[of px P newHTTP3Transport "tsH3 ts" cfg]
  by (auto simp: clientHTTP3_def cacheInv_def transportCacheFullLocked_def update_absent Let_def split: option.splits)

text \<open>A request all of whose configurations have a property: its own and that of the other scheme.\<close>

definition builds :: "proxyEnv \<Rightarrow> (proxyConfig \<Rightarrow> bool) \<Rightarrow> string \<Rightarrow> options \<Rightarrow> bool" where
  "builds px P scheme opts \<longleftrightarrow>
     list_all (\<lambda>sch. case buildProxyConfig px sch opts of Inl er \<Rightarrow> True | Inr cfg \<Rightarrow> P cfg) [scheme, ''http'', ''https'']"

lemma builds_own: "builds px P scheme opts \<Longrightarrow> buildProxyConfig px scheme opts = Inr cfg \<Longrightarrow> P cfg"
  by (simp add: builds_def)

lemma builds_other:
  "builds px P scheme opts \<Longrightarrow> buildProxyConfig px (if scheme = ''http'' then ''https'' else ''http'') opts = Inr cfg \<Longrightarrow> P cfg"
  by (simp add: builds_def split: if_splits)

lemma cacheInv_http1:
  assumes "cacheInv px P ts" "P cfg" "builds px P scheme opts"
  shows "cacheInv px P (snd (clientHTTP1 px scheme opts cfg ts))"
proof -
  obtain tr ts1 where one: "cachedHTTPTransport px cfg ts = (tr, ts1)" by (cases "cachedHTTPTransport px cfg ts")
  then have inv1: "cacheInv px P ts1" using cacheInv_h1[OF assms(1,2)] by simp
  show ?thesis
  proof (cases "buildProxyConfig px (if scheme = ''http'' then ''https'' else ''http'') opts")
    case (Inl er)
    then show ?thesis using inv1 one by (simp add: clientHTTP1_def Let_def)
  next
    case (Inr other)
    then have "P other" using builds_other[OF assms(3)] by blast
    then have "cacheInv px P (snd (cachedHTTPTransport px other ts1))" by (rule cacheInv_h1[OF inv1])
    then show ?thesis using inv1 one Inr by (auto simp: clientHTTP1_def Let_def split: prod.splits)
  qed
qed

lemma cacheInv_clientFor:
  assumes "cacheInv px P ts" "builds px P scheme opts"
  shows "cacheInv px P (snd (clientFor px scheme opts ts))"
proof (cases "buildProxyConfig px scheme opts")
  case (Inl er)
  then show ?thesis using assms(1) by (simp add: clientFor_def)
next
  case (Inr cfg)
  then have "P cfg" using builds_own[OF assms(2)] by blast
  note steps = cacheInv_h3[OF assms(1) this] cacheInv_h2[OF assms(1) this] cacheInv_http1[OF assms(1) this assms(2)]
  have "snd (case r of (Inl er, t) \<Rightarrow> (Inl er, t) | (Inr c, t) \<Rightarrow> (Inr (Some c), t)) = snd r"
    for r :: "client res \<times> transportState" by (auto split: prod.splits sum.splits)
  then show ?thesis using steps Inr assms(1) by (auto simp: clientFor_def)
qed

definition emptyCaches :: "transportState \<Rightarrow> bool" where
  "emptyCaches ts \<longleftrightarrow> tsH1 ts = [] \<and> tsH2 ts = [] \<and> tsH3 ts = []"

definition clientStep :: "proxyEnv \<Rightarrow> (proxyConfig \<Rightarrow> bool) \<Rightarrow> transportState \<Rightarrow> transportState \<Rightarrow> bool" where
  "clientStep px P ts ts' \<longleftrightarrow> (\<exists>scheme opts. builds px P scheme opts \<and> ts' = snd (clientFor px scheme opts ts))"

lemma cacheInv_empty: "emptyCaches ts \<Longrightarrow> cacheInv px P ts"
  by (simp add: emptyCaches_def cacheInv_def madeFrom_def)

interpretation caches: invariant_system emptyCaches "clientStep px P" "cacheInv px P" for px P
  by unfold_locales (auto simp: clientStep_def intro: cacheInv_empty cacheInv_clientFor)

definition cacheReachable :: "proxyEnv \<Rightarrow> (proxyConfig \<Rightarrow> bool) \<Rightarrow> transportState \<Rightarrow> bool" where
  "cacheReachable px P ts \<longleftrightarrow> (\<exists>ts0. emptyCaches ts0 \<and> (clientStep px P)\<^sup>*\<^sup>* ts0 ts)"

lemma cacheReachable_inv: "cacheReachable px P ts \<Longrightarrow> cacheInv px P ts"
  using caches.reach_inv[of px P ts] by (simp add: cacheReachable_def caches.reach_def)

text \<open>After any sequence of requests with any options, at most 256 transports are cached.\<close>

theorem transport_cache_bounded:
  assumes "cacheReachable px (\<lambda>_. True) ts"
  shows "length (tsH1 ts) + length (tsH2 ts) + length (tsH3 ts) \<le> 256"
  using cacheReachable_inv[OF assms] by (simp add: cacheInv_def maxCachedTransports_def)

section \<open>The cache is transparent\<close>

text \<open>A configuration none of whose parts contains the separator of the key, and whose proxy URL is what its printed form
  parses to.\<close>

definition plainConfig :: "proxyEnv \<Rightarrow> proxyConfig \<Rightarrow> bool" where
  "plainConfig px cfg \<longleftrightarrow> list_all (\<lambda>p. CHR ''|'' \<notin> set p) (keyParts px cfg) \<and> list_all (\<lambda>r. r \<noteq> '''' \<and> CHR '','' \<notin> set r) (cfNoProxy cfg) \<and>
     (case cfProxyURL cfg of None \<Rightarrow> True | Some u \<Rightarrow> pxParse px (pxString px u) = Inr u)"

lemma Join_inj:
  assumes "Join xs [c] = Join ys [c]" "list_all (\<lambda>x. x \<noteq> [] \<and> c \<notin> set x) xs" "list_all (\<lambda>x. x \<noteq> [] \<and> c \<notin> set x) ys"
  shows "xs = ys"
proof (cases "xs = [] \<or> ys = []")
  case True
  have empty: "zs = []" if "Join zs [c] = []" "list_all (\<lambda>x. x \<noteq> [] \<and> c \<notin> set x) zs" for zs
  proof (cases zs)
    case (Cons x us)
    then show ?thesis using that by (cases us) simp_all
  qed
  from True show ?thesis
  proof
    assume xs: "xs = []"
    then have "Join ys [c] = []" using assms(1)[symmetric] by simp
    from empty[OF this assms(3)] xs show ?thesis by simp
  next
    assume ys: "ys = []"
    then have "Join xs [c] = []" using assms(1) by simp
    from empty[OF this assms(2)] ys show ?thesis by simp
  qed
next
  case False
  then have "Split (Join xs [c]) c = xs" "Split (Join ys [c]) c = ys"
    using assms(2,3) by (auto simp: list_all_iff intro!: Split_Join)
  then show ?thesis using assms(1) by metis
qed

lemma FormatBool_inj: "FormatBool a = FormatBool b \<Longrightarrow> a = b"
  by (cases a; cases b) (simp_all add: FormatBool_def)

lemma cacheKey_inj:
  assumes "inj (pxDuration px)" "plainConfig px a" "plainConfig px b" "cacheKey px a = cacheKey px b"
  shows "a = b"
proof -
  have ne: "keyParts px c \<noteq> []" for c by (simp add: keyParts_def)
  have "Split (cacheKey px c) (CHR ''|'') = keyParts px c" if "plainConfig px c" for c
    using that Split_Join[OF ne[of c], of "CHR ''|''"] by (auto simp: cacheKey_def plainConfig_def list_all_iff)
  then have parts: "keyParts px a = keyParts px b" using assms(2-4) by metis
  have "cfProxyURL a = cfProxyURL b"
  proof (cases "cfProxyURL a"; cases "cfProxyURL b")
    fix u v assume "cfProxyURL a = Some u" "cfProxyURL b = Some v"
    moreover from this have "pxString px u = pxString px v" using parts by (simp add: keyParts_def)
    ultimately show ?thesis using assms(2,3) by (simp add: plainConfig_def)
  qed (use parts in \<open>auto simp: keyParts_def\<close>)
  moreover have "cfNoProxy a = cfNoProxy b"
    using parts assms(2,3) Join_inj[of "cfNoProxy a" "CHR '',''" "cfNoProxy b"] by (auto simp: keyParts_def plainConfig_def)
  ultimately show ?thesis
    using parts injD[OF assms(1)] by (intro proxyConfig.equality) (auto simp: keyParts_def dest: FormatBool_inj)
qed

text \<open>A transport up to whether it keeps idle connections.\<close>

fun upToKeepAlive :: "roundTripper \<Rightarrow> roundTripper" where
  "upToKeepAlive (RtHTTP tr) = RtHTTP (tr\<lparr>trDisableKeepAlives := True\<rparr>)"
| "upToKeepAlive (RtCloseIdle rt) = upToKeepAlive rt"
| "upToKeepAlive (RtScheme a b) = RtScheme (upToKeepAlive a) (upToKeepAlive b)"
| "upToKeepAlive rt = rt"

text \<open>The client of a request as it is made without a cache.\<close>

definition freshTransport :: "proxyEnv \<Rightarrow> string \<Rightarrow> options \<Rightarrow> proxyConfig \<Rightarrow> roundTripper res" where
  "freshTransport px scheme opts cfg =
     (if cfHTTPVersion cfg = ''3'' \<or> cfHTTPVersion cfg = ''h3'' then Inr (RtHTTP3 (newHTTP3Transport cfg))
      else if cfHTTPVersion cfg = ''2'' \<or> cfHTTPVersion cfg = ''h2'' then Inr (RtHTTP2 (newHTTP2Transport cfg))
      else if \<not> hasSchemeSpecificProxyOptions opts then Inr (RtHTTP (newTransport cfg))
      else bindR (buildProxyConfig px (if scheme = ''http'' then ''https'' else ''http'') opts) (\<lambda>other.
        Inr (if scheme = ''https'' then RtScheme (RtHTTP (newTransport other)) (RtHTTP (newTransport cfg))
             else RtScheme (RtHTTP (newTransport cfg)) (RtHTTP (newTransport other)))))"

lemma madeFrom_lookup:
  assumes "madeFrom px (plainConfig px) mk cache" "map_of cache (cacheKey px cfg) = Some tr"
    "inj (pxDuration px)" "plainConfig px cfg"
  shows "tr = mk cfg"
proof -
  obtain c where c: "plainConfig px c" "cacheKey px cfg = cacheKey px c" "tr = mk c"
    using assms(1) map_of_SomeD[OF assms(2)] unfolding madeFrom_def by blast
  then show ?thesis using cacheKey_inj[OF assms(3,4) c(1,2)] by simp
qed

lemma cachedHTTPTransport_fresh:
  assumes "cacheInv px (plainConfig px) ts" "inj (pxDuration px)" "plainConfig px cfg"
    "cachedHTTPTransport px cfg ts = (tr, ts')"
  shows "upToKeepAlive (RtHTTP tr) = upToKeepAlive (RtHTTP (newTransport cfg))" "cacheInv px (plainConfig px) ts'"
proof -
  show "upToKeepAlive (RtHTTP tr) = upToKeepAlive (RtHTTP (newTransport cfg))"
    using assms madeFrom_lookup[of px newTransport "tsH1 ts" cfg tr]
    by (auto simp: cachedHTTPTransport_def cacheInv_def Let_def split: option.splits if_splits)
  show "cacheInv px (plainConfig px) ts'" using cacheInv_h1[OF assms(1,3)] assms(4) by simp
qed

lemma clTransport_with [simp]: "clTransport (clientWithTransport ts rt) = rt"
  by (simp add: clientWithTransport_def split: option.splits)

lemma keepAlive_with [simp]: "upToKeepAlive (transportWithKeepAlivePolicy rt k) = upToKeepAlive rt"
  by (simp add: transportWithKeepAlivePolicy_def)

lemma clientHTTP2_fresh:
  assumes "cacheInv px (plainConfig px) ts" "inj (pxDuration px)" "plainConfig px cfg" "clientHTTP2 px cfg ts = (Inr c, ts')"
  shows "upToKeepAlive (clTransport c) = RtHTTP2 (newHTTP2Transport cfg)"
  using assms madeFrom_lookup[of px newHTTP2Transport "tsH2 ts" cfg]
  by (auto simp: clientHTTP2_def cacheInv_def Let_def split: option.splits if_splits)

lemma clientHTTP3_fresh:
  assumes "cacheInv px (plainConfig px) ts" "inj (pxDuration px)" "plainConfig px cfg" "clientHTTP3 px cfg ts = (Inr c, ts')"
  shows "upToKeepAlive (clTransport c) = RtHTTP3 (newHTTP3Transport cfg)"
  using assms madeFrom_lookup[of px newHTTP3Transport "tsH3 ts" cfg]
  by (auto simp: clientHTTP3_def cacheInv_def Let_def split: option.splits if_splits)

lemma clientHTTP1_fresh:
  assumes "cacheInv px (plainConfig px) ts" "inj (pxDuration px)" "plainConfig px cfg"
    "builds px (plainConfig px) scheme opts" "clientHTTP1 px scheme opts cfg ts = (Inr c, ts')"
    "\<not> (cfHTTPVersion cfg = ''3'' \<or> cfHTTPVersion cfg = ''h3'')" "\<not> (cfHTTPVersion cfg = ''2'' \<or> cfHTTPVersion cfg = ''h2'')"
  shows "\<exists>rt. freshTransport px scheme opts cfg = Inr rt \<and> upToKeepAlive (clTransport c) = upToKeepAlive rt"
proof -
  obtain tr ts1 where one: "cachedHTTPTransport px cfg ts = (tr, ts1)" by (cases "cachedHTTPTransport px cfg ts")
  note tr = cachedHTTPTransport_fresh[OF assms(1-3) one]
  show ?thesis
  proof (cases "hasSchemeSpecificProxyOptions opts")
    case False
    then show ?thesis using assms(5-7) one tr by (auto simp: clientHTTP1_def freshTransport_def)
  next
    case True
    then obtain other where other: "buildProxyConfig px (if scheme = ''http'' then ''https'' else ''http'') opts = Inr other"
      using assms(5) one by (cases "buildProxyConfig px (if scheme = ''http'' then ''https'' else ''http'') opts")
        (auto simp: clientHTTP1_def Let_def)
    then have plain: "plainConfig px other" using builds_other[OF assms(4)] by blast
    obtain tr2 ts2 where two: "cachedHTTPTransport px other ts1 = (tr2, ts2)" by (cases "cachedHTTPTransport px other ts1")
    note tr2 = cachedHTTPTransport_fresh[OF tr(2) assms(2) plain two]
    show ?thesis using assms(5-7) True one two other tr(1) tr2(1)
      by (auto simp: clientHTTP1_def freshTransport_def Let_def split: if_splits)
  qed
qed


section \<open>A collision of keys\<close>

definition socksOpts :: "string \<Rightarrow> string \<Rightarrow> options" where
  "socksOpts user pass = [(''all-proxy'', VStr ''socks5://p''), (''all-proxy-user'', VStr user), (''all-proxy-passwd'', VStr pass)]"

definition socksURL :: proxyURL where
  "socksURL = \<lparr>puScheme = ''socks5'', puUser = None, puHost = ''p'', puRest = ''''\<rparr>"

lemma socks_value: "optionValue (socksOpts user pass) key =
  (if key = ''all-proxy'' then Some (VStr ''socks5://p'') else if key = ''all-proxy-user'' then Some (VStr user)
   else if key = ''all-proxy-passwd'' then Some (VStr pass) else None)"
  by (subst optionValue.simps) (simp add: socksOpts_def optionBaseKey_def)

lemma socks_strings:
  "optionString (socksOpts user pass) key =
    (if key = ''all-proxy'' then ''socks5://p'' else if key = ''all-proxy-user'' then user
     else if key = ''all-proxy-passwd'' then pass else '''')"
  "optionPresent (socksOpts user pass) key \<longleftrightarrow> key \<in> {''all-proxy'', ''all-proxy-user'', ''all-proxy-passwd''}"
  by (simp_all add: optionString_def optionPresent_def socks_value)

lemma baseConfig_absent:
  assumes "\<And>key. key \<in> {''no-proxy'', ''connect-timeout'', ''timeout'', ''check-certificate'', ''enable-http-keep-alive'', ''http-version''} \<Longrightarrow>
    optionValue opts key = None"
  shows "baseConfig px scheme opts = baseConfig px scheme []"
proof -
  have none: "optionValue [] key = None" for key by (subst optionValue.simps) simp
  show ?thesis
    by (simp only: baseConfig_def optionInt_def optionBoolDefault_def optionBool_def optionString_def optionPresent_def none assms insertI1 insertI2)
qed

lemma socks_config:
  assumes "pxParse px ''socks5://p'' = Inr socksURL" "user \<noteq> ''''" "scheme = ''http'' \<or> scheme = ''https''"
  shows "buildProxyConfig px scheme (socksOpts user pass) =
    Inr ((baseConfig px scheme [])\<lparr>cfRaw := ''socks5://p'', cfSocksAddr := ''p'', cfSocksUser := user, cfSocksPass := pass\<rparr>)"
proof -
  have trim: "TrimSpace ''socks5://p'' = ''socks5://p''" by (rule TrimSpace_ends) (simp_all add: plainByte_def asciiSpace_def)
  have "containsText ''socks5://p'' ''://''" by (simp add: containsText_def)
  then have url: "normalizeProxyURL px ''socks5://p'' = Inr socksURL" using assms(1) by (simp add: normalizeProxyURL_def trim socksURL_def)
  have "baseConfig px scheme (socksOpts user pass) = baseConfig px scheme []"
    by (rule baseConfig_absent) (auto simp: socks_value)
  moreover have "proxySpecForScheme scheme (socksOpts user pass) = (''socks5://p'', False)"
    using assms(3) by (auto simp: proxySpecForScheme_def socks_strings)
  moreover have "proxyCredentialsForScheme scheme (socksOpts user pass) = (user, pass)"
    using assms(3) by (auto simp: proxyCredentialsForScheme_def socks_strings)
  moreover have "ToLower ''socks5'' = ''socks5''" by (rule ToLower_lower) (simp add: lowerByte_def)
  ultimately show ?thesis using url assms(2)
    by (simp add: buildProxyConfig_def withProxyURL_def socksURL_def)
qed

lemma auto_version: "normalizeHTTPVersion '''' = ''auto''"
  by (simp add: normalizeHTTPVersion_def TrimSpace_def TrimLeftSpace_def TrimRightSpace_def stripLead_nil)

lemma socks_client:
  assumes "pxParse px ''socks5://p'' = Inr socksURL" "user \<noteq> ''''" "cacheKey px (the_config user pass) = key"
    "\<And>u p. the_config u p = (baseConfig px ''http'' [])\<lparr>cfRaw := ''socks5://p'', cfSocksAddr := ''p'', cfSocksUser := u, cfSocksPass := p\<rparr>"
  shows "clientFor px ''http'' (socksOpts user pass) ts =
    (case cachedHTTPTransport px (the_config user pass) ts of (tr, ts') \<Rightarrow> (Inr (Some (clientWithTransport ts' (RtHTTP tr))), ts'))"
proof -
  have "hasCustomTransportOptions (socksOpts user pass)"
    by (simp add: hasCustomTransportOptions_def hasCustomTransportOptionsExceptHTTPVersion_def socks_strings)
  moreover have "\<not> hasSchemeSpecificProxyOptions (socksOpts user pass)"
    by (simp add: hasSchemeSpecificProxyOptions_def socks_strings)
  moreover have "optionString (socksOpts user pass) ''http-version'' = ''''" by (simp add: socks_strings)
  moreover have "cfHTTPVersion (the_config user pass) = ''auto''"
    by (simp add: assms(4) baseConfig_def optionString_def optionValue.simps[of "[]"] auto_version Let_def)
  ultimately show ?thesis using socks_config[OF assms(1,2), of "''http''" pass] assms(4)
    by (simp add: clientFor_def clientHTTP1_def auto_version split: prod.splits)
qed

text \<open>The separator of the key may occur in the parts: a download through a SOCKS proxy as user \<open>a\<close> with
  password \<open>b|c\<close> is given the cached transport of user \<open>a|b\<close> with password \<open>c\<close>.\<close>

theorem cacheKey_collision:
  assumes "pxParse px ''socks5://p'' = Inr socksURL" "emptyCaches ts"
  shows "\<exists>c tr ts'. clientFor px ''http'' (socksOpts ''a'' ''b|c'') (snd (clientFor px ''http'' (socksOpts ''a|b'' ''c'') ts)) = (Inr (Some c), ts') \<and>
    clTransport c = RtHTTP tr \<and> (\<exists>scheme noProxy t. trDial tr = DialSocks ''p'' (Some (''a|b'', ''c'')) scheme noProxy t)"
proof -
  define cfg where "cfg = (\<lambda>u p. (baseConfig px ''http'' [])\<lparr>cfRaw := ''socks5://p'', cfSocksAddr := ''p'', cfSocksUser := u, cfSocksPass := p\<rparr>)"
  have config: "cfg u p = (baseConfig px ''http'' [])\<lparr>cfRaw := ''socks5://p'', cfSocksAddr := ''p'', cfSocksUser := u, cfSocksPass := p\<rparr>" for u p
    by (simp add: cfg_def)
  note client = socks_client[OF assms(1) _ refl, of _ cfg, OF _ config]
  have same: "cacheKey px (cfg ''a'' ''b|c'') = cacheKey px (cfg ''a|b'' ''c'')"
    by (simp add: cacheKey_def keyParts_def cfg_def)
  let ?tr = "newTransport (cfg ''a|b'' ''c'')"
  let ?ts = "ts\<lparr>tsH1 := [(cacheKey px (cfg ''a|b'' ''c''), ?tr)]\<rparr>"
  have "cachedHTTPTransport px (cfg ''a|b'' ''c'') ts = (?tr, ?ts)"
    using assms(2) by (simp add: cachedHTTPTransport_def emptyCaches_def transportCacheFullLocked_def maxCachedTransports_def Let_def)
  moreover have "cachedHTTPTransport px (cfg ''a'' ''b|c'') ?ts = (?tr, ?ts)"
    by (simp add: cachedHTTPTransport_def same)
  moreover have "trDial ?tr = DialSocks ''p'' (Some (''a|b'', ''c'')) ''http'' (cfNoProxy (cfg ''a|b'' ''c'')) (cfConnectTimeout (cfg ''a|b'' ''c''))"
    by (simp add: newTransport_def cfg_def baseConfig_def Let_def)
  ultimately show ?thesis by (auto simp: client)
qed

section \<open>Forced protocol versions and proxies\<close>

text \<open>What httpproxy documents, for https: a lone asterisk in the no-proxy list disables the proxy, and a request is not
  proxied when no proxy is set for its scheme (a value of white space is no URL and sets none).\<close>

definition httpproxyLaws :: "proxyEnv \<Rightarrow> bool" where
  "httpproxyLaws px \<longleftrightarrow>
     (\<forall>env u. puScheme u = ''https'' \<longrightarrow> list_ex (\<lambda>r. TrimSpace r = ''*'') (Split (epNoProxy env) (CHR '','')) \<longrightarrow>
        pxProxyFunc px env u = Inr None) \<and>
     (\<forall>env u. puScheme u = ''https'' \<longrightarrow> TrimSpace (epHTTPSProxy env) = '''' \<longrightarrow> pxProxyFunc px env u = Inr None)"

text \<open>What \<open>net/url\<close> documents: the scheme of a URL is what stands before its first colon.\<close>

definition parseLaw :: "proxyEnv \<Rightarrow> bool" where
  "parseLaw px \<longleftrightarrow> (\<forall>s u. pxParse px (''http://'' @ s) = Inr u \<longrightarrow> puScheme u = ''http'')"

lemma set_TrimSpace: "set (TrimSpace s) \<subseteq> set s"
proof -
  have suf: "set (stripLead qs t) \<subseteq> set t" for qs t using stripLead_suffix[of qs t] by (auto dest: set_mono_suffix)
  show ?thesis unfolding TrimSpace_def TrimRightSpace_def TrimLeftSpace_def
    using suf[of "map rev spaceSeqs" "rev (stripLead spaceSeqs s)"] suf[of spaceSeqs s] by auto
qed

lemma splitList_no_comma: "r \<in> set (splitList s) \<Longrightarrow> CHR '','' \<notin> set r"
  using set_TrimSpace Split_pieces by (fastforce simp: splitList_def split: if_splits)

lemma star_rule: "list_ex (\<lambda>r. TrimSpace r = ''*'') (splitList s) \<Longrightarrow> ''*'' \<in> set (splitList s)"
proof -
  assume "list_ex (\<lambda>r. TrimSpace r = ''*'') (splitList s)"
  then obtain r where r: "r \<in> set (splitList s)" "TrimSpace r = ''*''" by (auto simp: list_ex_iff)
  moreover have "TrimSpace r = r" using r(1) TrimSpace_idem by (auto simp: splitList_def split: if_splits)
  ultimately show ?thesis by simp
qed

lemma star_applies: "ruleApplies px host port ip ''*''"
proof -
  have "TrimSpace ''*'' = ''*''" by (rule TrimSpace_ends) (simp_all add: plainByte_def asciiSpace_def)
  moreover have "ToLower ''*'' = ''*''" by (rule ToLower_lower) (simp add: lowerByte_def)
  ultimately show ?thesis by (simp add: ruleApplies_def)
qed

definition namedHost :: "string \<Rightarrow> bool" where
  "namedHost hostPort \<longleftrightarrow> TrimSuffix (ToLower (urlHostname hostPort)) ''.'' \<noteq> ''''"

lemma star_bypass: "''*'' \<in> set rules \<Longrightarrow> namedHost hostPort \<Longrightarrow> shouldBypassProxyURL px scheme hostPort rules"
proof -
  assume "''*'' \<in> set rules" "namedHost hostPort"
  moreover have "list_ex (ruleApplies px host port ip) rules" if "''*'' \<in> set rules" for host port ip
    using that star_applies[of px host port ip] unfolding list_ex_iff by blast
  ultimately show ?thesis by (simp add: shouldBypassProxyURL_def namedHost_def Let_def)
qed

lemma build_fields:
  assumes "buildProxyConfig px scheme opts = Inr cfg"
  shows "cfScheme cfg = scheme" "\<exists>s. cfNoProxy cfg = splitList s" "cfHTTPVersion cfg = normalizeHTTPVersion (optionString opts ''http-version'')"
    "cfConnectTimeout cfg = nanoseconds (optionInt opts ''connect-timeout'' 60) \<and> cfHeaderTimeout cfg = nanoseconds (optionInt opts ''timeout'' 60)"
proof -
  have base: "cfScheme (baseConfig px scheme opts) = scheme" "\<exists>s. cfNoProxy (baseConfig px scheme opts) = splitList s"
    "cfHTTPVersion (baseConfig px scheme opts) = normalizeHTTPVersion (optionString opts ''http-version'')"
    "cfConnectTimeout (baseConfig px scheme opts) = nanoseconds (optionInt opts ''connect-timeout'' 60)"
    "cfHeaderTimeout (baseConfig px scheme opts) = nanoseconds (optionInt opts ''timeout'' 60)"
    by (auto simp: baseConfig_def Let_def)
  have url: "cfScheme c' = cfScheme c \<and> cfNoProxy c' = cfNoProxy c \<and> cfHTTPVersion c' = cfHTTPVersion c \<and>
      cfConnectTimeout c' = cfConnectTimeout c \<and> cfHeaderTimeout c' = cfHeaderTimeout c"
    if "withProxyURL u c = Inr c'" for u c c'
    using that by (auto simp: withProxyURL_def Let_def split: if_splits option.splits)
  obtain c where "cfg = c \<or> (\<exists>u. withProxyURL u c = Inr cfg)" "cfScheme c = cfScheme (baseConfig px scheme opts)"
    "cfNoProxy c = cfNoProxy (baseConfig px scheme opts)" "cfHTTPVersion c = cfHTTPVersion (baseConfig px scheme opts)"
    "cfConnectTimeout c = cfConnectTimeout (baseConfig px scheme opts)" "cfHeaderTimeout c = cfHeaderTimeout (baseConfig px scheme opts)"
  proof (cases "snd (proxySpecForScheme scheme opts)")
    case True
    then show ?thesis using assms that[of "(baseConfig px scheme opts)\<lparr>cfRaw := ''-''\<rparr>"]
      by (auto simp: buildProxyConfig_def Let_def split: prod.splits)
  next
    case False
    show ?thesis
    proof (cases "fst (proxySpecForScheme scheme opts) = ''''")
      case True
      then show ?thesis using False assms that[of "baseConfig px scheme opts"]
        by (auto simp: buildProxyConfig_def Let_def split: prod.splits)
    next
      case raw: False
      then show ?thesis using False assms that[of "(baseConfig px scheme opts)\<lparr>cfRaw := fst (proxySpecForScheme scheme opts)\<rparr>"]
        by (auto simp: buildProxyConfig_def Let_def bindR_eq_Inr case_prod_beta)
    qed
  qed
  then show "cfScheme cfg = scheme" "\<exists>s. cfNoProxy cfg = splitList s"
    "cfHTTPVersion cfg = normalizeHTTPVersion (optionString opts ''http-version'')"
    "cfConnectTimeout cfg = nanoseconds (optionInt opts ''connect-timeout'' 60) \<and> cfHeaderTimeout cfg = nanoseconds (optionInt opts ''timeout'' 60)"
    using base url by metis+
qed

text \<open>The marker for no proxy is also an option value; as such it names an HTTP proxy, never a SOCKS server.\<close>

lemma marker_no_socks:
  assumes "parseLaw px" "buildProxyConfig px scheme opts = Inr cfg" "cfRaw cfg = ''-''"
  shows "cfSocksAddr cfg = ''''"
proof (cases "snd (proxySpecForScheme scheme opts) \<or> fst (proxySpecForScheme scheme opts) = ''''")
  case True
  then show ?thesis using assms(2,3) by (auto simp: buildProxyConfig_def baseConfig_def Let_def case_prod_beta split: if_splits)
next
  case False
  define base where "base = (baseConfig px scheme opts)\<lparr>cfRaw := fst (proxySpecForScheme scheme opts)\<rparr>"
  have keep: "cfRaw c' = cfRaw c" if "withProxyURL u c = Inr c'" for u c c'
    using that by (auto simp: withProxyURL_def Let_def split: if_splits option.splits)
  obtain u0 u where u: "normalizeProxyURL px (fst (proxySpecForScheme scheme opts)) = Inr u0" "puScheme u = puScheme u0"
    "withProxyURL u base = Inr cfg"
  proof -
    let ?user = "fst (proxyCredentialsForScheme scheme opts)" and ?pass = "snd (proxyCredentialsForScheme scheme opts)"
    obtain u0 where one: "normalizeProxyURL px (fst (proxySpecForScheme scheme opts)) = Inr u0"
      and two: "withProxyURL (if ?user \<noteq> '''' then u0\<lparr>puUser := Some (?user, Some ?pass)\<rparr> else u0) base = Inr cfg"
      using assms(2) False by (auto simp: buildProxyConfig_def Let_def bindR_eq_Inr case_prod_beta base_def[symmetric])
    from one _ two show ?thesis by (rule that) simp
  qed
  have "fst (proxySpecForScheme scheme opts) = ''-''" using keep[OF u(3)] assms(3) by (simp add: base_def)
  moreover have "TrimSpace ''-'' = ''-''" by (rule TrimSpace_ends) (simp_all add: plainByte_def asciiSpace_def)
  moreover have "\<not> containsText ''-'' ''://''" by (simp add: containsText_def)
  ultimately have "pxParse px (''http://'' @ ''-'') = Inr u0"
    using u(1) by (auto simp: normalizeProxyURL_def bindR_eq_Inr split: if_splits)
  then have "puScheme u = ''http''" using assms(1) u(2) unfolding parseLaw_def by metis
  moreover have "ToLower ''http'' = ''http''" by (rule ToLower_lower) (simp add: lowerByte_def)
  ultimately show ?thesis using u(3) by (auto simp: withProxyURL_def base_def baseConfig_def Let_def)
qed

lemma no_potential_proxy_direct:
  assumes "httpproxyLaws px" "parseLaw px" "buildProxyConfig px ''https'' opts = Inr cfg" "\<not> hasPotentialProxy cfg"
    "puScheme u = ''https''" "namedHost (puHost u)" "namedHost addr"
  shows "requestRoute px (newTransport cfg) u addr = RouteDirect"
proof -
  obtain s where rules: "cfNoProxy cfg = splitList s" using build_fields(2)[OF assms(3)] by blast
  show ?thesis
  proof (cases "cfRaw cfg = ''-''")
    case True
    then show ?thesis using marker_no_socks[OF assms(2,3)] by (simp add: requestRoute_def newTransport_def dialRoute_def Let_def)
  next
    case notNone: False
    show ?thesis
    proof (cases "list_ex (\<lambda>r. TrimSpace r = ''*'') (cfNoProxy cfg)")
      case True
      then have star: "''*'' \<in> set (cfNoProxy cfg)" using star_rule rules by simp
      then have bypass: "shouldBypassProxyURL px scheme hp (cfNoProxy cfg)" if "namedHost hp" for scheme hp using that by (rule star_bypass)
      have "Split (Join (cfNoProxy cfg) '','') (CHR '','') = cfNoProxy cfg"
        using star rules splitList_no_comma by (intro Split_Join) auto
      then have "pxProxyFunc px \<lparr>epHTTPProxy = a, epHTTPSProxy = b, epNoProxy = Join (cfNoProxy cfg) '','', epCGI = c\<rparr> u = Inr None" for a b c
        using assms(1,5) True unfolding httpproxyLaws_def by simp
      then show ?thesis using bypass[OF assms(6)] bypass[OF assms(7)]
        by (auto simp: requestRoute_def newTransport_def dialRoute_def environmentProxyFunc_def Let_def split: option.splits)
    next
      case False
      then have "cfRaw cfg = ''-'' \<or> cfProxyURL cfg = None \<and> cfSocksAddr cfg = '''' \<and> TrimSpace (cfEnvHTTPSProxy cfg) = ''''"
        using assms(4) build_fields(1)[OF assms(3)] by (auto simp: hasPotentialProxy_def split: if_splits)
      then show ?thesis using assms(1,5) notNone
        by (auto simp: requestRoute_def newTransport_def dialRoute_def environmentProxyFunc_def httpproxyLaws_def Let_def)
    qed
  qed
qed



section \<open>Instances\<close>

definition proxyExample :: proxyEnv where
  "proxyExample = \<lparr>pxParse = (\<lambda>s. if s = ''socks5://p'' then Inr socksURL
       else if HasPrefix s ''http://'' then Inr \<lparr>puScheme = ''http'', puUser = None, puHost = drop 7 s, puRest = ''''\<rparr>
       else Inl (Errorf ''parse'' [])),
     pxString = (\<lambda>u. puScheme u @ ''://'' @ puHost u), pxDuration = Itoa, pxParseIP = (\<lambda>_. None), pxParseCIDR = (\<lambda>_. None),
     pxFromEnvironment = \<lparr>epHTTPProxy = '''', epHTTPSProxy = '''', epNoProxy = '''', epCGI = False\<rparr>,
     pxProxyFunc = (\<lambda>_ _. Inr None)\<rparr>"

definition noTransports :: transportState where
  "noTransports = \<lparr>tsClient = None, tsCustom = False, tsH1 = [], tsH2 = [], tsH3 = []\<rparr>"

lemma Itoa_inj: "inj Itoa"
proof (rule injI)
  fix a b assume eq: "Itoa a = Itoa b"
  have inj: "m = n" if "showNat m = showNat n" for m n using that digitsVal_showNat by metis
  have dash: "showNat n \<noteq> CHR ''-'' # s" for n s using showNat_hd_digit[of n "CHR ''-''" s] by (auto simp: isDigit_def)
  show "a = b"
  proof (cases "a < 0"; cases "b < 0")
    assume "a < 0" "b < 0"
    then show ?thesis using eq inj by (fastforce simp: Itoa_def)
  next
    assume "\<not> a < 0" "\<not> b < 0"
    then show ?thesis using eq inj by (fastforce simp: Itoa_def)
  qed (use eq dash in \<open>auto simp: Itoa_def dest: sym\<close>)
qed

lemma bar_Itoa: "CHR ''|'' \<notin> set (Itoa n)"
proof -
  have "CHR ''|'' \<notin> set (showNat m)" for m using showNat_digits[of "CHR ''|''" m] by (auto simp: isDigit_def)
  then show ?thesis by (simp add: Itoa_def)
qed

lemma proxyExample_config:
  assumes "scheme = ''http'' \<or> scheme = ''https''"
  shows "buildProxyConfig proxyExample scheme (socksOpts ''a'' ''b'') =
    Inr ((baseConfig proxyExample scheme [])\<lparr>cfRaw := ''socks5://p'', cfSocksAddr := ''p'', cfSocksUser := ''a'', cfSocksPass := ''b''\<rparr>)"
  using assms by (intro socks_config) (simp_all add: proxyExample_def)

lemma plain_base:
  assumes "scheme = ''http'' \<or> scheme = ''https''"
  shows "plainConfig proxyExample ((baseConfig proxyExample scheme [])\<lparr>cfRaw := ''socks5://p'', cfSocksAddr := ''p'', cfSocksUser := ''a'', cfSocksPass := ''b''\<rparr>)"
proof -
  have none: "optionString [] key = ''''" "optionPresent [] key = False" for key
    by (simp_all add: optionString_def optionPresent_def optionValue.simps[of "[]"])
  have "CHR ''|'' \<notin> set (FormatBool b)" for b by (simp add: FormatBool_def)
  then show ?thesis using assms
    by (auto simp: plainConfig_def keyParts_def baseConfig_def proxyExample_def none auto_version splitList_def bar_Itoa Let_def)
qed

lemma proxyExample_builds: "builds proxyExample (plainConfig proxyExample) ''http'' (socksOpts ''a'' ''b'')"
  by (simp add: builds_def proxyExample_config plain_base)


definition oneTransport :: transportState where
  "oneTransport = snd (clientFor proxyExample ''http'' (socksOpts ''a'' ''b'') noTransports)"

lemma builds_mono: "builds px P scheme opts \<Longrightarrow> (\<And>cfg. P cfg \<Longrightarrow> Q cfg) \<Longrightarrow> builds px Q scheme opts"
  by (auto simp: builds_def split: sum.splits)

lemma oneTransport_reachable: "(\<And>cfg. plainConfig proxyExample cfg \<Longrightarrow> P cfg) \<Longrightarrow> cacheReachable proxyExample P oneTransport"
proof -
  assume "\<And>cfg. plainConfig proxyExample cfg \<Longrightarrow> P cfg"
  then have "clientStep proxyExample P noTransports oneTransport"
    using builds_mono[OF proxyExample_builds] unfolding clientStep_def oneTransport_def by blast
  moreover have "emptyCaches noTransports" by (simp add: emptyCaches_def noTransports_def)
  ultimately show ?thesis unfolding cacheReachable_def by blast
qed

lemma oneTransport_client: "\<exists>c ts. clientFor proxyExample ''http'' (socksOpts ''a'' ''b'') oneTransport = (Inr (Some c), ts) \<and> tsClient oneTransport = None"
proof -
  have parse: "pxParse proxyExample ''socks5://p'' = Inr socksURL" by (simp add: proxyExample_def)
  have keep: "tsClient (snd (cachedHTTPTransport px cfg ts)) = tsClient ts" for px cfg ts
    by (simp add: cachedHTTPTransport_def Let_def split: option.splits)
  note client = socks_client[OF parse _ refl refl, of "''a''" "''b''"]
  have "tsClient oneTransport = None"
    using keep[of proxyExample _ noTransports] by (simp add: oneTransport_def client case_prod_beta) (simp add: noTransports_def)
  then show ?thesis by (simp add: client split: prod.splits)
qed

theorem transport_cache_bounded_witness: "length (tsH1 oneTransport) + length (tsH2 oneTransport) + length (tsH3 oneTransport) \<le> 256"
  by (rule transport_cache_bounded[of proxyExample]) (rule oneTransport_reachable, simp)


definition h2Opts :: options where "h2Opts = [(''http-version'', VStr ''2'')]"

lemma h2_value: "optionValue h2Opts key = (if key = ''http-version'' then Some (VStr ''2'') else None)"
  by (subst optionValue.simps) (simp add: h2Opts_def optionBaseKey_def)

lemma h2_version: "normalizeHTTPVersion (optionString h2Opts ''http-version'') = ''2''"
proof -
  have "TrimSpace ''2'' = ''2''" by (rule TrimSpace_ends) (simp_all add: plainByte_def asciiSpace_def)
  moreover have "ToLower ''2'' = ''2''" by (rule ToLower_lower) (simp add: lowerByte_def)
  moreover have "optionString h2Opts ''http-version'' = ''2''"
    by (simp add: optionString_def h2_value)
  ultimately show ?thesis by (simp add: normalizeHTTPVersion_def)
qed



lemma h2_config: "buildProxyConfig proxyExample ''https'' h2Opts = Inr (baseConfig proxyExample ''https'' h2Opts)"
  by (simp add: buildProxyConfig_def proxySpecForScheme_def optionPresent_def h2_value)

lemma h2_client: "\<exists>c ts. clientFor proxyExample ''https'' h2Opts noTransports = (Inr (Some c), ts)"
proof -
  let ?cfg = "baseConfig proxyExample ''https'' h2Opts"
  have "hasCustomTransportOptions h2Opts" by (simp add: hasCustomTransportOptions_def h2_version)
  moreover have "cfHTTPVersion ?cfg = ''2''" "cfScheme ?cfg = ''https''" by (simp_all add: baseConfig_def h2_version Let_def)
  moreover have "\<not> hasPotentialProxy ?cfg"
    by (simp add: hasPotentialProxy_def baseConfig_def proxyExample_def TrimSpace_def TrimLeftSpace_def TrimRightSpace_def stripLead_nil Let_def)
  ultimately show ?thesis by (simp add: clientFor_def h2_config clientHTTP2_def noTransports_def case_prod_beta Let_def)
qed

definition targetURL :: proxyURL where
  "targetURL = \<lparr>puScheme = ''https'', puUser = None, puHost = ''h'', puRest = ''''\<rparr>"


end
