(* ===== verification/Http_Client.thy ===== *)
theory Http_Client
  imports Transports
begin

text \<open>
  Sending a request (proxy.go): the client of a request with its cookies, timeouts and redirect host, the answer to a
  basic authentication challenge, and the readers around a response body that watch over timeouts and contexts.
  \<open>net/http\<close> itself is a parameter: what \<open>Client.Do\<close> and \<open>RoundTrip\<close> return.
\<close>

section \<open>Origins\<close>

definition canonicalURLHost :: "proxyURL \<Rightarrow> string" where
  "canonicalURLHost u =
     (let host = ToLower (urlHostname (puHost u)); port = urlPort (puHost u) in
      JoinHostPort host
        (if port = ''''
         then (if ToLower (puScheme u) = ''http'' then ''80'' else if ToLower (puScheme u) = ''https'' then ''443'' else port)
         else port))"

definition sameURLOrigin :: "proxyURL option \<Rightarrow> proxyURL option \<Rightarrow> bool" where
  "sameURLOrigin a b =
     (case (a, b) of
        (Some u, Some v) \<Rightarrow>
          (if \<not> EqualFold (puScheme u) (puScheme v) then False else EqualFold (canonicalURLHost u) (canonicalURLHost v))
      | _ \<Rightarrow> False)"

text \<open>The reference: scheme and host name up to case, and the port with the default of the scheme.\<close>

definition originOf :: "proxyURL \<Rightarrow> string \<times> string \<times> string" where
  "originOf u = (foldCase (puScheme u), foldCase (ToLower (urlHostname (puHost u))), defaultPort (puScheme u) (urlPort (puHost u)))"

lemma prefix_barrier: "c \<notin> set q \<Longrightarrow> prefix q (s @ c # t) \<longleftrightarrow> prefix q s"
proof
  assume c: "c \<notin> set q" and "prefix q (s @ c # t)"
  then obtain us where "prefix q s \<or> q = s @ us \<and> prefix us (c # t)" unfolding prefix_append by blast
  then show "prefix q s" using c by (cases us) auto
qed (auto simp: prefix_def)

lemma fold_seqs: "of_char c < (128::nat) \<Longrightarrow> c \<notin> set kelvinSeq" "of_char c < (128::nat) \<Longrightarrow> c \<notin> set longSSeq"
  by (auto simp: kelvinSeq_def longSSeq_def)

lemma foldCase_append: "of_char c < (128::nat) \<Longrightarrow> foldCase (s @ c # t) = foldCase s @ foldCase (c # t)"
proof (induction s rule: foldCase.induct)
  case (2 x xs)
  have k: "prefix kelvinSeq (x # xs @ c # t) \<longleftrightarrow> prefix kelvinSeq (x # xs)" using prefix_barrier[of c kelvinSeq "x # xs" t] fold_seqs(1)[OF 2(4)] by simp
  have l: "prefix longSSeq (x # xs @ c # t) \<longleftrightarrow> prefix longSSeq (x # xs)" using prefix_barrier[of c longSSeq "x # xs" t] fold_seqs(2)[OF 2(4)] by simp
  have n: "prefix kelvinSeq (x # xs) \<Longrightarrow> length xs \<ge> 2" "prefix longSSeq (x # xs) \<Longrightarrow> length xs \<ge> 1"
    by (auto simp: kelvinSeq_def longSSeq_def dest: prefix_length_le)
  consider "prefix kelvinSeq (x # xs)" | "\<not> prefix kelvinSeq (x # xs)" "prefix longSSeq (x # xs)"
    | "\<not> prefix kelvinSeq (x # xs)" "\<not> prefix longSSeq (x # xs)" by blast
  then show ?case
    by cases (use 2 k l n in simp_all)
qed simp

lemma foldCase_colon: "CHR '':'' \<in> set (foldCase s) \<longleftrightarrow> CHR '':'' \<in> set s"
proof (induction s rule: foldCase.induct)
  case (2 x xs)
  have "(of_char (asciiLower x) :: nat) = of_char x + 32" "of_char x \<ge> (65::nat)" if "asciiLower x \<noteq> x"
    using that by (simp_all add: asciiLower_def Let_def split: if_splits)
  then have lower: "asciiLower x = CHR '':'' \<longleftrightarrow> x = CHR '':''"
    by (cases "asciiLower x = x") (simp, force)
  have k: "prefix kelvinSeq (x # xs) \<Longrightarrow> x \<noteq> CHR '':'' \<and> (CHR '':'' \<in> set xs \<longleftrightarrow> CHR '':'' \<in> set (drop 2 xs))"
    using fold_seqs(1)[of "CHR '':''"] by (auto simp: kelvinSeq_def prefix_def)
  have l: "prefix longSSeq (x # xs) \<Longrightarrow> x \<noteq> CHR '':'' \<and> (CHR '':'' \<in> set xs \<longleftrightarrow> CHR '':'' \<in> set (drop 1 xs))"
    using fold_seqs(2)[of "CHR '':''"] by (auto simp: longSSeq_def prefix_def)
  consider "prefix kelvinSeq (x # xs)" | "\<not> prefix kelvinSeq (x # xs)" "prefix longSSeq (x # xs)"
    | "\<not> prefix kelvinSeq (x # xs)" "\<not> prefix longSSeq (x # xs)" by blast
  then show ?case by cases (use 2 lower k l in auto)
qed simp

lemma asciiLower_digit: "isDigit c \<Longrightarrow> asciiLower c = c"
  by (simp add: asciiLower_def isDigit_def Let_def)

lemma foldCase_digits: "list_all isDigit s \<Longrightarrow> foldCase s = s"
proof (induction s)
  case (Cons c s)
  then have "c \<notin> set kelvinSeq" "c \<notin> set longSSeq" using fold_seqs[of c] by (auto simp: isDigit_def)
  then show ?case using Cons by (auto simp: asciiLower_digit kelvinSeq_def longSSeq_def)
qed simp

lemma foldCase_head: "of_char c < (128::nat) \<Longrightarrow> foldCase (c # t) = asciiLower c # foldCase t"
  using fold_seqs[of c] by (auto simp: kelvinSeq_def longSSeq_def)

lemma foldCase_join:
  assumes "list_all isDigit p" shows "foldCase (JoinHostPort h p) = JoinHostPort (foldCase h) p"
proof -
  have tail: "foldCase (s @ c # t) = foldCase s @ c # foldCase t" if "c \<in> set '':]''" for c s t
    using that foldCase_append[of c s t] foldCase_head[of c t] by (auto simp: asciiLower_def)
  have front: "foldCase (CHR ''['' # s) = CHR ''['' # foldCase s" "foldCase (CHR '':'' # s) = CHR '':'' # foldCase s" for s
    using foldCase_head[of "CHR ''[''" s] foldCase_head[of "CHR '':''" s] by (simp_all add: asciiLower_def)
  show ?thesis using assms
    by (simp add: JoinHostPort_def ContainsByte_def foldCase_colon foldCase_digits tail front del: foldCase.simps(2))
qed

lemma JoinHostPort_inj:
  assumes "JoinHostPort h p = JoinHostPort h' p'" "CHR '':'' \<notin> set p" "CHR '':'' \<notin> set p'"
  shows "h = h' \<and> p = p'"
proof -
  let ?b = "\<lambda>h. if ContainsByte h (CHR '':'') then ''['' @ h @ '']'' else h"
  have cut: "cutLast (JoinHostPort g q) (CHR '':'') = Some (?b g, q)" if "CHR '':'' \<notin> set q" for g q
    using cutLast_append[of "CHR '':''" q "''['' @ g @ '']''"] cutLast_append[of "CHR '':''" q g] that by (simp add: JoinHostPort_def)
  have "?b h = ?b h'" "p = p'" using cut[OF assms(2), of h] cut[OF assms(3), of h'] assms(1) by simp_all
  then show ?thesis by (auto simp: ContainsByte_def split: if_splits)
qed

lemma urlPort_digits: "list_all isDigit (urlPort h)"
  by (simp add: urlPort_def splitURLHost_def split: option.splits)

lemma defaultPort_digits: "list_all isDigit (defaultPort scheme (urlPort h))"
  by (simp add: defaultPort_def urlPort_digits isDigit_def)

lemma defaultPort_scheme: "EqualFold a b \<Longrightarrow> ToLower a = ToLower b \<Longrightarrow> defaultPort a p = defaultPort b p"
  by (simp add: defaultPort_def)

text \<open>Two URLs have the same origin for the code exactly when their schemes, host names and ports agree: joining host
  and port confuses no two of them.\<close>

theorem sameURLOrigin_iff: "sameURLOrigin (Some u) (Some v) \<longleftrightarrow> originOf u = originOf v"
proof -
  have canon: "canonicalURLHost u = JoinHostPort (ToLower (urlHostname (puHost u))) (defaultPort (puScheme u) (urlPort (puHost u)))" for u
    by (simp add: canonicalURLHost_def defaultPort_def Let_def)
  have colon: "CHR '':'' \<notin> set (defaultPort s (urlPort h))" for s h
    using defaultPort_digits[of s h] by (auto simp: list_all_iff isDigit_def)
  have "EqualFold (canonicalURLHost u) (canonicalURLHost v) \<longleftrightarrow>
      JoinHostPort (foldCase (ToLower (urlHostname (puHost u)))) (defaultPort (puScheme u) (urlPort (puHost u))) =
      JoinHostPort (foldCase (ToLower (urlHostname (puHost v)))) (defaultPort (puScheme v) (urlPort (puHost v)))"
    by (simp add: EqualFold_def canon foldCase_join defaultPort_digits)
  also have "\<dots> \<longleftrightarrow> snd (originOf u) = snd (originOf v)"
    using JoinHostPort_inj[OF _ colon colon] unfolding originOf_def by auto
  finally show ?thesis by (cases "originOf u"; cases "originOf v") (simp add: sameURLOrigin_def originOf_def EqualFold_def)
qed


section \<open>The client of a request\<close>

definition responseBodyTimeout :: "options \<Rightarrow> int" where
  "responseBodyTimeout opts =
     (let seconds = optionInt opts ''timeout'' 60 in
      if seconds \<le> 0 then 0
      else if seconds > MaxInt64 div 1000000000 then MaxInt64
      else wrap64 (seconds * 1000000000))"

text \<open>The timeout is the option in nanoseconds, cut at the largest duration: the multiplication does not wrap.\<close>

lemma responseBodyTimeout_exact: "responseBodyTimeout opts = max 0 (min MaxInt64 (optionInt opts ''timeout'' 60 * 1000000000))"
  by (simp add: responseBodyTimeout_def wrap64_nonneg_id Let_def)

definition clientWithLoadedCookies :: "client \<Rightarrow> string \<Rightarrow> client" where
  "clientWithLoadedCookies c path = (if path = '''' then c else c\<lparr>clJar := path # clJar c\<rparr>)"

definition clientWithResponseTimeouts :: "client \<Rightarrow> int \<Rightarrow> client" where
  "clientWithResponseTimeouts c timeout =
     (if timeout \<le> 0 then c else c\<lparr>clTransport := RtBodyTimeout timeout (RtHeaderTimeout timeout (clTransport c))\<rparr>)"

definition clientWithRedirectHost :: "client \<Rightarrow> string \<Rightarrow> client" where
  "clientWithRedirectHost c host = (if host = '''' then c else c\<lparr>clRedirectHost := Some host\<rparr>)"

text \<open>The check of a redirect: the request to the new location as \<open>net/http\<close> prepared it, and how many requests went
  before. \<open>base\<close> is the check of the engine's client.\<close>

definition checkRedirect :: "client \<Rightarrow> (request \<Rightarrow> nat \<Rightarrow> err option) option \<Rightarrow> request \<Rightarrow> nat \<Rightarrow> request \<times> err option" where
  "checkRedirect c base rq via =
     (let rq' = (case clRedirectHost c of None \<Rightarrow> rq | Some host \<Rightarrow> rq\<lparr>rqHost := host\<rparr>) in
      (rq', (case base of
               Some check \<Rightarrow> check rq' via
             | None \<Rightarrow> if via \<ge> 10 then Some (Errorf ''stopped after 10 redirects'' []) else None)))"

section \<open>Authentication challenges\<close>

text \<open>Whether a request has a body and can produce it again.\<close>

datatype reqBody = NoBody | NoGetBody | GetBodyFails | GetBodyOk

text \<open>What \<open>Client.Do\<close> returns, with the request the response answers (\<open>resp.Request\<close>).\<close>

record answer =
  anResp :: "response option"
  anErr :: "err option"
  anRequest :: "(request \<times> reqBody) option"

text \<open>\<open>deURL\<close> takes the URL of a request apart, \<open>deDo\<close> is \<open>Client.Do\<close> for the first and the second request.\<close>

record doEnv =
  deHttp :: httpEnv
  deProxy :: proxyEnv
  deURL :: "string \<Rightarrow> proxyURL"
  deDo :: "bool \<Rightarrow> client \<Rightarrow> request \<Rightarrow> reqBody \<Rightarrow> answer"

datatype doEvent = Sent client request | ChallengeClosed

text \<open>\<open>DoPanic\<close> is a call on a nil client, which an engine never has.\<close>

datatype doResult = DoPanic | DoError err | DoAnswer answer

definition statusUnauthorized :: int where "statusUnauthorized = 401"

definition shouldRetryBasicAuthChallenge :: "answer \<Rightarrow> options \<Rightarrow> bool \<Rightarrow> bool" where
  "shouldRetryBasicAuthChallenge a opts hasAuth =
     (case anResp a of
        None \<Rightarrow> False
      | Some resp \<Rightarrow>
         (if rsStatusCode resp \<noteq> statusUnauthorized \<or> \<not> optionBool opts ''http-auth-challenge'' then False
          else if (case anRequest a of None \<Rightarrow> False | Some (rq, _) \<Rightarrow> headerGet (rqHeader rq) ''Authorization'' \<noteq> '''') then False
          else if \<not> hasAuth then False
          else hasBasicAuthChallenge resp))"

text \<open>The request as it is sent first: with challenges enabled its URL carries no credentials.\<close>

definition firstRequest :: "doEnv \<Rightarrow> options \<Rightarrow> request \<Rightarrow> request" where
  "firstRequest de opts rq =
     (if optionBool opts ''http-auth-challenge'' \<and> heURLUser (deHttp de) (rqURL rq) \<noteq> None \<and> headerGet (rqHeader rq) ''Authorization'' = ''''
      then rq\<lparr>rqURL := heURLNoUser (deHttp de) (rqURL rq)\<rparr> else rq)"

definition requestClient :: "client \<Rightarrow> options \<Rightarrow> request \<Rightarrow> client" where
  "requestClient c opts rq =
     clientWithRedirectHost
       (clientWithResponseTimeouts (clientWithLoadedCookies c (optionString opts ''load-cookies'')) (responseBodyTimeout opts))
       (rqHost rq)"

text \<open>What follows the first answer.\<close>

definition answerChallenge :: "doEnv \<Rightarrow> client \<Rightarrow> options \<Rightarrow> request \<Rightarrow> request \<Rightarrow> reqBody \<Rightarrow> answer \<Rightarrow> doResult \<times> doEvent list" where
  "answerChallenge de c opts rq0 rq body a =
     (let creds = basicAuthCredentials (deHttp de) rq0 opts in
      if anErr a \<noteq> None \<or> \<not> shouldRetryBasicAuthChallenge a opts (creds \<noteq> None) then (DoAnswer a, [])
      else
        (case (case anRequest a of None \<Rightarrow> (rq, body) | Some x \<Rightarrow> x) of (challenged, challengedBody) \<Rightarrow>
          (if \<not> sameURLOrigin (Some (deURL de (rqURL rq0))) (Some (deURL de (rqURL challenged))) then (DoAnswer a, [])
           else if challengedBody = NoGetBody \<or> challengedBody = GetBodyFails then (DoAnswer a, [])
           else
             (let (user, pass) = (case creds of Some up \<Rightarrow> up | None \<Rightarrow> ('''', ''''));
                  retry = setBasicAuth (deHttp de) user pass challenged in
              (DoAnswer (deDo de True c retry challengedBody), [ChallengeClosed, Sent c retry])))))"

definition doRequest :: "doEnv \<Rightarrow> request \<Rightarrow> reqBody \<Rightarrow> options \<Rightarrow> transportState \<Rightarrow> doResult \<times> doEvent list \<times> transportState" where
  "doRequest de rq0 body opts ts =
     (case clientFor (deProxy de) (puScheme (deURL de (rqURL rq0))) opts ts of
        (Inl er, ts') \<Rightarrow> (DoError er, [], ts')
      | (Inr None, ts') \<Rightarrow> (DoPanic, [], ts')
      | (Inr (Some c0), ts') \<Rightarrow>
         (let c = requestClient c0 opts rq0; rq = firstRequest de opts rq0; a = deDo de False c rq body in
          (case answerChallenge de c opts rq0 rq body a of (res, events) \<Rightarrow> (res, Sent c rq # events, ts'))))"


lemma shouldRetry_facts:
  assumes "shouldRetryBasicAuthChallenge a opts hasAuth"
  shows "\<exists>resp. anResp a = Some resp \<and> rsStatusCode resp = 401 \<and> hasBasicAuthChallenge resp" "hasAuth" "optionBool opts ''http-auth-challenge''"
    "anRequest a = Some (rq, b) \<Longrightarrow> headerGet (rqHeader rq) ''Authorization'' = ''''"
  using assms by (auto simp: shouldRetryBasicAuthChallenge_def statusUnauthorized_def split: option.splits if_splits)

lemma rqURL_setBasicAuth [simp]: "rqURL (setBasicAuth he u p rq) = rqURL rq"
  by (simp add: setBasicAuth_def)

text \<open>A second request with credentials to which a challenge led: it answers a 401 with a basic challenge, and goes to the
  origin of the URL the credentials belong to.\<close>

definition answersChallenge :: "doEnv \<Rightarrow> options \<Rightarrow> request \<Rightarrow> answer \<Rightarrow> request \<Rightarrow> bool" where
  "answersChallenge de opts rq0 a retry \<longleftrightarrow>
     optionBool opts ''http-auth-challenge'' \<and>
     (\<exists>resp. anResp a = Some resp \<and> rsStatusCode resp = 401 \<and> hasBasicAuthChallenge resp) \<and>
     (\<exists>user pass challenged. basicAuthCredentials (deHttp de) rq0 opts = Some (user, pass) \<and>
        retry = setBasicAuth (deHttp de) user pass challenged \<and>
        (\<forall>rq b. anRequest a = Some (rq, b) \<longrightarrow> rq = challenged \<and> headerGet (rqHeader challenged) ''Authorization'' = '''')) \<and>
     originOf (deURL de (rqURL retry)) = originOf (deURL de (rqURL rq0))"

lemma answerChallenge_cases:
  assumes "answerChallenge de c opts rq0 rq body a = (res, events)"
  shows "events = [] \<and> res = DoAnswer a \<or> (\<exists>retry. events = [ChallengeClosed, Sent c retry] \<and> answersChallenge de opts rq0 a retry)"
proof (cases "anErr a \<noteq> None \<or> \<not> shouldRetryBasicAuthChallenge a opts (basicAuthCredentials (deHttp de) rq0 opts \<noteq> None)")
  case True
  then show ?thesis using assms by (simp add: answerChallenge_def Let_def)
next
  case False
  then have retry: "shouldRetryBasicAuthChallenge a opts (basicAuthCredentials (deHttp de) rq0 opts \<noteq> None)" by blast
  obtain user pass where creds: "basicAuthCredentials (deHttp de) rq0 opts = Some (user, pass)"
    using shouldRetry_facts(2)[OF retry] by auto
  obtain ch b where ch: "(case anRequest a of None \<Rightarrow> (rq, body) | Some x \<Rightarrow> x) = (ch, b)" by (cases "case anRequest a of None \<Rightarrow> (rq, body) | Some x \<Rightarrow> x")
  then have same: "\<forall>r b'. anRequest a = Some (r, b') \<longrightarrow> r = ch" by auto
  show ?thesis
  proof (cases "sameURLOrigin (Some (deURL de (rqURL rq0))) (Some (deURL de (rqURL ch))) \<and> b \<noteq> NoGetBody \<and> b \<noteq> GetBodyFails")
    case True
    then have "events = [ChallengeClosed, Sent c (setBasicAuth (deHttp de) user pass ch)]"
      using assms False creds ch by (simp add: answerChallenge_def Let_def)
    moreover have "answersChallenge de opts rq0 a (setBasicAuth (deHttp de) user pass ch)"
    proof -
      have "originOf (deURL de (rqURL ch)) = originOf (deURL de (rqURL rq0))" using True by (simp add: sameURLOrigin_iff)
      moreover have "\<forall>r b'. anRequest a = Some (r, b') \<longrightarrow> r = ch \<and> headerGet (rqHeader ch) ''Authorization'' = ''''"
        using same shouldRetry_facts(4)[OF retry] by blast
      ultimately show ?thesis
        using creds shouldRetry_facts(1,3)[OF retry] unfolding answersChallenge_def rqURL_setBasicAuth by blast
    qed
    ultimately show ?thesis by blast
  next
    case no: False
    then show ?thesis using assms False creds ch by (auto simp: answerChallenge_def Let_def split: if_splits)
  qed
qed

text \<open>What \<open>net/url\<close> documents of a URL whose \<open>User\<close> field is cleared.\<close>

definition urlLaw :: "doEnv \<Rightarrow> bool" where
  "urlLaw de \<longleftrightarrow>
     (\<forall>u. heURLUser (deHttp de) (heURLNoUser (deHttp de) u) = None \<and>
        deURL de (heURLNoUser (deHttp de) u) = (deURL de u)\<lparr>puUser := None\<rparr>)"


text \<open>Once a client was given a redirect host, every redirected request is sent with that host, whatever host it goes to.\<close>

lemma redirect_keeps_host:
  assumes "rqHost rq \<noteq> ''''"
  shows "fst (checkRedirect (requestClient c opts rq) base redirected via) = redirected\<lparr>rqHost := rqHost rq\<rparr>"
  using assms by (simp add: checkRedirect_def requestClient_def clientWithRedirectHost_def Let_def)


section \<open>An instance\<close>

definition authOpts :: options where
  "authOpts = [(''http-auth-challenge'', VStr ''true''), (''http-user'', VStr ''u'')]"

definition authURL :: proxyURL where
  "authURL = \<lparr>puScheme = ''http'', puUser = None, puHost = ''h'', puRest = ''''\<rparr>"

definition authRequest :: request where
  "authRequest = \<lparr>rqMethod = ''GET'', rqURL = ''http://h'', rqHost = ''h'', rqHeader = []\<rparr>"

definition challengeResponse :: response where
  "challengeResponse = exampleResponse\<lparr>rsStatusCode := 401, rsHeader := [(''Www-Authenticate'', [''Basic''])]\<rparr>"

definition authEnv :: doEnv where
  "authEnv = \<lparr>deHttp = exampleHttp, deProxy = proxyExample, deURL = (\<lambda>_. authURL),
     deDo = (\<lambda>again c rq body. \<lparr>anResp = Some (if again then exampleResponse else challengeResponse), anErr = None, anRequest = Some (rq, body)\<rparr>)\<rparr>"

definition plainClient :: client where
  "plainClient = \<lparr>clTransport = RtDefault, clJar = [], clRedirectHost = None\<rparr>"

lemma auth_value: "optionValue authOpts key =
  (if key = ''http-auth-challenge'' then Some (VStr ''true'') else if key = ''http-user'' then Some (VStr ''u'') else None)"
  by (subst optionValue.simps) (simp add: authOpts_def optionBaseKey_def)

lemma auth_options:
  "optionString authOpts key = (if key = ''http-auth-challenge'' then ''true'' else if key = ''http-user'' then ''u'' else '''')"
  "optionPresent authOpts key \<longleftrightarrow> key \<in> {''http-auth-challenge'', ''http-user''}"
  by (simp_all add: optionString_def optionPresent_def auth_value)

lemma auth_challenge_on: "optionBool authOpts ''http-auth-challenge''"
proof -
  have "TrimSpace ''true'' = ''true''" by (rule TrimSpace_ends) (simp_all add: plainByte_def asciiSpace_def)
  moreover have "ToLower ''true'' = ''true''" by (rule ToLower_lower) (simp add: lowerByte_def)
  ultimately show ?thesis by (simp add: optionBool_def auth_options)
qed

lemma auth_default: "clientFor px scheme authOpts (noTransports\<lparr>tsClient := Some plainClient\<rparr>) = (Inr (Some plainClient), noTransports\<lparr>tsClient := Some plainClient\<rparr>)"
proof -
  have "\<not> hasCustomTransportOptions authOpts"
    by (simp add: hasCustomTransportOptions_def hasCustomTransportOptionsExceptHTTPVersion_def auth_options auto_version
        optionInt_def optionBoolDefault_def TrimSpace_def TrimLeftSpace_def TrimRightSpace_def stripLead_nil)
  then show ?thesis by (simp add: clientFor_def)
qed

lemma challenge_basic: "hasBasicAuthChallenge challengeResponse"
proof -
  have key: "canonicalHeaderKey ''WWW-Authenticate'' = ''Www-Authenticate''"
    by code_simp
  have "TrimSpace ''Basic'' = ''Basic''" by (rule TrimSpace_ends) (simp_all add: plainByte_def asciiSpace_def)
  moreover have "Fields ''Basic'' = [''Basic'']"
    by (simp add: Fields_def fieldsFrom.simps leadLen_plain plainByte_def asciiSpace_def)
  ultimately show ?thesis by (simp add: hasBasicAuthChallenge_def challengeResponse_def headerValues_def key)
qed

lemma auth_sent: "\<exists>res c retry ts. doRequest authEnv authRequest NoBody authOpts (noTransports\<lparr>tsClient := Some plainClient\<rparr>) =
  (res, [Sent c authRequest, ChallengeClosed, Sent c retry], ts)"
proof -
  have "headerGet (rqHeader authRequest) ''Authorization'' = ''''" by (simp add: headerGet_def headerValues_def authRequest_def)
  moreover have "basicAuthCredentials exampleHttp authRequest authOpts = Some (''u'', '''')"
    by (simp add: basicAuthCredentials_def auth_options)
  moreover have "sameURLOrigin (Some u) (Some u)" for u by (simp add: sameURLOrigin_iff)
  moreover have "firstRequest authEnv authOpts authRequest = authRequest"
    by (simp add: firstRequest_def authEnv_def exampleHttp_def)
  moreover have "rsStatusCode challengeResponse = 401" by (simp add: challengeResponse_def)
  ultimately show ?thesis using auth_challenge_on challenge_basic
    by (simp add: doRequest_def answerChallenge_def auth_default shouldRetryBasicAuthChallenge_def statusUnauthorized_def Let_def)
       (simp add: authEnv_def statusUnauthorized_def Let_def)
qed


end
