(* ===== verification/Http_Body.thy ===== *)
theory Http_Body
  imports Http_Client Engine_Steps
begin

text \<open>
  The readers around a response body (proxy.go): the reader that interrupts a read which waits too long, as a step relation
  over the interleavings of readers, closers and timers, and the two readers that release something once, at the first
  error or when the body is closed: the context of a request and the idle connections of its transport.
\<close>

section \<open>Reads that wait too long\<close>

text \<open>
  \<open>idleTimeoutBody\<close>, with what runs beside it: the timers that are armed, the callbacks of fired timers that wait for the lock, the
  reads in the body below, and the calls of \<open>closeBody\<close> about to run. A timer is named by the generation it was armed with;
  \<open>ibTimer\<close> is the field \<open>timer\<close>. \<open>ibCloses\<close> counts the calls of \<open>Close\<close> on the body below.
\<close>

record idleBody =
  ibTimer :: "nat option"
  ibGeneration :: nat
  ibReading :: bool
  ibClosed :: bool
  ibTimedOut :: bool
  ibCloseErr :: "err option"
  ibCloses :: nat
  ibTimers :: "nat list"
  ibCallbacks :: "nat list"
  ibReads :: "nat list"
  ibPending :: nat

definition newIdleTimeoutBody :: idleBody where
  "newIdleTimeoutBody = \<lparr>ibTimer = None, ibGeneration = 0, ibReading = False, ibClosed = False, ibTimedOut = False, ibCloseErr = None,
     ibCloses = 0, ibTimers = [], ibCallbacks = [], ibReads = [], ibPending = 0\<rparr>"

text \<open>The generation is a \<open>uint64\<close>.\<close>

definition nextGeneration :: "nat \<Rightarrow> nat" where
  "nextGeneration g = (g + 1) mod 18446744073709551616"

definition idleTimeoutError :: err where "idleTimeoutError = NetError ''response body idle timeout''"
definition bodyReadAfterClose :: err where "bodyReadAfterClose = Errorf ''http: invalid Read on closed Body'' []"

definition stopTimer :: "idleBody \<Rightarrow> idleBody" where
  "stopTimer b = (case ibTimer b of None \<Rightarrow> b | Some g \<Rightarrow> b\<lparr>ibTimers := remove1 g (ibTimers b), ibTimer := None\<rparr>)"

text \<open>\<open>Read\<close> up to the read of the body below: the error it returns at once, if any.\<close>

definition beginRead :: "idleBody \<Rightarrow> err option \<times> idleBody" where
  "beginRead b =
     (if ibTimedOut b then (Some idleTimeoutError, b)
      else if ibClosed b then (Some bodyReadAfterClose, b)
      else
        (let g = nextGeneration (ibGeneration b) in
         (None, b\<lparr>ibGeneration := g, ibReading := True, ibTimer := Some g, ibTimers := g # ibTimers b, ibReads := g # ibReads b\<rparr>)))"

text \<open>\<open>Read\<close> after it, with the error of the body below.\<close>

definition endRead :: "nat \<Rightarrow> err option \<Rightarrow> idleBody \<Rightarrow> err option \<times> idleBody" where
  "endRead g er b =
     (let b1 = (if g = ibGeneration b then stopTimer (b\<lparr>ibReading := False\<rparr>) else b) in
      (if ibTimedOut b then Some idleTimeoutError else er, b1\<lparr>ibReads := remove1 g (ibReads b)\<rparr>))"

definition beginClose :: "idleBody \<Rightarrow> idleBody" where
  "beginClose b =
     (let b1 = (if \<not> ibClosed b
                then stopTimer (b\<lparr>ibClosed := True, ibReading := False, ibGeneration := nextGeneration (ibGeneration b)\<rparr>) else b) in
      b1\<lparr>ibPending := ibPending b + 1\<rparr>)"

definition expire :: "nat \<Rightarrow> idleBody \<Rightarrow> idleBody" where
  "expire g b =
     (let b1 = b\<lparr>ibCallbacks := remove1 g (ibCallbacks b)\<rparr> in
      if ibClosed b \<or> \<not> ibReading b \<or> g \<noteq> ibGeneration b then b1
      else b1\<lparr>ibClosed := True, ibReading := False, ibTimedOut := True, ibTimer := None, ibPending := ibPending b + 1\<rparr>)"

text \<open>\<open>closeBody\<close>, with the error the body below would return.\<close>

definition closeBody :: "err option \<Rightarrow> idleBody \<Rightarrow> err option \<times> idleBody" where
  "closeBody er b =
     (let b1 = (if ibCloses b = 0 then b\<lparr>ibCloses := 1, ibCloseErr := er\<rparr> else b) in
      (ibCloseErr b1, b1\<lparr>ibPending := ibPending b - 1\<rparr>))"

inductive istep :: "idleBody \<Rightarrow> idleBody \<Rightarrow> bool" where
  begin_read: "beginRead b = (r, b') \<Longrightarrow> istep b b'"
| end_read: "g \<in> set (ibReads b) \<Longrightarrow> endRead g er b = (r, b') \<Longrightarrow> istep b b'"
| begin_close: "istep b (beginClose b)"
| fire: "g \<in> set (ibTimers b) \<Longrightarrow> istep b (b\<lparr>ibTimers := remove1 g (ibTimers b), ibCallbacks := g # ibCallbacks b\<rparr>)"
| expired: "g \<in> set (ibCallbacks b) \<Longrightarrow> istep b (expire g b)"
| close_body: "ibPending b > 0 \<Longrightarrow> closeBody er b = (r, b') \<Longrightarrow> istep b b'"

inductive_cases istepE: "istep b b'"

text \<open>
  The body below is closed at most once, and once the reader is closed it has been or is about to be. While a read may
  time out it is in progress; nothing is armed for it once it is not.
\<close>

definition idleInv :: "idleBody \<Rightarrow> bool" where
  "idleInv b \<longleftrightarrow>
     ibCloses b \<le> 1 \<and>
     (ibClosed b \<longleftrightarrow> ibPending b > 0 \<or> ibCloses b = 1) \<and>
     (ibTimedOut b \<longrightarrow> ibClosed b) \<and>
     (ibClosed b \<longrightarrow> \<not> ibReading b) \<and>
     (ibReading b \<longrightarrow> ibGeneration b \<in> set (ibReads b)) \<and>
     (\<not> ibReading b \<longrightarrow> ibTimer b = None) \<and>
     (ibReading b \<longrightarrow> ibGeneration b \<in> set (ibTimers b) \<union> set (ibCallbacks b)) \<and>
     (\<forall>g. ibTimer b = Some g \<longrightarrow> g = ibGeneration b)"

lemma idleInv_new: "idleInv newIdleTimeoutBody"
  by (simp add: idleInv_def newIdleTimeoutBody_def)

lemma idleInv_beginRead: "idleInv b \<Longrightarrow> beginRead b = (r, b') \<Longrightarrow> idleInv b'"
  by (auto simp: beginRead_def idleInv_def Let_def split: if_splits)

lemma idleInv_endRead:
  assumes "idleInv b" "endRead g er b = (r, b')" shows "idleInv b'"
proof (cases "g = ibGeneration b")
  case True
  then have "b' = (stopTimer (b\<lparr>ibReading := False\<rparr>))\<lparr>ibReads := remove1 g (ibReads b)\<rparr>" using assms(2) by (simp add: endRead_def)
  then show ?thesis using assms(1) by (cases "ibTimer b") (auto simp: stopTimer_def idleInv_def)
next
  case False
  then have "b' = b\<lparr>ibReads := remove1 g (ibReads b)\<rparr>" using assms(2) by (simp add: endRead_def)
  then show ?thesis using assms(1) False by (auto simp: idleInv_def)
qed

lemma idleInv_beginClose:
  assumes "idleInv b" shows "idleInv (beginClose b)"
proof (cases "ibClosed b")
  case True
  then show ?thesis using assms by (simp add: beginClose_def idleInv_def)
next
  case False
  then show ?thesis using assms by (cases "ibTimer b") (simp_all add: beginClose_def stopTimer_def idleInv_def)
qed

lemma idleInv_expire:
  assumes "idleInv b" shows "idleInv (expire g b)"
proof (cases "ibClosed b \<or> \<not> ibReading b \<or> g \<noteq> ibGeneration b")
  case True
  then have "ibReading b \<Longrightarrow> ibGeneration b \<noteq> g" using assms unfolding idleInv_def by blast
  then show ?thesis using assms True by (auto simp: expire_def idleInv_def)
next
  case False
  then show ?thesis using assms by (simp add: expire_def idleInv_def)
qed

lemma idleInv_closeBody: "idleInv b \<Longrightarrow> ibPending b > 0 \<Longrightarrow> closeBody er b = (r, b') \<Longrightarrow> idleInv b'"
  by (auto simp: closeBody_def idleInv_def Let_def split: if_splits)

lemma idleInv_step:
  assumes "istep b b'" "idleInv b" shows "idleInv b'"
  using assms(1)
proof (cases rule: istep.cases)
  case (fire g)
  then show ?thesis using assms(2) by (auto simp: idleInv_def)
qed (use assms(2) idleInv_beginRead idleInv_endRead idleInv_beginClose idleInv_expire idleInv_closeBody in blast)+

interpretation idle: invariant_system "\<lambda>b. b = newIdleTimeoutBody" istep idleInv
  by unfold_locales (auto simp: idleInv_new intro: idleInv_step)

definition idleReachable :: "idleBody \<Rightarrow> bool" where
  "idleReachable b \<longleftrightarrow> istep\<^sup>*\<^sup>* newIdleTimeoutBody b"

lemma idleReachable_inv: "idleReachable b \<Longrightarrow> idleInv b"
  using idle.reach_inv[of b] by (simp add: idleReachable_def idle.reach_def)

lemma expire_timesOut:
  assumes "idleInv b" "\<not> ibTimedOut b" "ibTimedOut (expire g b)"
  shows "\<not> ibClosed b \<and> ibReading b \<and> g = ibGeneration b \<and> g \<in> set (ibReads b)"
  using assms by (auto simp: expire_def idleInv_def Let_def split: if_splits)

lemma timedOut_only_expire:
  assumes "istep b b'" "\<not> ibTimedOut b" "ibTimedOut b'"
  shows "\<exists>g. g \<in> set (ibCallbacks b) \<and> b' = expire g b"
  using assms
  by cases (auto simp: beginRead_def endRead_def beginClose_def stopTimer_def closeBody_def Let_def split: if_splits option.splits)

lemma timedOut_stays: "istep b b' \<Longrightarrow> ibTimedOut b \<Longrightarrow> ibTimedOut b'"
  by (erule istep.cases) (auto simp: beginRead_def endRead_def beginClose_def expire_def stopTimer_def closeBody_def Let_def split: if_splits option.splits)

text \<open>C29: For every interleaving of reads, closes and timers: the body below is closed at most once, and after a timeout or a close it
  has been or is about to be; a read is interrupted only while it is in progress and the body not closed; and a read
  that waits can always be interrupted, after which every read returns the timeout error.
\<close>

theorem idle_body_safe:
  assumes "idleReachable b"
  shows "ibCloses b \<le> 1 \<and> (ibClosed b \<longrightarrow> ibPending b > 0 \<or> ibCloses b = 1) \<and>
    (\<forall>b'. istep b b' \<longrightarrow> \<not> ibTimedOut b \<longrightarrow> ibTimedOut b' \<longrightarrow> \<not> ibClosed b \<and> ibGeneration b \<in> set (ibReads b)) \<and>
    (ibReading b \<longrightarrow> (\<exists>b'. istep\<^sup>*\<^sup>* b b' \<and> fst (beginRead b') = Some idleTimeoutError \<and>
       (\<forall>g er. fst (endRead g er b') = Some idleTimeoutError)))"
proof -
  have inv: "idleInv b" using idleReachable_inv[OF assms] .
  have one: "\<not> ibClosed b \<and> ibGeneration b \<in> set (ibReads b)" if "istep b b'" "\<not> ibTimedOut b" "ibTimedOut b'" for b'
    using timedOut_only_expire[OF that] expire_timesOut[OF inv that(2)] that(3) by auto
  have two: "\<exists>b'. istep\<^sup>*\<^sup>* b b' \<and> ibTimedOut b'" if reading: "ibReading b"
  proof -
    let ?g = "ibGeneration b"
    have out: "ibTimedOut (expire ?g b')" if "ibGeneration b' = ?g" "ibReading b'" "\<not> ibClosed b'" for b'
      using that by (simp add: expire_def Let_def)
    have live: "\<not> ibClosed b" using inv reading by (auto simp: idleInv_def)
    consider "?g \<in> set (ibTimers b)" | "?g \<in> set (ibCallbacks b)" using inv reading by (auto simp: idleInv_def)
    then show ?thesis
    proof cases
      case 1
      let ?b = "b\<lparr>ibTimers := remove1 ?g (ibTimers b), ibCallbacks := ?g # ibCallbacks b\<rparr>"
      have "istep b ?b" by (rule istep.fire[OF 1])
      moreover have "istep ?b (expire ?g ?b)" by (rule istep.expired) simp
      ultimately have "istep\<^sup>*\<^sup>* b (expire ?g ?b)" by (meson converse_rtranclp_into_rtranclp rtranclp.rtrancl_refl)
      moreover have "ibTimedOut (expire ?g ?b)" using out[of ?b] reading live by simp
      ultimately show ?thesis by blast
    next
      case 2
      then show ?thesis using istep.expired[OF 2] out[of b] reading live by blast
    qed
  qed
  have err: "fst (beginRead b') = Some idleTimeoutError \<and> fst (endRead g er b') = Some idleTimeoutError" if "ibTimedOut b'" for b' g er
    using that by (simp add: beginRead_def endRead_def Let_def)
  show ?thesis using inv one two err unfolding idleInv_def by (metis less_numeral_extra(3) neq0_conv)
qed

definition readingBody :: idleBody where "readingBody = snd (beginRead newIdleTimeoutBody)"

lemma readingBody_reachable: "idleReachable readingBody" "ibReading readingBody"
proof -
  have "istep newIdleTimeoutBody readingBody" unfolding readingBody_def by (rule istep.begin_read[of _ "fst (beginRead newIdleTimeoutBody)"]) simp
  then show "idleReachable readingBody" by (simp add: idleReachable_def)
  show "ibReading readingBody" by (simp add: readingBody_def beginRead_def newIdleTimeoutBody_def Let_def)
qed

theorem idle_body_safe_witness:
  "ibReading readingBody \<and> (\<exists>b'. istep\<^sup>*\<^sup>* readingBody b' \<and> fst (beginRead b') = Some idleTimeoutError)"
  using idle_body_safe[OF readingBody_reachable(1)] readingBody_reachable(2) by blast


section \<open>Readers that release something once\<close>

text \<open>What a reader sees: a read with its error, or a close with its error.\<close>

datatype bodyEvent = BodyRead "err option" | BodyClose "err option"

fun endsBody :: "bodyEvent \<Rightarrow> bool" where
  "endsBody (BodyRead er) \<longleftrightarrow> er \<noteq> None"
| "endsBody (BodyClose er) \<longleftrightarrow> True"

locale once_reader =
  fixes handle :: "bodyEvent \<Rightarrow> 's \<Rightarrow> 's" and released :: "'s \<Rightarrow> bool"
  assumes plain_read: "handle (BodyRead None) s = s"
    and ends: "endsBody ev \<Longrightarrow> released (handle ev s)"
    and once: "released s \<Longrightarrow> handle ev s = s"
begin

lemma kept: "released s \<Longrightarrow> fold handle evs s = s"
  by (induction evs) (simp_all add: once)

lemma released_iff: "released (fold handle evs s) \<longleftrightarrow> released s \<or> list_ex endsBody evs"
proof (induction evs arbitrary: s)
  case (Cons ev evs)
  show ?case
  proof (cases "endsBody ev")
    case True
    then show ?thesis using ends[OF True, of s] by (simp add: kept)
  next
    case False
    then have "ev = BodyRead None" by (cases ev) auto
    then show ?thesis using Cons False by (simp add: plain_read)
  qed
qed simp

lemma first_only: "endsBody ev \<Longrightarrow> \<not> list_ex endsBody pre \<Longrightarrow> fold handle (pre @ ev # post) s = handle ev s"
proof -
  assume ev: "endsBody ev" and pre: "\<not> list_ex endsBody pre"
  have "fold handle pre s = s" using pre
  proof (induction pre)
    case (Cons e es)
    then have "e = BodyRead None" by (cases e) auto
    then show ?case using Cons by (simp add: plain_read)
  qed simp
  then show ?thesis using kept[OF ends[OF ev, of s]] by simp
qed

end

text \<open>\<open>cancelContextBody\<close>: the cause its context was cancelled with; \<open>Some None\<close> is a cancellation without an error, and only
  the first cancellation counts.\<close>

record cancelContextBody =
  ccOnce :: bool
  ccCause :: "err option option"

definition cancelCtx :: "err option \<Rightarrow> err option option \<Rightarrow> err option option" where
  "cancelCtx er cause = (case cause of None \<Rightarrow> Some er | Some e \<Rightarrow> Some e)"

definition cancelOnce :: "err option \<Rightarrow> cancelContextBody \<Rightarrow> cancelContextBody" where
  "cancelOnce er b = (if ccOnce b then b else b\<lparr>ccOnce := True, ccCause := cancelCtx er (ccCause b)\<rparr>)"

fun cancelHandle :: "bodyEvent \<Rightarrow> cancelContextBody \<Rightarrow> cancelContextBody" where
  "cancelHandle (BodyRead er) b = (if er \<noteq> None then cancelOnce er b else b)"
| "cancelHandle (BodyClose er) b = cancelOnce er b"

text \<open>\<open>closeIdleBody\<close>: how often it closed the idle connections of its transport.\<close>

record closeIdleBody =
  ciOnce :: bool
  ciCloses :: nat

definition closeIdleOnce :: "closeIdleBody \<Rightarrow> closeIdleBody" where
  "closeIdleOnce b = (if ciOnce b then b else b\<lparr>ciOnce := True, ciCloses := ciCloses b + 1\<rparr>)"

fun closeIdleHandle :: "bodyEvent \<Rightarrow> closeIdleBody \<Rightarrow> closeIdleBody" where
  "closeIdleHandle (BodyRead er) b = (if er \<noteq> None then closeIdleOnce b else b)"
| "closeIdleHandle (BodyClose er) b = closeIdleOnce b"

lemma bodyEvent_cases:
  obtains "ev = BodyRead None" | er where "ev = BodyRead (Some er)" | er where "ev = BodyClose er"
  by (cases ev) auto

interpretation ctxBody: once_reader cancelHandle ccOnce
proof
  fix ev and s :: cancelContextBody
  show "cancelHandle (BodyRead None) s = s" by simp
  show "endsBody ev \<Longrightarrow> ccOnce (cancelHandle ev s)" by (cases ev) (auto simp: cancelOnce_def)
  show "ccOnce s \<Longrightarrow> cancelHandle ev s = s" by (cases ev) (auto simp: cancelOnce_def)
qed

interpretation idleConns: once_reader closeIdleHandle ciOnce
proof
  fix ev and s :: closeIdleBody
  show "closeIdleHandle (BodyRead None) s = s" by simp
  show "endsBody ev \<Longrightarrow> ciOnce (closeIdleHandle ev s)" by (cases ev) (auto simp: closeIdleOnce_def)
  show "ciOnce s \<Longrightarrow> closeIdleHandle ev s = s" by (cases ev) (auto simp: closeIdleOnce_def)
qed

section \<open>Round trips\<close>

text \<open>What a round trip returns: a response whose body may be nil, and an error.\<close>

record trip =
  tpResp :: "response option"
  tpHasBody :: bool
  tpErr :: "err option"

text \<open>\<open>closeIdleRoundTripper\<close>: the idle connections are closed at once when there is no body to wait for.\<close>

definition closeIdleRoundTrip :: "trip \<Rightarrow> trip \<times> closeIdleBody" where
  "closeIdleRoundTrip t =
     (if tpResp t \<noteq> None \<and> tpHasBody t then (t, \<lparr>ciOnce = False, ciCloses = 0\<rparr>) else (t, \<lparr>ciOnce = True, ciCloses = 1\<rparr>))"

text \<open>\<open>responseBodyTimeoutRoundTripper\<close>: a body is read through a reader with a timeout.\<close>

definition bodyTimeoutRoundTrip :: "trip \<Rightarrow> trip \<times> idleBody option" where
  "bodyTimeoutRoundTrip t = (t, if tpResp t \<noteq> None \<and> tpHasBody t then Some newIdleTimeoutBody else None)"

definition headerTimeoutError :: err where "headerTimeoutError = NetError ''response header timeout''"

text \<open>
  \<open>responseHeaderTimeoutRoundTripper\<close>, once its timer is settled: the cause the context was cancelled with until then, which
  is the timeout when the timer fired first. The result, whether the body of the response was closed, and the context with
  its reader; the reader's \<open>ccOnce\<close> says that nobody has to cancel any more.
\<close>

definition headerTimeoutRoundTrip :: "err option option \<Rightarrow> trip \<Rightarrow> trip \<times> bool \<times> cancelContextBody" where
  "headerTimeoutRoundTrip cause t =
     (if cause = Some (Some headerTimeoutError)
      then (\<lparr>tpResp = None, tpHasBody = False, tpErr = Some headerTimeoutError\<rparr>, tpResp t \<noteq> None \<and> tpHasBody t,
            \<lparr>ccOnce = True, ccCause = cause\<rparr>)
      else if tpErr t \<noteq> None then (t, False, \<lparr>ccOnce = True, ccCause = cancelCtx (tpErr t) cause\<rparr>)
      else if tpResp t \<noteq> None \<and> tpHasBody t then (t, False, \<lparr>ccOnce = False, ccCause = cause\<rparr>)
      else (t, False, \<lparr>ccOnce = True, ccCause = cancelCtx None cause\<rparr>))"

text \<open>The context of a request is always cancelled in the end: at once when no body is returned, otherwise at the first
  error or close of the body, whatever reads follow; a response that came too late is closed and not returned.\<close>

lemma header_timeout_releases:
  assumes "headerTimeoutRoundTrip cause t = (t', shut, b)" "tpResp t' \<noteq> None \<and> tpHasBody t' \<and> tpErr t' = None \<longrightarrow> list_ex endsBody evs"
  shows "ccCause (fold cancelHandle evs b) \<noteq> None \<and>
    (cause = Some (Some headerTimeoutError) \<longrightarrow> tpResp t' = None \<and> tpErr t' = Some headerTimeoutError \<and> shut = (tpResp t \<noteq> None \<and> tpHasBody t))"
proof -
  have cause: "ccCause (cancelHandle ev b) \<noteq> None" if "endsBody ev" "\<not> ccOnce b" for ev b
    using that by (cases ev) (auto simp: cancelOnce_def cancelCtx_def split: option.splits)
  have "ccCause (fold cancelHandle evs b) \<noteq> None"
  proof (cases "ccOnce b")
    case True
    then show ?thesis using assms(1) ctxBody.kept[OF True]
      by (auto simp: headerTimeoutRoundTrip_def cancelCtx_def split: if_splits option.splits)
  next
    case False
    then have "list_ex endsBody evs" using assms by (auto simp: headerTimeoutRoundTrip_def split: if_splits)
    then obtain pre ev post where "evs = pre @ ev # post" "endsBody ev" "\<not> list_ex endsBody pre"
      unfolding list_ex_iff by (metis split_list_first_prop)
    then show ?thesis using ctxBody.first_only cause False by simp
  qed
  then show ?thesis using assms(1) by (auto simp: headerTimeoutRoundTrip_def split: if_splits)
qed

end
