(* ===== verification/Segmented_Ends.thy ===== *)
theory Segmented_Ends
  imports Http_Segmented
begin

text \<open>
  Termination of the loop of a segmented download. Every range may be requested a bounded number of times, a transfer that was
  answered does finitely many rounds, and every result is received once: the steps in which a transfer starts, moves or ends
  decrease a measure, and the other steps of the loop, an idle wake-up or the end of the context, leave it alone. So an
  execution in which such a step happens again and again ends.
\<close>

section \<open>The measure\<close>

definition attemptsLeft :: "int \<Rightarrow> segmentedRangeTask \<Rightarrow> nat" where
  "attemptsLeft B t = nat (B - tkAttempts t)"

definition launchesLeft :: "int \<Rightarrow> seg \<Rightarrow> nat" where
  "launchesLeft B s = sum_list (map (attemptsLeft B) (sgTasks s @ map rrTask (sgRunning s)))"

fun unanswered :: "phase \<Rightarrow> nat" where
  "unanswered Requesting = 1"
| "unanswered _ = 0"

fun roundsLeft :: "phase \<Rightarrow> nat" where
  "roundsLeft (Copying cp evs) = Suc (length evs)"
| "roundsLeft _ = 0"

definition unansweredRuns :: "seg \<Rightarrow> nat" where
  "unansweredRuns s = sum_list (map (\<lambda>rr. unanswered (rrPhase rr)) (sgRunning s))"

definition allRounds :: "seg \<Rightarrow> nat" where
  "allRounds s = sum_list (map (\<lambda>rr. roundsLeft (rrPhase rr)) (sgRunning s))"

definition segOrder :: "int \<Rightarrow> (seg \<times> seg) set" where
  "segOrder B = measures [launchesLeft B, \<lambda>s. length (sgRunning s), unansweredRuns, allRounds]"

text \<open>What was started was started within its tries.\<close>

definition triesOk :: "int \<Rightarrow> seg \<Rightarrow> bool" where
  "triesOk B s \<longleftrightarrow> (\<forall>t \<in> set (sgTasks s). tkAttempts t < B)"

definition triesBounded :: "int \<Rightarrow> seg \<Rightarrow> bool" where
  "triesBounded B s \<longleftrightarrow> (\<forall>rr \<in> set (sgRunning s). 0 < rrMaxTries rr \<and> rrMaxTries rr \<le> B)"

section \<open>The steps\<close>

lemma setPhase_launches [simp]: "launchesLeft B (setPhase i ph s) = launchesLeft B s"
proof -
  have "map rrTask ((sgRunning s)[i := (sgRunning s ! i)\<lparr>rrPhase := ph\<rparr>]) = map rrTask (sgRunning s)"
    by (cases "i < length (sgRunning s)") (simp_all add: map_update list_update_same_conv list_update_beyond)
  then show ?thesis by (simp add: launchesLeft_def setPhase_def del: map_map)
qed

lemma setPhase_sum:
  fixes f :: "phase \<Rightarrow> nat"
  assumes "i < length (sgRunning s)"
  shows "sum_list (map (\<lambda>rr. f (rrPhase rr)) (sgRunning (setPhase i ph s))) + f (rrPhase (sgRunning s ! i)) =
    sum_list (map (\<lambda>rr. f (rrPhase rr)) (sgRunning s)) + f ph"
proof -
  have "f (rrPhase (sgRunning s ! i)) \<le> sum_list (map (\<lambda>rr. f (rrPhase rr)) (sgRunning s))"
    using assms by (intro member_le_sum_list) auto
  then show ?thesis using assms by (simp add: setPhase_def map_update sum_list_update)
qed

lemma putCopy_measures [simp]:
  "launchesLeft B (putCopy c s) = launchesLeft B s" "unansweredRuns (putCopy c s) = unansweredRuns s" "allRounds (putCopy c s) = allRounds s"
  "sgRunning (putCopy c s) = sgRunning s" "sgTasks (putCopy c s) = sgTasks s"
  by (simp_all add: launchesLeft_def unansweredRuns_def allRounds_def putCopy_def)

lemma setPhase_rest [simp]: "length (sgRunning (setPhase i ph s)) = length (sgRunning s)" "sgTasks (setPhase i ph s) = sgTasks s"
  by (simp_all add: setPhase_def)

lemma answer_decreases:
  assumes "i < length (sgRunning s)" "rrPhase (sgRunning s ! i) = Requesting"
  shows "(beginRange ne t m openErr seekErr closeErr i s, s) \<in> segOrder B" "sgTasks (beginRange ne t m openErr seekErr closeErr i s) = sgTasks s"
proof -
  obtain ph where ph: "beginRange ne t m openErr seekErr closeErr i s = setPhase i ph s" "unanswered ph = 0"
    unfolding beginRange_def Let_def by (auto simp: rangeAnswer_def split: option.splits sum.splits list.splits)
  show "(beginRange ne t m openErr seekErr closeErr i s, s) \<in> segOrder B"
    using setPhase_sum[OF assms(1), of unanswered ph] assms(2) ph(2) by (simp add: ph(1) segOrder_def unansweredRuns_def)
  show "sgTasks (beginRange ne t m openErr seekErr closeErr i s) = sgTasks s" by (simp add: ph(1))
qed

lemma round_decreases:
  assumes "i < length (sgRunning s)" "rrPhase (sgRunning s ! i) = Copying cp evs"
  shows "(roundRange re closeErr i cp evs s, s) \<in> segOrder B" "sgTasks (roundRange re closeErr i cp evs s) = sgTasks s"
proof -
  define out where "out = copyRound re (optionBytes (rrOpts (sgRunning s ! i)) ''lowest-speed-limit'' 0)
    (case evs of [] \<Rightarrow> ([], Some EOF) | e # _ \<Rightarrow> e) (toCopy cp s)"
  obtain ph c where ph: "roundRange re closeErr i cp evs s = setPhase i ph (putCopy c s)" "unanswered ph = 0" "roundsLeft ph < Suc (length evs)"
  proof (cases out)
    case (Continue c)
    have "evs \<noteq> []" using Continue by (auto simp: out_def copyRound_def split: option.splits)
    moreover have "roundRange re closeErr i cp evs s = setPhase i (Copying (posOf c) (tl evs)) (putCopy c s)"
      using Continue by (simp add: roundRange_def out_def[symmetric] Let_def)
    ultimately show ?thesis using that by simp
  next
    case (Stop x c)
    then have "\<exists>y. roundRange re closeErr i cp evs s = setPhase i (Finished y) (putCopy c s)"
      by (auto simp: roundRange_def out_def[symmetric] Let_def)
    then show ?thesis using that by auto
  qed
  have i: "i < length (sgRunning (putCopy c s))" using assms(1) by simp
  show "(roundRange re closeErr i cp evs s, s) \<in> segOrder B"
    using setPhase_sum[OF i, of unanswered ph] setPhase_sum[OF i, of roundsLeft ph] assms(2) ph(2,3)
    by (simp add: ph(1) segOrder_def unansweredRuns_def allRounds_def)
  show "sgTasks (roundRange re closeErr i cp evs s) = sgTasks s" by (simp add: ph(1))
qed

lemma startTask_run: "\<exists>rr. sgRunning (startTask so t s) = sgRunning s @ [rr] \<and> rrPhase rr = Requesting \<and> tkAttempts (rrTask rr) = tkAttempts t + 1"
  by (simp add: startTask_def setConns_def Let_def split: prod.split)

lemma startLoop_decreases:
  "triesOk B s \<Longrightarrow> \<exists>new. sgRunning (startLoop so now s) = sgRunning s @ new \<and> launchesLeft B (startLoop so now s) + length new = launchesLeft B s \<and>
     triesOk B (startLoop so now s)"
proof (induction so now s rule: startLoop.induct)
  case (1 so now s)
  show ?case
  proof (cases "sgActive s < limit (sgController s) \<and> readySegmentedTaskIndex (sgTasks s) now \<noteq> None")
    case False
    then have "startLoop so now s = s" by (subst startLoop.simps) auto
    then show ?thesis using 1(2) by simp
  next
    case True
    then obtain k where k: "readySegmentedTaskIndex (sgTasks s) now = Some k" "k < length (sgTasks s)" using ready_index by blast
    define t where "t = sgTasks s ! k"
    define s1 where "s1 = startTask so t (s\<lparr>sgTasks := take k (sgTasks s) @ drop (Suc k) (sgTasks s)\<rparr>)"
    have l: "startLoop so now s = startLoop so now s1" using True k by (subst startLoop.simps) (simp add: s1_def t_def)
    obtain rr where rr: "sgRunning s1 = sgRunning s @ [rr]" "tkAttempts (rrTask rr) = tkAttempts t + 1"
      using startTask_run[of so t "s\<lparr>sgTasks := take k (sgTasks s) @ drop (Suc k) (sgTasks s)\<rparr>"] unfolding s1_def by auto
    have ts: "sgTasks s1 = take k (sgTasks s) @ drop (Suc k) (sgTasks s)" by (simp add: s1_def startTask_fields)
    have "t \<in> set (sgTasks s)" using k(2) by (simp add: t_def)
    then have "attemptsLeft B t = Suc (attemptsLeft B (rrTask rr))" using 1(2) rr(2) by (auto simp: attemptsLeft_def triesOk_def)
    moreover have "sum_list (map (attemptsLeft B) (sgTasks s)) = sum_list (map (attemptsLeft B) (sgTasks s1)) + attemptsLeft B t"
      using arg_cong[OF id_take_nth_drop[OF k(2)], of "\<lambda>ts. sum_list (map (attemptsLeft B) ts)"] by (simp add: ts t_def)
    ultimately have "launchesLeft B s1 + 1 = launchesLeft B s" by (simp add: launchesLeft_def rr(1) del: map_map)
    moreover have "triesOk B s1" using 1(2) by (auto simp: triesOk_def ts dest: in_set_takeD in_set_dropD)
    moreover from this obtain new where "sgRunning (startLoop so now s1) = sgRunning s1 @ new" "triesOk B (startLoop so now s1)"
        "launchesLeft B (startLoop so now s1) + length new = launchesLeft B s1"
      using 1(1)[of k] True k unfolding s1_def t_def by blast
    ultimately show ?thesis unfolding l by (intro exI[of _ "rr # new"]) (simp add: rr(1))
  qed
qed

lemma startReady_decreases:
  assumes "triesOk B s"
  shows "\<exists>new. sgRunning (startReady so now s) = sgRunning s @ new \<and> launchesLeft B (startReady so now s) + length new = launchesLeft B s \<and>
     triesOk B (startReady so now s)"
proof (cases "sgFirstErr s = None")
  case True
  define s0 where "s0 = s\<lparr>sgController := clampCeiling (workerLimit so (remainingChunks False s)) (sgController s)\<rparr>"
  have "launchesLeft B s0 = launchesLeft B s" "sgRunning s0 = sgRunning s" "triesOk B s0"
    using assms by (simp_all add: s0_def launchesLeft_def triesOk_def)
  then show ?thesis using startLoop_decreases[of B s0 so now] True by (simp add: startReady_def s0_def)
next
  case False
  then show ?thesis using assms by (simp add: startReady_def)
qed

lemma result_decreases:
  assumes "i < length (sgRunning s)" "triesOk B s" "triesBounded B s"
  shows "sgRunning (handleResult so now i x s) = take i (sgRunning s) @ drop (Suc i) (sgRunning s)"
    "launchesLeft B (handleResult so now i x s) \<le> launchesLeft B s" "triesOk B (handleResult so now i x s)"
proof -
  let ?s = "handleResult so now i x s" and ?rr = "sgRunning s ! i"
  have tries: "0 < rrMaxTries ?rr" "rrMaxTries ?rr \<le> B" using assms(1,3) by (simp_all add: triesBounded_def)
  show run: "sgRunning ?s = take i (sgRunning s) @ drop (Suc i) (sgRunning s)"
    unfolding handleResult_def Let_def by (auto simp: result_fields requeue_def split: option.split)
  have ts: "sgTasks ?s = sgTasks s \<or> (\<exists>t. sgTasks ?s = sgTasks s @ [t] \<and> tkAttempts t = tkAttempts (rrTask ?rr) \<and> tkAttempts t < B)"
    unfolding handleResult_def Let_def using tries
    by (auto simp: result_fields requeue_def canRetryRangeAttempt_def Let_def split: option.split if_splits)
  then show "triesOk B ?s" using assms(2) by (auto simp: triesOk_def)
  have "sum_list (map (attemptsLeft B) (map rrTask (sgRunning s))) =
      sum_list (map (attemptsLeft B) (map rrTask (take i (sgRunning s) @ drop (Suc i) (sgRunning s)))) + attemptsLeft B (rrTask ?rr)"
    using arg_cong[OF id_take_nth_drop[OF assms(1)], of "\<lambda>rs. sum_list (map (attemptsLeft B) (map rrTask rs))"] by simp
  then show "launchesLeft B ?s \<le> launchesLeft B s" using ts unfolding launchesLeft_def run by (auto simp: attemptsLeft_def simp del: map_map)
qed

text \<open>A step of the loop decreases the measure or leaves the transfers as they are.\<close>

lemma segStep_decreases:
  assumes "segStep ne m Q s s'" "triesOk B s" "triesBounded B s"
  shows "triesOk B s' \<and> ((s', s) \<in> segOrder B \<or> sgRunning s' = sgRunning s \<and> launchesLeft B s' = launchesLeft B s)"
proof -
  have idle: "triesOk B (startReady so now s0) \<and> ((startReady so now s0, s) \<in> segOrder B \<or>
      sgRunning (startReady so now s0) = sgRunning s \<and> launchesLeft B (startReady so now s0) = launchesLeft B s)"
    if s0: "triesOk B s0" "sgRunning s0 = sgRunning s" "launchesLeft B s0 = launchesLeft B s" for so now s0
  proof -
    obtain new where "sgRunning (startReady so now s0) = sgRunning s @ new" "launchesLeft B (startReady so now s0) + length new = launchesLeft B s"
      "triesOk B (startReady so now s0)" using startReady_decreases[OF s0(1), of so now] s0(2,3) by auto
    then show ?thesis by (cases new) (auto simp: segOrder_def)
  qed
  show ?thesis using assms(1)
  proof cases
    case (answer i t openErr seekErr closeErr)
    then show ?thesis using answer_decreases assms(2) by (simp add: triesOk_def)
  next
    case (round i cp evs re closeErr)
    then show ?thesis using round_decreases assms(2) by (simp add: triesOk_def)
  next
    case (result so so' i er now' now)
    note h = result_decreases[OF result(5) assms(2,3), of so now er]
    obtain new where n: "sgRunning s' = (take i (sgRunning s) @ drop (Suc i) (sgRunning s)) @ new"
        "launchesLeft B s' + length new \<le> launchesLeft B s" "triesOk B s'"
      using startReady_decreases[OF h(3), of so' now'] h(1,2) result(1) by auto
    then have "(s', s) \<in> segOrder B" using result(5) by (cases new) (auto simp: segOrder_def)
    then show ?thesis using n(3) by blast
  next
    case (ticker so now)
    then show ?thesis using idle[OF assms(2)] by simp
  next
    case (cancel so now er)
    have "triesOk B (ctxDone er s)" "sgRunning (ctxDone er s) = sgRunning s" "launchesLeft B (ctxDone er s) = launchesLeft B s"
      using assms(2) by (simp_all add: ctxDone_def triesOk_def failWith_fields launchesLeft_def)
    then show ?thesis using idle cancel(1) by simp
  qed
qed

section \<open>No endless execution\<close>

text \<open>An execution of the loop that never ends although again and again a transfer starts, gets its answer, copies, or has its
  result received, and every transfer was started with a bound on its tries.\<close>

definition endless :: "netEnv \<Rightarrow> remoteMeta \<Rightarrow> seg \<Rightarrow> bool" where
  "endless ne m s \<longleftrightarrow> (\<exists>\<sigma> B. \<sigma> 0 = s \<and> (\<forall>n. segStep ne m (\<lambda>_. True) (\<sigma> n) (\<sigma> (Suc n))) \<and>
     (\<forall>n. \<exists>k\<ge>n. sgRunning (\<sigma> (Suc k)) \<noteq> sgRunning (\<sigma> k)) \<and> (\<forall>n. triesBounded B (\<sigma> n)))"

lemma segOrder_cong:
  assumes "(s2, s1) \<in> segOrder B" "sgRunning s1 = sgRunning s0" "launchesLeft B s1 = launchesLeft B s0"
  shows "(s2, s0) \<in> segOrder B"
  using assms by (simp add: segOrder_def unansweredRuns_def allRounds_def)

lemma tasksFrom_attempts: "t \<in> set (tasksFrom n chs) \<Longrightarrow> tkAttempts t = 0"
  by (induction n chs rule: tasksFrom.induct) auto

lemma segInit_tries: "0 < B \<Longrightarrow> triesOk B (segInit so now m chunks f d)"
proof -
  assume "0 < B"
  define s0 where "s0 = \<lparr>sgTasks = tasksFrom 0 chunks, sgRunning = [], sgActive = 0,
        sgController = newSegmentedConcurrencyController (workerLimit so (int (length chunks))),
        sgFirstErr = None, sgCancelled = False, sgFile = truncateTo (nat (mLength m)) f, sgD = resetProgress (mLength m) chunks d,
        sgTracker = \<lparr>stBytes = 0, stLastBytes = 0, stLastAt = 0\<rparr>\<rparr>"
  have "triesOk B s0" using \<open>0 < B\<close> tasksFrom_attempts by (auto simp: triesOk_def s0_def)
  from startReady_decreases[OF this, of so now] show ?thesis by (simp add: segInit_def s0_def)
qed

lemma segmented_ends: "\<not> endless ne m (segInit so now m chunks f d)"
proof
  assume "endless ne m (segInit so now m chunks f d)"
  then obtain \<sigma> B0 where s0: "\<sigma> 0 = segInit so now m chunks f d" and step: "segStep ne m (\<lambda>_. True) (\<sigma> n) (\<sigma> (Suc n))"
      and awake: "\<exists>k\<ge>n. sgRunning (\<sigma> (Suc k)) \<noteq> sgRunning (\<sigma> k)" and b0: "triesBounded B0 (\<sigma> n)" for n
    unfolding endless_def by blast
  define B where "B = max 1 B0"
  have b: "triesBounded B (\<sigma> n)" for n using b0[of n] by (auto simp: triesBounded_def B_def)
  have ok: "triesOk B (\<sigma> n)" for n
  proof (induction n)
    case 0
    show ?case unfolding s0 by (rule segInit_tries) (simp add: B_def)
  next
    case (Suc n)
    then show ?case using segStep_decreases[OF step _ b] by blast
  qed
  have "wf (segOrder B)" by (simp add: segOrder_def)
  then obtain n where n: "\<And>k. (\<sigma> k, \<sigma> n) \<notin> segOrder B" using wfE_min[of "segOrder B" "\<sigma> 0" "range \<sigma>"] by (metis rangeE rangeI)
  have same: "sgRunning (\<sigma> (n + k)) = sgRunning (\<sigma> n) \<and> launchesLeft B (\<sigma> (n + k)) = launchesLeft B (\<sigma> n)" for k
  proof (induction k)
    case (Suc k)
    then show ?case using segStep_decreases[OF step[of "n + k"] ok b] segOrder_cong n by (metis add_Suc_right)
  qed simp
  obtain k where "n \<le> k" "sgRunning (\<sigma> (Suc k)) \<noteq> sgRunning (\<sigma> k)" using awake by blast
  then show False using same[of "k - n"] same[of "Suc k - n"] by (simp add: Suc_diff_le)
qed

section \<open>A scheduler\<close>

text \<open>The schedule in which the context ends at once, every transfer then fails at its next step, and the results are
  received in order.\<close>

definition abortedRound :: roundEnv where
  "abortedRound = goodRound\<lparr>reCtx := Some ContextCanceled\<rparr>"

definition finishFirst :: "netEnv \<Rightarrow> remoteMeta \<Rightarrow> seg \<Rightarrow> seg" where
  "finishFirst ne m s =
     (case rrPhase (sgRunning s ! 0) of
        Requesting \<Rightarrow> beginRange ne 0 m (Some ContextCanceled) None None 0 s
      | Copying cp evs \<Rightarrow> roundRange abortedRound None 0 cp evs s
      | Finished x \<Rightarrow> s)"

fun abortRuns :: "netEnv \<Rightarrow> remoteMeta \<Rightarrow> nat \<Rightarrow> seg \<Rightarrow> seg" where
  "abortRuns ne m 0 s = s"
| "abortRuns ne m (Suc n) s =
     (if sgRunning s = [] then s
      else
        (let s1 = finishFirst ne m s in
         (case rrPhase (sgRunning s1 ! 0) of
            Finished x \<Rightarrow> (if segDone s1 then s1 else abortRuns ne m n (startReady noOpts 0 (handleResult noOpts 0 0 x s1)))
          | _ \<Rightarrow> s1)))"

definition abortLoop :: "netEnv \<Rightarrow> remoteMeta \<Rightarrow> seg \<Rightarrow> seg option" where
  "abortLoop ne m s =
     (if segDone s then Some s
      else (let s' = abortRuns ne m (length (sgRunning s)) (startReady noOpts 0 (ctxDone ContextCanceled s)) in
            if segDone s' then Some s' else None))"

lemma finishFirst_step:
  assumes "sgRunning s \<noteq> []"
  shows "(segStep ne m (\<lambda>_. True))\<^sup>*\<^sup>* s (finishFirst ne m s)" "\<exists>x. rrPhase (sgRunning (finishFirst ne m s) ! 0) = Finished x"
    "sgFirstErr (finishFirst ne m s) = sgFirstErr s" "sgActive (finishFirst ne m s) = sgActive s"
    "length (sgRunning (finishFirst ne m s)) = length (sgRunning s)"
proof -
  have i: "0 < length (sgRunning s)" using assms by simp
  show "(segStep ne m (\<lambda>_. True))\<^sup>*\<^sup>* s (finishFirst ne m s)"
    using segStep.answer[OF i] segStep.round[OF i] by (auto simp: finishFirst_def intro!: r_into_rtranclp split: phase.split)
  have "copyRound abortedRound l ev c = Stop (Some ContextCanceled) (flushProgress c)" for l ev c
    by (simp add: copyRound_def abortedRound_def)
  then show "\<exists>x. rrPhase (sgRunning (finishFirst ne m s) ! 0) = Finished x"
    "sgFirstErr (finishFirst ne m s) = sgFirstErr s" "sgActive (finishFirst ne m s) = sgActive s"
    "length (sgRunning (finishFirst ne m s)) = length (sgRunning s)"
    using assms by (auto simp: finishFirst_def beginRange_def roundRange_def setPhase_def putCopy_def rangeAnswer_def Let_def
        split: phase.split option.split sum.split)
qed

lemma abortRuns_steps: "(segStep ne m (\<lambda>_. True))\<^sup>*\<^sup>* s (abortRuns ne m n s)"
proof (induction n arbitrary: s)
  case (Suc n)
  show ?case
  proof (cases "sgRunning s = []")
    case False
    define s1 where "s1 = finishFirst ne m s"
    note f = finishFirst_step[OF False, of ne m, folded s1_def]
    obtain x where x: "rrPhase (sgRunning s1 ! 0) = Finished x" using f(2) by blast
    show ?thesis
    proof (cases "segDone s1")
      case True
      then show ?thesis using f(1) x False by (simp add: s1_def[symmetric] Let_def)
    next
      case nd: False
      let ?s2 = "startReady noOpts 0 (handleResult noOpts 0 0 x s1)"
      have "segStep ne m (\<lambda>_. True) s1 ?s2" using segStep.result[of s1 "\<lambda>_. True" noOpts noOpts 0 x] nd x f(5) False by simp
      moreover have "abortRuns ne m (Suc n) s = abortRuns ne m n ?s2" using False x nd by (simp add: s1_def[symmetric] Let_def)
      ultimately show ?thesis using f(1) Suc[of ?s2] by (metis converse_rtranclp_into_rtranclp rtranclp_trans)
    qed
  qed simp
qed simp

lemma abortRuns_done:
  "countedRuns s \<Longrightarrow> sgFirstErr s \<noteq> None \<Longrightarrow> length (sgRunning s) \<le> n \<Longrightarrow> segDone (abortRuns ne m n s)"
proof (induction n arbitrary: s)
  case 0
  then show ?case by (simp add: segDone_def countedRuns_def)
next
  case (Suc n)
  show ?case
  proof (cases "sgRunning s = []")
    case True
    then show ?thesis using Suc.prems by (simp add: segDone_def countedRuns_def)
  next
    case False
    define s1 where "s1 = finishFirst ne m s"
    note f = finishFirst_step[OF False, of ne m, folded s1_def]
    obtain x where x: "rrPhase (sgRunning s1 ! 0) = Finished x" using f(2) by blast
    have c: "0 < length (sgRunning s1)" "countedRuns s1" "sgFirstErr s1 \<noteq> None" using f(3-5) Suc.prems False by (simp_all add: countedRuns_def)
    let ?s2 = "handleResult noOpts 0 0 x s1"
    have s2: "countedRuns ?s2" "length (sgRunning ?s2) \<le> n" "sgFirstErr ?s2 \<noteq> None"
      using handleResult_counts[OF c(1,2), of noOpts 0 x] handleResult_failed[OF c(3)] f(5) Suc.prems(3) by auto
    moreover have "startReady noOpts 0 ?s2 = ?s2" using s2(3) by (auto simp: startReady_def)
    ultimately show ?thesis using Suc.IH[of ?s2] False x by (simp add: s1_def[symmetric] Let_def)
  qed
qed

lemma abortLoop_schedule: "abortLoop ne m s = Some s' \<Longrightarrow> (segStep ne m (\<lambda>_. True))\<^sup>*\<^sup>* s s' \<and> segDone s'"
  using segStep.cancel[of s "\<lambda>_. True" noOpts ne m 0 ContextCanceled] abortRuns_steps
  by (auto simp: abortLoop_def Let_def split: if_splits intro: converse_rtranclp_into_rtranclp)

lemma abortLoop_ends: "abortLoop ne m (segInit so now m chunks f d) \<noteq> None"
proof -
  define s where "s = segInit so now m chunks f d"
  have "counted.reach m chunks ne (\<lambda>_. True) s" unfolding counted.reach_def s_def by blast
  then have c: "countedRuns s" by (rule counted.reach_inv)
  define s1 where "s1 = ctxDone ContextCanceled s"
  have f: "sgFirstErr s1 \<noteq> None" "countedRuns s1" "sgRunning s1 = sgRunning s"
    using c failWith_fields(5)[of ContextCanceled s] by (auto simp: s1_def ctxDone_def countedRuns_def failWith_fields)
  then have "startReady noOpts 0 s1 = s1" by (auto simp: startReady_def)
  then show ?thesis
    using abortRuns_done[OF f(2,1), of "length (sgRunning s)" ne m] f(3) by (simp add: abortLoop_def s_def[symmetric] s1_def[symmetric] Let_def)
qed

end
