(* ===== verification/Http_Runner.thy ===== *)
theory Http_Runner
  imports Segmented_Ends
begin

text \<open>
  The run of an HTTP download (downloader.go): \<open>downloadURI\<close> chooses between the transfers of \<open>Http_Single\<close> and
  \<open>Http_Segmented\<close>, and \<open>runDownload\<close> tries the URIs of a download in rounds until one succeeds or the tries are used
  up. With \<open>max-tries\<close> 0 it may try forever, and a segmented download whose server never answers may not end, so
  the results are options and \<open>None\<close> is a run that does not return.
\<close>

section \<open>The environment of a run\<close>

text \<open>The scheduler decides how the goroutines of a segmented download interleave: \<open>ruLoop\<close> is the state in which its loop
  ends, if it does. \<open>ruCtx\<close> is the error of the context and \<open>ruSleep\<close> the result of a sleep at a given moment.\<close>

record runEnv =
  ruLoop :: "remoteMeta \<Rightarrow> seg \<Rightarrow> seg option"
  ruNow :: "nat \<Rightarrow> int"
  ruCtx :: "nat \<Rightarrow> err option"
  ruSleep :: "nat \<Rightarrow> err option"

definition schedules :: "netEnv \<Rightarrow> runEnv \<Rightarrow> bool" where
  "schedules ne re \<longleftrightarrow> (\<forall>m s s'. ruLoop re m s = Some s' \<longrightarrow> (segStep ne m (\<lambda>_. True))\<^sup>*\<^sup>* s s' \<and> segDone s')"

text \<open>A loop that does not return is one that runs forever: its transfers go on starting, moving or ending, each started with
  a bound on its tries.\<close>

definition fairLoop :: "netEnv \<Rightarrow> runEnv \<Rightarrow> bool" where
  "fairLoop ne re \<longleftrightarrow> (\<forall>m so now chunks f d. ruLoop re m (segInit so now m chunks f d) = None \<longrightarrow> endless ne m (segInit so now m chunks f d))"

lemma fairLoop_returns: "fairLoop ne re \<Longrightarrow> ruLoop re m (segInit so now m chunks f d) \<noteq> None"
  using segmented_ends unfolding fairLoop_def by blast

section \<open>One URI\<close>

definition downloadSegmented ::
    "netEnv \<Rightarrow> runEnv \<Rightarrow> nat \<Rightarrow> remoteMeta \<Rightarrow> string \<Rightarrow> options \<Rightarrow> chunkRange list \<Rightarrow> run \<Rightarrow> (unit res \<times> run) option" where
  "downloadSegmented ne re i m p opts chunks r0 =
     (case openFile ne False p r0 of
        (Inl er, r1) \<Rightarrow> Some (Inl er, r1)
      | (Inr _, r1) \<Rightarrow>
         (let truncErr = neFault ne (rnTick r1) CallTruncate p; closeErr = neFault ne (Suc (rnTick r1)) CallClose p;
              so = \<lparr>soDownload = dOptions (obj (rnE r1) i), soGlobal = eGlobal (rnE r1), soFallback = opts\<rparr>;
              r2 = tick (tick (if truncErr = None then setFile p (truncateTo (nat (mLength m)) (fileData r1 p)) r1 else r1)) in
          (case segStart None truncErr closeErr so (ruNow re (rnTick r2)) m chunks (fileData r1 p) (obj (rnE r1) i) of
             Inl er \<Rightarrow> Some (Inl er, r2)
           | Inr s0 \<Rightarrow>
              (case ruLoop re m s0 of
                 None \<Rightarrow> None
               | Some s \<Rightarrow>
                  (case segResult (ruCtx re (rnTick r2)) s of (er, s') \<Rightarrow>
                     Some (case er of None \<Rightarrow> Inr () | Some x \<Rightarrow> Inl x, tick (setFile p (sgFile s') (onD i (\<lambda>_. sgD s') r2))))))))"

definition canUseSingleGETProbe :: "options \<Rightarrow> bool \<Rightarrow> int \<Rightarrow> bool" where
  "canUseSingleGETProbe opts segmentedRequested initialConcurrency =
     (let useSingleGET = (optionString opts ''out'' \<noteq> '''' \<or> \<not> optionBool opts ''continue'') in
      if optionBool opts ''dry-run'' then False
      else if \<not> segmentedRequested then useSingleGET
      else if initialConcurrency > 1 then False
      else if optionBool opts ''http-accept-gzip'' then useSingleGET
      else optionString opts ''out'' \<noteq> '''' \<and> optionBool opts ''continue'')"

text \<open>What follows every transfer: the checksum and the time of the file.\<close>

definition afterTransfer :: "netEnv \<Rightarrow> string \<Rightarrow> remoteMeta \<Rightarrow> options \<Rightarrow> run \<Rightarrow> unit res \<times> run" where
  "afterTransfer ne p m opts r = bindS (verifyChecksum ne p opts r) (\<lambda>_ r. applyRemoteTime ne p m opts r)"

text \<open>The destination of a probed download.\<close>

definition probedOutput :: "netEnv \<Rightarrow> nat \<Rightarrow> options \<Rightarrow> remoteMeta \<Rightarrow> bool \<Rightarrow> string \<Rightarrow> run \<Rightarrow> string res \<times> run" where
  "probedOutput ne i opts m segmented path0 r0 =
     (let selectedPath = outputPath (obj (rnE r0) i) in
      bindS
        (if selectedPath \<noteq> '''' then (Inr selectedPath, r0)
         else (case canResumeExistingOutput ne path0 opts m segmented r0 of (resume, r1) \<Rightarrow> resolveExistingOutputPath ne path0 opts resume r1))
        (\<lambda>q r2. bindS (ensureDownloadDir ne (pathDir q) r2) (\<lambda>_ r3.
          (case (if selectedPath = '''' then canResumeExistingOutput ne q opts m segmented r3 else (True, r3)) of (resume, r4) \<Rightarrow>
             (let autoRename = (selectedPath = '''' \<and> \<not> resume \<and> \<not> optionBool opts ''allow-overwrite'' \<and>
                    optionBoolDefault opts ''auto-file-renaming'' True) in
              reservePath ne q (dGid (obj (rnE r4) i)) autoRename r4)))))"

definition segmentedProbed :: "options \<Rightarrow> bool \<Rightarrow> int \<Rightarrow> remoteMeta \<Rightarrow> bool" where
  "segmentedProbed opts segmentedRequested minSplit m \<longleftrightarrow>
     mLength m > 0 \<and> mAcceptRange m \<and> segmentedRequested \<and> meetsSegmentedMinimum (mLength m) minSplit (optionExplicit opts ''min-split-size'')"

text \<open>The transfer of a probed download to its destination, with the downgrade to one connection when the server ignores
  the ranges it announced.\<close>

definition transferProbed :: "netEnv \<Rightarrow> runEnv \<Rightarrow> nat \<Rightarrow> options \<Rightarrow> remoteMeta \<Rightarrow> bool \<Rightarrow> int \<Rightarrow> string \<Rightarrow> run \<Rightarrow> (unit res \<times> run) option" where
  "transferProbed ne re i opts m segmented minSplit q r =
     (if segmented then
        (let opts' = transportOptionsForSegmented opts in
         (case downloadSegmented ne re i m q opts' (makeChunks (mLength m) (httpSegmentSize opts' minSplit)) r of
            None \<Rightarrow> None
          | Some (res, r1) \<Rightarrow>
             (if shouldDowngradeSegmentedDownload (case res of Inl er \<Rightarrow> Some er | Inr _ \<Rightarrow> None)
              then (let m' = m\<lparr>mAcceptRange := False\<rparr> in
                    Some (bindS (downloadSingle ne i m' q opts' r1) (\<lambda>_ r. afterTransfer ne q m' opts' r)))
              else Some (bindS (res, r1) (\<lambda>_ r. afterTransfer ne q m opts' r)))))
      else Some (bindS (downloadSingle ne i m q opts r) (\<lambda>_ r. afterTransfer ne q m opts r)))"

definition downloadGET :: "netEnv \<Rightarrow> nat \<Rightarrow> string \<Rightarrow> options \<Rightarrow> run \<Rightarrow> unit res \<times> run" where
  "downloadGET ne i rawURI opts r0 =
     bindS (downloadSingleWithGETProbe ne i rawURI opts (optionString opts ''dir'') (optionString opts ''out'') r0) (\<lambda>(m, q) r.
       if mNotModified m then (Inr (), r) else afterTransfer ne q m opts r)"

text \<open>What follows a successful probe.\<close>

definition downloadFound :: "netEnv \<Rightarrow> runEnv \<Rightarrow> nat \<Rightarrow> options \<Rightarrow> bool \<Rightarrow> remoteMeta \<Rightarrow> string \<Rightarrow> run \<Rightarrow> (unit res \<times> run) option" where
  "downloadFound ne re i opts segmentedRequested m outPath r =
     (let minSplit = optionBytes opts ''min-split-size'' 1048576; segmented = segmentedProbed opts segmentedRequested minSplit m in
      if optionBool opts ''dry-run'' \<or> mNotModified m then Some (Inr (), onD i (setMetadata m outPath) r)
      else
        (case probedOutput ne i opts m segmented outPath r of
           (Inl er, r1) \<Rightarrow> Some (Inl er, r1)
         | (Inr q, r1) \<Rightarrow> transferProbed ne re i opts m segmented minSplit q (onD i (setMetadata m q) r1)))"

definition downloadProbed :: "netEnv \<Rightarrow> runEnv \<Rightarrow> nat \<Rightarrow> string \<Rightarrow> options \<Rightarrow> bool \<Rightarrow> run \<Rightarrow> (unit res \<times> run) option" where
  "downloadProbed ne re i rawURI opts segmentedRequested r0 =
     (let dirOpt = optionString opts ''dir''; outOpt = optionString opts ''out'';
          provisionalName = filenameFromURI (neQuery ne) rawURI;
          provisionalPath = resolveOutputPath (neQuery ne) dirOpt outOpt provisionalName rawURI;
          probeOpts = (if segmentedRequested then transportOptionsForSegmented opts else opts) in
      (case probe ne rawURI probeOpts provisionalPath r0 of
         (Inl er, r1) \<Rightarrow> Some (Inl er, r1)
       | (Inr m, r1) \<Rightarrow>
          downloadFound ne re i opts segmentedRequested m
            (if outOpt = '''' \<and> mFilename m \<noteq> '''' \<and> mFilename m \<noteq> provisionalName
             then resolveOutputPath (neQuery ne) dirOpt '''' (mFilename m) rawURI else provisionalPath) r1))"

definition downloadURI :: "netEnv \<Rightarrow> runEnv \<Rightarrow> nat \<Rightarrow> string \<Rightarrow> options \<Rightarrow> run \<Rightarrow> (unit res \<times> run) option" where
  "downloadURI ne re i rawURI opts r0 =
     (let split0 = optionInt opts ''split'' 1; split = (if split0 < 1 then 1 else split0);
          conn0 = optionInt opts ''max-connection-per-server'' split; maxConn = (if conn0 < 1 then 1 else conn0);
          initialConcurrency = min split maxConn; segmentedRequested = (split > 1) in
      if canUseSingleGETProbe opts segmentedRequested initialConcurrency then Some (downloadGET ne i rawURI opts r0)
      else downloadProbed ne re i rawURI opts segmentedRequested r0)"

section \<open>The rounds\<close>

record attempts =
  atAttempt :: int
  atNotFound :: int
  atLastErr :: "err option"
  atRetryable :: bool

datatype roundEnd = Returned "err option" attempts run | RoundDone attempts run

text \<open>What a run reads of its options before the loop.\<close>

record runOpts =
  roOpts :: options
  roMaxTries :: int
  roRetryWait :: int
  roMaxNotFound :: int
  roUris :: "uriInfo list"

definition countFailure :: "err \<Rightarrow> attempts \<Rightarrow> attempts" where
  "countFailure er st = st\<lparr>atLastErr := Some er, atNotFound := atNotFound st + (if isFileNotFoundError er then 1 else 0)\<rparr>"

definition noteRetryable :: "err \<Rightarrow> attempts \<Rightarrow> attempts" where
  "noteRetryable er st = (if isRetryableDownloadError (Some er) then st\<lparr>atRetryable := True\<rparr> else st)"

fun tryURIs :: "netEnv \<Rightarrow> runEnv \<Rightarrow> nat \<Rightarrow> runOpts \<Rightarrow> uriInfo list \<Rightarrow> attempts \<Rightarrow> run \<Rightarrow> roundEnd option" where
  "tryURIs ne re i ro [] st r = Some (RoundDone st r)"
| "tryURIs ne re i ro (u # us) st r =
     (case ruCtx re (rnTick r) of
        Some er \<Rightarrow> Some (Returned (Some er) st (tick r))
      | None \<Rightarrow>
         (if roMaxTries ro > 0 \<and> atAttempt st \<ge> roMaxTries ro then Some (RoundDone st (tick r))
          else
            (let st1 = st\<lparr>atAttempt := atAttempt st + 1\<rparr>;
                 r1 = (if length (roUris ro) > 1 then onD i (setURIUsed (uURI u)) (tick r) else tick r) in
             (case downloadURI ne re i (uURI u) (roOpts ro) r1 of
                None \<Rightarrow> None
              | Some (Inr _, r2) \<Rightarrow> Some (Returned None st1 r2)
              | Some (Inl er, r2) \<Rightarrow>
                 (let st2 = countFailure er st1 in
                  if isFileNotFoundError er \<and> roMaxNotFound ro > 0 \<and> atNotFound st2 \<ge> roMaxNotFound ro then Some (Returned (Some er) st2 r2)
                  else
                    (let st3 = noteRetryable er st2 in
                     if roRetryWait ro > 0 \<and> isRetryableDownloadError (Some er) \<and> (roMaxTries ro = 0 \<or> atAttempt st3 < roMaxTries ro)
                     then (case ruSleep re (rnTick r2) of
                             Some e \<Rightarrow> Some (Returned (Some e) st3 (tick r2))
                           | None \<Rightarrow> tryURIs ne re i ro us st3 (tick r2))
                     else tryURIs ne re i ro us st3 r2))))))"

definition lastError :: "attempts \<Rightarrow> err option" where
  "lastError st = (case atLastErr st of None \<Rightarrow> Some (Errorf ''no usable URI'' []) | Some er \<Rightarrow> Some er)"

partial_function (option) runLoop :: "netEnv \<Rightarrow> runEnv \<Rightarrow> nat \<Rightarrow> runOpts \<Rightarrow> attempts \<Rightarrow> run \<Rightarrow> (err option \<times> attempts \<times> run) option" where
  "runLoop ne re i ro st r =
     (if roMaxTries ro = 0 \<or> atAttempt st < roMaxTries ro then
        Option.bind (tryURIs ne re i ro (roUris ro) (st\<lparr>atRetryable := False\<rparr>) r) (\<lambda>x.
          (case x of
             Returned er st' r' \<Rightarrow> Some (er, st', r')
           | RoundDone st' r' \<Rightarrow> if atRetryable st' then runLoop ne re i ro st' r' else Some (lastError st', st', r')))
      else Some (lastError st, st, r))"

definition runOptions :: "Download \<Rightarrow> runOpts" where
  "runOptions d =
     (let opts = dOptions d; tries = optionInt opts ''max-tries'' 5 in
      \<lparr>roOpts = opts, roMaxTries = (if tries < 0 then 1 else tries), roRetryWait = wrap64 (optionInt opts ''retry-wait'' 0 * second),
       roMaxNotFound = optionInt opts ''max-file-not-found'' 0, roUris = dUris d\<rparr>)"

definition runDownload :: "netEnv \<Rightarrow> runEnv \<Rightarrow> nat \<Rightarrow> run \<Rightarrow> (err option \<times> attempts \<times> run) option" where
  "runDownload ne re i r =
     (let st = \<lparr>atAttempt = 0, atNotFound = 0, atLastErr = None, atRetryable = False\<rparr> in
      if dCtx (obj (rnE r) i) = None then Some (Some ContextCanceled, st, r)
      else runLoop ne re i (runOptions (obj (rnE r) i)) st r)"


section \<open>The run returns\<close>

lemma downloadSegmented_returns:
  assumes "fairLoop ne re"
  shows "downloadSegmented ne re i m p opts chunks r \<noteq> None"
proof -
  define g where "g so now f d = the (ruLoop re m (segInit so now m chunks f d))" for so now f d
  have "ruLoop re m (segInit so now m chunks f d) = Some (g so now f d)" for so now f d
    using fairLoop_returns[OF assms, of m so now chunks f d] by (auto simp: g_def)
  then show ?thesis unfolding downloadSegmented_def Let_def segStart_def
    by (simp split: prod.split sum.split option.split)
qed

lemma transferProbed_returns:
  assumes "fairLoop ne re"
  shows "transferProbed ne re i opts m segmented minSplit q r \<noteq> None"
proof -
  define g where "g opts' chunks = the (downloadSegmented ne re i m q opts' chunks r)" for opts' chunks
  have "downloadSegmented ne re i m q opts' chunks r = Some (g opts' chunks)" for opts' chunks
    using downloadSegmented_returns[OF assms, of i m q opts' chunks r] by (auto simp: g_def)
  then show ?thesis unfolding transferProbed_def Let_def by (simp split: option.split prod.split)
qed

lemma downloadURI_returns:
  assumes "fairLoop ne re"
  shows "downloadURI ne re i u opts r \<noteq> None"
proof -
  define g where "g m segmented minSplit q r = the (transferProbed ne re i opts m segmented minSplit q r)" for m segmented minSplit q r
  have "transferProbed ne re i opts m segmented minSplit q r = Some (g m segmented minSplit q r)" for m segmented minSplit q r
    using transferProbed_returns[OF assms, of i opts m segmented minSplit q r] by (auto simp: g_def)
  then have "downloadFound ne re i opts segmentedRequested m outPath r \<noteq> None" for segmentedRequested m outPath r
    unfolding downloadFound_def Let_def by (simp split: prod.split sum.split)
  then show ?thesis unfolding downloadURI_def downloadProbed_def Let_def by (auto split: prod.split sum.split)
qed

definition roundAttempts :: "roundEnd \<Rightarrow> attempts" where
  "roundAttempts x = (case x of Returned er st r \<Rightarrow> st | RoundDone st r \<Rightarrow> st)"

definition roundOk :: "runOpts \<Rightarrow> attempts \<Rightarrow> attempts \<Rightarrow> bool" where
  "roundOk ro st st' \<longleftrightarrow> atAttempt st' \<le> roMaxTries ro \<and> (atRetryable st' \<and> \<not> atRetryable st \<longrightarrow> atAttempt st < atAttempt st') \<and>
     atAttempt st \<le> atAttempt st'"

lemma tryURIs_Cons:
  assumes "ruCtx re (rnTick r) = None" "\<not> (roMaxTries ro > 0 \<and> atAttempt st \<ge> roMaxTries ro)"
    and "downloadURI ne re i (uURI u) (roOpts ro) (if length (roUris ro) > 1 then onD i (setURIUsed (uURI u)) (tick r) else tick r) = Some (res, r2)"
  shows "\<exists>st3 r3. atAttempt st3 = atAttempt st + 1 \<and> (tryURIs ne re i ro (u # us) st r = tryURIs ne re i ro us st3 r3 \<or>
    (\<exists>er. tryURIs ne re i ro (u # us) st r = Some (Returned er st3 r3) \<and> (er = None \<longrightarrow> res = Inr () \<and> r3 = r2)))"
proof (cases res)
  case (Inr v)
  have "tryURIs ne re i ro (u # us) st r = Some (Returned None (st\<lparr>atAttempt := atAttempt st + 1\<rparr>) r2)"
    by (simp only: tryURIs.simps Let_def assms(1) option.case if_not_P[OF assms(2)] assms(3) Inr prod.case sum.case)
  then show ?thesis using Inr by (intro exI[of _ "st\<lparr>atAttempt := atAttempt st + 1\<rparr>"] exI[of _ r2]) simp
next
  case (Inl er)
  define st2 where "st2 = countFailure er (st\<lparr>atAttempt := atAttempt st + 1\<rparr>)"
  define st3 where "st3 = noteRetryable er st2"
  have eq: "tryURIs ne re i ro (u # us) st r =
      (if isFileNotFoundError er \<and> roMaxNotFound ro > 0 \<and> atNotFound st2 \<ge> roMaxNotFound ro then Some (Returned (Some er) st2 r2)
       else if roRetryWait ro > 0 \<and> isRetryableDownloadError (Some er) \<and> (roMaxTries ro = 0 \<or> atAttempt st3 < roMaxTries ro)
       then (case ruSleep re (rnTick r2) of Some e \<Rightarrow> Some (Returned (Some e) st3 (tick r2)) | None \<Rightarrow> tryURIs ne re i ro us st3 (tick r2))
       else tryURIs ne re i ro us st3 r2)"
    by (simp only: tryURIs.simps Let_def assms(1) option.case if_not_P[OF assms(2)] assms(3) Inl prod.case sum.case st3_def st2_def)
  have "atAttempt st2 = atAttempt st + 1" "atAttempt st3 = atAttempt st + 1"
    by (simp_all add: st3_def st2_def countFailure_def noteRetryable_def)
  then show ?thesis unfolding eq by (auto split: option.split)
qed

text \<open>A round ends, stays within the tries, and has used at least one of them when it asks for another round.\<close>

lemma tryURIs_bounds:
  assumes "fairLoop ne re" "0 < roMaxTries ro" "atAttempt st \<le> roMaxTries ro"
  shows "\<exists>x. tryURIs ne re i ro us st r = Some x \<and> roundOk ro st (roundAttempts x)"
  using assms(3)
proof (induction us arbitrary: st r)
  case Nil
  then show ?case by (simp add: roundAttempts_def roundOk_def)
next
  case (Cons u us)
  show ?case
  proof (cases "ruCtx re (rnTick r) \<noteq> None \<or> atAttempt st \<ge> roMaxTries ro")
    case True
    then show ?thesis using Cons.prems assms(2) by (auto simp: roundAttempts_def roundOk_def split: option.split)
  next
    case False
    let ?r1 = "if length (roUris ro) > 1 then onD i (setURIUsed (uURI u)) (tick r) else tick r"
    obtain res r2 where d: "downloadURI ne re i (uURI u) (roOpts ro) ?r1 = Some (res, r2)"
      using downloadURI_returns[OF assms(1), of i "uURI u" "roOpts ro" ?r1] by fastforce
    from tryURIs_Cons[OF _ _ d, of st us] False obtain st3 r3 where s: "atAttempt st3 = atAttempt st + 1"
        "tryURIs ne re i ro (u # us) st r = tryURIs ne re i ro us st3 r3 \<or> (\<exists>er. tryURIs ne re i ro (u # us) st r = Some (Returned er st3 r3))"
      by auto
    have "atAttempt st3 \<le> roMaxTries ro" using s(1) False by simp
    from s(2) Cons.IH[OF this, of r3] obtain x where "tryURIs ne re i ro (u # us) st r = Some x" "roundOk ro st3 (roundAttempts x) \<or> roundAttempts x = st3"
      by (auto simp: roundAttempts_def)
    then show ?thesis using s(1) False by (auto simp: roundOk_def)
  qed
qed

lemma runLoop_returns:
  assumes "fairLoop ne re" "0 < roMaxTries ro" "atAttempt st \<le> roMaxTries ro"
  shows "\<exists>er st' r'. runLoop ne re i ro st r = Some (er, st', r') \<and> atAttempt st' \<le> roMaxTries ro"
  using assms(3)
proof (induction "nat (roMaxTries ro - atAttempt st)" arbitrary: st r rule: less_induct)
  case less
  show ?case
  proof (cases "atAttempt st < roMaxTries ro")
    case False
    then show ?thesis using less.prems assms(2) by (subst runLoop.simps) auto
  next
    case True
    obtain x where x: "tryURIs ne re i ro (roUris ro) (st\<lparr>atRetryable := False\<rparr>) r = Some x" "atAttempt (roundAttempts x) \<le> roMaxTries ro"
        "atRetryable (roundAttempts x) \<longrightarrow> atAttempt st < atAttempt (roundAttempts x)"
      using tryURIs_bounds[OF assms(1,2), of "st\<lparr>atRetryable := False\<rparr>" i "roUris ro" r] less.prems by (auto simp: roundOk_def)
    show ?thesis
    proof (cases x)
      case (Returned er st' r')
      then show ?thesis using x True by (subst runLoop.simps) (simp add: roundAttempts_def)
    next
      case (RoundDone st' r')
      show ?thesis
      proof (cases "atRetryable st'")
        case retry: True
        have "runLoop ne re i ro st r = runLoop ne re i ro st' r'"
          using x(1) True RoundDone retry by (subst runLoop.simps) simp
        then show ?thesis using less.hyps[of st' r'] x(2,3) RoundDone retry True by (simp add: roundAttempts_def)
      next
        case False
        then show ?thesis using x True RoundDone by (subst runLoop.simps) (simp add: roundAttempts_def)
      qed
    qed
  qed
qed

text \<open>C11: A run with a bound on its tries returns, and tries its URIs at most that often in all: with a positive
  \<open>max-tries\<close> at most so many times, with a negative one once, however often the errors ask for another round. That includes the
  loops of its segmented downloads: no execution of such a loop is endless, that is, goes on forever with its transfers starting,
  moving or ending again and again, each transfer started with a bound on its tries. What is assumed is only that a loop
  that does not return is of this kind: a transfer that waits gets an answer, data or an error, waiting times pass, and
  \<open>max-tries\<close> is not set to unlimited meanwhile.\<close>

theorem runDownload_returns:
  assumes "fairLoop ne re" "optionInt (dOptions (obj (rnE r) i)) ''max-tries'' 5 \<noteq> 0"
  shows "\<exists>er st r'. runDownload ne re i r = Some (er, st, r') \<and> atAttempt st \<le> max 1 (optionInt (dOptions (obj (rnE r) i)) ''max-tries'' 5)"
proof -
  let ?ro = "runOptions (obj (rnE r) i)" and ?st = "\<lparr>atAttempt = 0, atNotFound = 0, atLastErr = None, atRetryable = False\<rparr>"
  have tries: "0 < roMaxTries ?ro" "roMaxTries ?ro \<le> max 1 (optionInt (dOptions (obj (rnE r) i)) ''max-tries'' 5)"
    using assms(2) by (auto simp: runOptions_def Let_def)
  then have st: "atAttempt ?st \<le> roMaxTries ?ro" by simp
  show ?thesis using runLoop_returns[OF assms(1) tries(1) st, of i r] tries(2) by (auto simp: runDownload_def Let_def intro: order_trans)
qed


section \<open>The path of the download\<close>

text \<open>The operations of a transfer leave the output path of the download alone.\<close>

lemma path_kept [simp]:
  "dPath (setConnections n d) = dPath d" "dPath (addCompleted n d) = dPath d" "dPath (rollbackCompleted n d) = dPath d"
  "dPath (markPieceComplete k d) = dPath d" "dPath (resetSingleProgress a b d) = dPath d" "dPath (resetProgress a c d) = dPath d"
  "dPath (setMetadata m p d) = p"
  by (simp_all add: setConnections_def addCompleted_def rollbackCompleted_def markPieceComplete_def resetSingleProgress_def resetProgress_def
      setMetadata_def Let_def split: prod.split option.split)

definition atPath :: "nat \<Rightarrow> string \<Rightarrow> run \<Rightarrow> bool" where
  "atPath i p r \<longleftrightarrow> (i < length (eHeap (rnE r)) \<longrightarrow> dPath (obj (rnE r) i) = p)"

lemma atPath_side [simp]: "atPath i p (tick r) = atPath i p r" "atPath i p (setFile q x r) = atPath i p r"
  by (simp_all add: atPath_def tick_def setFile_def)

lemma atPath_onD: "(\<And>d. dPath d = p \<Longrightarrow> dPath (f d) = p) \<Longrightarrow> atPath i p r \<Longrightarrow> atPath i p (onD i f r)"
  by (simp add: atPath_def onD_def obj_setD setD_def setObj_def obj_def)

lemma atPath_set: "(\<And>d. dPath (f d) = p) \<Longrightarrow> atPath i p (onD i f r)"
  by (simp add: atPath_def onD_def obj_setD setD_def setObj_def obj_def)

lemma flush_path [simp]: "dPath (csD (flushProgress s)) = dPath (csD s)"
  by (simp add: flushProgress_def)

lemma countWrite_path [simp]: "dPath (csD (countWrite n x s)) = dPath (csD s)"
  by (simp add: countWrite_def)

lemma writeRound_path: "writeRound re l x s = Stop e t \<or> writeRound re l x s = Continue t \<Longrightarrow> dPath (csD t) = dPath (csD s)"
  by (auto simp: writeRound_def Let_def split: option.splits if_splits)

lemma copyRound_path: "copyRound re l ev s = Stop e t \<or> copyRound re l ev s = Continue t \<Longrightarrow> dPath (csD t) = dPath (csD s)"
  by (auto simp: copyRound_def Let_def dest!: writeRound_path[OF disjI1] writeRound_path[OF disjI2] split: option.splits if_splits outcome.splits)

lemma copyBuffer_path: "copyWithProgressBuffer envs l k b s = (e, t) \<Longrightarrow> dPath (csD t) = dPath (csD s)"
proof (induction envs l k b s arbitrary: e t rule: copyWithProgressBuffer.induct)
qed (auto dest: copyRound_path[OF disjI1] copyRound_path[OF disjI2] split: outcome.splits)


lemma copyBody_path:
  assumes "atPath i p r"
  shows "atPath i p (snd (copyBody ne i f off opts resp b rl want r))"
proof -
  have end_path: "atPath i p (endCopy i f s r)" if "dPath (csD s) = dPath (obj (rnE r) i)" for s
    using assms that by (simp add: endCopy_def atPath_def onD_def obj_setD setD_def setObj_def obj_def setFile_def tick_def)
  have start: "csD (startCopy i f off r) = obj (rnE r) i" by (simp add: startCopy_def)
  show ?thesis unfolding copyBody_def Let_def copyExactWithProgress_def copyExactWithProgressCount_def copyCountingWithProgress_def copyWithProgress_def
    by (auto simp: start intro!: end_path dest!: copyBuffer_path split: prod.split option.split)
qed

lemma transferBody_path: "atPath i p r \<Longrightarrow> atPath i p (snd (transferBody ne i f start opts resp rl len r))"
  unfolding transferBody_def Let_def
  by (auto simp: case_prod_unfold intro!: atPath_onD copyBody_path split: sum.split)

lemma bindS_path:
  "atPath i p (snd x) \<Longrightarrow> (\<And>a r. atPath i p r \<Longrightarrow> atPath i p (snd (f a r))) \<Longrightarrow> atPath i p (snd (bindS x f))"
  by (auto simp: bindS_def split: prod.split sum.split)

lemma calls_path:
  "atPath i p (snd (fsCallS ne c f r)) = atPath i p r" "atPath i p (snd (statFile ne f r)) = atPath i p r"
  "atPath i p (snd (openFile ne tr f r)) = atPath i p r" "atPath i p (snd (truncateFile ne f r)) = atPath i p r"
  "atPath i p (snd (closeFile ne f r)) = atPath i p r" "atPath i p (snd (httpDo ne rq opts r)) = atPath i p r"
  "atPath i p (snd (newRequest ne meth u r)) = atPath i p r" "atPath i p (snd (deferClose ne f x)) = atPath i p (snd x)"
  by (simp_all add: fsCallS_def statFile_def openFile_def truncateFile_def closeFile_def httpDo_def newRequest_def deferClose_def
      split: option.split sum.split prod.split)

lemma singleAnswer_path: "atPath i p r \<Longrightarrow> atPath i p (snd (singleAnswer ne i m p opts start resp r))"
  unfolding singleAnswer_def Let_def
  by (auto intro!: bindS_path transferBody_path atPath_onD simp: calls_path split: sum.split)

lemma downloadSingle_path: "atPath i p r \<Longrightarrow> atPath i p (snd (downloadSingle ne i m p opts r))"
proof -
  assume a: "atPath i p r"
  obtain start r1 where s: "singleStart ne m p opts r = (start, r1)" by force
  then have "atPath i p r1"
    using a calls_path(2)[of i p ne p r] by (auto simp: singleStart_def split: if_splits prod.splits)
  then show ?thesis unfolding downloadSingle_def s prod.case
    by (intro bindS_path) (auto intro!: bindS_path singleAnswer_path simp: calls_path)
qed

lemma atPath_files [simp]: "atPath i p (r\<lparr>rnFiles := fs\<rparr>) = atPath i p r"
  by (simp add: atPath_def)

lemma verifyChecksum_path: "atPath i p r \<Longrightarrow> atPath i p (snd (verifyChecksum ne q opts r))"
  unfolding verifyChecksum_def Let_def by (auto intro!: bindS_path simp: calls_path split: prod.split)

lemma applyRemoteTime_path: "atPath i p r \<Longrightarrow> atPath i p (snd (applyRemoteTime ne q m opts r))"
  unfolding applyRemoteTime_def by (auto intro!: bindS_path simp: calls_path split: option.split)

lemma afterTransfer_path: "atPath i p r \<Longrightarrow> atPath i p (snd (afterTransfer ne q m opts r))"
  unfolding afterTransfer_def by (auto intro!: bindS_path verifyChecksum_path applyRemoteTime_path)

lemma bindS_data:
  "fileData (snd x) f = c \<Longrightarrow> (\<And>a r. fileData r f = c \<Longrightarrow> fileData (snd (g a r)) f = c) \<Longrightarrow> fileData (snd (bindS x g)) f = c"
  by (auto simp: bindS_def split: prod.split sum.split)

lemma verifyChecksum_data: "fileData r f = c \<Longrightarrow> fileData (snd (verifyChecksum ne q opts r)) f = c"
  unfolding verifyChecksum_def Let_def by (auto intro!: bindS_data split: prod.split)

lemma applyRemoteTime_data: "fileData r f = c \<Longrightarrow> fileData (snd (applyRemoteTime ne q m opts r)) f = c"
  unfolding applyRemoteTime_def
  by (auto intro!: bindS_data split: option.split) (auto simp: fileData_def split: option.split)

lemma afterTransfer_data: "fileData r f = c \<Longrightarrow> fileData (snd (afterTransfer ne q m opts r)) f = c"
  unfolding afterTransfer_def by (intro bindS_data verifyChecksum_data applyRemoteTime_data)

text \<open>So do the steps of a segmented download.\<close>

lemma seg_path [simp]:
  "dPath (sgD (setPhase k ph s)) = dPath (sgD s)" "dPath (sgD (beginRange ne t m oe se ce k s)) = dPath (sgD s)"
  "dPath (sgD (startTask so tk s)) = dPath (sgD s)" "dPath (sgD (rollbackBody er s)) = dPath (sgD s)"
  "dPath (sgD (failWith er s)) = dPath (sgD s)" "dPath (sgD (requeue now rr s)) = dPath (sgD s)"
  by (simp_all add: setPhase_def beginRange_def startTask_def setConns_def rollbackBody_def failWith_def requeue_def Let_def
      split: prod.split option.split err.split)

lemma startLoop_path [simp]: "dPath (sgD (startLoop so now s)) = dPath (sgD s)"
proof (induction so now s rule: startLoop.induct)
  case (1 so now s)
  then show ?case by (subst startLoop.simps) (auto split: option.split)
qed

lemma startReady_path [simp]: "dPath (sgD (startReady so now s)) = dPath (sgD s)"
  by (simp add: startReady_def)

lemma roundRange_path [simp]: "dPath (sgD (roundRange re ce k cp evs s)) = dPath (sgD s)"
proof -
  have "dPath (csD (toCopy cp s)) = dPath (sgD s)" by (simp add: toCopy_def)
  then show ?thesis unfolding roundRange_def Let_def
    by (auto simp: putCopy_def dest: copyRound_path[OF disjI1] copyRound_path[OF disjI2] split: outcome.split)
qed

lemma handleResult_path [simp]: "dPath (sgD (handleResult so now k x s)) = dPath (sgD s)"
  by (simp add: handleResult_def setConns_def Let_def split: option.split)

lemma segStep_path: "segStep ne m Q s s' \<Longrightarrow> dPath (sgD s') = dPath (sgD s)"
  by (induction rule: segStep.induct) (simp_all add: ctxDone_def)

lemma segSteps_path: "(segStep ne m Q)\<^sup>*\<^sup>* s s' \<Longrightarrow> dPath (sgD s') = dPath (sgD s)"
  by (induction rule: rtranclp_induct) (simp_all add: segStep_path)

text \<open>A segmented download that succeeds has stored the representation; in any case it leaves the path alone.\<close>

lemma downloadSegmented_cases:
  assumes "downloadSegmented ne re i m p opts chunks r = Some (res, r')" "schedules ne re"
  obtains (failed) er where "res = Inl er" "\<And>q. atPath i q r \<Longrightarrow> atPath i q r'"
  | (ended) so now f d s0 s ctxErr er s' where "segStart None None None so now m chunks f d = Inr s0" "(segStep ne m (\<lambda>_. True))\<^sup>*\<^sup>* s0 s"
      "segDone s" "segResult ctxErr s = (er, s')" "res = (case er of None \<Rightarrow> Inr () | Some x \<Rightarrow> Inl x)"
      "fileData r' p = sgFile s'" "\<And>q. atPath i q r \<Longrightarrow> atPath i q r'"
proof -
  obtain o1 r1 where o1: "openFile ne False p r = (o1, r1)" by force
  have p1: "atPath i q r1 = atPath i q r" for q using calls_path(3)[of i q ne False p r] o1 by simp
  show ?thesis
  proof (cases o1)
    case (Inl er)
    then show ?thesis using assms(1) o1 failed[of er] p1 by (simp add: downloadSegmented_def)
  next
    case (Inr u)
    define te ce where "te = neFault ne (rnTick r1) CallTruncate p" and "ce = neFault ne (Suc (rnTick r1)) CallClose p"
    define so where "so = \<lparr>soDownload = dOptions (obj (rnE r1) i), soGlobal = eGlobal (rnE r1), soFallback = opts\<rparr>"
    define r2 where "r2 = tick (tick (if te = None then setFile p (truncateTo (nat (mLength m)) (fileData r1 p)) r1 else r1))"
    define s0 where "s0 = segStart None te ce so (ruNow re (rnTick r2)) m chunks (fileData r1 p) (obj (rnE r1) i)"
    have p2: "atPath i q r2 = atPath i q r" for q using p1 by (simp add: r2_def)
    have eq: "(case s0 of Inl er \<Rightarrow> Some (Inl er, r2)
        | Inr s0 \<Rightarrow> (case ruLoop re m s0 of None \<Rightarrow> None | Some s \<Rightarrow> (case segResult (ruCtx re (rnTick r2)) s of (er, s') \<Rightarrow>
            Some (case er of None \<Rightarrow> Inr () | Some x \<Rightarrow> Inl x, tick (setFile p (sgFile s') (onD i (\<lambda>_. sgD s') r2)))))) = Some (res, r')"
      using assms(1) unfolding downloadSegmented_def o1 Inr Let_def prod.case sum.case te_def[symmetric] ce_def[symmetric] so_def[symmetric]
        r2_def[symmetric] s0_def[symmetric] .
    show ?thesis
    proof (cases s0)
      case (Inl er)
      then show ?thesis using eq failed[of er] p2 by simp
    next
      case (Inr s1)
      then have n: "te = None" "ce = None" by (auto simp: s0_def segStart_def split: option.splits)
      obtain s er s' where s: "ruLoop re m s1 = Some s" "segResult (ruCtx re (rnTick r2)) s = (er, s')"
          "res = (case er of None \<Rightarrow> Inr () | Some x \<Rightarrow> Inl x)" "r' = tick (setFile p (sgFile s') (onD i (\<lambda>_. sgD s') r2))"
        using eq Inr by (auto split: option.splits prod.splits)
      have run: "(segStep ne m (\<lambda>_. True))\<^sup>*\<^sup>* s1 s" "segDone s" using assms(2) s(1) by (auto simp: schedules_def)
      have "dPath (sgD s') = dPath (sgD s1)" using s(2) segSteps_path[OF run(1)] by (auto simp: segResult_def)
      also have "s1 = segInit so (ruNow re (rnTick r2)) m chunks (fileData r1 p) (obj (rnE r1) i)" using Inr n by (simp add: s0_def segStart_def)
      then have "dPath (sgD s1) = dPath (obj (rnE r1) i)" by (simp add: segInit_def)
      also have "\<dots> = dPath (obj (rnE r2) i)" by (simp add: r2_def tick_def setFile_def)
      finally have "atPath i q r2 \<Longrightarrow> atPath i q r'" for q
        unfolding s(4) by (simp add: atPath_def onD_def obj_setD setD_def setObj_def obj_def setFile_def tick_def)
      then show ?thesis using ended[OF Inr[unfolded s0_def n] run s(2,3)] s(4) p2 by simp
    qed
  qed
qed


section \<open>What a successful run leaves in the file\<close>

text \<open>A server of the representation \<open>content\<close>: its answers carry bytes of it and state its length. Since no transfer
  here depends on a file of before, it has no reason to answer that nothing was modified. The answers to HEAD requests state
  the length and carry no body.\<close>

definition serverOf :: "netEnv \<Rightarrow> string \<Rightarrow> bool" where
  "serverOf ne content \<longleftrightarrow>
     (\<forall>opts. servesContent ne opts content \<and> statesLength ne opts content) \<and>
     (\<forall>t rq opts resp. neDo ne t rq opts = Inr resp \<longrightarrow> rsStatusCode resp \<noteq> statusNotModified)"

lemma meta_modified [simp]: "\<not> mNotModified (metaFromResponse he qe resp u opts)"
  by (simp add: metaFromResponse_def Let_def)

lemma getProbeTransfer_end:
  assumes "getProbeTransfer ne i opts m p start new resp rl r = (Inr v, r')"
  shows "v = (m, p) \<and> atPath i p r'"
proof -
  have "deferClose ne p (bindS (transferBody ne i p start opts resp rl (mLength m) (onD i (setMetadata m p) r)) (\<lambda>_ r. (Inr (m, p), r))) = (Inr v, r')"
    using assms unfolding getProbeTransfer_def Let_def by (auto split: sum.splits prod.splits)
  then have "r' = snd (deferClose ne p (bindS (transferBody ne i p start opts resp rl (mLength m) (onD i (setMetadata m p) r)) (\<lambda>_ r. (Inr (m, p), r))))"
    by simp
  then have "atPath i p r'" by (simp add: calls_path) (intro bindS_path transferBody_path atPath_set, simp_all)
  then show ?thesis using getProbeTransfer_ok[OF assms] by blast
qed

lemma getProbeStore_end:
  assumes "getProbeStore ne i rawURI opts dirOpt outOpt name p sel start new m resp rl r = (Inr v, r')"
  shows "\<exists>q. v = (m, q) \<and> atPath i q r'"
  using assms unfolding getProbeStore_def Let_def
  by (auto simp: bindS_Inr dest!: getProbeTransfer_end split: if_splits prod.splits sum.splits)

lemma getProbeAnswer_end:
  assumes "getProbeAnswer ne i rawURI opts dirOpt outOpt name p sel start new resp r = (Inr (m, q), r')" "rsStatusCode resp \<noteq> statusNotModified"
  shows "\<not> mNotModified m \<and> atPath i q r'"
proof -
  have store: "m = m0 \<and> atPath i q r'" if "getProbeStore ne i rawURI opts dirOpt outOpt name p sel start new m0 resp rl r = (Inr (m, q), r')" for m0 rl
    using getProbeStore_end[OF that] by auto
  show ?thesis using assms unfolding getProbeAnswer_def Let_def
    by (auto intro!: atPath_set dest!: store split: if_splits sum.splits)
qed

lemma downloadGET_integrity:
  assumes "serverOf ne content" "int (length content) \<le> MaxInt64" "\<not> optionBool opts ''continue''"
    and "downloadGET ne i rawURI opts r = (Inr (), r')"
  shows "\<exists>q. fileData r' q = content \<and> atPath i q r'"
proof -
  obtain m q r1 where g: "downloadSingleWithGETProbe ne i rawURI opts (optionString opts ''dir'') (optionString opts ''out'') r = (Inr (m, q), r1)"
      "(if mNotModified m then (Inr (), r1) else afterTransfer ne q m opts r1) = (Inr (), r')"
    using assms(4) unfolding downloadGET_def bindS_Inr by auto
  from getProbe_response[OF g(1)] assms(1) have m: "\<not> mNotModified m" "atPath i q r1"
    using getProbeAnswer_end unfolding serverOf_def by metis+
  have "fileData r1 q = content"
    using getProbe_stored[OF _ assms(2) _ _ g(1) m(1)] assms(1,3) unfolding serverOf_def by blast
  moreover have "r' = snd (afterTransfer ne q m opts r1)" using g(2) m(1) by (metis snd_conv)
  ultimately show ?thesis using afterTransfer_data[of r1 q content] afterTransfer_path[OF m(2)] by metis
qed


text \<open>The length a probe finds is that of the representation.\<close>

definition lengthRight :: "string \<Rightarrow> remoteMeta \<Rightarrow> bool" where
  "lengthRight content m \<longleftrightarrow> (mLength m > 0 \<longrightarrow> mLength m = int (length content)) \<and> \<not> mNotModified m"

lemma probeHead_length:
  assumes "serverOf ne content" "probeHead ne u opts p r = (Inr (a, b), r')" "a = Some m \<or> b = Some m"
  shows "lengthRight content m"
proof -
  obtain rq0 r1 where n: "newRequest ne ''HEAD'' u r = (Inr rq0, r1)"
    using assms(2) unfolding probeHead_def bindS_Inr by blast
  obtain rq r2 where c: "conditionally ne opts p (applyMetadataRequestOptions (neHttp ne) opts rq0) r1 = (rq, r2)" by force
  have meth: "rqMethod rq = ''HEAD''"
    using conditionally_method[OF c] newRequest_method[OF n] by (simp add: applyMetadataRequestOptions_def Let_def)
  have "neDo ne (rnTick r2) rq opts = Inl er \<Longrightarrow> a = None \<and> b = None" for er
    using assms(2) n c by (auto simp: probeHead_def bindS_def httpDo_def)
  then obtain resp where resp: "neDo ne (rnTick r2) rq opts = Inr resp" using assms(3) by (cases "neDo ne (rnTick r2) rq opts") auto
  have "rsStatusCode resp \<noteq> statusNotModified" using assms(1) resp unfolding serverOf_def by blast
  then have s: "isHTTPTransferSuccess (rsStatusCode resp)" "m = metaFromResponse (neHttp ne) (neQuery ne) resp u opts"
    using assms(2,3) n c resp by (auto simp: probeHead_def bindS_def httpDo_def Let_def split: if_splits)
  have "statesLength ne opts content" using assms(1) unfolding serverOf_def by blast
  from statesLength_meta[OF this resp s(1), of u] show ?thesis using meth s(2) by (simp add: lengthRight_def)
qed

lemma probeAnswer_length:
  assumes "serverOf ne content" "neDo ne t rq opts = Inr resp" "probeAnswer ne u opts h resp = Inr m"
    and "\<And>m. h = Some m \<Longrightarrow> lengthRight content m"
  shows "lengthRight content m"
proof -
  have st: "statesLength ne opts content" using assms(1) unfolding serverOf_def by blast
  define m0 where "m0 = metaFromResponse (neHttp ne) (neQuery ne) resp u opts"
  define tot where "tot = (if rsStatusCode resp = statusRangeNotSatisfiable then completeLengthFromUnsatisfiedRange resp else None)"
  note ok = assms(3)[unfolded probeAnswer_def Let_def m0_def[symmetric] tot_def[symmetric]]
  have m0: "\<not> mNotModified m0" by (simp add: m0_def)
  have head: "orHead h er = Inr m \<Longrightarrow> ?thesis" for er using assms(4) by (auto simp: orHead_def split: option.splits)
  show ?thesis
  proof (cases tot)
    case (Some n)
    then have "completeLengthFromUnsatisfiedRange resp = Some n" by (simp add: tot_def split: if_splits)
    then show ?thesis using ok Some m0 statesLength_complete[OF st assms(2)] by (auto simp: lengthRight_def)
  next
    case None
    show ?thesis
    proof (cases "isHTTPTransferSuccess (rsStatusCode resp)")
      case False
      then show ?thesis using ok None head by simp
    next
      case succ: True
      show ?thesis
      proof (cases "rsStatusCode resp = statusPartialContent")
        case False
        then show ?thesis using ok None succ m0 statesLength_meta[OF st assms(2) succ, of u] by (auto simp: m0_def lengthRight_def)
      next
        case True
        then show ?thesis
          using ok None succ m0 head statesLength_range[OF st assms(2)]
          by (auto simp: validateProbeRangeResponse_def bindR_eq_Inr lengthRight_def split: sum.splits if_splits)
      qed
    qed
  qed
qed

lemma probe_length:
  assumes "serverOf ne content" "probe ne u opts p r = (Inr m, r')"
  shows "lengthRight content m"
proof -
  obtain a h r1 where ah: "(if optionBoolDefault opts ''use-head'' True then probeHead ne u opts p r else (Inr (None, None), r)) = (Inr (a, h), r1)"
      "(case a of Some m \<Rightarrow> (Inr m, r1) | None \<Rightarrow> bindS (newRequest ne ''GET'' u r1) (\<lambda>rq0 r2.
          (case conditionally ne opts p (applyRangeRequestOptions (neHttp ne) opts (''bytes=0-'' @ Itoa metadataProbeRangeEnd) rq0) r2 of (rq, r3) \<Rightarrow>
          (case httpDo ne rq opts r3 of (Inl er, r) \<Rightarrow> (orHead h er, r)
           | (Inr resp, r) \<Rightarrow>
              (if rsStatusCode resp = statusNotModified
               then (case notModifiedMeta ne u p r of (m, r') \<Rightarrow> (Inr m, r'))
               else (probeAnswer ne u opts h resp, r)))))) = (Inr m, r')"
    using assms(2) unfolding probe_def bindS_Inr by auto
  have head: "a = Some x \<or> h = Some x \<Longrightarrow> lengthRight content x" for x
    using ah(1) probeHead_length[OF assms(1)] by (auto split: if_splits)
  show ?thesis
  proof (cases a)
    case (Some x)
    then show ?thesis using ah(2) head by auto
  next
    case None
    then obtain rq0 r2 where q0: "(case conditionally ne opts p (applyRangeRequestOptions (neHttp ne) opts (''bytes=0-'' @ Itoa metadataProbeRangeEnd) rq0) r2 of (rq, r3) \<Rightarrow>
          (case httpDo ne rq opts r3 of (Inl er, r) \<Rightarrow> (orHead h er, r)
           | (Inr resp, r) \<Rightarrow> (if rsStatusCode resp = statusNotModified then (case notModifiedMeta ne u p r of (m, r') \<Rightarrow> (Inr m, r'))
               else (probeAnswer ne u opts h resp, r)))) = (Inr m, r')"
      using ah(2) by (auto simp: bindS_Inr)
    obtain rq r3 where "conditionally ne opts p (applyRangeRequestOptions (neHttp ne) opts (''bytes=0-'' @ Itoa metadataProbeRangeEnd) rq0) r2 = (rq, r3)" by force
    then have q: "(case httpDo ne rq opts r3 of (Inl er, r) \<Rightarrow> (orHead h er, r)
           | (Inr resp, r) \<Rightarrow> (if rsStatusCode resp = statusNotModified then (case notModifiedMeta ne u p r of (m, r') \<Rightarrow> (Inr m, r'))
               else (probeAnswer ne u opts h resp, r))) = (Inr m, r')"
      using q0 by simp
    show ?thesis
    proof (cases "neDo ne (rnTick r3) rq opts")
      case (Inl er)
      then have "h = Some m" using q by (auto simp: httpDo_def orHead_def split: option.splits)
      then show ?thesis using head by blast
    next
      case (Inr resp)
      then have "rsStatusCode resp \<noteq> statusNotModified" using assms(1) unfolding serverOf_def by blast
      then have "probeAnswer ne u opts h resp = Inr m" using q Inr by (simp add: httpDo_def)
      then show ?thesis using probeAnswer_length[OF assms(1) Inr] head by blast
    qed
  qed
qed


lemma bindS_after:
  assumes "bindS x (\<lambda>_ r. afterTransfer ne q m opts r) = (Inr (), r')" "fileData (snd x) q = content \<or> fst x \<noteq> Inr ()" "atPath i q (snd x)"
  shows "fileData r' q = content \<and> atPath i q r'"
proof -
  obtain r1 where r1: "x = (Inr (), r1)" "afterTransfer ne q m opts r1 = (Inr (), r')" using assms(1) by (auto simp: bindS_Inr)
  then have "r' = snd (afterTransfer ne q m opts r1)" by simp
  then show ?thesis using r1(1) assms(2,3) afterTransfer_data[of r1 q content] afterTransfer_path[of i q r1] by simp
qed

lemma downloadSingle_end:
  assumes "serverOf ne content" "int (length content) \<le> MaxInt64" "\<not> (optionBool opts ''continue'' \<and> mAcceptRange m)"
    and "mLength m > 0 \<Longrightarrow> mLength m = int (length content)" "atPath i q r"
    and "bindS (downloadSingle ne i m q opts r) (\<lambda>_ r. afterTransfer ne q m' opts r) = (Inr (), r')"
  shows "fileData r' q = content \<and> atPath i q r'"
proof (rule bindS_after[OF assms(6)])
  show "atPath i q (snd (downloadSingle ne i m q opts r))" by (rule downloadSingle_path[OF assms(5)])
  have sc: "servesContent ne opts content" using assms(1) by (simp add: serverOf_def)
  show "fileData (snd (downloadSingle ne i m q opts r)) q = content \<or> fst (downloadSingle ne i m q opts r) \<noteq> Inr ()"
  proof (cases "fst (downloadSingle ne i m q opts r) = Inr ()")
    case True
    then have "downloadSingle ne i m q opts r = (Inr (), snd (downloadSingle ne i m q opts r))" by (metis prod.collapse)
    from downloadSingle_stored[OF sc assms(2) _ assms(4) this] assms(3) show ?thesis by blast
  qed simp
qed

lemma downloadSegmented_end:
  assumes "serverOf ne content" "int (length content) \<le> MaxInt64" "schedules ne re" "0 < mLength m" "mLength m = int (length content)"
    and "downloadSegmented ne re i m q opts (makeChunks (mLength m) n) r = Some (res, r1)" "atPath i q r"
  shows "(fileData r1 q = content \<or> res \<noteq> Inr ()) \<and> atPath i q r1"
  using assms(6,3)
proof (cases rule: downloadSegmented_cases)
  case (failed er)
  then show ?thesis using assms(7) by simp
next
  case (ended so now f d s0 s ctxErr er s')
  have served: "\<forall>opts. servesContent ne opts content" and len: "mLength m \<le> MaxInt64" using assms(1,2,5) by (auto simp: serverOf_def)
  have "sgFile s' = content" if "res = Inr ()"
  proof -
    have "segResult ctxErr s = (None, s')" using ended(4,5) that by (cases er) simp_all
    from segmented_stored[OF served assms(4) len assms(5) ended(1-3) this] show ?thesis .
  qed
  then show ?thesis using ended(6,7) assms(7) by auto
qed

lemma transferProbed_end:
  assumes "serverOf ne content" "int (length content) \<le> MaxInt64" "schedules ne re" "\<not> optionBool opts ''continue''"
    and "mLength m > 0 \<Longrightarrow> mLength m = int (length content)" "segmented \<Longrightarrow> mLength m > 0" "atPath i q r"
    and "transferProbed ne re i opts m segmented minSplit q r = Some (Inr (), r')"
  shows "fileData r' q = content \<and> atPath i q r'"
proof (cases segmented)
  case False
  then have "bindS (downloadSingle ne i m q opts r) (\<lambda>_ r. afterTransfer ne q m opts r) = (Inr (), r')"
    using assms(8) by (simp add: transferProbed_def)
  then show ?thesis using downloadSingle_end[OF assms(1,2) _ assms(5,7)] assms(4) by blast
next
  case True
  define opts' where "opts' = transportOptionsForSegmented opts"
  obtain res r1 where d: "downloadSegmented ne re i m q opts' (makeChunks (mLength m) (httpSegmentSize opts' minSplit)) r = Some (res, r1)"
      "Some (if shouldDowngradeSegmentedDownload (case res of Inl er \<Rightarrow> Some er | Inr _ \<Rightarrow> None)
        then bindS (downloadSingle ne i (m\<lparr>mAcceptRange := False\<rparr>) q opts' r1) (\<lambda>_ r. afterTransfer ne q (m\<lparr>mAcceptRange := False\<rparr>) opts' r)
        else bindS (res, r1) (\<lambda>_ r. afterTransfer ne q m opts' r)) = Some (Inr (), r')"
    using assms(8) True unfolding transferProbed_def Let_def opts'_def[symmetric] by (auto split: option.splits prod.splits if_splits)
  note e = downloadSegmented_end[OF assms(1-3) assms(6)[OF True] assms(5)[OF assms(6)[OF True]] d(1) assms(7)]
  show ?thesis
  proof (cases "shouldDowngradeSegmentedDownload (case res of Inl er \<Rightarrow> Some er | Inr _ \<Rightarrow> None)")
    case True
    then have "bindS (downloadSingle ne i (m\<lparr>mAcceptRange := False\<rparr>) q opts' r1) (\<lambda>_ r. afterTransfer ne q (m\<lparr>mAcceptRange := False\<rparr>) opts' r) = (Inr (), r')"
      using d(2) by simp
    from downloadSingle_end[OF assms(1,2) _ _ _ this] e assms(5) show ?thesis by simp
  next
    case False
    then have "bindS (res, r1) (\<lambda>_ r. afterTransfer ne q m opts' r) = (Inr (), r')" using d(2) by simp
    from bindS_after[OF this] e show ?thesis by auto
  qed
qed

lemma downloadURI_end:
  assumes "serverOf ne content" "int (length content) \<le> MaxInt64" "schedules ne re" "\<not> optionBool opts ''continue''" "\<not> optionBool opts ''dry-run''"
    and "downloadURI ne re i rawURI opts r = Some (Inr (), r')"
  shows "\<exists>q. fileData r' q = content \<and> atPath i q r'"
proof -
  consider (get) "downloadGET ne i rawURI opts r = (Inr (), r')" | (probed) sr where "downloadProbed ne re i rawURI opts sr r = Some (Inr (), r')"
    using assms(6) unfolding downloadURI_def Let_def by (auto split: if_splits)
  then show ?thesis
  proof cases
    case get
    then show ?thesis using downloadGET_integrity[OF assms(1,2,4)] by blast
  next
    case probed
    then obtain opts' p m r1 out where p: "probe ne rawURI opts' p r = (Inr m, r1)" "downloadFound ne re i opts sr m out r1 = Some (Inr (), r')"
      unfolding downloadProbed_def Let_def by (auto split: prod.splits sum.splits)
    note len = probe_length[OF assms(1) p(1)]
    define seg where "seg = segmentedProbed opts sr (optionBytes opts ''min-split-size'' 1048576) m"
    obtain q r2 where q: "transferProbed ne re i opts m seg (optionBytes opts ''min-split-size'' 1048576) q (onD i (setMetadata m q) r2) = Some (Inr (), r')"
      using p(2) len assms(5) unfolding downloadFound_def Let_def seg_def[symmetric] lengthRight_def by (auto split: prod.splits sum.splits)
    have "atPath i q (onD i (setMetadata m q) r2)" by (rule atPath_set) simp
    from transferProbed_end[OF assms(1-4) _ _ this q] len show ?thesis by (auto simp: seg_def segmentedProbed_def lengthRight_def)
  qed
qed


text \<open>A run succeeds only through a URI whose download succeeded last.\<close>

lemma tryURIs_success:
  "tryURIs ne re i ro us st r = Some (Returned None st' r') \<Longrightarrow> \<exists>u r1. downloadURI ne re i u (roOpts ro) r1 = Some (Inr (), r')"
proof (induction us arbitrary: st r)
  case (Cons u us)
  let ?r1 = "if length (roUris ro) > 1 then onD i (setURIUsed (uURI u)) (tick r) else tick r"
  have go: "ruCtx re (rnTick r) = None" "\<not> (roMaxTries ro > 0 \<and> atAttempt st \<ge> roMaxTries ro)"
    using Cons.prems by (auto split: option.splits if_splits)
  then obtain res r2 where d: "downloadURI ne re i (uURI u) (roOpts ro) ?r1 = Some (res, r2)"
    using Cons.prems by (cases "downloadURI ne re i (uURI u) (roOpts ro) ?r1") (auto simp: Let_def split: if_splits)
  from tryURIs_Cons[OF go d, of us] show ?case
  proof (elim exE conjE disjE)
    fix st3 r3 assume "tryURIs ne re i ro (u # us) st r = tryURIs ne re i ro us st3 r3"
    then show ?thesis using Cons by metis
  next
    fix st3 r3 er assume "tryURIs ne re i ro (u # us) st r = Some (Returned er st3 r3)" "er = None \<longrightarrow> res = Inr () \<and> r3 = r2"
    then show ?thesis using Cons.prems d by auto
  qed
qed simp

lemma lastError_fails: "lastError st \<noteq> None"
  by (simp add: lastError_def split: option.split)

lemma runLoop_success:
  assumes "runLoop ne re i ro st r = Some (None, st', r')"
  shows "\<exists>u r1. downloadURI ne re i u (roOpts ro) r1 = Some (Inr (), r')"
proof -
  have "\<forall>st' r'. y = (None, st', r') \<longrightarrow> (\<exists>u r1. downloadURI ne re i u (roOpts ro) r1 = Some (Inr (), r'))"
    if "runLoop ne re i ro st r = Some y" for y
  proof (rule runLoop.raw_induct[OF _ that, where P = "\<lambda>ne re i ro st r y. \<forall>st' r'. y = (None, st', r') \<longrightarrow>
      (\<exists>u r1. downloadURI ne re i u (roOpts ro) r1 = Some (Inr (), r'))"], goal_cases)
    case (1 f ne re i ro st r y)
    show ?case
    proof (cases "roMaxTries ro = 0 \<or> atAttempt st < roMaxTries ro")
      case False
      then show ?thesis using 1(2) lastError_fails[of st] by auto
    next
      case True
      then obtain x where x: "tryURIs ne re i ro (roUris ro) (st\<lparr>atRetryable := False\<rparr>) r = Some x"
          "(case x of Returned er st' r' \<Rightarrow> Some (er, st', r')
            | RoundDone st' r' \<Rightarrow> if atRetryable st' then f ne re i ro st' r' else Some (lastError st', st', r')) = Some y"
        using 1(2) by (auto split: option.splits simp: bind_eq_Some_conv)
      show ?thesis
      proof (cases x)
        case (Returned er s t)
        then show ?thesis using x tryURIs_success by auto
      next
        case (RoundDone s t)
        then show ?thesis using x(2) 1(1)[of ne re i ro s t y] lastError_fails[of s] by (auto split: if_splits)
      qed
    qed
  qed
  then show ?thesis using assms by blast
qed



text \<open>A download of one URI from the server of six bytes.\<close>

definition quietEnv :: runEnv where
  "quietEnv = \<lparr>ruLoop = (\<lambda>_ _. None), ruNow = (\<lambda>_. 0), ruCtx = (\<lambda>_. None), ruSleep = (\<lambda>_. None)\<rparr>"

lemma quietEnv_ctx: "ruCtx quietEnv t = None"
  by (simp add: quietEnv_def)

definition oneRun :: run where
  "oneRun = probeRun\<lparr>rnE := (rnE probeRun)\<lparr>eHeap := [zeroDownload\<lparr>dUris := [\<lparr>uURI = ''http://h/f'', uStatus = URIStatusWaiting\<rparr>], dCtx := Some 0\<rparr>]\<rparr>\<rparr>"

lemma empty_optionInt: "optionInt [] k n = n"
  by (simp add: optionInt_def empty_options TrimSpace_no_space)

lemma exampleNet_server: "serverOf exampleNet ''abcdef''"
proof -
  have none: "headerValues [] k = []" for k by (simp add: headerValues_def)
  have ct: "headerGet [] k = ''''" for k by (simp add: headerGet_def none)
  have "parseByteContentRange '''' = None"
    by (simp add: parseByteContentRange_def TrimSpace_no_space Fields_def fieldsFrom.simps)
  then have r: "validatePartialContentRange resp \<noteq> Inr cr" "completeLengthFromUnsatisfiedRange resp = None" if "rsHeader resp = []" for resp cr
    using that by (auto simp: validatePartialContentRange_def completeLengthFromUnsatisfiedRange_def ct split: if_splits)
  have dec: "\<not> responseBodyDecoded resp opts" if "rsHeader resp = []" for resp opts
    using that by (simp add: responseBodyDecoded_def none ct EqualFold_def)
  have hd: "rsHeader resp = []" if "resp = exampleResponse \<or> resp = headResponse" for resp
    using that by (auto simp: exampleResponse_def headResponse_def)
  have do: "neDo exampleNet t rq opts = Inr resp \<Longrightarrow> (resp = exampleResponse \<or> resp = headResponse) \<and> (rqMethod rq \<noteq> ''HEAD'' \<longrightarrow> resp = exampleResponse)"
    for t rq opts resp by (auto simp: exampleNet_simps split: if_splits)
  have st: "rsStatusCode resp = 200" "rsContentLength resp = 6" if "resp = exampleResponse \<or> resp = headResponse" for resp
    using that by (auto simp: exampleResponse_def headResponse_def)
  have "servesContent exampleNet opts ''abcdef''" for opts
    unfolding servesContent_def
  proof (intro allI impI, goal_cases)
    case (1 t rq resp)
    then have x: "resp = exampleResponse" using do by blast
    show ?case using dec[of exampleResponse] unfolding x by (auto simp: responseReader_def exampleResponse_def statusPartialContent_def)
  qed
  moreover have "statesLength exampleNet opts ''abcdef''" for opts
    unfolding statesLength_def
  proof (intro allI impI, goal_cases)
    case (1 t rq resp)
    then have x: "resp = exampleResponse \<or> resp = headResponse" using do by blast
    show ?case using st[OF x] by (simp add: r[OF hd[OF x]] dec[OF hd[OF x]] metaFromResponse_def nonNegativeLength_def Let_def)
  qed
  moreover have "rsStatusCode resp \<noteq> statusNotModified" if n: "neDo exampleNet t rq opts = Inr resp" for t rq opts resp
    using st(1)[OF conjunct1[OF do[OF n]]] by (simp add: statusNotModified_def)
  ultimately show ?thesis unfolding serverOf_def by blast
qed


text \<open>With more than one connection asked for, the server is probed with a HEAD request; it announces no ranges, so the
  transfer uses one connection.\<close>

definition headOpts :: options where
  "headOpts = [(''split'', VStr ''2'')]"

definition headRun :: run where
  "headRun = probeRun\<lparr>rnE := (rnE probeRun)\<lparr>eHeap := [zeroDownload\<lparr>dUris := [\<lparr>uURI = ''http://h/f'', uStatus = URIStatusWaiting\<rparr>],
     dOptions := headOpts, dCtx := Some 0\<rparr>]\<rparr>\<rparr>"

definition headProbeOpts :: options where
  "headProbeOpts = [(''split'', VStr ''2''), (''http-version'', VStr ''1.1'')]"

lemma headOpts_probe: "transportOptionsForSegmented headOpts = headProbeOpts"
proof -
  have "optionString headOpts ''http-version'' = ''''" by (simp add: headOpts_def optionString_def optionValue.simps optionBaseKey_def)
  moreover have "normalizeHTTPVersion '''' = ''auto''" by (simp add: normalizeHTTPVersion_def TrimSpace_no_space Let_def)
  ultimately show ?thesis
    by (simp add: transportOptionsForSegmented_def headOpts_def headProbeOpts_def optionBaseKey_def cloneOptions_def)
qed

lemma head_string:
  "k \<noteq> ''split'' \<Longrightarrow> optionString headOpts k = ''''" "k \<noteq> ''split'' \<Longrightarrow> k \<noteq> ''http-version'' \<Longrightarrow> optionString headProbeOpts k = ''''"
  "optionString headOpts ''split'' = ''2''"
proof -
  have "map_of headOpts optionBaseKey = None" "map_of headProbeOpts optionBaseKey = None" by (simp_all add: headOpts_def headProbeOpts_def optionBaseKey_def)
  note f = optionValue_flat[OF this(1)] optionValue_flat[OF this(2)]
  show "k \<noteq> ''split'' \<Longrightarrow> optionString headOpts k = ''''" "k \<noteq> ''split'' \<Longrightarrow> k \<noteq> ''http-version'' \<Longrightarrow> optionString headProbeOpts k = ''''"
    "optionString headOpts ''split'' = ''2''"
    by (simp_all add: optionString_def f) (simp_all add: headOpts_def headProbeOpts_def)
qed

lemma head_options:
  "k \<noteq> ''split'' \<Longrightarrow> \<not> optionBool headOpts k" "k \<noteq> ''split'' \<Longrightarrow> k \<noteq> ''http-version'' \<Longrightarrow> \<not> optionBool headProbeOpts k"
  "k \<noteq> ''split'' \<Longrightarrow> optionInt headOpts k n = n" "optionInt headOpts ''split'' n = 2" "k \<noteq> ''split'' \<Longrightarrow> optionBytes headOpts k 0 = 0"
  "k \<noteq> ''split'' \<Longrightarrow> k \<noteq> ''http-version'' \<Longrightarrow> optionBoolDefault headProbeOpts k c = c"
proof -
  show "k \<noteq> ''split'' \<Longrightarrow> \<not> optionBool headOpts k" "k \<noteq> ''split'' \<Longrightarrow> k \<noteq> ''http-version'' \<Longrightarrow> \<not> optionBool headProbeOpts k"
    by (simp_all add: optionBool_def head_string)
  show "k \<noteq> ''split'' \<Longrightarrow> optionInt headOpts k n = n" by (simp add: optionInt_def head_string TrimSpace_no_space)
  have "Atoi ''2'' = Some 2" by code_simp
  moreover have "TrimSpace ''2'' = ''2''" by (rule TrimSpace_plain) (simp add: plainByte_def asciiSpace_def)
  ultimately show "optionInt headOpts ''split'' n = 2" by (simp add: optionInt_def head_string Let_def)
  show "k \<noteq> ''split'' \<Longrightarrow> optionBytes headOpts k 0 = 0"
    by (simp add: optionBytes_def head_string parseSize_def parseSizeValue_def TrimSpace_no_space)
  show "k \<noteq> ''split'' \<Longrightarrow> k \<noteq> ''http-version'' \<Longrightarrow> optionBoolDefault headProbeOpts k c = c"
    by (simp add: optionBoolDefault_def optionPresent_def headProbeOpts_def optionBaseKey_def optionValue.simps)
qed

lemma head_probe:
  "probe exampleNet u headProbeOpts p r = (Inr (metaFromResponse exampleHttp plainQuery headResponse u headProbeOpts), tick r)"
proof -
  have "rsStatusCode headResponse = 200" "rsContentLength headResponse = 6" "neHttp exampleNet = exampleHttp" "neQuery exampleNet = plainQuery"
    "heNewRequest exampleHttp u = None" by (simp_all add: headResponse_def exampleResponse_def exampleNet_def exampleHttp_def)
  then show ?thesis
    by (simp add: probe_def head_options probeHead_def bindS_def newRequest_def exampleNet_simps conditionally_def applyConditionalHeaders_def httpDo_def
      applyMetadataRequestOptions_def statusNotModified_def isHTTPTransferSuccess_def isHTTPBodySuccess_def Let_def)
qed

definition headMeta :: remoteMeta where
  "headMeta = metaFromResponse exampleHttp plainQuery headResponse ''http://h/f'' headProbeOpts"

lemma headMeta_fields: "mLength headMeta = 6" "\<not> mAcceptRange headMeta" "\<not> mNotModified headMeta"
proof -
  have "rsHeader headResponse = []" "rsContentLength headResponse = 6" by (simp_all add: headResponse_def exampleResponse_def)
  moreover from this have "\<not> responseBodyDecoded headResponse headProbeOpts"
    by (simp add: responseBodyDecoded_def head_options headerGet_def headerValues_def EqualFold_def)
  ultimately show "mLength headMeta = 6" "\<not> mAcceptRange headMeta" "\<not> mNotModified headMeta"
    by (simp_all add: headMeta_def metaFromResponse_def nonNegativeLength_def hasByteRangeSupport_def headerValues_def headerGet_def Let_def)
qed

lemma head_body: "fst (copyBody exampleNet i p 0 headOpts exampleResponse (rsBody exampleResponse) (-1) 6 r) = Inr ()"
  by (simp add: copyBody_def copyCountingWithProgress_def copyWithProgress_def boundReads_def head_options exampleNet_def
    exampleResponse_def copyBufferSize_def smallCopyBufferSize_def boundEvent.simps copyRound_def writeRound_def goodRound_def
    countWrite_def startCopy_def progressFlushBytes_def flushProgress_def Let_def)

lemma head_single:
  assumes "rnFiles r q = None"
  shows "fst (downloadSingle exampleNet 0 headMeta q headOpts r) = Inr ()"
  using head_body assms
  by (simp add: downloadSingle_def singleStart_def headMeta_fields head_options openFile_def exampleNet_simps isDirectory_def
      bindS_def newRequest_def httpDo_def singleAnswer_def isHTTPBodySuccess_def case_prod_unfold
      isHTTPTransferSuccess_def statusPartialContent_def statusRangeNotSatisfiable_def transferBody_def responseReader_def
      responseBodyDecoded_def metaFromResponse_def nonNegativeLength_def deferClose_def closeFile_def joinErrors_def Let_def)

lemma head_output:
  assumes "rnFiles r = (\<lambda>_. None)" "eReservedPathsByGID (rnE r) = []" "ePathReservations (rnE r) = []" "outputPath (obj (rnE r) 0) = ''''"
  shows "\<exists>r1. probedOutput exampleNet 0 headOpts headMeta False p r = (Inr p, r1) \<and> rnFiles r1 = (\<lambda>_. None) \<and> eHeap (rnE r1) = eHeap (rnE r)"
  using assms
  by (simp add: probedOutput_def canResumeExistingOutput_def headMeta_fields resolveExistingOutputPath_def statFile_def exampleNet_simps bindS_def
      ensureDownloadDir_def fsCallS_def reservePath_def reserveOutputPath_def recordPathReservationLocked_def tick_def
      isDirectory_def case_prod_unfold Let_def)

lemma copyBody_heap: "length (eHeap (rnE (snd (copyBody ne i p off opts resp b rl want r)))) = length (eHeap (rnE r))"
  by (simp add: copyBody_def endCopy_def tick_def setFile_def onD_def setD_def setObj_def Let_def split: prod.split)

lemma head_single_heap:
  assumes "rnFiles r q = None"
  shows "length (eHeap (rnE (snd (downloadSingle exampleNet 0 headMeta q headOpts r)))) = length (eHeap (rnE r))"
  using head_body copyBody_heap assms
  by (simp add: downloadSingle_def singleStart_def headMeta_fields head_options openFile_def exampleNet_simps isDirectory_def
      bindS_def newRequest_def httpDo_def singleAnswer_def isHTTPBodySuccess_def case_prod_unfold onD_def setD_def setObj_def setFile_def tick_def
      isHTTPTransferSuccess_def statusPartialContent_def statusRangeNotSatisfiable_def transferBody_def responseReader_def
      responseBodyDecoded_def metaFromResponse_def nonNegativeLength_def deferClose_def closeFile_def joinErrors_def Let_def)

lemma head_after: "afterTransfer exampleNet q m headOpts r = (Inr (), r)"
  by (simp add: afterTransfer_def verifyChecksum_def applyRemoteTime_def head_options head_string bindS_def)

lemma head_transfer:
  assumes "rnFiles r q = None"
  shows "\<exists>r'. transferProbed exampleNet re 0 headOpts headMeta False ms q r = Some (Inr (), r') \<and> length (eHeap (rnE r')) = length (eHeap (rnE r))"
proof -
  obtain r' where r': "downloadSingle exampleNet 0 headMeta q headOpts r = (Inr (), r')" using head_single[OF assms] by (metis prod.collapse)
  then show ?thesis using head_single_heap[OF assms] by (simp add: transferProbed_def bindS_def head_after)
qed

lemma headRun_found:
  assumes "rnFiles r = (\<lambda>_. None)" "eReservedPathsByGID (rnE r) = []" "ePathReservations (rnE r) = []" "outputPath (obj (rnE r) 0) = ''''"
  shows "\<exists>r'. downloadFound exampleNet re 0 headOpts True headMeta p r = Some (Inr (), r') \<and> length (eHeap (rnE r')) = length (eHeap (rnE r))"
proof -
  obtain r1 where r1: "probedOutput exampleNet 0 headOpts headMeta False p r = (Inr p, r1)" "rnFiles r1 = (\<lambda>_. None)" "eHeap (rnE r1) = eHeap (rnE r)"
    using head_output[OF assms] by blast
  let ?r2 = "onD 0 (setMetadata headMeta p) r1"
  have "rnFiles ?r2 p = None" "length (eHeap (rnE ?r2)) = length (eHeap (rnE r))" using r1 by (simp_all add: onD_def setD_def setObj_def)
  moreover have "segmentedProbed headOpts True (optionBytes headOpts ''min-split-size'' 1048576) headMeta = False"
    by (simp add: segmentedProbed_def headMeta_fields)
  ultimately show ?thesis
    using head_transfer[of ?r2 p re "optionBytes headOpts ''min-split-size'' 1048576"] r1(1)
    by (simp add: downloadFound_def head_options headMeta_fields Let_def)
qed

lemma headRun_succeeds: "\<exists>st r'. runDownload exampleNet quietEnv 0 headRun = Some (None, st, r') \<and> length (eHeap (rnE r')) = 1"
proof -
  have d: "obj (rnE headRun) 0 = zeroDownload\<lparr>dUris := [\<lparr>uURI = ''http://h/f'', uStatus = URIStatusWaiting\<rparr>], dOptions := headOpts, dCtx := Some 0\<rparr>"
    "length (eHeap (rnE headRun)) = 1" by (simp_all add: headRun_def obj_def)
  let ?r = "tick (tick headRun)"
  have "rnFiles ?r = (\<lambda>_. None)" "eReservedPathsByGID (rnE ?r) = []" "ePathReservations (rnE ?r) = []" "outputPath (obj (rnE ?r) 0) = ''''"
    using d by (simp_all add: tick_def headRun_def probeRun_def outputPath_def obj_def zeroDownload_def)
  note f = headRun_found[OF this, of quietEnv]
  obtain p where p: "downloadProbed exampleNet quietEnv 0 ''http://h/f'' headOpts True (tick headRun) =
      downloadFound exampleNet quietEnv 0 headOpts True headMeta p ?r"
    by (simp add: downloadProbed_def headOpts_probe head_probe headMeta_def Let_def)
  obtain r' where r': "downloadFound exampleNet quietEnv 0 headOpts True headMeta p ?r = Some (Inr (), r')" "length (eHeap (rnE r')) = 1"
    using f[of p] d(2) by (auto simp: tick_def)
  then have "downloadURI exampleNet quietEnv 0 ''http://h/f'' headOpts (tick headRun) = Some (Inr (), r')"
    using p by (simp add: downloadURI_def canUseSingleGETProbe_def head_options Let_def)
  then show ?thesis using r'(2)
    by (simp add: runDownload_def runOptions_def d(1) head_options Let_def runLoop.simps[of exampleNet quietEnv] quietEnv_ctx)
qed


lemma abort_schedules: "schedules ne (quietEnv\<lparr>ruLoop := abortLoop ne\<rparr>)" "fairLoop ne (quietEnv\<lparr>ruLoop := abortLoop ne\<rparr>)"
proof -
  show "schedules ne (quietEnv\<lparr>ruLoop := abortLoop ne\<rparr>)" using abortLoop_schedule by (simp add: schedules_def)
  show "fairLoop ne (quietEnv\<lparr>ruLoop := abortLoop ne\<rparr>)" using abortLoop_ends by (simp add: fairLoop_def del: not_None_eq)
qed

theorem runDownload_returns_witness:
  "schedules exampleNet (quietEnv\<lparr>ruLoop := abortLoop exampleNet\<rparr>) \<and>
   (\<exists>er st r'. runDownload exampleNet (quietEnv\<lparr>ruLoop := abortLoop exampleNet\<rparr>) 0 oneRun = Some (er, st, r') \<and> atAttempt st \<le> 5)"
proof -
  have "dOptions (obj (rnE oneRun) 0) = []" by (simp add: oneRun_def obj_def zeroDownload_def)
  then show ?thesis
    using runDownload_returns[OF abort_schedules(2), of oneRun 0 exampleNet] abort_schedules(1) by (simp add: empty_optionInt)
qed

end
