(* ===== verification/Torrent_Run.thy ===== *)
theory Torrent_Run
  imports Http_Runner
begin

text \<open>
  The run of a torrent download (torrent_download.go): fetching a torrent from a URL, the configuration of the torrent
  client, and \<open>runTorrentDownload\<close>, which drives the client until the selected files are verified or handed over.
  The client is a third-party library: what its calls return is the environment \<open>torrentEnv\<close>.
\<close>

section \<open>Fetching a torrent\<close>

text \<open>\<open>io.ReadAll\<close>: an error other than the end of the file discards what was read.\<close>

fun readAll :: "body \<Rightarrow> string res" where
  "readAll [] = Inr ''''"
| "readAll ((data, er) # evs) =
     (case er of
        None \<Rightarrow> map_sum id (\<lambda>rest. data @ rest) (readAll evs)
      | Some x \<Rightarrow> if x = EOF then Inr data else Inl x)"

definition fetchAnswer :: "httpEnv \<Rightarrow> string \<Rightarrow> options \<Rightarrow> int \<Rightarrow> response \<Rightarrow> string res" where
  "fetchAnswer he raw opts maxSize resp =
     (if \<not> isHTTPBodySuccess (rsStatusCode resp) \<or> rsStatusCode resp = statusPartialContent
      then Inl (HttpStatusError ''GET'' raw (rsStatusCode resp) (rsStatus resp))
      else if rsContentLength resp > maxSize then Inl (torrentSizeError maxSize)
      else bindR (responseReader he resp opts) (\<lambda>body.
        bindR (readAll (limitReads (nat (maxSize + 1)) body)) (\<lambda>data.
          if int (length data) > maxSize then Inl (torrentSizeError maxSize) else Inr data)))"

definition fetchTorrentURLOnce :: "netEnv \<Rightarrow> string \<Rightarrow> options \<Rightarrow> int \<Rightarrow> run \<Rightarrow> string res \<times> run" where
  "fetchTorrentURLOnce ne raw opts maxSize r =
     bindS (newRequest ne ''GET'' raw r) (\<lambda>rq r.
     bindS (httpDo ne (applyRequestOptions (neHttp ne) opts rq) opts r) (\<lambda>resp r.
       (fetchAnswer (neHttp ne) raw opts maxSize resp, r)))"

text \<open>The loop of \<open>fetchTorrentURL\<close>: the result, the number of attempts and the run.\<close>

partial_function (option) fetchLoop ::
    "netEnv \<Rightarrow> runEnv \<Rightarrow> string \<Rightarrow> options \<Rightarrow> int \<Rightarrow> int \<Rightarrow> int \<Rightarrow> int \<Rightarrow> err option \<Rightarrow> run \<Rightarrow> (string res \<times> int \<times> run) option" where
  "fetchLoop ne re raw opts maxSize maxTries retryWait attempt lastErr r =
     (if maxTries = 0 \<or> attempt < maxTries then
        (case ruCtx re (rnTick r) of
           Some er \<Rightarrow> Some (Inl er, attempt, r)
         | None \<Rightarrow>
            (case fetchTorrentURLOnce ne raw opts maxSize r of
               (Inr data, r1) \<Rightarrow> Some (Inr data, attempt + 1, r1)
             | (Inl er, r1) \<Rightarrow>
                (if isTorrentSizeError er then Some (Inl er, attempt + 1, r1)
                 else if \<not> isRetryableDownloadError (Some er) then Some (Inl er, attempt + 1, r1)
                 else if retryWait > 0 \<and> (maxTries = 0 \<or> attempt + 1 < maxTries)
                 then (case ruSleep re (rnTick r1) of
                     Some x \<Rightarrow> Some (Inl x, attempt + 1, r1)
                   | None \<Rightarrow> fetchLoop ne re raw opts maxSize maxTries retryWait (attempt + 1) (Some er) (tick r1))
                 else fetchLoop ne re raw opts maxSize maxTries retryWait (attempt + 1) (Some er) r1)))
      else Some (case lastErr of Some er \<Rightarrow> Inl er | None \<Rightarrow> Inr '''', attempt, r))"

definition fetchTries :: "options \<Rightarrow> int" where
  "fetchTries opts = (let n = optionInt opts ''max-tries'' 5 in if n < 0 then 1 else n)"

definition fetchTorrentURL :: "netEnv \<Rightarrow> runEnv \<Rightarrow> sysEnv \<Rightarrow> string \<Rightarrow> options \<Rightarrow> run \<Rightarrow> (string res \<times> int \<times> run) option" where
  "fetchTorrentURL ne re env raw opts r =
     (case validateHTTPURI env raw of
        Inl er \<Rightarrow> Some (Inl er, 0, r)
      | Inr _ \<Rightarrow>
         fetchLoop ne re raw opts (torrentSizeLimit opts) (fetchTries opts)
           (wrap64 (optionInt opts ''retry-wait'' 0 * second)) 0 None r)"

lemma map_sum_Inr_iff: "map_sum f g s = Inr y \<longleftrightarrow> (\<exists>x. s = Inr x \<and> y = g x)"
  by (cases s) auto

lemma readAll_data: "readAll b = Inr data \<Longrightarrow> data = bodyData b"
proof (induction b arbitrary: data)
  case (Cons ev b)
  obtain d er where ev: "ev = (d, er)" by (cases ev)
  show ?case
  proof (cases er)
    case None
    then show ?thesis using Cons ev by (auto simp: map_sum_Inr_iff)
  next
    case (Some x)
    then show ?thesis using Cons.prems ev by (simp split: if_splits)
  qed
qed simp

lemma limitReads_take: "bodyData (limitReads n b) = take n (bodyData b)"
proof (induction n b rule: limitReads.induct)
  case (2 n data er evs)
  then show ?case by (auto simp: min_def)
qed simp

lemma fetchAnswer_data:
  assumes "fetchAnswer he raw opts maxSize resp = Inr data"
  shows "int (length data) \<le> maxSize \<and> (\<exists>body. responseReader he resp opts = Inr body \<and> data = bodyData body)"
proof -
  obtain body where body: "responseReader he resp opts = Inr body"
    "readAll (limitReads (nat (maxSize + 1)) body) = Inr data" "int (length data) \<le> maxSize"
    using assms by (auto simp: fetchAnswer_def bindR_eq_Inr split: if_splits)
  have "data = take (nat (maxSize + 1)) (bodyData body)" using readAll_data[OF body(2)] by (simp add: limitReads_take)
  then have "data = bodyData body" using body(3) by (cases "length (bodyData body) \<le> nat (maxSize + 1)") (auto split: if_splits)
  then show ?thesis using body by blast
qed

text \<open>A fetch with a bound on its tries returns, makes no more attempts than that, and what it returns is the complete body
  of an answer within the size limit.\<close>

lemma fetchLoop_bounded:
  assumes "0 < maxTries" "attempt < maxTries"
  shows "\<exists>res n r'. fetchLoop ne re raw opts maxSize maxTries retryWait attempt lastErr r = Some (res, n, r') \<and> n \<le> maxTries \<and>
    (\<forall>data. res = Inr data \<longrightarrow> (\<exists>resp body t rq. neDo ne t rq opts = Inr resp \<and> responseReader (neHttp ne) resp opts = Inr body \<and>
       data = bodyData body \<and> int (length data) \<le> maxSize))"
  using assms(2)
proof (induction "nat (maxTries - attempt)" arbitrary: attempt lastErr r rule: less_induct)
  case less
  show ?case
  proof (cases "ruCtx re (rnTick r)")
    case (Some er)
    then show ?thesis using less.prems by (subst fetchLoop.simps) auto
  next
    case live: None
    obtain res r1 where once: "fetchTorrentURLOnce ne raw opts maxSize r = (res, r1)" by (cases "fetchTorrentURLOnce ne raw opts maxSize r")
    show ?thesis
    proof (cases res)
      case (Inr data)
      then obtain resp t rq where resp: "neDo ne t rq opts = Inr resp" "fetchAnswer (neHttp ne) raw opts maxSize resp = Inr data"
        using once by (auto simp: fetchTorrentURLOnce_def bindS_def httpDo_def split: prod.splits sum.splits)
      then show ?thesis using Inr live once less.prems fetchAnswer_data[OF resp(2)] by (subst fetchLoop.simps) fastforce
    next
      case (Inl er)
      show ?thesis
      proof (cases "isTorrentSizeError er \<or> \<not> isRetryableDownloadError (Some er) \<or>
          (retryWait > 0 \<and> attempt + 1 < maxTries \<and> ruSleep re (rnTick r1) \<noteq> None)")
        case True
        then show ?thesis using Inl live once less.prems assms(1) by (subst fetchLoop.simps) (auto split: option.splits)
      next
        case False
        define r2 where "r2 = (if retryWait > 0 \<and> attempt + 1 < maxTries then tick r1 else r1)"
        have next_loop: "fetchLoop ne re raw opts maxSize maxTries retryWait attempt lastErr r =
            fetchLoop ne re raw opts maxSize maxTries retryWait (attempt + 1) (Some er) r2"
          using False Inl live once less.prems assms(1) by (subst fetchLoop.simps) (auto simp: r2_def split: option.splits)
        show ?thesis
        proof (cases "attempt + 1 < maxTries")
          case True
          then show ?thesis using less.hyps[of "attempt + 1" "Some er" r2] next_loop by simp
        next
          case False
          then have "fetchLoop ne re raw opts maxSize maxTries retryWait (attempt + 1) (Some er) r2 = Some (Inl er, attempt + 1, r2)"
            using less.prems assms(1) by (subst fetchLoop.simps) auto
          then show ?thesis using next_loop less.prems by auto
        qed
      qed
    qed
  qed
qed


section \<open>The configuration of the torrent client\<close>

text \<open>The fields of \<open>torrent.ClientConfig\<close> the code sets.\<close>

record torrentConfig =
  tcDataDir :: string
  tcNoDefaultPortForwarding :: bool
  tcBep20 :: string
  tcHTTPUserAgent :: string
  tcClientVersion :: string
  tcNoUpload :: bool
  tcDisableSmartBanning :: bool
  tcNoDHT :: bool
  tcDisableTrackers :: bool
  tcDisablePEX :: bool
  tcDisableUTP :: bool
  tcDisableIPv6 :: bool
  tcEstablishedConns :: int
  tcPeersHighWater :: int
  tcPeersLowWater :: int
  tcUploadRate :: "int option"
  tcDownloadRate :: "int option"
  tcListenPort :: int
  tcListenHost :: "string option"

definition applyTorrentClientIdentityOptions :: "options \<Rightarrow> torrentConfig \<Rightarrow> torrentConfig res" where
  "applyTorrentClientIdentityOptions opts cfg =
     (let profile0 = ToLower (TrimSpace (optionString opts ''goaria-torrent-peer-profile''));
          profile = (if profile0 = '''' then ''qbittorrent'' else profile0) in
      bindR
        (if profile = ''qbittorrent'' \<or> profile = ''qbt'' \<or> profile = ''qbit''
         then Inr (cfg\<lparr>tcBep20 := ''-qB5200-'', tcHTTPUserAgent := ''qBittorrent/5.2.0'', tcClientVersion := ''qBittorrent/5.2.0''\<rparr>)
         else if profile = ''native'' \<or> profile = ''anacrolix'' \<or> profile = ''goaria''
         then Inr (if optionString opts ''user-agent'' \<noteq> '''' then cfg\<lparr>tcHTTPUserAgent := optionString opts ''user-agent''\<rparr> else cfg)
         else Inl (Errorf ''invalid goaria-torrent-peer-profile %q'' [profile]))
        (\<lambda>cfg1.
          (let bep20 = optionString opts ''goaria-torrent-bep20-prefix'' in
           if bep20 \<noteq> '''' \<and> length bep20 > 20
           then Inl (Errorf ''goaria-torrent-bep20-prefix too long: %d bytes'' [Itoa (int (length bep20))])
           else
             (let cfg2 = (if bep20 \<noteq> '''' then cfg1\<lparr>tcBep20 := bep20\<rparr> else cfg1);
                  userAgent = optionString opts ''goaria-torrent-user-agent'';
                  cfg3 = (if userAgent \<noteq> '''' then cfg2\<lparr>tcHTTPUserAgent := userAgent\<rparr> else cfg2);
                  version = optionString opts ''goaria-torrent-client-version'' in
              Inr (if version \<noteq> '''' then cfg3\<lparr>tcClientVersion := version\<rparr> else cfg3)))))"

definition applyTorrentPeerDiscoveryOptions :: "options \<Rightarrow> bool \<Rightarrow> torrentConfig \<Rightarrow> torrentConfig" where
  "applyTorrentPeerDiscoveryOptions opts privateTorrent cfg =
     (let cfg1 = cfg\<lparr>tcNoDHT := optionBool opts ''goaria-disable-dht'', tcDisableTrackers := optionBool opts ''goaria-disable-trackers'',
            tcDisablePEX := optionBool opts ''goaria-disable-pex''\<rparr> in
      if \<not> privateTorrent then cfg1
      else
        (let cfg2 = (if \<not> optionExplicit opts ''goaria-disable-dht'' then cfg1\<lparr>tcNoDHT := True\<rparr> else cfg1) in
         if \<not> optionExplicit opts ''goaria-disable-pex'' then cfg2\<lparr>tcDisablePEX := True\<rparr> else cfg2))"

definition applyTorrentRateLimitOptions :: "options \<Rightarrow> torrentConfig \<Rightarrow> torrentConfig" where
  "applyTorrentRateLimitOptions opts cfg =
     (let uploadLimit = optionBytes opts ''max-upload-limit'' 0;
          cfg1 = (if uploadLimit > 0 then cfg\<lparr>tcUploadRate := Some uploadLimit\<rparr> else cfg);
          own = optionBytes opts ''max-download-limit'' 0;
          overallLimit = optionBytes opts ''max-overall-download-limit'' 0;
          downloadLimit = (if overallLimit > 0 \<and> (own \<le> 0 \<or> overallLimit < own) then overallLimit else own) in
      if downloadLimit > 0 then cfg1\<lparr>tcDownloadRate := Some downloadLimit\<rparr> else cfg1)"

text \<open>The parts of \<open>runTorrentDownload\<close> that fill the configuration; \<open>cfg\<close> is the library's default.\<close>

definition applyTorrentSharingOptions :: "options \<Rightarrow> torrentConfig \<Rightarrow> torrentConfig" where
  "applyTorrentSharingOptions opts cfg =
     (let cfg1 = (if optionBool opts ''goaria-torrent-no-upload'' then cfg\<lparr>tcNoUpload := True\<rparr> else cfg) in
      if optionBool opts ''goaria-torrent-disable-smart-ban'' then cfg1\<lparr>tcDisableSmartBanning := True\<rparr> else cfg1)"

definition applyTorrentConnectionOptions :: "options \<Rightarrow> torrentConfig \<Rightarrow> torrentConfig" where
  "applyTorrentConnectionOptions opts cfg =
     (let cfg1 = cfg\<lparr>tcDisableUTP := optionBool opts ''disable-utp'' \<or> optionBool opts ''goaria-disable-utp'',
                tcDisableIPv6 := optionBool opts ''disable-ipv6''\<rparr>;
          maxPeers = optionInt opts ''bt-max-peers'' 0;
          cfg2 = (if maxPeers > 0
                  then cfg1\<lparr>tcEstablishedConns := maxPeers, tcPeersHighWater := maxPeers, tcPeersLowWater := maxPeers div 2\<rparr> else cfg1);
          cfg3 = (applyTorrentRateLimitOptions opts cfg2)\<lparr>tcListenPort := optionInt opts ''listen-port'' 0\<rparr>;
          host = optionString opts ''goaria-listen-host'' in
      if host \<noteq> '''' then cfg3\<lparr>tcListenHost := Some host\<rparr> else cfg3)"

definition torrentClientConfig :: "options \<Rightarrow> bool \<Rightarrow> string \<Rightarrow> torrentConfig \<Rightarrow> torrentConfig res" where
  "torrentClientConfig opts privateTorrent dir cfg =
     bindR (applyTorrentClientIdentityOptions opts (cfg\<lparr>tcDataDir := dir, tcNoDefaultPortForwarding := True\<rparr>)) (\<lambda>cfg1.
       Inr (applyTorrentConnectionOptions opts (applyTorrentPeerDiscoveryOptions opts privateTorrent (applyTorrentSharingOptions opts cfg1))))"

text \<open>A private torrent finds no peers through the DHT or peer exchange unless the download itself says so: a global option
  cannot turn them on.\<close>

lemma rateLimit_discovery [simp]:
  "tcNoDHT (applyTorrentRateLimitOptions opts c) = tcNoDHT c" "tcDisablePEX (applyTorrentRateLimitOptions opts c) = tcDisablePEX c"
  by (simp_all add: applyTorrentRateLimitOptions_def Let_def)

lemma peerDiscovery_private:
  "optionExplicit opts ''goaria-disable-dht'' \<or> tcNoDHT (applyTorrentPeerDiscoveryOptions opts True c)"
  "optionExplicit opts ''goaria-disable-pex'' \<or> tcDisablePEX (applyTorrentPeerDiscoveryOptions opts True c)"
  by (simp_all add: applyTorrentPeerDiscoveryOptions_def Let_def)

lemma connection_discovery:
  "tcNoDHT (applyTorrentConnectionOptions opts c) = tcNoDHT c" "tcDisablePEX (applyTorrentConnectionOptions opts c) = tcDisablePEX c"
  by (simp_all add: applyTorrentConnectionOptions_def Let_def)

lemma private_discovery:
  assumes "torrentClientConfig opts True dir def = Inr cfg"
  shows "(optionExplicit opts ''goaria-disable-dht'' \<or> tcNoDHT cfg) \<and> (optionExplicit opts ''goaria-disable-pex'' \<or> tcDisablePEX cfg)"
proof -
  obtain c where "cfg = applyTorrentConnectionOptions opts (applyTorrentPeerDiscoveryOptions opts True c)"
    using assms by (auto simp: torrentClientConfig_def bindR_eq_Inr)
  then show ?thesis using peerDiscovery_private[of opts c] by (simp add: connection_discovery)
qed


text \<open>What the client calls back: opening the storage of a torrent, which the storage behind it only sees when its metadata is
  valid; a failed write, which ends the run with a cause unless it was cancelled; and the request of a web seed.\<close>

definition OpenTorrent :: "(Info \<Rightarrow> string \<Rightarrow> 'a res) \<Rightarrow> Info \<Rightarrow> string \<Rightarrow> 'a res" where
  "OpenTorrent delegate info infoHash =
     (case validateTorrentInfo info of
        Inl er \<Rightarrow> Inl (ErrWrap ''invalid torrent metadata: %w'' er)
      | Inr _ \<Rightarrow> delegate info infoHash)"

definition writeChunkError :: "err \<Rightarrow> err option" where
  "writeChunkError er = (if errIs er ContextCanceled then None else Some (ErrWrap ''torrent write chunk error: %w'' er))"

definition applyWebSeedRequestOptions :: "httpEnv \<Rightarrow> options \<Rightarrow> request \<Rightarrow> request" where
  "applyWebSeedRequestOptions he opts rq =
     (let rangeHeader = headerGet (rqHeader rq) ''Range'';
          rq1 = applyRequestOptions he opts rq;
          rq2 = rq1\<lparr>rqHeader := headerDel ''Range'' (rqHeader rq1)\<rparr>;
          rq3 = (if rangeHeader \<noteq> '''' then setHeader ''Range'' rangeHeader rq2 else rq2) in
      setHeader ''Accept-Encoding'' ''identity'' rq3)"

text \<open>Whatever headers the options of a download set, a web seed is asked for the range the torrent client chose, unencoded.\<close>

lemma webSeed_range:
  "headerGet (rqHeader (applyWebSeedRequestOptions he opts rq)) ''Range'' = headerGet (rqHeader rq) ''Range''"
  "headerGet (rqHeader (applyWebSeedRequestOptions he opts rq)) ''Accept-Encoding'' = ''identity''"
proof -
  have ne: "canonicalHeaderKey ''Range'' \<noteq> canonicalHeaderKey ''Accept-Encoding''" by code_simp
  show "headerGet (rqHeader (applyWebSeedRequestOptions he opts rq)) ''Range'' = headerGet (rqHeader rq) ''Range''"
    using ne by (simp add: applyWebSeedRequestOptions_def setHeader_def headerGet_def headerValues_def headerSet_def headerDel_def
        AList.update_conv' AList.delete_conv' Let_def)
  show "headerGet (rqHeader (applyWebSeedRequestOptions he opts rq)) ''Accept-Encoding'' = ''identity''"
    by (simp add: applyWebSeedRequestOptions_def setHeader_def headerGet_def headerValues_def headerSet_def AList.update_conv' Let_def)
qed

lemma OpenTorrent_valid: "OpenTorrent delegate info h = Inr x \<Longrightarrow> validateTorrentInfo info = Inr () \<and> delegate info h = Inr x"
  by (auto simp: OpenTorrent_def split: sum.splits)

section \<open>The run\<close>

text \<open>What the library reports of a live torrent at some moment.\<close>

record liveView =
  lvStats :: torrentStats
  lvSnapshots :: "fileSnapshot list"
  lvRuns :: "pieceRun list"
  lvSeeding :: bool

text \<open>The outcome of one callback of \<open>stream.Files\<close>: the file, the error of the context before the handler, of the handler, of
  releasing the lease after it failed; whether the lease is finalized when the callback starts to wait, at the ticks while it
  waits and, with the error of the context, when the context ends after these ticks; and what the torrent reports meanwhile.\<close>

record leaseRun =
  lrIndex :: nat
  lrCtxErr :: "err option"
  lrHandlerErr :: "err option"
  lrReleaseErr :: "err option"
  lrFinalized :: bool
  lrPolls :: "bool list"
  lrEnd :: "bool \<times> err"
  lrBefore :: liveView
  lrAfter :: liveView

text \<open>
  \<open>teDone\<close> is the cause of the context when it is cancelled before the metadata is there, \<open>teTicks\<close> what the progress
  goroutine reads, with the time of each tick, \<open>teLeases\<close> the callbacks in the order in which they end and \<open>teStream\<close> the result
  of \<open>stream.Files\<close>, \<open>teWait k\<close> the result of waiting for file \<open>k\<close> and \<open>teCause k\<close> the cause of the context after it.
\<close>

record torrentEnv =
  teLib :: torrentLib
  teKey :: "string \<Rightarrow> string res"
  teHandler :: bool
  teDefault :: torrentConfig
  tePrivate :: "Info \<Rightarrow> bool"
  teNewClient :: "torrentConfig \<Rightarrow> err option"
  teSpecFromMetaInfo :: "MetaInfo \<Rightarrow> TorrentSpec res"
  teTrackers :: "TorrentSpec \<Rightarrow> string list list"
  teAddSpec :: "TorrentSpec \<Rightarrow> string list list \<Rightarrow> err option"
  teMergePeers :: "string list \<Rightarrow> err option"
  teDone :: "err option"
  teMeta :: MetaInfo
  teInfo :: "Info res"
  teInfoHash :: string
  teEncoded :: "string option"
  teInitial :: liveView
  teTicks :: "(liveView \<times> int) list"
  teLeases :: "leaseRun list"
  teStream :: "err option"
  teFileCount :: nat
  teWait :: "nat \<Rightarrow> err option"
  teAfterWait :: "nat \<Rightarrow> liveView"
  teCause :: "nat \<Rightarrow> err option"
  teEndCause :: "err option"
  teFinal :: liveView

datatype torrentEvent = PathsReserved | FileRequested nat | FileVerified nat | FileHandled nat | SaveQueued | BtComplete

record torrentRun =
  trE :: Engine
  trEvents :: "torrentEvent list"

definition emit :: "torrentEvent \<Rightarrow> torrentRun \<Rightarrow> torrentRun" where
  "emit ev s = s\<lparr>trEvents := trEvents s @ [ev]\<rparr>"

definition onTorrent :: "nat \<Rightarrow> (Download \<Rightarrow> Download) \<Rightarrow> torrentRun \<Rightarrow> torrentRun" where
  "onTorrent i f s = s\<lparr>trE := setD i f (trE s)\<rparr>"

definition progressFrom :: "liveView \<Rightarrow> Download \<Rightarrow> int \<times> Download" where
  "progressFrom v d = updateTorrentProgress (lvStats v) (lvSnapshots v) (lvRuns v) (lvSeeding v) d"

definition updateFrom :: "nat \<Rightarrow> liveView \<Rightarrow> torrentRun \<Rightarrow> torrentRun" where
  "updateFrom i v s = onTorrent i (\<lambda>d. snd (progressFrom v d)) s"

text \<open>A tick of the progress goroutine of \<open>startTorrentProgress\<close>: what was completed at the last tick and its time. The ticks of a
  run are taken before its transfer; each of them only rewrites the counters of the download.\<close>

definition progressTick :: "nat \<Rightarrow> liveView \<times> int \<Rightarrow> (int \<times> int) \<times> torrentRun \<Rightarrow> (int \<times> int) \<times> torrentRun" where
  "progressTick i tk st =
     (let (v, now) = tk; ((lastCompleted, lastAt), s) = st;
          (completed, d) = progressFrom v (obj (trE s) i);
          elapsed = wrap64 (now - lastAt);
          delta = max 0 (wrap64 (completed - lastCompleted)) in
      ((completed, now),
       onTorrent i (\<lambda>_. if elapsed > 0 then d\<lparr>dDownloadBPS := bytesPerSecond delta elapsed\<rparr> else d) s))"

definition startTorrentProgress :: "torrentEnv \<Rightarrow> nat \<Rightarrow> int \<Rightarrow> torrentRun \<Rightarrow> torrentRun" where
  "startTorrentProgress te i now s =
     (let (completed, d) = progressFrom (teInitial te) (obj (trE s) i) in
      snd (fold (progressTick i) (teTicks te) ((completed, now), onTorrent i (\<lambda>_. d) s)))"

text \<open>Up to the torrent being added: the configuration, the specification and the web seeds.\<close>

definition extractTorrentWebSeedURLs :: "TorrentSpec \<Rightarrow> uriInfo list \<Rightarrow> string list res \<times> TorrentSpec" where
  "extractTorrentWebSeedURLs spec uris = (mergeTorrentWebSeedURLs (tsWebseeds spec) uris, spec\<lparr>tsWebseeds := []\<rparr>)"

definition optErr :: "err option \<Rightarrow> unit res" where
  "optErr x = (case x of None \<Rightarrow> Inr () | Some er \<Rightarrow> Inl er)"

definition startTorrent :: "torrentEnv \<Rightarrow> Download \<Rightarrow> (torrentConfig \<times> TorrentSpec \<times> string list list \<times> string list) res" where
  "startTorrent te d =
     (let opts = dOptions d in
      bindR (if dTorrentMagnet d = '''' then map_sum id (\<lambda>(mi, info). (Some mi, tePrivate te info)) (torrentMetaInfo (teLib te) (dTorrentData d))
             else Inr (None, False)) (\<lambda>(mi, privateTorrent).
      bindR (torrentClientConfig opts privateTorrent (dDir d) (teDefault te)) (\<lambda>cfg.
      bindR (optErr (teNewClient te cfg)) (\<lambda>_.
      bindR (case mi of None \<Rightarrow> tlSpecFromMagnet (teLib te) (dTorrentMagnet d) | Some m \<Rightarrow> teSpecFromMetaInfo te m) (\<lambda>spec.
        (let trackers = applyTorrentTrackerOptions (teTrackers te spec) opts in
         bindR (fst (extractTorrentWebSeedURLs spec (dUris d))) (\<lambda>webSeedURLs.
           (let spec' = ensureTorrentSpecShortInfoHash (snd (extractTorrentWebSeedURLs spec (dUris d))); peers = optionStringList opts ''goaria-peer-addrs'' in
            bindR (optErr (teAddSpec te spec' trackers)) (\<lambda>_.
            bindR (if peers \<noteq> [] then optErr (teMergePeers te peers) else Inr ()) (\<lambda>_.
              Inr (cfg, spec', trackers, webSeedURLs)))))))))))"

text \<open>A callback of \<open>stream.Files\<close> in \<open>processCompletedTorrentFiles\<close>.\<close>

definition runtimeOf :: "Download \<Rightarrow> torrentRuntime" where
  "runtimeOf d = (case dTorrent d of None \<Rightarrow> \<lparr>rtTorrent = False, rtSelection = True, rtSelected = [], rtCompleted = [], rtClosed = False\<rparr> | Some rt \<Rightarrow> rt)"

definition handleCompletedTorrentFile :: "nat \<Rightarrow> leaseRun \<Rightarrow> torrentRun \<Rightarrow> err option \<times> torrentRun" where
  "handleCompletedTorrentFile i l s =
     (case lrCtxErr l of
        Some er \<Rightarrow> (Some er, s)
      | None \<Rightarrow>
         (case lrHandlerErr l of
            Some er \<Rightarrow> (Some (ErrJoin (er # (case lrReleaseErr l of None \<Rightarrow> [] | Some x \<Rightarrow> [x]))), updateFrom i (lrAfter l) s)
          | None \<Rightarrow> (None, s)))"

fun waitPolls :: "bool list \<Rightarrow> bool \<times> err \<Rightarrow> err option" where
  "waitPolls [] (finalized, er) = (if finalized then None else Some er)"
| "waitPolls (finalized # polls) x = (if finalized then None else waitPolls polls x)"

definition waitTorrentFileLeaseFinalized :: "leaseRun \<Rightarrow> err option" where
  "waitTorrentFileLeaseFinalized l = (if lrFinalized l then None else waitPolls (lrPolls l) (lrEnd l))"

definition leaseCallback :: "nat \<Rightarrow> leaseRun \<Rightarrow> torrentRun \<Rightarrow> err option \<times> torrentRun" where
  "leaseCallback i l s0 =
     (case handleCompletedTorrentFile i l (updateFrom i (lrBefore l) s0) of
        (Some er, s) \<Rightarrow> (Some er, s)
      | (None, s) \<Rightarrow>
         (case waitTorrentFileLeaseFinalized l of
            Some er \<Rightarrow> (Some er, s)
          | None \<Rightarrow>
             (let d = obj (trE s) i in
              (case markTorrentFileFinalized (case dTorrent d of None \<Rightarrow> None | Some rt \<Rightarrow> if rtTorrent rt then Some (lvRuns (lrAfter l)) else None)
                      (int (lrIndex l)) (d, runtimeOf d) of
                 Inl er \<Rightarrow> (Some er, s)
               | Inr (save, d', rt) \<Rightarrow>
                  (let s1 = onTorrent i (\<lambda>_. d'\<lparr>dTorrent := map_option (\<lambda>_. rt) (dTorrent d')\<rparr>) s;
                       s2 = (if save then emit SaveQueued s1 else s1) in
                   (None, emit (FileHandled (lrIndex l)) (updateFrom i (lrAfter l) s2)))))))"

definition processCompletedTorrentFiles :: "torrentEnv \<Rightarrow> nat \<Rightarrow> torrentRun \<Rightarrow> err option \<times> torrentRun" where
  "processCompletedTorrentFiles te i s =
     (let d = obj (trE s) i; indexes = selectedTorrentFileIndexesFromStates (dTorrentFiles d) (dTorrentFinalized d) in
      if indexes = [] then (None, s)
      else
        (let open_sel = (\<lambda>rt. rt\<lparr>rtSelection := True, rtSelected := map int indexes, rtCompleted := [], rtClosed := False\<rparr>);
             s1 = onTorrent i (\<lambda>d. d\<lparr>dTorrent := map_option open_sel (dTorrent d)\<rparr>) s;
             s2 = fold (\<lambda>l s. snd (leaseCallback i l s)) (teLeases te) s1;
             close_sel = (\<lambda>rt. (closeSelectionLocked rt)\<lparr>rtSelection := False, rtSelected := [], rtCompleted := []\<rparr>) in
         (teStream te, onTorrent i (\<lambda>d. d\<lparr>dTorrent := map_option close_sel (dTorrent d)\<rparr>) s2)))"

fun waitSelected :: "torrentEnv \<Rightarrow> nat \<Rightarrow> nat list \<Rightarrow> torrentRun \<Rightarrow> err option \<times> torrentRun" where
  "waitSelected te i [] s = (None, s)"
| "waitSelected te i (k # ks) s =
     (case teWait te k of
        Some er \<Rightarrow> (Some (case teCause te k of Some cause \<Rightarrow> cause | None \<Rightarrow> er), s)
      | None \<Rightarrow> waitSelected te i ks (emit (FileVerified k) (updateFrom i (teAfterWait te k) s)))"

definition completeTorrent :: "nat \<Rightarrow> torrentRun \<Rightarrow> torrentRun" where
  "completeTorrent i s = emit BtComplete (s\<lparr>trE := notify ''aria2.onBtDownloadComplete'' (dGid (obj (trE s) i)) (trE s)\<rparr>)"

text \<open>Once the output paths are reserved: the transfer, without the deferred end of the progress goroutine.\<close>

definition transferTorrent :: "torrentEnv \<Rightarrow> nat \<Rightarrow> torrentRun \<Rightarrow> err option \<times> torrentRun" where
  "transferTorrent te i s =
     (let selected = selectedTorrentFiles (obj (trE s) i) [0..<teFileCount te] in
      if teHandler te then
        (case processCompletedTorrentFiles te i s of
           (Some er, s1) \<Rightarrow> (Some (case teEndCause te of Some cause \<Rightarrow> cause | None \<Rightarrow> er), s1)
         | (None, s1) \<Rightarrow> (case teEndCause te of Some cause \<Rightarrow> (Some cause, s1) | None \<Rightarrow> (None, completeTorrent i s1)))
      else
        (let s1 = fold (\<lambda>k s. emit (FileRequested k) s) selected s in
         if selected = [] then (None, completeTorrent i s1)
         else
           (case waitSelected te i selected s1 of
              (Some er, s2) \<Rightarrow> (Some er, s2)
            | (None, s2) \<Rightarrow> (case teEndCause te of Some cause \<Rightarrow> (Some cause, s2) | None \<Rightarrow> (None, completeTorrent i s2)))))"

text \<open>Up to the metadata being there, with the files released before taken over.\<close>

definition readyTorrent :: "torrentEnv \<Rightarrow> nat \<Rightarrow> torrentRun \<Rightarrow> err option \<times> torrentRun" where
  "readyTorrent te i s =
     (let d = obj (trE s) i in
      if dCtx d = None then (Some ContextCanceled, s)
      else
        (case startTorrent te d of
           Inl er \<Rightarrow> (Some er, s)
         | Inr _ \<Rightarrow>
            (let s1 = onTorrent i (\<lambda>d. d\<lparr>dTorrent := Some \<lparr>rtTorrent = True, rtSelection = False, rtSelected = [], rtCompleted = [], rtClosed = False\<rparr>\<rparr>) s in
             case teDone te of
               Some cause \<Rightarrow> (Some cause, s1)
             | None \<Rightarrow>
                (case refreshTorrentMetadata (teLib te) (teKey te) (teMeta te) (teInfo te) (lvRuns (teInitial te)) (teInfoHash te) (teEncoded te) (obj (trE s1) i) of
                   Inl er \<Rightarrow> (Some er, s1)
                 | Inr d2 \<Rightarrow>
                    (if teHandler te
                     then (case reconcileReleasedTorrentFiles (lvSnapshots (teInitial te)) d2 of (changed, d3) \<Rightarrow>
                       (None, if changed then emit SaveQueued (onTorrent i (\<lambda>_. d3) s1) else onTorrent i (\<lambda>_. d2) s1))
                     else (None, onTorrent i (\<lambda>_. d2) s1))))))"

definition runTorrentDownload :: "torrentEnv \<Rightarrow> nat \<Rightarrow> int \<Rightarrow> torrentRun \<Rightarrow> err option \<times> torrentRun" where
  "runTorrentDownload te i now s =
     (case readyTorrent te i s of
        (Some er, s1) \<Rightarrow> (Some er, s1)
      | (None, s3) \<Rightarrow>
         (if optionBool (dOptions (obj (trE s3) i)) ''bt-metadata-only''
          then (None, completeTorrent i (updateFrom i (teInitial te) s3))
          else
            (case reserveTorrentOutputPaths (teKey te) (obj (trE s3) i) (trE s3) of
               Inl er \<Rightarrow> (Some er, s3)
             | Inr e4 \<Rightarrow>
                (case transferTorrent te i (startTorrentProgress te i now (emit PathsReserved (s3\<lparr>trE := e4\<rparr>))) of
                   (res, s5) \<Rightarrow> (res, updateFrom i (teFinal te) s5)))))"

section \<open>The accounting of a run\<close>

text \<open>What the storage layout promises: planned files have non-negative lengths whose sum fits an \<open>int64\<close>.\<close>

definition planLaw :: "torrentLib \<Rightarrow> bool" where
  "planLaw lib \<longleftrightarrow> (\<forall>dir op info h plan. tlPlanFiles lib dir op info h = Inr plan \<longrightarrow>
     (\<forall>f \<in> set (plFiles plan). 0 \<le> pfLength f) \<and> sum_list (map pfLength (plFiles plan)) \<le> MaxInt64)"

text \<open>A property of the download of a run, beside the table of reserved paths.\<close>

definition holdsAt :: "(string \<times> string) list \<Rightarrow> (Download \<Rightarrow> bool) \<Rightarrow> nat \<Rightarrow> torrentRun \<Rightarrow> bool" where
  "holdsAt m P i s \<longleftrightarrow> i < length (eHeap (trE s)) \<and> P (obj (trE s) i) \<and> ePathReservations (trE s) = m"

lemma obj_onTorrent: "i < length (eHeap (trE s)) \<Longrightarrow> obj (trE (onTorrent i f s)) i = f (obj (trE s) i)"
  by (simp add: onTorrent_def obj_setD)

lemma heap_onTorrent [simp]:
  "length (eHeap (trE (onTorrent i f s))) = length (eHeap (trE s))" "ePathReservations (trE (onTorrent i f s)) = ePathReservations (trE s)"
  "trEvents (onTorrent i f s) = trEvents s"
  by (simp_all add: onTorrent_def setD_def setObj_def)

lemma emit_simps [simp]: "trE (emit ev s) = trE s" "holdsAt m P i (emit ev s) = holdsAt m P i s" "trEvents (emit ev s) = trEvents s @ [ev]"
  by (simp_all add: emit_def holdsAt_def)

text \<open>A property of a download that the steps of a transfer keep: progress updates, finalized files, and the fields of the
  runtime and the speed.\<close>

locale torrent_kept =
  fixes P :: "Download \<Rightarrow> bool"
  assumes progress: "P d \<Longrightarrow> P (snd (progressFrom v d))"
    and finalized: "P d \<Longrightarrow> markTorrentFileFinalized runs k (d, r) = Inr (save, d', r') \<Longrightarrow> P d'"
    and runtime [simp]: "P (d\<lparr>dTorrent := x\<rparr>) = P d"
    and speed [simp]: "P (d\<lparr>dDownloadBPS := n\<rparr>) = P d"
begin

lemma kept_on: "holdsAt m P i s \<Longrightarrow> (P (obj (trE s) i) \<Longrightarrow> P (f (obj (trE s) i))) \<Longrightarrow> holdsAt m P i (onTorrent i f s)"
  by (simp add: holdsAt_def obj_onTorrent)

lemma kept_update: "holdsAt m P i s \<Longrightarrow> holdsAt m P i (updateFrom i v s)"
  unfolding updateFrom_def by (rule kept_on) (simp_all add: progress)

lemma kept_tick: "holdsAt m P i (snd st) \<Longrightarrow> holdsAt m P i (snd (progressTick i tk st))"
proof -
  assume a: "holdsAt m P i (snd st)"
  obtain v now where tk: "tk = (v, now)" by (cases tk)
  obtain lc la s where st: "st = ((lc, la), s)" by (cases st) auto
  obtain c d where p: "progressFrom v (obj (trE s) i) = (c, d)" by fastforce
  have "P d" using a st progress[of "obj (trE s) i" v] p by (simp add: holdsAt_def)
  then have "holdsAt m P i (onTorrent i (\<lambda>_. d\<lparr>dDownloadBPS := n\<rparr>) s)" "holdsAt m P i (onTorrent i (\<lambda>_. d) s)" for n
    using a st by (auto intro!: kept_on)
  then show ?thesis by (simp add: progressTick_def tk st p Let_def)
qed

lemma kept_startProgress: "holdsAt m P i s \<Longrightarrow> holdsAt m P i (startTorrentProgress te i now s)"
proof -
  assume a: "holdsAt m P i s"
  have fold: "holdsAt m P i (snd st) \<Longrightarrow> holdsAt m P i (snd (fold (progressTick i) tks st))" for tks st
    by (induction tks arbitrary: st) (simp_all add: kept_tick)
  obtain c d where p: "progressFrom (teInitial te) (obj (trE s) i) = (c, d)" by fastforce
  have "P d" using progress[of "obj (trE s) i" "teInitial te"] a p by (simp add: holdsAt_def)
  then have "holdsAt m P i (onTorrent i (\<lambda>_. d) s)" using a by (intro kept_on) auto
  then show ?thesis using fold[of "((c, now), onTorrent i (\<lambda>_. d) s)"] p by (simp add: startTorrentProgress_def)
qed

lemma kept_lease:
  assumes "holdsAt m P i s" shows "holdsAt m P i (snd (leaseCallback i l s))"
proof -
  obtain r s1 where h: "handleCompletedTorrentFile i l (updateFrom i (lrBefore l) s) = (r, s1)"
    by (cases "handleCompletedTorrentFile i l (updateFrom i (lrBefore l) s)")
  have s1: "holdsAt m P i s1"
    using h assms by (auto simp: handleCompletedTorrentFile_def kept_update split: option.splits)
  let ?d = "obj (trE s1) i"
  show ?thesis
  proof (cases "markTorrentFileFinalized (case dTorrent ?d of None \<Rightarrow> None | Some rt \<Rightarrow> if rtTorrent rt then Some (lvRuns (lrAfter l)) else None)
      (int (lrIndex l)) (?d, runtimeOf ?d)")
    case (Inl er)
    then show ?thesis using h s1 by (auto simp: leaseCallback_def Let_def split: option.splits)
  next
    case (Inr x)
    obtain save d' rt where x: "x = (save, d', rt)" by (cases x)
    have "P d'" using finalized[of ?d] Inr x s1 by (auto simp: holdsAt_def)
    then have "holdsAt m P i (onTorrent i (\<lambda>_. d'\<lparr>dTorrent := map_option (\<lambda>_. rt) (dTorrent d')\<rparr>) s1)" using s1 by (intro kept_on) auto
    then show ?thesis using h s1 Inr x by (auto simp: leaseCallback_def kept_update Let_def split: option.splits)
  qed
qed

lemma kept_process: "holdsAt m P i s \<Longrightarrow> holdsAt m P i (snd (processCompletedTorrentFiles te i s))"
proof -
  assume a: "holdsAt m P i s"
  have fold: "holdsAt m P i t \<Longrightarrow> holdsAt m P i (fold (\<lambda>l s. snd (leaseCallback i l s)) ls t)" for ls t
    by (induction ls arbitrary: t) (simp_all add: kept_lease)
  have on: "holdsAt m P i t \<Longrightarrow> holdsAt m P i (onTorrent i (\<lambda>d. d\<lparr>dTorrent := map_option f (dTorrent d)\<rparr>) t)" for t f
    by (rule kept_on) simp_all
  show ?thesis using a by (simp add: processCompletedTorrentFiles_def on fold Let_def)
qed

lemma kept_wait: "holdsAt m P i s \<Longrightarrow> holdsAt m P i (snd (waitSelected te i ks s))"
  by (induction ks arbitrary: s) (simp_all add: kept_update split: option.splits)

lemma kept_complete: "holdsAt m P i s \<Longrightarrow> holdsAt m P i (completeTorrent i s)"
  by (simp add: completeTorrent_def holdsAt_def notify_def obj_def Let_def)

lemma kept_requests: "holdsAt m P i (fold (\<lambda>k s. emit (FileRequested k) s) ks s) = holdsAt m P i s"
  by (induction ks arbitrary: s) simp_all

lemma kept_transfer: "holdsAt m P i s \<Longrightarrow> holdsAt m P i (snd (transferTorrent te i s))"
proof -
  assume a: "holdsAt m P i s"
  let ?sel = "selectedTorrentFiles (obj (trE s) i) [0..<teFileCount te]"
  let ?s = "fold (\<lambda>k s. emit (FileRequested k) s) ?sel s"
  have s: "holdsAt m P i ?s" using a by (simp add: kept_requests)
  obtain r t where w: "waitSelected te i ?sel ?s = (r, t)" by fastforce
  obtain r' t' where p: "processCompletedTorrentFiles te i s = (r', t')" by fastforce
  have "holdsAt m P i t" "holdsAt m P i t'" using kept_wait[OF s, of te ?sel] w kept_process[OF a, of te] p by simp_all
  then show ?thesis using s w p
    by (simp add: transferTorrent_def kept_complete kept_complete[OF a] Let_def split: option.splits)
qed

end

lemma torrentInv_progress: "torrentInv d \<Longrightarrow> torrentInv (snd (progressFrom v d))"
  using updateTorrentProgress_exact unfolding progressFrom_def by blast

lemma torrentInv_side [simp]:
  "torrentInv (d\<lparr>dTorrent := x\<rparr>) = torrentInv d" "torrentInv (d\<lparr>dDownloadBPS := n\<rparr>) = torrentInv d"
  by (simp_all add: torrentInv_def)


lemma refresh_exact:
  assumes "planLaw lib" "refreshTorrentMetadata lib rkey mi unmarshal runs h enc d = Inr d'"
  shows "torrentInv d' \<and> dGid d' = dGid d"
proof -
  obtain info files0 where f: "torrentFileStates rkey (tlPlanFiles lib) info h (dOptions d) (dDir d) = Inr files0"
    and d': "dTorrentFiles d' = fst (torrentFileStateProgress files0 (dTorrentFinalized d))" "dTorrentFinalized d' = dTorrentFinalized d"
      "dTotalLength d' = fst (snd (torrentFileStateProgress files0 (dTorrentFinalized d)))"
      "dCompletedLen d' = snd (snd (torrentFileStateProgress files0 (dTorrentFinalized d)))" "dGid d' = dGid d"
    using assms(2) by (cases unmarshal; cases "torrentInfoPieceCount (projr unmarshal)")
      (auto simp: refreshTorrentMetadata_def bindR_eq_Inr case_prod_beta Let_def)
  obtain plan cd sel where p: "tlPlanFiles lib (dDir d) (dOptions d) info h = Inr plan" "planStates rkey cd sel (plFiles plan) = Inr files0"
    using f by (auto simp: torrentFileStates_def bindR_eq_Inr)
  have "lengthsOk files0" using planStates_fields[OF p(2)] assms(1) p(1) unfolding planLaw_def by (simp add: lengthsOk_map)
  from fileStateProgress_exact[OF this, of "dTorrentFinalized d"] show ?thesis
    using d' by (cases "torrentFileStateProgress files0 (dTorrentFinalized d)") (auto simp: torrentInv_def)
qed

lemma reconcile_lengths:
  "map tfLength (snd (fold (reconcileStep sn) is (fin, files))) = map tfLength files"
proof (induction "is" arbitrary: fin files)
  case (Cons k ks)
  have "map tfLength (files[k := (files ! k)\<lparr>tfCompleted := n\<rparr>]) = map tfLength files" for n
    by (cases "k < length files") (simp_all add: map_update_same list_update_beyond)
  then show ?case using Cons by (simp add: reconcileStep_def Let_def)
qed simp

lemma reconcile_exact:
  assumes "torrentInv d" "reconcileReleasedTorrentFiles sn d = (changed, d')"
  shows "torrentInv d' \<and> dGid d' = dGid d"
proof -
  obtain fin files where f: "fold (reconcileStep sn) [0..<length (dTorrentFiles d)] (dTorrentFinalized d, dTorrentFiles d) = (fin, files)" by fastforce
  have "lengthsOk files" using reconcile_lengths[of sn "[0..<length (dTorrentFiles d)]" "dTorrentFinalized d" "dTorrentFiles d"] f assms(1)
    by (simp add: torrentInv_def lengthsOk_map)
  from fileStateProgress_exact[OF this, of fin] show ?thesis
    using assms f by (cases "torrentFileStateProgress files fin") (auto simp: reconcileReleasedTorrentFiles_def torrentInv_def split: if_splits)
qed

interpretation exact: torrent_kept torrentInv
proof
  show "torrentInv d \<Longrightarrow> torrentInv (snd (progressFrom v d))" for d v by (rule torrentInv_progress)
  show "torrentInv d \<Longrightarrow> markTorrentFileFinalized runs k (d, r) = Inr (save, d', r') \<Longrightarrow> torrentInv d'" for d runs k r save d' r'
    using markTorrentFileFinalized_exact by blast
qed simp_all

text \<open>Which files a torrent has, where they go, which are selected, and that finalized files stay so.\<close>

definition sameLayout :: "Download \<Rightarrow> Download \<Rightarrow> bool" where
  "sameLayout d0 d \<longleftrightarrow>
     map (\<lambda>f. (tfPath f, tfSelected f, tfIndex f)) (dTorrentFiles d) = map (\<lambda>f. (tfPath f, tfSelected f, tfIndex f)) (dTorrentFiles d0) \<and>
     set (dTorrentFinalized d0) \<subseteq> set (dTorrentFinalized d) \<and> dGid d = dGid d0"

lemma completeFirst_layout:
  "completeFirst k files = Some files' \<Longrightarrow> (\<And>f n. m (f\<lparr>tfCompleted := n\<rparr>) = m f) \<Longrightarrow> map m files' = map m files"
  by (auto simp: completeFirst_def find_Some_iff map_update_same split: option.splits)

lemma sameLayout_progress: "sameLayout d0 d \<Longrightarrow> sameLayout d0 (snd (progressFrom v d))"
  using map2_files[of "[0..<length (dTorrentFiles d)]" "dTorrentFiles d" "\<lambda>f. (tfPath f, tfSelected f, tfIndex f)"]
  by (simp add: sameLayout_def progressFrom_def updateTorrentProgress_def Let_def split: prod.splits)

lemma sameLayout_finalized:
  assumes "sameLayout d0 d" "markTorrentFileFinalized runs k (d, r) = Inr (save, d', r')" shows "sameLayout d0 d'"
proof -
  let ?m = "\<lambda>f. (tfPath f, tfSelected f, tfIndex f)"
  obtain files0 where c: "completeFirst (k + 1) (dTorrentFiles d) = Some files0"
    using assms(2) by (cases "completeFirst (k + 1) (dTorrentFiles d)") (simp_all add: markTorrentFileFinalized_def)
  have "map ?m files0 = map ?m (dTorrentFiles d)" by (rule completeFirst_layout[OF c]) simp
  moreover have "dTorrentFiles d' = map (clampFile (List.insert (k + 1) (dTorrentFinalized d))) files0"
      "dTorrentFinalized d' = List.insert (k + 1) (dTorrentFinalized d)" "dGid d' = dGid d"
    using assms(2) c by (auto simp: markTorrentFileFinalized_def torrentFileStateProgress_def Let_def split: prod.splits option.splits)
  ultimately show ?thesis using assms(1) by (auto simp: sameLayout_def comp_def)
qed

interpretation layout: torrent_kept "sameLayout d0" for d0
proof
  show "sameLayout d0 d \<Longrightarrow> sameLayout d0 (snd (progressFrom v d))" for d v by (rule sameLayout_progress)
  show "sameLayout d0 d \<Longrightarrow> markTorrentFileFinalized runs k (d, r) = Inr (save, d', r') \<Longrightarrow> sameLayout d0 d'" for d runs k r save d' r'
    by (rule sameLayout_finalized)
qed (simp_all add: sameLayout_def)


section \<open>What a run does\<close>

lemma readyTorrent_ok:
  assumes "readyTorrent te i s = (res, s')" "holdsAt m torrentInv i s" "planLaw (teLib te)"
  shows "holdsAt m torrentInv i s' \<and> (trEvents s' = trEvents s \<or> trEvents s' = trEvents s @ [SaveQueued]) \<and> eReservedPathsByGID (trE s') = eReservedPathsByGID (trE s)"
proof -
  define s1 where "s1 = onTorrent i (\<lambda>d. d\<lparr>dTorrent := Some \<lparr>rtTorrent = True, rtSelection = False, rtSelected = [], rtCompleted = [], rtClosed = False\<rparr>\<rparr>) s"
  have gids: "eReservedPathsByGID (trE (onTorrent i f t)) = eReservedPathsByGID (trE t)" for f t by (simp add: onTorrent_def setD_def setObj_def)
  have s1: "holdsAt m torrentInv i s1" "trEvents s1 = trEvents s" unfolding s1_def by (rule exact.kept_on[OF assms(2)]) simp_all
  have put: "holdsAt m torrentInv i (onTorrent i (\<lambda>_. d) s1)" if "torrentInv d" for d using exact.kept_on[OF s1(1), of "\<lambda>_. d"] that by simp
  consider (early) "s' = s \<or> s' = s1"
    | (ready) d2 d3 where "refreshTorrentMetadata (teLib te) (teKey te) (teMeta te) (teInfo te) (lvRuns (teInitial te)) (teInfoHash te) (teEncoded te) (obj (trE s1) i) = Inr d2"
      "torrentInv d2 \<longrightarrow> torrentInv d3" "s' = onTorrent i (\<lambda>_. d2) s1 \<or> s' = emit SaveQueued (onTorrent i (\<lambda>_. d3) s1)"
  proof (cases "dCtx (obj (trE s) i) = None \<or> (\<exists>er. startTorrent te (obj (trE s) i) = Inl er) \<or> teDone te \<noteq> None \<or>
      (\<exists>er. refreshTorrentMetadata (teLib te) (teKey te) (teMeta te) (teInfo te) (lvRuns (teInitial te)) (teInfoHash te) (teEncoded te) (obj (trE s1) i) = Inl er)")
    case True
    then show ?thesis using assms(1) early by (auto simp: readyTorrent_def s1_def[symmetric] Let_def split: option.splits sum.splits if_splits)
  next
    case False
    then obtain d2 where d2: "refreshTorrentMetadata (teLib te) (teKey te) (teMeta te) (teInfo te) (lvRuns (teInitial te)) (teInfoHash te) (teEncoded te) (obj (trE s1) i) = Inr d2"
      by (metis sum.exhaust)
    obtain x where "startTorrent te (obj (trE s) i) = Inr x" using False by (metis sum.exhaust)
    moreover obtain changed d3 where rec: "reconcileReleasedTorrentFiles (lvSnapshots (teInitial te)) d2 = (changed, d3)" by fastforce
    ultimately show ?thesis
      using assms(1) False d2 ready[OF d2, of d3] reconcile_exact[OF _ rec]
      by (auto simp: readyTorrent_def s1_def[symmetric] Let_def split: if_splits)
  qed
  then show ?thesis
  proof cases
    case early
    then show ?thesis using assms(2) s1 by (auto simp: s1_def gids)
  next
    case ready
    then show ?thesis using put refresh_exact[OF assms(3) ready(1)] s1 by (auto simp: gids s1_def)
  qed
qed

text \<open>The events of a transfer: it never reserves, and completes exactly when it has no error.\<close>

definition plainEvents :: "torrentEvent list \<Rightarrow> bool" where
  "plainEvents evs \<longleftrightarrow> BtComplete \<notin> set evs"

lemma updateFrom_events [simp]: "trEvents (updateFrom i v s) = trEvents s"
  by (simp add: updateFrom_def)

lemma lease_events: "\<exists>evs. trEvents (snd (leaseCallback i l s)) = trEvents s @ evs \<and> plainEvents evs"
  by (auto simp: leaseCallback_def handleCompletedTorrentFile_def plainEvents_def Let_def split: option.splits sum.splits prod.splits)

lemma leases_events: "\<exists>evs. trEvents (fold (\<lambda>l s. snd (leaseCallback i l s)) ls s) = trEvents s @ evs \<and> plainEvents evs"
proof (induction ls arbitrary: s)
  case (Cons l ls)
  obtain a b where "trEvents (snd (leaseCallback i l s)) = trEvents s @ a" "plainEvents a"
    "trEvents (fold (\<lambda>l s. snd (leaseCallback i l s)) ls (snd (leaseCallback i l s))) = trEvents (snd (leaseCallback i l s)) @ b" "plainEvents b"
    using lease_events Cons.IH by metis
  then show ?case by (auto simp: plainEvents_def)
qed (simp add: plainEvents_def)

lemma process_events: "\<exists>evs. trEvents (snd (processCompletedTorrentFiles te i s)) = trEvents s @ evs \<and> plainEvents evs"
proof -
  define s1 where "s1 = onTorrent i (\<lambda>d. d\<lparr>dTorrent := map_option (\<lambda>rt. rt\<lparr>rtSelection := True, rtSelected :=
    map int (selectedTorrentFileIndexesFromStates (dTorrentFiles (obj (trE s) i)) (dTorrentFinalized (obj (trE s) i))), rtCompleted := [], rtClosed := False\<rparr>) (dTorrent d)\<rparr>) s"
  obtain evs where evs: "trEvents (fold (\<lambda>l s. snd (leaseCallback i l s)) (teLeases te) s1) = trEvents s @ evs" "plainEvents evs"
    using leases_events[of i "teLeases te" s1] by (auto simp: s1_def)
  have "trEvents (snd (processCompletedTorrentFiles te i s)) = trEvents s \<or>
      trEvents (snd (processCompletedTorrentFiles te i s)) = trEvents (fold (\<lambda>l s. snd (leaseCallback i l s)) (teLeases te) s1)"
    by (simp add: processCompletedTorrentFiles_def s1_def Let_def)
  then show ?thesis using evs by (auto simp: plainEvents_def)
qed

lemma requests_events: "trEvents (fold (\<lambda>k s. emit (FileRequested k) s) ks s) = trEvents s @ map FileRequested ks"
  by (induction ks arbitrary: s) simp_all

lemma wait_events:
  "waitSelected te i ks s = (res, s') \<Longrightarrow> \<exists>ds. prefix ds ks \<and> trEvents s' = trEvents s @ map FileVerified ds \<and> (res = None \<longrightarrow> ds = ks)"
proof (induction ks arbitrary: s)
  case (Cons k ks)
  show ?case
  proof (cases "teWait te k")
    case None
    then obtain ds where "prefix ds ks" "trEvents s' = trEvents s @ FileVerified k # map FileVerified ds" "res = None \<longrightarrow> ds = ks"
      using Cons by fastforce
    then show ?thesis by (intro exI[of _ "k # ds"]) simp
  next
    case (Some er)
    then show ?thesis using Cons.prems by (intro exI[of _ "[]"]) auto
  qed
qed simp


lemma transfer_events:
  assumes "transferTorrent te i s = (res, s')"
  shows "\<exists>evs. trEvents s' = trEvents s @ evs \<and> (res = None \<longleftrightarrow> BtComplete \<in> set evs) \<and>
    (res = None \<longrightarrow> \<not> teHandler te \<longrightarrow> (\<forall>k. FileRequested k \<in> set evs \<longrightarrow> FileVerified k \<in> set evs))"
proof (cases "teHandler te")
  case True
  obtain r s1 where p: "processCompletedTorrentFiles te i s = (r, s1)" by fastforce
  then obtain evs where "trEvents s1 = trEvents s @ evs" "plainEvents evs" using process_events[of te i s] by auto
  moreover have "(res \<noteq> None \<and> s' = s1) \<or> (res = None \<and> s' = completeTorrent i s1)"
    using assms True p by (auto simp: transferTorrent_def split: option.splits)
  ultimately show ?thesis using True by (auto simp: completeTorrent_def plainEvents_def)
next
  case False
  let ?sel = "selectedTorrentFiles (obj (trE s) i) [0..<teFileCount te]"
  obtain r s2 where w: "waitSelected te i ?sel (fold (\<lambda>k s. emit (FileRequested k) s) ?sel s) = (r, s2)" by fastforce
  then obtain ds where ds: "prefix ds ?sel" "trEvents s2 = trEvents s @ map FileRequested ?sel @ map FileVerified ds" "r = None \<longrightarrow> ds = ?sel"
    using wait_events[OF w] by (auto simp: requests_events)
  show ?thesis
  proof (cases "?sel = []")
    case True
    then show ?thesis using assms False by (auto simp: transferTorrent_def completeTorrent_def)
  next
    case sel: False
    then show ?thesis using assms False w ds
      by (auto simp: transferTorrent_def completeTorrent_def Let_def split: option.splits)
  qed
qed

lemma startProgress_events [simp]: "trEvents (startTorrentProgress te i now s) = trEvents s"
proof -
  have tick: "trEvents (snd (progressTick i tk st)) = trEvents (snd st)" for tk st
    by (simp add: progressTick_def Let_def split: prod.splits)
  have "trEvents (snd (fold (progressTick i) tks st)) = trEvents (snd st)" for tks st
    by (induction tks arbitrary: st) (simp_all add: tick)
  then show ?thesis by (simp add: startTorrentProgress_def split: prod.splits)
qed

text \<open>A download owns the output paths of its selected files that are not finalized.\<close>

definition ownsPaths :: "(string \<Rightarrow> string res) \<Rightarrow> Engine \<Rightarrow> Download \<Rightarrow> bool" where
  "ownsPaths rkey e d \<longleftrightarrow> (\<forall>k \<in> pathKeys rkey (selectedTorrentOutputPaths (dTorrentFiles d) (dTorrentFinalized d)). owner e k = Some (dGid d))"

lemma layout_paths:
  assumes "sameLayout d0 d"
  shows "set (selectedTorrentOutputPaths (dTorrentFiles d) (dTorrentFinalized d)) \<subseteq> set (selectedTorrentOutputPaths (dTorrentFiles d0) (dTorrentFinalized d0))"
proof
  let ?m = "\<lambda>f. (tfPath f, tfSelected f, tfIndex f)"
  fix p assume "p \<in> set (selectedTorrentOutputPaths (dTorrentFiles d) (dTorrentFinalized d))"
  then obtain f where f: "f \<in> set (dTorrentFiles d)" "tfSelected f" "tfIndex f \<notin> set (dTorrentFinalized d)" "p = tfPath f"
    by (auto simp: selectedTorrentOutputPaths_def)
  then have "?m f \<in> set (map ?m (dTorrentFiles d0))" using assms by (metis (no_types, lifting) image_eqI set_map sameLayout_def)
  then show "p \<in> set (selectedTorrentOutputPaths (dTorrentFiles d0) (dTorrentFinalized d0))"
    using f assms by (auto simp: selectedTorrentOutputPaths_def sameLayout_def)
qed

lemma layout_owns: "ownsPaths rkey e d0 \<Longrightarrow> sameLayout d0 d \<Longrightarrow> ePathReservations e' = ePathReservations e \<Longrightarrow> ownsPaths rkey e' d"
  using layout_paths[of d0 d] by (fastforce simp: ownsPaths_def pathKeys_def owner_def sameLayout_def)


lemma reserve_owns:
  assumes "resInv e" "reserveTorrentOutputPaths rkey d e = Inr e'"
  shows "ownsPaths rkey e' d" "eHeap e' = eHeap e"
proof -
  have r: "reserveOutputPaths rkey (selectedTorrentOutputPaths (dTorrentFiles d) (dTorrentFinalized d)) (dGid d) e = Inr e'"
    using assms(2) by (simp add: reserveTorrentOutputPaths_def)
  show "ownsPaths rkey e' d" using paths.reserve_owner[OF assms(1) r] by (simp add: ownsPaths_def)
  have "core e' = core e" using r core_updateOutputPathReservations unfolding reserveOutputPaths_def by blast
  then show "eHeap e' = eHeap e" by (simp add: core_def)
qed

lemma resInv_maps: "ePathReservations e' = ePathReservations e \<Longrightarrow> eReservedPathsByGID e' = eReservedPathsByGID e \<Longrightarrow> resInv e' = resInv e"
  by (rule resInv_cong)

text \<open>Before the paths are reserved, a run queues at most a save of the session; a run that reserves nothing does no more than complete.\<close>

definition pathsFirst :: "torrentEvent list \<Rightarrow> bool" where
  "pathsFirst evs \<longleftrightarrow> (\<exists>pre post. evs = pre @ post \<and> set pre \<subseteq> {SaveQueued} \<and> (set post \<subseteq> {BtComplete} \<or> (\<exists>rest. post = PathsReserved # rest)))"

lemma pathsFirst_intro:
  assumes "set pre \<subseteq> {SaveQueued}"
  shows "pathsFirst pre" "pathsFirst (pre @ [BtComplete])" "pathsFirst (pre @ PathsReserved # rest)"
proof -
  have "pathsFirst (pre @ post)" if "set post \<subseteq> {BtComplete} \<or> (\<exists>rest. post = PathsReserved # rest)" for post
    unfolding pathsFirst_def using assms that by blast
  from this[of "[]"] this[of "[BtComplete]"] this[of "PathsReserved # rest"]
  show "pathsFirst pre" "pathsFirst (pre @ [BtComplete])" "pathsFirst (pre @ PathsReserved # rest)" by simp_all
qed

text \<open>A run that ends before its paths are reserved, and one that goes on with the transfer.\<close>

lemma run_cases:
  assumes "runTorrentDownload te i now s = (res, s')" "readyTorrent te i s = (r, s3)"
  obtains (failed) "res \<noteq> None" "s' = s3"
    | (metadata) "res = None" "s' = completeTorrent i (updateFrom i (teInitial te) s3)"
    | (transferred) e4 s5 where "reserveTorrentOutputPaths (teKey te) (obj (trE s3) i) (trE s3) = Inr e4"
        "transferTorrent te i (startTorrentProgress te i now (emit PathsReserved (s3\<lparr>trE := e4\<rparr>))) = (res, s5)" "s' = updateFrom i (teFinal te) s5"
  using assms by (auto simp: runTorrentDownload_def split: option.splits sum.splits if_splits prod.splits)



section \<open>An example run\<close>

text \<open>A magnet link to a torrent with one file, which is verified.\<close>

definition exampleView :: liveView where
  "exampleView = \<lparr>lvStats = \<lparr>tsActivePeers = 1, tsHalfOpenPeers = 0, tsConnectedSeeders = 1\<rparr>, lvSnapshots = [], lvRuns = [], lvSeeding = False\<rparr>"

definition exampleTorrentEnv :: torrentEnv where
  "exampleTorrentEnv = \<lparr>teLib = exampleLib\<lparr>tlSpecFromMagnet := (\<lambda>_. Inr \<lparr>tsWebseeds = [], tsDisplayName = '''', tsInfoHash = zeroHash, tsShortV2Hash = None\<rparr>)\<rparr>,
     teKey = absKey, teHandler = False,
     teDefault = \<lparr>tcDataDir = '''', tcNoDefaultPortForwarding = False, tcBep20 = '''', tcHTTPUserAgent = '''', tcClientVersion = '''', tcNoUpload = False,
       tcDisableSmartBanning = False, tcNoDHT = False, tcDisableTrackers = False, tcDisablePEX = False, tcDisableUTP = False, tcDisableIPv6 = False,
       tcEstablishedConns = 50, tcPeersHighWater = 500, tcPeersLowWater = 50, tcUploadRate = None, tcDownloadRate = None, tcListenPort = 0, tcListenHost = None\<rparr>,
     tePrivate = (\<lambda>_. False), teNewClient = (\<lambda>_. None), teSpecFromMetaInfo = (\<lambda>_. Inl ContextCanceled), teTrackers = (\<lambda>_. []),
     teAddSpec = (\<lambda>_ _. None), teMergePeers = (\<lambda>_. None), teDone = None,
     teMeta = \<lparr>miPieceLayers = [], miUrlList = [], miAnnounceList = [], miComment = '''', miCreationDate = 0, miInfoHash = zeroHash, miShortV2Hash = ''''\<rparr>,
     teInfo = Inr v1Example, teInfoHash = zeroHash, teEncoded = None, teInitial = exampleView, teTicks = [], teLeases = [], teStream = None,
     teFileCount = 1, teWait = (\<lambda>_. None), teAfterWait = (\<lambda>_. exampleView), teCause = (\<lambda>_. None), teEndCause = None, teFinal = exampleView\<rparr>"

definition exampleTorrentRun :: torrentRun where
  "exampleTorrentRun = \<lparr>trE = (rnE probeRun)\<lparr>eHeap := [zeroDownload\<lparr>dGid := ''g'', dKind := downloadKindTorrent, dTorrentMagnet := ''magnet:?xt=t'', dDir := ''.'', dCtx := Some 0\<rparr>]\<rparr>, trEvents = []\<rparr>"


lemma example_start: "\<exists>x. startTorrent exampleTorrentEnv (obj (trE exampleTorrentRun) 0) = Inr x"
  by (simp add: startTorrent_def exampleTorrentEnv_def exampleTorrentRun_def obj_def zeroDownload_def exampleLib_def torrentClientConfig_def
      applyTorrentClientIdentityOptions_def empty_options TrimSpace_no_space optErr_def extractTorrentWebSeedURLs_def mergeTorrentWebSeedURLs_def optionStringList_def Let_def)


lemma example_refresh:
  "\<exists>d. refreshTorrentMetadata (teLib exampleTorrentEnv) absKey (teMeta exampleTorrentEnv) (Inr v1Example) [] zeroHash None
      (obj (trE exampleTorrentRun) 0\<lparr>dTorrent := t\<rparr>) = Inr d \<and> dGid d = ''g'' \<and> dOptions d = [] \<and> dTorrentFinalized d = [] \<and>
      dTorrentFiles d = [\<lparr>tfIndex = 1, tfPath = ''/d/a'', tfLength = 3, tfCompleted = 0, tfSelected = True\<rparr>]"
proof -
  have "\<not> iHasV2 v1Example" by (simp add: v1Example_def exampleInfo_def)
  moreover obtain x where "torrentSelectionAndIndexOut v1Example [] = Inr x"
    using v1Example_accepted(3) by (cases "torrentSelectionAndIndexOut v1Example []") (auto simp: torrentFileStates_def)
  ultimately show ?thesis using v1Example_accepted
    by (simp add: refreshTorrentMetadata_def validateRefreshedTorrentMetadata_def exampleTorrentEnv_def exampleTorrentRun_def obj_def zeroDownload_def
        exampleLib_def validateTorrentFinalizedIndexes_def torrentFileStateProgress_def clampFile_def Let_def split: prod.splits)
qed


lemma example_ready:
  "\<exists>s. readyTorrent exampleTorrentEnv 0 exampleTorrentRun = (None, s) \<and> length (eHeap (trE s)) = 1 \<and> ePathReservations (trE s) = [] \<and>
     trEvents s = [] \<and> dGid (obj (trE s) 0) = ''g'' \<and> dOptions (obj (trE s) 0) = [] \<and> dTorrentFinalized (obj (trE s) 0) = [] \<and>
     dTorrentFiles (obj (trE s) 0) = [\<lparr>tfIndex = 1, tfPath = ''/d/a'', tfLength = 3, tfCompleted = 0, tfSelected = True\<rparr>]"
proof -
  let ?rt = "Some \<lparr>rtTorrent = True, rtSelection = False, rtSelected = [], rtCompleted = [], rtClosed = False\<rparr>"
  obtain x where x: "startTorrent exampleTorrentEnv (obj (trE exampleTorrentRun) 0) = Inr x" using example_start by blast
  obtain d where d: "refreshTorrentMetadata (teLib exampleTorrentEnv) absKey (teMeta exampleTorrentEnv) (Inr v1Example) [] zeroHash None
      (obj (trE exampleTorrentRun) 0\<lparr>dTorrent := ?rt\<rparr>) = Inr d" "dGid d = ''g''" "dOptions d = []" "dTorrentFinalized d = []"
      "dTorrentFiles d = [\<lparr>tfIndex = 1, tfPath = ''/d/a'', tfLength = 3, tfCompleted = 0, tfSelected = True\<rparr>]"
    using example_refresh by blast
  have run: "dCtx (obj (trE exampleTorrentRun) 0) \<noteq> None" "0 < length (eHeap (trE exampleTorrentRun))" "length (eHeap (trE exampleTorrentRun)) = 1"
    "trEvents exampleTorrentRun = []" "ePathReservations (trE exampleTorrentRun) = []"
    by (simp_all add: exampleTorrentRun_def obj_def probeRun_def)
  have env: "teKey exampleTorrentEnv = absKey" "teInfo exampleTorrentEnv = Inr v1Example" "lvRuns (teInitial exampleTorrentEnv) = []"
    "teInfoHash exampleTorrentEnv = zeroHash" "teEncoded exampleTorrentEnv = None" "teDone exampleTorrentEnv = None" "\<not> teHandler exampleTorrentEnv"
    by (simp_all add: exampleTorrentEnv_def exampleView_def)
  show ?thesis using x d run env by (auto simp: readyTorrent_def obj_onTorrent Let_def)
qed

lemma example_reserve:
  assumes "dTorrentFiles d = [\<lparr>tfIndex = 1, tfPath = ''/d/a'', tfLength = 3, tfCompleted = 0, tfSelected = True\<rparr>]"
    "dTorrentFinalized d = []" "ePathReservations e = []"
  shows "\<exists>e'. reserveTorrentOutputPaths absKey d e = Inr e'"
proof -
  have "absKey ''/d/a'' = Inr ''/d/a''" by code_simp
  then show ?thesis using assms
    by (simp add: reserveTorrentOutputPaths_def selectedTorrentOutputPaths_def reserveOutputPaths_def updateOutputPathReservations_def Let_def)
qed


lemma example_transfer: "fst (transferTorrent exampleTorrentEnv i s) = None"
proof -
  have "fst (waitSelected exampleTorrentEnv i ks t) = None" for ks t
    by (induction ks arbitrary: t) (simp_all add: exampleTorrentEnv_def)
  then show ?thesis
    by (auto simp: transferTorrent_def exampleTorrentEnv_def Let_def split: option.splits prod.splits) (metis fst_conv option.distinct(1))
qed


end
