(* ===== verification/Session_Save.thy ===== *)
theory Session_Save
  imports Session_Proofs
begin

text \<open>
  Saving the session, session.go: the file is written next to the old one and renamed over it, and the
  delayed saves that torrent progress asks for run on a timer. The file system is a map from paths to
  contents, and each call that can fail does so when \<open>fault\<close> says so. The timers are a transition
  system: queueing, cancelling and closing are its critical sections, and a timer that has fired runs
  its callback in two further steps.
\<close>

section \<open>Writing the file\<close>

datatype fsOp = OpMkdirAll | OpCreateTemp | OpWrite | OpSync | OpClose | OpRename | OpSyncDir

type_synonym files = "string \<Rightarrow> string option"

text \<open>\<open>tmpName\<close> is the name \<open>os.CreateTemp\<close> chooses. Until the rename has succeeded, every return runs
  the deferred removal of the temporary file.\<close>

definition writeSessionFile ::
    "sysEnv \<Rightarrow> (fsOp \<Rightarrow> err option) \<Rightarrow> string \<Rightarrow> string \<Rightarrow> sessionDownload list \<Rightarrow> files \<Rightarrow> unit res \<times> files" where
  "writeSessionFile env fault tmpName path entries fs =
     (case validateEntries2 env 0 entries of
        Inl er \<Rightarrow> (Inl er, fs)
      | Inr _ \<Rightarrow>
     (case fault OpMkdirAll of
        Some er \<Rightarrow> (Inl er, fs)
      | None \<Rightarrow>
     (case fault OpCreateTemp of
        Some er \<Rightarrow> (Inl er, fs)
      | None \<Rightarrow>
         (let fs1 = fs(tmpName \<mapsto> ''''); text = textOf (sessionLines entries) in
          if int (length text) > maxSessionFileSize
          then (Inl (Errorf ''session exceeds maximum size %d'' [Itoa maxSessionFileSize]), fs1(tmpName := None))
          else
     (case fault OpWrite of
        Some er \<Rightarrow> (Inl er, fs1(tmpName := None))
      | None \<Rightarrow>
         (let fs2 = fs1(tmpName \<mapsto> text) in
     (case fault OpSync of
        Some er \<Rightarrow> (Inl er, fs2(tmpName := None))
      | None \<Rightarrow>
     (case fault OpClose of
        Some er \<Rightarrow> (Inl er, fs2(tmpName := None))
      | None \<Rightarrow>
     (case fault OpRename of
        Some er \<Rightarrow> (Inl er, fs2(tmpName := None))
      | None \<Rightarrow>
         (let fs3 = (fs2(path := fs2 tmpName))(tmpName := None) in
          (case fault OpSyncDir of Some er \<Rightarrow> (Inl er, fs3) | None \<Rightarrow> (Inr (), fs3))))))))))))"

definition SaveSession :: "sysEnv \<Rightarrow> sessionLib \<Rightarrow> (fsOp \<Rightarrow> err option) \<Rightarrow> string \<Rightarrow> Engine \<Rightarrow> files \<Rightarrow> string res \<times> files" where
  "SaveSession env sl fault tmpName e fs =
     (let path = optionString (eGlobal e) ''save-session'' in
      if path = '''' then (Inr ''OK'', fs)
      else (case writeSessionFile env fault tmpName path (sessionSnapshot sl e) fs of
              (Inl er, fs') \<Rightarrow> (Inl er, fs')
            | (Inr _, fs') \<Rightarrow> (Inr ''OK'', fs')))"

definition saveSessionIfConfigured ::
    "sysEnv \<Rightarrow> sessionLib \<Rightarrow> (fsOp \<Rightarrow> err option) \<Rightarrow> string \<Rightarrow> Engine \<Rightarrow> files \<Rightarrow> unit res \<times> files" where
  "saveSessionIfConfigured env sl fault tmpName e fs =
     (if optionString (eGlobal e) ''save-session'' = '''' then (Inr (), fs)
      else (case SaveSession env sl fault tmpName e fs of (Inl er, fs') \<Rightarrow> (Inl er, fs') | (Inr _, fs') \<Rightarrow> (Inr (), fs')))"

lemma writeSessionFile_frame:
  assumes "tmpName \<noteq> path" "fs tmpName = None" "writeSessionFile env fault tmpName path entries fs = (r, fs')"
  shows "fs' = fs \<or> sessionText env entries = Inr (textOf (sessionLines entries)) \<and> fs' = fs(path \<mapsto> textOf (sessionLines entries))"
    and "r = Inr () \<Longrightarrow> sessionText env entries = Inr (textOf (sessionLines entries)) \<and> fs' = fs(path \<mapsto> textOf (sessionLines entries))"
proof -
  define t where "t = textOf (sessionLines entries)"
  have tmp: "fs(tmpName := None) = fs" "fs(tmpName := x, tmpName := None) = fs" for x using assms(2) by auto
  have ren: "fs(tmpName \<mapsto> t, path \<mapsto> t, tmpName := None) = fs(path \<mapsto> t)"
    using assms(1,2) by (auto simp: fun_upd_def)
  show "fs' = fs \<or> sessionText env entries = Inr (textOf (sessionLines entries)) \<and> fs' = fs(path \<mapsto> textOf (sessionLines entries))"
    using assms(3) unfolding writeSessionFile_def Let_def t_def[symmetric]
    by (auto simp: tmp ren sessionText_def Let_def t_def[symmetric] bindR_def split: sum.splits option.splits if_splits)
  assume "r = Inr ()"
  then show "sessionText env entries = Inr (textOf (sessionLines entries)) \<and> fs' = fs(path \<mapsto> textOf (sessionLines entries))"
    using assms(3) unfolding writeSessionFile_def Let_def t_def[symmetric]
    by (auto simp: tmp ren sessionText_def Let_def t_def[symmetric] bindR_def split: sum.splits option.splits if_splits)
qed

text \<open>C7: Saving is atomic. Whatever step fails, the session file has either its old content or the
  complete new text, no temporary file is left behind and no other file changes; a save that reports
  success has written the text of the downloads.\<close>

theorem SaveSession_atomic:
  assumes "tmpName \<noteq> optionString (eGlobal e) ''save-session''" "fs tmpName = None"
    and "SaveSession env sl fault tmpName e fs = (r, fs')"
  shows "(fs' = fs \<or> (\<exists>text. sessionText env (sessionSnapshot sl e) = Inr text \<and>
            fs' = fs(optionString (eGlobal e) ''save-session'' \<mapsto> text)))
    \<and> (r = Inr ''OK'' \<longrightarrow> optionString (eGlobal e) ''save-session'' \<noteq> '''' \<longrightarrow>
         (\<exists>text. sessionText env (sessionSnapshot sl e) = Inr text \<and> fs' (optionString (eGlobal e) ''save-session'') = Some text))"
proof (cases "optionString (eGlobal e) ''save-session'' = ''''")
  case True
  then show ?thesis using assms(3) by (simp add: SaveSession_def)
next
  case False
  obtain q where w: "writeSessionFile env fault tmpName (optionString (eGlobal e) ''save-session'') (sessionSnapshot sl e) fs = (q, fs')"
      and q: "r = Inr ''OK'' \<longrightarrow> q = Inr ()"
    using assms(3) False by (auto simp: SaveSession_def Let_def split: prod.splits sum.splits)
  from writeSessionFile_frame[OF assms(1,2) w] q show ?thesis by auto
qed


definition savingEngine :: Engine where
  "savingEngine = exampleEngine\<lparr>eGlobal := [(''save-session'', VStr ''/s'')]\<rparr>"

theorem SaveSession_atomic_witness:
  "\<exists>r fs'. SaveSession exampleEnv exampleSessionLib (\<lambda>_. None) ''/s.tmp'' savingEngine (\<lambda>_. None) = (r, fs') \<and>
     r = Inr ''OK'' \<and> fs' ''/s'' = Some ''''"
proof -
  have p: "optionString (eGlobal savingEngine) ''save-session'' = ''/s''"
    by (simp add: savingEngine_def optionString_def optionValue_explicit)
  have sn: "sessionSnapshot exampleSessionLib savingEngine = []" by (simp add: sessionSnapshot_def savingEngine_def)
  obtain r fs' where s: "SaveSession exampleEnv exampleSessionLib (\<lambda>_. None) ''/s.tmp'' savingEngine (\<lambda>_. None) = (r, fs')" by fastforce
  then have "r = Inr ''OK''"
    by (auto simp: SaveSession_def p sn writeSessionFile_def sessionLines_def textOf_def maxSessionFileSize_def Let_def)
  moreover have "sessionText exampleEnv [] = Inr ''''"
    by (simp add: sessionText_def sessionLines_def textOf_def maxSessionFileSize_def)
  ultimately show ?thesis using SaveSession_atomic[OF _ _ s] s by (simp add: p sn)
qed

section \<open>Delayed saves\<close>

text \<open>
  The timer state of the engine. \<open>sqArmed\<close> are the timers that have not fired, \<open>sqRunning\<close> the
  callbacks that have started: before their critical section (\<open>None\<close>) or after it with the value of
  \<open>sessionSaveClosed\<close> they read. \<open>sqWG\<close> is the counter of \<open>sessionSaveWG\<close>.
\<close>

record saveQueue =
  sqClosed :: bool
  sqPending :: bool
  sqTimer :: "nat option"
  sqNext :: nat
  sqArmed :: "nat list"
  sqRunning :: "(nat \<times> bool option) list"
  sqWG :: int
  sqSaves :: nat

definition emptyQueue :: saveQueue where
  "emptyQueue = \<lparr>sqClosed = False, sqPending = False, sqTimer = None, sqNext = 0, sqArmed = [], sqRunning = [], sqWG = 0, sqSaves = 0\<rparr>"

definition queueSessionSaveBestEffort :: "bool \<Rightarrow> saveQueue \<Rightarrow> saveQueue" where
  "queueSessionSaveBestEffort configured q =
     (if \<not> configured then q
      else if sqClosed q \<or> sqPending q then q
      else q\<lparr>sqPending := True, sqWG := sqWG q + 1, sqArmed := sqNext q # sqArmed q, sqTimer := Some (sqNext q), sqNext := sqNext q + 1\<rparr>)"

text \<open>\<open>Stop\<close> returns true exactly when the timer has not fired; then the callback will not run.\<close>

definition stopTimer :: "saveQueue \<Rightarrow> saveQueue" where
  "stopTimer q =
     (case sqTimer q of
        None \<Rightarrow> q
      | Some n \<Rightarrow>
         (if n \<in> set (sqArmed q)
          then q\<lparr>sqArmed := filter (\<lambda>m. m \<noteq> n) (sqArmed q), sqWG := sqWG q - 1, sqTimer := None\<rparr>
          else q\<lparr>sqTimer := None\<rparr>))"

definition cancelQueuedSessionSave :: "saveQueue \<Rightarrow> saveQueue" where
  "cancelQueuedSessionSave q = (stopTimer q)\<lparr>sqPending := False\<rparr>"

text \<open>The critical section of \<open>closeQueuedSessionSaves\<close>; it then waits until the counter is zero.\<close>

definition closeQueuedSessionSaves :: "saveQueue \<Rightarrow> saveQueue" where
  "closeQueuedSessionSaves q = (stopTimer (q\<lparr>sqClosed := True\<rparr>))\<lparr>sqPending := False\<rparr>"

text \<open>The timer fires; the callback's critical section; the callback's save and its deferred \<open>Done\<close>.\<close>

definition fireTimer :: "nat \<Rightarrow> saveQueue \<Rightarrow> saveQueue" where
  "fireTimer n q = q\<lparr>sqArmed := filter (\<lambda>m. m \<noteq> n) (sqArmed q), sqRunning := (n, None) # sqRunning q\<rparr>"

definition callbackLocked :: "nat \<Rightarrow> saveQueue \<Rightarrow> saveQueue" where
  "callbackLocked n q =
     (let q1 = (if sqTimer q = Some n then q\<lparr>sqPending := False, sqTimer := None\<rparr> else q) in
      q1\<lparr>sqRunning := map (\<lambda>(m, ph). if m = n then (m, Some (sqClosed q)) else (m, ph)) (sqRunning q)\<rparr>)"

definition callbackDone :: "nat \<Rightarrow> bool \<Rightarrow> saveQueue \<Rightarrow> saveQueue" where
  "callbackDone n closed q =
     q\<lparr>sqSaves := (if closed then sqSaves q else sqSaves q + 1), sqRunning := filter (\<lambda>r. fst r \<noteq> n) (sqRunning q), sqWG := sqWG q - 1\<rparr>"

inductive qstep :: "saveQueue \<Rightarrow> saveQueue \<Rightarrow> bool" where
  queue: "qstep q (queueSessionSaveBestEffort configured q)"
| cancel: "qstep q (cancelQueuedSessionSave q)"
| close: "qstep q (closeQueuedSessionSaves q)"
| fire: "n \<in> set (sqArmed q) \<Longrightarrow> qstep q (fireTimer n q)"
| locked: "(n, None) \<in> set (sqRunning q) \<Longrightarrow> qstep q (callbackLocked n q)"
| finished: "(n, Some closed) \<in> set (sqRunning q) \<Longrightarrow> qstep q (callbackDone n closed q)"

definition queueInv :: "saveQueue \<Rightarrow> bool" where
  "queueInv q \<longleftrightarrow> distinct (sqArmed q @ map fst (sqRunning q)) \<and> sqWG q = int (length (sqArmed q) + length (sqRunning q)) \<and>
     (\<forall>n \<in> set (sqArmed q @ map fst (sqRunning q)). n < sqNext q) \<and>
     (sqPending q \<longleftrightarrow> sqTimer q \<noteq> None) \<and> (\<forall>n \<in> set (sqArmed q). sqTimer q = Some n) \<and>
     (\<forall>n. sqTimer q = Some n \<longrightarrow> n \<in> set (sqArmed q) \<or> (n, None) \<in> set (sqRunning q)) \<and>
     (sqClosed q \<longrightarrow> sqTimer q = None)"

lemma queueInv_armed:
  assumes "queueInv q" "n \<in> set (sqArmed q)"
  shows "sqArmed q = [n]" "sqTimer q = Some n"
proof -
  show t: "sqTimer q = Some n" using assms by (simp add: queueInv_def)
  have "\<forall>m \<in> set (sqArmed q). m = n" using assms(1) t unfolding queueInv_def by (metis option.inject)
  then have "set (sqArmed q) = {n}" using assms(2) by blast
  moreover have "distinct (sqArmed q)" using assms(1) by (simp add: queueInv_def)
  ultimately show "sqArmed q = [n]" using distinct_set_single by metis
qed

lemma queueInv_queue: "queueInv q \<Longrightarrow> queueInv (queueSessionSaveBestEffort configured q)"
proof (cases "configured \<and> \<not> sqClosed q \<and> \<not> sqPending q")
  case True
  assume inv: "queueInv q"
  have t: "sqTimer q = None" "sqArmed q = []"
    using inv True unfolding queueInv_def by (blast, metis list.set_intros(1) neq_Nil_conv option.distinct(1))
  have "sqNext q \<notin> set (map fst (sqRunning q))" "\<forall>n \<in> set (map fst (sqRunning q)). n < Suc (sqNext q)"
    using inv by (auto simp: queueInv_def less_SucI)
  then show ?thesis
    using inv True t unfolding queueInv_def queueSessionSaveBestEffort_def by simp
qed (auto simp: queueSessionSaveBestEffort_def)

lemma queueInv_stop:
  assumes "queueInv q"
  shows "queueInv ((stopTimer (q\<lparr>sqClosed := c\<rparr>))\<lparr>sqPending := False\<rparr>)"
proof (cases "sqTimer q")
  case None
  then show ?thesis using assms by (auto simp: queueInv_def stopTimer_def)
next
  case (Some n)
  show ?thesis
  proof (cases "n \<in> set (sqArmed q)")
    case True
    note a = queueInv_armed[OF assms True]
    show ?thesis using assms unfolding queueInv_def stopTimer_def by (simp add: a)
  next
    case False
    then have "sqArmed q = []" using assms Some by (auto simp: queueInv_def) (metis list.set_intros(1) neq_Nil_conv)
    then show ?thesis using assms Some unfolding queueInv_def stopTimer_def by simp
  qed
qed

lemma queueInv_fire:
  assumes "queueInv q" "n \<in> set (sqArmed q)" shows "queueInv (fireTimer n q)"
  using assms(1) queueInv_armed[OF assms] unfolding queueInv_def fireTimer_def by auto

lemma queueInv_locked:
  assumes "queueInv q" "(n, None) \<in> set (sqRunning q)" shows "queueInv (callbackLocked n q)"
proof -
  let ?r = "map (\<lambda>(m, ph). if m = n then (m, Some (sqClosed q)) else (m, ph)) (sqRunning q)"
  have f: "map fst ?r = map fst (sqRunning q)" by auto
  have "n \<in> set (map fst (sqRunning q))" using assms(2) by force
  then have na: "n \<notin> set (sqArmed q)" using assms(1) unfolding queueInv_def distinct_append by blast
  have k: "(m, None) \<in> set (sqRunning q) \<Longrightarrow> m \<noteq> n \<Longrightarrow> (m, None) \<in> set ?r" for m by force
  have len: "length ?r = length (sqRunning q)" by simp
  define r where "r = ?r"
  have fields: "sqRunning (callbackLocked n q) = r" "sqArmed (callbackLocked n q) = sqArmed q" "sqWG (callbackLocked n q) = sqWG q"
      "sqNext (callbackLocked n q) = sqNext q" "sqClosed (callbackLocked n q) = sqClosed q"
      "sqTimer (callbackLocked n q) = (if sqTimer q = Some n then None else sqTimer q)"
      "sqPending (callbackLocked n q) = (sqPending q \<and> sqTimer q \<noteq> Some n)"
    by (simp_all add: callbackLocked_def Let_def r_def)
  have "\<forall>m \<in> set (sqArmed q). sqTimer q = Some m \<and> sqTimer q \<noteq> Some n"
  proof
    fix m assume m: "m \<in> set (sqArmed q)"
    then have t: "sqTimer q = Some m" using queueInv_armed(2)[OF assms(1) m] by simp
    with m na show "sqTimer q = Some m \<and> sqTimer q \<noteq> Some n" by auto
  qed
  moreover have "\<forall>m. sqTimer q = Some m \<and> m \<noteq> n \<longrightarrow> m \<in> set (sqArmed q) \<or> (m, None) \<in> set r"
    using assms(1) k unfolding queueInv_def r_def by blast
  moreover from this have "\<forall>m. sqTimer q = Some m \<and> sqTimer q \<noteq> Some n \<longrightarrow> m \<in> set (sqArmed q) \<or> (m, None) \<in> set r" by metis
  ultimately show ?thesis
    using assms(1) unfolding queueInv_def fields f[folded r_def] len[folded r_def] by (simp split: if_splits) blast
qed

lemma queueInv_done:
  assumes "queueInv q" "(n, Some c) \<in> set (sqRunning q)" shows "queueInv (callbackDone n c q)"
proof -
  have d: "distinct (map fst (sqRunning q))" using assms(1) by (simp add: queueInv_def)
  obtain xs ys where r: "sqRunning q = xs @ (n, Some c) # ys" using assms(2) by (meson split_list)
  have "filter (\<lambda>r. fst r \<noteq> n) (sqRunning q) = xs @ ys"
  proof -
    have "n \<notin> fst ` set xs" "n \<notin> fst ` set ys" using d unfolding r by auto
    then have "filter (\<lambda>r. fst r \<noteq> n) xs = xs" "filter (\<lambda>r. fst r \<noteq> n) ys = ys" by (auto simp: filter_id_conv)
    then show ?thesis unfolding r by simp
  qed
  then have fields: "sqRunning (callbackDone n c q) = xs @ ys" "sqArmed (callbackDone n c q) = sqArmed q" "sqWG (callbackDone n c q) = sqWG q - 1"
      "sqNext (callbackDone n c q) = sqNext q" "sqClosed (callbackDone n c q) = sqClosed q" "sqTimer (callbackDone n c q) = sqTimer q"
      "sqPending (callbackDone n c q) = sqPending q"
    by (simp_all add: callbackDone_def)
  have "\<forall>m. sqTimer q = Some m \<longrightarrow> m \<in> set (sqArmed q) \<or> (m, None) \<in> set (xs @ ys)"
    using assms(1) unfolding queueInv_def r by auto
  moreover have "distinct (sqArmed q @ map fst (xs @ ys))" "\<forall>m \<in> set (sqArmed q @ map fst (xs @ ys)). m < sqNext q"
      "sqWG q - 1 = int (length (sqArmed q) + length (xs @ ys))"
    using assms(1) unfolding queueInv_def r by auto
  ultimately show ?thesis using assms(1) unfolding queueInv_def fields by blast
qed

lemma queueInv_step:
  assumes "queueInv q" "qstep q q'" shows "queueInv q'"
  using assms(2)
proof cases
  case cancel
  then show ?thesis using assms(1) queueInv_stop[of q "sqClosed q"] by (simp add: cancelQueuedSessionSave_def)
next
  case close
  then show ?thesis using assms(1) queueInv_stop by (simp add: closeQueuedSessionSaves_def)
qed (use assms(1) in \<open>simp_all add: queueInv_queue queueInv_fire queueInv_locked queueInv_done\<close>)

interpretation saveq: invariant_system "\<lambda>q. q = emptyQueue" qstep queueInv
  by unfold_locales (simp add: queueInv_def emptyQueue_def, rule queueInv_step)


text \<open>C39: The delayed saves are accounted for. In every reachable state the wait group counts exactly the
  timers and callbacks that are still to finish, so it never goes below zero; at most one timer is
  armed; a save that is pending has a timer or a callback that will perform it; and once saving has been
  closed and the counter has come to zero, no delayed save is left that could overwrite the final one.\<close>

theorem delayed_saves_accounted:
  assumes "qstep\<^sup>*\<^sup>* emptyQueue q"
  shows "0 \<le> sqWG q \<and> sqWG q = int (length (sqArmed q) + length (sqRunning q)) \<and> length (sqArmed q) \<le> 1
    \<and> (sqPending q \<longrightarrow> (\<exists>n. sqTimer q = Some n \<and> (n \<in> set (sqArmed q) \<or> (n, None) \<in> set (sqRunning q))))
    \<and> (sqClosed q \<longrightarrow> sqArmed q = []) \<and> (sqClosed q \<and> sqWG q = 0 \<longrightarrow> sqArmed q = [] \<and> sqRunning q = [])"
proof -
  have "saveq.reach q" unfolding saveq.reach_def using assms by blast
  then have inv: "queueInv q" by (rule saveq.reach_inv)
  have one: "sqArmed q = [] \<or> (\<exists>n. sqArmed q = [n] \<and> sqTimer q = Some n)"
    using queueInv_armed[OF inv] by (cases "sqArmed q") auto
  have c: "sqClosed q \<longrightarrow> sqTimer q = None" and w: "sqWG q = int (length (sqArmed q) + length (sqRunning q))"
    using inv unfolding queueInv_def by blast+
  have p: "sqPending q \<longrightarrow> (\<exists>n. sqTimer q = Some n \<and> (n \<in> set (sqArmed q) \<or> (n, None) \<in> set (sqRunning q)))"
    using inv unfolding queueInv_def by blast
  show ?thesis using one c w p by auto
qed

theorem delayed_saves_accounted_witness:
  "sqWG (closeQueuedSessionSaves (queueSessionSaveBestEffort True emptyQueue)) = 0 \<and>
   sqArmed (closeQueuedSessionSaves (queueSessionSaveBestEffort True emptyQueue)) = []"
proof -
  have "qstep\<^sup>*\<^sup>* emptyQueue (closeQueuedSessionSaves (queueSessionSaveBestEffort True emptyQueue))"
    by (meson qstep.queue qstep.close r_into_rtranclp rtranclp_trans)
  from delayed_saves_accounted[OF this] show ?thesis
    by (simp add: closeQueuedSessionSaves_def queueSessionSaveBestEffort_def emptyQueue_def stopTimer_def)
qed

end
