(* ===== verification/Json.thy ===== *)
theory Json
  imports Progress
begin

text \<open>
  The part of \<open>encoding/json\<close> the JSON-RPC handler uses, on bytes: the scanner that finds the end of a
  value (its states and its stack, one byte at a time), the token reader of \<open>json.Decoder\<close>, and the decoding of
  one value into a string, a number or an interface. On top of it the helpers of jsonrpc/rpc_params.go:
  \<open>decodeRawArrayLimited\<close>, \<open>decodeRawObjectLimited\<close>, \<open>requireJSONEOF\<close> and \<open>decodeUseNumber\<close>. A
  \<open>json.RawMessage\<close> is the bytes of its value.
\<close>

datatype jsonErr =
    SyntaxError
  | UnmarshalTypeError
  | JsonEOF
  | JsonUnexpectedEOF
  | TrailingJSONData
  | JSONCollectionTooLarge
  | ExpectedArray
  | ExpectedObject
  | DuplicateKey string

type_synonym 'a jres = "jsonErr + 'a"

definition bindJ :: "'a jres \<Rightarrow> ('a \<Rightarrow> 'b jres) \<Rightarrow> 'b jres" where
  "bindJ r f = (case r of Inl er \<Rightarrow> Inl er | Inr x \<Rightarrow> f x)"

lemma bindJ_simps [simp]: "bindJ (Inl er) f = Inl er" "bindJ (Inr x) f = f x"
  by (simp_all add: bindJ_def)

lemma bindJ_Inr: "bindJ r f = Inr y \<longleftrightarrow> (\<exists>x. r = Inr x \<and> f x = Inr y)"
  by (cases r) auto

section \<open>The scanner\<close>

definition jsonSpace :: "char \<Rightarrow> bool" where
  "jsonSpace c \<longleftrightarrow> c \<in> {CHR '' '', CHR 0x09, CHR 0x0D, CHR 0x0A}"

datatype nestState = ParseObjectKey | ParseObjectValue | ParseArrayValue

datatype scanState =
    BeginValue | BeginValueOrEmpty | BeginString | BeginStringOrEmpty | EndValue
  | InString | InStringEsc | InStringEscU nat
  | Neg | Digits1 | Digits0 | Dot | Dot0 | Exp | ExpSign | Exp0
  | Lit string

datatype scanOp = ScanContinue scanState "nestState list" | ScanEnd | ScanEndCollection "nestState list" | ScanError

definition maxNestingDepth :: nat where "maxNestingDepth = 10000"

definition pushState :: "scanState \<Rightarrow> nestState \<Rightarrow> nestState list \<Rightarrow> scanOp" where
  "pushState st p ps = (if length ps < maxNestingDepth then ScanContinue st (p # ps) else ScanError)"

definition stepEndValue :: "nestState list \<Rightarrow> char \<Rightarrow> scanOp" where
  "stepEndValue ps c =
     (case ps of
        [] \<Rightarrow> ScanEnd
      | p # qs \<Rightarrow>
         (if jsonSpace c then ScanContinue EndValue ps
          else (case p of
             ParseObjectKey \<Rightarrow> (if c = CHR '':'' then ScanContinue BeginValue (ParseObjectValue # qs) else ScanError)
           | ParseObjectValue \<Rightarrow>
               (if c = CHR '','' then ScanContinue BeginString (ParseObjectKey # qs)
                else if c = CHR ''}'' then ScanEndCollection qs else ScanError)
           | ParseArrayValue \<Rightarrow>
               (if c = CHR '','' then ScanContinue BeginValue ps
                else if c = CHR '']'' then ScanEndCollection qs else ScanError))))"

definition stepBeginValue :: "nestState list \<Rightarrow> char \<Rightarrow> scanOp" where
  "stepBeginValue ps c =
     (if jsonSpace c then ScanContinue BeginValue ps
      else if c = CHR ''{'' then pushState BeginStringOrEmpty ParseObjectKey ps
      else if c = CHR ''['' then pushState BeginValueOrEmpty ParseArrayValue ps
      else if c = CHR 0x22 then ScanContinue InString ps
      else if c = CHR ''-'' then ScanContinue Neg ps
      else if c = CHR ''0'' then ScanContinue Digits0 ps
      else if c = CHR ''t'' then ScanContinue (Lit ''rue'') ps
      else if c = CHR ''f'' then ScanContinue (Lit ''alse'') ps
      else if c = CHR ''n'' then ScanContinue (Lit ''ull'') ps
      else if isDigit c then ScanContinue Digits1 ps
      else ScanError)"

definition stepBeginString :: "scanState \<Rightarrow> nestState list \<Rightarrow> char \<Rightarrow> scanOp" where
  "stepBeginString st ps c =
     (if jsonSpace c then ScanContinue st ps
      else if c = CHR 0x22 then ScanContinue InString ps
      else ScanError)"

definition stepDigits0 :: "nestState list \<Rightarrow> char \<Rightarrow> scanOp" where
  "stepDigits0 ps c =
     (if c = CHR ''.'' then ScanContinue Dot ps
      else if c = CHR ''e'' \<or> c = CHR ''E'' then ScanContinue Exp ps
      else stepEndValue ps c)"

text \<open>One byte: the function the scanner's \<open>step\<close> field holds in each state.\<close>

fun scanStep :: "scanState \<Rightarrow> nestState list \<Rightarrow> char \<Rightarrow> scanOp" where
  "scanStep BeginValue ps c = stepBeginValue ps c"
| "scanStep BeginValueOrEmpty ps c =
     (if jsonSpace c then ScanContinue BeginValueOrEmpty ps
      else if c = CHR '']'' then stepEndValue ps c
      else stepBeginValue ps c)"
| "scanStep BeginString ps c = stepBeginString BeginString ps c"
| "scanStep BeginStringOrEmpty ps c =
     (if jsonSpace c then ScanContinue BeginStringOrEmpty ps
      else if c = CHR ''}'' then stepEndValue (ParseObjectValue # tl ps) c
      else stepBeginString BeginString ps c)"
| "scanStep EndValue ps c = stepEndValue ps c"
| "scanStep InString ps c =
     (if c = CHR 0x22 then ScanContinue EndValue ps
      else if c = CHR 0x5C then ScanContinue InStringEsc ps
      else if (of_char c :: nat) < 32 then ScanError
      else ScanContinue InString ps)"
| "scanStep InStringEsc ps c =
     (if c \<in> set [CHR ''b'', CHR ''f'', CHR ''n'', CHR ''r'', CHR ''t'', CHR 0x5C, CHR ''/'', CHR 0x22] then ScanContinue InString ps
      else if c = CHR ''u'' then ScanContinue (InStringEscU 3) ps
      else ScanError)"
| "scanStep (InStringEscU n) ps c =
     (if decodeHexNibble c = None then ScanError
      else ScanContinue (case n of 0 \<Rightarrow> InString | Suc m \<Rightarrow> InStringEscU m) ps)"
| "scanStep Neg ps c =
     (if c = CHR ''0'' then ScanContinue Digits0 ps else if isDigit c then ScanContinue Digits1 ps else ScanError)"
| "scanStep Digits1 ps c = (if isDigit c then ScanContinue Digits1 ps else stepDigits0 ps c)"
| "scanStep Digits0 ps c = stepDigits0 ps c"
| "scanStep Dot ps c = (if isDigit c then ScanContinue Dot0 ps else ScanError)"
| "scanStep Dot0 ps c =
     (if isDigit c then ScanContinue Dot0 ps
      else if c = CHR ''e'' \<or> c = CHR ''E'' then ScanContinue Exp ps
      else stepEndValue ps c)"
| "scanStep Exp ps c =
     (if c = CHR ''+'' \<or> c = CHR ''-'' then ScanContinue ExpSign ps
      else if isDigit c then ScanContinue Exp0 ps else ScanError)"
| "scanStep ExpSign ps c = (if isDigit c then ScanContinue Exp0 ps else ScanError)"
| "scanStep Exp0 ps c = (if isDigit c then ScanContinue Exp0 ps else stepEndValue ps c)"
| "scanStep (Lit w) ps c =
     (case w of
        [] \<Rightarrow> ScanError
      | x # xs \<Rightarrow> (if c = x then ScanContinue (if xs = [] then EndValue else Lit xs) ps else ScanError))"

text \<open>\<open>readValue\<close>: the number of bytes up to the end of the value. A string, a number or a literal ends before
  the byte that follows it, a collection with its closing byte; at the end of the input a space is tried.
  \<open>None\<close> in the error position means that the input ended inside the value.\<close>

fun readLen :: "scanState \<Rightarrow> nestState list \<Rightarrow> string \<Rightarrow> jsonErr option + nat" where
  "readLen st ps [] = (if scanStep st ps (CHR '' '') = ScanEnd then Inr 0 else Inl None)"
| "readLen st ps (c # cs) =
     (case scanStep st ps c of
        ScanEnd \<Rightarrow> Inr 0
      | ScanError \<Rightarrow> Inl (Some SyntaxError)
      | ScanContinue st' ps' \<Rightarrow> map_sum id Suc (readLen st' ps' cs)
      | ScanEndCollection ps' \<Rightarrow> (if ps' = [] then Inr 1 else map_sum id Suc (readLen EndValue ps' cs)))"

definition skipSpace :: "string \<Rightarrow> string" where
  "skipSpace s = dropWhile jsonSpace s"

definition readValue :: "string \<Rightarrow> (string \<times> string) jres" where
  "readValue s =
     (case readLen BeginValue [] s of
        Inr n \<Rightarrow> Inr (skipSpace (take n s), drop n s)
      | Inl (Some er) \<Rightarrow> Inl er
      | Inl None \<Rightarrow> Inl (if skipSpace s = [] then JsonEOF else JsonUnexpectedEOF))"

section \<open>Strings\<close>

definition rune :: "nat \<Rightarrow> string" where
  "rune r =
     (if r < 128 then [char_of r]
      else if r < 2048 then [char_of (192 + r div 64), char_of (128 + r mod 64)]
      else if r < 65536 then [char_of (224 + r div 4096), char_of (128 + r div 64 mod 64), char_of (128 + r mod 64)]
      else [char_of (240 + r div 262144), char_of (128 + r div 4096 mod 64), char_of (128 + r div 64 mod 64), char_of (128 + r mod 64)])"

definition runeError :: nat where "runeError = 65533"

definition byteIn :: "nat \<Rightarrow> nat \<Rightarrow> char \<Rightarrow> bool" where
  "byteIn a b c \<longleftrightarrow> a \<le> (of_char c :: nat) \<and> (of_char c :: nat) \<le> b"

text \<open>The length of the UTF-8 sequence a string starts with, 0 when it starts with an invalid byte.\<close>

definition utf8Len :: "string \<Rightarrow> nat" where
  "utf8Len s =
     (let seq = (\<lambda>a lo hi n. byteIn a a (hd s) \<and> length s \<ge> n \<and> byteIn lo hi (s ! 1) \<and> list_all (byteIn 128 191) (drop 2 (take n s)));
          run = (\<lambda>a b n. byteIn a b (hd s) \<and> length s \<ge> n \<and> list_all (byteIn 128 191) (drop 1 (take n s))) in
      if s = [] then 0
      else if byteIn 0 127 (hd s) then 1
      else if run 194 223 2 then 2
      else if seq 224 160 191 3 \<or> run 225 236 3 \<or> seq 237 128 159 3 \<or> run 238 239 3 then 3
      else if seq 240 144 191 4 \<or> run 241 243 4 \<or> seq 244 128 143 4 then 4
      else 0)"

text \<open>\<open>getu4\<close>: the code unit of an escape with four hexadecimal digits.\<close>

definition getu4 :: "string \<Rightarrow> nat option" where
  "getu4 s =
     (if length s \<ge> 6 \<and> take 2 s = [CHR 0x5C, CHR ''u''] \<and> list_all (\<lambda>c. decodeHexNibble c \<noteq> None) (take 4 (drop 2 s))
      then Some (fold (\<lambda>c n. 16 * n + the (decodeHexNibble c)) (take 4 (drop 2 s)) 0)
      else None)"

definition isSurrogate :: "nat \<Rightarrow> bool" where
  "isSurrogate r \<longleftrightarrow> 55296 \<le> r \<and> r < 57344"

definition surrogatePair :: "nat \<Rightarrow> nat option \<Rightarrow> nat option" where
  "surrogatePair r1 second =
     (case second of
        None \<Rightarrow> None
      | Some r2 \<Rightarrow>
         (if 55296 \<le> r1 \<and> r1 < 56320 \<and> 56320 \<le> r2 \<and> r2 < 57344
          then Some (65536 + (r1 - 55296) * 1024 + (r2 - 56320)) else None))"

text \<open>\<open>unquoteBytes\<close> on what stands between the quotes: the bytes that replace the front of the string, and how
  many bytes they replace.\<close>

definition unquoteHead :: "string \<Rightarrow> string \<times> nat" where
  "unquoteHead s =
     (if hd s = CHR 0x5C
      then (case getu4 s of
          Some r \<Rightarrow>
            (if isSurrogate r
             then (case surrogatePair r (getu4 (drop 6 s)) of Some q \<Rightarrow> (rune q, 12) | None \<Rightarrow> (rune runeError, 6))
             else (rune r, 6))
        | None \<Rightarrow>
            (let c = s ! 1 in
             ([if c = CHR ''b'' then CHR 0x08 else if c = CHR ''f'' then CHR 0x0C else if c = CHR ''n'' then CHR 0x0A
               else if c = CHR ''r'' then CHR 0x0D else if c = CHR ''t'' then CHR 0x09 else c], 2)))
      else (let n = utf8Len s in if n = 0 then (rune runeError, 1) else (take n s, n)))"

lemma unquoteHead_pos: "0 < snd (unquoteHead s)"
  by (auto simp: unquoteHead_def Let_def split: option.splits)

function unquote :: "string \<Rightarrow> string" where
  "unquote s = (if s = [] then [] else fst (unquoteHead s) @ unquote (drop (snd (unquoteHead s)) s))"
  by pat_completeness auto
termination
  by (relation "measure length") (auto simp: unquoteHead_pos)

declare unquote.simps [simp del]

section \<open>Decoding one value\<close>

datatype jsonAny = AnyNil | AnyBool bool | AnyNumber string | AnyString string | AnyArray | AnyObject

text \<open>What decoding a value into an interface gives; the contents of collections are not needed.\<close>

definition decodeAny :: "string \<Rightarrow> jsonAny" where
  "decodeAny raw =
     (let c = hd raw in
      if c = CHR 0x22 then AnyString (unquote (butlast (tl raw)))
      else if c = CHR ''{'' then AnyObject
      else if c = CHR ''['' then AnyArray
      else if c = CHR ''t'' then AnyBool True
      else if c = CHR ''f'' then AnyBool False
      else if c = CHR ''n'' then AnyNil
      else AnyNumber raw)"

text \<open>Decoding into a string variable that is empty before: null leaves it empty.\<close>

definition intoString :: "jsonAny \<Rightarrow> string jres" where
  "intoString v = (case v of AnyString s \<Rightarrow> Inr s | AnyNil \<Rightarrow> Inr '''' | _ \<Rightarrow> Inl UnmarshalTypeError)"

text \<open>Decoding into a \<open>json.Number\<close>, for a value that does not start with a quote.\<close>

definition intoNumber :: "jsonAny \<Rightarrow> string jres" where
  "intoNumber v = (case v of AnyNumber s \<Rightarrow> Inr s | AnyNil \<Rightarrow> Inr '''' | _ \<Rightarrow> Inl UnmarshalTypeError)"

definition intoAny :: "jsonAny \<Rightarrow> jsonAny jres" where
  "intoAny v = Inr v"

definition requireJSONEOF :: "string \<Rightarrow> unit jres" where
  "requireJSONEOF s =
     (case readValue s of
        Inl er \<Rightarrow> (if er = JsonEOF then Inr () else Inl er)
      | Inr _ \<Rightarrow> Inl TrailingJSONData)"

definition decodeUseNumber :: "(jsonAny \<Rightarrow> 'a jres) \<Rightarrow> string \<Rightarrow> 'a jres" where
  "decodeUseNumber into dat =
     bindJ (readValue dat) (\<lambda>(raw, rest). bindJ (into (decodeAny raw)) (\<lambda>v. bindJ (requireJSONEOF rest) (\<lambda>_. Inr v)))"

section \<open>Collections\<close>

text \<open>The loop of \<open>decodeRawArrayLimited\<close> after the opening bracket: \<open>started\<close> says that an element was
  read, so that the next one follows a comma, and \<open>left\<close> is how many more elements are allowed. The result is
  the elements and what follows the closing bracket.\<close>

function arrayItems :: "bool \<Rightarrow> nat \<Rightarrow> string \<Rightarrow> (string list \<times> string) jres" where
  "arrayItems started left s =
     (case skipSpace s of
        [] \<Rightarrow> Inl JsonEOF
      | c # t \<Rightarrow>
         (if c = CHR '']'' then Inr ([], t)
          else if c = CHR ''}'' then Inl SyntaxError
          else if left = 0 then Inl JSONCollectionTooLarge
          else if started \<and> c \<noteq> CHR '','' then Inl SyntaxError
          else
            (case readValue (if started then t else c # t) of
               Inl er \<Rightarrow> Inl er
             | Inr (item, rest) \<Rightarrow>
                (case arrayItems True (left - 1) rest of
                   Inl er \<Rightarrow> Inl er
                 | Inr (items, after) \<Rightarrow> Inr (item # items, after)))))"
  by pat_completeness auto
termination
  by (relation "measure (\<lambda>(started, left, s). left)") auto

declare arrayItems.simps [simp del]

text \<open>The first call of \<open>dec.Token\<close>: it has to open the collection; \<open>wrong\<close> is the error for any other token.\<close>

definition firstToken :: "char \<Rightarrow> jsonErr \<Rightarrow> string \<Rightarrow> string jres" where
  "firstToken c wrong dat =
     (case skipSpace dat of
        [] \<Rightarrow> Inl JsonEOF
      | d # t \<Rightarrow>
         (if d = c then Inr t
          else if d = CHR ''['' \<or> d = CHR ''{'' then Inl wrong
          else if d = CHR '']'' \<or> d = CHR ''}'' \<or> d = CHR '':'' \<or> d = CHR '','' then Inl SyntaxError
          else bindJ (readValue (d # t)) (\<lambda>_. Inl wrong)))"

definition decodeRawArrayLimited :: "string \<Rightarrow> nat \<Rightarrow> string list jres" where
  "decodeRawArrayLimited dat maxItems =
     bindJ (firstToken (CHR ''['') ExpectedArray dat) (\<lambda>t.
     bindJ (arrayItems False maxItems t) (\<lambda>(items, rest).
     bindJ (requireJSONEOF rest) (\<lambda>_. Inr items)))"

text \<open>The key of the next field: after a comma unless it is the first.\<close>

definition keyStart :: "bool \<Rightarrow> string \<Rightarrow> string jres" where
  "keyStart started s =
     (case (if started then (case s of [] \<Rightarrow> Inl JsonEOF | c # t \<Rightarrow> if c = CHR '','' then Inr (skipSpace t) else Inl SyntaxError)
            else Inr s) of
        Inl er \<Rightarrow> Inl er
      | Inr [] \<Rightarrow> Inl JsonEOF
      | Inr (c # t) \<Rightarrow> (if c = CHR 0x22 then Inr (c # t) else Inl SyntaxError))"

definition readField :: "bool \<Rightarrow> string list \<Rightarrow> string \<Rightarrow> ((string \<times> string) \<times> string) jres" where
  "readField started keys s =
     bindJ (keyStart started s) (\<lambda>u.
     bindJ (readValue u) (\<lambda>(rawKey, r1).
     bindJ (intoString (decodeAny rawKey)) (\<lambda>key.
     if key \<in> set keys then Inl (DuplicateKey key)
     else (case skipSpace r1 of
         [] \<Rightarrow> Inl JsonEOF
       | c # t \<Rightarrow>
          (if c \<noteq> CHR '':'' then Inl SyntaxError
           else bindJ (readValue t) (\<lambda>(val, rest). Inr ((key, val), rest)))))))"

function objectFields :: "string list \<Rightarrow> nat \<Rightarrow> string \<Rightarrow> ((string \<times> string) list \<times> string) jres" where
  "objectFields keys left s =
     (case skipSpace s of
        [] \<Rightarrow> Inl JsonEOF
      | c # t \<Rightarrow>
         (if c = CHR ''}'' then Inr ([], t)
          else if c = CHR '']'' then Inl SyntaxError
          else if left = 0 then Inl JSONCollectionTooLarge
          else
            (case readField (keys \<noteq> []) keys (c # t) of
               Inl er \<Rightarrow> Inl er
             | Inr (field, rest) \<Rightarrow>
                (case objectFields (fst field # keys) (left - 1) rest of
                   Inl er \<Rightarrow> Inl er
                 | Inr (kvs, after) \<Rightarrow> Inr (field # kvs, after)))))"
  by pat_completeness auto
termination
  by (relation "measure (\<lambda>(keys, left, s). left)") auto

declare objectFields.simps [simp del]

definition decodeRawObjectLimited :: "string \<Rightarrow> nat \<Rightarrow> (string \<times> string) list jres" where
  "decodeRawObjectLimited dat maxFields =
     bindJ (firstToken (CHR ''{'') ExpectedObject dat) (\<lambda>t.
     bindJ (objectFields [] maxFields t) (\<lambda>(kvs, rest).
     bindJ (requireJSONEOF rest) (\<lambda>_. Inr kvs)))"

definition isJSONParseError :: "jsonErr \<Rightarrow> bool" where
  "isJSONParseError er \<longleftrightarrow> er \<in> {SyntaxError, JsonEOF, JsonUnexpectedEOF, TrailingJSONData}"

section \<open>What the decoder reads\<close>

text \<open>The bytes of one value, with no space before it: what the elements of a decoded collection are.\<close>

definition compactValue :: "string \<Rightarrow> bool" where
  "compactValue v \<longleftrightarrow> v \<noteq> [] \<and> \<not> jsonSpace (hd v) \<and> readLen BeginValue [] v = Inr (length v)"

definition encodeArray :: "string list \<Rightarrow> string" where
  "encodeArray items = ''['' @ Join items '','' @ '']''"

lemma stepEndValue_end: "stepEndValue ps c = ScanEnd \<longleftrightarrow> ps = []"
  by (auto simp: stepEndValue_def split: list.splits nestState.splits)

lemma pushState_not_end: "pushState st p ps \<noteq> ScanEnd"
  by (simp add: pushState_def)

lemma stepBegin_not_end: "stepBeginValue ps c \<noteq> ScanEnd" "stepBeginString st ps c \<noteq> ScanEnd"
  by (simp_all add: stepBeginValue_def stepBeginString_def pushState_not_end)

lemmas not_end = stepEndValue_end pushState_not_end stepBegin_not_end

text \<open>A value that ends before one byte ends before a space and before every separator too.\<close>

definition openState :: "scanState \<Rightarrow> nestState list \<Rightarrow> bool" where
  "openState st ps \<longleftrightarrow> (st = BeginValueOrEmpty \<longrightarrow> ps \<noteq> [])"

definition separators :: "char set" where
  "separators = {CHR '' '', CHR '','', CHR '']'', CHR ''}''}"

lemma scanEnd_where:
  "scanStep st ps c = ScanEnd \<Longrightarrow> ps = [] \<and> st \<in> {BeginValueOrEmpty, EndValue, Digits1, Digits0, Dot0, Exp0}"
  by (cases st) (auto simp: not_end stepDigits0_def split: if_splits list.splits)

lemma separator_plain:
  "d \<in> separators \<Longrightarrow> \<not> isDigit d \<and> d \<noteq> CHR ''.'' \<and> d \<noteq> CHR ''e'' \<and> d \<noteq> CHR ''E''"
  by (auto simp: separators_def isDigit_def)

lemma scanEnd_any:
  assumes "scanStep st ps c = ScanEnd" "d \<in> separators" "openState st ps"
  shows "scanStep st ps d = ScanEnd"
  using scanEnd_where[OF assms(1)] separator_plain[OF assms(2)] assms(3)
  by (auto simp: openState_def not_end stepDigits0_def)

lemma openState_step: "scanStep st ps c = ScanContinue st' ps' \<Longrightarrow> openState st ps \<Longrightarrow> openState st' ps'"
  by (cases st) (auto simp: openState_def stepEndValue_def stepBeginValue_def stepBeginString_def stepDigits0_def pushState_def
    split: if_splits list.splits nat.splits nestState.splits)

lemma map_sum_Inr: "map_sum id f r = Inr n \<longleftrightarrow> (\<exists>m. r = Inr m \<and> n = f m)"
  by (cases r) auto

lemma readLen_append:
  assumes "readLen st ps v = Inr (length v)" "openState st ps" "d \<in> separators"
  shows "readLen st ps (v @ d # t) = Inr (length v)"
  using assms(1,2)
proof (induction v arbitrary: st ps)
  case Nil
  then have "scanStep st ps (CHR '' '') = ScanEnd" by (simp split: if_splits)
  then show ?case using scanEnd_any[OF _ assms(3) Nil(2)] by simp
next
  case (Cons c cs)
  show ?case
  proof (cases "scanStep st ps c")
    case (ScanContinue st' ps')
    then show ?thesis using Cons openState_step[OF ScanContinue Cons.prems(2)] by (auto simp: map_sum_Inr)
  next
    case (ScanEndCollection ps')
    then show ?thesis using Cons by (auto simp: map_sum_Inr openState_def split: if_splits)
  qed (use Cons.prems in simp_all)
qed

lemma readLen_take:
  assumes "readLen st ps s = Inr n" "openState st ps"
  shows "readLen st ps (take n s) = Inr n \<and> n \<le> length s"
  using assms
proof (induction s arbitrary: st ps n)
  case Nil
  then show ?case by (simp split: if_splits)
next
  case (Cons c cs)
  show ?case
  proof (cases "scanStep st ps c")
    case (ScanContinue st' ps')
    then show ?thesis using Cons openState_step[OF ScanContinue Cons.prems(2)] by (auto simp: map_sum_Inr)
  next
    case (ScanEndCollection ps')
    then show ?thesis using Cons by (auto simp: map_sum_Inr openState_def split: if_splits)
  next
    case ScanEnd
    then show ?thesis using Cons.prems scanEnd_any[OF ScanEnd _ Cons.prems(2), of "CHR '' ''"] by (simp add: separators_def)
  qed (use Cons.prems in simp)
qed

lemma readLen_space: "jsonSpace c \<Longrightarrow> readLen BeginValue [] (c # s) = map_sum id Suc (readLen BeginValue [] s)"
  by (simp add: stepBeginValue_def)

lemma readLen_skip:
  "readLen BeginValue [] s = Inr n \<Longrightarrow>
   readLen BeginValue [] (skipSpace (take n s)) = Inr (length (skipSpace (take n s))) \<and> skipSpace (take n s) \<noteq> []"
proof (induction s arbitrary: n)
  case Nil
  then show ?case by (simp add: not_end stepBeginValue_def jsonSpace_def split: if_splits)
next
  case (Cons c s)
  show ?case
  proof (cases "jsonSpace c")
    case True
    then obtain m where "readLen BeginValue [] s = Inr m" "n = Suc m"
      using Cons.prems readLen_space[OF True] by (auto simp: map_sum_Inr)
    then show ?thesis using Cons.IH[of m] True by (simp add: skipSpace_def)
  next
    case False
    have "n \<noteq> 0"
      using Cons.prems by (auto simp: not_end map_sum_Inr split: scanOp.splits if_splits)
    then have "skipSpace (take n (c # s)) = take n (c # s)" using False by (cases n) (simp_all add: skipSpace_def)
    moreover have "n \<le> length (c # s)" "readLen BeginValue [] (take n (c # s)) = Inr n"
      using readLen_take[OF Cons.prems] by (simp_all add: openState_def)
    ultimately show ?thesis using \<open>n \<noteq> 0\<close> by simp
  qed
qed

lemma readValue_compact:
  assumes "readValue s = Inr (v, rest)" shows "compactValue v"
proof -
  obtain n where n: "readLen BeginValue [] s = Inr n" "v = skipSpace (take n s)"
    using assms by (auto simp: readValue_def split: sum.splits option.splits)
  then have "\<not> jsonSpace (hd v)" using readLen_skip[OF n(1)] hd_dropWhile[of jsonSpace "take n s"]
    by (simp add: skipSpace_def)
  then show ?thesis using readLen_skip[OF n(1)] n(2) by (simp add: compactValue_def)
qed

lemma readValue_at:
  assumes "compactValue v" "d \<in> separators" shows "readValue (v @ d # t) = Inr (v, d # t)"
  using assms readLen_append[of BeginValue "[]" v d t]
  by (auto simp: readValue_def compactValue_def openState_def skipSpace_def neq_Nil_conv)

lemma arrayItems_sound:
  "arrayItems started n s = Inr (items, rest) \<Longrightarrow> length items \<le> n \<and> list_all compactValue items"
proof (induction started n s arbitrary: items rest rule: arrayItems.induct)
  case (1 started left s)
  note step = arrayItems.simps[of started left s]
  obtain c t where ct: "skipSpace s = c # t" using "1.prems" by (cases "skipSpace s") (simp_all add: step)
  show ?case
  proof (cases "c = CHR '']''")
    case True
    then show ?thesis using "1.prems" ct by (simp add: step)
  next
    case False
    have more: "c \<noteq> CHR ''}''" "left \<noteq> 0" "\<not> (started \<and> c \<noteq> CHR '','')"
      using "1.prems" ct False by (auto simp: step split: if_splits)
    obtain v r where v: "readValue (if started then t else c # t) = Inr (v, r)"
      using "1.prems" ct False more by (cases "readValue (if started then t else c # t)") (auto simp: step)
    obtain vs r' where vs: "arrayItems True (left - 1) r = Inr (vs, r')" "items = v # vs"
      using "1.prems" ct False more v by (cases "arrayItems True (left - 1) r") (auto simp: step)
    have "length vs \<le> left - 1 \<and> list_all compactValue vs"
      using "1.IH"[OF ct False more v refl vs(1)] .
    then show ?thesis using vs(2) more(2) readValue_compact[OF v] by auto
  qed
qed

definition moreItems :: "string list \<Rightarrow> string" where
  "moreItems items = concat (map (\<lambda>v. CHR '','' # v) items)"

lemma Join_moreItems: "Join (v # vs) '','' = v @ moreItems vs"
  by (induction vs arbitrary: v) (simp_all add: moreItems_def)

lemma moreItems_sep: "\<exists>d t. d \<in> separators \<and> moreItems vs @ CHR '']'' # rest = d # t"
  by (cases vs) (simp_all add: moreItems_def separators_def)

lemma compactValue_hd: "compactValue v \<Longrightarrow> hd v \<noteq> CHR '']'' \<and> hd v \<noteq> CHR ''}''"
proof -
  have "stepBeginValue [] (CHR '']'') = ScanError" "stepBeginValue [] (CHR ''}'') = ScanError" by code_simp+
  then show "compactValue v \<Longrightarrow> hd v \<noteq> CHR '']'' \<and> hd v \<noteq> CHR ''}''"
    by (cases v) (auto simp: compactValue_def)
qed

lemma skipSpace_compact: "compactValue v \<Longrightarrow> skipSpace (v @ s) = v @ s"
  by (cases v) (simp_all add: compactValue_def skipSpace_def)

lemma arrayItems_more:
  "list_all compactValue items \<Longrightarrow> length items \<le> n \<Longrightarrow>
   arrayItems True n (moreItems items @ CHR '']'' # rest) = Inr (items, rest)"
proof (induction items arbitrary: n)
  case Nil
  then show ?case by (subst arrayItems.simps) (simp add: moreItems_def skipSpace_def jsonSpace_def)
next
  case (Cons v vs)
  obtain d t where dt: "d \<in> separators" "moreItems vs @ CHR '']'' # rest = d # t" using moreItems_sep by blast
  have "readValue (v @ moreItems vs @ CHR '']'' # rest) = Inr (v, moreItems vs @ CHR '']'' # rest)"
    using readValue_at[of v d t] Cons.prems dt by simp
  moreover have "arrayItems True (n - 1) (moreItems vs @ CHR '']'' # rest) = Inr (vs, rest)"
    using Cons.prems by (intro Cons.IH) auto
  moreover have "moreItems (v # vs) = CHR '','' # v @ moreItems vs" by (simp add: moreItems_def)
  ultimately show ?case using Cons.prems by (subst arrayItems.simps) (simp add: skipSpace_def jsonSpace_def)
qed

lemma arrayItems_encode:
  assumes "list_all compactValue items" "length items \<le> n"
  shows "arrayItems False n (Join items '','' @ CHR '']'' # rest) = Inr (items, rest)"
proof (cases items)
  case Nil
  then show ?thesis by (subst arrayItems.simps) (simp add: skipSpace_def jsonSpace_def)
next
  case (Cons v vs)
  then have v: "compactValue v" and vs: "list_all compactValue vs" "length vs \<le> n - 1" "n \<noteq> 0" using assms by auto
  let ?s = "v @ moreItems vs @ CHR '']'' # rest"
  obtain d t where "d \<in> separators" "moreItems vs @ CHR '']'' # rest = d # t" using moreItems_sep by blast
  then have read: "readValue ?s = Inr (v, moreItems vs @ CHR '']'' # rest)" using readValue_at[of v d t] v by simp
  obtain c u where cu: "v = c # u" using v by (cases v) (simp_all add: compactValue_def)
  then have "skipSpace ?s = c # u @ moreItems vs @ CHR '']'' # rest" using skipSpace_compact[OF v] by simp
  moreover have "c \<noteq> CHR '']''" "c \<noteq> CHR ''}''" using compactValue_hd[OF v] cu by simp_all
  ultimately have "arrayItems False n ?s = Inr (v # vs, rest)"
    using read arrayItems_more[OF vs(1,2)] vs(3) cu by (subst arrayItems.simps) simp
  then show ?thesis unfolding Cons Join_moreItems by simp
qed

text \<open>C25: The elements of a decoded array are complete values, at most as many as allowed; written out again
  they decode to the same elements. In particular nothing of an element is lost or added.\<close>

theorem decodeRawArrayLimited_roundtrip:
  assumes "decodeRawArrayLimited dat n = Inr items"
  shows "length items \<le> n \<and> list_all compactValue items \<and> decodeRawArrayLimited (encodeArray items) n = Inr items"
proof -
  obtain started s rest where "arrayItems started n s = Inr (items, rest)"
    using assms by (auto simp: decodeRawArrayLimited_def bindJ_Inr)
  then have items: "length items \<le> n" "list_all compactValue items" using arrayItems_sound by blast+
  have "firstToken (CHR ''['') ExpectedArray (encodeArray items) = Inr (Join items '','' @ '']'')"
    by (simp add: firstToken_def encodeArray_def skipSpace_def jsonSpace_def)
  moreover have "requireJSONEOF [] = Inr ()"
    by (simp add: requireJSONEOF_def readValue_def stepBeginValue_def jsonSpace_def skipSpace_def)
  ultimately show ?thesis using items arrayItems_encode[OF items(2,1), of "[]"] by (simp add: decodeRawArrayLimited_def)
qed

theorem decodeRawArrayLimited_roundtrip_witness:
  "decodeRawArrayLimited ''[ 1, {} ]'' 2 = Inr [''1'', ''{}''] \<and>
   decodeRawArrayLimited (encodeArray [''1'', ''{}'']) 2 = Inr [''1'', ''{}'']"
proof -
  have "decodeRawArrayLimited ''[ 1, {} ]'' 2 = Inr [''1'', ''{}'']" by code_simp
  then show ?thesis using decodeRawArrayLimited_roundtrip[of "''[ 1, {} ]''" 2 "[''1'', ''{}'']"] by simp
qed

end
