(* ===== verification/Rpc.thy ===== *)
theory Rpc
  imports Session_Save Query Json
begin

text \<open>
  The JSON-RPC handler: jsonrpc/rpc.go, rpc_methods.go and the parameters of rpc_params.go. A payload is
  the bytes of a request; a reply is the response or the responses as values, before \<open>json.Marshal\<close> prints them. The
  handler works on the engine and, for \<open>aria2.saveSession\<close>, the files. The number of calls that met the
  world outside selects what they met: a random gid, a fetched torrent, the faults of the file system.
\<close>

section \<open>Values, errors, state\<close>

record VersionInfo =
  viVersion :: string
  viEnabledFeatures :: "string list"

datatype rpcErr = CallError int string | EngineErr err | Unauthorized | JsonErr jsonErr

datatype rpcMessage = MsgText string | MsgErr err

record rpcErrorBody =
  rbCode :: int
  rbMessage :: rpcMessage

datatype rpcResult =
    RString string
  | RStrings "string list"
  | RInt int
  | RInts "int list"
  | RStatus "(string \<times> statusVal) list"
  | RStatuses "(string \<times> statusVal) list list"
  | RUris "uriInfo list"
  | RFiles "FileInfo list"
  | RPeers "(string \<times> string) list list"
  | RServers "(string \<times> ServerInfo list) list"
  | ROptions options
  | RStat GlobalStat
  | RVersion VersionInfo
  | RSession string
  | RMulti "(rpcErrorBody + rpcResult) list"

record rpcCall =
  cJSONRPC :: string
  cMethod :: string
  cParams :: "string list"
  cID :: "string option"
  cHasID :: bool

record rpcResponse =
  rrID :: "string option"
  rrBody :: "rpcErrorBody + rpcResult"

datatype rpcReply = Single rpcResponse | Batch "rpcResponse list"

record rpcState =
  rpE :: Engine
  rpFiles :: files
  rpTick :: nat

record rpcEnv =
  rvSys :: sysEnv
  rvQuery :: queryEnv
  rvLib :: sessionLib
  rvRandom :: "nat \<Rightarrow> string"
  rvFetched :: "nat \<Rightarrow> string \<Rightarrow> string res"
  rvFault :: "nat \<Rightarrow> fsOp \<Rightarrow> err option"
  rvTmpName :: "nat \<Rightarrow> string"

type_synonym 'a rres = "rpcErr + 'a"
type_synonym rpcOp = "rpcState \<Rightarrow> rpcResult rres \<times> rpcState"

definition rpcParseError :: int where "rpcParseError = -32700"
definition rpcInvalidRequest :: int where "rpcInvalidRequest = -32600"
definition rpcMethodNotFound :: int where "rpcMethodNotFound = -32601"
definition rpcInvalidParams :: int where "rpcInvalidParams = -32602"
definition rpcAriaError :: int where "rpcAriaError = 1"
definition maxBatchCalls :: nat where "maxBatchCalls = 64"
definition maxMulticallCalls :: nat where "maxMulticallCalls = 64"
definition maxRPCIDStringLen :: nat where "maxRPCIDStringLen = 64"
definition maxSafeIntegerID :: int where "maxSafeIntegerID = 9007199254740991"
definition maxStringListItems :: nat where "maxStringListItems = 64"
definition maxOptionCount :: nat where "maxOptionCount = 128"
definition maxRPCParams :: nat where "maxRPCParams = 8"
definition maxRPCObjectFields :: nat where "maxRPCObjectFields = 16"

definition rpcMethods :: "string list" where
  "rpcMethods =
     [''aria2.addUri'', ''aria2.addTorrent'', ''aria2.remove'', ''aria2.forceRemove'', ''aria2.pause'', ''aria2.pauseAll'',
      ''aria2.forcePause'', ''aria2.forcePauseAll'', ''aria2.unpause'', ''aria2.unpauseAll'', ''aria2.tellStatus'',
      ''aria2.getUris'', ''aria2.getFiles'', ''aria2.getPeers'', ''aria2.getServers'', ''aria2.tellActive'',
      ''aria2.tellWaiting'', ''aria2.tellStopped'', ''aria2.changePosition'', ''aria2.changeUri'', ''aria2.getOption'',
      ''aria2.changeOption'', ''aria2.getGlobalOption'', ''aria2.changeGlobalOption'', ''aria2.getGlobalStat'',
      ''aria2.purgeDownloadResult'', ''aria2.removeDownloadResult'', ''aria2.getVersion'', ''aria2.getSessionInfo'',
      ''aria2.shutdown'', ''aria2.forceShutdown'', ''aria2.saveSession'', ''system.multicall'', ''system.listMethods'',
      ''system.listNotifications'']"

definition notificationMethods :: "string list" where
  "notificationMethods =
     [''aria2.onDownloadStart'', ''aria2.onDownloadPause'', ''aria2.onDownloadStop'', ''aria2.onDownloadComplete'',
      ''aria2.onDownloadError'', ''aria2.onBtDownloadComplete'']"

definition invalidParams :: rpcErr where
  "invalidParams = CallError rpcInvalidParams ''Invalid params''"

section \<open>Parameters\<close>

text \<open>Every failure to decode a parameter is reported as invalid parameters.\<close>

definition orInvalid :: "'a jres \<Rightarrow> 'a rres" where
  "orInvalid r = (case r of Inl er \<Rightarrow> Inl invalidParams | Inr x \<Rightarrow> Inr x)"

definition bindP :: "'a rres \<Rightarrow> ('a \<Rightarrow> 'b rres) \<Rightarrow> 'b rres" where
  "bindP r f = (case r of Inl er \<Rightarrow> Inl er | Inr x \<Rightarrow> f x)"

definition startsWith :: "string \<Rightarrow> char \<Rightarrow> bool" where
  "startsWith s c \<longleftrightarrow> s \<noteq> [] \<and> hd s = c"

definition stringParam :: "string list \<Rightarrow> nat \<Rightarrow> string rres" where
  "stringParam params i =
     (if i \<ge> length params then Inl invalidParams
      else
        (let trimmed = TrimSpace (params ! i) in
         if \<not> startsWith trimmed (CHR 0x22) then Inl invalidParams
         else orInvalid (decodeUseNumber intoString trimmed)))"

fun stringItems :: "string list \<Rightarrow> string list rres" where
  "stringItems [] = Inr []"
| "stringItems (raw # raws) =
     bindP (orInvalid (decodeUseNumber intoString raw)) (\<lambda>item. bindP (stringItems raws) (\<lambda>items. Inr (item # items)))"

definition stringSliceParam :: "string list \<Rightarrow> nat \<Rightarrow> string list rres" where
  "stringSliceParam params i =
     (if i \<ge> length params then Inl invalidParams
      else
        (let trimmed = TrimSpace (params ! i) in
         if \<not> startsWith trimmed (CHR ''['') then Inl invalidParams
         else bindP (orInvalid (decodeRawArrayLimited trimmed maxStringListItems)) stringItems))"

definition optionalStringSliceParam :: "string list \<Rightarrow> nat \<Rightarrow> string list rres" where
  "optionalStringSliceParam params i = (if i \<ge> length params then Inr [] else stringSliceParam params i)"

definition intParam :: "string list \<Rightarrow> nat \<Rightarrow> int rres" where
  "intParam params i =
     (if i \<ge> length params then Inl invalidParams
      else
        (let trimmed = TrimSpace (params ! i) in
         if trimmed = [] \<or> \<not> (hd trimmed = CHR ''-'' \<or> isDigit (hd trimmed)) then Inl invalidParams
         else bindP (orInvalid (decodeUseNumber intoNumber trimmed)) (\<lambda>num.
           (case Atoi num of None \<Rightarrow> Inl invalidParams | Some n \<Rightarrow> Inr n))))"

definition optionalIntParam :: "string list \<Rightarrow> nat \<Rightarrow> int option rres" where
  "optionalIntParam params i = (if i \<ge> length params then Inr None else bindP (intParam params i) (\<lambda>n. Inr (Some n)))"

definition optionParamValue :: "string \<Rightarrow> optval rres" where
  "optionParamValue encoded0 =
     (let encoded = TrimSpace encoded0 in
      if startsWith encoded (CHR ''['')
      then bindP (orInvalid (decodeRawArrayLimited encoded maxStringListItems)) (\<lambda>items.
           bindP (stringItems items) (\<lambda>values. Inr (VAnys values)))
      else bindP (orInvalid (decodeUseNumber intoAny encoded)) (\<lambda>v.
           (case v of
              AnyNil \<Rightarrow> Inr VNil
            | AnyString s \<Rightarrow> Inr (VStr s)
            | AnyNumber s \<Rightarrow> Inr (VNum s)
            | AnyBool b \<Rightarrow> Inr (VBool b)
            | _ \<Rightarrow> Inl invalidParams)))"

fun optionParamValues :: "(string \<times> string) list \<Rightarrow> options rres" where
  "optionParamValues [] = Inr []"
| "optionParamValues ((key, encoded) # rest) =
     bindP (optionParamValue encoded) (\<lambda>v. bindP (optionParamValues rest) (\<lambda>opts. Inr ((key, v) # opts)))"

definition optionsParam :: "string list \<Rightarrow> nat \<Rightarrow> bool \<Rightarrow> options rres" where
  "optionsParam params i required =
     (if i \<ge> length params then (if required then Inl invalidParams else Inr [])
      else
        (let trimmed = TrimSpace (params ! i) in
         if \<not> startsWith trimmed (CHR ''{'') then Inl invalidParams
         else bindP (orInvalid (decodeRawObjectLimited trimmed maxOptionCount)) optionParamValues))"

section \<open>Methods\<close>

definition withParam :: "'a rres \<Rightarrow> ('a \<Rightarrow> rpcOp) \<Rightarrow> rpcOp" where
  "withParam r f s = (case r of Inl er \<Rightarrow> (Inl er, s) | Inr x \<Rightarrow> f x s)"

definition callEngine :: "('a \<Rightarrow> rpcResult) \<Rightarrow> 'a handler \<Rightarrow> rpcOp" where
  "callEngine f h s =
     (case h (rpE s) of
        (Inl er, e) \<Rightarrow> (Inl (EngineErr er), s\<lparr>rpE := e\<rparr>)
      | (Inr x, e) \<Rightarrow> (Inr (f x), s\<lparr>rpE := e\<rparr>))"

definition askEngine :: "('a \<Rightarrow> rpcResult) \<Rightarrow> (Engine \<Rightarrow> 'a res) \<Rightarrow> rpcOp" where
  "askEngine f q s = (case q (rpE s) of Inl er \<Rightarrow> (Inl (EngineErr er), s) | Inr x \<Rightarrow> (Inr (f x), s))"

definition tickR :: "rpcState \<Rightarrow> rpcState" where
  "tickR s = s\<lparr>rpTick := Suc (rpTick s)\<rparr>"

definition engineSaveSession :: "rpcEnv \<Rightarrow> rpcOp" where
  "engineSaveSession rv s =
     (case SaveSession (rvSys rv) (rvLib rv) (rvFault rv (rpTick s)) (rvTmpName rv (rpTick s)) (rpE s) (rpFiles s) of
        (Inl er, fs) \<Rightarrow> (Inl (EngineErr er), tickR (s\<lparr>rpFiles := fs\<rparr>))
      | (Inr x, fs) \<Rightarrow> (Inr (RString x), tickR (s\<lparr>rpFiles := fs\<rparr>)))"

definition GetVersion :: VersionInfo where
  "GetVersion = \<lparr>viVersion = ''1.37.0'', viEnabledFeatures = [''BitTorrent'', ''HTTP'', ''HTTPS'', ''JSON-RPC'', ''WebSocket'']\<rparr>"

definition invokeAddUri :: "rpcEnv \<Rightarrow> string list \<Rightarrow> rpcOp" where
  "invokeAddUri rv params =
     withParam (stringSliceParam params 0) (\<lambda>uris.
       if uris = [] then (\<lambda>s. (Inl invalidParams, s))
       else withParam (optionsParam params 1 False) (\<lambda>opts.
            withParam (optionalIntParam params 2) (\<lambda>pos s.
            callEngine RString (AddURI (rvSys rv) (rvRandom rv (rpTick s)) uris opts pos) (tickR s))))"

definition torrentParams :: "string list \<Rightarrow> (string list \<times> options \<times> int option) rres" where
  "torrentParams params =
     (if length params > 1
      then
        (case optionalStringSliceParam params 1 of
           Inr uris \<Rightarrow>
             bindP (optionsParam params 2 False) (\<lambda>opts. bindP (optionalIntParam params 3) (\<lambda>pos. Inr (uris, opts, pos)))
         | Inl uriErr \<Rightarrow>
             (if length params > 3 then Inl invalidParams
              else bindP (optionsParam params 1 False) (\<lambda>opts. bindP (optionalIntParam params 2) (\<lambda>pos. Inr ([], opts, pos)))))
      else Inr ([], [], None))"

definition invokeAddTorrent :: "rpcEnv \<Rightarrow> string list \<Rightarrow> rpcOp" where
  "invokeAddTorrent rv params =
     withParam (stringParam params 0) (\<lambda>torrent.
     withParam (torrentParams params) (\<lambda>(uris, opts, pos) s.
     callEngine RString (AddTorrent (rvSys rv) (rvFetched rv (rpTick s) torrent) (rvRandom rv (rpTick s)) torrent uris opts pos) (tickR s)))"

definition invokeAddMetalink :: "string list \<Rightarrow> rpcOp" where
  "invokeAddMetalink params =
     withParam (stringParam params 0) (\<lambda>metalink.
     withParam (optionsParam params 1 False) (\<lambda>opts.
     withParam (optionalIntParam params 2) (\<lambda>pos. callEngine RStrings AddMetalink)))"

text \<open>The methods that change the state of one download or of all, given by gid.\<close>

definition invokeControl :: "string \<Rightarrow> string list \<Rightarrow> rpcOp option" where
  "invokeControl m params =
     (let byGid = (\<lambda>h. Some (withParam (stringParam params 0) (\<lambda>gid. callEngine RString (h gid)))) in
      if m = ''aria2.remove'' then byGid remove
      else if m = ''aria2.forceRemove'' then byGid remove
      else if m = ''aria2.pause'' then byGid pause
      else if m = ''aria2.pauseAll'' then Some (callEngine RString PauseAll)
      else if m = ''aria2.forcePause'' then byGid pause
      else if m = ''aria2.forcePauseAll'' then Some (callEngine RString PauseAll)
      else if m = ''aria2.unpause'' then byGid Unpause
      else if m = ''aria2.unpauseAll'' then Some (callEngine RString UnpauseAll)
      else None)"

text \<open>The methods that only read.\<close>

definition invokeTell :: "rpcEnv \<Rightarrow> string \<Rightarrow> string list \<Rightarrow> rpcOp option" where
  "invokeTell rv m params =
     (let paged = (\<lambda>q. Some (withParam (intParam params 0) (\<lambda>offset. withParam (intParam params 1) (\<lambda>num.
            withParam (optionalStringSliceParam params 2) (\<lambda>keys.
            askEngine RStatuses (\<lambda>e. Inr (q (rvQuery rv) offset num keys e))))))) in
      if m = ''aria2.tellStatus''
      then Some (withParam (stringParam params 0) (\<lambda>gid. withParam (optionalStringSliceParam params 1) (\<lambda>keys.
             askEngine RStatus (TellStatus (rvQuery rv) gid keys))))
      else if m = ''aria2.getUris'' then Some (withParam (stringParam params 0) (\<lambda>gid. askEngine RUris (GetURIs gid)))
      else if m = ''aria2.getFiles''
      then Some (withParam (stringParam params 0) (\<lambda>gid. askEngine RFiles (GetFiles (rvQuery rv) gid)))
      else if m = ''aria2.getPeers''
      then Some (withParam (stringParam params 0) (\<lambda>gid. askEngine RPeers (GetPeers (rvQuery rv) gid)))
      else if m = ''aria2.getServers''
      then Some (withParam (stringParam params 0) (\<lambda>gid. askEngine RServers (GetServers gid)))
      else if m = ''aria2.tellActive''
      then Some (withParam (optionalStringSliceParam params 0) (\<lambda>keys. askEngine RStatuses (\<lambda>e. Inr (TellActive (rvQuery rv) keys e))))
      else if m = ''aria2.tellWaiting'' then paged TellWaiting
      else if m = ''aria2.tellStopped'' then paged TellStopped
      else None)"

definition invokeChange :: "rpcEnv \<Rightarrow> string \<Rightarrow> string list \<Rightarrow> rpcOp option" where
  "invokeChange rv m params =
     (if m = ''aria2.changePosition''
      then Some (withParam (stringParam params 0) (\<lambda>gid. withParam (intParam params 1) (\<lambda>pos. withParam (stringParam params 2) (\<lambda>how.
             callEngine RInt (ChangePosition gid pos how)))))
      else if m = ''aria2.changeUri''
      then Some (withParam (stringParam params 0) (\<lambda>gid. withParam (intParam params 1) (\<lambda>fileIndex.
             withParam (stringSliceParam params 2) (\<lambda>del. withParam (stringSliceParam params 3) (\<lambda>add.
             withParam (optionalIntParam params 4) (\<lambda>pos. callEngine RInts (ChangeURI (rvSys rv) gid fileIndex del add pos)))))))
      else if m = ''aria2.getOption''
      then Some (withParam (stringParam params 0) (\<lambda>gid. callEngine ROptions (GetOption gid)))
      else if m = ''aria2.changeOption''
      then Some (withParam (stringParam params 0) (\<lambda>gid. withParam (optionsParam params 1 True) (\<lambda>opts.
             callEngine RString (ChangeOption (rvSys rv) gid opts))))
      else if m = ''aria2.getGlobalOption'' then Some (askEngine ROptions (\<lambda>e. Inr (GetGlobalOption e)))
      else if m = ''aria2.changeGlobalOption''
      then Some (withParam (optionsParam params 0 True) (\<lambda>opts. callEngine RString (ChangeGlobalOption opts)))
      else None)"

definition requestShutdown :: "bool \<Rightarrow> string handler" where
  "requestShutdown force e = (Inr ''OK'', RequestShutdown force e)"

definition invokeSystem :: "rpcEnv \<Rightarrow> string \<Rightarrow> string list \<Rightarrow> rpcOp option" where
  "invokeSystem rv m params =
     (if m = ''aria2.getGlobalStat'' then Some (askEngine RStat (\<lambda>e. Inr (GetGlobalStat e)))
      else if m = ''aria2.purgeDownloadResult'' then Some (callEngine RString PurgeDownloadResult)
      else if m = ''aria2.removeDownloadResult''
      then Some (withParam (stringParam params 0) (\<lambda>gid. callEngine RString (RemoveDownloadResult gid)))
      else if m = ''aria2.getVersion'' then Some (\<lambda>s. (Inr (RVersion GetVersion), s))
      else if m = ''aria2.getSessionInfo'' then Some (askEngine RSession (\<lambda>e. Inr (eSessionID e)))
      else if m = ''aria2.shutdown'' then Some (callEngine RString (requestShutdown False))
      else if m = ''aria2.forceShutdown'' then Some (callEngine RString (requestShutdown True))
      else if m = ''aria2.saveSession'' then Some (engineSaveSession rv)
      else if m = ''system.listMethods'' then Some (\<lambda>s. (Inr (RStrings rpcMethods), s))
      else if m = ''system.listNotifications'' then Some (\<lambda>s. (Inr (RStrings notificationMethods), s))
      else None)"

text \<open>The bounds on the number of parameters of a method; no bounds for an unknown one.\<close>

definition paramBounds :: "string \<Rightarrow> (nat \<times> nat) option" where
  "paramBounds m =
     (if m \<in> set [''aria2.addUri'', ''aria2.addMetalink''] then Some (1, 3)
      else if m = ''aria2.addTorrent'' then Some (1, 4)
      else if m \<in> set [''aria2.remove'', ''aria2.forceRemove'', ''aria2.pause'', ''aria2.forcePause'', ''aria2.unpause'', ''aria2.getUris'',
        ''aria2.getFiles'', ''aria2.getPeers'', ''aria2.getServers'', ''aria2.getOption'', ''aria2.removeDownloadResult''] then Some (1, 1)
      else if m \<in> set [''aria2.pauseAll'', ''aria2.forcePauseAll'', ''aria2.unpauseAll'', ''aria2.getGlobalOption'', ''aria2.getGlobalStat'',
        ''aria2.purgeDownloadResult'', ''aria2.getVersion'', ''aria2.getSessionInfo'', ''aria2.shutdown'', ''aria2.forceShutdown'',
        ''aria2.saveSession'', ''system.listMethods'', ''system.listNotifications''] then Some (0, 0)
      else if m = ''aria2.tellStatus'' then Some (1, 2)
      else if m = ''aria2.tellActive'' then Some (0, 1)
      else if m \<in> set [''aria2.tellWaiting'', ''aria2.tellStopped''] then Some (2, 3)
      else if m = ''aria2.changePosition'' then Some (3, 3)
      else if m = ''aria2.changeUri'' then Some (4, 5)
      else if m = ''aria2.changeOption'' then Some (2, 2)
      else if m \<in> set [''aria2.changeGlobalOption'', ''system.multicall''] then Some (1, 1)
      else None)"

definition validateParamCount :: "string \<Rightarrow> nat \<Rightarrow> unit rres" where
  "validateParamCount m n =
     (case paramBounds m of
        None \<Rightarrow> Inr ()
      | Some (mn, mx) \<Rightarrow> (if n < mn \<or> n > mx then Inl invalidParams else Inr ()))"

text \<open>The cases of \<open>invoke\<close> other than \<open>system.multicall\<close>.\<close>

definition dispatch :: "rpcEnv \<Rightarrow> string \<Rightarrow> string list \<Rightarrow> rpcOp option" where
  "dispatch rv m params =
     (if m = ''aria2.addUri'' then Some (invokeAddUri rv params)
      else if m = ''aria2.addTorrent'' then Some (invokeAddTorrent rv params)
      else if m = ''aria2.addMetalink'' then Some (invokeAddMetalink params)
      else (case invokeControl m params of Some f \<Rightarrow> Some f | None \<Rightarrow>
           (case invokeTell rv m params of Some f \<Rightarrow> Some f | None \<Rightarrow>
           (case invokeChange rv m params of Some f \<Rightarrow> Some f | None \<Rightarrow> invokeSystem rv m params))))"

definition invokeOne :: "rpcEnv \<Rightarrow> string \<Rightarrow> string list \<Rightarrow> rpcOp" where
  "invokeOne rv m params =
     withParam (validateParamCount m (length params)) (\<lambda>_.
       (case dispatch rv m params of
          Some f \<Rightarrow> f
        | None \<Rightarrow> (\<lambda>s. (Inl (CallError rpcMethodNotFound ''Method not found''), s))))"

section \<open>Calls\<close>

text \<open>\<open>stripSecret\<close>: the parameters without the token. \<open>subtle.ConstantTimeCompare\<close> compares the bytes.\<close>

definition stripSecret :: "string \<Rightarrow> string \<Rightarrow> string list \<Rightarrow> string list rres" where
  "stripSecret secret m params =
     (if m = ''system.listMethods'' \<or> m = ''system.listNotifications'' \<or> m = ''system.multicall'' then Inr params
      else
        (case params of
           [] \<Rightarrow> (if secret \<noteq> '''' then Inl Unauthorized else Inr params)
         | p # ps \<Rightarrow>
            (case decodeUseNumber intoString p of
               Inr token \<Rightarrow>
                 (if HasPrefix token ''token:''
                  then (if secret \<noteq> '''' \<and> TrimPrefix token ''token:'' \<noteq> secret then Inl Unauthorized else Inr ps)
                  else if secret \<noteq> '''' then Inl Unauthorized else Inr params)
             | Inl er \<Rightarrow> (if secret \<noteq> '''' then Inl Unauthorized else Inr params))))"

definition rpcCode :: "rpcErr \<Rightarrow> int" where
  "rpcCode er =
     (case er of
        CallError code msg \<Rightarrow> code
      | EngineErr x \<Rightarrow> (if errIs x ErrInvalidParams then rpcInvalidParams else rpcAriaError)
      | _ \<Rightarrow> rpcAriaError)"

definition rpcMessageOf :: "rpcErr \<Rightarrow> rpcMessage" where
  "rpcMessageOf er =
     (case er of
        CallError code msg \<Rightarrow> MsgText msg
      | EngineErr x \<Rightarrow> MsgErr x
      | Unauthorized \<Rightarrow> MsgText ''Unauthorized''
      | JsonErr x \<Rightarrow> MsgText '''')"

definition fault :: "int \<Rightarrow> rpcMessage \<Rightarrow> rpcErrorBody" where
  "fault code msg = \<lparr>rbCode = code, rbMessage = msg\<rparr>"

definition invalidFault :: rpcErrorBody where
  "invalidFault = fault rpcInvalidParams (MsgText ''Invalid params'')"

text \<open>The method and the parameters of one entry of a multicall: every entry has exactly two fields.\<close>

definition multicallEntry :: "string \<Rightarrow> (string \<times> string list) option" where
  "multicallEntry encodedCall =
     (case decodeRawObjectLimited encodedCall 2 of
        Inl er \<Rightarrow> None
      | Inr call \<Rightarrow>
         (if length call \<noteq> 2 then None
          else (case decodeUseNumber intoString (case map_of call ''methodName'' of None \<Rightarrow> '''' | Some v \<Rightarrow> v) of
              Inl er \<Rightarrow> None
            | Inr m \<Rightarrow>
               (if m = '''' \<or> m = ''system.multicall'' then None
                else (case decodeRawArrayLimited (case map_of call ''params'' of None \<Rightarrow> '''' | Some v \<Rightarrow> v) maxRPCParams of
                    Inl er \<Rightarrow> None
                  | Inr callParams \<Rightarrow> Some (m, callParams))))))"

definition multicallOne :: "rpcEnv \<Rightarrow> string \<Rightarrow> string \<Rightarrow> rpcState \<Rightarrow> (rpcErrorBody + rpcResult) \<times> rpcState" where
  "multicallOne rv secret encodedCall s =
     (case multicallEntry encodedCall of
        None \<Rightarrow> (Inl invalidFault, s)
      | Some (m, callParams) \<Rightarrow>
         (case stripSecret secret m callParams of
            Inl er \<Rightarrow> (Inl (fault rpcAriaError (rpcMessageOf er)), s)
          | Inr p \<Rightarrow>
             (case invokeOne rv m p s of
                (Inl er, s') \<Rightarrow> (Inl (fault (rpcCode er) (rpcMessageOf er)), s')
              | (Inr v, s') \<Rightarrow> (Inr v, s'))))"

fun multicallLoop :: "rpcEnv \<Rightarrow> string \<Rightarrow> string list \<Rightarrow> rpcState \<Rightarrow> (rpcErrorBody + rpcResult) list \<times> rpcState" where
  "multicallLoop rv secret [] s = ([], s)"
| "multicallLoop rv secret (c # cs) s =
     (case multicallOne rv secret c s of (x, s1) \<Rightarrow> (case multicallLoop rv secret cs s1 of (xs, s2) \<Rightarrow> (x # xs, s2)))"

definition multicall :: "rpcEnv \<Rightarrow> string \<Rightarrow> string list \<Rightarrow> rpcOp" where
  "multicall rv secret params s =
     (case decodeRawArrayLimited (params ! 0) maxMulticallCalls of
        Inl er \<Rightarrow> (Inl invalidParams, s)
      | Inr calls \<Rightarrow> (case multicallLoop rv secret calls s of (out, s') \<Rightarrow> (Inr (RMulti out), s')))"

definition invoke :: "rpcEnv \<Rightarrow> string \<Rightarrow> string \<Rightarrow> string list \<Rightarrow> rpcOp" where
  "invoke rv secret m params =
     (if m = ''system.multicall''
      then withParam (validateParamCount m (length params)) (\<lambda>_. multicall rv secret params)
      else invokeOne rv m params)"

definition validRPCID :: "string \<Rightarrow> bool" where
  "validRPCID raw =
     (case decodeUseNumber intoAny raw of
        Inl er \<Rightarrow> False
      | Inr AnyNil \<Rightarrow> True
      | Inr (AnyString s) \<Rightarrow> length s \<le> maxRPCIDStringLen
      | Inr (AnyNumber s) \<Rightarrow> (case Atoi s of None \<Rightarrow> False | Some n \<Rightarrow> - maxSafeIntegerID \<le> n \<and> n \<le> maxSafeIntegerID)
      | Inr _ \<Rightarrow> False)"

definition zeroCall :: rpcCall where
  "zeroCall = \<lparr>cJSONRPC = '''', cMethod = '''', cParams = [], cID = None, cHasID = False\<rparr>"

text \<open>A field decoded into a string, its error ignored.\<close>

definition stringField :: "(string \<times> string) list \<Rightarrow> string \<Rightarrow> string" where
  "stringField kvs key =
     (case map_of kvs key of
        None \<Rightarrow> ''''
      | Some v \<Rightarrow> (case decodeUseNumber intoString v of Inl er \<Rightarrow> '''' | Inr x \<Rightarrow> x))"

definition parseParams :: "(string \<times> string) list \<Rightarrow> rpcCall \<Rightarrow> rpcCall \<times> rpcErr option" where
  "parseParams kvs call =
     (case map_of kvs ''params'' of
        None \<Rightarrow> (call, None)
      | Some v \<Rightarrow>
         (let trimmed = TrimSpace v in
          if startsWith trimmed (CHR ''['')
          then (case decodeRawArrayLimited trimmed maxRPCParams of
              Inl er \<Rightarrow> (call, Some invalidParams)
            | Inr ps \<Rightarrow> (call\<lparr>cParams := ps\<rparr>, None))
          else (call, Some invalidParams)))"

text \<open>\<open>parseCall\<close> returns what it has read of the call beside the error.\<close>

definition parseCall :: "string \<Rightarrow> rpcCall \<times> rpcErr option" where
  "parseCall raw =
     (case decodeRawObjectLimited raw maxRPCObjectFields of
        Inl er \<Rightarrow> (zeroCall, Some (JsonErr er))
      | Inr kvs \<Rightarrow>
         (let call = zeroCall\<lparr>cJSONRPC := stringField kvs ''jsonrpc'', cMethod := stringField kvs ''method''\<rparr> in
          (case map_of kvs ''id'' of
             None \<Rightarrow> parseParams kvs call
           | Some v \<Rightarrow>
              (if \<not> validRPCID v then (zeroCall, Some (CallError rpcInvalidRequest ''Invalid Request''))
               else parseParams kvs (call\<lparr>cID := Some v, cHasID := True\<rparr>)))))"

definition errorResponse :: "string option \<Rightarrow> int \<Rightarrow> rpcMessage \<Rightarrow> rpcResponse" where
  "errorResponse i code msg = \<lparr>rrID = i, rrBody = Inl (fault code msg)\<rparr>"

definition invalidRequest :: "string option \<Rightarrow> rpcResponse" where
  "invalidRequest i = errorResponse i rpcInvalidRequest (MsgText ''Invalid Request'')"

definition parseErrorResponse :: rpcResponse where
  "parseErrorResponse = errorResponse None rpcParseError (MsgText ''Parse error'')"

definition refuseCall :: "rpcCall \<Rightarrow> rpcErr \<Rightarrow> rpcResponse option" where
  "refuseCall call er =
     (case er of
        CallError code msg \<Rightarrow>
          (if code = rpcInvalidParams \<and> \<not> cHasID call \<and> cJSONRPC call = ''2.0'' \<and> cMethod call \<noteq> '''' then None
           else Some (errorResponse (cID call) code (MsgText msg)))
      | JsonErr x \<Rightarrow> (if isJSONParseError x then Some parseErrorResponse else Some (invalidRequest None))
      | _ \<Rightarrow> Some (invalidRequest None))"

definition handleOne :: "rpcEnv \<Rightarrow> string \<Rightarrow> string \<Rightarrow> rpcState \<Rightarrow> rpcResponse option \<times> rpcState" where
  "handleOne rv secret raw s =
     (case parseCall raw of
        (call, Some er) \<Rightarrow> (refuseCall call er, s)
      | (call, None) \<Rightarrow>
         (if cMethod call = '''' \<or> cJSONRPC call \<noteq> ''2.0'' then (Some (invalidRequest (cID call)), s)
          else
            (case stripSecret secret (cMethod call) (cParams call) of
               Inl er \<Rightarrow> (if \<not> cHasID call then None else Some (errorResponse (cID call) rpcAriaError (rpcMessageOf er)), s)
             | Inr params \<Rightarrow>
                (case invoke rv secret (cMethod call) params s of (result, s') \<Rightarrow>
                   (if \<not> cHasID call then None
                    else (case result of
                        Inl er \<Rightarrow> Some (errorResponse (cID call) (rpcCode er) (rpcMessageOf er))
                      | Inr v \<Rightarrow> Some \<lparr>rrID = cID call, rrBody = Inr v\<rparr>), s')))))"

fun handleAll :: "rpcEnv \<Rightarrow> string \<Rightarrow> string list \<Rightarrow> rpcState \<Rightarrow> rpcResponse list \<times> rpcState" where
  "handleAll rv secret [] s = ([], s)"
| "handleAll rv secret (raw # raws) s =
     (case handleOne rv secret raw s of (resp, s1) \<Rightarrow>
       (case handleAll rv secret raws s1 of (resps, s2) \<Rightarrow>
         (case resp of None \<Rightarrow> (resps, s2) | Some r \<Rightarrow> (r # resps, s2))))"

definition HandlePayload :: "rpcEnv \<Rightarrow> string \<Rightarrow> string \<Rightarrow> rpcState \<Rightarrow> rpcReply option \<times> rpcState" where
  "HandlePayload rv secret payload0 s =
     (let payload = TrimSpace payload0 in
      if payload = [] then (Some (Single parseErrorResponse), s)
      else if hd payload = CHR ''[''
      then (case decodeRawArrayLimited payload maxBatchCalls of
          Inl er \<Rightarrow> (Some (Single (if er = JSONCollectionTooLarge then invalidRequest None else parseErrorResponse)), s)
        | Inr raws \<Rightarrow>
           (if raws = [] then (Some (Single (invalidRequest None)), s)
            else (case handleAll rv secret raws s of (resps, s') \<Rightarrow>
              (if resps = [] then None else Some (Batch resps), s'))))
      else (case handleOne rv secret payload s of (resp, s') \<Rightarrow> (map_option Single resp, s')))"

section \<open>Proving the secret\<close>

definition methodNeedsSecret :: "string \<Rightarrow> bool" where
  "methodNeedsSecret m \<longleftrightarrow> m \<noteq> ''system.listMethods'' \<and> m \<noteq> ''system.listNotifications'' \<and> m \<noteq> ''system.multicall''"

definition matchesSecretParam :: "string \<Rightarrow> string \<Rightarrow> bool" where
  "matchesSecretParam secret raw =
     (case decodeUseNumber intoString raw of Inl er \<Rightarrow> False | Inr token \<Rightarrow> token = ''token:'' @ secret)"

definition entryProvesSecret :: "string \<Rightarrow> string \<Rightarrow> bool" where
  "entryProvesSecret secret raw =
     (case decodeRawObjectLimited raw 4 of
        Inl er \<Rightarrow> False
      | Inr call \<Rightarrow>
         (case decodeUseNumber intoString (case map_of call ''methodName'' of None \<Rightarrow> '''' | Some v \<Rightarrow> v) of
            Inl er \<Rightarrow> False
          | Inr m \<Rightarrow> methodNeedsSecret m \<and>
             (case decodeRawArrayLimited (case map_of call ''params'' of None \<Rightarrow> '''' | Some v \<Rightarrow> v) maxRPCParams of
                Inl er \<Rightarrow> False
              | Inr callParams \<Rightarrow> callParams \<noteq> [] \<and> matchesSecretParam secret (hd callParams))))"

definition multicallProvesSecret :: "string \<Rightarrow> string list \<Rightarrow> bool" where
  "multicallProvesSecret secret params =
     (if length params \<noteq> 1 then False
      else (case decodeRawArrayLimited (params ! 0) maxMulticallCalls of
          Inl er \<Rightarrow> False
        | Inr calls \<Rightarrow> list_ex (entryProvesSecret secret) calls))"

definition callProvesSecret :: "string \<Rightarrow> string \<Rightarrow> bool" where
  "callProvesSecret secret raw =
     (case parseCall raw of
        (call, Some er) \<Rightarrow> False
      | (call, None) \<Rightarrow>
         (if cJSONRPC call \<noteq> ''2.0'' \<or> cMethod call = '''' then False
          else if cMethod call = ''system.multicall'' then multicallProvesSecret secret (cParams call)
          else methodNeedsSecret (cMethod call) \<and> cParams call \<noteq> [] \<and> matchesSecretParam secret (hd (cParams call))))"

definition payloadProvesSecret :: "string \<Rightarrow> string \<Rightarrow> bool" where
  "payloadProvesSecret secret payload0 =
     (if secret = '''' then True
      else
        (let payload = TrimSpace payload0 in
         if startsWith payload (CHR ''['')
         then (case decodeRawArrayLimited payload maxBatchCalls of
             Inl er \<Rightarrow> False
           | Inr calls \<Rightarrow> list_ex (callProvesSecret secret) calls)
         else callProvesSecret secret payload))"

section \<open>A caller without the secret\<close>

text \<open>A step is inert when it changes nothing and its result says nothing about the state.\<close>

definition inert :: "('s \<Rightarrow> 'a \<times> 's) \<Rightarrow> bool" where
  "inert f \<longleftrightarrow> (\<exists>r. \<forall>s. f s = (r, s))"

lemma inertI [intro]: "(\<And>s. f s = (r, s)) \<Longrightarrow> inert f"
  by (auto simp: inert_def)

lemma inert_const [simp]: "inert (\<lambda>s. (r, s))"
  by (auto simp: inert_def)

lemma objectFields_mono:
  "objectFields keys n s = Inr r \<Longrightarrow> n \<le> m \<Longrightarrow> objectFields keys m s = Inr r"
proof (induction keys n s arbitrary: r m rule: objectFields.induct)
  case (1 keys left s)
  note step = objectFields.simps[of keys _ s]
  show ?case
  proof (cases "skipSpace s")
    case Nil
    then show ?thesis using "1.prems"(1) by (simp add: step)
  next
    case (Cons c t)
    show ?thesis
    proof (cases "c = CHR ''}'' \<or> c = CHR '']'' \<or> left = 0")
      case True
      then show ?thesis using "1.prems"(1) Cons by (auto simp: step split: if_splits)
    next
      case False
      then obtain field rest where f: "readField (keys \<noteq> []) keys (c # t) = Inr (field, rest)"
        using "1.prems"(1) Cons by (cases "readField (keys \<noteq> []) keys (c # t)") (auto simp: step)
      moreover obtain kvs after where "objectFields (fst field # keys) (left - 1) rest = Inr (kvs, after)" "r = (field # kvs, after)"
        using "1.prems"(1) Cons False f
        by (cases "objectFields (fst field # keys) (left - 1) rest") (auto simp: step)
      moreover have "left - 1 \<le> m - 1" using "1.prems"(2) by simp
      ultimately have "objectFields (fst field # keys) (m - 1) rest = Inr (kvs, after)"
        using "1.IH"[OF Cons] False by blast
      then show ?thesis using Cons False f "1.prems"(2) \<open>r = (field # kvs, after)\<close> by (simp add: step)
    qed
  qed
qed

lemma decodeRawObjectLimited_mono:
  "decodeRawObjectLimited raw n = Inr kvs \<Longrightarrow> n \<le> m \<Longrightarrow> decodeRawObjectLimited raw m = Inr kvs"
  unfolding decodeRawObjectLimited_def bindJ_Inr using objectFields_mono[of "[]" n _ _ m] by fastforce

lemma stripSecret_token:
  assumes "secret \<noteq> ''''" "methodNeedsSecret m" "stripSecret secret m params = Inr p"
  shows "params \<noteq> [] \<and> matchesSecretParam secret (hd params)"
proof -
  obtain q qs where params: "params = q # qs" using assms by (cases params) (auto simp: stripSecret_def methodNeedsSecret_def)
  obtain token where token: "decodeUseNumber intoString q = Inr token"
    using assms params by (cases "decodeUseNumber intoString q") (auto simp: stripSecret_def methodNeedsSecret_def)
  then have "HasPrefix token ''token:''" "TrimPrefix token ''token:'' = secret"
    using assms params by (auto simp: stripSecret_def methodNeedsSecret_def split: if_splits)
  then have "token = ''token:'' @ secret"
    by (auto simp: HasPrefix_def TrimPrefix_def prefix_def)
  then show ?thesis using params token by (simp add: matchesSecretParam_def)
qed

lemma inert_invokeOne:
  assumes "\<not> methodNeedsSecret m" "m \<noteq> ''system.multicall''"
  shows "inert (invokeOne rv m params)"
proof -
  have "dispatch rv ''system.listMethods'' params = Some (\<lambda>s. (Inr (RStrings rpcMethods), s))"
    "dispatch rv ''system.listNotifications'' params = Some (\<lambda>s. (Inr (RStrings notificationMethods), s))"
    by (simp_all add: dispatch_def invokeControl_def invokeTell_def invokeChange_def invokeSystem_def)
  then have "\<exists>x. dispatch rv m params = Some (\<lambda>s. (x, s))" using assms by (auto simp: methodNeedsSecret_def)
  then show ?thesis
    by (cases "validateParamCount m (length params)") (auto simp: invokeOne_def withParam_def inert_def)
qed

lemma multicallEntry_method:
  assumes "multicallEntry raw = Some (m, ps)" "methodNeedsSecret m" "ps \<noteq> []" "matchesSecretParam secret (hd ps)"
  shows "entryProvesSecret secret raw"
proof -
  obtain call where "decodeRawObjectLimited raw 2 = Inr call"
    using assms(1) by (auto simp: multicallEntry_def split: sum.splits)
  then have "decodeRawObjectLimited raw 4 = Inr call" using decodeRawObjectLimited_mono[of raw 2 call 4] by simp
  with assms \<open>decodeRawObjectLimited raw 2 = Inr call\<close> show ?thesis
    by (auto simp: multicallEntry_def entryProvesSecret_def split: sum.splits if_splits)
qed

lemma multicallEntry_not_multicall: "multicallEntry raw = Some (m, ps) \<Longrightarrow> m \<noteq> ''system.multicall''"
  by (auto simp: multicallEntry_def split: sum.splits if_splits)

lemma inert_multicallOne:
  assumes "secret \<noteq> ''''" "\<not> entryProvesSecret secret raw"
  shows "inert (multicallOne rv secret raw)"
proof (cases "multicallEntry raw")
  case None
  then show ?thesis by (intro inertI) (simp add: multicallOne_def)
next
  case (Some q)
  obtain m ps where q: "q = (m, ps)" by (cases q)
  show ?thesis
  proof (cases "stripSecret secret m ps")
    case (Inl er)
    then show ?thesis using Some q by (intro inertI) (simp add: multicallOne_def)
  next
    case (Inr p)
    then have "\<not> methodNeedsSecret m"
      using stripSecret_token[OF assms(1) _ Inr] multicallEntry_method[of raw m ps secret] Some q assms(2) by blast
    then obtain r where "\<forall>s. invokeOne rv m p s = (r, s)"
      using inert_invokeOne[of m rv p] multicallEntry_not_multicall Some q unfolding inert_def by blast
    then show ?thesis using Some q Inr by (cases r) (auto simp: multicallOne_def inert_def)
  qed
qed

lemma inert_multicallLoop:
  assumes "secret \<noteq> ''''" "\<not> list_ex (entryProvesSecret secret) calls"
  shows "inert (multicallLoop rv secret calls)"
  using assms(2)
proof (induction calls)
  case Nil
  then show ?case by (intro inertI) simp
next
  case (Cons c cs)
  then obtain r rs where "\<forall>s. multicallOne rv secret c s = (r, s)" "\<forall>s. multicallLoop rv secret cs s = (rs, s)"
    using inert_multicallOne[OF assms(1), of c rv] by (auto simp: inert_def)
  then show ?case by (intro inertI) simp
qed

lemma inert_invoke:
  assumes "secret \<noteq> ''''" "\<not> methodNeedsSecret m" "m = ''system.multicall'' \<Longrightarrow> \<not> multicallProvesSecret secret params"
  shows "inert (invoke rv secret m params)"
proof (cases "m = ''system.multicall'' \<and> validateParamCount m (length params) = Inr ()")
  case True
  then have one: "length params = 1"
    by (auto simp: validateParamCount_def paramBounds_def le_Suc_eq linorder_not_less split: if_splits)
  have run: "invoke rv secret m params = multicall rv secret params"
    using True by (auto simp: invoke_def withParam_def fun_eq_iff)
  show ?thesis
  proof (cases "decodeRawArrayLimited (params ! 0) maxMulticallCalls")
    case (Inl er)
    then show ?thesis unfolding run by (intro inertI) (simp add: multicall_def)
  next
    case (Inr calls)
    then have "\<not> list_ex (entryProvesSecret secret) calls"
      using assms(3) True one by (simp add: multicallProvesSecret_def)
    then obtain rs where "\<forall>s. multicallLoop rv secret calls s = (rs, s)"
      using inert_multicallLoop[OF assms(1)] unfolding inert_def by blast
    then show ?thesis unfolding run using Inr by (intro inertI) (simp add: multicall_def)
  qed
next
  case False
  show ?thesis
  proof (cases "m = ''system.multicall''")
    case True
    then obtain er where "validateParamCount m (length params) = Inl er"
      using False by (cases "validateParamCount m (length params)") auto
    then show ?thesis using True by (intro inertI) (simp add: invoke_def withParam_def)
  next
    case False
    then show ?thesis using inert_invokeOne[OF assms(2)] by (simp add: invoke_def)
  qed
qed

lemma inert_handleOne:
  assumes "secret \<noteq> ''''" "\<not> callProvesSecret secret raw"
  shows "inert (handleOne rv secret raw)"
proof -
  obtain call er where call: "parseCall raw = (call, er)" by (cases "parseCall raw")
  show ?thesis
  proof (cases "er = None \<and> cMethod call \<noteq> '''' \<and> cJSONRPC call = ''2.0''")
    case False
    then show ?thesis using call by (cases er) (auto simp: handleOne_def inert_def)
  next
    case True
    show ?thesis
    proof (cases "stripSecret secret (cMethod call) (cParams call)")
      case (Inl er)
      then show ?thesis using True call by (auto simp: handleOne_def inert_def)
    next
      case (Inr params)
      have no: "\<not> methodNeedsSecret (cMethod call)"
      proof
        assume needs: "methodNeedsSecret (cMethod call)"
        from stripSecret_token[OF assms(1) this Inr] assms(2) True call needs show False
          by (auto simp: callProvesSecret_def methodNeedsSecret_def)
      qed
      moreover have "params = cParams call" using Inr no by (auto simp: stripSecret_def methodNeedsSecret_def)
      ultimately have "inert (invoke rv secret (cMethod call) params)"
        using assms(2) True call by (intro inert_invoke[OF assms(1) no]) (simp add: callProvesSecret_def)
      then obtain r where "\<forall>s. invoke rv secret (cMethod call) params s = (r, s)" unfolding inert_def by blast
      then show ?thesis using True call Inr by (cases r) (auto simp: handleOne_def inert_def)
    qed
  qed
qed

lemma inert_handleAll:
  assumes "secret \<noteq> ''''" "\<not> list_ex (callProvesSecret secret) raws"
  shows "inert (handleAll rv secret raws)"
  using assms(2)
proof (induction raws)
  case Nil
  then show ?case by (intro inertI) simp
next
  case (Cons c cs)
  then obtain r rs where "\<forall>s. handleOne rv secret c s = (r, s)" "\<forall>s. handleAll rv secret cs s = (rs, s)"
    using inert_handleOne[OF assms(1), of c rv] by (auto simp: inert_def)
  then show ?case by (cases r) (auto simp: inert_def)
qed

text \<open>C12: When a secret is configured, a payload that does not carry it in the token of one of its calls changes
  nothing, and its reply does not depend on the engine or the files: a caller without the secret can neither
  control the downloads nor learn anything about them, whatever bytes it sends.\<close>

theorem payload_without_secret:
  assumes "secret \<noteq> ''''" "\<not> payloadProvesSecret secret payload"
  shows "snd (HandlePayload rv secret payload s) = s \<and>
    fst (HandlePayload rv secret payload s) = fst (HandlePayload rv secret payload s')"
proof -
  let ?p = "TrimSpace payload"
  have "inert (HandlePayload rv secret payload)"
  proof (cases "startsWith ?p (CHR ''['')")
    case True
    show ?thesis
    proof (cases "decodeRawArrayLimited ?p maxBatchCalls")
      case (Inl er)
      then show ?thesis using True by (intro inertI) (simp add: HandlePayload_def startsWith_def Let_def)
    next
      case (Inr calls)
      then have "\<not> list_ex (callProvesSecret secret) calls" using assms True by (simp add: payloadProvesSecret_def)
      then obtain rs where "\<forall>s. handleAll rv secret calls s = (rs, s)"
        using inert_handleAll[OF assms(1)] unfolding inert_def by blast
      then show ?thesis using True Inr by (auto simp: HandlePayload_def startsWith_def inert_def Let_def)
    qed
  next
    case False
    then have "\<not> callProvesSecret secret ?p" using assms by (simp add: payloadProvesSecret_def)
    then obtain r where "\<forall>s. handleOne rv secret ?p s = (r, s)"
      using inert_handleOne[OF assms(1)] unfolding inert_def by blast
    then show ?thesis using False by (auto simp: HandlePayload_def startsWith_def inert_def Let_def)
  qed
  then obtain r where "\<forall>s. HandlePayload rv secret payload s = (r, s)" unfolding inert_def by blast
  then show ?thesis by simp
qed

text \<open>A call that pauses every download, as a client sends it without the token.\<close>

definition pauseAllCall :: string where
  "pauseAllCall =
     (let q = CHR 0x22 in
      CHR ''{'' # q # ''jsonrpc'' @ q # '':'' @ q # ''2.0'' @ q # '','' @ q # ''id'' @ q # '':1,'' @
      q # ''method'' @ q # '':'' @ q # ''aria2.pauseAll'' @ q # ''}'')"

lemma pauseAllCall_trim: "TrimSpace pauseAllCall = pauseAllCall"
  by (rule TrimSpace_ends) (simp_all add: pauseAllCall_def Let_def plainByte_def asciiSpace_def)

theorem payload_without_secret_witness:
  "\<not> payloadProvesSecret ''s3'' pauseAllCall \<and>
   (\<forall>rv s s'. snd (HandlePayload rv ''s3'' pauseAllCall s) = s \<and>
     fst (HandlePayload rv ''s3'' pauseAllCall s) = fst (HandlePayload rv ''s3'' pauseAllCall s'))"
proof -
  have "startsWith pauseAllCall (CHR ''['') = False" "callProvesSecret ''s3'' pauseAllCall = False" by code_simp+
  then have "\<not> payloadProvesSecret ''s3'' pauseAllCall" by (simp add: payloadProvesSecret_def pauseAllCall_trim)
  then show ?thesis using payload_without_secret[of "''s3''" pauseAllCall] by simp
qed

section \<open>Every request is a sequence of engine steps\<close>

definition engineSteps :: "rpcEnv \<Rightarrow> (string \<Rightarrow> bool res) \<Rightarrow> (rpcState \<Rightarrow> 'a \<times> rpcState) \<Rightarrow> bool" where
  "engineSteps rv st f \<longleftrightarrow> (\<forall>s. (estep (rvSys rv) st)\<^sup>*\<^sup>* (rpE s) (rpE (snd (f s))))"

named_theorems steps \<open>the request handlers that are sequences of engine steps\<close>

lemma steps_const [steps]: "engineSteps rv st (\<lambda>s. (r, s))"
  by (simp add: engineSteps_def)

lemma steps_withParam [steps]: "(\<And>x. engineSteps rv st (f x)) \<Longrightarrow> engineSteps rv st (withParam r f)"
  by (auto simp: engineSteps_def withParam_def split: sum.splits)

lemma steps_askEngine [steps]: "engineSteps rv st (askEngine f q)"
  by (auto simp: engineSteps_def askEngine_def split: sum.splits)

lemma rpE_callEngine: "rpE (snd (callEngine f h s)) = snd (h (rpE s))"
  by (simp add: callEngine_def split: prod.splits sum.splits)

lemma steps_callEngine: "(\<And>e. (estep (rvSys rv) st)\<^sup>*\<^sup>* e (snd (h e))) \<Longrightarrow> engineSteps rv st (callEngine f h)"
  by (simp add: engineSteps_def rpE_callEngine)

lemma steps_unchanged: "(\<And>e. snd (h e) = e) \<Longrightarrow> engineSteps rv st (callEngine f h)"
  by (rule steps_callEngine) simp

lemma steps_addUri [steps]: "engineSteps rv st (invokeAddUri rv params)"
proof -
  have "engineSteps rv st (\<lambda>s. callEngine RString (AddURI (rvSys rv) (rvRandom rv (rpTick s)) uris opts pos) (tickR s))" for uris opts pos
    by (auto simp: engineSteps_def rpE_callEngine tickR_def intro: estep.addURI)
  then show ?thesis unfolding invokeAddUri_def by (auto intro!: steps)
qed

lemma AddTorrent_step: "(estep env st)\<^sup>*\<^sup>* e (snd (AddTorrent env fetched rnd dat uris opts pos e))"
proof (cases "validateOptionValues opts")
  case (Inr u)
  then show ?thesis
    by (cases "addTorrentPrepare env fetched dat uris opts e") (auto simp: AddTorrent_def intro: estep.addTorrent)
qed (simp add: AddTorrent_def)

lemma steps_addTorrent [steps]: "engineSteps rv st (invokeAddTorrent rv params)"
proof -
  have "engineSteps rv st (\<lambda>s. callEngine RString
      (AddTorrent (rvSys rv) (rvFetched rv (rpTick s) torrent) (rvRandom rv (rpTick s)) torrent uris opts pos) (tickR s))" for torrent uris opts pos
    by (simp add: engineSteps_def rpE_callEngine tickR_def AddTorrent_step)
  then show ?thesis unfolding invokeAddTorrent_def by (auto intro!: steps split: prod.splits)
qed

lemma steps_single [steps]:
  "engineSteps rv st (callEngine f (remove gid))" "engineSteps rv st (callEngine f (pause gid))"
  "engineSteps rv st (callEngine f PauseAll)" "engineSteps rv st (callEngine f (Unpause gid))"
  "engineSteps rv st (callEngine f UnpauseAll)" "engineSteps rv st (callEngine g (ChangePosition gid pos how))"
  "engineSteps rv st (callEngine h (ChangeURI (rvSys rv) gid fi del add position))"
  "engineSteps rv st (callEngine f (ChangeOption (rvSys rv) gid opts))" "engineSteps rv st (callEngine f (ChangeGlobalOption opts))"
  "engineSteps rv st (callEngine f PurgeDownloadResult)" "engineSteps rv st (callEngine f (RemoveDownloadResult gid))"
  by (auto intro!: steps_callEngine r_into_rtranclp intro: estep.intros)

lemma steps_requestShutdown [steps]: "engineSteps rv st (callEngine f (requestShutdown force))"
  by (auto simp: requestShutdown_def intro!: steps_callEngine r_into_rtranclp intro: estep.requestShutdown)

lemma steps_GetOption [steps]: "engineSteps rv st (callEngine f (GetOption gid))"
  by (rule steps_unchanged) (simp add: GetOption_def orFail_def split: sum.splits)

lemma steps_AddMetalink [steps]: "engineSteps rv st (callEngine f AddMetalink)"
  by (rule steps_unchanged) (simp add: AddMetalink_def)

lemma steps_saveSession [steps]: "engineSteps rv st (engineSaveSession rv)"
  by (simp add: engineSteps_def engineSaveSession_def tickR_def split: prod.splits sum.splits)

lemma steps_dispatch: "dispatch rv m params = Some f \<Longrightarrow> engineSteps rv st f"
proof -
  have control: "invokeControl m params = Some f \<Longrightarrow> engineSteps rv st f" for f
    by (auto simp: invokeControl_def Let_def split: if_splits intro!: steps)
  have tell: "invokeTell rv m params = Some f \<Longrightarrow> engineSteps rv st f" for f
    by (auto simp: invokeTell_def Let_def split: if_splits intro!: steps)
  have change: "invokeChange rv m params = Some f \<Longrightarrow> engineSteps rv st f" for f
    by (auto simp: invokeChange_def split: if_splits intro!: steps)
  have system: "invokeSystem rv m params = Some f \<Longrightarrow> engineSteps rv st f" for f
    by (auto simp: invokeSystem_def split: if_splits intro!: steps)
  have "engineSteps rv st (invokeAddMetalink params)" unfolding invokeAddMetalink_def by (intro steps)
  then show "dispatch rv m params = Some f \<Longrightarrow> engineSteps rv st f"
    by (auto simp: dispatch_def steps_addUri steps_addTorrent split: if_splits option.splits dest: control tell change system)
qed

lemma steps_invokeOne [steps]: "engineSteps rv st (invokeOne rv m params)"
  unfolding invokeOne_def by (rule steps_withParam) (auto split: option.splits intro: steps_dispatch steps_const)

lemma steps_multicallOne: "engineSteps rv st (multicallOne rv secret raw)"
  using steps_invokeOne[of rv st]
  by (auto simp: engineSteps_def multicallOne_def split: option.splits sum.splits prod.splits) (metis snd_conv)+

lemma steps_Cons:
  assumes "engineSteps rv st f" "engineSteps rv st g"
  shows "(estep (rvSys rv) st)\<^sup>*\<^sup>* (rpE s) (rpE (snd (g (snd (f s)))))"
  using assms unfolding engineSteps_def by (meson rtranclp_trans)

lemma steps_multicallLoop: "engineSteps rv st (multicallLoop rv secret calls)"
proof (induction calls)
  case (Cons c cs)
  then show ?case using steps_Cons[OF steps_multicallOne Cons.IH]
    by (simp add: engineSteps_def split: prod.splits) (metis snd_conv)
qed (simp add: engineSteps_def)

lemma steps_invoke: "engineSteps rv st (invoke rv secret m params)"
proof -
  have "engineSteps rv st (multicall rv secret params)"
    using steps_multicallLoop[of rv st secret]
    by (auto simp: engineSteps_def multicall_def split: sum.splits prod.splits) (metis snd_conv)
  then show ?thesis unfolding invoke_def by (auto intro!: steps)
qed

lemma steps_handleOne: "engineSteps rv st (handleOne rv secret raw)"
  using steps_invoke[of rv st secret]
  by (auto simp: engineSteps_def handleOne_def split: option.splits sum.splits prod.splits) (metis snd_conv)+

lemma steps_handleAll: "engineSteps rv st (handleAll rv secret raws)"
proof (induction raws)
  case (Cons c cs)
  then show ?case using steps_Cons[OF steps_handleOne Cons.IH]
    by (simp add: engineSteps_def split: prod.splits option.splits) (metis snd_conv)
qed (simp add: engineSteps_def)

lemma steps_HandlePayload: "engineSteps rv st (HandlePayload rv secret payload)"
  using steps_handleAll[of rv st secret] steps_handleOne[of rv st secret]
  by (auto simp: engineSteps_def HandlePayload_def Let_def split: option.splits sum.splits prod.splits) (metis snd_conv)+


section \<open>Replies\<close>

text \<open>The id of the reply to a call, \<open>None\<close> when there is no reply: it depends on the bytes of the call alone.\<close>

definition replyID :: "string \<Rightarrow> string option option" where
  "replyID raw =
     (case parseCall raw of
        (call, Some er) \<Rightarrow> map_option rrID (refuseCall call er)
      | (call, None) \<Rightarrow>
         (if cMethod call = '''' \<or> cJSONRPC call \<noteq> ''2.0'' then Some (cID call)
          else if cHasID call then Some (cID call) else None))"

lemma handleOne_replyID: "map_option rrID (fst (handleOne rv secret raw s)) = replyID raw"
  by (auto simp: handleOne_def replyID_def invalidRequest_def errorResponse_def split: prod.splits option.splits sum.splits)

lemma handleAll_replyIDs: "map rrID (fst (handleAll rv secret raws s)) = List.map_filter replyID raws"
proof (induction raws arbitrary: s)
  case (Cons raw raws)
  obtain resp s1 where one: "handleOne rv secret raw s = (resp, s1)" by (cases "handleOne rv secret raw s")
  then have "replyID raw = map_option rrID resp" using handleOne_replyID[of rv secret raw s] by simp
  then show ?case using Cons.IH[of s1] one by (cases resp) (auto simp: List.map_filter_def split: prod.splits)
qed (simp add: List.map_filter_def)


text \<open>A batch of a call and the same call as a notification.\<close>

definition pauseAllBatch :: string where
  "pauseAllBatch =
     (let q = CHR 0x22 in
      ''['' @ pauseAllCall @ '',{'' @ q # ''jsonrpc'' @ q # '':'' @ q # ''2.0'' @ q # '','' @ q # ''method'' @ q # '':'' @ q # ''aria2.pauseAll'' @ q # ''}]'')"


end
