(* ===== verification/Rpc_Server.thy ===== *)
theory Rpc_Server
  imports Rpc Go_Url
begin

text \<open>
  The JSON-RPC server (jsonrpc/server.go): the HTTP endpoint with its limits, GET payloads and JSONP
  callbacks, the check of the origin, and the WebSocket connections as a transition system whose steps are the
  critical sections and the blocking calls of the connection threads and of a closing server.

  \<open>url.Parse\<close>, base64 and the parsed query are parameters. How the server listens and
  stops is the theory \<open>Rpc_Listen\<close>.
\<close>

section \<open>Limits and callbacks\<close>

definition DefaultMaxRequestSize :: int where "DefaultMaxRequestSize = 2097152"
definition maxJSONPCallbackSize :: nat where "maxJSONPCallbackSize = 256"
definition maxWebSocketConnections :: int where "maxWebSocketConnections = 256"

definition normalizePath :: "string \<Rightarrow> string" where
  "normalizePath path =
     (if path = '''' then ''/jsonrpc'' else if \<not> HasPrefix path ''/'' then ''/'' @ path else path)"

definition requestQueryLimit :: "int \<Rightarrow> int" where
  "requestQueryLimit maxBody =
     (let overhead = 65536 in
      if maxBody > (MaxInt64 - overhead) div 4 then MaxInt64 else wrap64 (wrap64 (maxBody * 4) + overhead))"

definition requestHeaderLimit :: "int \<Rightarrow> int" where
  "requestHeaderLimit maxBody =
     (let limit = requestQueryLimit maxBody in
      if limit > MaxInt64 then MaxInt64 else if limit < 1048576 then 1048576 else limit)"

definition identStart :: "char \<Rightarrow> bool" where
  "identStart c \<longleftrightarrow> byteIn 65 90 c \<or> byteIn 97 122 c \<or> c = CHR ''_'' \<or> c = CHR ''$''"

text \<open>A rune outside ASCII is refused, so the check by bytes is the check by runes.\<close>

definition validJSIdentifier :: "string \<Rightarrow> bool" where
  "validJSIdentifier s =
     (case s of [] \<Rightarrow> False | c # cs \<Rightarrow> identStart c \<and> list_all (\<lambda>d. identStart d \<or> isDigit d) cs)"

definition validJSONPCallback :: "string \<Rightarrow> bool" where
  "validJSONPCallback callback = list_all validJSIdentifier (Split callback (CHR ''.''))"

section \<open>Printing a call\<close>

definition hexNibble :: "nat \<Rightarrow> char" where
  "hexNibble n = ''0123456789abcdef'' ! n"

definition unicodeEscape :: "char \<Rightarrow> string" where
  "unicodeEscape c = [CHR 0x5C, CHR ''u'', CHR ''0'', CHR ''0'', hexNibble (of_char c div 16), hexNibble (of_char c mod 16)]"

text \<open>The escape of one ASCII byte in a printed string, with the HTML characters escaped too.\<close>

definition escapeByte :: "char \<Rightarrow> string" where
  "escapeByte c =
     (if c = CHR 0x5C \<or> c = CHR 0x22 then [CHR 0x5C, c]
      else if c = CHR 0x08 then [CHR 0x5C, CHR ''b'']
      else if c = CHR 0x0C then [CHR 0x5C, CHR ''f'']
      else if c = CHR 0x0A then [CHR 0x5C, CHR ''n'']
      else if c = CHR 0x0D then [CHR 0x5C, CHR ''r'']
      else if c = CHR 0x09 then [CHR 0x5C, CHR ''t'']
      else if byteIn 0 31 c \<or> c \<in> set ''<>&'' then unicodeEscape c
      else [c])"

definition isLineSeparator :: "string \<Rightarrow> bool" where
  "isLineSeparator s \<longleftrightarrow> length s \<ge> 3 \<and> take 2 s = [CHR 0xE2, CHR 0x80] \<and> s ! 2 \<in> {CHR 0xA8, CHR 0xA9}"

definition lineSeparatorEscape :: "char \<Rightarrow> string" where
  "lineSeparatorEscape c = CHR 0x5C # ''u202'' @ [hexNibble (of_char c mod 16)]"

function escapeString :: "string \<Rightarrow> string" where
  "escapeString s =
     (if s = [] then []
      else if byteIn 0 127 (hd s) then escapeByte (hd s) @ escapeString (tl s)
      else if isLineSeparator s then lineSeparatorEscape (s ! 2) @ escapeString (drop 3 s)
      else if utf8Len s = 0 then CHR 0x5C # ''ufffd'' @ escapeString (tl s)
      else take (utf8Len s) s @ escapeString (drop (utf8Len s) s))"
  by pat_completeness auto
termination
  by (relation "measure length") auto

declare escapeString.simps [simp del]

definition quoteJSON :: "string \<Rightarrow> string" where
  "quoteJSON s = CHR 0x22 # escapeString s @ [CHR 0x22]"

text \<open>\<open>json.Marshal\<close> of a raw message: white space outside strings is dropped, the HTML characters and the line
  separators are escaped; \<open>None\<close> when the bytes are not one value. The first argument is the scanner, \<open>None\<close> once
  the value has ended.\<close>

definition compactByte :: "char \<Rightarrow> string" where
  "compactByte c = (if c \<in> set ''<>&'' then unicodeEscape c else [c])"

fun compactFrom :: "(scanState \<times> nestState list) option \<Rightarrow> nat \<Rightarrow> string \<Rightarrow> string option" where
  "compactFrom q skip [] =
     (case q of
        None \<Rightarrow> Some []
      | Some (st, ps) \<Rightarrow> (if scanStep st ps (CHR '' '') = ScanEnd then Some [] else None))"
| "compactFrom q skip (c # cs) =
     (let out = (if skip > 0 then [] else if isLineSeparator (c # cs) then lineSeparatorEscape (cs ! 1) else compactByte c);
          skip' = (if skip > 0 then skip - 1 else if isLineSeparator (c # cs) then 2 else 0) in
      case q of
        None \<Rightarrow> (if jsonSpace c then compactFrom None 0 cs else None)
      | Some (st, ps) \<Rightarrow>
         (case scanStep st ps c of
            ScanError \<Rightarrow> None
          | ScanEnd \<Rightarrow> (if jsonSpace c then compactFrom None 0 cs else None)
          | ScanEndCollection ps' \<Rightarrow>
              map_option ((@) out) (compactFrom (if ps' = [] then None else Some (EndValue, ps')) skip' cs)
          | ScanContinue st' ps' \<Rightarrow>
              (if jsonSpace c \<and> st \<noteq> InString then compactFrom (Some (st', ps')) skip' cs
               else map_option ((@) out) (compactFrom (Some (st', ps')) skip' cs))))"

definition compactJSON :: "string \<Rightarrow> string option" where
  "compactJSON s = compactFrom (Some (BeginValue, [])) 0 s"

definition jsonValid :: "string \<Rightarrow> bool" where
  "jsonValid s \<longleftrightarrow> compactJSON s \<noteq> None"

section \<open>GET requests\<close>

record serverEnv =
  svB64 :: "string \<Rightarrow> string res"
  svURLParse :: "string \<Rightarrow> url option"

record httpRequest =
  hrMethod :: string
  hrUpgrade :: bool
  hrQuery :: "(string \<times> string list) list"
  hrRawQuery :: string
  hrBody :: "string \<times> err option"
  hrOrigin :: string
  hrHost :: string
  hrTLS :: bool

definition queryGet :: "httpRequest \<Rightarrow> string \<Rightarrow> string" where
  "queryGet r key = (case map_of (hrQuery r) key of Some (v # _) \<Rightarrow> v | _ \<Rightarrow> '''')"

definition decodeGETParams :: "serverEnv \<Rightarrow> string \<Rightarrow> string res" where
  "decodeGETParams sv params =
     (let trimmed = TrimSpace params in if jsonValid trimmed then Inr trimmed else svB64 sv params)"

text \<open>The object is printed with its keys in order: id, jsonrpc, method, params.\<close>

definition printCall :: "string option \<Rightarrow> string \<Rightarrow> string \<Rightarrow> string" where
  "printCall i m params =
     ''{'' @ (case i of None \<Rightarrow> '''' | Some x \<Rightarrow> quoteJSON ''id'' @ '':'' @ quoteJSON x @ '','') @
     quoteJSON ''jsonrpc'' @ '':'' @ quoteJSON ''2.0'' @ '','' @ quoteJSON ''method'' @ '':'' @ quoteJSON m @ '','' @
     quoteJSON ''params'' @ '':'' @ params @ ''}''"

definition getPayload :: "httpRequest \<Rightarrow> string \<Rightarrow> string res" where
  "getPayload r decoded =
     (let m = queryGet r ''method'' in
      if m = '''' then (if decoded = [] then Inl (Errorf ''missing method or params'' []) else Inr decoded)
      else
        (let params = (if decoded \<noteq> [] then decoded else ''[]'');
             i = (case map_of (hrQuery r) ''id'' of Some (v # _) \<Rightarrow> Some v | _ \<Rightarrow> None) in
         (case compactJSON params of
            None \<Rightarrow> Inl (Errorf ''json: error calling MarshalJSON for type json.RawMessage'' [])
          | Some printed \<Rightarrow>
             (if \<not> startsWith (TrimSpace params) (CHR ''['') then Inl (Errorf ''params must be a JSON array'' [])
              else Inr (printCall i m printed)))))"

definition buildGETPayload :: "serverEnv \<Rightarrow> httpRequest \<Rightarrow> string res" where
  "buildGETPayload sv r =
     (let encoded = queryGet r ''params'' in
      bindR (if encoded \<noteq> '''' then decodeGETParams sv encoded else Inr []) (getPayload r))"

section \<open>The endpoint\<close>

datatype httpBody = BodyText string | BodyErr err | BodyRPC rpcReply | BodyJSONP string rpcReply | BodyNone

record httpReply =
  hpStatus :: int
  hpBody :: httpBody

definition httpError :: "int \<Rightarrow> string \<Rightarrow> httpReply" where
  "httpError code msg = \<lparr>hpStatus = code, hpBody = BodyText msg\<rparr>"

text \<open>\<open>http.MaxBytesReader\<close>: reading more than the limit fails.\<close>

datatype bodyRead = TooLarge | ReadFailed err | ReadOK string

definition readLimited :: "int \<Rightarrow> string \<times> err option \<Rightarrow> bodyRead" where
  "readLimited maxBody b =
     (if int (length (fst b)) > maxBody then TooLarge
      else (case snd b of None \<Rightarrow> ReadOK (fst b) | Some er \<Rightarrow> ReadFailed er))"

definition requestPayload :: "serverEnv \<Rightarrow> int \<Rightarrow> httpRequest \<Rightarrow> httpReply + string" where
  "requestPayload sv maxBody r =
     (if hrMethod r = ''POST''
      then (case readLimited maxBody (hrBody r) of
          TooLarge \<Rightarrow> Inl (httpError 413 ''request too large'')
        | ReadFailed er \<Rightarrow> Inl \<lparr>hpStatus = 400, hpBody = BodyErr er\<rparr>
        | ReadOK b \<Rightarrow> Inr b)
      else if hrMethod r = ''GET''
      then (if int (length (hrRawQuery r)) > requestQueryLimit maxBody then Inl (httpError 413 ''request too large'')
            else (case buildGETPayload sv r of
                Inl er \<Rightarrow> Inl \<lparr>hpStatus = 400, hpBody = BodyErr er\<rparr>
              | Inr b \<Rightarrow> Inr b))
      else Inl (httpError 405 ''method not allowed''))"

text \<open>A request that is not a WebSocket upgrade.\<close>

definition handleJSONRPC ::
    "serverEnv \<Rightarrow> int \<Rightarrow> rpcEnv \<Rightarrow> string \<Rightarrow> httpRequest \<Rightarrow> rpcState \<Rightarrow> httpReply \<times> rpcState" where
  "handleJSONRPC sv maxBody rv secret r s =
     (let callback = queryGet r ''jsoncallback'' in
      if length callback > maxJSONPCallbackSize then (httpError 413 ''jsoncallback too large'', s)
      else if callback \<noteq> '''' \<and> \<not> validJSONPCallback callback then (httpError 400 ''invalid jsoncallback'', s)
      else (case requestPayload sv maxBody r of
          Inl reply \<Rightarrow> (reply, s)
        | Inr payload \<Rightarrow>
           (if int (length payload) > maxBody then (httpError 413 ''request too large'', s)
            else (case HandlePayload rv secret payload s of
                (None, s') \<Rightarrow> (\<lparr>hpStatus = 204, hpBody = BodyNone\<rparr>, s')
              | (Some response, s') \<Rightarrow>
                 (\<lparr>hpStatus = 200, hpBody = (if callback \<noteq> '''' then BodyJSONP callback response else BodyRPC response)\<rparr>, s')))))"

section \<open>The origin of a WebSocket\<close>

definition canonicalOriginHost :: "string \<Rightarrow> string \<Rightarrow> string option" where
  "canonicalOriginHost rawHost scheme =
     (let host = urlHostname rawHost; port = urlPort rawHost in
      if host = '''' then None
      else Some (JoinHostPort (ToLower host) (if port = '''' then (if scheme = ''https'' then ''443'' else ''80'') else port)))"

definition sameWebSocketOrigin :: "serverEnv \<Rightarrow> httpRequest \<Rightarrow> bool" where
  "sameWebSocketOrigin sv r =
     (if hrOrigin r = '''' then True
      else (case svURLParse sv (hrOrigin r) of
          None \<Rightarrow> False
        | Some u \<Rightarrow>
           (let expectedScheme = (if hrTLS r then ''https'' else ''http'') in
            if urlHost u = '''' \<or> \<not> EqualFold (urlScheme u) expectedScheme then False
            else (case canonicalOriginHost (urlHost u) expectedScheme of
                None \<Rightarrow> False
              | Some originHost \<Rightarrow>
                 (case canonicalOriginHost (hrHost r) expectedScheme of
                    None \<Rightarrow> False
                  | Some requestHost \<Rightarrow> EqualFold originHost requestHost)))))"

definition checkOrigin :: "serverEnv \<Rightarrow> string \<Rightarrow> httpRequest \<Rightarrow> bool" where
  "checkOrigin sv secret r \<longleftrightarrow> secret \<noteq> '''' \<or> sameWebSocketOrigin sv r"

section \<open>WebSocket connections\<close>

text \<open>Where the thread of a connection is in \<open>handleWebSocket\<close>. \<open>wcOpen\<close> says that this side has not closed the
  connection; \<open>wcSub\<close> is the subscription of the writer of notifications. \<open>wcProof\<close>, \<open>wcFailed\<close> (the
  writer gave up) and \<open>wsForced\<close> (\<open>forceCloseWebSockets\<close> ran) record what happened.\<close>

datatype wsPhase =
  WsUpgrading | WsStarting | WsReading | WsReceived string | WsHandling string | WsWriting "rpcReply option" | WsUnwinding | WsGone

record wsConn =
  wcPhase :: wsPhase
  wcOpen :: bool
  wcHandling :: bool
  wcClosing :: bool
  wcAuth :: bool
  wcSub :: "nat option"
  wcProof :: "string option"
  wcFailed :: bool

record wsServer =
  wsClosing :: bool
  wsActive :: int
  wsTracked :: "nat list"
  wsPending :: "nat list"
  wsConns :: "wsConn list"
  wsForced :: bool
  wsRpc :: rpcState

definition newWsConn :: wsConn where
  "newWsConn = \<lparr>wcPhase = WsUpgrading, wcOpen = True, wcHandling = False, wcClosing = False, wcAuth = False, wcSub = None,
     wcProof = None, wcFailed = False\<rparr>"

definition setC :: "nat \<Rightarrow> (wsConn \<Rightarrow> wsConn) \<Rightarrow> wsServer \<Rightarrow> wsServer" where
  "setC i f s = s\<lparr>wsConns := (wsConns s)[i := f (wsConns s ! i)]\<rparr>"

definition beginWebSocket :: "wsServer \<Rightarrow> wsServer option" where
  "beginWebSocket s =
     (if wsClosing s \<or> wsActive s \<ge> maxWebSocketConnections then None
      else Some (s\<lparr>wsActive := wsActive s + 1, wsConns := wsConns s @ [newWsConn]\<rparr>))"

definition endWebSocket :: "nat \<Rightarrow> wsServer \<Rightarrow> wsServer" where
  "endWebSocket i s = setC i (\<lambda>c. c\<lparr>wcPhase := WsGone\<rparr>) (s\<lparr>wsActive := wsActive s - 1\<rparr>)"

definition closeConn :: "wsConn \<Rightarrow> wsConn" where
  "closeConn c = c\<lparr>wcOpen := False\<rparr>"

text \<open>A refused connection is closed and its thread returns.\<close>

definition trackWebSocket :: "nat \<Rightarrow> wsServer \<Rightarrow> wsServer" where
  "trackWebSocket i s =
     (if wsClosing s then endWebSocket i (setC i closeConn s)
      else setC i (\<lambda>c. c\<lparr>wcPhase := WsStarting\<rparr>) (s\<lparr>wsTracked := wsTracked s @ [i]\<rparr>))"

definition untrackWebSocket :: "nat \<Rightarrow> wsServer \<Rightarrow> wsServer" where
  "untrackWebSocket i s = s\<lparr>wsTracked := filter (\<lambda>j. j \<noteq> i) (wsTracked s)\<rparr>"

definition startNotifications :: "nat \<Rightarrow> wsServer \<Rightarrow> wsServer" where
  "startNotifications i s =
     (case wcSub (wsConns s ! i) of
        Some n \<Rightarrow> s
      | None \<Rightarrow>
         (case Subscribe 64 (rpE (wsRpc s)) of (n, e) \<Rightarrow>
           setC i (\<lambda>c. c\<lparr>wcSub := Some n\<rparr>) (s\<lparr>wsRpc := (wsRpc s)\<lparr>rpE := e\<rparr>\<rparr>)))"

definition startReading :: "string \<Rightarrow> nat \<Rightarrow> wsServer \<Rightarrow> wsServer" where
  "startReading secret i s =
     setC i (\<lambda>c. c\<lparr>wcPhase := WsReading\<rparr>)
       (if secret = '''' then startNotifications i (setC i (\<lambda>c. c\<lparr>wcAuth := True\<rparr>) s) else s)"

text \<open>A message: the first one that proves the secret makes the connection authenticated. \<open>ok\<close> says whether the
  deadline could be cleared then.\<close>

definition receiveMessage :: "string \<Rightarrow> bool \<Rightarrow> nat \<Rightarrow> string \<Rightarrow> wsServer \<Rightarrow> wsServer" where
  "receiveMessage secret ok i msg s =
     (if \<not> wcAuth (wsConns s ! i) \<and> payloadProvesSecret secret msg
      then
        (let s1 = setC i (\<lambda>c. c\<lparr>wcAuth := True, wcProof := Some msg\<rparr>) s in
         if \<not> ok then setC i (\<lambda>c. c\<lparr>wcPhase := WsUnwinding\<rparr>) s1
         else setC i (\<lambda>c. c\<lparr>wcPhase := WsReceived msg\<rparr>) (startNotifications i s1))
      else setC i (\<lambda>c. c\<lparr>wcPhase := WsReceived msg\<rparr>) s)"

definition beginRPC :: "string \<Rightarrow> wsConn \<Rightarrow> wsConn" where
  "beginRPC msg c =
     (if wcClosing c then c\<lparr>wcPhase := WsUnwinding\<rparr> else c\<lparr>wcHandling := True, wcPhase := WsHandling msg\<rparr>)"

definition handleMessage :: "rpcEnv \<Rightarrow> string \<Rightarrow> nat \<Rightarrow> string \<Rightarrow> wsServer \<Rightarrow> wsServer" where
  "handleMessage rv secret i msg s =
     (case HandlePayload rv secret msg (wsRpc s) of (reply, st) \<Rightarrow>
       setC i (\<lambda>c. c\<lparr>wcPhase := WsWriting reply\<rparr>) (s\<lparr>wsRpc := st\<rparr>))"

text \<open>\<open>written\<close> says that the reply was written, or that there was none.\<close>

definition endRPC :: "bool \<Rightarrow> wsConn \<Rightarrow> wsConn" where
  "endRPC written c =
     (if wcClosing c then c\<lparr>wcHandling := False, wcOpen := False, wcPhase := WsUnwinding\<rparr>
      else c\<lparr>wcHandling := False, wcPhase := (if written then WsReading else WsUnwinding)\<rparr>)"

definition unwind :: "nat \<Rightarrow> wsServer \<Rightarrow> wsServer" where
  "unwind i s =
     (let s1 = setC i closeConn s;
          s2 = (case wcSub (wsConns s ! i) of None \<Rightarrow> s1 | Some n \<Rightarrow> s1\<lparr>wsRpc := (wsRpc s1)\<lparr>rpE := unsubscribe n (rpE (wsRpc s1))\<rparr>\<rparr>) in
      endWebSocket i (untrackWebSocket i s2))"

definition initiateWebSocketClose :: "wsServer \<Rightarrow> wsServer" where
  "initiateWebSocketClose s = (if wsClosing s then s else s\<lparr>wsClosing := True, wsPending := wsTracked s\<rparr>)"

text \<open>The loop of \<open>initiateWebSocketClose\<close> over the connections it found, one at a time.\<close>

definition closeState :: "wsConn \<Rightarrow> wsConn" where
  "closeState c = (let c1 = c\<lparr>wcClosing := True\<rparr> in if \<not> wcHandling c then closeConn c1 else c1)"

definition forceCloseWebSockets :: "wsServer \<Rightarrow> wsServer" where
  "forceCloseWebSockets s = fold (\<lambda>i. setC i closeConn) (wsTracked s) (s\<lparr>wsForced := True\<rparr>)"

text \<open>The steps; the label is the connection whose thread moves, \<open>None\<close> for the server and its environment.\<close>

inductive wstep :: "rpcEnv \<Rightarrow> string \<Rightarrow> nat option \<Rightarrow> wsServer \<Rightarrow> wsServer \<Rightarrow> bool" for rv secret where
  accept: "beginWebSocket s = Some s' \<Longrightarrow> wstep rv secret None s s'"
| upgradeFailed: "i < length (wsConns s) \<Longrightarrow> wcPhase (wsConns s ! i) = WsUpgrading \<Longrightarrow> wstep rv secret (Some i) s (endWebSocket i s)"
| track: "i < length (wsConns s) \<Longrightarrow> wcPhase (wsConns s ! i) = WsUpgrading \<Longrightarrow> wstep rv secret (Some i) s (trackWebSocket i s)"
| start: "i < length (wsConns s) \<Longrightarrow> wcPhase (wsConns s ! i) = WsStarting \<Longrightarrow> wstep rv secret (Some i) s (startReading secret i s)"
| startFailed: "i < length (wsConns s) \<Longrightarrow> wcPhase (wsConns s ! i) = WsStarting \<Longrightarrow> secret \<noteq> '''' \<Longrightarrow>
    wstep rv secret (Some i) s (endWebSocket i s)"
| receive: "i < length (wsConns s) \<Longrightarrow> wcPhase (wsConns s ! i) = WsReading \<Longrightarrow> wcOpen (wsConns s ! i) \<Longrightarrow>
    wstep rv secret (Some i) s (receiveMessage secret ok i msg s)"
| readError: "i < length (wsConns s) \<Longrightarrow> wcPhase (wsConns s ! i) = WsReading \<Longrightarrow>
    wstep rv secret (Some i) s (setC i (\<lambda>c. c\<lparr>wcPhase := WsUnwinding\<rparr>) s)"
| beginCall: "i < length (wsConns s) \<Longrightarrow> wcPhase (wsConns s ! i) = WsReceived msg \<Longrightarrow> wstep rv secret (Some i) s (setC i (beginRPC msg) s)"
| call: "i < length (wsConns s) \<Longrightarrow> wcPhase (wsConns s ! i) = WsHandling msg \<Longrightarrow> wstep rv secret (Some i) s (handleMessage rv secret i msg s)"
| endCall: "i < length (wsConns s) \<Longrightarrow> wcPhase (wsConns s ! i) = WsWriting reply \<Longrightarrow> wstep rv secret (Some i) s (setC i (endRPC written) s)"
| unwound: "i < length (wsConns s) \<Longrightarrow> wcPhase (wsConns s ! i) = WsUnwinding \<Longrightarrow> wstep rv secret (Some i) s (unwind i s)"
| notifyFailed: "i < length (wsConns s) \<Longrightarrow> wcSub (wsConns s ! i) \<noteq> None \<Longrightarrow>
    wstep rv secret None s (setC i (\<lambda>c. closeConn (c\<lparr>wcFailed := True\<rparr>)) s)"
| initiateClose: "wstep rv secret None s (initiateWebSocketClose s)"
| closeNext: "wsPending s = i # js \<Longrightarrow> i < length (wsConns s) \<Longrightarrow> wstep rv secret None s (setC i closeState (s\<lparr>wsPending := js\<rparr>))"
| forceClose: "wstep rv secret None s (forceCloseWebSockets s)"
| engine: "estep (rvSys rv) st (rpE (wsRpc s)) e \<Longrightarrow> wstep rv secret None s (s\<lparr>wsRpc := (wsRpc s)\<lparr>rpE := e\<rparr>\<rparr>)"

inductive_cases wstepE: "wstep rv secret l s s'"

section \<open>The invariant of the connections\<close>

fun busy :: "wsPhase \<Rightarrow> bool" where
  "busy (WsHandling m) = True"
| "busy (WsWriting r) = True"
| "busy _ = False"

fun idle :: "wsPhase \<Rightarrow> bool" where
  "idle WsStarting = True"
| "idle WsReading = True"
| "idle (WsReceived m) = True"
| "idle _ = False"

definition alive :: "wsConn \<Rightarrow> int" where
  "alive c = (if wcPhase c = WsGone then 0 else 1)"

definition proved :: "string \<Rightarrow> wsConn \<Rightarrow> bool" where
  "proved secret c \<longleftrightarrow> secret = '''' \<or> (\<exists>m. wcProof c = Some m \<and> payloadProvesSecret secret m)"

definition connOk :: "string \<Rightarrow> wsServer \<Rightarrow> nat \<Rightarrow> wsConn \<Rightarrow> bool" where
  "connOk secret s i c \<longleftrightarrow>
     (wcSub c \<noteq> None \<longrightarrow> wcAuth c) \<and> (wcAuth c \<longrightarrow> proved secret c) \<and>
     (wcHandling c \<longleftrightarrow> busy (wcPhase c)) \<and>
     (busy (wcPhase c) \<longrightarrow> wcOpen c \<or> wsForced s \<or> wcFailed c) \<and>
     (idle (wcPhase c) \<longrightarrow> wcOpen c \<or> wcClosing c \<or> wsForced s \<or> wcFailed c) \<and>
     (idle (wcPhase c) \<longrightarrow> wcClosing c \<longrightarrow> \<not> wcOpen c) \<and>
     (busy (wcPhase c) \<or> idle (wcPhase c) \<longrightarrow> i \<in> set (wsTracked s) \<and> (wsClosing s \<longrightarrow> wcClosing c \<or> i \<in> set (wsPending s))) \<and>
     (wcPhase c = WsUpgrading \<longrightarrow> wcOpen c \<and> \<not> wcClosing c \<and> wcSub c = None \<and> i \<notin> set (wsTracked s) \<and> i \<notin> set (wsPending s))"

definition wsInv :: "string \<Rightarrow> wsServer \<Rightarrow> bool" where
  "wsInv secret s \<longleftrightarrow>
     wsActive s = (\<Sum>c\<leftarrow>wsConns s. alive c) \<and> wsActive s \<le> maxWebSocketConnections \<and>
     set (wsTracked s) \<subseteq> {..<length (wsConns s)} \<and> set (wsPending s) \<subseteq> {..<length (wsConns s)} \<and>
     (\<forall>i<length (wsConns s). connOk secret s i (wsConns s ! i))"

lemma sum_list_upd: "i < length xs \<Longrightarrow> (\<Sum>x\<leftarrow>xs[i := c]. f x) = (\<Sum>x\<leftarrow>xs. f x) + f c - (f (xs ! i) :: int)"
  by (induction xs arbitrary: i) (auto split: nat.splits)

text \<open>A step of one connection's thread: it may add itself to the tracked connections or leave them.\<close>

lemma wsInv_thread:
  assumes "wsInv secret s" "i < length (wsConns s)" "wsConns s' = (wsConns s)[i := c]"
    "wsClosing s' = wsClosing s" "wsForced s' = wsForced s" "wsPending s' = wsPending s"
    "\<And>j. j \<noteq> i \<Longrightarrow> j \<in> set (wsTracked s') \<longleftrightarrow> j \<in> set (wsTracked s)"
    "wsActive s' = wsActive s + alive c - alive (wsConns s ! i)" "alive c \<le> alive (wsConns s ! i)"
    "connOk secret s' i c"
  shows "wsInv secret s'"
proof -
  have "connOk secret s' j (wsConns s' ! j)" if "j < length (wsConns s')" for j
  proof (cases "j = i")
    case False
    then have "connOk secret s j (wsConns s' ! j)" using that assms(1,3) by (simp add: wsInv_def)
    then show ?thesis using assms(4-6) assms(7)[OF False] by (simp add: connOk_def)
  qed (use assms in simp)
  moreover have "j < length (wsConns s)" if "j \<in> set (wsTracked s')" for j
    using that assms(1,2) assms(7)[of j] by (cases "j = i") (auto simp: wsInv_def)
  ultimately show ?thesis using assms(1-3,6,8,9) by (auto simp: wsInv_def sum_list_upd)
qed

lemma setC_fields:
  "wsClosing (setC i f s) = wsClosing s" "wsActive (setC i f s) = wsActive s" "wsTracked (setC i f s) = wsTracked s"
  "wsPending (setC i f s) = wsPending s" "wsForced (setC i f s) = wsForced s" "wsRpc (setC i f s) = wsRpc s"
  "wsConns (setC i f s) = (wsConns s)[i := f (wsConns s ! i)]"
  by (simp_all add: setC_def)

text \<open>A change of the connection that leaves the server alone.\<close>

lemma wsInv_setC:
  assumes "wsInv secret s" "i < length (wsConns s)" "connOk secret s i (f (wsConns s ! i))"
    "alive (f (wsConns s ! i)) = alive (wsConns s ! i)"
  shows "wsInv secret (setC i f s)"
  using assms by (intro wsInv_thread[OF assms(1,2), of _ "f (wsConns s ! i)"]) (simp_all add: setC_fields connOk_def)

lemma wsInv_conn: "wsInv secret s \<Longrightarrow> i < length (wsConns s) \<Longrightarrow> connOk secret s i (wsConns s ! i)"
  by (simp add: wsInv_def)

lemma startNotifications_conn:
  assumes "i < length (wsConns s)"
  shows "\<exists>n. wsConns (startNotifications i s) = (wsConns s)[i := (wsConns s ! i)\<lparr>wcSub := Some n\<rparr>]"
    and "wsClosing (startNotifications i s) = wsClosing s" "wsForced (startNotifications i s) = wsForced s"
    "wsPending (startNotifications i s) = wsPending s" "wsTracked (startNotifications i s) = wsTracked s"
    "wsActive (startNotifications i s) = wsActive s"
proof -
  show "\<exists>n. wsConns (startNotifications i s) = (wsConns s)[i := (wsConns s ! i)\<lparr>wcSub := Some n\<rparr>]"
  proof (cases "wcSub (wsConns s ! i)")
    case (Some n)
    then have "(wsConns s)[i := (wsConns s ! i)\<lparr>wcSub := Some n\<rparr>] = wsConns s"
      by (metis (full_types) list_update_id wsConn.surjective wsConn.update_convs(6))
    then show ?thesis using Some by (auto simp: startNotifications_def intro: exI[of _ n])
  qed (auto simp: startNotifications_def setC_def split: prod.splits)
qed (auto simp: startNotifications_def setC_def split: option.splits prod.splits)

lemma wsInv_end:
  assumes "wsInv secret s" "i < length (wsConns s)" "wcPhase (wsConns s ! i) \<noteq> WsGone" "\<not> busy (wcPhase (wsConns s ! i))"
  shows "wsInv secret (endWebSocket i s)"
  using assms wsInv_conn[OF assms(1,2)]
  by (intro wsInv_thread[OF assms(1,2), of _ "(wsConns s ! i)\<lparr>wcPhase := WsGone\<rparr>"])
     (auto simp: endWebSocket_def setC_def alive_def connOk_def proved_def)

lemma wsInv_track:
  assumes "wsInv secret s" "i < length (wsConns s)" "wcPhase (wsConns s ! i) = WsUpgrading"
  shows "wsInv secret (trackWebSocket i s)"
proof (cases "wsClosing s")
  case True
  then show ?thesis using assms wsInv_conn[OF assms(1,2)]
    by (intro wsInv_thread[OF assms(1,2), of _ "(closeConn (wsConns s ! i))\<lparr>wcPhase := WsGone\<rparr>"])
       (auto simp: trackWebSocket_def endWebSocket_def setC_def alive_def connOk_def proved_def closeConn_def)
next
  case False
  then show ?thesis using assms wsInv_conn[OF assms(1,2)]
    by (intro wsInv_thread[OF assms(1,2), of _ "(wsConns s ! i)\<lparr>wcPhase := WsStarting\<rparr>"])
       (auto simp: trackWebSocket_def setC_def alive_def connOk_def proved_def)
qed

lemma wsInv_start:
  assumes "wsInv secret s" "i < length (wsConns s)" "wcPhase (wsConns s ! i) = WsStarting"
  shows "wsInv secret (startReading secret i s)"
proof (cases "secret = ''''")
  case True
  let ?s1 = "setC i (\<lambda>c. c\<lparr>wcAuth := True\<rparr>) s"
  have i1: "i < length (wsConns ?s1)" using assms(2) by (simp add: setC_def)
  obtain n where n: "wsConns (startNotifications i ?s1) = (wsConns ?s1)[i := (wsConns ?s1 ! i)\<lparr>wcSub := Some n\<rparr>]"
    using startNotifications_conn(1)[OF i1] by blast
  show ?thesis using assms wsInv_conn[OF assms(1,2)] True n startNotifications_conn(2-)[OF i1]
    by (intro wsInv_thread[OF assms(1,2), of _ "(wsConns s ! i)\<lparr>wcAuth := True, wcSub := Some n, wcPhase := WsReading\<rparr>"])
       (auto simp: startReading_def setC_def alive_def connOk_def proved_def)
next
  case False
  then show ?thesis using assms wsInv_conn[OF assms(1,2)]
    by (simp add: startReading_def) (intro wsInv_setC[OF assms(1,2)], auto simp: connOk_def alive_def proved_def)
qed

lemma wsInv_receive:
  assumes "wsInv secret s" "i < length (wsConns s)" "wcPhase (wsConns s ! i) = WsReading"
  shows "wsInv secret (receiveMessage secret ok i msg s)"
proof (cases "\<not> wcAuth (wsConns s ! i) \<and> payloadProvesSecret secret msg")
  case True
  let ?s1 = "setC i (\<lambda>c. c\<lparr>wcAuth := True, wcProof := Some msg\<rparr>) s"
  have i1: "i < length (wsConns ?s1)" using assms(2) by (simp add: setC_def)
  obtain n where n: "wsConns (startNotifications i ?s1) = (wsConns ?s1)[i := (wsConns ?s1 ! i)\<lparr>wcSub := Some n\<rparr>]"
    using startNotifications_conn(1)[OF i1] by blast
  show ?thesis
  proof (cases ok)
    case ok: True
    show ?thesis using assms wsInv_conn[OF assms(1,2)] True ok n startNotifications_conn(2-)[OF i1]
      by (intro wsInv_thread[OF assms(1,2), of _
            "(wsConns s ! i)\<lparr>wcAuth := True, wcProof := Some msg, wcSub := Some n, wcPhase := WsReceived msg\<rparr>"])
         (auto simp: receiveMessage_def setC_def alive_def connOk_def proved_def Let_def)
  next
    case False
    then show ?thesis using assms wsInv_conn[OF assms(1,2)] True
      by (intro wsInv_thread[OF assms(1,2), of _ "(wsConns s ! i)\<lparr>wcAuth := True, wcProof := Some msg, wcPhase := WsUnwinding\<rparr>"])
         (auto simp: receiveMessage_def setC_def alive_def connOk_def proved_def Let_def)
  qed
next
  case False
  then show ?thesis using assms wsInv_conn[OF assms(1,2)] unfolding receiveMessage_def if_not_P[OF False]
    by (intro wsInv_setC[OF assms(1,2)]) (auto simp: connOk_def alive_def proved_def)
qed

lemma wsInv_beginRPC:
  assumes "wsInv secret s" "i < length (wsConns s)" "wcPhase (wsConns s ! i) = WsReceived msg"
  shows "wsInv secret (setC i (beginRPC msg) s)"
  using assms wsInv_conn[OF assms(1,2)]
  by (intro wsInv_setC[OF assms(1,2)]) (auto simp: beginRPC_def connOk_def alive_def proved_def)

lemma wsInv_handle:
  assumes "wsInv secret s" "i < length (wsConns s)" "wcPhase (wsConns s ! i) = WsHandling msg"
  shows "wsInv secret (handleMessage rv secret i msg s)"
proof -
  obtain reply st where "HandlePayload rv secret msg (wsRpc s) = (reply, st)" by (cases "HandlePayload rv secret msg (wsRpc s)")
  then show ?thesis using assms wsInv_conn[OF assms(1,2)]
    by (intro wsInv_thread[OF assms(1,2), of _ "(wsConns s ! i)\<lparr>wcPhase := WsWriting reply\<rparr>"])
       (auto simp: handleMessage_def setC_def alive_def connOk_def proved_def)
qed

lemma wsInv_endRPC:
  assumes "wsInv secret s" "i < length (wsConns s)" "wcPhase (wsConns s ! i) = WsWriting reply"
  shows "wsInv secret (setC i (endRPC written) s)"
  using assms wsInv_conn[OF assms(1,2)]
  by (intro wsInv_setC[OF assms(1,2)]) (auto simp: endRPC_def connOk_def alive_def proved_def)

lemma wsInv_unwind:
  assumes "wsInv secret s" "i < length (wsConns s)" "wcPhase (wsConns s ! i) = WsUnwinding"
  shows "wsInv secret (unwind i s)"
  using assms wsInv_conn[OF assms(1,2)]
  by (intro wsInv_thread[OF assms(1,2), of _ "(closeConn (wsConns s ! i))\<lparr>wcPhase := WsGone\<rparr>"])
     (auto simp: unwind_def untrackWebSocket_def endWebSocket_def setC_def alive_def connOk_def proved_def closeConn_def Let_def
       split: option.splits)

lemma wsInv_accept:
  assumes "wsInv secret s" "beginWebSocket s = Some s'"
  shows "wsInv secret s'"
proof -
  have s': "s' = s\<lparr>wsActive := wsActive s + 1, wsConns := wsConns s @ [newWsConn]\<rparr>" "wsActive s < maxWebSocketConnections"
    using assms(2) by (auto simp: beginWebSocket_def split: if_splits)
  have "connOk secret s' i (wsConns s' ! i)" if "i < length (wsConns s')" for i
  proof (cases "i = length (wsConns s)")
    case True
    then show ?thesis using assms(1) s' by (auto simp: connOk_def newWsConn_def wsInv_def)
  next
    case False
    then show ?thesis using that s' wsInv_conn[OF assms(1), of i] by (simp add: connOk_def nth_append)
  qed
  then show ?thesis using assms(1) s' by (auto simp: wsInv_def alive_def newWsConn_def)
qed

lemma wsInv_initiate: "wsInv secret s \<Longrightarrow> wsInv secret (initiateWebSocketClose s)"
  by (auto simp: initiateWebSocketClose_def wsInv_def connOk_def)

lemma idle_not_busy: "idle p \<Longrightarrow> \<not> busy p"
  by (cases p) auto

lemma wsInv_closeNext:
  assumes "wsInv secret s" "wsPending s = i # js" "i < length (wsConns s)"
  shows "wsInv secret (setC i closeState (s\<lparr>wsPending := js\<rparr>))"
proof -
  let ?s = "setC i closeState (s\<lparr>wsPending := js\<rparr>)"
  have "connOk secret ?s j (wsConns ?s ! j)" if "j < length (wsConns ?s)" for j
    using wsInv_conn[OF assms(1), of j] that assms(2)
    by (cases "j = i") (auto simp: connOk_def setC_def closeState_def closeConn_def Let_def proved_def dest: idle_not_busy)
  moreover have "alive (closeState c) = alive c" for c by (simp add: alive_def closeState_def closeConn_def Let_def)
  ultimately show ?thesis using assms by (auto simp: wsInv_def setC_def sum_list_upd)
qed

lemma wsInv_forceLoop:
  "wsInv secret s \<Longrightarrow> wsForced s \<Longrightarrow> set js \<subseteq> set (wsTracked s) \<Longrightarrow> wsInv secret (fold (\<lambda>i. setC i closeConn) js s)"
proof (induction js arbitrary: s)
  case (Cons i js)
  have i: "i < length (wsConns s)" using Cons.prems by (auto simp: wsInv_def)
  have "wsInv secret (setC i closeConn s)"
    using Cons.prems wsInv_conn[OF Cons.prems(1) i]
    by (intro wsInv_setC[OF Cons.prems(1) i]) (auto simp: connOk_def closeConn_def alive_def proved_def)
  then show ?case using Cons.IH[of "setC i closeConn s"] Cons.prems by (simp add: setC_def)
qed simp

lemma wsInv_force: "wsInv secret s \<Longrightarrow> wsInv secret (forceCloseWebSockets s)"
proof -
  assume "wsInv secret s"
  then have "wsInv secret (s\<lparr>wsForced := True\<rparr>)" by (auto simp: wsInv_def connOk_def)
  then show ?thesis unfolding forceCloseWebSockets_def by (rule wsInv_forceLoop) simp_all
qed

lemma wsInv_notifyFailed:
  assumes "wsInv secret s" "i < length (wsConns s)" "wcSub (wsConns s ! i) \<noteq> None"
  shows "wsInv secret (setC i (\<lambda>c. closeConn (c\<lparr>wcFailed := True\<rparr>)) s)"
  using assms wsInv_conn[OF assms(1,2)]
  by (intro wsInv_setC[OF assms(1,2)]) (auto simp: connOk_def alive_def proved_def closeConn_def)

lemma wsInv_step: "wsInv secret s \<Longrightarrow> wstep rv secret l s s' \<Longrightarrow> wsInv secret s'"
proof (erule wstepE, goal_cases)
  case (7 i)
  then show ?case using wsInv_conn[of secret s i]
    by simp (intro wsInv_setC, auto simp: connOk_def alive_def proved_def)
next
  case 16
  then show ?case by (simp add: wsInv_def connOk_def)
qed (auto intro: wsInv_accept wsInv_track wsInv_start wsInv_receive wsInv_beginRPC wsInv_handle wsInv_endRPC wsInv_unwind
  wsInv_initiate wsInv_closeNext wsInv_force wsInv_notifyFailed wsInv_end)

definition wsInit :: "wsServer \<Rightarrow> bool" where
  "wsInit s \<longleftrightarrow> (\<exists>st. s = \<lparr>wsClosing = False, wsActive = 0, wsTracked = [], wsPending = [], wsConns = [], wsForced = False, wsRpc = st\<rparr>)"

definition anyStep :: "rpcEnv \<Rightarrow> string \<Rightarrow> wsServer \<Rightarrow> wsServer \<Rightarrow> bool" where
  "anyStep rv secret s s' \<longleftrightarrow> (\<exists>l. wstep rv secret l s s')"

lemma wsInv_init: "wsInit s \<Longrightarrow> wsInv secret s"
  by (auto simp: wsInit_def wsInv_def maxWebSocketConnections_def)

interpretation wsys: invariant_system wsInit "anyStep rv secret" "wsInv secret" for rv secret
  by unfold_locales (auto simp: anyStep_def intro: wsInv_init wsInv_step)

definition wsReachable :: "rpcEnv \<Rightarrow> string \<Rightarrow> wsServer \<Rightarrow> bool" where
  "wsReachable rv secret s \<longleftrightarrow> (\<exists>s0. wsInit s0 \<and> (anyStep rv secret)\<^sup>*\<^sup>* s0 s)"

lemma wsReachable_inv: "wsReachable rv secret s \<Longrightarrow> wsInv secret s"
  using wsys.reach_inv[of rv secret s] by (simp add: wsReachable_def wsys.reach_def)


section \<open>Closing\<close>

text \<open>How many steps the thread of a connection has left once the server is closing.\<close>

fun phaseRank :: "wsPhase \<Rightarrow> int" where
  "phaseRank WsGone = 0"
| "phaseRank WsUnwinding = 1"
| "phaseRank WsUpgrading = 1"
| "phaseRank (WsWriting r) = 2"
| "phaseRank WsReading = 2"
| "phaseRank (WsReceived m) = 2"
| "phaseRank (WsHandling m) = 3"
| "phaseRank WsStarting = 3"

definition wsRank :: "wsServer \<Rightarrow> int" where
  "wsRank s = (\<Sum>c\<leftarrow>wsConns s. phaseRank (wcPhase c))"

lemma phaseRank_nonneg: "0 \<le> phaseRank p"
  by (cases p) simp_all

lemma phaseRank_zero: "phaseRank p = 0 \<longleftrightarrow> p = WsGone"
  by (cases p) simp_all

lemma sum_zero: "(\<And>c. 0 \<le> f c) \<Longrightarrow> (\<Sum>c\<leftarrow>cs. f c) = (0 :: int) \<longleftrightarrow> (\<forall>c\<in>set cs. f c = 0)"
proof -
  assume f: "\<And>c. 0 \<le> f c"
  have nonneg: "0 \<le> (\<Sum>c\<leftarrow>cs. f c)" for cs using f by (induction cs) auto
  show ?thesis by (induction cs) (use f nonneg in \<open>auto simp: add_nonneg_eq_0_iff\<close>)
qed

lemma wsRank_zero: "wsInv secret s \<Longrightarrow> wsActive s = 0 \<longleftrightarrow> wsRank s = 0"
proof -
  assume "wsInv secret s"
  then have "wsActive s = (\<Sum>c\<leftarrow>wsConns s. alive c)" by (simp add: wsInv_def)
  then show ?thesis unfolding wsRank_def
    using sum_zero[of alive "wsConns s"] sum_zero[of "\<lambda>c. phaseRank (wcPhase c)" "wsConns s"]
    by (auto simp: alive_def phaseRank_nonneg phaseRank_zero)
qed

lemma phases_setC: "(\<And>c. wcPhase (f c) = wcPhase c) \<Longrightarrow> map wcPhase (wsConns (setC i f s)) = map wcPhase (wsConns s)"
  by (rule nth_equalityI) (auto simp: setC_def, metis nth_list_update_eq nth_list_update_neq)

lemma force_fields:
  "wsClosing (fold (\<lambda>i. setC i closeConn) js s) = wsClosing s \<and> wsPending (fold (\<lambda>i. setC i closeConn) js s) = wsPending s \<and>
   map wcPhase (wsConns (fold (\<lambda>i. setC i closeConn) js s)) = map wcPhase (wsConns s)"
proof (induction js arbitrary: s)
  case (Cons i js)
  have "map wcPhase (wsConns (setC i closeConn s)) = map wcPhase (wsConns s)" by (simp add: phases_setC closeConn_def)
  then show ?case using Cons.IH[of "setC i closeConn s"] by (simp add: setC_def)
qed simp

lemma wsRank_phases: "map wcPhase (wsConns s') = map wcPhase (wsConns s) \<Longrightarrow> wsRank s' = wsRank s"
proof -
  have "wsRank s = sum_list (map phaseRank (map wcPhase (wsConns s)))" for s by (simp add: wsRank_def comp_def)
  then show "map wcPhase (wsConns s') = map wcPhase (wsConns s) \<Longrightarrow> ?thesis" by metis
qed

lemma wsRank_thread:
  assumes "i < length (wsConns s)" "wsConns s' = (wsConns s)[i := c]" "phaseRank (wcPhase c) < phaseRank (wcPhase (wsConns s ! i))"
  shows "wsRank s' < wsRank s"
  using assms sum_list_upd[OF assms(1), of "\<lambda>c. phaseRank (wcPhase c)" c] by (simp add: wsRank_def)

lemma startReading_conn:
  assumes "i < length (wsConns s)"
  shows "\<exists>c. wsConns (startReading secret i s) = (wsConns s)[i := c] \<and> wcPhase c = WsReading"
    and "wsClosing (startReading secret i s) = wsClosing s" "wsPending (startReading secret i s) = wsPending s"
proof -
  let ?s1 = "setC i (\<lambda>c. c\<lparr>wcAuth := True\<rparr>) s"
  have i1: "i < length (wsConns ?s1)" using assms by (simp add: setC_def)
  obtain n where "wsConns (startNotifications i ?s1) = (wsConns ?s1)[i := (wsConns ?s1 ! i)\<lparr>wcSub := Some n\<rparr>]"
    using startNotifications_conn(1)[OF i1] by blast
  then show "\<exists>c. wsConns (startReading secret i s) = (wsConns s)[i := c] \<and> wcPhase c = WsReading"
    using assms by (auto simp: startReading_def setC_def)
  show "wsClosing (startReading secret i s) = wsClosing s" "wsPending (startReading secret i s) = wsPending s"
    using startNotifications_conn(2,4)[OF i1] by (simp_all add: startReading_def setC_fields)
qed

lemma closing_thread:
  assumes inv: "wsInv secret s" and closing: "wsClosing s" "wsPending s = []" and step: "wstep rv secret (Some i) s s'"
  shows "wsClosing s' \<and> wsPending s' = [] \<and> wsRank s' < wsRank s"
proof -
  have ok: "i < length (wsConns s) \<Longrightarrow> connOk secret s i (wsConns s ! i)" using wsInv_conn[OF inv] .
  from step show ?thesis
  proof cases
    case upgradeFailed
    then show ?thesis using closing wsRank_thread[of i s s' "(wsConns s ! i)\<lparr>wcPhase := WsGone\<rparr>"]
      by (simp add: endWebSocket_def setC_def)
  next
    case track
    then show ?thesis using closing wsRank_thread[of i s s' "(closeConn (wsConns s ! i))\<lparr>wcPhase := WsGone\<rparr>"]
      by (simp add: trackWebSocket_def endWebSocket_def setC_def closeConn_def)
  next
    case start
    then obtain c where "wsConns s' = (wsConns s)[i := c]" "wcPhase c = WsReading" using startReading_conn(1) by blast
    then show ?thesis using start closing startReading_conn(2,3)[OF start(2)] wsRank_thread[of i s s' c] by simp
  next
    case startFailed
    then show ?thesis using closing wsRank_thread[of i s s' "(wsConns s ! i)\<lparr>wcPhase := WsGone\<rparr>"]
      by (simp add: endWebSocket_def setC_def)
  next
    case (receive ok' msg)
    then have False using ok closing by (auto simp: connOk_def)
    then show ?thesis ..
  next
    case readError
    then show ?thesis using closing wsRank_thread[of i s s' "(wsConns s ! i)\<lparr>wcPhase := WsUnwinding\<rparr>"] by (simp add: setC_def)
  next
    case (beginCall msg)
    then have "wcClosing (wsConns s ! i)" using ok closing by (simp add: connOk_def)
    then show ?thesis using beginCall closing wsRank_thread[of i s s' "(wsConns s ! i)\<lparr>wcPhase := WsUnwinding\<rparr>"]
      by (simp add: setC_def beginRPC_def)
  next
    case (call msg)
    obtain reply st where "HandlePayload rv secret msg (wsRpc s) = (reply, st)" by (cases "HandlePayload rv secret msg (wsRpc s)")
    then show ?thesis using call closing wsRank_thread[of i s s' "(wsConns s ! i)\<lparr>wcPhase := WsWriting reply\<rparr>"]
      by (simp add: setC_def handleMessage_def)
  next
    case (endCall reply written)
    then have "wcClosing (wsConns s ! i)" using ok closing by (simp add: connOk_def)
    then show ?thesis using endCall closing wsRank_thread[of i s s' "endRPC written (wsConns s ! i)"]
      by (simp add: setC_def endRPC_def)
  next
    case unwound
    then show ?thesis using closing wsRank_thread[of i s s' "(closeConn (wsConns s ! i))\<lparr>wcPhase := WsGone\<rparr>"]
      by (auto simp: unwind_def untrackWebSocket_def endWebSocket_def setC_def closeConn_def Let_def split: option.splits)
  qed
qed

lemma closing_environment:
  assumes closing: "wsClosing s" "wsPending s = []" and step: "wstep rv secret None s s'"
  shows "wsClosing s' \<and> wsPending s' = [] \<and> wsRank s' = wsRank s"
  using step
proof cases
  case accept
  then show ?thesis using closing by (simp add: beginWebSocket_def)
next
  case (notifyFailed i)
  let ?f = "\<lambda>c. closeConn (c\<lparr>wcFailed := True\<rparr>)"
  have "map wcPhase (wsConns (setC i ?f s)) = map wcPhase (wsConns s)" by (rule phases_setC) (simp add: closeConn_def)
  then show ?thesis unfolding notifyFailed(1) using closing wsRank_phases[of "setC i ?f s" s] by (simp add: setC_fields)
next
  case forceClose
  then show ?thesis using closing force_fields[of "wsTracked s" "s\<lparr>wsForced := True\<rparr>"] wsRank_phases[of s' s]
    by (simp add: forceCloseWebSockets_def)
qed (use closing in \<open>simp_all add: initiateWebSocketClose_def wsRank_def\<close>)

lemma thread_not_stuck:
  assumes "i < length (wsConns s)" "wcPhase (wsConns s ! i) \<noteq> WsGone"
  shows "\<exists>s'. wstep rv secret (Some i) s s'"
  using assms by (cases "wcPhase (wsConns s ! i)") (blast intro: wstep.intros)+

text \<open>C21: Once the server is closing and has told its connections, every further step of a connection's thread
  brings it nearer to its end, nothing else takes that back, and as long as a connection is left some thread can
  move: the wait of \<open>Close\<close> for the connections ends after finitely many of their steps.\<close>

theorem websocket_drains:
  assumes "wsReachable rv secret s" "wsClosing s" "wsPending s = []"
  shows "(\<forall>i s'. wstep rv secret (Some i) s s' \<longrightarrow> wsClosing s' \<and> wsPending s' = [] \<and> wsRank s' < wsRank s) \<and>
    (\<forall>s'. wstep rv secret None s s' \<longrightarrow> wsClosing s' \<and> wsPending s' = [] \<and> wsRank s' = wsRank s) \<and>
    (wsActive s = 0 \<longleftrightarrow> wsRank s = 0) \<and> 0 \<le> wsRank s \<and>
    (wsActive s \<noteq> 0 \<longrightarrow> (\<exists>i s'. wstep rv secret (Some i) s s'))"
proof -
  have inv: "wsInv secret s" using wsReachable_inv[OF assms(1)] .
  have "\<exists>i s'. wstep rv secret (Some i) s s'" if "wsActive s \<noteq> 0"
  proof -
    have "wsRank s \<noteq> 0" using that wsRank_zero[OF inv] by simp
    then obtain c where "c \<in> set (wsConns s)" "wcPhase c \<noteq> WsGone"
      unfolding wsRank_def using sum_zero[of "\<lambda>c. phaseRank (wcPhase c)"] phaseRank_nonneg phaseRank_zero by blast
    then show ?thesis using thread_not_stuck by (metis in_set_conv_nth)
  qed
  moreover have "0 \<le> wsRank s" unfolding wsRank_def by (rule sum_list_nonneg) (auto simp: phaseRank_nonneg)
  ultimately show ?thesis
    using closing_thread[OF inv assms(2,3)] closing_environment[OF assms(2,3)] wsRank_zero[OF inv] by blast
qed

lemma wsReachable_step: "wsReachable rv secret s \<Longrightarrow> wstep rv secret l s s' \<Longrightarrow> wsReachable rv secret s'"
proof -
  assume "wsReachable rv secret s" "wstep rv secret l s s'"
  moreover from this have "anyStep rv secret s s'" by (auto simp: anyStep_def)
  ultimately show ?thesis unfolding wsReachable_def by (meson rtranclp.rtrancl_into_rtrancl)
qed

text \<open>A server with one connection, closing.\<close>

definition wsExample :: wsServer where
  "wsExample =
     (let s0 = \<lparr>wsClosing = False, wsActive = 0, wsTracked = [], wsPending = [], wsConns = [], wsForced = False,
            wsRpc = \<lparr>rpE = exampleEngine, rpFiles = Map.empty, rpTick = 0\<rparr>\<rparr>;
          s1 = startReading ''s3'' 0 (trackWebSocket 0 (the (beginWebSocket s0)));
          s2 = initiateWebSocketClose s1 in
      setC 0 closeState (s2\<lparr>wsPending := []\<rparr>))"

lemma wsExample_reachable: "wsReachable rv ''s3'' wsExample"
proof -
  define s0 where "s0 = \<lparr>wsClosing = False, wsActive = 0, wsTracked = [], wsPending = [], wsConns = [], wsForced = False,
    wsRpc = \<lparr>rpE = exampleEngine, rpFiles = Map.empty, rpTick = 0\<rparr>\<rparr>"
  define s1 where "s1 = the (beginWebSocket s0)"
  define s2 where "s2 = trackWebSocket 0 s1"
  define s3 where "s3 = startReading ''s3'' 0 s2"
  define s4 where "s4 = initiateWebSocketClose s3"
  note defs = s4_def s3_def s2_def s1_def s0_def beginWebSocket_def maxWebSocketConnections_def trackWebSocket_def setC_def newWsConn_def
    startReading_def initiateWebSocketClose_def
  have "wsReachable rv ''s3'' s0" unfolding wsReachable_def wsInit_def s0_def by blast
  moreover have "wstep rv ''s3'' None s0 s1" by (rule wstep.accept) (simp add: defs)
  moreover have "wstep rv ''s3'' (Some 0) s1 s2" unfolding s2_def by (rule wstep.track) (simp_all add: defs)
  moreover have "wstep rv ''s3'' (Some 0) s2 s3" unfolding s3_def by (rule wstep.start) (simp_all add: defs)
  moreover have "wstep rv ''s3'' None s3 s4" unfolding s4_def by (rule wstep.initiateClose)
  moreover have "wstep rv ''s3'' None s4 (setC 0 closeState (s4\<lparr>wsPending := []\<rparr>))"
    by (rule wstep.closeNext[of _ 0 "[]"]) (simp_all add: defs)
  moreover have "setC 0 closeState (s4\<lparr>wsPending := []\<rparr>) = wsExample"
    by (simp add: wsExample_def s4_def s3_def s2_def s1_def s0_def Let_def)
  ultimately show ?thesis using wsReachable_step by metis
qed

lemma wsExample_fields: "wsClosing wsExample" "wsPending wsExample = []" "wsActive wsExample = 1" "length (wsConns wsExample) = 1"
  by (simp_all add: wsExample_def Let_def setC_def initiateWebSocketClose_def startReading_def trackWebSocket_def
    beginWebSocket_def maxWebSocketConnections_def)


theorem websocket_drains_witness: "\<forall>rv. wsReachable rv ''s3'' wsExample \<and> (\<exists>i s'. wstep rv ''s3'' (Some i) wsExample s')"
  using websocket_drains[of _ "''s3''" wsExample] wsExample_reachable wsExample_fields(1-3) by simp

section \<open>What the endpoint does\<close>

definition callbackByte :: "char \<Rightarrow> bool" where
  "callbackByte c \<longleftrightarrow> identStart c \<or> isDigit c \<or> c = CHR ''.''"

lemma validJSIdentifier_bytes: "validJSIdentifier p \<Longrightarrow> list_all callbackByte p"
  by (auto simp: validJSIdentifier_def callbackByte_def list_all_iff split: list.splits)

lemma Join_bytes: "list_all (list_all P) ps \<Longrightarrow> list_all P sep \<Longrightarrow> list_all P (Join ps sep)"
  by (induction ps sep rule: Join.induct) auto

lemma validJSONPCallback_bytes: "validJSONPCallback cb \<Longrightarrow> list_all callbackByte cb"
proof -
  assume "validJSONPCallback cb"
  then have "list_all (list_all callbackByte) (Split cb (CHR ''.''))"
    using validJSIdentifier_bytes by (auto simp: validJSONPCallback_def list_all_iff)
  then have "list_all callbackByte (Join (Split cb (CHR ''.'')) [CHR ''.''])"
    by (rule Join_bytes) (simp add: callbackByte_def)
  then show ?thesis by (simp add: Join_Split)
qed

lemma requestPayload_refused: "requestPayload sv maxBody r = Inl reply \<Longrightarrow> hpStatus reply \<in> {400, 405, 413}"
  by (auto simp: requestPayload_def httpError_def split: if_splits bodyRead.splits sum.splits)


text \<open>A POST request of the call above with a callback.\<close>

definition postRequest :: httpRequest where
  "postRequest = \<lparr>hrMethod = ''POST'', hrUpgrade = False, hrQuery = [(''jsoncallback'', [''a.b''])], hrRawQuery = '''',
     hrBody = (pauseAllCall, None), hrOrigin = '''', hrHost = '''', hrTLS = False\<rparr>"


text \<open>The limit on a query string is four times the limit on a payload and 64 kB, or the largest integer when that would
  overflow; it never wraps around, and a payload of the allowed size is always reachable.\<close>

lemma requestQueryLimit_bounds:
  assumes "0 < maxBody" "maxBody \<le> MaxInt64"
  shows "requestQueryLimit maxBody = min (4 * maxBody + 65536) MaxInt64 \<and> maxBody \<le> requestQueryLimit maxBody \<and>
    1048576 \<le> requestHeaderLimit maxBody"
  using assms by (auto simp: requestQueryLimit_def requestHeaderLimit_def Let_def wrap64_nonneg_id)

end
