(* ===== verification/Rpc_Listen.thy ===== *)
theory Rpc_Listen
  imports Rpc_Server Http_Range
begin

text \<open>
  How the JSON-RPC server is configured, serves and stops (jsonrpc/server.go): \<open>NewServer\<close>, \<open>ListenAndServe\<close> and \<open>Close\<close>. What the
  \<open>http.Server\<close> of the standard library and the timers do is the environment \<open>serveEnv\<close>; what the connections do meanwhile
  are steps of the relation \<open>wstep\<close>.
\<close>

section \<open>The configuration\<close>

record serverConfig =
  scAddr :: string
  scPath :: string
  scMaxRequestSize :: int
  scSecret :: string

definition DefaultAddr :: string where "DefaultAddr = ''127.0.0.1:6800''"

definition NewServer :: "serverConfig \<Rightarrow> serverConfig" where
  "NewServer cfg =
     \<lparr>scAddr = (if scAddr cfg = '''' then DefaultAddr else scAddr cfg), scPath = normalizePath (scPath cfg),
      scMaxRequestSize = (if scMaxRequestSize cfg \<le> 0 then DefaultMaxRequestSize else scMaxRequestSize cfg), scSecret = scSecret cfg\<rparr>"

section \<open>Stopping\<close>

definition ErrServerClosed :: err where "ErrServerClosed = Errorf ''http: Server closed'' []"

text \<open>What the first select of \<open>ListenAndServe\<close> receives: the end of the context, a request of the engine (with force or not), or
  the end of the listener.\<close>

datatype stopEvent = ContextDone | ShutdownRequest bool | ListenerEnded err

text \<open>
  \<open>svShutdown\<close> is the result of \<open>http.Server.Shutdown\<close>, \<open>svRequests\<close> what the engine requests before it returns, \<open>svInGrace\<close> says
  that it returns before the grace of an escalation is over, \<open>svClose\<close> is the result of \<open>http.Server.Close\<close>, \<open>svListen\<close> what the
  listener ends with and \<open>svWait\<close> the error of the context when it ends before the connections do. The connections move up to the
  stop, during the shutdown, and until the wait returns.
\<close>

record serveEnv =
  svStop :: stopEvent
  svShutdown :: "err option"
  svRequests :: "bool list"
  svInGrace :: bool
  svClose :: "err option"
  svListen :: err
  svWait :: "err option"
  svServing :: "wsServer \<Rightarrow> wsServer"
  svShutting :: "wsServer \<Rightarrow> wsServer"
  svWaiting :: "wsServer \<Rightarrow> wsServer"

definition dropClosed :: "err option \<Rightarrow> err option" where
  "dropClosed x = (case x of None \<Rightarrow> None | Some er \<Rightarrow> if errIs er ErrServerClosed then None else Some er)"

definition forceShutdownHTTP :: "serveEnv \<Rightarrow> err option" where
  "forceShutdownHTTP v =
     (case svShutdown v of
        None \<Rightarrow> None
      | Some er \<Rightarrow>
         (if errIs er ErrServerClosed then None
          else joinErrors [if errIs er DeadlineExceeded then None else Some er, svClose v]))"

definition gracefulShutdown :: "serveEnv \<Rightarrow> err option" where
  "gracefulShutdown v =
     (if True \<in> set (svRequests v)
      then joinErrors [if svInGrace v then None else svClose v, dropClosed (svShutdown v)]
      else svShutdown v)"

definition stopWebSockets :: "serveEnv \<Rightarrow> wsServer \<Rightarrow> err option \<times> wsServer" where
  "stopWebSockets v s =
     (let s1 = svWaiting v (initiateWebSocketClose s) in
      case svWait v of None \<Rightarrow> (None, s1) | Some er \<Rightarrow> (Some er, forceCloseWebSockets s1))"

definition ListenAndServe :: "serveEnv \<Rightarrow> wsServer \<Rightarrow> err option \<times> wsServer" where
  "ListenAndServe v s0 =
     (let s = svServing v s0 in
      case svStop v of
        ListenerEnded er \<Rightarrow> (if errIs er ErrServerClosed then None else Some er, initiateWebSocketClose s)
      | stop \<Rightarrow>
         (let shutdownErr = dropClosed (if stop = ShutdownRequest True then forceShutdownHTTP v else gracefulShutdown v) in
          case stopWebSockets v (svShutting v s) of
            (waitErr, s1) \<Rightarrow>
              (let shutdownErr1 = (case waitErr of None \<Rightarrow> shutdownErr | Some er \<Rightarrow> joinErrors [shutdownErr, Some er]) in
               (if errIs (svListen v) ErrServerClosed then shutdownErr1 else joinErrors [shutdownErr1, Some (svListen v)], s1))))"

text \<open>\<open>Server.Close\<close>, for a server whose listener belongs to the caller.\<close>

definition serverClose :: "serveEnv \<Rightarrow> wsServer \<Rightarrow> err option \<times> wsServer" where
  "serverClose v s = stopWebSockets v s"

section \<open>What is left after a stop\<close>

text \<open>The connections move by steps of the server, and a wait that returns no error has waited for every connection.\<close>

definition serveLaw :: "rpcEnv \<Rightarrow> string \<Rightarrow> serveEnv \<Rightarrow> wsServer \<Rightarrow> bool" where
  "serveLaw rv secret v s0 \<longleftrightarrow>
     (let s1 = svServing v s0; s2 = svShutting v s1; s3 = svWaiting v (initiateWebSocketClose s2) in
      (anyStep rv secret)\<^sup>*\<^sup>* s0 s1 \<and> (anyStep rv secret)\<^sup>*\<^sup>* s1 s2 \<and> (anyStep rv secret)\<^sup>*\<^sup>* (initiateWebSocketClose s2) s3 \<and>
      (svWait v = None \<longrightarrow> wsActive s3 = 0))"

lemma closing_kept: "wstep rv secret l s s' \<Longrightarrow> wsClosing s \<Longrightarrow> wsClosing s'"
  by (induction rule: wstep.induct)
    (auto simp: beginWebSocket_def endWebSocket_def trackWebSocket_def startReading_def startNotifications_def receiveMessage_def handleMessage_def
      unwind_def untrackWebSocket_def initiateWebSocketClose_def forceCloseWebSockets_def setC_fields force_fields Let_def
      split: option.splits prod.splits if_splits)

lemma closing_steps: "(anyStep rv secret)\<^sup>*\<^sup>* s s' \<Longrightarrow> wsClosing s \<Longrightarrow> wsClosing s'"
  by (induction rule: rtranclp_induct) (auto simp: anyStep_def dest: closing_kept)

lemma wsReachable_steps: "wsReachable rv secret s \<Longrightarrow> (anyStep rv secret)\<^sup>*\<^sup>* s s' \<Longrightarrow> wsReachable rv secret s'"
  unfolding wsReachable_def by (meson rtranclp_trans)

lemma force_closes:
  "wsTracked (fold (\<lambda>i. setC i closeConn) js s) = wsTracked s \<and> length (wsConns (fold (\<lambda>i. setC i closeConn) js s)) = length (wsConns s) \<and>
   (\<forall>k < length (wsConns s). k \<in> set js \<or> \<not> wcOpen (wsConns s ! k) \<longrightarrow> \<not> wcOpen (wsConns (fold (\<lambda>i. setC i closeConn) js s) ! k))"
proof (induction js arbitrary: s)
  case (Cons i js)
  have "\<not> wcOpen (wsConns (setC i closeConn s) ! k)" if "k < length (wsConns s)" "k = i \<or> \<not> wcOpen (wsConns s ! k)" for k
    using that by (cases "k = i") (simp_all add: setC_fields closeConn_def)
  then show ?case using Cons.IH[of "setC i closeConn s"] by (auto simp: setC_fields)
qed simp

lemma initiate_closing: "wsClosing (initiateWebSocketClose s)" "(anyStep rv secret) s (initiateWebSocketClose s)"
  by (simp_all add: initiateWebSocketClose_def[abs_def] anyStep_def) (metis wstep.initiateClose initiateWebSocketClose_def)


text \<open>A forced stop whose grace runs out closes the connections of the listener, which is no error.\<close>

lemma forced_deadline: "svShutdown v = Some DeadlineExceeded \<Longrightarrow> svClose v = None \<Longrightarrow> forceShutdownHTTP v = None"
  by (simp add: forceShutdownHTTP_def ErrServerClosed_def joinErrors_def)

definition idleServer :: "rpcState \<Rightarrow> wsServer" where
  "idleServer st = \<lparr>wsClosing = False, wsActive = 0, wsTracked = [], wsPending = [], wsConns = [], wsForced = False, wsRpc = st\<rparr>"

definition quietServe :: serveEnv where
  "quietServe = \<lparr>svStop = ShutdownRequest True, svShutdown = Some DeadlineExceeded, svRequests = [], svInGrace = False, svClose = None,
     svListen = ErrServerClosed, svWait = None, svServing = id, svShutting = id, svWaiting = id\<rparr>"


end
