(* ===== verification/Command_Line.thy ===== *)
theory Command_Line
  imports Query Session_Save Rpc_Listen
begin

text \<open>
  The command (cmd/goaria/main.go): its flags, the daemon, and the download of the URLs it is given. The parser of the package
  flag and \<open>strconv.ParseInt(s, 0, 64)\<close> are modelled as far as the command uses them. The record \<open>cliEnv\<close> holds what lies outside:
  the logger, the file system, random numbers, what the engine's own goroutines do between the calls of the command, and the result of
  closing the engine.
\<close>

section \<open>Integers with a base prefix\<close>

definition digitOf :: "char \<Rightarrow> nat option" where
  "digitOf c =
     (let n = of_char c in
      if isDigit c then Some (n - 48) else if 97 \<le> n \<and> n \<le> 122 then Some (n - 87) else if 65 \<le> n \<and> n \<le> 90 then Some (n - 55) else None)"

fun digitsIn :: "nat \<Rightarrow> nat \<Rightarrow> string \<Rightarrow> nat option" where
  "digitsIn base acc [] = Some acc"
| "digitsIn base acc (c # cs) =
     (if c = CHR ''_'' then digitsIn base acc cs
      else (case digitOf c of None \<Rightarrow> None | Some d \<Rightarrow> if d < base then digitsIn base (acc * base + d) cs else None))"

definition basePrefix :: "string \<Rightarrow> nat \<times> string" where
  "basePrefix s =
     (if HasPrefix s ''0'' then
        (let c = ToLower (take 1 (drop 1 s)) in
         if length s \<ge> 3 \<and> c = ''b'' then (2, drop 2 s)
         else if length s \<ge> 3 \<and> c = ''o'' then (8, drop 2 s)
         else if length s \<ge> 3 \<and> c = ''x'' then (16, drop 2 s)
         else (8, drop 1 s))
      else (10, s))"

text \<open>An underscore separates two digits, or a base prefix and a digit; \<open>after\<close> says that the last character was one of these.\<close>

fun underscoresOK :: "bool \<Rightarrow> string \<Rightarrow> bool" where
  "underscoresOK after [] = True"
| "underscoresOK after (c # cs) =
     (if c = CHR ''_'' then after \<and> cs \<noteq> [] \<and> hd cs \<noteq> CHR ''_'' \<and> underscoresOK False cs
      else underscoresOK True cs)"

definition ParseInt64 :: "string \<Rightarrow> int option" where
  "ParseInt64 s =
     (let neg = HasPrefix s ''-''; ds = (if neg \<or> HasPrefix s ''+'' then drop 1 s else s); (base, digits) = basePrefix ds in
      if ds = '''' \<or> \<not> underscoresOK (digits \<noteq> ds) digits then None
      else
        (case digitsIn base 0 digits of
           None \<Rightarrow> None
         | Some n \<Rightarrow>
            (let v = (if neg then - int n else int n) in if MinInt64 \<le> v \<and> v \<le> MaxInt64 then Some v else None)))"

section \<open>Flags\<close>

text \<open>The flags of a set with their values, the defaults at first; and how parsing ends when it does not succeed. The messages the package prints
  are left out.\<close>

datatype flagVal = FStr string | FNum int

datatype flagEnd = FlagHelp | FlagError

definition setFlag :: "string \<Rightarrow> string \<Rightarrow> (string \<times> flagVal) list \<Rightarrow> (string \<times> flagVal) list option" where
  "setFlag name v fs =
     (case map_of fs name of
        Some (FNum _) \<Rightarrow> map_option (\<lambda>n. AList.update name (FNum n) fs) (ParseInt64 v)
      | _ \<Rightarrow> Some (AList.update name (FStr v) fs))"

text \<open>\<open>FlagSet.Parse\<close> for flags that take a value.\<close>

fun parseFlags :: "(string \<times> flagVal) list \<Rightarrow> string list \<Rightarrow> flagEnd + (string \<times> flagVal) list \<times> string list" where
  "parseFlags fs [] = Inr (fs, [])"
| "parseFlags fs (s # args) =
     (if length s < 2 \<or> hd s \<noteq> CHR ''-'' then Inr (fs, s # args)
      else if s = ''--'' then Inr (fs, args)
      else
        (let arg = drop (if s ! 1 = CHR ''-'' then 2 else 1) s in
         if hd arg = CHR ''-'' \<or> hd arg = CHR ''='' then Inl FlagError
         else
           (let name = takeWhile (\<lambda>c. c \<noteq> CHR ''='') arg in
            if name \<notin> fst ` set fs
            then Inl (if name = ''help'' \<or> name = ''h'' then FlagHelp else FlagError)
            else if CHR ''='' \<in> set arg
            then (case setFlag name (drop (length name + 1) arg) fs of None \<Rightarrow> Inl FlagError | Some fs' \<Rightarrow> parseFlags fs' args)
            else
              (case args of
                 [] \<Rightarrow> Inl FlagError
               | v # args' \<Rightarrow> (case setFlag name v fs of None \<Rightarrow> Inl FlagError | Some fs' \<Rightarrow> parseFlags fs' args')))))"

definition flagStr :: "(string \<times> flagVal) list \<Rightarrow> string \<Rightarrow> string" where
  "flagStr fs name = (case map_of fs name of Some (FStr s) \<Rightarrow> s | _ \<Rightarrow> '''')"

definition flagInt :: "(string \<times> flagVal) list \<Rightarrow> string \<Rightarrow> int" where
  "flagInt fs name = (case map_of fs name of Some (FNum n) \<Rightarrow> n | _ \<Rightarrow> 0)"

text \<open>A flag set with \<open>ExitOnError\<close> ends the process: 0 after the help, 2 after an error.\<close>

fun flagExit :: "flagEnd \<Rightarrow> int" where
  "flagExit FlagHelp = 0"
| "flagExit FlagError = 2"

definition newDaemonFlagSet :: "(string \<times> flagVal) list" where
  "newDaemonFlagSet =
     [(''listen'', FStr DefaultAddr), (''dir'', FStr ''.''), (''input-file'', FStr ''''), (''save-session'', FStr ''''), (''rpc-secret'', FStr ''''),
      (''rpc-max-request-size'', FNum DefaultMaxRequestSize), (''log-level'', FStr ''info'')]"

definition downloadFlags :: "(string \<times> flagVal) list" where
  "downloadFlags =
     [(''dir'', FStr ''.''), (''out'', FStr ''''), (''split'', FNum 4), (''max-connection-per-server'', FNum 4), (''http-segment-size'', FStr ''50M''),
      (''http-version'', FStr ''auto''), (''user-agent'', FStr ''''), (''log-level'', FStr ''info'')]"

section \<open>The commands\<close>

text \<open>
  \<open>ceBetween\<close> is what the engine does on its own before the command adds the next URL, and \<open>ceTicks\<close> its states at the ticks of
  \<open>waitForDownloads\<close> until the context ends with \<open>ceCause\<close>.
\<close>

record cliEnv =
  ceSys :: sysEnv
  ceLib :: sessionLib
  ceQuery :: queryEnv
  ceAbs :: "string \<Rightarrow> string res"
  ceLogger :: "string \<Rightarrow> err option"
  ceContent :: "string \<Rightarrow> string res"
  ceRandom :: "nat \<Rightarrow> string"
  ceSession :: string
  ceNow :: int
  ceBetween :: "nat \<Rightarrow> Engine \<Rightarrow> Engine"
  ceTicks :: "Engine \<Rightarrow> Engine list"
  ceCause :: err
  ceServe :: serveEnv
  ceFiles :: files
  ceCloseErr :: "err option"

text \<open>How a command ends: by the flag package, with the usage, with an error before the engine runs, or with a result of the engine. A
  download command ends with the gids it added and the engine as it last saw it, the daemon with its server.\<close>

datatype cliEnd =
    CliExit int
  | CliUsage
  | CliFailed err
  | CliDownloaded "err option" "string list" Engine
  | CliServed "err option" serverConfig wsServer

definition mergeCloseError :: "err option \<Rightarrow> err option \<Rightarrow> err option" where
  "mergeCloseError result closeErr = (case closeErr of None \<Rightarrow> result | Some er \<Rightarrow> joinErrors [result, Some er])"

definition startEngine :: "cliEnv \<Rightarrow> string \<Rightarrow> string \<Rightarrow> string \<Rightarrow> string \<Rightarrow> Engine res" where
  "startEngine ce dir userAgent inputFile saveSession =
     newEngineWithInput (ceSys ce) (ceLib ce) (ceAbs ce (if dir = '''' then ''.'' else dir)) 0 0 userAgent saveSession inputFile
       (ceContent ce inputFile) (ceRandom ce) (ceSession ce) (ceNow ce)"

definition cliOptions :: "(string \<times> flagVal) list \<Rightarrow> nat \<Rightarrow> nat \<Rightarrow> options" where
  "cliOptions fs n i =
     (let opts = [(''split'', VStr (Itoa (flagInt fs ''split''))), (''max-connection-per-server'', VStr (Itoa (flagInt fs ''max-connection-per-server''))),
        (''goaria-http-segment-size'', VStr (flagStr fs ''http-segment-size'')), (''http-version'', VStr (flagStr fs ''http-version''))] in
      if flagStr fs ''out'' \<noteq> '''' \<and> n = 1 \<and> i = 0 then AList.update ''out'' (VStr (flagStr fs ''out'')) opts else opts)"

fun addURLs :: "cliEnv \<Rightarrow> (string \<times> flagVal) list \<Rightarrow> nat \<Rightarrow> nat \<Rightarrow> string list \<Rightarrow> string list \<Rightarrow> Engine \<Rightarrow> string list res \<times> string list \<times> Engine" where
  "addURLs ce fs n i [] gids e = (Inr gids, gids, e)"
| "addURLs ce fs n i (raw # raws) gids e =
     (case AddURI (ceSys ce) (ceRandom ce i) [raw] (cliOptions fs n i) None (ceBetween ce i e) of
        (Inl er, e1) \<Rightarrow> (Inl er, gids, e1)
      | (Inr gid, e1) \<Rightarrow> addURLs ce fs n (i + 1) raws (gids @ [gid]) e1)"

definition waitKeys :: "string list" where
  "waitKeys = [''gid'', ''status'', ''completedLength'', ''totalLength'', ''errorMessage'', ''files'']"

definition failureText :: "string \<Rightarrow> (string \<times> statusVal) list \<Rightarrow> string" where
  "failureText gid st = gid @ '': '' @ (case map_of st ''errorMessage'' of Some (SStr m) \<Rightarrow> m | _ \<Rightarrow> ''<nil>'')"

fun pollStatus :: "queryEnv \<Rightarrow> string list \<Rightarrow> Engine \<Rightarrow> bool \<Rightarrow> string list \<Rightarrow> (bool \<times> string list) res" where
  "pollStatus qe [] e allDone failures = Inr (allDone, failures)"
| "pollStatus qe (gid # gids) e allDone failures =
     bindR (TellStatus qe gid waitKeys e) (\<lambda>st.
       (let s = map_of st ''status'' in
        if s = Some (SStr (statusText StatusComplete)) then pollStatus qe gids e allDone failures
        else if s = Some (SStr (statusText StatusError)) \<or> s = Some (SStr (statusText StatusRemoved))
        then pollStatus qe gids e allDone (failures @ [failureText gid st])
        else pollStatus qe gids e False failures))"

fun waitForDownloads :: "queryEnv \<Rightarrow> string list \<Rightarrow> err \<Rightarrow> Engine \<Rightarrow> Engine list \<Rightarrow> err option \<times> Engine" where
  "waitForDownloads qe gids cause e [] = (Some cause, e)"
| "waitForDownloads qe gids cause e (t # ts) =
     (case pollStatus qe gids t True [] of
        Inl er \<Rightarrow> (Some er, t)
      | Inr (allDone, failures) \<Rightarrow>
         (if failures \<noteq> [] then (Some (Errorf ''%s'' [Join failures ''; '']), t)
          else if allDone then (None, t)
          else waitForDownloads qe gids cause t ts))"

definition cliDownload :: "cliEnv \<Rightarrow> string list \<Rightarrow> cliEnd" where
  "cliDownload ce args =
     (case parseFlags downloadFlags args of
        Inl x \<Rightarrow> CliExit (flagExit x)
      | Inr (fs, urls) \<Rightarrow>
         (if urls = [] then CliUsage
          else
            (case ceLogger ce (flagStr fs ''log-level'') of
               Some er \<Rightarrow> CliFailed er
             | None \<Rightarrow>
                (case startEngine ce (flagStr fs ''dir'') (flagStr fs ''user-agent'') '''' '''' of
                   Inl er \<Rightarrow> CliFailed er
                 | Inr e0 \<Rightarrow>
                    (case addURLs ce fs (length urls) 0 urls [] e0 of
                       (Inl er, gids, e) \<Rightarrow> CliDownloaded (mergeCloseError (Some er) (ceCloseErr ce)) gids e
                     | (Inr gids, _, e) \<Rightarrow>
                        (case waitForDownloads (ceQuery ce) gids (ceCause ce) e (ceTicks ce e) of
                           (res, e1) \<Rightarrow> CliDownloaded (mergeCloseError res (ceCloseErr ce)) gids e1))))))"

text \<open>A server without connections in front of an engine.\<close>

definition serverFor :: "Engine \<Rightarrow> files \<Rightarrow> wsServer" where
  "serverFor e fs = \<lparr>wsClosing = False, wsActive = 0, wsTracked = [], wsPending = [], wsConns = [], wsForced = False,
     wsRpc = \<lparr>rpE = e, rpFiles = fs, rpTick = 0\<rparr>\<rparr>"

definition cliDaemon :: "cliEnv \<Rightarrow> string list \<Rightarrow> cliEnd" where
  "cliDaemon ce args =
     (case parseFlags newDaemonFlagSet args of
        Inl x \<Rightarrow> CliExit (flagExit x)
      | Inr (fs, _) \<Rightarrow>
         (case ceLogger ce (flagStr fs ''log-level'') of
            Some er \<Rightarrow> CliFailed er
          | None \<Rightarrow>
             (case startEngine ce (flagStr fs ''dir'') '''' (flagStr fs ''input-file'') (flagStr fs ''save-session'') of
                Inl er \<Rightarrow> CliFailed er
              | Inr e0 \<Rightarrow>
                 (let cfg = NewServer \<lparr>scAddr = flagStr fs ''listen'', scPath = '''', scMaxRequestSize = flagInt fs ''rpc-max-request-size'',
                        scSecret = flagStr fs ''rpc-secret''\<rparr> in
                  case ListenAndServe (ceServe ce) (serverFor e0 (ceFiles ce)) of
                    (res, s) \<Rightarrow> CliServed (mergeCloseError res (ceCloseErr ce)) cfg s))))"

definition cliRun :: "cliEnv \<Rightarrow> string list \<Rightarrow> cliEnd" where
  "cliRun ce args = (if args \<noteq> [] \<and> hd args = ''daemon'' then cliDaemon ce (tl args) else cliDownload ce args)"

text \<open>The exit status of \<open>main\<close>.\<close>

fun exitCode :: "cliEnd \<Rightarrow> int" where
  "exitCode (CliExit n) = n"
| "exitCode CliUsage = 0"
| "exitCode (CliFailed er) = 1"
| "exitCode (CliDownloaded res gids e) = (if res = None then 0 else 1)"
| "exitCode (CliServed res cfg s) = (if res = None then 0 else 1)"


section \<open>What the flags say\<close>

text \<open>A flag of the command as it is written in one argument.\<close>

definition writeFlag :: "string \<times> string \<Rightarrow> string" where
  "writeFlag a = ''--'' @ fst a @ ''='' @ snd a"

definition flagName :: "string \<Rightarrow> bool" where
  "flagName name \<longleftrightarrow> name \<noteq> [] \<and> hd name \<noteq> CHR ''-'' \<and> CHR ''='' \<notin> set name"

lemma takeWhile_flag: "CHR ''='' \<notin> set name \<Longrightarrow> takeWhile (\<lambda>c. c \<noteq> CHR ''='') (name @ ''='' @ v) = name"
  by (induction name) auto

lemma parseFlags_one:
  assumes "flagName name" "map_of fs name = Some (FStr old)"
  shows "parseFlags fs (writeFlag (name, v) # args) = parseFlags (AList.update name (FStr v) fs) args"
proof -
  have "name \<in> fst ` set fs" using assms(2) by (metis map_of_SomeD fst_conv image_eqI)
  moreover have "hd name \<noteq> CHR ''=''" using assms(1) by (cases name) (auto simp: flagName_def)
  ultimately show ?thesis
    using assms takeWhile_flag[of name v] by (simp add: writeFlag_def flagName_def setFlag_def Let_def)
qed

text \<open>Flags that are written as arguments in front of the URLs are read as they were written, and the URLs are left over.\<close>

lemma parseFlags_written:
  assumes "\<forall>a \<in> set asg. flagName (fst a) \<and> (\<exists>old. map_of fs (fst a) = Some (FStr old))" "urls = [] \<or> \<not> HasPrefix (hd urls) ''-''"
  shows "parseFlags fs (map writeFlag asg @ urls) = Inr (fold (\<lambda>(n, v). AList.update n (FStr v)) asg fs, urls)"
  using assms(1)
proof (induction asg arbitrary: fs)
  case Nil
  show ?case
  proof (cases urls)
    case (Cons u us)
    then have "length u < 2 \<or> hd u \<noteq> CHR ''-''" using assms(2) by (cases u) (auto simp: HasPrefix_def)
    then show ?thesis using Cons by auto
  qed simp
next
  case (Cons a asg)
  obtain n v where a: "a = (n, v)" by (cases a)
  then obtain old where old: "flagName n" "map_of fs n = Some (FStr old)" using Cons.prems by auto
  have "\<forall>a \<in> set asg. flagName (fst a) \<and> (\<exists>old. map_of (AList.update n (FStr v) fs) (fst a) = Some (FStr old))"
    using Cons.prems by (auto simp: AList.update_conv')
  then show ?case using Cons.IH parseFlags_one[OF old, of v] a by simp
qed

section \<open>What a download command reports\<close>

lemma status_shown: "map_of (snapshot qe waitKeys d) ''status'' = Some (SStr (statusText (dStatus d)))"
  by (simp add: snapshot_def waitKeys_def map_of_statusFiltered statusKey_def)

lemma statusText_inj: "statusText a = statusText b \<longleftrightarrow> a = b"
  by (cases a; cases b) simp_all

text \<open>One round of polling sees exactly whether every download is there and complete.\<close>

lemma pollStatus_kept: "pollStatus qe gids e done_so_far failures = Inr (allDone, fs) \<Longrightarrow> (allDone \<longrightarrow> done_so_far) \<and> (\<exists>xs. fs = failures @ xs)"
  by (induction gids arbitrary: done_so_far failures) (fastforce simp: bindR_eq_Inr Let_def split: if_splits)+

lemma pollStatus_complete:
  "pollStatus qe gids e True [] = Inr (True, []) \<longleftrightarrow> (\<forall>g \<in> set gids. \<exists>i. findDownloadLocked g e = Inr i \<and> dStatus (obj e i) = StatusComplete)"
proof (induction gids)
  case (Cons g gids)
  have no: "pollStatus qe gids e x fs = Inr (True, []) \<Longrightarrow> x \<and> fs = []" for x fs using pollStatus_kept by fastforce
  show ?case
  proof (cases "findDownloadLocked g e")
    case (Inr i)
    then have st: "TellStatus qe g waitKeys e = Inr (snapshot qe waitKeys (obj e i))" by (simp add: TellStatus_def)
    show ?thesis
    proof (cases "dStatus (obj e i) = StatusComplete")
      case False
      then have "pollStatus qe (g # gids) e True [] \<noteq> Inr (True, [])"
        using st no by (auto simp: status_shown statusText_inj Let_def simp del: statusText.simps)
      then show ?thesis using False Inr by auto
    qed (use Cons.IH Inr st in \<open>simp add: status_shown statusText_inj del: statusText.simps\<close>)
  qed (simp add: TellStatus_def)
qed simp

lemma wait_complete:
  assumes "waitForDownloads qe gids cause e ts = (None, e')"
  shows "e' \<in> set ts \<and> (\<forall>g \<in> set gids. \<exists>i. findDownloadLocked g e' = Inr i \<and> dStatus (obj e' i) = StatusComplete)"
  using assms
proof (induction ts arbitrary: e)
  case (Cons t ts)
  show ?case
  proof (cases "pollStatus qe gids t True [] = Inr (True, [])")
    case True
    then show ?thesis using Cons.prems pollStatus_complete[of qe gids t] by simp
  next
    case False
    then have "waitForDownloads qe gids cause t ts = (None, e')" using Cons.prems by (auto split: sum.splits prod.splits if_splits)
    then show ?thesis using Cons.IH by auto
  qed
qed simp


lemma mergeCloseError_None: "mergeCloseError r c = None \<longleftrightarrow> r = None \<and> c = None"
  by (cases r; cases c) (simp_all add: mergeCloseError_def joinErrors_def)

text \<open>The engine moves between the calls of the command only by its own steps.\<close>

definition cliLaw :: "(string \<Rightarrow> bool res) \<Rightarrow> cliEnv \<Rightarrow> bool" where
  "cliLaw st ce \<longleftrightarrow>
     (\<forall>i e. (estep (ceSys ce) st)\<^sup>*\<^sup>* e (ceBetween ce i e)) \<and> (\<forall>e. \<forall>t \<in> set (ceTicks ce e). (estep (ceSys ce) st)\<^sup>*\<^sup>* e t)"

lemma reachable_steps: "reachable env st e \<Longrightarrow> (estep env st)\<^sup>*\<^sup>* e e' \<Longrightarrow> reachable env st e'"
  unfolding reachable_def by (meson rtranclp_trans)

lemma addURLs_reachable:
  assumes "addURLs ce fs n i raws gids e = (res, gids', e')" "cliLaw st ce" "reachable (ceSys ce) st e"
  shows "reachable (ceSys ce) st e' \<and> (\<forall>gs. res = Inr gs \<longrightarrow> length gs = length gids + length raws)"
  using assms(1,3)
proof (induction raws arbitrary: i gids e)
  case (Cons raw raws)
  obtain r e1 where add: "AddURI (ceSys ce) (ceRandom ce i) [raw] (cliOptions fs n i) None (ceBetween ce i e) = (r, e1)" by fastforce
  have "reachable (ceSys ce) st (ceBetween ce i e)" using Cons.prems(2) assms(2) reachable_steps by (auto simp: cliLaw_def)
  then have r1: "reachable (ceSys ce) st e1"
    using reachable_steps[OF _ r_into_rtranclp[of "estep (ceSys ce) st", OF estep.addURI[of "ceSys ce" st "ceBetween ce i e" "ceRandom ce i" "[raw]" "cliOptions fs n i" None]]] add by simp
  show ?case
  proof (cases r)
    case (Inl er)
    then show ?thesis using Cons.prems(1) add r1 by auto
  next
    case (Inr gid)
    then have "addURLs ce fs n (i + 1) raws (gids @ [gid]) e1 = (res, gids', e')" using Cons.prems(1) add by simp
    then show ?thesis using Cons.IH r1 by fastforce
  qed
qed auto

text \<open>C31: A download command that exits with status 0 after it was given URLs has added a download for each of them, and every one of these
  downloads is complete in the engine as it last saw it, an engine all the invariants of the engine hold of.\<close>

theorem download_success:
  assumes "cliLaw st ce" "cliDownload ce args = CliDownloaded res gids e" "exitCode (CliDownloaded res gids e) = 0"
  shows "\<exists>fs urls. parseFlags downloadFlags args = Inr (fs, urls) \<and> length gids = length urls \<and> urls \<noteq> [] \<and> reachable (ceSys ce) st e \<and>
    (\<forall>g \<in> set gids. \<exists>i. findDownloadLocked g e = Inr i \<and> dStatus (obj e i) = StatusComplete)"
proof -
  have res: "res = None" using assms(3) by (simp split: if_splits)
  obtain fs urls e0 where start: "parseFlags downloadFlags args = Inr (fs, urls)" "urls \<noteq> []"
      "startEngine ce (flagStr fs ''dir'') (flagStr fs ''user-agent'') '''' '''' = Inr e0"
    using assms(2) by (auto simp: cliDownload_def split: sum.splits prod.splits if_splits option.splits)
  obtain r gs e1 where add: "addURLs ce fs (length urls) 0 urls [] e0 = (r, gs, e1)" by (metis prod.exhaust)
  have "reachable (ceSys ce) st e0" using start(3) unfolding startEngine_def reachable_def einit_def by blast
  note reach = addURLs_reachable[OF add assms(1) this]
  have "ceLogger ce (flagStr fs ''log-level'') = None" using assms(2) start by (auto simp: cliDownload_def split: option.splits)
  then obtain waited where w: "r = Inr gids" "waitForDownloads (ceQuery ce) gids (ceCause ce) e1 (ceTicks ce e1) = (waited, e)"
      "res = mergeCloseError waited (ceCloseErr ce)"
    using assms(2) start add res by (auto simp: cliDownload_def mergeCloseError_def joinErrors_def split: sum.splits prod.splits option.splits)
  then have "waited = None" using res mergeCloseError_None by metis
  note e = wait_complete[OF w(2)[unfolded this]]
  then have "reachable (ceSys ce) st e" using reach assms(1) reachable_steps by (auto simp: cliLaw_def)
  then show ?thesis using start reach w(1) e by auto
qed


section \<open>An example command\<close>

text \<open>The options of a single URL without flags.\<close>

definition cliOpts :: options where
  "cliOpts = [(''split'', VStr ''4''), (''max-connection-per-server'', VStr ''4''), (''goaria-http-segment-size'', VStr ''50M''), (''http-version'', VStr ''auto'')]"

lemma cliDefaults: "cliOptions downloadFlags (Suc 0) 0 = cliOpts"
  by code_simp

lemma segmentSize_valid: "parseSizeValue ''50M'' = Inr 52428800"
proof -
  have "parseSizeValue (Itoa (int 50) @ ''M'') = Inr (int 50 * int 1048576)" by (rule parseSizeValue_unit) (simp_all add: sizeUnit_def)
  moreover have "Itoa (int 50) = ''50''" by code_simp
  ultimately show ?thesis by simp
qed

lemma cliDefaults_valid: "validateOptionValues cliOpts = Inr ()"
proof -
  have "ToLower ''auto'' = ''auto''" by (rule ToLower_lower) (simp add: lowerByte_def)
  then show ?thesis unfolding cliOpts_def by (simp add: segmentSize_valid options_eval httpVersionValues_def)
qed


definition finishFirst :: "Engine \<Rightarrow> Engine" where
  "finishFirst e = finishDownload Inr (0, 0) None '''' e"

definition exampleCli :: cliEnv where
  "exampleCli = \<lparr>ceSys = exampleEnv, ceLib = exampleSessionLib, ceQuery = plainQuery, ceAbs = (\<lambda>_. Inr ''/dl''), ceLogger = (\<lambda>_. None),
     ceContent = (\<lambda>_. Inr ''''), ceRandom = (\<lambda>_. gidA), ceSession = ''s'', ceNow = 0, ceBetween = (\<lambda>_ e. e),
     ceTicks = (\<lambda>e. if (0, 0) \<in> set (eRuns (scheduler e)) then [scheduler e, finishFirst (scheduler e)] else []), ceCause = ContextCanceled,
     ceServe = quietServe, ceFiles = (\<lambda>_. None), ceCloseErr = None\<rparr>"



lemma exampleCli_law: "cliLaw st exampleCli"
proof -
  have "estep exampleEnv st e (scheduler e)" for e by (rule estep.scheduler)
  moreover have "estep exampleEnv st e (finishFirst e)" if "(0, 0) \<in> set (eRuns e)" for e
    using estep.finish[OF that, of exampleEnv st None "''''"] by (simp add: finishFirst_def exampleEnv_def)
  ultimately have "(estep exampleEnv st)\<^sup>*\<^sup>* e (scheduler e)" "(0, 0) \<in> set (eRuns (scheduler e)) \<Longrightarrow> (estep exampleEnv st)\<^sup>*\<^sup>* e (finishFirst (scheduler e))" for e
    by (meson rtranclp.rtrancl_into_rtrancl r_into_rtranclp)+
  then show ?thesis unfolding cliLaw_def exampleCli_def by auto
qed

lemma cliOpts_read:
  "optionString (layerOptions (eGlobal exampleEngine) cliOpts) ''gid'' = ''''" "\<not> optionBool (layerOptions (eGlobal exampleEngine) cliOpts) ''pause''"
proof -
  have l: "\<not> internalKey k \<Longrightarrow> map_of cliOpts k = None \<Longrightarrow> optionString (layerOptions (eGlobal exampleEngine) cliOpts) k = optionString (eGlobal exampleEngine) k" for k
    by (rule layer.string_unwritten) simp_all
  have i: "\<not> internalKey ''gid''" "\<not> internalKey ''pause''"
    by (simp_all add: internalKey_def optionBaseKey_def sessionTorrentFinalizedOption_def sessionExplicitOptionsOption_def)
  have g: "optionValue (eGlobal exampleEngine) ''gid'' = None" "optionValue (eGlobal exampleEngine) ''pause'' = None"
    unfolding example_value by (simp_all add: example_global defaultOptions_def)
  show "optionString (layerOptions (eGlobal exampleEngine) cliOpts) ''gid'' = ''''" "\<not> optionBool (layerOptions (eGlobal exampleEngine) cliOpts) ''pause''"
    using l[OF i(1)] l[OF i(2)] g by (simp_all add: cliOpts_def optionBool_def optionString_def)
qed

definition cliAdded :: Engine where
  "cliAdded = saveSessionBestEffort (signal (exampleEngine\<lparr>eWaiting := [gidA],
     eHeap := [newDownload 0 gidA [''http://h/f''] (layerOptions (eGlobal exampleEngine) cliOpts)], eDownloads := [(gidA, 0)]\<rparr>))"

lemma cliAdded_eq: "AddURI exampleEnv gidA [''http://h/f''] cliOpts None exampleEngine = (Inr gidA, cliAdded)"
proof -
  have "\<not> EqualFold ''http'' ''magnet''" by (simp add: EqualFold_def kelvinSeq_def longSSeq_def asciiLower_def char_of_def)
  moreover have "eClock exampleEngine = 0" by (simp add: exampleEngine_def NewEngine_def Let_def)
  ultimately show ?thesis using cliDefaults_valid
    by (simp add: cliAdded_def AddURI_def isMagnetURI_def validateHTTPURI_def exampleEnv_def maxDownloadURIs_def
        admitDownload_def cliOpts_read insertWaitingLocked_def Let_def)
qed


lemma cliRunning:
  "eRuns (scheduler cliAdded) = [(0, 0)]" "eDownloads (scheduler cliAdded) = [(gidA, 0)]" "dStatus (obj (scheduler cliAdded) 0) = StatusActive"
  "dCtx (obj (scheduler cliAdded) 0) = Some 0" "dGid (obj (scheduler cliAdded) 0) = gidA" "length (eHeap (scheduler cliAdded)) = 1"
  "dRetainReservationsAfterRun (obj (scheduler cliAdded) 0) = None" "dPathResetAfterRun (obj (scheduler cliAdded) 0) = None"
  "dReservationTransitionAfterRun (obj (scheduler cliAdded) 0) = None" "eStopped (scheduler cliAdded) = []" "eStoppedSet (scheduler cliAdded) = []"
  "eDone (scheduler cliAdded) = False" "eGlobal (scheduler cliAdded) = eGlobal exampleEngine"
proof -
  have "\<not> eDone cliAdded" "eWake cliAdded" "\<not> eDone exampleEngine" "eStopped exampleEngine = []" "eStoppedSet exampleEngine = []"
    by (simp_all add: cliAdded_def go_defs exampleEngine_def NewEngine_def Let_def)
  then show "eRuns (scheduler cliAdded) = [(0, 0)]" "eDownloads (scheduler cliAdded) = [(gidA, 0)]" "dStatus (obj (scheduler cliAdded) 0) = StatusActive"
  "dCtx (obj (scheduler cliAdded) 0) = Some 0" "dGid (obj (scheduler cliAdded) 0) = gidA" "length (eHeap (scheduler cliAdded)) = 1"
  "dRetainReservationsAfterRun (obj (scheduler cliAdded) 0) = None" "dPathResetAfterRun (obj (scheduler cliAdded) 0) = None"
  "dReservationTransitionAfterRun (obj (scheduler cliAdded) 0) = None" "eStopped (scheduler cliAdded) = []" "eStoppedSet (scheduler cliAdded) = []"
  "eDone (scheduler cliAdded) = False" "eGlobal (scheduler cliAdded) = eGlobal exampleEngine"
    by (simp_all add: scheduler_def schedule_def cliAdded_def saveSessionBestEffort_def signal_def
        notify_def example_options obj_def setD_def setObj_def startRun_def newDownload_def zeroDownload_def Let_def)
qed


lemma cliFinished: "findDownloadLocked gidA (finishFirst (scheduler cliAdded)) = Inr 0" "dStatus (obj (finishFirst (scheduler cliAdded)) 0) = StatusComplete"
proof -
  let ?e = "scheduler cliAdded"
  have "optionValue (eGlobal exampleEngine) ''max-download-result'' = Some (VStr (Itoa 1000))"
    unfolding example_value by (simp add: example_global defaultOptions_def)
  then have "optionInt (eGlobal exampleEngine) ''max-download-result'' n = 1000" for n
    using Atoi_Itoa[of 1000] by (simp add: optionInt_def optionString_def isInt64_def)
  then have keep: "pruneStoppedLocked e = e" if "eGlobal e = eGlobal exampleEngine" "length (eStopped e) = 1" for e
  proof -
    have "length (prunable e) \<le> 1" using that(2) length_filter_le[of _ "eStopped e"] by (simp add: prunable_def)
    then show ?thesis using that(1) \<open>\<And>n. optionInt (eGlobal exampleEngine) ''max-download-result'' n = 1000\<close>
      by (simp add: pruneStoppedLocked_def maxResult_def Let_def)
  qed
  have same: "eDownloads (callCancel c e) = eDownloads e" "eHeap (callCancel c e) = eHeap e" "eDownloads (releaseOutputPaths g e) = eDownloads e"
      "eHeap (releaseOutputPaths g e) = eHeap e" "eDownloads (notify m g e) = eDownloads e" "eHeap (notify m g e) = eHeap e" for c g m and e :: Engine
    by (simp_all add: callCancel_def releaseOutputPaths_def notify_def Let_def split: option.splits)
  have "eDownloads (finishFirst ?e) = [(gidA, 0)] \<and> dStatus (obj (finishFirst ?e) 0) = StatusComplete"
    using cliRunning
    by (simp add: finishFirst_def finishDownload_def finishBook_def finishPaths_def finishTail_def finishStatus_def same
        appendStoppedLocked_def keep obj_def setD_def setObj_def isTerminal_def saveSessionBestEffort_def signal_def Let_def)
  then show "findDownloadLocked gidA (finishFirst ?e) = Inr 0" "dStatus (obj (finishFirst ?e) 0) = StatusComplete"
    by (simp_all add: findDownloadLocked_def gidA_def)
qed


theorem download_success_witness:
  "\<exists>e. cliDownload exampleCli [''http://h/f''] = CliDownloaded None [gidA] e \<and>
     reachable exampleEnv (\<lambda>_. Inr False) e \<and> (\<exists>i. findDownloadLocked gidA e = Inr i \<and> dStatus (obj e i) = StatusComplete)"
proof -
  let ?e = "scheduler cliAdded"
  have flags: "parseFlags downloadFlags [''http://h/f''] = Inr (downloadFlags, [''http://h/f''])" by simp
  have start: "startEngine exampleCli d '''' '''' '''' = Inr exampleEngine" for d
    using exampleEngine_new by (simp add: startEngine_def exampleCli_def newEngineWithInput_def)
  have add: "addURLs exampleCli downloadFlags (Suc 0) 0 [''http://h/f''] [] exampleEngine = (Inr [gidA], [gidA], cliAdded)"
    using cliAdded_eq by (simp add: exampleCli_def cliDefaults)
  have ticks: "ceTicks exampleCli cliAdded = [?e, finishFirst ?e]" by (simp add: exampleCli_def cliRunning)
  have "findDownloadLocked gidA ?e = Inr 0" by (simp add: findDownloadLocked_def cliRunning gidA_def)
  then have first: "pollStatus plainQuery [gidA] ?e True [] = Inr (False, [])"
    by (simp add: TellStatus_def status_shown cliRunning)
  have "pollStatus plainQuery [gidA] (finishFirst ?e) True [] = Inr (True, [])" using cliFinished by (subst pollStatus_complete) simp
  then have waited: "waitForDownloads plainQuery [gidA] ContextCanceled cliAdded [?e, finishFirst ?e] = (None, finishFirst ?e)"
    using first by (simp del: pollStatus.simps)
  have env: "ceLogger exampleCli l = None" "ceQuery exampleCli = plainQuery" "ceCause exampleCli = ContextCanceled" "ceCloseErr exampleCli = None" for l
    by (simp_all add: exampleCli_def)
  have ua: "flagStr downloadFlags ''user-agent'' = ''''" by (simp add: flagStr_def downloadFlags_def)
  have ran: "cliDownload exampleCli [''http://h/f''] = CliDownloaded None [gidA] (finishFirst ?e)"
    using start add ticks waited env ua by (simp add: cliDownload_def flags mergeCloseError_def del: parseFlags.simps addURLs.simps waitForDownloads.simps)
  have sys: "ceSys exampleCli = exampleEnv" by (simp add: exampleCli_def)
  show ?thesis using download_success[OF exampleCli_law[of "\<lambda>_. Inr False"] ran] ran sys by auto
qed

end
