(* ===== verification/Spec2Isabelle.thy ===== *)
theory Spec2Isabelle
  imports Cookies Http_Body Torrent_Run Command_Line
begin

text \<open>
  \<^bold>\<open>goaria\<close>. The program is a download daemon compatible with aria2: an engine that queues and runs
  HTTP and BitTorrent downloads (package goaria, src/*.go), a JSON-RPC server in front of it
  (src/jsonrpc) and a command (src/cmd/goaria). This library models all three in HOL and proves what
  makes them correct.

  \<^bold>\<open>How the parts interact.\<close> Clients call operations of the engine (engine.go, torrent_download.go,
  engine_scheduler.go), each of which runs under the engine's lock and changes the engine's record: the
  download objects, the waiting queue, the set of active gids, the list of stopped results and the table of
  reserved output paths. A scheduler loop starts runs of queued downloads; a run reports progress into its
  download object (download_progress.go, torrent_download.go) and ends with \<open>finishDownload\<close>. Queries
  (query.go) read the same state, and the session (session.go) saves and restores it. The requests of a run go through
  \<open>Engine.do\<close> (proxy.go, cookies.go), which chooses a client for the options of the download: its proxy, its cached
  transport, its cookies and timeouts. The JSON-RPC server turns payloads into operations of the engine, over HTTP and over
  WebSocket connections that also get its notifications. The command starts an engine and serves it, or adds URLs and waits for
  them.

  \<^bold>\<open>Conventions.\<close> A struct is a record, an enumeration a datatype, an error a value of type \<open>err\<close> in a
  sum \<open>'a res\<close>; an operation that changes the engine has type \<open>'a handler\<close>, from the engine to a result and
  the new engine. Objects reached through pointers live in the list \<open>eHeap\<close> and are named by their index,
  since the code relies on the identity of a download object (a gid may be removed and added again
  while its old run is live). Go's maps are association lists with distinct keys, its strings are lists
  of bytes, and its integers are \<open>int\<close> with the 64-bit bounds written out where the code
  meets them. Code outside the repository (URL parsing, base64, JSON, hashes, bencode, the torrent
  client, the file system, the network) is a parameter, a field of a record such as \<open>sysEnv\<close>, \<open>torrentLib\<close>,
  \<open>sessionLib\<close>, \<open>queryEnv\<close>, \<open>netEnv\<close>, \<open>proxyEnv\<close>, \<open>doEnv\<close>, \<open>torrentEnv\<close>, \<open>rpcEnv\<close>, \<open>serverEnv\<close>, \<open>serveEnv\<close> or \<open>cliEnv\<close>; what a
  theorem needs of it is a hypothesis of that theorem.

  \<^bold>\<open>The theories.\<close>
  \<^item> \<open>Goaria_Prelude\<close>: result and error types, bounds of the integers, lemmas on lists and association
    lists. \<open>Go_Strings\<close>: the functions of the packages strings and strconv the code uses.
  \<^item> \<open>Options\<close> (options.go): layered option maps, readers, the size parser, validation. A validated option reads
    back in its range; sizes with a unit read as the number times the unit.
  \<^item> \<open>Engine_State\<close> (engine.go, types.go, notifications.go): the records, subscriber channels, construction.
  \<^item> \<open>Reservations\<close> (download_util.go): the table of reserved output paths. A path has one owner, and a
    replacement leaves exactly the new paths.
  \<^item> \<open>Progress\<close> (download_progress.go, download_util.go): segments and bitfields. The segments partition the
    file, and bitfield and counters describe the same set of pieces.
  \<^item> \<open>Torrent_Files\<close> and \<open>Torrent_Meta\<close> (torrent_download.go): selection, layout, finalization and progress of the files
    of a torrent, and the validation of its metadata. No accepted layout leaves the download directory, and
    the completed length is always the sum over the selected files.
  \<^item> \<open>Engine_Ops\<close> (engine.go, engine_scheduler.go, torrent_download.go): every operation that changes the engine.
    \<open>Engine_Inv\<close>: the invariant \<open>engineInv\<close> and its preservation by each operation.
    \<open>Engine_Steps\<close>: the step relation \<open>estep\<close>, one step per critical section, its reachable states by the locale
    \<open>invariant_system\<close>, and the theorems on queue, runs, results, lookup and scheduling.
  \<^item> \<open>Session\<close> (session.go): reading, printing and restoring the session. \<open>Session_Proofs\<close>: what is written
    reads back, and the layers of a download's options survive. \<open>Session_Save\<close>: the session file is replaced
    atomically whichever call fails, and the delayed saves are a second instance of \<open>invariant_system\<close>.
  \<^item> \<open>Query\<close> (query.go): status, lists, paging, statistics, file names.
  \<^item> \<open>Http_Range\<close> (download_http.go, download_util.go): the headers of a request, Content-Range and the checks of
    partial responses, the metadata of a response, which errors are retried.
  \<^item> \<open>Rate_Limit\<close> (downloader.go): the chained rate limiters in the arithmetic of IEEE doubles, and the speed
    tracker. The bytes a limiter grants stay within its limit.
  \<^item> \<open>Http_Copy\<close> (downloader.go): the loop that copies a body into a file and counts progress.
  \<^item> \<open>Http_Single\<close> (downloader.go, download_util.go): the probe, the output path, and the two transfers over one
    connection, on a record of engine, files and a counter of outside calls. A success means that
    the file holds the representation.
  \<^item> \<open>Http_Segmented\<close> (downloader.go): the controller of the number of connections and the segmented download, whose
    concurrent range transfers are the interleavings of the step relation \<open>segStep\<close>. Further instances of
    \<open>invariant_system\<close> show that a throttled limit is never tried again, that the number of connections stays
    within the options, and that every execution that ends without an error has stored every byte; every
    reachable state can end.
  \<^item> \<open>Http_Runner\<close> (downloader.go): \<open>downloadURI\<close> and the rounds of \<open>runDownload\<close>. The laws of the transfers compose: a
    run that reports success has left the representation at the output path, and a run with a bound on
    its tries returns.
  \<^item> \<open>Go_Url\<close>: the functions of net/url and net the code relies on. \<open>Proxy_Config\<close> and \<open>Transports\<close> (proxy.go): the proxy of a
    request, the rules that bypass it, and the cached transports. A request gets the transport that would be made for its options
    without the cache, and a forced HTTP version never skips a proxy.
  \<^item> \<open>Cookies\<close> (cookies.go): the cookie file of a download. \<open>Http_Client\<close> (proxy.go): \<open>Engine.do\<close>. Credentials are sent to the origin they
    belong to and nowhere else. \<open>Http_Body\<close> (proxy.go): the wrappers of a response body; the idle timeout is a step relation and a further
    instance of \<open>invariant_system\<close>.
  \<^item> \<open>Torrent_Run\<close> (torrent_download.go): the fetch of a torrent, the configuration of the client, and \<open>runTorrentDownload\<close> on what the client
    reports. The locale \<open>torrent_kept\<close> carries a property of a download through a run; its two instances are the accounting and the
    layout, from which the run keeps the output paths it reserved.
  \<^item> \<open>Json\<close> (jsonrpc/rpc_params.go): the decoder over bytes. \<open>Rpc\<close> (jsonrpc/rpc.go, rpc_methods.go, rpc_params.go): payloads, batches, the secret,
    every method; a payload is a sequence of steps of the engine. \<open>Rpc_Server\<close> and \<open>Rpc_Listen\<close> (jsonrpc/server.go): the HTTP endpoint, the WebSocket
    connections as a step relation, and how the server stops.
  \<^item> \<open>Command_Line\<close> (cmd/goaria/main.go): the flags, the daemon and the download command. An exit status of 0 means that every download is
    complete.
  \<^item> This theory: what validated options mean to the transports.

  \<^bold>\<open>Termination and bounds.\<close> Loops over data are structural. \<open>scheduleLoop\<close> counts down the candidates the
  code counts, and \<open>reserveRenamed\<close>, \<open>nextAvailableFrom\<close>, \<open>chunksFrom\<close> and \<open>wait\<close> are functions with a measure: the 10000 names
  the code tries, and the bytes left. \<open>runLoop\<close> may try forever when \<open>max-tries\<close> is 0 and is a partial function into
  options, where \<open>None\<close> is a run that does not return; \<open>fetchLoop\<close> is another one. Waits that end with an event of the environment are
  recursions over the events before it. No definition has fuel.

  \<^bold>\<open>Not modelled.\<close> Sockets, TLS and dialling, which belong to net/http, x/net and quic-go; the torrent client behind its calls; the
  logger; the canonical key of an output path, which follows symbolic links of the file system and is a parameter; the printing of
  JSON-RPC responses (\<open>json.Marshal\<close>), which are values here; timers other than those named above. Reads of a clock are arguments. Locks
  are modelled by the atomicity of a step: each definition that changes the engine is one critical
  section, and an operation with several has several definitions.
\<close>

section \<open>Validated timeouts\<close>

text \<open>C32: When the options of a download passed validation, the timeouts they set reach the transport and the response body as exactly so many
  nanoseconds: no value that was accepted wraps or is cut on its way from the request to the connection.\<close>

theorem validated_timeouts:
  assumes "validateOptionValues opts = Inr ()" "distinct (map fst opts)"
    "map_of opts ''timeout'' = Some v" "notFloat v" "map_of opts ''connect-timeout'' = Some w" "notFloat w"
    "buildProxyConfig px scheme (layerOptions base opts) = Inr cfg"
  shows "\<exists>t c. 0 \<le> t \<and> 0 \<le> c \<and> optionInt (layerOptions base opts) ''timeout'' 60 = t \<and> optionInt (layerOptions base opts) ''connect-timeout'' 60 = c \<and>
    cfHeaderTimeout cfg = t * 1000000000 \<and> responseBodyTimeout (layerOptions base opts) = t * 1000000000 \<and> cfConnectTimeout cfg = c * 1000000000"
proof -
  have keys: "''timeout'' \<in> set intOptionKeys" "''connect-timeout'' \<in> set intOptionKeys" by (simp_all add: intOptionKeys_def)
  obtain t where t: "0 \<le> t" "t \<le> MaxInt64 div 1000000000" "optionInt (layerOptions base opts) ''timeout'' 60 = t"
    using validated_int_text[OF assms(1,2,3,4) keys(1), of base] by auto
  obtain c where c: "0 \<le> c" "c \<le> MaxInt64 div 1000000000" "optionInt (layerOptions base opts) ''connect-timeout'' 60 = c"
    using validated_int_text[OF assms(1,2,5,6) keys(2), of base] by auto
  have exact: "nanoseconds n = n * 1000000000" if "0 \<le> n" "n \<le> MaxInt64 div 1000000000" for n
    using that by (simp add: nanoseconds_def wrap64_nonneg_id)
  show ?thesis using t c exact build_fields(4)[OF assms(7)] by (auto simp: responseBodyTimeout_exact)
qed

definition timeoutOpts :: options where
  "timeoutOpts = [(''timeout'', VNum ''30''), (''connect-timeout'', VNum ''10'')]"

theorem validated_timeouts_witness:
  "\<exists>cfg. buildProxyConfig proxyExample ''https'' (layerOptions [] timeoutOpts) = Inr cfg \<and> (\<exists>t \<ge> 0. cfHeaderTimeout cfg = t * 1000000000)"
proof -
  have valid: "validateOptionValues timeoutOpts = Inr ()" by (simp add: timeoutOpts_def options_eval)
  have empty: "optionValue [] k = None" for k by (subst optionValue_flat) simp_all
  have none: "optionValue (layerOptions [] timeoutOpts) k = None" if "k = ''https-proxy'' \<or> k = ''all-proxy''" for k
    using that empty by (subst layer.read_unwritten)
      (auto simp: timeoutOpts_def internalKey_def optionBaseKey_def sessionTorrentFinalizedOption_def sessionExplicitOptionsOption_def)
  then obtain cfg where cfg: "buildProxyConfig proxyExample ''https'' (layerOptions [] timeoutOpts) = Inr cfg"
    by (simp add: buildProxyConfig_def proxySpecForScheme_def optionPresent_def)
  show ?thesis using validated_timeouts[OF valid _ _ _ _ _ cfg] cfg by (auto simp: timeoutOpts_def)
qed

end
